(* ===== verification/PyBase.thy ===== *)
theory PyBase
  imports Main "HOL-Library.Multiset" "HOL-Library.AList" "HOL-Library.Char_ord" "HOL-Library.List_Lexorder"
    "HOL-Library.Product_Lexorder"
begin

text \<open>
  The prelude of the development: the parts of Python that every component of the
  liquidation bot uses.
  \<^item> errors: an exception is a value of \<open>py_error\<close>, a computation that may raise is a
    \<open>'a res\<close> (\<open>Inl\<close> the exception, \<open>Inr\<close> the result);
  \<^item> effects: a statement that reads and writes the state \<open>'s\<close> is an \<open>('s, 'a) eff\<close>; what it
    wrote before raising stays written, as in Python;
  \<^item> dictionaries: association lists in insertion order, as Python dictionaries iterate;
  \<^item> lists: negative indices, slices, the stable \<open>sorted\<close> in both directions.
  Two small program logics for effects come with it: \<open>keeps\<close> for invariants, with one rule per
  combinator, and \<open>frames\<close> for the fields an effect leaves alone.
\<close>

named_theorems py_simps \<open>unfolding the error and effect combinators\<close>
named_theorems keeps_intros \<open>invariant rules, one per effect combinator\<close>

section \<open>Exceptions\<close>

datatype py_error =
    ZeroDivisionError
  | KeyError
  | IndexError
  | TypeError
  | ValueError
  | AttributeError
  | AssertionError
  | UnboundLocalError
  | NameError
  | Raised string

type_synonym 'a res = "py_error + 'a"

definition bindR :: "'a res \<Rightarrow> ('a \<Rightarrow> 'b res) \<Rightarrow> 'b res" where
  "bindR m k = (case m of Inl e \<Rightarrow> Inl e | Inr x \<Rightarrow> k x)"

lemma bindR_simps [simp]:
  "bindR (Inl e) k = Inl e"
  "bindR (Inr x) k = k x"
  by (simp_all add: bindR_def)

lemma bindR_Inr_iff [simp]: "bindR m k = Inr y \<longleftrightarrow> (\<exists>x. m = Inr x \<and> k x = Inr y)"
  by (cases m) auto

lemma bindR_Inl_iff: "bindR m k = Inl e \<longleftrightarrow> m = Inl e \<or> (\<exists>x. m = Inr x \<and> k x = Inl e)"
  by (cases m) auto

definition opt_res :: "py_error \<Rightarrow> 'a option \<Rightarrow> 'a res" where
  "opt_res e x = (case x of None \<Rightarrow> Inl e | Some y \<Rightarrow> Inr y)"

lemma opt_res_simps [simp]:
  "opt_res e None = Inl e"
  "opt_res e (Some y) = Inr y"
  by (simp_all add: opt_res_def)

lemma opt_res_Inr_iff [simp]: "opt_res e x = Inr y \<longleftrightarrow> x = Some y"
  by (cases x) auto

definition guardR :: "bool \<Rightarrow> py_error \<Rightarrow> unit res" where
  "guardR b e = (if b then Inr () else Inl e)"

lemma guardR_Inr_iff [simp]: "guardR b e = Inr u \<longleftrightarrow> b"
  by (simp add: guardR_def)

text \<open>Running a raising function over a list stops at the first exception.\<close>

fun mapR :: "('a \<Rightarrow> 'b res) \<Rightarrow> 'a list \<Rightarrow> 'b list res" where
  "mapR f [] = Inr []"
| "mapR f (x # xs) = bindR (f x) (\<lambda>y. bindR (mapR f xs) (\<lambda>ys. Inr (y # ys)))"

fun foldR :: "('b \<Rightarrow> 'a \<Rightarrow> 'a res) \<Rightarrow> 'b list \<Rightarrow> 'a \<Rightarrow> 'a res" where
  "foldR f [] a = Inr a"
| "foldR f (x # xs) a = bindR (f x a) (foldR f xs)"

lemma mapR_length: "mapR f xs = Inr ys \<Longrightarrow> length ys = length xs"
  by (induction xs arbitrary: ys) auto

lemma mapR_append: "mapR f (xs @ ys) = bindR (mapR f xs) (\<lambda>a. bindR (mapR f ys) (\<lambda>b. Inr (a @ b)))"
  by (induction xs) (auto simp: bindR_def split: sum.splits)

lemma mapR_in: "mapR f xs = Inr ys \<Longrightarrow> y \<in> set ys \<Longrightarrow> \<exists>x \<in> set xs. f x = Inr y"
  by (induction xs arbitrary: ys) auto

lemma mapR_nth: "mapR f xs = Inr ys \<Longrightarrow> i < length xs \<Longrightarrow> f (xs ! i) = Inr (ys ! i)"
  by (induction xs arbitrary: ys i) (auto simp: nth_Cons split: nat.splits)

lemma mapR_Inr_map: "(\<And>x. x \<in> set xs \<Longrightarrow> f x = Inr (g x)) \<Longrightarrow> mapR f xs = Inr (map g xs)"
  by (induction xs) auto

lemma foldR_append: "foldR f (xs @ ys) a = bindR (foldR f xs a) (foldR f ys)"
  by (induction xs arbitrary: a) (auto simp: bindR_def split: sum.splits)

text \<open>An invariant of the accumulator, by the loop rule.\<close>

lemma foldR_inv:
  assumes "foldR f xs a = Inr b" and "I a"
    and "\<And>x a a'. x \<in> set xs \<Longrightarrow> I a \<Longrightarrow> f x a = Inr a' \<Longrightarrow> I a'"
  shows "I b"
  using assms by (induction xs arbitrary: a) auto

section \<open>Effects\<close>

type_synonym ('s, 'a) eff = "'s \<Rightarrow> 'a res \<times> 's"

definition returnE :: "'a \<Rightarrow> ('s, 'a) eff" where
  "returnE x = (\<lambda>s. (Inr x, s))"

definition raiseE :: "py_error \<Rightarrow> ('s, 'a) eff" where
  "raiseE e = (\<lambda>s. (Inl e, s))"

definition bindE :: "('s, 'a) eff \<Rightarrow> ('a \<Rightarrow> ('s, 'b) eff) \<Rightarrow> ('s, 'b) eff" where
  "bindE m k = (\<lambda>s. case m s of (Inl e, s') \<Rightarrow> (Inl e, s') | (Inr x, s') \<Rightarrow> k x s')"

definition thenE :: "('s, 'a) eff \<Rightarrow> ('s, 'b) eff \<Rightarrow> ('s, 'b) eff" where
  "thenE m k = bindE m (\<lambda>_. k)"

definition liftR :: "'a res \<Rightarrow> ('s, 'a) eff" where
  "liftR r = (\<lambda>s. (r, s))"

definition getE :: "('s \<Rightarrow> 'a) \<Rightarrow> ('s, 'a) eff" where
  "getE f = (\<lambda>s. (Inr (f s), s))"

definition getR :: "('s \<Rightarrow> 'a res) \<Rightarrow> ('s, 'a) eff" where
  "getR f = (\<lambda>s. (f s, s))"

definition modE :: "('s \<Rightarrow> 's) \<Rightarrow> ('s, unit) eff" where
  "modE f = (\<lambda>s. (Inr (), f s))"

definition whenE :: "bool \<Rightarrow> ('s, unit) eff \<Rightarrow> ('s, unit) eff" where
  "whenE b m = (if b then m else returnE ())"

text \<open>\<open>try: m except Exception: h\<close>: what \<open>m\<close> wrote before it raised stays written.\<close>

definition tryE :: "('s, 'a) eff \<Rightarrow> (py_error \<Rightarrow> ('s, 'a) eff) \<Rightarrow> ('s, 'a) eff" where
  "tryE m h = (\<lambda>s. case m s of (Inl e, s') \<Rightarrow> h e s' | (Inr x, s') \<Rightarrow> (Inr x, s'))"

fun forE :: "('b \<Rightarrow> ('s, unit) eff) \<Rightarrow> 'b list \<Rightarrow> ('s, unit) eff" where
  "forE f [] = returnE ()"
| "forE f (x # xs) = bindE (f x) (\<lambda>_. forE f xs)"

fun mapE :: "('b \<Rightarrow> ('s, 'a) eff) \<Rightarrow> 'b list \<Rightarrow> ('s, 'a list) eff" where
  "mapE f [] = returnE []"
| "mapE f (x # xs) = bindE (f x) (\<lambda>y. bindE (mapE f xs) (\<lambda>ys. returnE (y # ys)))"

fun foldE :: "('b \<Rightarrow> 'a \<Rightarrow> ('s, 'a) eff) \<Rightarrow> 'b list \<Rightarrow> 'a \<Rightarrow> ('s, 'a) eff" where
  "foldE f [] a = returnE a"
| "foldE f (x # xs) a = bindE (f x a) (foldE f xs)"

lemma eff_apply [py_simps]:
  "returnE x s = (Inr x, s)"
  "raiseE e s = (Inl e, s)"
  "liftR r s = (r, s)"
  "getE f s = (Inr (f s), s)"
  "getR g s = (g s, s)"
  "modE h s = (Inr (), h s)"
  "thenE m k = bindE m (\<lambda>_. k)"
  by (simp_all add: returnE_def raiseE_def liftR_def getE_def getR_def modE_def thenE_def)

lemma bindE_apply [py_simps]:
  "bindE m k s = (case fst (m s) of Inl e \<Rightarrow> (Inl e, snd (m s)) | Inr x \<Rightarrow> k x (snd (m s)))"
  by (simp add: bindE_def split: prod.splits sum.splits)

text \<open>A sequence that raised nothing: every part raised nothing.\<close>

lemma bindE_Inr_iff:
  "bindE m k s = (Inr y, s') \<longleftrightarrow> (\<exists>x s1. m s = (Inr x, s1) \<and> k x s1 = (Inr y, s'))"
  by (auto simp: bindE_def split: prod.splits sum.splits)

lemma thenE_Inr_iff:
  "thenE m k s = (Inr y, s') \<longleftrightarrow> (\<exists>x s1. m s = (Inr x, s1) \<and> k s1 = (Inr y, s'))"
  by (simp add: thenE_def bindE_Inr_iff)

lemma whenE_apply [py_simps]: "whenE b m s = (if b then m s else (Inr (), s))"
  by (simp add: whenE_def returnE_def)

lemma tryE_apply [py_simps]:
  "tryE m h s = (case fst (m s) of Inl e \<Rightarrow> h e (snd (m s)) | Inr x \<Rightarrow> (Inr x, snd (m s)))"
  by (simp add: tryE_def split: prod.splits sum.splits)

lemma forE_append: "forE f (xs @ ys) = bindE (forE f xs) (\<lambda>_. forE f ys)"
  by (induction xs) (auto simp: fun_eq_iff py_simps split: sum.splits)

subsection \<open>Invariants of effects\<close>

definition keeps :: "('s \<Rightarrow> bool) \<Rightarrow> ('s, 'a) eff \<Rightarrow> bool" where
  "keeps P m \<longleftrightarrow> (\<forall>s. P s \<longrightarrow> P (snd (m s)))"

lemma keepsI: "(\<And>s. P s \<Longrightarrow> P (snd (m s))) \<Longrightarrow> keeps P m"
  by (simp add: keeps_def)

lemma keepsD: "keeps P m \<Longrightarrow> P s \<Longrightarrow> P (snd (m s))"
  by (simp add: keeps_def)

lemma keeps_basic [keeps_intros]:
  "keeps P (returnE x)"
  "keeps P (raiseE e)"
  "keeps P (liftR r)"
  "keeps P (getE f)"
  "keeps P (getR g)"
  by (simp_all add: keeps_def py_simps)

lemma keeps_modE [keeps_intros]: "(\<And>s. P s \<Longrightarrow> P (f s)) \<Longrightarrow> keeps P (modE f)"
  by (simp add: keeps_def py_simps)

lemma keeps_bindE [keeps_intros]:
  assumes "keeps P m" and "\<And>x. keeps P (k x)"
  shows "keeps P (bindE m k)"
  using assms by (auto simp: keeps_def py_simps split: sum.splits)

lemma keeps_thenE [keeps_intros]: "keeps P m \<Longrightarrow> keeps P k \<Longrightarrow> keeps P (thenE m k)"
  by (simp add: thenE_def keeps_bindE)

lemma keeps_whenE [keeps_intros]: "(b \<Longrightarrow> keeps P m) \<Longrightarrow> keeps P (whenE b m)"
  by (simp add: whenE_def keeps_basic)

lemma keeps_if [keeps_intros]:
  "(b \<Longrightarrow> keeps P m) \<Longrightarrow> (\<not> b \<Longrightarrow> keeps P n) \<Longrightarrow> keeps P (if b then m else n)"
  by simp

lemma keeps_tryE [keeps_intros]:
  assumes "keeps P m" and "\<And>e. keeps P (h e)"
  shows "keeps P (tryE m h)"
  using assms by (auto simp: keeps_def py_simps split: sum.splits)

lemma keeps_forE [keeps_intros]: "(\<And>x. x \<in> set xs \<Longrightarrow> keeps P (f x)) \<Longrightarrow> keeps P (forE f xs)"
  by (induction xs) (auto intro!: keeps_basic keeps_bindE)

lemma keeps_mapE [keeps_intros]: "(\<And>x. x \<in> set xs \<Longrightarrow> keeps P (f x)) \<Longrightarrow> keeps P (mapE f xs)"
  by (induction xs) (auto intro!: keeps_basic keeps_bindE)

lemma keeps_foldE [keeps_intros]:
  "(\<And>x a. x \<in> set xs \<Longrightarrow> keeps P (f x a)) \<Longrightarrow> keeps P (foldE f xs a)"
  by (induction xs arbitrary: a) (auto intro!: keeps_basic keeps_bindE)

text \<open>A field that no statement writes keeps its value.\<close>

definition frames :: "('s \<Rightarrow> 'b) \<Rightarrow> ('s, 'a) eff \<Rightarrow> bool" where
  "frames f m \<longleftrightarrow> (\<forall>s. f (snd (m s)) = f s)"

lemma frames_keeps: "frames f m \<longleftrightarrow> (\<forall>v. keeps (\<lambda>s. f s = v) m)"
  by (auto simp: frames_def keeps_def)

lemma framesI: "(\<And>v. keeps (\<lambda>s. f s = v) m) \<Longrightarrow> frames f m"
  by (simp add: frames_keeps)

lemma framesD: "frames f m \<Longrightarrow> f (snd (m s)) = f s"
  by (simp add: frames_def)

section \<open>Dictionaries in insertion order\<close>

type_synonym ('k, 'v) dict = "('k \<times> 'v) list"

abbreviation dget :: "('k, 'v) dict \<Rightarrow> 'k \<Rightarrow> 'v option" where
  "dget \<equiv> map_of"

abbreviation dput :: "'k \<Rightarrow> 'v \<Rightarrow> ('k, 'v) dict \<Rightarrow> ('k, 'v) dict" where
  "dput \<equiv> AList.update"

abbreviation ddel :: "'k \<Rightarrow> ('k, 'v) dict \<Rightarrow> ('k, 'v) dict" where
  "ddel \<equiv> AList.delete"

abbreviation dkeys :: "('k, 'v) dict \<Rightarrow> 'k list" where
  "dkeys d \<equiv> map fst d"

text \<open>\<open>d[k]\<close> raises on a missing key.\<close>

definition dgetR :: "('k, 'v) dict \<Rightarrow> 'k \<Rightarrow> 'v res" where
  "dgetR d k = opt_res KeyError (dget d k)"

lemma dgetR_Inr_iff [simp]: "dgetR d k = Inr v \<longleftrightarrow> dget d k = Some v"
  by (simp add: dgetR_def)

lemma dgetR_Some [simp]: "dget d k = Some v \<Longrightarrow> dgetR d k = Inr v"
  by simp

lemma dgetR_None [simp]: "dget d k = None \<Longrightarrow> dgetR d k = Inl KeyError"
  by (simp add: dgetR_def)

text \<open>\<open>d.update(other)\<close> writes the entries one by one.\<close>

definition dupdate :: "('k, 'v) dict \<Rightarrow> ('k, 'v) dict \<Rightarrow> ('k, 'v) dict" where
  "dupdate d e = fold (\<lambda>(k, v). dput k v) e d"

definition dict_ok :: "('k, 'v) dict \<Rightarrow> bool" where
  "dict_ok d \<longleftrightarrow> distinct (dkeys d)"

lemma dict_ok_Nil [simp]: "dict_ok []"
  by (simp add: dict_ok_def)

lemma dict_ok_dput [simp]: "dict_ok d \<Longrightarrow> dict_ok (dput k v d)"
  by (simp add: dict_ok_def distinct_update)

lemma dict_ok_ddel [simp]: "dict_ok d \<Longrightarrow> dict_ok (ddel k d)"
  by (simp add: dict_ok_def distinct_delete)

lemma dget_dput [simp]: "dget (dput k v d) k' = (if k' = k then Some v else dget d k')"
  by (simp add: update_conv)

lemma dget_ddel [simp]: "dget (ddel k d) k' = (if k' = k then None else dget d k')"
  by (simp add: delete_conv)

lemma dget_in_keys: "dget d k = Some v \<Longrightarrow> k \<in> set (dkeys d)"
  by (force dest: map_of_SomeD)

lemma dget_Some_iff_key: "(\<exists>v. dget d k = Some v) \<longleftrightarrow> k \<in> set (dkeys d)"
  by (induction d) auto

lemma dget_mem: "dict_ok d \<Longrightarrow> (k, v) \<in> set d \<Longrightarrow> dget d k = Some v"
  by (simp add: dict_ok_def map_of_is_SomeI)

lemma dict_ok_mem_iff: "dict_ok d \<Longrightarrow> (k, v) \<in> set d \<longleftrightarrow> dget d k = Some v"
  by (auto simp: dget_mem dest: map_of_SomeD)

lemma dict_ok_ball: "dict_ok d \<Longrightarrow> (\<forall>(k, v) \<in> set d. P k v) \<longleftrightarrow> (\<forall>k v. dget d k = Some v \<longrightarrow> P k v)"
  by (auto simp: dict_ok_mem_iff)

lemma dict_ok_dupdate: "dict_ok d \<Longrightarrow> dict_ok (dupdate d e)"
  unfolding dupdate_def by (induction e arbitrary: d) auto

lemma dget_dupdate: "dget (dupdate d e) k = (case dget (rev e) k of None \<Rightarrow> dget d k | Some v \<Rightarrow> Some v)"
  unfolding dupdate_def
  by (induction e arbitrary: d) (auto simp: map_add_def split: option.splits)

lemma dkeys_dput_mem: "k \<in> set (dkeys d) \<Longrightarrow> dkeys (dput k v d) = dkeys d"
  by (induction d) auto

lemma dput_new: "k \<notin> set (dkeys d) \<Longrightarrow> dput k v d = d @ [(k, v)]"
  by (induction d) auto

section \<open>Lists\<close>

definition py_index :: "'a list \<Rightarrow> int \<Rightarrow> 'a res" where
  \<comment> \<open>\<open>xs[i]\<close>: negative indices count from the end\<close>
  "py_index xs i =
     (if - int (length xs) \<le> i \<and> i < int (length xs)
      then Inr (xs ! nat (i mod int (length xs))) else Inl IndexError)"

lemma py_index_nat [simp]: "i < length xs \<Longrightarrow> py_index xs (int i) = Inr (xs ! i)"
  by (simp add: py_index_def)

lemma py_index_0: "py_index xs 0 = (case xs of [] \<Rightarrow> Inl IndexError | x # _ \<Rightarrow> Inr x)"
  by (simp add: py_index_def split: list.splits)

definition slice :: "'a list \<Rightarrow> nat \<Rightarrow> nat \<Rightarrow> 'a list" where
  \<comment> \<open>\<open>xs[i:j]\<close> for bounds that are not negative; out of range is truncated, never an error\<close>
  "slice xs i j = take (j - i) (drop i xs)"

lemma length_slice: "length (slice xs i j) = min (j - i) (length xs - i)"
  by (simp add: slice_def)

lemma set_slice: "set (slice xs i j) \<subseteq> set xs"
  by (auto simp: slice_def dest: in_set_takeD in_set_dropD)

text \<open>\<open>sorted(xs)\<close> and \<open>sorted(xs, reverse=True)\<close>: both are stable.\<close>

abbreviation py_sorted :: "'a::linorder list \<Rightarrow> 'a list" where
  "py_sorted \<equiv> sort"

definition sort_key_rev :: "('a \<Rightarrow> 'b::linorder) \<Rightarrow> 'a list \<Rightarrow> 'a list" where
  "sort_key_rev f xs = rev (sort_key f (rev xs))"

lemma set_sort_key_rev [simp]: "set (sort_key_rev f xs) = set xs"
  by (simp add: sort_key_rev_def)

lemma length_sort_key_rev [simp]: "length (sort_key_rev f xs) = length xs"
  by (simp add: sort_key_rev_def)

lemma mset_sort_key_rev [simp]: "mset (sort_key_rev f xs) = mset xs"
  by (simp add: sort_key_rev_def)

lemma sort_key_rev_Nil_iff [simp]: "sort_key_rev f xs = [] \<longleftrightarrow> xs = []"
  by (metis length_0_conv length_sort_key_rev)

lemma sorted_sort_key_rev: "sorted_wrt (\<lambda>x y. f y \<le> f x) (sort_key_rev f xs)"
proof -
  have "sorted_wrt (\<lambda>x y. f x \<le> f y) (sort_key f (rev xs))"
    by (metis sorted_map sorted_sort_key)
  then show ?thesis
    by (simp add: sort_key_rev_def sorted_wrt_rev)
qed

lemma sort_key_rev_hd_max:
  assumes "x \<in> set xs"
  shows "f x \<le> f (hd (sort_key_rev f xs))"
proof (cases "sort_key_rev f xs")
  case Nil
  with assms show ?thesis by (auto dest: arg_cong [where f = length])
next
  case (Cons y ys)
  have "x \<in> set (y # ys)"
    using assms Cons by (metis set_sort_key_rev)
  with sorted_sort_key_rev [of f xs] Cons show ?thesis by auto
qed

definition list_del_one :: "'a \<Rightarrow> 'a list \<Rightarrow> 'a list" where
  \<comment> \<open>\<open>xs.remove(x)\<close> when \<open>x\<close> occurs: the first occurrence goes\<close>
  "list_del_one x xs = remove1 x xs"

text \<open>\<open>xs.insert(i, x)\<close> for an index that is not negative.\<close>

definition list_insert_at :: "nat \<Rightarrow> 'a \<Rightarrow> 'a list \<Rightarrow> 'a list" where
  "list_insert_at i x xs = take i xs @ x # drop i xs"

lemma set_list_insert_at [simp]: "set (list_insert_at i x xs) = insert x (set xs)"
proof -
  have "set (take i xs) \<union> set (drop i xs) = set xs"
    by (metis append_take_drop_id set_append)
  then show ?thesis by (auto simp: list_insert_at_def)
qed

text \<open>\<open>a // b\<close> on integers: floor division, an exception for a zero divisor.\<close>

definition py_div :: "int \<Rightarrow> int \<Rightarrow> int res" where
  "py_div a b = (if b = 0 then Inl ZeroDivisionError else Inr (a div b))"

lemma py_div_Inr_iff [simp]: "py_div a b = Inr c \<longleftrightarrow> b \<noteq> 0 \<and> c = a div b"
  by (auto simp: py_div_def)

lemma py_div_simps [simp]: "b \<noteq> 0 \<Longrightarrow> py_div a b = Inr (a div b)" "py_div a 0 = Inl ZeroDivisionError"
  by (simp_all add: py_div_def)

end
