(* ===== verification/PyFloat.thy ===== *)
theory PyFloat
  imports Complex_Main "HOL-Library.Log_Nat" PyBase
begin

text \<open>
  Python's \<open>float\<close>: a finite IEEE double is the rational number it denotes, and every operation
  is the exact operation followed by \<open>rnd\<close>, which rounds to the nearest number with a
  53-bit significand, ties to even. Comparisons of floats with floats and with integers are
  exact in Python, so they are the comparisons of the rationals. The exponent range is not
  bounded: the bot's quantities are ratios and products of 256-bit token amounts, whose
  magnitudes stay far inside the range of a double (about \<open>2 ^ -1074\<close> to \<open>2 ^ 1024\<close>), so
  neither overflow, infinities nor subnormal numbers occur.

  The locale \<open>rounding\<close> states what the components rely on; its interpretation on \<open>rnd\<close> proves
  it for the actual rounding.
\<close>

type_synonym pyfloat = rat

section \<open>Rounding to 53 bits\<close>

text \<open>Round to the nearest integer, ties to even.\<close>

definition rne :: "rat \<Rightarrow> int" where
  "rne y = (let f = \<lfloor>y\<rfloor>; r = y - of_int f in
     if r < 1/2 then f else if 1/2 < r then f + 1 else if even f then f else f + 1)"

text \<open>The exponent of the leading bit.\<close>

definition fl_exp :: "rat \<Rightarrow> int" where
  "fl_exp x = (let (n, d) = quotient_of \<bar>x\<bar>; e = bitlen n - bitlen d
     in if 2 powi e \<le> \<bar>x\<bar> then e else e - 1)"

definition rnd :: "rat \<Rightarrow> pyfloat" where
  "rnd x = (if x = 0 then 0
     else let u = 2 powi (fl_exp x - 52) in of_int (rne (x / u)) * u)"

lemma rne_of_int [simp]: "rne (of_int k) = k"
  by (simp add: rne_def)

lemma rne_bounds: "of_int (rne y) - 1/2 \<le> y \<and> y \<le> of_int (rne y) + 1/2"
proof -
  have "of_int \<lfloor>y\<rfloor> \<le> y" and "y < of_int \<lfloor>y\<rfloor> + 1" by linarith+
  then show ?thesis
    unfolding rne_def Let_def by (cases "y - of_int \<lfloor>y\<rfloor> < 1/2"; cases "1/2 < y - of_int \<lfloor>y\<rfloor>"; simp; linarith)
qed

lemma rne_mono: "x \<le> y \<Longrightarrow> rne x \<le> rne y"
proof -
  assume xy: "x \<le> y"
  show ?thesis
  proof (cases "\<lfloor>x\<rfloor> = \<lfloor>y\<rfloor>")
    case True
    then show ?thesis using xy by (auto simp: rne_def Let_def)
  next
    case False
    with xy have "\<lfloor>x\<rfloor> + 1 \<le> \<lfloor>y\<rfloor>" using floor_mono [OF xy] by linarith
    moreover have "rne x \<le> \<lfloor>x\<rfloor> + 1" by (auto simp: rne_def Let_def)
    moreover have "\<lfloor>y\<rfloor> \<le> rne y" by (auto simp: rne_def Let_def)
    ultimately show ?thesis by linarith
  qed
qed

lemma rne_neg: "rne (- y) = - rne y"
proof (cases "y = of_int \<lfloor>y\<rfloor>")
  case True
  then obtain k where "y = of_int k" by blast
  then show ?thesis by (metis of_int_minus rne_of_int)
next
  case False
  define f where "f = \<lfloor>y\<rfloor>"
  have b: "of_int f < y" "y < of_int f + 1"
    using False unfolding f_def by (linarith+)
  have fm: "\<lfloor>- y\<rfloor> = - f - 1"
    using b by (intro floor_unique) auto
  show ?thesis
    using b unfolding rne_def fm f_def [symmetric] Let_def by (auto simp: field_simps)
qed

lemma powi_le_iff: "((2::rat) powi a \<le> 2 powi b) = (a \<le> b)"
  by (meson linorder_not_le one_le_numeral one_less_numeral_iff power_int_increasing
      power_int_strict_increasing semiring_norm(76))

lemma powi_less_iff: "((2::rat) powi a < 2 powi b) = (a < b)"
  by (meson linorder_not_le powi_le_iff)

lemma powi_pos [simp]: "0 < (2::rat) powi a"
  by simp

lemma powi_step: "(2::rat) powi (a + 1) = 2 * 2 powi a"
  by (simp add: power_int_add)

lemma bitlen_rat:
  assumes "0 < n"
  shows "2 powi (bitlen n - 1) \<le> (of_int n :: rat)" "(of_int n :: rat) < 2 powi bitlen n"
proof -
  have b: "2 ^ nat (bitlen n - 1) \<le> n" "n < 2 ^ nat (bitlen n)"
    using bitlen_bounds [OF assms] by auto
  have p: "0 \<le> bitlen n - 1" using bitlen_ge_iff_power [of 1 n] assms by simp
  have "(2::rat) powi (bitlen n - 1) = of_int (2 ^ nat (bitlen n - 1))"
    using p by (simp add: power_int_def)
  also have "\<dots> \<le> of_int n" using b(1) by (metis of_int_le_iff)
  finally show "2 powi (bitlen n - 1) \<le> (of_int n :: rat)" .
  have "(of_int n :: rat) < of_int (2 ^ nat (bitlen n))" using b(2) by (metis of_int_less_iff)
  also have "\<dots> = 2 powi bitlen n" using p by (simp add: power_int_def)
  finally show "(of_int n :: rat) < 2 powi bitlen n" .
qed

lemma fl_exp_bounds:
  assumes "x \<noteq> 0"
  shows "2 powi fl_exp x \<le> \<bar>x\<bar> \<and> \<bar>x\<bar> < 2 powi (fl_exp x + 1)"
proof -
  obtain n d where q: "quotient_of \<bar>x\<bar> = (n, d)" by (cases "quotient_of \<bar>x\<bar>")
  have d: "0 < d" and x: "\<bar>x\<bar> = of_int n / of_int d"
    using quotient_of_denom_pos [OF q] quotient_of_div [OF q] by auto
  have "0 < \<bar>x\<bar>" using assms by simp
  then have n: "0 < n" using d x by (simp add: zero_less_divide_iff)
  define e where "e = bitlen n - bitlen d"
  have "\<bar>x\<bar> * of_int d < 2 powi bitlen n" "2 powi (bitlen n - 1) \<le> \<bar>x\<bar> * of_int d"
    using bitlen_rat [OF n] d x by simp_all
  moreover have "\<bar>x\<bar> * 2 powi (bitlen d - 1) \<le> \<bar>x\<bar> * of_int d"
    using bitlen_rat(1) [OF d] by (intro mult_left_mono) auto
  moreover have "\<bar>x\<bar> * of_int d < \<bar>x\<bar> * 2 powi bitlen d"
    using bitlen_rat(2) [OF d] assms by (intro mult_strict_left_mono) auto
  moreover have "2 powi bitlen n = 2 powi (e + 1) * (2::rat) powi (bitlen d - 1)"
    "2 powi (bitlen n - 1) = 2 powi (e - 1) * (2::rat) powi bitlen d"
    by (simp_all add: e_def flip: power_int_add)
  ultimately have "\<bar>x\<bar> * 2 powi (bitlen d - 1) < 2 powi (e + 1) * 2 powi (bitlen d - 1)"
    "2 powi (e - 1) * 2 powi bitlen d < \<bar>x\<bar> * 2 powi bitlen d"
    by linarith+
  then have b: "\<bar>x\<bar> < 2 powi (e + 1)" "2 powi (e - 1) < \<bar>x\<bar>"
    by (metis mult_less_cancel_right_pos powi_pos)+
  show ?thesis
    using b by (auto simp: fl_exp_def q e_def [symmetric] Let_def)
qed

lemma fl_exp_mono:
  assumes "x \<noteq> 0" and "\<bar>x\<bar> \<le> \<bar>y\<bar>"
  shows "fl_exp x \<le> fl_exp y"
proof -
  have "y \<noteq> 0" using assms by auto
  have "2 powi fl_exp x \<le> \<bar>y\<bar>" using fl_exp_bounds [OF assms(1)] assms(2) by linarith
  also have "\<bar>y\<bar> < 2 powi (fl_exp y + 1)" using fl_exp_bounds [OF \<open>y \<noteq> 0\<close>] by simp
  finally have "(2::rat) powi fl_exp x < 2 powi (fl_exp y + 1)" .
  then have "fl_exp x < fl_exp y + 1"
    by (metis linorder_not_le powi_le_iff)
  then show ?thesis by simp
qed

lemma fl_exp_unique:
  assumes "2 powi e \<le> \<bar>x\<bar>" and "\<bar>x\<bar> < 2 powi (e + 1)"
  shows "fl_exp x = e"
proof -
  have x: "x \<noteq> 0" using assms(1) powi_pos [of e] by fastforce
  have "(2::rat) powi e < 2 powi (fl_exp x + 1)" "(2::rat) powi fl_exp x < 2 powi (e + 1)"
    using fl_exp_bounds [OF x] assms by linarith+
  then have "e < fl_exp x + 1" "fl_exp x < e + 1" by (simp_all only: powi_less_iff)
  then show ?thesis by simp
qed

lemma fl_exp_neg [simp]: "fl_exp (- x) = fl_exp x"
  by (simp add: fl_exp_def)

lemma rnd_0 [simp]: "rnd 0 = 0"
  by (simp add: rnd_def)

lemma rnd_neg: "rnd (- x) = - rnd x"
  by (simp add: rnd_def Let_def rne_neg)

lemma rnd_scaled:
  assumes "x \<noteq> 0"
  shows "\<exists>m. rnd x = of_int m * 2 powi (fl_exp x - 52) \<and> m = rne (x / 2 powi (fl_exp x - 52))"
  using assms by (simp add: rnd_def Let_def)

lemma rnd_pos_bounds:
  assumes "0 < x"
  shows "2 powi fl_exp x \<le> rnd x \<and> rnd x \<le> 2 powi (fl_exp x + 1)"
proof -
  define u where "u = (2::rat) powi (fl_exp x - 52)"
  have u: "0 < u" by (simp add: u_def)
  have e: "2 powi fl_exp x = of_int (2 ^ 52) * u" "2 powi (fl_exp x + 1) = of_int (2 ^ 53) * u"
    by (simp_all add: u_def power_int_add power_int_diff)
  have "of_int (2 ^ 52) * u \<le> x" "x \<le> of_int (2 ^ 53) * u"
    using fl_exp_bounds [of x] assms unfolding e by simp_all
  then have "of_int (2 ^ 52) \<le> x / u" "x / u \<le> of_int (2 ^ 53)"
    using u by (simp_all add: pos_le_divide_eq pos_divide_le_eq)
  then have "2 ^ 52 \<le> rne (x / u)" "rne (x / u) \<le> 2 ^ 53"
    using rne_mono rne_of_int by metis+
  then have "of_int (2 ^ 52) \<le> (of_int (rne (x / u)) :: rat)"
    "(of_int (rne (x / u)) :: rat) \<le> of_int (2 ^ 53)"
    by (simp_all only: of_int_le_iff)
  then have "of_int (2 ^ 52) * u \<le> of_int (rne (x / u)) * u"
    "of_int (rne (x / u)) * u \<le> of_int (2 ^ 53) * u"
    using u by (simp_all only: mult_right_mono less_imp_le)
  moreover have "rnd x = of_int (rne (x / u)) * u"
    using assms by (simp add: rnd_def u_def Let_def)
  ultimately show ?thesis by (simp only: e)
qed

lemma rnd_mono_pos:
  assumes "0 < x" and "x \<le> y"
  shows "rnd x \<le> rnd y"
proof (cases "fl_exp x = fl_exp y")
  case True
  define u where "u = (2::rat) powi (fl_exp x - 52)"
  have u: "0 < u" by (simp add: u_def)
  have "x / u \<le> y / u" using assms u by (simp add: divide_right_mono)
  then have "rne (x / u) \<le> rne (y / u)" by (rule rne_mono)
  then have "of_int (rne (x / u)) * u \<le> of_int (rne (y / u)) * u"
    using u by (simp add: mult_right_mono)
  then show ?thesis using assms True by (simp add: rnd_def u_def Let_def)
next
  case False
  then have "fl_exp x + 1 \<le> fl_exp y"
    using fl_exp_mono [of x y] assms by simp
  then have "(2::rat) powi (fl_exp x + 1) \<le> 2 powi fl_exp y"
    by (simp add: powi_le_iff)
  moreover have "rnd x \<le> 2 powi (fl_exp x + 1)" "2 powi fl_exp y \<le> rnd y"
    using rnd_pos_bounds assms by auto
  ultimately show ?thesis by linarith
qed

lemma rnd_pos: "0 < x \<Longrightarrow> 0 < rnd x"
  using rnd_pos_bounds [of x] powi_pos [of "fl_exp x"] by linarith

lemma rnd_mono: "x \<le> y \<Longrightarrow> rnd x \<le> rnd y"
proof -
  assume xy: "x \<le> y"
  consider "0 < x" | "x \<le> 0" "0 \<le> y" | "y < 0" by linarith
  then show ?thesis
  proof cases
    case 1
    then show ?thesis using xy by (rule rnd_mono_pos)
  next
    case 2
    have "rnd x \<le> 0" using rnd_pos [of "- x"] 2(1) rnd_neg [of x] by (cases "x = 0") auto
    moreover have "0 \<le> rnd y" using rnd_pos [of y] 2(2) by (cases "y = 0") auto
    ultimately show ?thesis by linarith
  next
    case 3
    then have "rnd (- y) \<le> rnd (- x)" using xy by (intro rnd_mono_pos) auto
    then show ?thesis by (simp add: rnd_neg)
  qed
qed

text \<open>Integers of at most 53 bits are floats.\<close>

lemma rnd_of_int:
  assumes "\<bar>k\<bar> \<le> 2 ^ 53"
  shows "rnd (of_int k) = of_int k"
proof (cases "k = 0")
  case False
  define e where "e = fl_exp (of_int k)"
  have b: "2 powi e \<le> (of_int \<bar>k\<bar> :: rat)"
    using fl_exp_bounds [of "of_int k"] False by (simp add: e_def)
  have "0 \<le> e"
  proof (rule ccontr)
    assume "\<not> 0 \<le> e"
    then have "e + 1 \<le> 0" by simp
    then have "(2::rat) powi (e + 1) \<le> 2 powi 0" by (simp only: powi_le_iff)
    moreover have "1 \<le> (of_int \<bar>k\<bar> :: rat)" using False by linarith
    ultimately show False
      using fl_exp_bounds [of "of_int k"] False by (simp add: e_def)
  qed
  have "\<exists>j::int. (of_int k :: rat) / 2 powi (e - 52) = of_int j"
  proof (cases "e \<le> 52")
    case True
    have "(2::rat) powi (e - 52) * 2 powi (52 - e) = 1"
      by (simp flip: power_int_add)
    then have "(of_int k :: rat) / 2 powi (e - 52) = of_int k * 2 powi (52 - e)"
      by (simp add: field_simps)
    also have "\<dots> = of_int (k * 2 ^ nat (52 - e))" using True by (simp add: power_int_def)
    finally show ?thesis by blast
  next
    case False
    have "(2::rat) powi 53 \<le> 2 powi e" using False by (simp only: powi_le_iff)
    moreover have "(of_int \<bar>k\<bar> :: rat) \<le> of_int (2 ^ 53)" using assms by (simp only: of_int_le_iff)
    ultimately have "(2::rat) powi e \<le> 2 powi 53" "\<bar>k\<bar> = 2 ^ 53"
      using b by (simp_all add: power_int_def)
    then have "e = 53" using False by (simp only: powi_le_iff)
    have "k = 2 ^ 53 \<or> k = - (2 ^ 53)" using \<open>\<bar>k\<bar> = 2 ^ 53\<close> by linarith
    then have "(of_int k :: rat) / 2 = of_int (k div 2)" by auto
    then show ?thesis using \<open>e = 53\<close> by auto
  qed
  then obtain j :: int where j: "(of_int k :: rat) / 2 powi (e - 52) = of_int j" by blast
  then have "(of_int j :: rat) * 2 powi (e - 52) = of_int k" by (auto simp: field_simps)
  with False j show ?thesis by (simp add: rnd_def Let_def e_def [symmetric])
qed simp

lemma rnd_1 [simp]: "rnd 1 = 1"
  using rnd_of_int [of 1] by simp

lemma rnd_numeral [simp]: "(numeral w :: int) \<le> 2 ^ 53 \<Longrightarrow> rnd (numeral w) = numeral w"
  using rnd_of_int [of "numeral w"] by simp

section \<open>What the components rely on\<close>

locale rounding =
  fixes fl :: "rat \<Rightarrow> rat"
  assumes fl_mono: "x \<le> y \<Longrightarrow> fl x \<le> fl y"
    and fl_zero: "fl 0 = 0"
    and fl_one: "fl 1 = 1"
    and fl_neg: "fl (- x) = - fl x"
    and fl_pos: "0 < x \<Longrightarrow> 0 < fl x"
begin

lemma fl_less_oneD: "fl x < 1 \<Longrightarrow> x < 1"
  using fl_mono [of 1 x] fl_one by (cases "1 \<le> x") auto

lemma fl_ge_one: "1 \<le> x \<Longrightarrow> 1 \<le> fl x"
  using fl_mono [of 1 x] fl_one by simp

lemma fl_le_one: "x \<le> 1 \<Longrightarrow> fl x \<le> 1"
  using fl_mono [of x 1] fl_one by simp

lemma fl_nonneg: "0 \<le> x \<Longrightarrow> 0 \<le> fl x"
  using fl_mono [of 0 x] fl_zero by simp

lemma fl_pos_iff: "0 < fl x \<longleftrightarrow> 0 < x"
  using fl_mono [of x 0] fl_zero fl_pos [of x] by (cases "x \<le> 0") auto

lemma fl_eq_0_iff: "fl x = 0 \<longleftrightarrow> x = 0"
  using fl_pos [of x] fl_pos [of "- x"] fl_neg [of x] fl_zero
  by (cases "0 < x"; cases "x < 0") auto

lemma fl_less_imp: "fl x < fl y \<Longrightarrow> x < y"
  using fl_mono [of y x] by (cases "y \<le> x") auto

end

interpretation ieee: rounding rnd
  by unfold_locales (auto simp: rnd_mono rnd_neg rnd_pos)

section \<open>Python's operations\<close>

text \<open>\<open>float(i)\<close>, a literal, and the arithmetic operators.\<close>

definition fl_int :: "int \<Rightarrow> pyfloat" where
  "fl_int i = rnd (of_int i)"

definition fadd :: "pyfloat \<Rightarrow> pyfloat \<Rightarrow> pyfloat" where
  "fadd x y = rnd (x + y)"

definition fsub :: "pyfloat \<Rightarrow> pyfloat \<Rightarrow> pyfloat" where
  "fsub x y = rnd (x - y)"

definition fmul :: "pyfloat \<Rightarrow> pyfloat \<Rightarrow> pyfloat" where
  "fmul x y = rnd (x * y)"

definition fdiv :: "pyfloat \<Rightarrow> pyfloat \<Rightarrow> pyfloat res" where
  "fdiv x y = (if y = 0 then Inl ZeroDivisionError else Inr (rnd (x / y)))"

text \<open>\<open>a / b\<close> on integers is the correctly rounded quotient.\<close>

definition int_truediv :: "int \<Rightarrow> int \<Rightarrow> pyfloat res" where
  "int_truediv a b = (if b = 0 then Inl ZeroDivisionError else Inr (rnd (of_int a / of_int b)))"

text \<open>\<open>int(x)\<close> truncates towards zero.\<close>

definition fl_trunc :: "pyfloat \<Rightarrow> int" where
  "fl_trunc x = (if 0 \<le> x then \<lfloor>x\<rfloor> else \<lceil>x\<rceil>)"

text \<open>
  \<open>x // y\<close> as CPython computes it: the exact remainder, the rounded quotient of what is left,
  its floor, and a correction when the quotient was rounded down past an integer.
\<close>

definition fl_mod_trunc :: "pyfloat \<Rightarrow> pyfloat \<Rightarrow> pyfloat" where
  \<comment> \<open>C's \<open>fmod\<close>: exact, with the sign of \<open>x\<close>\<close>
  "fl_mod_trunc x y = x - y * of_int (fl_trunc (x / y))"

definition ffloordiv :: "pyfloat \<Rightarrow> pyfloat \<Rightarrow> pyfloat res" where
  "ffloordiv x y =
     (if y = 0 then Inl ZeroDivisionError
      else let m = fl_mod_trunc x y;
               q = rnd (rnd (x - m) / y);
               q' = (if m \<noteq> 0 \<and> (y < 0) \<noteq> (m < 0) then rnd (q - 1) else q)
           in Inr (if q' = 0 then 0
                   else let f = of_int \<lfloor>q'\<rfloor> in if 1/2 < rnd (q' - f) then rnd (f + 1) else f))"

lemma int_truediv_Inr_iff [simp]:
  "int_truediv a b = Inr q \<longleftrightarrow> b \<noteq> 0 \<and> q = rnd (of_int a / of_int b)"
  by (auto simp: int_truediv_def)

lemma fdiv_Inr_iff [simp]: "fdiv x y = Inr q \<longleftrightarrow> y \<noteq> 0 \<and> q = rnd (x / y)"
  by (auto simp: fdiv_def)

lemma fl_int_mono: "a \<le> b \<Longrightarrow> fl_int a \<le> fl_int b"
  by (simp add: fl_int_def rnd_mono)

lemma fl_trunc_of_int [simp]: "fl_trunc (of_int k) = k"
  by (simp add: fl_trunc_def)

lemma fl_trunc_nonneg: "0 \<le> x \<Longrightarrow> 0 \<le> fl_trunc x"
  by (simp add: fl_trunc_def)

lemma fl_trunc_le: "0 \<le> x \<Longrightarrow> of_int (fl_trunc x) \<le> x"
  by (simp add: fl_trunc_def)

end
