(* ===== verification/PyStr.thy ===== *)
theory PyStr
  imports "HOL-Library.Word" PyFloat
begin

text \<open>
  Python's text and bytes: hexadecimal and decimal rendering and parsing of integers
  (\<open>hex\<close>, \<open>str\<close>, \<open>int(s, base)\<close>), \<open>zfill\<close>, \<open>rjust\<close>, \<open>lower\<close>, \<open>bytes.fromhex\<close>,
  \<open>bytes.hex\<close> and \<open>int.from_bytes\<close>. A \<open>byte\<close> is an 8-bit word. The lemmas are the round
  trips between the rendering and the parsing functions, and the lengths that fixed-width
  encodings depend on.
\<close>

type_synonym byte = "8 word"
type_synonym bytes = "byte list"

section \<open>Digits\<close>

definition digit_char :: "nat \<Rightarrow> char" where
  "digit_char d = (if d < 10 then char_of (48 + d) else char_of (87 + d))"

definition char_digit :: "char \<Rightarrow> nat option" where
  "char_digit c = (let n = of_char c :: nat in
     if 48 \<le> n \<and> n \<le> 57 then Some (n - 48)
     else if 97 \<le> n \<and> n \<le> 102 then Some (n - 87)
     else if 65 \<le> n \<and> n \<le> 70 then Some (n - 55)
     else None)"

lemma char_digit_digit_char [simp]: "d < 16 \<Longrightarrow> char_digit (digit_char d) = Some d"
  by (auto simp: char_digit_def digit_char_def Let_def)

lemma digit_char_plain: "d < 16 \<Longrightarrow> digit_char d \<noteq> CHR ''_'' \<and> digit_char d \<noteq> CHR ''x''
    \<and> digit_char d \<noteq> CHR ''X'' \<and> digit_char d \<noteq> CHR ''-'' \<and> digit_char d \<noteq> CHR ''+''"
proof -
  have "char_digit CHR ''_'' = None" "char_digit CHR ''x'' = None" "char_digit CHR ''X'' = None"
    "char_digit CHR ''-'' = None" "char_digit CHR ''+'' = None"
    by (simp_all add: char_digit_def)
  moreover assume "d < 16"
  ultimately show ?thesis by (metis char_digit_digit_char option.distinct(1))
qed

function digits :: "nat \<Rightarrow> nat \<Rightarrow> string" where
  "digits b n = (if n < b \<or> b < 2 then [digit_char n] else digits b (n div b) @ [digit_char (n mod b)])"
  by pat_completeness auto
termination
  by (relation "measure snd") auto

declare digits.simps [simp del]

lemma digits_not_Nil [simp]: "digits b n \<noteq> []"
  by (subst digits.simps) simp

definition ws :: "char \<Rightarrow> bool" where
  "ws c \<longleftrightarrow> c \<in> set [CHR '' '', CHR 0x09, CHR 0x0A, CHR 0x0B, CHR 0x0C, CHR 0x0D]"

definition strip :: "string \<Rightarrow> string" where
  "strip s = rev (dropWhile ws (rev (dropWhile ws s)))"

text \<open>The digits of a number: underscores only between two digits.\<close>

fun scan_digits :: "nat \<Rightarrow> string \<Rightarrow> bool \<Rightarrow> nat \<Rightarrow> nat option" where
  "scan_digits b [] prev acc = (if prev then Some acc else None)"
| "scan_digits b (c # cs) prev acc =
     (if c = CHR ''_'' then (if prev then scan_digits b cs False acc else None)
      else case char_digit c of
          None \<Rightarrow> None
        | Some d \<Rightarrow> if d < b then scan_digits b cs True (acc * b + d) else None)"

definition scan_nat :: "nat \<Rightarrow> string \<Rightarrow> nat option" where
  \<comment> \<open>an optional \<open>0x\<close> before hexadecimal digits\<close>
  "scan_nat b s =
     (if b = 16 \<and> length s \<ge> 2 \<and> s ! 0 = CHR ''0'' \<and> (s ! 1 = CHR ''x'' \<or> s ! 1 = CHR ''X'')
      then (case drop 2 s of
              [] \<Rightarrow> None
            | c # cs \<Rightarrow> if c = CHR ''_'' then scan_digits b cs False 0 else scan_digits b (c # cs) False 0)
      else scan_digits b s False 0)"

definition py_int :: "nat \<Rightarrow> string \<Rightarrow> int res" where
  \<comment> \<open>\<open>int(s, b)\<close> for \<open>b\<close> 10 or 16\<close>
  "py_int b s = opt_res ValueError (case strip s of
       [] \<Rightarrow> None
     | c # cs \<Rightarrow>
         (if c = CHR ''-'' then map_option (\<lambda>n. - int n) (scan_nat b cs)
          else if c = CHR ''+'' then map_option int (scan_nat b cs)
          else map_option int (scan_nat b (c # cs))))"

definition py_str :: "int \<Rightarrow> string" where
  "py_str i = (if i < 0 then ''-'' @ digits 10 (nat (- i)) else digits 10 (nat i))"

definition py_hex :: "int \<Rightarrow> string" where
  "py_hex i = (if i < 0 then ''-0x'' @ digits 16 (nat (- i)) else ''0x'' @ digits 16 (nat i))"

lemma scan_digits_append:
  assumes "\<forall>c \<in> set s. c \<noteq> CHR ''_''"
  shows "scan_digits b (s @ t) prev acc =
    (if s = [] then scan_digits b t prev acc
     else case scan_digits b s prev acc of None \<Rightarrow> None | Some a \<Rightarrow> scan_digits b t True a)"
  using assms by (induction s arbitrary: prev acc) (auto split: option.splits)

lemma digits_plain: "2 \<le> b \<Longrightarrow> b \<le> 16 \<Longrightarrow> c \<in> set (digits b n) \<Longrightarrow> \<exists>d < 16. c = digit_char d"
proof (induction b n rule: digits.induct)
  case (1 b n)
  show ?case
  proof (cases "n < b")
    case True
    with 1 show ?thesis by (auto simp: digits.simps [of b n] intro!: exI [of _ n])
  next
    case False
    have "n mod b < 16" using 1(2,3) mod_less_divisor [of b n] by linarith
    with False 1 show ?thesis by (auto simp: digits.simps [of b n])
  qed
qed

lemma digits_no_underscore: "2 \<le> b \<Longrightarrow> b \<le> 16 \<Longrightarrow> \<forall>c \<in> set (digits b n). c \<noteq> CHR ''_''"
  using digits_plain digit_char_plain by metis

lemma scan_digits_digits_append:
  assumes "2 \<le> b" "b \<le> 16"
  shows "scan_digits b (digits b n @ t) prev acc =
    (case scan_digits b (digits b n) prev acc of None \<Rightarrow> None | Some a \<Rightarrow> scan_digits b t True a)"
  using scan_digits_append [OF digits_no_underscore [OF assms]] by simp

lemma scan_digits_digits:
  "2 \<le> b \<Longrightarrow> b \<le> 16 \<Longrightarrow> scan_digits b (digits b n) prev 0 = Some n"
proof (induction b n arbitrary: prev rule: digits.induct)
  case (1 b n)
  show ?case
  proof (cases "n < b")
    case True
    with 1 show ?thesis
      using digit_char_plain [of n] by (simp add: digits.simps [of b n])
  next
    case False
    have m: "n mod b < 16" "n mod b < b" using 1(2,3) mod_less_divisor [of b n] by linarith+
    have "scan_digits b (digits b (n div b)) prev 0 = Some (n div b)"
      using False 1 by auto
    then show ?thesis
      using False 1(2,3) m digit_char_plain [OF m(1)]
      by (simp add: digits.simps [of b n] scan_digits_digits_append char_digit_digit_char [OF m(1)])
  qed
qed

lemma scan_digits_zeros:
  "2 \<le> b \<Longrightarrow> scan_digits b (replicate k CHR ''0'') True acc = Some (acc * b ^ k)"
  by (induction k arbitrary: acc) (auto simp: char_digit_def ac_simps)

lemma digit_char_not_ws: "d < 16 \<Longrightarrow> \<not> ws (digit_char d)"
proof
  assume d: "d < 16" and w: "ws (digit_char d)"
  have "\<forall>c \<in> set [CHR '' '', CHR 0x09, CHR 0x0A, CHR 0x0B, CHR 0x0C, CHR 0x0D]. char_digit c = None"
    by (simp add: char_digit_def)
  with w have "char_digit (digit_char d) = None" by (auto simp: ws_def)
  with d show False by simp
qed

lemma strip_plain:
  assumes "s \<noteq> []" and "\<not> ws (hd s)" and "\<not> ws (last s)"
  shows "strip s = s"
proof -
  have "dropWhile ws s = s" using assms(1,2) by (cases s) auto
  moreover have "dropWhile ws (rev s) = rev s"
    using assms(1,3) by (cases s rule: rev_cases) auto
  ultimately show ?thesis by (simp add: strip_def)
qed

lemma scan_nat_10 [simp]: "scan_nat 10 s = scan_digits 10 s False 0"
  by (simp add: scan_nat_def)

text \<open>The round trip that price scaling uses: \<open>int(str(i) + "0" * k)\<close> multiplies by \<open>10 ** k\<close>.\<close>

lemma py_int_10_nat_zeros:
  "scan_digits 10 (digits 10 n @ replicate k CHR ''0'') False 0 = Some (n * 10 ^ k)"
  by (simp add: scan_digits_digits_append scan_digits_digits scan_digits_zeros)

lemma zero_not_ws: "\<not> ws CHR ''0''"
  by (simp add: ws_def)

lemma digits_hd: "2 \<le> b \<Longrightarrow> b \<le> 16 \<Longrightarrow> \<exists>d < 16. hd (digits b n) = digit_char d"
  using digits_plain [of b "hd (digits b n)" n] by simp

lemma digits_last: "2 \<le> b \<Longrightarrow> b \<le> 16 \<Longrightarrow> \<exists>d < 16. last (digits b n) = digit_char d"
  using digits_plain [of b "last (digits b n)" n] by simp

lemma py_int_str_zeros: "py_int 10 (py_str i @ replicate k CHR ''0'') = Inr (i * 10 ^ k)"
proof -
  define n where "n = nat \<bar>i\<bar>"
  define t where "t = digits 10 n @ replicate k CHR ''0''"
  obtain d1 where d1: "d1 < 16" "hd (digits 10 n) = digit_char d1"
    using digits_hd [of 10 n] by auto
  obtain d2 where d2: "d2 < 16" "last (digits 10 n) = digit_char d2"
    using digits_last [of 10 n] by auto
  have t: "t \<noteq> []" "hd t = digit_char d1" "\<not> ws (last t)"
    using d1 d2 digit_char_not_ws zero_not_ws by (auto simp: t_def last_append)
  have sc: "scan_digits 10 t False 0 = Some (n * 10 ^ k)"
    by (simp add: t_def py_int_10_nat_zeros)
  have int_n: "int n = \<bar>i\<bar>" by (simp add: n_def)
  show ?thesis
  proof (cases "i < 0")
    case True
    have "strip (CHR ''-'' # t) = CHR ''-'' # t"
      using t by (intro strip_plain) (auto simp: ws_def)
    moreover have "py_str i @ replicate k CHR ''0'' = CHR ''-'' # t"
      using True by (simp add: py_str_def t_def n_def)
    ultimately show ?thesis
      using True sc int_n by (simp add: py_int_def)
  next
    case False
    have "strip t = t"
      using t d1 digit_char_not_ws by (intro strip_plain) auto
    moreover have "py_str i @ replicate k CHR ''0'' = t"
      using False by (simp add: py_str_def t_def n_def)
    moreover obtain c cs where "t = c # cs" "c = digit_char d1"
      using t by (cases t) auto
    ultimately show ?thesis
      using False sc int_n digit_char_plain [OF d1(1)] by (simp add: py_int_def)
  qed
qed

section \<open>Padding\<close>

definition zfill :: "string \<Rightarrow> nat \<Rightarrow> string" where
  \<comment> \<open>zeros on the left, after a sign\<close>
  "zfill s w = (if w \<le> length s then s
     else case s of
         c # cs \<Rightarrow> if c = CHR ''+'' \<or> c = CHR ''-'' then c # replicate (w - length s) CHR ''0'' @ cs
                  else replicate (w - length s) CHR ''0'' @ s
       | [] \<Rightarrow> replicate w CHR ''0'')"

definition rjust0 :: "string \<Rightarrow> nat \<Rightarrow> string" where
  \<comment> \<open>\<open>s.rjust(w, '0')\<close>\<close>
  "rjust0 s w = replicate (w - length s) CHR ''0'' @ s"

lemma length_zfill: "length (zfill s w) = max w (length s)"
  by (auto simp: zfill_def split: list.splits)

lemma length_rjust0: "length (rjust0 s w) = max w (length s)"
  by (auto simp: rjust0_def)

lemma zfill_Nil [simp]: "zfill [] w = replicate w CHR ''0''"
  by (simp add: zfill_def)

lemma zfill_unsigned:
  "s \<noteq> [] \<Longrightarrow> hd s \<noteq> CHR ''+'' \<Longrightarrow> hd s \<noteq> CHR ''-'' \<Longrightarrow> zfill s w = rjust0 s w"
  by (cases s) (auto simp: zfill_def rjust0_def)

lemma length_digits_le: "2 \<le> b \<Longrightarrow> 0 < k \<Longrightarrow> n < b ^ k \<Longrightarrow> length (digits b n) \<le> k"
proof (induction b n arbitrary: k rule: digits.induct)
  case (1 b n)
  show ?case
  proof (cases "n < b")
    case True
    then show ?thesis using 1(3) by (subst digits.simps) simp
  next
    case False
    obtain j where k: "k = Suc j" using 1(3) by (cases k) auto
    have "j \<noteq> 0" using False 1(4) k by (cases j) auto
    moreover have "n div b < b ^ j" using 1(2,4) k by (auto simp: less_mult_imp_div_less mult.commute)
    ultimately have "length (digits b (n div b)) \<le> j" using False 1 by auto
    then show ?thesis using False 1(2) k by (subst digits.simps) simp
  qed
qed

text \<open>A zero-padded number parses back to the number.\<close>

lemma scan_zeros_digits:
  assumes "2 \<le> b" "b \<le> 16"
  shows "scan_digits b (replicate k CHR ''0'' @ digits b n) False 0 = Some n"
proof (cases "k = 0")
  case True
  then show ?thesis by (simp add: scan_digits_digits assms)
next
  case False
  have z: "scan_digits b (replicate k CHR ''0'') False 0 = Some 0"
    using False assms scan_digits_zeros [of b "k - 1" 0]
    by (cases k) (auto simp: char_digit_def)
  show ?thesis
    using False by (subst scan_digits_append) (auto simp: z scan_digits_digits assms)
qed

section \<open>Bytes\<close>

definition lower_char :: "char \<Rightarrow> char" where
  "lower_char c = (let n = of_char c :: nat in if 65 \<le> n \<and> n \<le> 90 then char_of (n + 32) else c)"

definition lower :: "string \<Rightarrow> string" where
  "lower s = map lower_char s"

lemma lower_char_idem [simp]: "lower_char (lower_char c) = lower_char c"
  by (auto simp: lower_char_def Let_def)

lemma lower_idem [simp]: "lower (lower s) = lower s"
  by (simp add: lower_def)

lemma length_lower [simp]: "length (lower s) = length s"
  by (simp add: lower_def)

definition byte_hex :: "byte \<Rightarrow> string" where
  "byte_hex b = [digit_char (unat b div 16), digit_char (unat b mod 16)]"

definition hex_bytes :: "bytes \<Rightarrow> string" where
  \<comment> \<open>\<open>bytes.hex()\<close>\<close>
  "hex_bytes bs = concat (map byte_hex bs)"

definition hexbytes_hex :: "bytes \<Rightarrow> string" where
  \<comment> \<open>\<open>HexBytes.hex()\<close>: with the prefix\<close>
  "hexbytes_hex bs = ''0x'' @ hex_bytes bs"

fun fromhex :: "string \<Rightarrow> bytes res" where
  \<comment> \<open>\<open>bytes.fromhex\<close>: white space is skipped between bytes\<close>
  "fromhex [] = Inr []"
| "fromhex [c] = (if ws c then Inr [] else Inl ValueError)"
| "fromhex (c # d # s) =
     (if ws c then fromhex (d # s)
      else case (char_digit c, char_digit d) of
          (Some h, Some l) \<Rightarrow> bindR (fromhex s) (\<lambda>bs. Inr (word_of_nat (16 * h + l) # bs))
        | _ \<Rightarrow> Inl ValueError)"

lemma unat_byte: "unat (b :: byte) < 256"
  using unsigned_less [of b] by simp

lemma word_of_nat_unat_byte [simp]: "word_of_nat (unat b) = (b :: byte)"
  by simp

lemma hex_bytes_simps [simp]:
  "hex_bytes [] = []"
  "hex_bytes (b # bs) = byte_hex b @ hex_bytes bs"
  "hex_bytes (bs @ cs) = hex_bytes bs @ hex_bytes cs"
  by (simp_all add: hex_bytes_def)

lemma length_hex_bytes: "length (hex_bytes bs) = 2 * length bs"
  by (induction bs) (auto simp: byte_hex_def)

lemma fromhex_byte_hex:
  "fromhex (byte_hex b @ s) = bindR (fromhex s) (\<lambda>bs. Inr (b # bs))"
proof -
  have u: "unat b div 16 < 16" "unat b mod 16 < 16" using unat_byte [of b] by auto
  have "word_of_nat (16 * (unat b div 16) + unat b mod 16) = b"
    by (metis mult_div_mod_eq word_of_nat_unat_byte)
  then show ?thesis
    using u digit_char_not_ws [OF u(1)] by (simp add: byte_hex_def)
qed

lemma fromhex_hex_bytes [simp]: "fromhex (hex_bytes bs) = Inr bs"
  by (induction bs) (auto simp: fromhex_byte_hex)

text \<open>\<open>int.from_bytes(bs, 'big')\<close> and \<open>int.to_bytes(n, 'big')\<close>.\<close>

definition be_nat :: "bytes \<Rightarrow> nat" where
  "be_nat bs = foldl (\<lambda>a b. 256 * a + unat b) 0 bs"

fun nat_be :: "nat \<Rightarrow> nat \<Rightarrow> bytes" where
  "nat_be 0 n = []"
| "nat_be (Suc k) n = nat_be k (n div 256) @ [word_of_nat (n mod 256)]"

lemma be_nat_Nil [simp]: "be_nat [] = 0"
  by (simp add: be_nat_def)

lemma be_nat_snoc [simp]: "be_nat (bs @ [b]) = 256 * be_nat bs + unat b"
  by (simp add: be_nat_def)

lemma be_nat_append: "be_nat (xs @ ys) = be_nat xs * 256 ^ length ys + be_nat ys"
  by (induction ys rule: rev_induct) (simp_all add: algebra_simps flip: append_assoc)

lemma length_nat_be [simp]: "length (nat_be k n) = k"
  by (induction k arbitrary: n) auto

lemma be_nat_nat_be: "be_nat (nat_be k n) = n mod 256 ^ k"
proof (induction k arbitrary: n)
  case 0
  then show ?case by simp
next
  case (Suc k)
  have "unat (word_of_nat (n mod 256) :: byte) = n mod 256"
    by (simp add: unat_of_nat)
  then have "be_nat (nat_be (Suc k) n) = 256 * (n div 256 mod 256 ^ k) + n mod 256"
    by (simp add: Suc)
  also have "\<dots> = n mod 256 ^ Suc k"
    by (simp add: mod_mult2_eq)
  finally show ?case .
qed

lemma be_nat_less: "be_nat bs < 256 ^ length bs"
proof (induction bs rule: rev_induct)
  case (snoc b bs)
  have "be_nat bs + 1 \<le> 256 ^ length bs" using snoc by simp
  then have "256 * be_nat bs + 256 \<le> 256 * 256 ^ length bs" by linarith
  then show ?case using unat_byte [of b] by simp
qed simp

lemma be_nat_Cons: "be_nat (b # bs) = unat b * 256 ^ length bs + be_nat bs"
  using be_nat_append [of "[b]" bs] by (simp add: be_nat_def)

lemma scan_digits_byte_hex:
  "scan_digits 16 (byte_hex b @ s) prev acc = scan_digits 16 s True (acc * 256 + unat b)"
proof -
  have u: "unat b div 16 < 16" "unat b mod 16 < 16" using unat_byte [of b] by auto
  have "(acc * 16 + unat b div 16) * 16 + unat b mod 16 = acc * 256 + unat b"
    by (simp add: algebra_simps)
  then show ?thesis
    using u digit_char_plain [OF u(1)] digit_char_plain [OF u(2)] by (simp add: byte_hex_def mult.commute add.commute)
qed

lemma scan_digits_hex_bytes:
  "scan_digits 16 (hex_bytes bs @ s) prev acc =
   scan_digits 16 s (prev \<or> bs \<noteq> []) (acc * 256 ^ length bs + be_nat bs)"
proof (induction bs arbitrary: prev acc)
  case (Cons b bs)
  show ?case
    by (simp add: scan_digits_byte_hex Cons.IH be_nat_Cons algebra_simps)
qed simp

lemma hex_bytes_ends:
  assumes "bs \<noteq> []"
  shows "\<exists>d < 16. hd (hex_bytes bs) = digit_char d" "\<exists>d < 16. last (hex_bytes bs) = digit_char d"
    "hex_bytes bs \<noteq> []" "\<exists>d < 16. hex_bytes bs ! 1 = digit_char d"
proof -
  obtain b cs where b: "bs = b # cs" using assms by (cases bs) auto
  obtain ds e where e: "bs = ds @ [e]" using assms by (cases bs rule: rev_cases) auto
  have u: "unat x div 16 < 16" "unat x mod 16 < 16" for x :: byte using unat_byte [of x] by auto
  show "\<exists>d < 16. hd (hex_bytes bs) = digit_char d" "hex_bytes bs \<noteq> []" "\<exists>d < 16. hex_bytes bs ! 1 = digit_char d"
    using u [of b] by (auto simp: b byte_hex_def intro: exI [of _ "unat b mod 16"] exI [of _ "unat b div 16"])
  show "\<exists>d < 16. last (hex_bytes bs) = digit_char d"
    using u [of e] by (auto simp: e byte_hex_def intro: exI [of _ "unat e mod 16"])
qed

lemma py_int_hex_bytes:
  assumes "bs \<noteq> []"
  shows "py_int 16 (hex_bytes bs) = Inr (int (be_nat bs))"
proof -
  note h = hex_bytes_ends [OF assms]
  obtain d where d: "d < 16" "hd (hex_bytes bs) = digit_char d" using h(1) by blast
  have s: "strip (hex_bytes bs) = hex_bytes bs"
    using h digit_char_not_ws by (intro strip_plain) auto
  have "hex_bytes bs ! 1 \<noteq> CHR ''x''" "hex_bytes bs ! 1 \<noteq> CHR ''X''"
    using h(4) digit_char_plain by metis+
  then have "scan_nat 16 (hex_bytes bs) = Some (be_nat bs)"
    using scan_digits_hex_bytes [of bs "[]" False 0] assms by (simp add: scan_nat_def)
  moreover obtain c cs where "hex_bytes bs = c # cs" "c = digit_char d" using h(3) d by (cases "hex_bytes bs") auto
  ultimately show ?thesis
    using s digit_char_plain [OF d(1)] by (simp add: py_int_def)
qed

end
