(* ===== verification/PyJson.thy ===== *)
theory PyJson
  imports PyStr
begin

text \<open>
  JSON values as \<open>json.load\<close> and \<open>json.dumps\<close> exchange them with the files and the sockets.
  Writing and reading a value back is the identity for the values the bot stores (integers of
  any size, floats by their shortest representation, ASCII strings), so a file is modelled by the
  value it holds. An accessor applied to a value of another JSON type raises \<open>TypeError\<close>.
\<close>

datatype json =
    JNull
  | JBool bool
  | JInt int
  | JFloat pyfloat
  | JStr string
  | JList "json list"
  | JObj "(string, json) dict"

fun json_items :: "json \<Rightarrow> (string, json) dict res" where
  "json_items (JObj d) = Inr d"
| "json_items _ = Inl AttributeError"

fun json_key :: "json \<Rightarrow> string \<Rightarrow> json res" where
  \<comment> \<open>\<open>v[k]\<close> with a string key\<close>
  "json_key (JObj d) k = dgetR d k"
| "json_key _ k = Inl TypeError"

fun json_get :: "json \<Rightarrow> string \<Rightarrow> json \<Rightarrow> json res" where
  \<comment> \<open>\<open>v.get(k, default)\<close>\<close>
  "json_get (JObj d) k v = Inr (case dget d k of None \<Rightarrow> v | Some x \<Rightarrow> x)"
| "json_get _ k v = Inl AttributeError"

fun json_nth :: "json \<Rightarrow> nat \<Rightarrow> json res" where
  \<comment> \<open>\<open>v[i]\<close> with a list index\<close>
  "json_nth (JList xs) i = (if i < length xs then Inr (xs ! i) else Inl IndexError)"
| "json_nth _ i = Inl TypeError"

fun json_int :: "json \<Rightarrow> int res" where
  "json_int (JInt i) = Inr i"
| "json_int _ = Inl TypeError"

fun json_num :: "json \<Rightarrow> pyfloat res" where
  "json_num (JInt i) = Inr (of_int i)"
| "json_num (JFloat x) = Inr x"
| "json_num _ = Inl TypeError"

fun json_str :: "json \<Rightarrow> string res" where
  "json_str (JStr s) = Inr s"
| "json_str _ = Inl TypeError"

text \<open>Decoding an object entry by entry, in order.\<close>

definition json_dict :: "(json \<Rightarrow> 'a res) \<Rightarrow> json \<Rightarrow> (string, 'a) dict res" where
  "json_dict f v = bindR (json_items v) (\<lambda>d.
     mapR (\<lambda>(k, x). bindR (f x) (\<lambda>y. Inr (k, y))) d)"

lemma json_dict_JObj_map:
  assumes "\<And>x. f (g x) = Inr (h x)"
  shows "json_dict f (JObj (map (\<lambda>(k, x). (k, g x)) d)) = Inr (map (\<lambda>(k, x). (k, h x)) d)"
  using assms by (induction d) (auto simp: json_dict_def)

end
