(* ===== verification/Config.thy ===== *)
theory Config
  imports PyJson
begin

text \<open>
  \<open>configs/config.py\<close>: the constants of the deployment (network BSC, protocol Venus), the
  selection of a provider, and the endpoint list of the multiplexing provider. Addresses keep
  the spelling of the source. The provider objects themselves belong to web3 and are
  represented by the constructor that is called and the URLs it gets.
\<close>

definition NETWORK :: string where
  "NETWORK = ''BSC''"

definition SELECTOR :: string where
  "SELECTOR = ''venus''"

definition EXP_SCALE :: int where
  "EXP_SCALE = 10 ^ 18"

definition EXCHANGE_RATE_INIT :: int where
  "EXCHANGE_RATE_INIT = 200000000000000000000000000"

definition ADDRESS_ZERO :: string where
  "ADDRESS_ZERO = ''0x0000000000000000000000000000000000000000''"

text \<open>The block interval in seconds and the signal delay in blocks of \<open>CONNECTION['BSC']\<close>.\<close>

definition INTVL :: int where
  "INTVL = 3"

definition SIG_DELAY_MAX :: int where
  "SIG_DELAY_MAX = 1"

definition CHAIN_ID :: int where
  "CHAIN_ID = 56"

text \<open>\<open>COMPOUND['BSC']['venus']\<close>.\<close>

record protocol_alias =
  init_block_number :: int
  health_factor_threshold :: int
  comet_addr :: string
  vai_addr :: string
  price_oracle :: string
  base_currency :: string
  ctoken_congis_file :: string
  comet_configs_file :: string
  users_file :: string
  users_file_status :: int
  contract_addr :: string

definition P_ALIAS :: protocol_alias where
  "P_ALIAS = \<lparr>
     init_block_number = 2471511,
     health_factor_threshold = 1,
     comet_addr = ''0xfD36E2c2a6789Db23113685031d7F16329158384'',
     vai_addr = ''0x004065D34C6b18cE4370ced1CeBDE94865DbFAFE'',
     price_oracle = ''0x6592b5DE802159F3E74B2486b091D11a8256ab8A'',
     base_currency = ''USD'',
     ctoken_congis_file = ''users/ctoken_configs_bsc_compound_venus.json'',
     comet_configs_file = ''users/comet_configs_bsc_compound_venus.json'',
     users_file = ''users/users_bsc_compound_venus.json'',
     users_file_status = 1,
     contract_addr = ''0x57e0148EBA3eaB22295d668757BBF41a338E9bca''\<rparr>"

text \<open>The validators that accept private bundles.\<close>

definition BNB48 :: "string list" where
  "BNB48 = [
    ''0x72b61c6014342d914470eC7aC2975bE345796c2b'',
    ''0xa6f79B60359f141df90A0C745125B131cAAfFD12'',
    ''0x0BAC492386862aD3dF4B666Bc096b0505BB694Da'',
    ''0xD1d6bF74282782B0b3eb1413c901D6eCF02e8e28'',
    ''0xb218C5D6aF1F979aC42BC68d98A5A0D796C6aB01'',
    ''0x4396e28197653d0C244D95f8C1E57da902A72b4e'',
    ''0x9bB832254BAf4E8B4cc26bD2B52B31389B56E98B'',
    ''0x9F8cCdaFCc39F3c7D6EBf637c9151673CBc36b88'']"

text \<open>\<open>sub in s\<close> on strings.\<close>

fun str_in :: "string \<Rightarrow> string \<Rightarrow> bool" where
  "str_in t [] = (t = [])"
| "str_in t (c # s) = (take (length t) (c # s) = t \<or> str_in t s)"

text \<open>
  \<open>gen_endpoints\<close> over the network's connection table; the table's values that are not URLs
  (the chain id, the light node's record, the intervals) have keys without \<open>http\<close>.
\<close>

definition gen_endpoints :: "(string, 'u) dict \<Rightarrow> 'u list" where
  "gen_endpoints URL = map snd (filter (\<lambda>(key, url). str_in ''http'' key) URL)"

datatype 'u provider =
    IPCProvider 'u int
  | WebsocketProvider 'u
  | MuxProvider "'u list"
  | HTTPProvider 'u int

definition load_provider :: "(string, 'u) dict \<Rightarrow> string \<Rightarrow> 'u provider res" where
  "load_provider connection provider_type =
     (if str_in ''ipc'' provider_type then
        bindR (dgetR connection provider_type) (\<lambda>url. Inr (IPCProvider url 30))
      else if str_in ''ws'' provider_type then
        bindR (dgetR connection provider_type) (\<lambda>url. Inr (WebsocketProvider url))
      else if ''mux'' = provider_type then Inr (MuxProvider (gen_endpoints connection))
      else bindR (dgetR connection provider_type) (\<lambda>url. Inr (HTTPProvider url 30)))"

lemma EXP_SCALE_pos [simp]: "0 < EXP_SCALE" "EXP_SCALE \<noteq> 0"
  by (simp_all add: EXP_SCALE_def)

end
