(* ===== verification/Tokens.thy ===== *)
theory Tokens
  imports Config
begin

text \<open>
  \<open>configs/tokens.py\<close> and the price record of \<open>configs/signals.py\<close>: what the bot keeps of a
  market (risk parameters, balances, configuration, price) and of a user's position in it, and
  how these are read from the JSON files that \<open>States.cache\<close> writes.
\<close>

section \<open>Positions\<close>

record comp_reserve =
  col_amount :: int
  is_col_liq :: int
  debt_amount :: int
  debt_interest :: int

definition new_reserve :: comp_reserve where
  "new_reserve = \<lparr>col_amount = 0, is_col_liq = 0, debt_amount = 0, debt_interest = 0\<rparr>"

definition comp_reserve_to_list :: "comp_reserve \<Rightarrow> json" where
  "comp_reserve_to_list r =
     JList [JInt (col_amount r), JInt (is_col_liq r), JInt (debt_amount r), JInt (debt_interest r)]"

definition reserve_load :: "json \<Rightarrow> comp_reserve res" where
  "reserve_load data =
     bindR (json_nth data 0) (\<lambda>j0. bindR (json_int j0) (\<lambda>c.
     bindR (json_nth data 1) (\<lambda>j1. bindR (json_int j1) (\<lambda>l.
     bindR (json_nth data 2) (\<lambda>j2. bindR (json_int j2) (\<lambda>d.
     bindR (json_nth data 3) (\<lambda>j3. bindR (json_int j3) (\<lambda>i.
       Inr \<lparr>col_amount = c, is_col_liq = l, debt_amount = d, debt_interest = i\<rparr>))))))))"

definition reserves_load :: "json \<Rightarrow> (string, comp_reserve) dict res" where
  "reserves_load reserves = json_dict reserve_load reserves"

lemma reserve_load_to_list [simp]: "reserve_load (comp_reserve_to_list r) = Inr r"
  by (simp add: reserve_load_def comp_reserve_to_list_def)

lemma reserves_load_to_list:
  "reserves_load (JObj (map (\<lambda>(k, r). (k, comp_reserve_to_list r)) d)) = Inr d"
  unfolding reserves_load_def by (subst json_dict_JObj_map [where h = "\<lambda>r. r"]) auto

section \<open>Markets\<close>

record ctoken_risks =
  borrow_index :: int
  reserve_factor :: int
  exchange_rate :: int
  protocol_seized :: int

definition new_ctoken_risks :: ctoken_risks where
  "new_ctoken_risks = \<lparr>borrow_index = 0, reserve_factor = 0, exchange_rate = 0, protocol_seized = 0\<rparr>"

definition risks_to_dict :: "ctoken_risks \<Rightarrow> json" where
  "risks_to_dict r = JObj [(''borrowIndex'', JInt (borrow_index r))]"

record ctoken_balances =
  total_reserve :: int
  total_borrow :: int
  total_supply :: int

definition new_ctoken_balances :: ctoken_balances where
  "new_ctoken_balances = \<lparr>total_reserve = 0, total_borrow = 0, total_supply = 0\<rparr>"

definition balances_to_dict :: "ctoken_balances \<Rightarrow> json" where
  "balances_to_dict b = JObj [
     (''totalReserve'', JInt (total_reserve b)),
     (''totalBorrow'', JInt (total_borrow b)),
     (''totalSupply'', JInt (total_supply b))]"

text \<open>
  The exchange rate from the balances, with the local variables as the source assigns them: its
  \<open>total_supply\<close> is the field \<open>total_reserve\<close> and its \<open>total_reserve\<close> the field
  \<open>total_supply\<close>; the cash is the constant 0.
\<close>

definition cal_exchange_rate :: "ctoken_balances \<Rightarrow> int" where
  "cal_exchange_rate b =
     (let v_total_supply = total_reserve b;
          v_total_borrow = total_borrow b;
          v_total_reserve = total_supply b;
          total_cash = 0
      in if v_total_supply = 0 then EXCHANGE_RATE_INIT
         else (total_cash + v_total_borrow - v_total_reserve) * EXP_SCALE div v_total_supply)"

text \<open>Reading the two market files; a missing entry is 0.\<close>

definition json_get_int :: "json \<Rightarrow> string \<Rightarrow> int res" where
  "json_get_int v k = bindR (json_get v k (JInt 0)) json_int"

definition balance_load :: "json \<Rightarrow> ctoken_balances res" where
  "balance_load v =
     bindR (json_get_int v ''totalReserves'') (\<lambda>r.
     bindR (json_get_int v ''totalBorrows'') (\<lambda>b.
     bindR (json_get_int v ''totalSupply'') (\<lambda>s.
       Inr \<lparr>total_reserve = r, total_borrow = b, total_supply = s\<rparr>)))"

definition reload_ctokens_balances :: "json \<Rightarrow> ((string, ctoken_balances) dict \<times> int) res" where
  "reload_ctokens_balances file =
     bindR (json_key file ''lastUpdate'') (\<lambda>jl. bindR (json_int jl) (\<lambda>last_update.
     bindR (json_key file ''reserves'') (\<lambda>rs. bindR (json_dict balance_load rs) (\<lambda>d.
       Inr (d, last_update)))))"

definition risk_load :: "json \<Rightarrow> ctoken_risks res" where
  "risk_load v =
     bindR (json_get_int v ''borrowIndex'') (\<lambda>b.
     bindR (json_get_int v ''reserveFactor'') (\<lambda>r.
     bindR (json_get_int v ''exchangeRate'') (\<lambda>e.
     bindR (json_get_int v ''protocolSeize'') (\<lambda>p.
       Inr \<lparr>borrow_index = b, reserve_factor = r, exchange_rate = e, protocol_seized = p\<rparr>))))"

definition reload_ctokens_risks :: "json \<Rightarrow> ((string, ctoken_risks) dict \<times> int) res" where
  "reload_ctokens_risks file =
     bindR (json_key file ''lastUpdate'') (\<lambda>jl. bindR (json_int jl) (\<lambda>last_update.
     bindR (json_key file ''reserves'') (\<lambda>rs. bindR (json_dict risk_load rs) (\<lambda>d.
       Inr (d, last_update)))))"

lemma balance_load_to_dict [simp]:
  "balance_load (balances_to_dict b) = Inr \<lparr>total_reserve = 0, total_borrow = 0, total_supply = total_supply b\<rparr>"
  by (simp add: balance_load_def balances_to_dict_def json_get_int_def)

lemma risk_load_to_dict [simp]: "risk_load (risks_to_dict r) = Inr (new_ctoken_risks\<lparr>borrow_index := borrow_index r\<rparr>)"
  by (simp add: risk_load_def risks_to_dict_def json_get_int_def new_ctoken_risks_def)

record ctoken_configs =
  ctoken :: string
  underlying :: string
  symbol :: string
  symbol_hash :: bytes
  decimals :: int
  base_units :: int
  price_source :: int
  price_fixed :: int
  swap_router :: string
  reporter :: string
  reporter_multiplier :: int
  is_uniswap_reversed :: bool
  underlying_decimals :: int

text \<open>The constructor keeps the decimal exponents of \<open>base_units\<close> and \<open>reporter_multiplier\<close>.\<close>

definition CtokenConfigs :: "string \<Rightarrow> string \<Rightarrow> string \<Rightarrow> bytes \<Rightarrow> int \<Rightarrow> int \<Rightarrow> int \<Rightarrow> int \<Rightarrow> string \<Rightarrow>
    string \<Rightarrow> int \<Rightarrow> bool \<Rightarrow> int \<Rightarrow> ctoken_configs" where
  "CtokenConfigs ct ua smb smbh dec bu src fixed rout rep mul revd uad = \<lparr>
     ctoken = ct, underlying = ua, symbol = smb, symbol_hash = smbh, decimals = dec,
     base_units = int (length (py_str bu)) - 1,
     price_source = src, price_fixed = fixed, swap_router = rout, reporter = rep,
     reporter_multiplier = int (length (py_str mul)) - 1,
     is_uniswap_reversed = revd, underlying_decimals = uad\<rparr>"

text \<open>\<open>new_ctoken_configs\<close> with the defaults its one caller leaves.\<close>

definition new_ctoken_configs :: "string \<Rightarrow> string \<Rightarrow> string \<Rightarrow> int \<Rightarrow> string \<Rightarrow> int \<Rightarrow> ctoken_configs" where
  "new_ctoken_configs ct rep ua uad smb dec =
     CtokenConfigs ct ua smb (map (\<lambda>c. word_of_nat (of_char c)) smb) dec 1 0 0 ''0x'' rep 1 False uad"

record ctoken_price =
  price_current :: int
  price_cache :: int
  price_last_update :: int
  is_comfired :: bool

record ctoken_infos =
  risks :: ctoken_risks
  balances :: ctoken_balances
  configs :: "ctoken_configs option"
  price :: "ctoken_price option"

type_synonym ctokens = "(string, ctoken_infos) dict"

definition CtokenInfos :: "ctoken_risks \<Rightarrow> ctoken_balances \<Rightarrow> ctoken_infos" where
  "CtokenInfos r b = \<lparr>risks = r, balances = b, configs = None, price = None\<rparr>"

definition new_ctokens_infos :: "string list \<Rightarrow> ctokens" where
  "new_ctokens_infos reserves =
     fold (\<lambda>r. dput r (CtokenInfos new_ctoken_risks new_ctoken_balances)) reserves []"

text \<open>
  \<open>tokens_load\<close>: the initial markets, or those of the two files, which must be of the same block.
\<close>

definition tokens_load :: "int \<Rightarrow> int \<Rightarrow> json \<Rightarrow> json \<Rightarrow> string list \<Rightarrow> (ctokens \<times> int) res" where
  "tokens_load status init_block balances_file risks_file reserves =
     (if status = 0 then Inr (new_ctokens_infos reserves, init_block)
      else
        bindR (reload_ctokens_balances balances_file) (\<lambda>(bs, last_update_b).
        bindR (reload_ctokens_risks risks_file) (\<lambda>(rs, last_update_r).
          if last_update_b \<noteq> last_update_r then Inl (Raised '''')
          else Inr (fold (\<lambda>r. dput r (CtokenInfos
                   (case dget rs r of None \<Rightarrow> new_ctoken_risks | Some x \<Rightarrow> x)
                   (case dget bs r of None \<Rightarrow> new_ctoken_balances | Some x \<Rightarrow> x))) reserves [],
                 last_update_b))))"

text \<open>Reading a market: a missing one raises \<open>KeyError\<close>, one without a price \<open>AttributeError\<close>.\<close>

definition ctk_price :: "ctokens \<Rightarrow> string \<Rightarrow> ctoken_price res" where
  "ctk_price ctk a = bindR (dgetR ctk a) (\<lambda>i. opt_res AttributeError (price i))"

definition ctk_price_current :: "ctokens \<Rightarrow> string \<Rightarrow> int res" where
  "ctk_price_current ctk a = bindR (ctk_price ctk a) (\<lambda>p. Inr (price_current p))"

definition ctk_risks :: "ctokens \<Rightarrow> string \<Rightarrow> ctoken_risks res" where
  "ctk_risks ctk a = bindR (dgetR ctk a) (\<lambda>i. Inr (risks i))"

definition ctk_configs :: "ctokens \<Rightarrow> string \<Rightarrow> ctoken_configs res" where
  "ctk_configs ctk a = bindR (dgetR ctk a) (\<lambda>i. opt_res AttributeError (configs i))"

definition dict_upd :: "'k \<Rightarrow> ('v \<Rightarrow> 'v) \<Rightarrow> ('k, 'v) dict \<Rightarrow> ('k, 'v) dict res" where
  \<comment> \<open>an assignment to an attribute of \<open>d[k]\<close>\<close>
  "dict_upd k f d = (case dget d k of None \<Rightarrow> Inl KeyError | Some v \<Rightarrow> Inr (dput k (f v) d))"

lemma dict_upd_Inr_iff: "dict_upd k f d = Inr d' \<longleftrightarrow> (\<exists>v. dget d k = Some v \<and> d' = dput k (f v) d)"
  by (auto simp: dict_upd_def split: option.splits)

lemma dict_upd_keys: "dict_upd k f d = Inr d' \<Longrightarrow> dkeys d' = dkeys d"
  by (auto simp: dict_upd_Inr_iff dest!: dget_in_keys intro!: dkeys_dput_mem)

lemma dget_fold_dput:
  "dget (fold (\<lambda>r. dput r (f r)) ks d) k = (if k \<in> set ks then Some (f k) else dget d k)"
  by (induction ks arbitrary: d) auto

lemma dict_ok_fold_dput: "dict_ok d \<Longrightarrow> dict_ok (fold (\<lambda>r. dput r (f r)) ks d)"
  by (induction ks arbitrary: d) auto

end
