(* ===== verification/Events.thy ===== *)
theory Events
  imports Tokens
begin

text \<open>
  Event logs: the conversion of the light node's and the full node's messages to receipts
  (\<open>types_light.py\<close>), the generic event state (\<open>configs/event.py\<close>) and its Venus instance that
  records who minted or repaid VAI (\<open>configs/vai.py\<close>).

  The check-sum spelling of an address (web3) and the ABI decoder (eth_abi) are parameters:
  \<open>checksum\<close> maps an address to its spelling; \<open>abi_decode types data\<close> is the list of decoded
  values, \<open>None\<close> when the library raises.
\<close>

datatype abi_val =
    VInt int
  | VAddr string
  | VBytes bytes
  | VInts "int list"

type_synonym abi_decoder = "string list \<Rightarrow> bytes \<Rightarrow> abi_val list option"
type_synonym checksummer = "string \<Rightarrow> string"

definition arg_int :: "abi_val list \<Rightarrow> nat \<Rightarrow> int res" where
  "arg_int args i = (if i < length args then
     (case args ! i of VInt n \<Rightarrow> Inr n | _ \<Rightarrow> Inl TypeError) else Inl IndexError)"

definition arg_addr :: "abi_val list \<Rightarrow> nat \<Rightarrow> string res" where
  "arg_addr args i = (if i < length args then
     (case args ! i of VAddr a \<Rightarrow> Inr a | _ \<Rightarrow> Inl TypeError) else Inl IndexError)"

record event_abi =
  ev_name :: string
  ev_index_topic :: "string list"
  ev_data :: "string list"

section \<open>Receipts\<close>

record log_receipt =
  lg_address :: string
  lg_data :: string
  lg_topics :: "bytes list"
  lg_blockNumber :: int
  lg_blockHash :: bytes
  lg_transactionIndex :: int
  lg_transactionHash :: bytes
  lg_removed :: bool  \<comment> \<open>\<open>log.get('removed', False)\<close>\<close>

record log_event_light =
  le_address :: string
  le_topics :: "string list"
  le_txIndex :: int
  le_data :: string
  le_transactionHash :: string

record log_receipt_light =
  ll_blockHash :: string
  ll_blockNumber :: int
  ll_events :: "log_event_light list option"

definition convert_event :: "checksummer \<Rightarrow> log_receipt_light \<Rightarrow> log_event_light \<Rightarrow> log_receipt res" where
  "convert_event checksum dct v =
     bindR (mapR (\<lambda>t. fromhex (drop 2 t)) (le_topics v)) (\<lambda>topics.
     bindR (fromhex (drop 2 (ll_blockHash dct))) (\<lambda>bh.
     bindR (fromhex (drop 2 (le_transactionHash v))) (\<lambda>th.
       Inr \<lparr>lg_address = checksum (le_address v),
            lg_data = le_data v,
            lg_topics = topics,
            lg_blockNumber = ll_blockNumber dct,
            lg_blockHash = bh,
            lg_transactionIndex = le_txIndex v,
            lg_transactionHash = th,
            lg_removed = False\<rparr>)))"

definition converter :: "checksummer \<Rightarrow> log_receipt_light \<Rightarrow> log_receipt list res" where
  "converter checksum dct =
     (case ll_events dct of None \<Rightarrow> Inr [] | Some evs \<Rightarrow> mapR (convert_event checksum dct) evs)"

record log_receipt_full =
  lf_address :: string
  lf_blockHash :: string
  lf_blockNumber :: string
  lf_data :: string
  lf_transactionIndex :: string
  lf_topics :: "string list"
  lf_transactionHash :: string

definition converter_full :: "log_receipt_full \<Rightarrow> log_receipt_light res" where
  "converter_full dct =
     bindR (py_int 16 (lf_blockNumber dct)) (\<lambda>bn.
     bindR (py_int 16 (lf_transactionIndex dct)) (\<lambda>ti.
       Inr \<lparr>ll_blockHash = lf_blockHash dct, ll_blockNumber = bn,
            ll_events = Some [\<lparr>le_address = lf_address dct, le_topics = lf_topics dct,
              le_txIndex = ti, le_data = lf_data dct,
              le_transactionHash = lf_transactionHash dct\<rparr>]\<rparr>))"

text \<open>The event a receipt announces, by its first topic.\<close>

definition topic0 :: "log_receipt \<Rightarrow> string res" where
  "topic0 lg = bindR (py_index (lg_topics lg) 0) (\<lambda>t. Inr (hexbytes_hex t))"

definition decode_data :: "abi_decoder \<Rightarrow> event_abi \<Rightarrow> log_receipt \<Rightarrow> py_error \<Rightarrow> abi_val list res" where
  \<comment> \<open>\<open>decode(obj['data'], bytes.fromhex(log['data'][2:]))\<close>, any failure re-raised as \<open>err\<close>\<close>
  "decode_data abi_decode obj lg err =
     (case fromhex (drop 2 (lg_data lg)) of
        Inl _ \<Rightarrow> Inl err
      | Inr d \<Rightarrow> opt_res err (abi_decode (ev_data obj) d))"

lemma converter_length:
  "converter checksum dct = Inr logs \<Longrightarrow>
   length logs = (case ll_events dct of None \<Rightarrow> 0 | Some evs \<Rightarrow> length evs)"
  by (auto simp: converter_def dest: mapR_length split: option.splits)

lemma converter_block:
  "converter checksum dct = Inr logs \<Longrightarrow> lg \<in> set logs \<Longrightarrow>
   lg_blockNumber lg = ll_blockNumber dct \<and> \<not> lg_removed lg"
  by (auto simp: converter_def convert_event_def dest!: mapR_in split: option.splits)

section \<open>The generic event state\<close>

record event_state =
  es_storage :: "(string, int) dict"
  es_events :: "(string, event_abi) dict"
  es_addres :: "string list"

definition gen_topics :: "event_state \<Rightarrow> string list" where
  "gen_topics st = dkeys (es_events st)"

record log_filter =
  f_address :: "string list"
  f_topics :: "string list list"

definition gen_events_filter :: "event_state \<Rightarrow> log_filter" where
  "gen_events_filter st = \<lparr>f_address = es_addres st, f_topics = [gen_topics st]\<rparr>"

text \<open>
  \<open>State.update\<close>: a removed log and an event that is not the state's give the empty list, which
  is an empty dictionary for every caller; \<open>write\<close> is \<open>write_state_with_return\<close> of the subclass.
\<close>

definition event_state_update ::
    "abi_decoder \<Rightarrow> (string \<Rightarrow> bytes list \<Rightarrow> abi_val list \<Rightarrow> (string, int) dict res) \<Rightarrow>
     event_state \<Rightarrow> log_receipt \<Rightarrow> (string, int) dict res" where
  "event_state_update abi_decode write st lg =
     (if lg_removed lg then Inr []
      else bindR (topic0 lg) (\<lambda>topic.
        case dget (es_events st) topic of
          None \<Rightarrow> Inr []
        | Some obj \<Rightarrow>
            bindR (if ev_data obj \<noteq> [] then decode_data abi_decode obj lg (Raised ''update failed'')
                   else Inr [])
              (\<lambda>args. write (ev_name obj) (lg_topics lg) args)))"

section \<open>VAI\<close>

definition MintVAI_topic :: string where
  "MintVAI_topic = ''0x002e68ab1600fc5e7290e2ceaa79e2f86b4dbaca84a48421e167e0b40409218a''"

definition RepayVAI_topic :: string where
  "RepayVAI_topic = ''0x1db858e6f7e1a0d5e92c10c6507d42b3dabfe0a4867fe90c5a14d9963662ef7e''"

definition VAI_EVENT_ABI :: "(string, event_abi) dict" where
  "VAI_EVENT_ABI = [
     (MintVAI_topic, \<lparr>ev_name = ''MintVAI'', ev_index_topic = [], ev_data = [''address'', ''uint256'']\<rparr>),
     (RepayVAI_topic, \<lparr>ev_name = ''RepayVAI'', ev_index_topic = [],
       ev_data = [''address'', ''address'', ''uint256'']\<rparr>)]"

definition VaiState :: event_state where
  "VaiState = \<lparr>es_storage = [], es_events = VAI_EVENT_ABI, es_addres = [vai_addr P_ALIAS]\<rparr>"

definition vai_write_state_with_return ::
    "string \<Rightarrow> bytes list \<Rightarrow> abi_val list \<Rightarrow> (string, int) dict res" where
  "vai_write_state_with_return event_name topics args =
     bindR (if event_name = ''MintVAI'' then bindR (arg_addr args 0) (\<lambda>user. Inr [(user, 1)]) else Inr [])
       (\<lambda>r. if event_name = ''RepayVAI'' then bindR (arg_addr args 1) (\<lambda>user. Inr (dput user 1 r)) else Inr r)"

definition vai_update :: "abi_decoder \<Rightarrow> event_state \<Rightarrow> log_receipt \<Rightarrow> (string, int) dict res" where
  "vai_update abi_decode = event_state_update abi_decode vai_write_state_with_return"

lemma vai_write_ok:
  assumes "vai_write_state_with_return name topics args = Inr r"
  shows "length r \<le> 1 \<and> (\<forall>(u, n) \<in> set r. n = 1)"
  using assms by (auto simp: vai_write_state_with_return_def split: if_splits)

lemma vai_update_result:
  assumes "vai_update abi_decode st lg = Inr r"
  shows "length r \<le> 1" "(u, n) \<in> set r \<Longrightarrow> n = 1"
proof -
  have "r = [] \<or> (\<exists>name topics args. vai_write_state_with_return name topics args = Inr r)"
    using assms by (auto simp: vai_update_def event_state_update_def split: if_splits option.splits)
  then show "length r \<le> 1" "(u, n) \<in> set r \<Longrightarrow> n = 1"
    using vai_write_ok by (fastforce+)
qed

section \<open>Market membership events\<close>

text \<open>
  \<open>MarkEnterState\<close>: its constructor calls \<open>State.__init__\<close> without the address list, so it
  raises; its event handler is modelled on its own.
\<close>

definition MarkEnterState_init :: "(string, event_abi) dict \<Rightarrow> event_state res" where
  "MarkEnterState_init events = Inl TypeError"

definition mark_enter_write_state_with_return ::
    "string \<Rightarrow> bytes list \<Rightarrow> abi_val list \<Rightarrow> (string, (string, int) dict) dict res" where
  "mark_enter_write_state_with_return event_name topics args =
     bindR (arg_addr args 0) (\<lambda>ct. bindR (arg_addr args 1) (\<lambda>user.
       Inr [(user, if event_name = ''MarketEntered'' then [(ct, 1)]
                   else if event_name = ''MarketExited'' then [(ct, - 1)] else [])]))"

end
