(* ===== verification/EventLoop.thy ===== *)
theory EventLoop
  imports Events
begin

text \<open>
  The catch-up loop over past blocks: \<open>query_events_loop\<close> of \<open>configs/utils.py\<close> and its copy
  \<open>query_events_loop_liq\<close> of \<open>configs/users.py\<close>. The object whose events are read is any state
  with a \<open>last_update\<close> field and an \<open>update\<close> operation; the node's answer to \<open>eth_getLogs\<close> is
  the parameter \<open>get_logs from to\<close>. The loop re-reads \<open>last_update\<close> in every round, so whether
  it ends depends on the hook: it is a \<open>partial_function\<close>, and the locale
  \<open>event_consumer\<close> states what makes it end (the hook leaves \<open>last_update\<close> alone) and proves
  that it then performs exactly the rounds of \<open>block_ranges\<close>.
\<close>

section \<open>One round and the loop\<close>

definition process_logs :: "('l \<Rightarrow> ('s, ('k, 'v) dict) eff) \<Rightarrow> 'l list \<Rightarrow> ('s, ('k, 'v) dict) eff" where
  \<comment> \<open>the results of \<open>obj.update\<close> collected with \<open>dict.update\<close>\<close>
  "process_logs update logs = foldE (\<lambda>lg res. bindE (update lg) (\<lambda>t. returnE (dupdate res t))) logs []"

definition loop_round ::
    "(int \<Rightarrow> 's \<Rightarrow> 's) \<Rightarrow> ('l \<Rightarrow> ('s, ('k, 'v) dict) eff) \<Rightarrow> (('k, 'v) dict \<Rightarrow> int \<Rightarrow> ('s, int) eff) \<Rightarrow>
     (int \<Rightarrow> int \<Rightarrow> 'l list res) \<Rightarrow> int \<Rightarrow> int \<Rightarrow> int \<Rightarrow> ('s, int) eff" where
  "loop_round set_last update hook get_logs from_block to_block counter =
     (case get_logs from_block to_block of
        Inl e \<Rightarrow> raiseE (Raised ''get logs failed'')
      | Inr logs \<Rightarrow>
          bindE (process_logs update logs) (\<lambda>res.
          thenE (modE (set_last to_block))
          (hook res (counter + 1))))"

definition range_end :: "int \<Rightarrow> int \<Rightarrow> int" where
  "range_end from_block target =
     (let to_block = from_block + 1999 in if target < to_block then target else to_block)"

partial_function (option) query_events_loop ::
    "('s \<Rightarrow> int) \<Rightarrow> (int \<Rightarrow> 's \<Rightarrow> 's) \<Rightarrow> ('l \<Rightarrow> ('s, ('k, 'v) dict) eff) \<Rightarrow>
     (('k, 'v) dict \<Rightarrow> int \<Rightarrow> ('s, int) eff) \<Rightarrow> (int \<Rightarrow> int \<Rightarrow> 'l list res) \<Rightarrow> int \<Rightarrow> int \<Rightarrow> 's \<Rightarrow>
     (unit res \<times> 's) option" where
  "query_events_loop lu set_last update hook get_logs target counter s =
     (if lu s < target then
        (case loop_round set_last update hook get_logs (lu s + 1) (range_end (lu s + 1) target) counter s of
           (Inl e, s') \<Rightarrow> Some (Inl e, s')
         | (Inr c, s') \<Rightarrow> query_events_loop lu set_last update hook get_logs target c s')
      else Some (Inr (), s))"

text \<open>The two hooks of \<open>configs/utils.py\<close>; \<open>cache\<close> is the object's own operation.\<close>

definition empty_hook :: "('k, 'v) dict \<Rightarrow> int \<Rightarrow> ('s, int) eff" where
  "empty_hook res cnt = returnE 0"

definition data_cache_hook :: "('s, unit) eff \<Rightarrow> ('k, 'v) dict \<Rightarrow> int \<Rightarrow> ('s, int) eff" where
  "data_cache_hook cache res cnt =
     (if 100 \<le> cnt then bindE cache (\<lambda>_. returnE 0) else returnE cnt)"

section \<open>The rounds\<close>

function block_ranges :: "int \<Rightarrow> int \<Rightarrow> (int \<times> int) list" where
  "block_ranges lu target =
     (if lu < target
      then let e = range_end (lu + 1) target in (lu + 1, e) # block_ranges e target
      else [])"
  by pat_completeness auto
termination
  by (relation "measure (\<lambda>(lu, target). nat (target - lu))") (auto simp: range_end_def Let_def)

declare block_ranges.simps [simp del]

lemma block_ranges_step:
  "lu < target \<Longrightarrow> block_ranges lu target =
     (lu + 1, range_end (lu + 1) target) # block_ranges (range_end (lu + 1) target) target"
  by (subst block_ranges.simps) (simp add: Let_def)

lemma block_ranges_done: "\<not> lu < target \<Longrightarrow> block_ranges lu target = []"
  by (subst block_ranges.simps) simp

lemma range_end_bounds: "a \<le> t \<Longrightarrow> a \<le> range_end a t \<and> range_end a t \<le> t \<and> range_end a t < a + 2000"
  by (auto simp: range_end_def Let_def)

text \<open>The ranges follow each other without gap or overlap, and each has at most 2000 blocks.\<close>

lemma block_ranges_cover:
  "concat (map (\<lambda>(a, b). [a..b]) (block_ranges lu target)) = [lu + 1..target]"
proof (induction lu target rule: block_ranges.induct)
  case (1 lu target)
  show ?case
  proof (cases "lu < target")
    case True
    define e where "e = range_end (lu + 1) target"
    have e: "lu + 1 \<le> e" "e \<le> target"
      using range_end_bounds [of "lu + 1" target] True by (auto simp: e_def)
    have "concat (map (\<lambda>(a, b). [a..b]) (block_ranges lu target)) = [lu + 1..e] @ [e + 1..target]"
      using 1 True by (simp add: block_ranges_step e_def)
    also have "\<dots> = [lu + 1..target]"
      using upto_split2 [of "lu + 1" e target] e by (cases "e = target") auto
    finally show ?thesis .
  next
    case False
    then show ?thesis by (simp add: block_ranges_done)
  qed
qed

lemma block_ranges_small: "(a, b) \<in> set (block_ranges lu target) \<Longrightarrow> a \<le> b \<and> b < a + 2000"
proof (induction lu target rule: block_ranges.induct)
  case (1 lu target)
  then show ?case
    using range_end_bounds [of "lu + 1" target]
    by (cases "lu < target") (auto simp: block_ranges_step block_ranges_done)
qed

definition run_ranges ::
    "(int \<Rightarrow> 's \<Rightarrow> 's) \<Rightarrow> ('l \<Rightarrow> ('s, ('k, 'v) dict) eff) \<Rightarrow> (('k, 'v) dict \<Rightarrow> int \<Rightarrow> ('s, int) eff) \<Rightarrow>
     (int \<Rightarrow> int \<Rightarrow> 'l list res) \<Rightarrow> (int \<times> int) list \<Rightarrow> int \<Rightarrow> ('s, int) eff" where
  "run_ranges set_last update hook get_logs rs counter =
     foldE (\<lambda>(a, b) c. loop_round set_last update hook get_logs a b c) rs counter"

section \<open>The contract of an event consumer\<close>

locale event_consumer =
  fixes lu :: "'s \<Rightarrow> int"
    and set_last :: "int \<Rightarrow> 's \<Rightarrow> 's"
    and update :: "'l \<Rightarrow> ('s, ('k, 'v) dict) eff"
    and hook :: "('k, 'v) dict \<Rightarrow> int \<Rightarrow> ('s, int) eff"
    and inv :: "'s \<Rightarrow> bool"
  assumes last_set: "lu (set_last b s) = b"
    and inv_set: "inv s \<Longrightarrow> inv (set_last b s)"
    and hook_frame: "frames lu (hook res c)"
    and hook_inv: "keeps inv (hook res c)"
    and update_inv: "keeps inv (update lg)"
begin

lemma round_inv: "keeps inv (loop_round set_last update hook get_logs a b c)"
  unfolding loop_round_def process_logs_def
  by (auto split: sum.splits intro!: keeps_intros update_inv hook_inv inv_set)

lemma round_last:
  assumes "loop_round set_last update hook get_logs a b c s = (Inr c', s')"
  shows "lu s' = b"
proof -
  have "\<And>res c s. lu (snd (hook res c s)) = lu s" using hook_frame by (simp add: frames_def)
  then show ?thesis
    using assms last_set
    by (auto simp: loop_round_def py_simps split: sum.splits dest!: arg_cong [where f = "\<lambda>p. lu (snd p)"])
qed

lemma loop_eq_ranges:
  "query_events_loop lu set_last update hook get_logs target counter s =
   Some (case run_ranges set_last update hook get_logs (block_ranges (lu s) target) counter s of
           (Inl e, s') \<Rightarrow> (Inl e, s') | (Inr c, s') \<Rightarrow> (Inr (), s'))"
proof (induction "lu s" target arbitrary: counter s rule: block_ranges.induct)
  case (1 target)
  show ?case
  proof (cases "lu s < target")
    case True
    define e where "e = range_end (lu s + 1) target"
    obtain r s' where rs: "loop_round set_last update hook get_logs (lu s + 1) e counter s = (r, s')"
      by (cases "loop_round set_last update hook get_logs (lu s + 1) e counter s")
    show ?thesis
    proof (cases r)
      case (Inl err)
      then show ?thesis
        using True rs
        by (simp add: query_events_loop.simps block_ranges_step e_def [symmetric] run_ranges_def py_simps)
    next
      case (Inr c)
      then have "lu s' = e" using rs round_last by blast
      then show ?thesis
        using True rs Inr 1 [of s' c]
        by (subst query_events_loop.simps)
          (simp add: block_ranges_step e_def [symmetric] run_ranges_def py_simps)
    qed
  next
    case False
    then show ?thesis
      by (simp add: query_events_loop.simps block_ranges_done run_ranges_def py_simps)
  qed
qed

lemma ranges_inv: "keeps inv (run_ranges set_last update hook get_logs rs c)"
  unfolding run_ranges_def by (auto intro!: keeps_intros round_inv)

lemma ranges_last:
  assumes "run_ranges set_last update hook get_logs (block_ranges (lu s) target) c s = (Inr c', s')"
  shows "lu s' = max (lu s) target"
  using assms
proof (induction "lu s" target arbitrary: c s rule: block_ranges.induct)
  case (1 target)
  show ?case
  proof (cases "lu s < target")
    case True
    define e where "e = range_end (lu s + 1) target"
    obtain r s1 where rs: "loop_round set_last update hook get_logs (lu s + 1) e c s = (r, s1)"
      by (cases "loop_round set_last update hook get_logs (lu s + 1) e c s")
    obtain d where r: "r = Inr d"
      using "1.prems" True rs
      by (cases r) (auto simp: block_ranges_step e_def [symmetric] run_ranges_def py_simps)
    have le: "lu s1 = e" using rs r round_last by blast
    have "run_ranges set_last update hook get_logs (block_ranges e target) d s1 = (Inr c', s')"
      using "1.prems" True rs r
      by (simp add: block_ranges_step e_def [symmetric] run_ranges_def py_simps)
    then have "lu s' = max e target"
      using "1.hyps" [of s1 d] True le by (simp add: e_def)
    then show ?thesis
      using range_end_bounds [of "lu s + 1" target] True by (auto simp: e_def)
  next
    case False
    then show ?thesis
      using "1.prems" by (auto simp: block_ranges_done run_ranges_def py_simps)
  qed
qed

text \<open>The loop returns; it keeps the invariant, and a run without error ends at the target.\<close>

theorem loop_total:
  assumes "inv s"
  shows "\<exists>r s'. query_events_loop lu set_last update hook get_logs target counter s = Some (r, s') \<and>
     inv s' \<and> (r = Inr () \<longrightarrow> lu s' = max (lu s) target)"
proof -
  define m where "m = run_ranges set_last update hook get_logs (block_ranges (lu s) target) counter s"
  obtain r s' where m: "m = (r, s')" by (cases m)
  have i: "inv s'" using keepsD [OF ranges_inv assms] m by (metis m_def snd_conv)
  show ?thesis
  proof (cases r)
    case (Inl e)
    then show ?thesis using i m loop_eq_ranges [of get_logs target counter s] by (simp add: m_def)
  next
    case (Inr c)
    then have "lu s' = max (lu s) target" using m ranges_last by (simp add: m_def)
    with Inr i m show ?thesis
      using loop_eq_ranges [of get_logs target counter s] by (simp add: m_def)
  qed
qed

end

section \<open>The loop over an event state\<close>

record event_obj =
  eo_last_update :: int
  eo_state :: event_state

definition event_obj_update :: "abi_decoder \<Rightarrow> log_receipt \<Rightarrow> (event_obj, (string, int) dict) eff" where
  \<comment> \<open>\<open>EventState.update\<close> with the Venus state\<close>
  "event_obj_update abi_decode lg = getR (\<lambda>s. vai_update abi_decode (eo_state s) lg)"

interpretation vai_loop: event_consumer eo_last_update "\<lambda>b s. s\<lparr>eo_last_update := b\<rparr>"
    "event_obj_update abi_decode" empty_hook "\<lambda>s. eo_state s = st"
  for abi_decode st
  by unfold_locales (auto simp: frames_def empty_hook_def event_obj_update_def py_simps
      intro: keepsI)

text \<open>The block ranges that the loop asks for are, one after the other, exactly the blocks behind the
  last update up to the target, and no range is longer than 2000 blocks.\<close>

theorem ranges_exact:
  "concat (map (\<lambda>(a, b). [a..b]) (block_ranges lu target)) = [lu + 1..target] \<and>
   (\<forall>(a, b) \<in> set (block_ranges lu target). a \<le> b \<and> b < a + 2000)"
  using block_ranges_cover block_ranges_small by blast

end
