(* ===== verification/Users.thy ===== *)
theory Users
  imports EventLoop
begin

text \<open>
  \<open>configs/users.py\<close>, first half: the users' positions and the handler of market events.

  Python shares objects: the high-profit view of the users holds the same \<open>UserStates\<close> and
  \<open>CompReserve\<close> objects as the full one, and both hold the same markets and plug-in. The model
  keeps these objects in a store, two lists indexed by object references; a dictionary maps a
  user to the reference of its object, and that object maps a market to the reference of its
  position. The class \<open>States\<close> is the record \<open>states\<close>; its subclass extends the record, so the
  operations below apply to both.

  \<open>wf\<close> says that every reference is allocated, \<open>unshared\<close> that no two names lead to one object.
  \<open>position\<close> forgets the references; the \<open>position_...\<close> lemmas describe each write by its effect on
  positions.
\<close>

section \<open>State\<close>

record health_factor =
  hf_value :: pyfloat
  hf_debt_volume :: int
  hf_last_update :: int

definition new_health_factor :: health_factor where
  "new_health_factor = \<lparr>hf_value = 0, hf_debt_volume = 0, hf_last_update = 0\<rparr>"

definition hf_to_list :: "health_factor \<Rightarrow> json" where
  "hf_to_list h = JList [JFloat (hf_value h), JInt (hf_debt_volume h), JInt (hf_last_update h)]"

text \<open>\<open>get_col_volume\<close> reads an attribute the class does not have.\<close>

definition get_col_volume :: "health_factor \<Rightarrow> pyfloat res" where
  "get_col_volume h = Inl AttributeError"

record user_obj =
  reserves :: "(string, nat) dict"
  user_hf :: health_factor
  vai_repay :: int

record states =
  s_users :: "user_obj list"
  s_reserves :: "comp_reserve list"
  s_ctokens :: ctokens
  s_plug_in :: "event_state option"
  users_states :: "(string, nat) dict"
  last_update :: int
  block_hash :: string

text \<open>Reading: the object of a user, the reference of a position.\<close>

definition user_ref :: "'a states_scheme \<Rightarrow> string \<Rightarrow> nat res" where
  "user_ref s u = dgetR (users_states s) u"

definition user_of :: "'a states_scheme \<Rightarrow> string \<Rightarrow> user_obj res" where
  "user_of s u = bindR (user_ref s u) (\<lambda>r. Inr (s_users s ! r))"

definition reserve_ref :: "'a states_scheme \<Rightarrow> string \<Rightarrow> string \<Rightarrow> nat res" where
  "reserve_ref s u a = bindR (user_of s u) (\<lambda>o1. dgetR (reserves o1) a)"

definition position :: "'a states_scheme \<Rightarrow> string \<Rightarrow> string \<Rightarrow> comp_reserve option" where
  "position s u a = (case dget (users_states s) u of None \<Rightarrow> None
     | Some r \<Rightarrow> map_option (\<lambda>q. s_reserves s ! q) (dget (reserves (s_users s ! r)) a))"

text \<open>Writing: a field of a position, of a user, of a market.\<close>

definition mod_reserve :: "string \<Rightarrow> string \<Rightarrow> (comp_reserve \<Rightarrow> comp_reserve) \<Rightarrow> ('a states_scheme, unit) eff" where
  "mod_reserve u a f = bindE (getR (\<lambda>s. reserve_ref s u a)) (\<lambda>q.
     modE (\<lambda>s. s\<lparr>s_reserves := (s_reserves s)[q := f (s_reserves s ! q)]\<rparr>))"

definition mod_user :: "string \<Rightarrow> (user_obj \<Rightarrow> user_obj) \<Rightarrow> ('a states_scheme, unit) eff" where
  "mod_user u f = bindE (getR (\<lambda>s. user_ref s u)) (\<lambda>r.
     modE (\<lambda>s. s\<lparr>s_users := (s_users s)[r := f (s_users s ! r)]\<rparr>))"

definition mod_ctoken :: "string \<Rightarrow> (ctoken_infos \<Rightarrow> ctoken_infos) \<Rightarrow> ('a states_scheme, unit) eff" where
  "mod_ctoken a f = bindE (getR (\<lambda>s. dict_upd a f (s_ctokens s))) (\<lambda>d.
     modE (\<lambda>s. s\<lparr>s_ctokens := d\<rparr>))"

section \<open>New users and positions\<close>

definition alloc_user :: "string \<Rightarrow> 'a states_scheme \<Rightarrow> 'a states_scheme" where
  \<comment> \<open>\<open>self.users_states[user] = UserStates({}, new_health_factor())\<close>\<close>
  "alloc_user u s = s\<lparr>
     s_users := s_users s @ [\<lparr>reserves = [], user_hf = new_health_factor, vai_repay = 0\<rparr>],
     users_states := dput u (length (s_users s)) (users_states s)\<rparr>"

definition alloc_reserve :: "nat \<Rightarrow> string \<Rightarrow> 'a states_scheme \<Rightarrow> 'a states_scheme" where
  \<comment> \<open>\<open>self.users_states[user].reserves[reserve] = new_reserve()\<close>, the user's object at \<open>r\<close>\<close>
  "alloc_reserve r a s = s\<lparr>
     s_reserves := s_reserves s @ [new_reserve],
     s_users := (s_users s)[r := (s_users s ! r)\<lparr>reserves :=
        dput a (length (s_reserves s)) (reserves (s_users s ! r))\<rparr>]\<rparr>"

definition check_user_and_reserve :: "string \<Rightarrow> string \<Rightarrow> ('a states_scheme, int) eff" where
  "check_user_and_reserve user reserve =
     bindE (getE (\<lambda>s. dget (users_states s) user = None)) (\<lambda>new_user.
     thenE (whenE new_user (modE (alloc_user user)))
     (bindE (getR (\<lambda>s. user_ref s user)) (\<lambda>r.
      bindE (getE (\<lambda>s. dget (reserves (s_users s ! r)) reserve = None)) (\<lambda>new_res.
      thenE (whenE new_res (modE (alloc_reserve r reserve)))
        (returnE (if new_res \<or> new_user then 2 else 1))))))"

section \<open>The handler of market events\<close>

definition EVENT_ABI :: "(string, event_abi) dict" where
  "EVENT_ABI = [
    (''0x1a2a22cb034d26d1854bdc6666a5b91fe25efbbb5dcad3b0355478d6f5c362a1'',
     \<lparr>ev_name = ''RepayBorrow'', ev_index_topic = [],
      ev_data = [''address'', ''address'', ''uint256'', ''uint256'', ''uint256'']\<rparr>),
    (''0x13ed6866d4e1ee6da46f845c46d7e54120883d75c5ea9a2dacc1c4ca8984ab80'',
     \<lparr>ev_name = ''Borrow'', ev_index_topic = [],
      ev_data = [''address'', ''uint256'', ''uint256'', ''uint256'']\<rparr>),
    (''0xddf252ad1be2c89b69c2b068fc378daa952ba7f163c4a11628f55a4df523b3ef'',
     \<lparr>ev_name = ''Transfer'', ev_index_topic = [''address'', ''address''], ev_data = [''uint256'']\<rparr>),
    (''0x4c209b5fc8ad50758f13e2e1088ba56a560dff690a1c6fef26394f4c03821c4f'',
     \<lparr>ev_name = ''Mint'', ev_index_topic = [], ev_data = [''address'', ''uint256'', ''uint256'']\<rparr>),
    (''0xe5b754fb1abb7f01b499791d0b820ae3b6af3424ac1c59768edb53f4ec31a929'',
     \<lparr>ev_name = ''Redeem'', ev_index_topic = [], ev_data = [''address'', ''uint256'', ''uint256'']\<rparr>),
    (''0xa91e67c5ea634cd43a12c5a482724b03de01e85ca68702a53d0c2f45cb7c1dc5'',
     \<lparr>ev_name = ''ReservesAdded'', ev_index_topic = [], ev_data = [''address'', ''uint256'', ''uint256'']\<rparr>),
    (''0x3bad0c59cf2f06e7314077049f48a93578cd16f5ef92329f1dab1420a99c177e'',
     \<lparr>ev_name = ''ReservesReduced'', ev_index_topic = [], ev_data = [''address'', ''uint256'', ''uint256'']\<rparr>),
    (''0x875352fb3fadeb8c0be7cbbe8ff761b308fa7033470cd0287f02f3436fd76cb9'',
     \<lparr>ev_name = ''AccrueInterest'', ev_index_topic = [], ev_data = [''uint256'', ''uint256'', ''uint256'']\<rparr>),
    (''0x4dec04e750ca11537cabcd8a9eab06494de08da3735bc8871cd41250e190bc04'',
     \<lparr>ev_name = ''AccrueInterest_delegate'', ev_index_topic = [],
      ev_data = [''uint256'', ''uint256'', ''uint256'', ''uint256'']\<rparr>),
    ('''', \<lparr>ev_name = ''NewReserveFactor'', ev_index_topic = [], ev_data = [''uint256'', ''uint256'']\<rparr>)]"

definition topic_addr :: "log_receipt \<Rightarrow> int \<Rightarrow> string res" where
  \<comment> \<open>\<open>log['topics'][i][12:].hex()\<close>\<close>
  "topic_addr lg i = bindR (py_index (lg_topics lg) i) (\<lambda>t. Inr (hexbytes_hex (drop 12 t)))"

definition supply_shift :: "string \<Rightarrow> string \<Rightarrow> string \<Rightarrow> int \<Rightarrow> ('a states_scheme, unit) eff" where
  \<comment> \<open>the two updates of \<open>total_supply\<close> in the \<open>Transfer\<close> branch\<close>
  "supply_shift reserve from_user to_user amount =
     thenE (whenE (from_user = lower reserve) (mod_ctoken reserve (\<lambda>i. i\<lparr>balances :=
              (balances i)\<lparr>total_supply := total_supply (balances i) + amount\<rparr>\<rparr>)))
     (whenE (to_user = lower reserve) (mod_ctoken reserve (\<lambda>i. i\<lparr>balances :=
              (balances i)\<lparr>total_supply := total_supply (balances i) - amount\<rparr>\<rparr>)))"

definition on_transfer :: "log_receipt \<Rightarrow> string \<Rightarrow> abi_val list \<Rightarrow> ('a states_scheme, (string, int) dict) eff" where
  "on_transfer lg reserve args =
     bindE (liftR (topic_addr lg 1)) (\<lambda>from_user.
     bindE (liftR (topic_addr lg 2)) (\<lambda>to_user.
     bindE (liftR (arg_int args 0)) (\<lambda>amount.
     bindE (check_user_and_reserve from_user reserve) (\<lambda>change_type1.
     bindE (check_user_and_reserve to_user reserve) (\<lambda>change_type2.
     thenE (supply_shift reserve from_user to_user amount)
     (thenE (mod_reserve from_user reserve (\<lambda>r. r\<lparr>col_amount := col_amount r - amount\<rparr>))
     (thenE (mod_reserve to_user reserve (\<lambda>r. r\<lparr>col_amount := col_amount r + amount\<rparr>))
     (returnE (dput to_user change_type2 [(from_user, change_type1)])))))))))"

definition set_debt :: "string \<Rightarrow> string \<Rightarrow> int \<Rightarrow> int \<Rightarrow> ('a states_scheme, (string, int) dict) eff" where
  \<comment> \<open>the common part of the \<open>RepayBorrow\<close> and \<open>Borrow\<close> branches\<close>
  "set_debt borrower reserve amount totalb =
     bindE (check_user_and_reserve borrower reserve) (\<lambda>change_type.
     thenE (mod_reserve borrower reserve (\<lambda>r. r\<lparr>debt_amount := amount\<rparr>))
     (bindE (getR (\<lambda>s. ctk_risks (s_ctokens s) reserve)) (\<lambda>rk.
      thenE (mod_reserve borrower reserve (\<lambda>r. r\<lparr>debt_interest := borrow_index rk\<rparr>))
      (thenE (mod_ctoken reserve (\<lambda>i. i\<lparr>balances := (balances i)\<lparr>total_borrow := totalb\<rparr>\<rparr>))
      (returnE [(borrower, change_type)])))))"

definition on_repay_borrow :: "string \<Rightarrow> abi_val list \<Rightarrow> ('a states_scheme, (string, int) dict) eff" where
  "on_repay_borrow reserve args =
     bindE (liftR (arg_addr args 1)) (\<lambda>borrower.
     bindE (liftR (arg_int args 3)) (\<lambda>amount.
     bindE (liftR (arg_int args 2)) (\<lambda>repay_amount.
     bindE (liftR (arg_int args 4)) (\<lambda>totalb.
       set_debt borrower reserve amount totalb))))"

definition on_borrow :: "string \<Rightarrow> abi_val list \<Rightarrow> ('a states_scheme, (string, int) dict) eff" where
  "on_borrow reserve args =
     bindE (liftR (arg_addr args 0)) (\<lambda>borrower.
     bindE (liftR (arg_int args 2)) (\<lambda>amount.
     bindE (liftR (arg_int args 1)) (\<lambda>borrow_amount.
     bindE (liftR (arg_int args 3)) (\<lambda>totalb.
       set_debt borrower reserve amount totalb))))"

definition on_accrue :: "nat \<Rightarrow> string \<Rightarrow> abi_val list \<Rightarrow> ('a states_scheme, (string, int) dict) eff" where
  "on_accrue deviation reserve args =
     bindE (liftR (arg_int args (0 + deviation))) (\<lambda>interest_accumulated.
     bindE (liftR (arg_int args (1 + deviation))) (\<lambda>index1.
     bindE (liftR (arg_int args (2 + deviation))) (\<lambda>totalb.
     thenE (mod_ctoken reserve (\<lambda>i. i\<lparr>risks := (risks i)\<lparr>borrow_index := index1\<rparr>\<rparr>))
     (thenE (mod_ctoken reserve (\<lambda>i. i\<lparr>balances := (balances i)\<lparr>total_borrow := totalb\<rparr>\<rparr>))
     (thenE (mod_ctoken reserve (\<lambda>i. i\<lparr>balances := (balances i)\<lparr>total_reserve :=
         total_reserve (balances i) + reserve_factor (risks i) * interest_accumulated div EXP_SCALE\<rparr>\<rparr>))
       (returnE []))))))"

definition on_reserves :: "string \<Rightarrow> abi_val list \<Rightarrow> ('a states_scheme, (string, int) dict) eff" where
  "on_reserves reserve args =
     bindE (liftR (arg_int args 2)) (\<lambda>new.
     thenE (mod_ctoken reserve (\<lambda>i. i\<lparr>balances := (balances i)\<lparr>total_reserve := new\<rparr>\<rparr>))
       (returnE []))"

definition on_reserve_factor :: "string \<Rightarrow> abi_val list \<Rightarrow> ('a states_scheme, (string, int) dict) eff" where
  "on_reserve_factor reserve args =
     bindE (liftR (arg_int args 1)) (\<lambda>new.
     thenE (mod_ctoken reserve (\<lambda>i. i\<lparr>risks := (risks i)\<lparr>reserve_factor := new\<rparr>\<rparr>))
       (returnE []))"

definition dispatch_event :: "string \<Rightarrow> log_receipt \<Rightarrow> string \<Rightarrow> abi_val list \<Rightarrow> ('a states_scheme, (string, int) dict) eff" where
  \<comment> \<open>the chain of tests on \<open>obj['name']\<close>: the names exclude each other\<close>
  "dispatch_event name lg reserve args =
     (if name = ''Transfer'' then on_transfer lg reserve args
      else if name = ''RepayBorrow'' then on_repay_borrow reserve args
      else if name = ''Borrow'' then on_borrow reserve args
      else if name = ''AccrueInterest'' then on_accrue 0 reserve args
      else if name = ''AccrueInterest_delegate'' then on_accrue 1 reserve args
      else if name = ''ReservesAdded'' \<or> name = ''ReservesReduced'' then on_reserves reserve args
      else if name = ''NewReserveFactor'' then on_reserve_factor reserve args
      else returnE [])"

definition plug_in_update :: "abi_decoder \<Rightarrow> log_receipt \<Rightarrow> ('a states_scheme, unit) eff" where
  "plug_in_update abi_decode lg =
     bindE (getE s_plug_in) (\<lambda>p. case p of
       None \<Rightarrow> returnE ()
     | Some st \<Rightarrow> bindE (liftR (vai_update abi_decode st lg)) (\<lambda>r.
         modE (\<lambda>s. s\<lparr>s_plug_in := Some (st\<lparr>es_storage := dupdate (es_storage st) r\<rparr>)\<rparr>)))"

definition States_update ::
    "abi_decoder \<Rightarrow> checksummer \<Rightarrow> log_receipt \<Rightarrow> ('a states_scheme, (string, int) dict) eff" where
  "States_update abi_decode checksum lg =
     thenE (plug_in_update abi_decode lg)
     (if lg_removed lg then returnE []
      else bindE (liftR (topic0 lg)) (\<lambda>topic.
        case dget EVENT_ABI topic of
          None \<Rightarrow> returnE []
        | Some obj \<Rightarrow>
            bindE (liftR (decode_data abi_decode obj lg (Raised ''user balances update failed''))) (\<lambda>args.
              dispatch_event (ev_name obj) lg (checksum (lg_address lg)) args)))"

section \<open>Well-formed stores\<close>

definition store_ok :: "'a states_scheme \<Rightarrow> bool" where
  "store_ok s \<longleftrightarrow> dict_ok (users_states s) \<and>
     (\<forall>(u, r) \<in> set (users_states s). r < length (s_users s)) \<and>
     (\<forall>o1 \<in> set (s_users s). dict_ok (reserves o1) \<and> (\<forall>(a, q) \<in> set (reserves o1). q < length (s_reserves s)))"

definition pos_ref :: "'a states_scheme \<Rightarrow> string \<Rightarrow> string \<Rightarrow> nat option" where
  "pos_ref s u a = (case dget (users_states s) u of None \<Rightarrow> None | Some r \<Rightarrow> dget (reserves (s_users s ! r)) a)"

definition unshared :: "'a states_scheme \<Rightarrow> bool" where
  "unshared s \<longleftrightarrow>
     (\<forall>(u, r) \<in> set (users_states s). \<forall>(u', r') \<in> set (users_states s).
        (r = r' \<longrightarrow> u = u') \<and>
        (\<forall>(a, q) \<in> set (reserves (s_users s ! r)). \<forall>(a', q') \<in> set (reserves (s_users s ! r')).
           q = q' \<longrightarrow> u = u' \<and> a = a'))"

lemma position_pos_ref: "position s u a = map_option (\<lambda>q. s_reserves s ! q) (pos_ref s u a)"
  by (simp add: position_def pos_ref_def split: option.splits)

lemma store_ok_iff: "store_ok s \<longleftrightarrow> dict_ok (users_states s) \<and>
     (\<forall>u r. dget (users_states s) u = Some r \<longrightarrow> r < length (s_users s)) \<and>
     (\<forall>i < length (s_users s). dict_ok (reserves (s_users s ! i)) \<and>
        (\<forall>a q. dget (reserves (s_users s ! i)) a = Some q \<longrightarrow> q < length (s_reserves s)))"
  by (auto simp: store_ok_def all_set_conv_all_nth [where xs = "s_users s"] dict_ok_ball cong: conj_cong)

lemma store_ok_user: "store_ok s \<Longrightarrow> dget (users_states s) u = Some r \<Longrightarrow>
    r < length (s_users s) \<and> dict_ok (reserves (s_users s ! r))"
  by (auto simp: store_ok_iff)

lemma store_ok_pos_ref: "store_ok s \<Longrightarrow> pos_ref s u a = Some q \<Longrightarrow> q < length (s_reserves s)"
  by (simp add: store_ok_iff pos_ref_def split: option.splits) blast

lemma unshared_iff:
  assumes "store_ok s"
  shows "unshared s \<longleftrightarrow>
    (\<forall>u u' r. dget (users_states s) u = Some r \<and> dget (users_states s) u' = Some r \<longrightarrow> u = u') \<and>
    (\<forall>u a u' a' q. pos_ref s u a = Some q \<and> pos_ref s u' a' = Some q \<longrightarrow> u = u' \<and> a = a')"
    (is "_ \<longleftrightarrow> ?U \<and> ?P")
proof -
  have d: "dict_ok (users_states s)" using assms by (simp add: store_ok_iff)
  have "unshared s \<longleftrightarrow>
     (\<forall>u r u' r'. dget (users_states s) u = Some r \<longrightarrow> dget (users_states s) u' = Some r' \<longrightarrow>
        (r = r' \<longrightarrow> u = u') \<and>
        (\<forall>a q a' q'. dget (reserves (s_users s ! r)) a = Some q \<longrightarrow> dget (reserves (s_users s ! r')) a' = Some q' \<longrightarrow>
           q = q' \<longrightarrow> u = u' \<and> a = a'))"
    unfolding unshared_def dict_ok_ball [OF d]
    using store_ok_user [OF assms] by (simp add: dict_ok_ball) 
  also have "\<dots> \<longleftrightarrow> ?U \<and> ?P"
    by (fastforce simp: pos_ref_def split: option.splits)
  finally show ?thesis .
qed

lemma unshared_user:
  "store_ok s \<Longrightarrow> unshared s \<Longrightarrow> dget (users_states s) u = Some r \<Longrightarrow> dget (users_states s) u' = Some r \<Longrightarrow> u = u'"
  by (auto simp: unshared_iff)

lemma unshared_pos:
  "store_ok s \<Longrightarrow> unshared s \<Longrightarrow> pos_ref s u a = Some q \<Longrightarrow> pos_ref s u' a' = Some q \<Longrightarrow> u = u' \<and> a = a'"
  unfolding unshared_iff by blast

definition tidy :: "'a states_scheme \<Rightarrow> bool" where
  "tidy s \<longleftrightarrow> store_ok s \<and> unshared s"

lemma store_ok_alloc_user: "store_ok s \<Longrightarrow> store_ok (alloc_user u s)"
  by (auto simp: store_ok_iff alloc_user_def nth_append less_Suc_eq split: if_splits)

lemma store_ok_alloc_reserve: "store_ok s \<Longrightarrow> r < length (s_users s) \<Longrightarrow> store_ok (alloc_reserve r a s)"
  by (auto simp: store_ok_iff alloc_reserve_def nth_list_update split: if_splits) (meson less_SucI)+

lemma pos_ref_alloc_user:
  assumes "store_ok s" "dget (users_states s) u = None"
  shows "pos_ref (alloc_user u s) v a = pos_ref s v a"
  using assms by (auto simp: pos_ref_def alloc_user_def store_ok_iff nth_append split: option.splits)

lemma pos_ref_alloc_reserve:
  assumes "store_ok s" "unshared s" "dget (users_states s) u = Some r" 
  shows "pos_ref (alloc_reserve r a s) v b =
    (if v = u \<and> b = a then Some (length (s_reserves s)) else pos_ref s v b)"
proof (cases "v = u")
  case True
  have "r < length (s_users s)" using store_ok_user assms by blast
  with True assms show ?thesis by (simp add: pos_ref_def alloc_reserve_def)
next
  case False
  then have "dget (users_states s) v \<noteq> Some r" using unshared_user assms by blast
  with False show ?thesis
    by (cases "dget (users_states s) v") (simp_all add: pos_ref_def alloc_reserve_def)
qed

lemma unshared_alloc_user:
  assumes "store_ok s" "unshared s" "dget (users_states s) u = None"
  shows "unshared (alloc_user u s)"
proof -
  have n: "dget (users_states s) v \<noteq> Some (length (s_users s))" for v
    using assms(1) by (auto simp: store_ok_iff)
  show ?thesis
    unfolding unshared_iff [OF store_ok_alloc_user [OF assms(1)]] pos_ref_alloc_user [OF assms(1,3)]
  proof (intro conjI)
    show "\<forall>v v' r. dget (users_states (alloc_user u s)) v = Some r \<and>
        dget (users_states (alloc_user u s)) v' = Some r \<longrightarrow> v = v'"
      using n unshared_user [OF assms(1,2)] by (simp add: alloc_user_def) metis
  qed (use unshared_pos [OF assms(1,2)] in blast)
qed

lemma unshared_alloc_reserve:
  assumes "store_ok s" "unshared s" "dget (users_states s) u = Some r" 
  shows "unshared (alloc_reserve r a s)"
proof -
  have "r < length (s_users s)" using store_ok_user assms by blast
  note w = store_ok_alloc_reserve [OF assms(1) this]
  have n: "pos_ref s v b \<noteq> Some (length (s_reserves s))" for v b
    using store_ok_pos_ref [OF assms(1)] by blast
  show ?thesis
    unfolding unshared_iff [OF w] pos_ref_alloc_reserve [OF assms]
  proof (intro conjI)
    show "\<forall>v v' r'. dget (users_states (alloc_reserve r a s)) v = Some r' \<and>
        dget (users_states (alloc_reserve r a s)) v' = Some r' \<longrightarrow> v = v'"
      using unshared_user [OF assms(1,2)] by (simp add: alloc_reserve_def)
  qed (use n unshared_pos [OF assms(1,2)] in \<open>simp split: if_splits; metis\<close>)
qed

section \<open>Every event keeps the store tidy\<close>

lemma tidy_cong:
  assumes "tidy s" "s_users s' = s_users s" "users_states s' = users_states s"
    "length (s_reserves s') = length (s_reserves s)"
  shows "tidy s'"
  using assms by (simp add: tidy_def store_ok_def unshared_def)

lemma tidy_update_simps [simp]:
  "tidy (s\<lparr>s_ctokens := d\<rparr>) = tidy s"
  "tidy (s\<lparr>s_plug_in := p\<rparr>) = tidy s"
  "tidy (s\<lparr>last_update := b\<rparr>) = tidy s"
  "tidy (s\<lparr>block_hash := h\<rparr>) = tidy s"
  "tidy (s\<lparr>s_reserves := (s_reserves s)[q := r]\<rparr>) = tidy s"
  by (auto simp: tidy_def store_ok_def unshared_def)

lemma position_update_simps [simp]:
  "position (s\<lparr>s_ctokens := d\<rparr>) = position s"
  "position (s\<lparr>s_plug_in := p\<rparr>) = position s"
  "position (s\<lparr>last_update := b\<rparr>) = position s"
  "position (s\<lparr>block_hash := h\<rparr>) = position s"
  by (auto simp: position_def fun_eq_iff split: option.splits)

lemma tidy_alloc_user: "tidy s \<Longrightarrow> dget (users_states s) u = None \<Longrightarrow> tidy (alloc_user u s)"
  by (simp add: tidy_def store_ok_alloc_user unshared_alloc_user)

lemma tidy_alloc_reserve: "tidy s \<Longrightarrow> dget (users_states s) u = Some r \<Longrightarrow> tidy (alloc_reserve r a s)"
  using store_ok_user [of s u r] by (simp add: tidy_def store_ok_alloc_reserve unshared_alloc_reserve)

lemma tidy_mod_reserve: "keeps tidy (mod_reserve u a f)"
  unfolding mod_reserve_def by (intro keeps_intros) simp

lemma tidy_mod_ctoken: "keeps tidy (mod_ctoken a f)"
  unfolding mod_ctoken_def by (intro keeps_intros) simp

text \<open>What \<open>check_user_and_reserve\<close> does, on positions.\<close>

definition touch :: "string \<Rightarrow> string \<Rightarrow> (string \<Rightarrow> string \<Rightarrow> comp_reserve option) \<Rightarrow>
    string \<Rightarrow> string \<Rightarrow> comp_reserve option" where
  "touch u a P = (\<lambda>v b. if v = u \<and> b = a \<and> P u a = None then Some new_reserve else P v b)"

definition upd_pos :: "string \<Rightarrow> string \<Rightarrow> (comp_reserve \<Rightarrow> comp_reserve) \<Rightarrow>
    (string \<Rightarrow> string \<Rightarrow> comp_reserve option) \<Rightarrow> string \<Rightarrow> string \<Rightarrow> comp_reserve option" where
  "upd_pos u a f P = (\<lambda>v b. if v = u \<and> b = a then map_option f (P u a) else P v b)"

lemma position_alloc_user:
  assumes "tidy s" "dget (users_states s) u = None"
  shows "position (alloc_user u s) = position s"
  using assms by (simp add: fun_eq_iff position_pos_ref pos_ref_alloc_user tidy_def) (simp add: alloc_user_def)

lemma position_alloc_reserve:
  assumes "tidy s" "dget (users_states s) u = Some r" "dget (reserves (s_users s ! r)) a = None"
  shows "position (alloc_reserve r a s) = touch u a (position s)"
proof -
  have n: "position s u a = None" using assms by (simp add: position_def)
  have l: "pos_ref s v b = Some q \<Longrightarrow> q < length (s_reserves s)" for v b q
    using store_ok_pos_ref assms(1) unfolding tidy_def by blast
  have e: "s_reserves (alloc_reserve r a s) = s_reserves s @ [new_reserve]"
    by (simp add: alloc_reserve_def)
  have "position (alloc_reserve r a s) v b = touch u a (position s) v b" for v b
    using assms n l [of v b]
    by (cases "pos_ref s v b")
      (simp_all add: position_pos_ref pos_ref_alloc_reserve tidy_def touch_def e nth_append)
  then show ?thesis by (simp add: fun_eq_iff)
qed

lemma check_run:
  assumes "tidy s"
  shows "\<exists>s'. check_user_and_reserve u a s = (Inr (if position s u a = None then 2 else 1), s') \<and> tidy s' \<and>
     position s' = touch u a (position s) \<and> s_ctokens s' = s_ctokens s \<and> s_plug_in s' = s_plug_in s \<and>
     last_update s' = last_update s \<and> states.more s' = states.more s \<and> block_hash s' = block_hash s \<and>
     set (dkeys (users_states s')) = insert u (set (dkeys (users_states s)))"
proof (cases "dget (users_states s) u")
  case None
  define s1 where "s1 = alloc_user u s"
  have s1: "tidy s1" "dget (users_states s1) u = Some (length (s_users s))"
    "dget (reserves (s_users s1 ! length (s_users s))) a = None" "position s1 = position s"
    using tidy_alloc_user [OF assms None] position_alloc_user [OF assms None]
    by (simp_all add: s1_def alloc_user_def)
  define s2 where "s2 = alloc_reserve (length (s_users s)) a s1"
  have "check_user_and_reserve u a s = (Inr 2, s2)"
    using None s1 by (simp add: check_user_and_reserve_def py_simps user_ref_def s1_def s2_def)
  moreover have "position s u a = None" using None by (simp add: position_def)
  moreover have "tidy s2" "position s2 = touch u a (position s)"
    using tidy_alloc_reserve [OF s1(1,2)] position_alloc_reserve [OF s1(1,2,3)] s1(4) by (simp_all add: s2_def)
  ultimately show ?thesis
    by (simp add: s2_def s1_def alloc_reserve_def alloc_user_def dom_update)
next
  case r: (Some r)
  then have u: "u \<in> set (dkeys (users_states s))" by (rule dget_in_keys)
  show ?thesis
  proof (cases "dget (reserves (s_users s ! r)) a")
    case None
    then have "check_user_and_reserve u a s = (Inr 2, alloc_reserve r a s)"
      using r by (simp add: check_user_and_reserve_def py_simps user_ref_def)
    moreover have "position s u a = None" using None r by (simp add: position_def)
    ultimately show ?thesis
      using tidy_alloc_reserve [OF assms r] position_alloc_reserve [OF assms r None] u
      by (simp add: alloc_reserve_def insert_absorb)
  next
    case (Some q)
    then have "check_user_and_reserve u a s = (Inr 1, s)"
      using r by (simp add: check_user_and_reserve_def py_simps user_ref_def)
    moreover have "position s u a \<noteq> None" using Some r by (simp add: position_def)
    moreover from this have "touch u a (position s) = position s" by (auto simp: touch_def fun_eq_iff)
    ultimately show ?thesis using assms u by (simp add: insert_absorb)
  qed
qed

lemma tidy_check: "keeps tidy (check_user_and_reserve u a)"
  using check_run by (metis keepsI snd_conv)

lemma mod_reserve_run:
  assumes "tidy s" "position s u a \<noteq> None"
  shows "\<exists>s'. mod_reserve u a f s = (Inr (), s') \<and> tidy s' \<and> position s' = upd_pos u a f (position s) \<and>
     s_ctokens s' = s_ctokens s \<and> s_plug_in s' = s_plug_in s \<and> users_states s' = users_states s \<and>
     last_update s' = last_update s \<and> block_hash s' = block_hash s \<and> states.more s' = states.more s"
proof -
  from assms(2) obtain q where q: "pos_ref s u a = Some q"
    by (cases "pos_ref s u a") (auto simp: position_pos_ref)
  then have r: "reserve_ref s u a = Inr q"
    by (auto simp: reserve_ref_def user_of_def user_ref_def pos_ref_def split: option.splits)
  define s' where "s' = s\<lparr>s_reserves := (s_reserves s)[q := f (s_reserves s ! q)]\<rparr>"
  have "position s' v b = upd_pos u a f (position s) v b" for v b
  proof -
    have p: "pos_ref s' v b = pos_ref s v b" by (simp add: pos_ref_def s'_def split: option.splits)
    have "q < length (s_reserves s)" using store_ok_pos_ref q assms(1) unfolding tidy_def by blast
    moreover have "pos_ref s v b = Some q \<Longrightarrow> v = u \<and> b = a"
      using unshared_pos q assms(1) unfolding tidy_def by blast
    ultimately show ?thesis
      using q p by (cases "pos_ref s v b") (auto simp: position_pos_ref upd_pos_def s'_def nth_list_update)
  qed
  moreover have "mod_reserve u a f s = (Inr (), s')"
    using r by (simp add: mod_reserve_def py_simps s'_def)
  ultimately show ?thesis using assms(1) by (intro exI [of _ s']) (simp add: fun_eq_iff s'_def)
qed

lemma tidy_set_debt: "keeps tidy (set_debt u a x y)"
  unfolding set_debt_def by (intro keeps_intros tidy_check tidy_mod_reserve tidy_mod_ctoken)

lemmas tidy_intros = keeps_intros tidy_check tidy_mod_reserve tidy_mod_ctoken tidy_set_debt

lemma tidy_dispatch: "keeps tidy (dispatch_event name lg reserve args)"
  unfolding dispatch_event_def on_transfer_def supply_shift_def on_repay_borrow_def on_borrow_def on_accrue_def
    on_reserves_def on_reserve_factor_def
  by (intro tidy_intros)

lemma tidy_plug_in: "keeps tidy (plug_in_update abi_decode lg)"
  unfolding plug_in_update_def by (auto split: option.splits intro!: tidy_intros)

lemma tidy_States_update: "keeps tidy (States_update abi_decode checksum lg)"
  unfolding States_update_def
  by (intro keeps_thenE tidy_plug_in) (auto split: option.splits intro!: tidy_intros tidy_dispatch)

section \<open>Functional behaviour of the events\<close>

lemma mod_ctoken_run:
  "dget (s_ctokens s) a = Some i \<Longrightarrow> mod_ctoken a f s = (Inr (), s\<lparr>s_ctokens := dput a (f i) (s_ctokens s)\<rparr>)"
  by (simp add: mod_ctoken_def py_simps dict_upd_def)

lemma whenE_mod_ctoken: "\<exists>r d. whenE b (mod_ctoken a g) s = (r, s\<lparr>s_ctokens := d\<rparr>)"
proof (cases "b \<and> a \<in> dom (dget (s_ctokens s))")
  case True
  then show ?thesis by (auto simp: py_simps mod_ctoken_run)
next
  case False
  have "s = s\<lparr>s_ctokens := s_ctokens s\<rparr>" by simp
  with False show ?thesis
    by (cases b; cases "dget (s_ctokens s) a")
      (auto simp: py_simps mod_ctoken_def dict_upd_def dom_def intro!: exI [of _ "s_ctokens s"])
qed

lemma supply_shift_run: "\<exists>r d. supply_shift reserve f t amount s = (r, s\<lparr>s_ctokens := d\<rparr>)"
proof -
  obtain r d where 1: "whenE (f = lower reserve) (mod_ctoken reserve (\<lambda>i. i\<lparr>balances :=
      (balances i)\<lparr>total_supply := total_supply (balances i) + amount\<rparr>\<rparr>)) s = (r, s\<lparr>s_ctokens := d\<rparr>)"
    using whenE_mod_ctoken by blast
  obtain r' d' where 2: "whenE (t = lower reserve) (mod_ctoken reserve (\<lambda>i. i\<lparr>balances :=
      (balances i)\<lparr>total_supply := total_supply (balances i) - amount\<rparr>\<rparr>)) (s\<lparr>s_ctokens := d\<rparr>) =
      (r', s\<lparr>s_ctokens := d\<rparr>\<lparr>s_ctokens := d'\<rparr>)"
    using whenE_mod_ctoken by blast
  show ?thesis
    using 1 2 by (cases r) (auto simp: supply_shift_def thenE_def bindE_def)
qed

lemma supply_shift_ok:
  assumes "dget (s_ctokens s) reserve = Some i"
  shows "\<exists>d. supply_shift reserve f t amount s = (Inr (), s\<lparr>s_ctokens := d\<rparr>) \<and>
    dget d = (dget (s_ctokens s))(reserve \<mapsto> i\<lparr>balances := (balances i)\<lparr>total_supply :=
       total_supply (balances i) + (if f = lower reserve then amount else 0) - (if t = lower reserve then amount else 0)\<rparr>\<rparr>)"
  using assms
  by (cases "f = lower reserve"; cases "t = lower reserve")
    (auto simp: supply_shift_def py_simps mod_ctoken_run fun_eq_iff intro: exI [of _ "s_ctokens s"])

text \<open>The \<open>Transfer\<close> branch on positions, when the supply update returns \<open>d\<close>.\<close>

definition spec_transfer :: "string \<Rightarrow> string \<Rightarrow> string \<Rightarrow> int \<Rightarrow>
    (string \<Rightarrow> string \<Rightarrow> comp_reserve option) \<Rightarrow> string \<Rightarrow> string \<Rightarrow> comp_reserve option" where
  "spec_transfer from_user to_user reserve amount P =
     upd_pos to_user reserve (\<lambda>r. r\<lparr>col_amount := col_amount r + amount\<rparr>)
       (upd_pos from_user reserve (\<lambda>r. r\<lparr>col_amount := col_amount r - amount\<rparr>)
         (touch to_user reserve (touch from_user reserve P)))"

lemma touch_present: "touch u a P u a \<noteq> None" "P v b \<noteq> None \<Longrightarrow> touch u a P v b \<noteq> None"
  by (auto simp: touch_def)

lemma on_transfer_split:
  assumes "tidy s"
    and "topic_addr lg 1 = Inr f" "topic_addr lg 2 = Inr t" "arg_int args 0 = Inr amount"
  obtains s2 c1 c2 where "tidy s2"
    and "position s2 = touch t reserve (touch f reserve (position s))"
    and "s_ctokens s2 = s_ctokens s"
    and "set (dkeys (users_states s2)) = insert t (insert f (set (dkeys (users_states s))))"
    and "case supply_shift reserve f t amount s2 of
        (Inl e, s3) \<Rightarrow> on_transfer lg reserve args s = (Inl e, s3)
      | (Inr _, s3) \<Rightarrow> \<exists>s4. on_transfer lg reserve args s = (Inr (dput t c2 [(f, c1)]), s4) \<and> tidy s4 \<and>
           position s4 = spec_transfer f t reserve amount (position s) \<and>
           s_ctokens s4 = s_ctokens s3 \<and> users_states s4 = users_states s2"
proof -
  obtain s1 where c1: "check_user_and_reserve f reserve s = (Inr (if position s f reserve = None then 2 else 1), s1)"
    and s1: "tidy s1" "position s1 = touch f reserve (position s)" "s_ctokens s1 = s_ctokens s"
      "set (dkeys (users_states s1)) = insert f (set (dkeys (users_states s)))"
    using check_run [OF assms(1)] by blast
  obtain s2 where c2: "check_user_and_reserve t reserve s1 = (Inr (if position s1 t reserve = None then 2 else 1), s2)"
    and s2: "tidy s2" "position s2 = touch t reserve (position s1)" "s_ctokens s2 = s_ctokens s1"
      "set (dkeys (users_states s2)) = insert t (set (dkeys (users_states s1)))"
    using check_run [OF s1(1)] by blast
  obtain r d where sh: "supply_shift reserve f t amount s2 = (r, s2\<lparr>s_ctokens := d\<rparr>)"
    using supply_shift_run by blast
  let ?s3 = "s2\<lparr>s_ctokens := d\<rparr>"
  have f3: "position ?s3 f reserve \<noteq> None" "position ?s3 t reserve \<noteq> None"
    using s2(2) s1(2) touch_present by simp_all
  obtain s5 where s5: "mod_reserve f reserve (\<lambda>r. r\<lparr>col_amount := col_amount r - amount\<rparr>) ?s3 = (Inr (), s5)"
    "tidy s5" "position s5 = upd_pos f reserve (\<lambda>r. r\<lparr>col_amount := col_amount r - amount\<rparr>) (position ?s3)"
    "s_ctokens s5 = d" "users_states s5 = users_states s2"
    using mod_reserve_run [OF _ f3(1), of "\<lambda>r. r\<lparr>col_amount := col_amount r - amount\<rparr>"] s2(1) by auto
  have "position s5 t reserve \<noteq> None" using f3 s5(3) by (auto simp: upd_pos_def)
  then obtain s4 where s4: "mod_reserve t reserve (\<lambda>r. r\<lparr>col_amount := col_amount r + amount\<rparr>) s5 = (Inr (), s4)"
    "tidy s4" "position s4 = upd_pos t reserve (\<lambda>r. r\<lparr>col_amount := col_amount r + amount\<rparr>) (position s5)"
    "s_ctokens s4 = d" "users_states s4 = users_states s2"
    using mod_reserve_run [OF s5(2), of t reserve "\<lambda>r. r\<lparr>col_amount := col_amount r + amount\<rparr>"] s5(4,5) by auto
  have run: "on_transfer lg reserve args s =
    bindE (supply_shift reserve f t amount) (\<lambda>_. thenE (mod_reserve f reserve (\<lambda>r. r\<lparr>col_amount := col_amount r - amount\<rparr>))
     (thenE (mod_reserve t reserve (\<lambda>r. r\<lparr>col_amount := col_amount r + amount\<rparr>))
     (returnE (dput t (if position s1 t reserve = None then 2 else 1)
        [(f, if position s f reserve = None then 2 else 1)])))) s2"
    using c1 c2 assms(2-4)
    by (simp add: on_transfer_def py_simps)
  show ?thesis
  proof (rule that)
    show "case supply_shift reserve f t amount s2 of
        (Inl e, s3) \<Rightarrow> on_transfer lg reserve args s = (Inl e, s3)
      | (Inr _, s3) \<Rightarrow> \<exists>s4. on_transfer lg reserve args s = (Inr (dput t (if position s1 t reserve = None then 2 else 1)
           [(f, if position s f reserve = None then 2 else 1)]), s4) \<and> tidy s4 \<and>
           position s4 = spec_transfer f t reserve amount (position s) \<and>
           s_ctokens s4 = s_ctokens s3 \<and> users_states s4 = users_states s2"
      using s1 s2 s4 s5 sh run by (cases r) (simp_all add: py_simps spec_transfer_def)
  qed (use s1 s2 in simp_all)
qed

lemma on_transfer_ok:
  assumes "tidy s" "dget (s_ctokens s) reserve = Some i"
    and "topic_addr lg 1 = Inr f" "topic_addr lg 2 = Inr t" "arg_int args 0 = Inr amount"
  shows "\<exists>s' c1 c2. on_transfer lg reserve args s = (Inr (dput t c2 [(f, c1)]), s') \<and> tidy s' \<and>
     position s' = spec_transfer f t reserve amount (position s) \<and>
     dget (s_ctokens s') = (dget (s_ctokens s))(reserve \<mapsto> i\<lparr>balances := (balances i)\<lparr>total_supply :=
       total_supply (balances i) + (if f = lower reserve then amount else 0) - (if t = lower reserve then amount else 0)\<rparr>\<rparr>)"
proof -
  obtain s2 c1 c2 where s2: "tidy s2" "position s2 = touch t reserve (touch f reserve (position s))"
      "s_ctokens s2 = s_ctokens s" "set (dkeys (users_states s2)) = insert t (insert f (set (dkeys (users_states s))))"
    and sp: "case supply_shift reserve f t amount s2 of
        (Inl e, s3) \<Rightarrow> on_transfer lg reserve args s = (Inl e, s3)
      | (Inr _, s3) \<Rightarrow> \<exists>s4. on_transfer lg reserve args s = (Inr (dput t c2 [(f, c1)]), s4) \<and> tidy s4 \<and>
           position s4 = spec_transfer f t reserve amount (position s) \<and>
           s_ctokens s4 = s_ctokens s3 \<and> users_states s4 = users_states s2"
    by (rule on_transfer_split [OF assms(1,3-5), of reserve])
  have i2: "dget (s_ctokens s2) reserve = Some i" using s2 assms(2) by simp
  show ?thesis
  proof -
    obtain d where d: "supply_shift reserve f t amount s2 = (Inr (), s2\<lparr>s_ctokens := d\<rparr>)"
      "dget d = (dget (s_ctokens s2))(reserve \<mapsto> i\<lparr>balances := (balances i)\<lparr>total_supply :=
       total_supply (balances i) + (if f = lower reserve then amount else 0) - (if t = lower reserve then amount else 0)\<rparr>\<rparr>)"
      using supply_shift_ok [OF i2, of f t amount] by blast
    obtain s4 where "on_transfer lg reserve args s = (Inr (dput t c2 [(f, c1)]), s4)" "tidy s4"
      "position s4 = spec_transfer f t reserve amount (position s)" "s_ctokens s4 = d"
      using sp unfolding d(1) by (simp only: prod.case sum.case) auto
    then show ?thesis using d(2) s2 by (intro exI [of _ s4] exI [of _ c1] exI [of _ c2]) simp
  qed
qed

lemma set_debt_ok:
  assumes "tidy s" "dget (s_ctokens s) reserve = Some i"
  shows "\<exists>s' c. set_debt u reserve amount tb s = (Inr [(u, c)], s') \<and> tidy s' \<and>
     position s' = upd_pos u reserve (\<lambda>r. r\<lparr>debt_amount := amount, debt_interest := borrow_index (risks i)\<rparr>)
       (touch u reserve (position s)) \<and>
     s_ctokens s' = dput reserve (i\<lparr>balances := (balances i)\<lparr>total_borrow := tb\<rparr>\<rparr>) (s_ctokens s)"
proof -
  let ?c = "if position s u reserve = None then 2 else 1"
  obtain s1 where s1: "check_user_and_reserve u reserve s = (Inr ?c, s1)" "tidy s1"
    "position s1 = touch u reserve (position s)" "s_ctokens s1 = s_ctokens s"
    using check_run [OF assms(1)] by blast
  have p1: "position s1 u reserve \<noteq> None" using touch_present s1(3) by simp
  obtain s2 where s2: "mod_reserve u reserve (\<lambda>r. r\<lparr>debt_amount := amount\<rparr>) s1 = (Inr (), s2)" "tidy s2"
    "position s2 = upd_pos u reserve (\<lambda>r. r\<lparr>debt_amount := amount\<rparr>) (position s1)" "s_ctokens s2 = s_ctokens s1"
    using mod_reserve_run [OF s1(2) p1, of "\<lambda>r. r\<lparr>debt_amount := amount\<rparr>"] by auto
  have p2: "position s2 u reserve \<noteq> None" using p1 s2(3) by (auto simp: upd_pos_def)
  let ?g = "\<lambda>r. r\<lparr>debt_interest := borrow_index (risks i)\<rparr>"
  obtain s3 where s3: "mod_reserve u reserve ?g s2 = (Inr (), s3)" "tidy s3"
    "position s3 = upd_pos u reserve ?g (position s2)" "s_ctokens s3 = s_ctokens s2"
    using mod_reserve_run [OF s2(2) p2, of ?g] by auto
  have rk: "ctk_risks (s_ctokens s2) reserve = Inr (risks i)"
    using assms(2) s1(4) s2(4) by (simp add: ctk_risks_def)
  have i3: "dget (s_ctokens s3) reserve = Some i" using assms(2) s1(4) s2(4) s3(4) by simp
  let ?s4 = "s3\<lparr>s_ctokens := dput reserve (i\<lparr>balances := (balances i)\<lparr>total_borrow := tb\<rparr>\<rparr>) (s_ctokens s3)\<rparr>"
  have "set_debt u reserve amount tb s = (Inr [(u, ?c)], ?s4)"
    using s1(1) s2(1) s3(1) rk mod_ctoken_run [OF i3] by (simp add: set_debt_def py_simps)
  moreover have "position s3 = upd_pos u reserve (\<lambda>r. r\<lparr>debt_amount := amount, debt_interest := borrow_index (risks i)\<rparr>)
       (touch u reserve (position s))"
    using s3(3) s2(3) s1(3) by (auto simp: upd_pos_def fun_eq_iff option.map_comp comp_def)
  ultimately show ?thesis
    using s3 s2(4) s1(4) by (intro exI [of _ ?s4] exI [of _ ?c]) simp
qed

lemma on_accrue_ok:
  assumes "dget (s_ctokens s) reserve = Some i"
    and "arg_int args dev = Inr acc" "arg_int args (1 + dev) = Inr ix" "arg_int args (2 + dev) = Inr tb"
  shows "on_accrue dev reserve args s = (Inr [], s\<lparr>s_ctokens := dput reserve
     (i\<lparr>risks := (risks i)\<lparr>borrow_index := ix\<rparr>,
        balances := (balances i)\<lparr>total_borrow := tb,
          total_reserve := total_reserve (balances i) + reserve_factor (risks i) * acc div EXP_SCALE\<rparr>\<rparr>) (s_ctokens s)\<rparr>)"
  using assms by (simp add: on_accrue_def py_simps mod_ctoken_run)

text \<open>The two ways a log reaches a branch.\<close>

lemma States_update_known:
  assumes "s_plug_in s = None \<or> dget VAI_EVENT_ABI topic = None \<and> s_plug_in s = Some (VaiState\<lparr>es_storage := st\<rparr>)"
    and "\<not> lg_removed lg" "topic0 lg = Inr topic" "dget EVENT_ABI topic = Some obj"
    and "decode_data abi_decode obj lg (Raised ''user balances update failed'') = Inr args"
  shows "States_update abi_decode checksum lg s = dispatch_event (ev_name obj) lg (checksum (lg_address lg)) args s"
proof -
  have "plug_in_update abi_decode lg s = (Inr (), s)"
    using assms(1-3)
    by (auto simp: plug_in_update_def py_simps vai_update_def event_state_update_def VaiState_def dupdate_def)
  then show ?thesis using assms(2-5) by (simp add: States_update_def py_simps)
qed

section \<open>Conservation\<close>

text \<open>The sum of all users' balances in a market.\<close>

definition col_of :: "(string \<Rightarrow> string \<Rightarrow> comp_reserve option) \<Rightarrow> string \<Rightarrow> string \<Rightarrow> int" where
  "col_of P u a = (case P u a of None \<Rightarrow> 0 | Some r \<Rightarrow> col_amount r)"

definition total_col :: "'a states_scheme \<Rightarrow> string \<Rightarrow> int" where
  "total_col s a = (\<Sum>u \<in> set (dkeys (users_states s)). col_of (position s) u a)"

lemma col_of_touch [simp]: "col_of (touch u a P) = col_of P"
  by (auto simp: col_of_def touch_def new_reserve_def fun_eq_iff split: option.splits)

lemma col_of_upd_pos:
  assumes "P u a \<noteq> None" and "\<And>r. col_amount (f r) = col_amount r + d"
  shows "col_of (upd_pos u a f P) v b = col_of P v b + (if v = u \<and> b = a then d else 0)"
  using assms by (auto simp: col_of_def upd_pos_def split: option.splits)

lemma col_of_spec_transfer:
  "col_of (spec_transfer f t reserve amount P) v b = col_of P v b
     + (if v = t \<and> b = reserve then amount else 0) - (if v = f \<and> b = reserve then amount else 0)"
proof -
  let ?P = "touch t reserve (touch f reserve P)"
  let ?Q = "upd_pos f reserve (\<lambda>r. r\<lparr>col_amount := col_amount r - amount\<rparr>) ?P"
  have p: "?P f reserve \<noteq> None" "?P t reserve \<noteq> None" using touch_present by simp_all
  then have "?Q t reserve \<noteq> None" by (auto simp: upd_pos_def)
  then have "col_of (spec_transfer f t reserve amount P) v b =
      col_of ?Q v b + (if v = t \<and> b = reserve then amount else 0)"
    unfolding spec_transfer_def by (rule col_of_upd_pos) simp
  also have "col_of ?Q v b = col_of ?P v b + (if v = f \<and> b = reserve then - amount else 0)"
    by (rule col_of_upd_pos [of ?P, OF p(1)]) simp
  finally show ?thesis by simp
qed

lemma col_of_absent: "u \<notin> set (dkeys (users_states s)) \<Longrightarrow> col_of (position s) u a = 0"
  by (auto simp: col_of_def position_def split: option.splits dest!: dget_in_keys)

lemma total_col_insert:
  "total_col s a = (\<Sum>u \<in> insert v (set (dkeys (users_states s))). col_of (position s) u a)"
  unfolding total_col_def
  by (cases "v \<in> set (dkeys (users_states s))") (simp_all add: insert_absorb col_of_absent)

definition ledger :: "(string \<Rightarrow> int) \<Rightarrow> 'a states_scheme \<Rightarrow> bool" where
  "ledger T s \<longleftrightarrow> tidy s \<and> (\<forall>a. total_col s a = T a)"

lemma ledger_check: "keeps (ledger T) (check_user_and_reserve u a)"
proof (rule keepsI)
  fix s :: "'a states_scheme" assume "ledger T s"
  then have s: "tidy s" "\<And>b. total_col s b = T b" by (auto simp: ledger_def)
  obtain c s' where r: "check_user_and_reserve u a s = (Inr c, s')" "tidy s'"
    "position s' = touch u a (position s)"
    "set (dkeys (users_states s')) = insert u (set (dkeys (users_states s)))"
    using check_run [OF s(1), of u a] by blast
  then have "total_col s' b = total_col s b" for b
    by (simp add: total_col_insert [of s b u]) (simp add: total_col_def)
  with r s show "ledger T (snd (check_user_and_reserve u a s))" by (simp add: ledger_def)
qed

lemma ledger_mod_ctoken: "keeps (ledger T) (mod_ctoken a f)"
  unfolding mod_ctoken_def by (intro keeps_intros) (simp add: ledger_def total_col_def)

lemma ledger_mod_reserve:
  assumes "\<And>r. col_amount (f r) = col_amount r"
  shows "keeps (ledger T) (mod_reserve u a f)"
proof (rule keepsI)
  fix s :: "'a states_scheme" assume l: "ledger T s"
  then have s: "tidy s" by (simp add: ledger_def)
  show "ledger T (snd (mod_reserve u a f s))"
  proof (cases "position s u a")
    case None
    then have "mod_reserve u a f s = (Inl KeyError, s)"
      by (auto simp: mod_reserve_def py_simps reserve_ref_def user_of_def user_ref_def position_def split: option.splits)
    with l show ?thesis by simp
  next
    case Some
    then obtain s' where "mod_reserve u a f s = (Inr (), s')" "tidy s'" "position s' = upd_pos u a f (position s)"
      "users_states s' = users_states s"
      using mod_reserve_run [OF s, of u a f] by auto
    moreover have "col_of (upd_pos u a f (position s)) = col_of (position s)"
      using col_of_upd_pos [of "position s" u a f 0] Some assms by (simp add: fun_eq_iff)
    ultimately show ?thesis using l by (simp add: ledger_def total_col_def)
  qed
qed

lemma sum_shift:
  fixes x :: int
  assumes "finite U" "f \<in> U" "t \<in> U"
  shows "(\<Sum>u\<in>U. g u + (if u = t \<and> c then x else 0) - (if u = f \<and> c then x else 0)) = (\<Sum>u\<in>U. g u)"
  using assms by (cases c) (simp_all add: sum.distrib sum_subtractf)

lemma ledger_on_transfer: "keeps (ledger T) (on_transfer lg reserve args)"
proof (rule keepsI)
  fix s :: "'a states_scheme" assume l: "ledger T s"
  show "ledger T (snd (on_transfer lg reserve args s))"
  proof (cases "\<exists>f t amount. topic_addr lg 1 = Inr f \<and> topic_addr lg 2 = Inr t \<and> arg_int args 0 = Inr amount")
    case False
    then have "snd (on_transfer lg reserve args s) = s"
      by (cases "topic_addr lg 1"; cases "topic_addr lg 2"; cases "arg_int args 0")
        (simp_all add: on_transfer_def py_simps)
    with l show ?thesis by simp
  next
    case True
    then obtain f t amount where a: "topic_addr lg 1 = Inr f" "topic_addr lg 2 = Inr t" "arg_int args 0 = Inr amount"
      by blast
    have s: "tidy s" using l by (simp add: ledger_def)
  obtain s2 c1 c2 where s2: "tidy s2" "position s2 = touch t reserve (touch f reserve (position s))"
      "s_ctokens s2 = s_ctokens s" "set (dkeys (users_states s2)) = insert t (insert f (set (dkeys (users_states s))))"
    and sp: "case supply_shift reserve f t amount s2 of
        (Inl e, s3) \<Rightarrow> on_transfer lg reserve args s = (Inl e, s3)
      | (Inr _, s3) \<Rightarrow> \<exists>s4. on_transfer lg reserve args s = (Inr (dput t c2 [(f, c1)]), s4) \<and> tidy s4 \<and>
           position s4 = spec_transfer f t reserve amount (position s) \<and>
           s_ctokens s4 = s_ctokens s3 \<and> users_states s4 = users_states s2"
      by (rule on_transfer_split [OF s a, of reserve])
    let ?U = "set (dkeys (users_states s2))"
    have tot: "(\<Sum>u \<in> ?U. col_of (position s) u b) = total_col s b" for b
    proof -
      have "(\<Sum>u \<in> ?U. col_of (position s) u b) = (\<Sum>u \<in> set (dkeys (users_states s)). col_of (position s) u b)"
        by (rule sum.mono_neutral_right) (use s2(4) col_of_absent in \<open>blast+\<close>)
      then show ?thesis by (simp add: total_col_def)
    qed
    obtain r d where sh: "supply_shift reserve f t amount s2 = (r, s2\<lparr>s_ctokens := d\<rparr>)"
      using supply_shift_run by blast
    show ?thesis
    proof (cases r)
      case (Inl e)
      then have "snd (on_transfer lg reserve args s) = s2\<lparr>s_ctokens := d\<rparr>" using sh sp by simp
      then show ?thesis using l s2 tot by (simp add: ledger_def total_col_def)
    next
      case (Inr x)
      then obtain s4 where s4: "on_transfer lg reserve args s = (Inr (dput t c2 [(f, c1)]), s4)" "tidy s4"
        "position s4 = spec_transfer f t reserve amount (position s)" "users_states s4 = users_states s2"
        using sh sp by auto
      have ft: "f \<in> ?U" "t \<in> ?U" using s2(4) by blast+
      have "total_col s4 b = total_col s b" for b
        using ft unfolding total_col_def [of s4] s4(3,4) tot [symmetric] col_of_spec_transfer
        by (intro sum_shift) simp_all
      with s4 l show ?thesis by (simp add: ledger_def)
    qed
  qed
qed

lemma ledger_dispatch: "keeps (ledger T) (dispatch_event name lg reserve args)"
proof -
  have "keeps (ledger T) (set_debt u a x y)" for u a x y
    unfolding set_debt_def by (intro keeps_intros ledger_check ledger_mod_reserve ledger_mod_ctoken) simp_all
  then show ?thesis
    unfolding dispatch_event_def on_repay_borrow_def on_borrow_def on_accrue_def on_reserves_def on_reserve_factor_def
    by (intro keeps_intros ledger_on_transfer ledger_mod_ctoken)
qed

lemma ledger_plug_in: "keeps (ledger T) (plug_in_update abi_decode lg)"
  unfolding plug_in_update_def
  by (auto split: option.splits intro!: keeps_intros) (simp add: ledger_def total_col_def)

lemma ledger_States_update: "keeps (ledger T) (States_update abi_decode checksum lg)"
  unfolding States_update_def
  by (intro keeps_thenE ledger_plug_in) (auto split: option.splits intro!: keeps_intros ledger_dispatch)

section \<open>From a log to the positions\<close>

definition log_of :: "string \<Rightarrow> abi_decoder \<Rightarrow> log_receipt \<Rightarrow> event_abi \<Rightarrow> abi_val list \<Rightarrow> bool" where
  \<comment> \<open>a log that is still on the chain, with a known topic and decodable data\<close>
  "log_of topic abi_decode lg obj args \<longleftrightarrow> \<not> lg_removed lg \<and> topic0 lg = Inr topic \<and> dget EVENT_ABI topic = Some obj \<and>
     decode_data abi_decode obj lg (Raised ''user balances update failed'') = Inr args"

lemma States_update_log:
  "log_of topic abi_decode lg obj args \<Longrightarrow> s_plug_in s = None \<Longrightarrow>
   States_update abi_decode checksum lg s = dispatch_event (ev_name obj) lg (checksum (lg_address lg)) args s"
  by (rule States_update_known [where topic = topic and obj = obj and args = args]) (simp_all add: log_of_def)

lemma upd_pos_other: "(v, b) \<noteq> (u, a) \<Longrightarrow> upd_pos u a f P v b = P v b"
  by (auto simp: upd_pos_def)

lemma touch_other: "(v, b) \<noteq> (u, a) \<Longrightarrow> touch u a P v b = P v b"
  by (auto simp: touch_def)

lemma upd_pos_None_iff: "upd_pos u a f P v b = None \<longleftrightarrow> P v b = None"
  by (auto simp: upd_pos_def)



end
