(* ===== verification/UsersView.thy ===== *)
theory UsersView
  imports Users
begin

text \<open>
  \<open>configs/users.py\<close>, second half: queries over the users, the JSON cache and its reload, the
  high-profit view with its write-back, the synchronisation with the chain, and the market
  membership. \<open>view\<close> is the value of a store without references; caching and trimming are stated
  on it.
\<close>

section \<open>Queries\<close>

definition states_filter_topics :: "string list" where
  "states_filter_topics = [
     ''0x1a2a22cb034d26d1854bdc6666a5b91fe25efbbb5dcad3b0355478d6f5c362a1'',
     ''0x13ed6866d4e1ee6da46f845c46d7e54120883d75c5ea9a2dacc1c4ca8984ab80'',
     ''0xddf252ad1be2c89b69c2b068fc378daa952ba7f163c4a11628f55a4df523b3ef'',
     ''0x875352fb3fadeb8c0be7cbbe8ff761b308fa7033470cd0287f02f3436fd76cb9'',
     ''0x4dec04e750ca11537cabcd8a9eab06494de08da3735bc8871cd41250e190bc04'',
     ''0xa91e67c5ea634cd43a12c5a482724b03de01e85ca68702a53d0c2f45cb7c1dc5'',
     ''0x3bad0c59cf2f06e7314077049f48a93578cd16f5ef92329f1dab1420a99c177e'',
     ''0x70483e6592cd5182d45ac970e05bc62cdcc90e9d8ef2c2dbe686cf383bcd7fc5'']"

definition gen_states_filter :: "string list \<Rightarrow> log_filter" where
  "gen_states_filter rs = \<lparr>f_address = rs, f_topics = [states_filter_topics]\<rparr>"

definition States_gen_states_filter :: "'a states_scheme \<Rightarrow> string list \<Rightarrow> log_filter" where
  "States_gen_states_filter s rs = (case s_plug_in s of
     None \<Rightarrow> gen_states_filter rs
   | Some p \<Rightarrow> \<lparr>f_address = rs @ es_addres p, f_topics = [states_filter_topics @ gen_topics p]\<rparr>)"

definition users_filtering :: "'a states_scheme \<Rightarrow> string list \<Rightarrow> string list" where
  "users_filtering s tokens_addr =
     map fst (filter (\<lambda>(usr, r). \<exists>a \<in> set tokens_addr. dget (reserves (s_users s ! r)) a \<noteq> None) (users_states s))"

text \<open>
  \<open>get_users_sampling\<close>: the block length is the ceiling of a float quotient; the left end wraps
  once it is past the end of the list.
\<close>

definition sample_bounds :: "nat \<Rightarrow> nat \<Rightarrow> int \<Rightarrow> (nat \<times> nat) res" where
  "sample_bounds index l intervals =
     bindR (int_truediv (int l) intervals) (\<lambda>q.
       let len = nat \<lceil>q\<rceil>;
           left0 = len * index;
           left1 = (if l < left0 then left0 mod l else left0);
           right = (if l < left1 + len then l else left1 + len)
       in Inr (left1, right))"

definition get_users_sampling :: "'a states_scheme \<Rightarrow> nat \<Rightarrow> int \<Rightarrow> string list res" where
  "get_users_sampling s index intervals =
     (let array = dkeys (users_states s)
      in bindR (sample_bounds index (length array) intervals) (\<lambda>(i, j). Inr (slice array i j)))"

section \<open>Values without references, and the cache\<close>

type_synonym user_view = "(string, comp_reserve) dict \<times> health_factor \<times> int"

definition reserves_view :: "'a states_scheme \<Rightarrow> nat \<Rightarrow> (string, comp_reserve) dict" where
  "reserves_view s r = map (\<lambda>(a, q). (a, s_reserves s ! q)) (reserves (s_users s ! r))"

definition view :: "'a states_scheme \<Rightarrow> (string, user_view) dict" where
  "view s = map (\<lambda>(u, r). (u, (reserves_view s r, user_hf (s_users s ! r), vai_repay (s_users s ! r)))) (users_states s)"

definition user_to_json :: "user_view \<Rightarrow> json" where
  "user_to_json v = (case v of (rs, hf, vai) \<Rightarrow> JObj [
     (''reserves'', JObj (map (\<lambda>(a, r). (a, comp_reserve_to_list r)) rs)),
     (''healthFactor'', hf_to_list hf),
     (''vaiRepay'', JInt vai)])"

definition to_json :: "'a states_scheme \<Rightarrow> json \<times> json \<times> json" where
  "to_json s = (JObj (map (\<lambda>(u, v). (u, user_to_json v)) (view s)),
     JObj (map (\<lambda>(c, i). (c, risks_to_dict (risks i))) (s_ctokens s)),
     JObj (map (\<lambda>(c, i). (c, balances_to_dict (balances i))) (s_ctokens s)))"

definition empty_position :: "comp_reserve \<Rightarrow> bool" where
  "empty_position r \<longleftrightarrow> col_amount r = 0 \<and> debt_amount r = 0"

definition trim_marks :: "'a states_scheme \<Rightarrow> (string \<times> string list) list" where
  "trim_marks s = map (\<lambda>(u, r). (u,
     map fst (filter (\<lambda>(a, q). empty_position (s_reserves s ! q)) (reserves (s_users s ! r))))) (users_states s)"

definition pop_reserve :: "string \<Rightarrow> string \<Rightarrow> ('a states_scheme, unit) eff" where
  "pop_reserve u a = bindE (getR (\<lambda>s. reserve_ref s u a)) (\<lambda>_.
     mod_user u (\<lambda>o1. o1\<lparr>reserves := ddel a (reserves o1)\<rparr>))"

text \<open>
  \<open>trim\<close>: its third loop deletes a user when \<open>not self.users_states[user]\<close>, but the object has
  neither \<open>__len__\<close> nor \<open>__bool__\<close>, so the test is never true.
\<close>

definition trim :: "('a states_scheme, unit) eff" where
  "trim = bindE (getE trim_marks) (\<lambda>marks. forE (\<lambda>(u, rs). forE (pop_reserve u) rs) marks)"

definition trim_ctokens :: "string list \<Rightarrow> 'a states_scheme \<Rightarrow> 'a states_scheme" where
  "trim_ctokens all_ctokens s = s\<lparr>users_states := fold ddel all_ctokens (users_states s)\<rparr>"

text \<open>The three files \<open>cache\<close> writes.\<close>

definition cache :: "('a states_scheme, json \<times> json \<times> json) eff" where
  "cache = thenE trim (getE (\<lambda>s. case to_json s of (users, risks_j, balances_j) \<Rightarrow>
     (JObj [(''users'', users), (''lastUpdate'', JInt (last_update s)), (''blockHash'', JStr (block_hash s))],
      JObj [(''reserves'', risks_j), (''lastUpdate'', JInt (last_update s))],
      JObj [(''reserves'', balances_j), (''lastUpdate'', JInt (last_update s))])))"

definition hf_load :: "json \<Rightarrow> health_factor res" where
  \<comment> \<open>\<open>new_health_factor(*health_factor)\<close>\<close>
  "hf_load j = (case j of
     JList [] \<Rightarrow> Inr new_health_factor
   | JList [a] \<Rightarrow> bindR (json_num a) (\<lambda>v. Inr (new_health_factor\<lparr>hf_value := v\<rparr>))
   | JList [a, b] \<Rightarrow> bindR (json_num a) (\<lambda>v. bindR (json_int b) (\<lambda>d.
       Inr (new_health_factor\<lparr>hf_value := v, hf_debt_volume := d\<rparr>)))
   | JList [a, b, c] \<Rightarrow> bindR (json_num a) (\<lambda>v. bindR (json_int b) (\<lambda>d. bindR (json_int c) (\<lambda>t.
       Inr \<lparr>hf_value = v, hf_debt_volume = d, hf_last_update = t\<rparr>)))
   | _ \<Rightarrow> Inl TypeError)"

definition user_load :: "json \<Rightarrow> user_view res" where
  "user_load j =
     bindR (json_key j ''healthFactor'') (\<lambda>h.
     bindR (json_key j ''vaiRepay'') (\<lambda>v. bindR (json_int v) (\<lambda>vai.
     bindR (json_key j ''reserves'') (\<lambda>r. bindR (reserves_load r) (\<lambda>rs.
     bindR (hf_load h) (\<lambda>hf.
       Inr (rs, hf, vai)))))))"

definition users_load :: "int \<Rightarrow> int \<Rightarrow> json \<Rightarrow> ((string, user_view) dict \<times> int \<times> string) res" where
  "users_load status init_block users_raw =
     (if status = 1 then
        bindR (json_key users_raw ''users'') (\<lambda>us.
        bindR (json_key users_raw ''lastUpdate'') (\<lambda>jl. bindR (json_int jl) (\<lambda>l.
        bindR (json_key users_raw ''blockHash'') (\<lambda>jh. bindR (json_str jh) (\<lambda>h.
        bindR (json_dict user_load us) (\<lambda>d. Inr (d, l, h)))))))
      else Inr ([], init_block, ''''))"

text \<open>The objects of a freshly loaded state: one per user and one per position.\<close>

definition alloc_view :: "string \<times> user_view \<Rightarrow> states \<Rightarrow> states" where
  "alloc_view v s = (case v of (u, rs, hf, vai) \<Rightarrow>
     let n = length (s_reserves s) in
     s\<lparr>s_reserves := s_reserves s @ map snd rs,
       s_users := s_users s @ [\<lparr>reserves = zip (map fst rs) [n..<n + length rs], user_hf = hf, vai_repay = vai\<rparr>],
       users_states := dput u (length (s_users s)) (users_states s)\<rparr>)"

definition alloc_states :: "(string, user_view) dict \<Rightarrow> ctokens \<Rightarrow> int \<Rightarrow> string \<Rightarrow> states" where
  "alloc_states d ctk l h = fold alloc_view d
     \<lparr>s_users = [], s_reserves = [], s_ctokens = ctk, s_plug_in = None, users_states = [],
      last_update = l, block_hash = h\<rparr>"

definition reload_states ::
    "int \<Rightarrow> int \<Rightarrow> json \<Rightarrow> json \<Rightarrow> json \<Rightarrow> string list \<Rightarrow> states res" where
  "reload_states status init_block u_file risks_file balances_file rs =
     bindR (users_load status init_block u_file) (\<lambda>(d, last_update_u, h).
     bindR (tokens_load status init_block balances_file risks_file rs) (\<lambda>(ctk, last_update_t).
       if last_update_u \<noteq> last_update_t then Inl (Raised '''')
       else Inr (alloc_states d ctk last_update_u h)))"

section \<open>Debt volume and the high-profit view\<close>

definition debt_step :: "ctokens \<Rightarrow> string \<times> comp_reserve \<Rightarrow> int \<Rightarrow> int res" where
  "debt_step ctk p acc = (case p of (a, r) \<Rightarrow>
     bindR (ctk_price_current ctk a) (\<lambda>pr.
       if 0 < debt_amount r then
         bindR (ctk_risks ctk a) (\<lambda>rk.
         bindR (py_div (debt_amount r * borrow_index rk) (debt_interest r)) (\<lambda>d.
           Inr (acc + d * pr div EXP_SCALE)))
       else Inr acc))"

definition update_debt :: "string \<Rightarrow> ('a states_scheme, unit) eff" where
  "update_debt usr =
     bindE (getR (\<lambda>s. user_ref s usr)) (\<lambda>r.
     bindE (getR (\<lambda>s. foldR (debt_step (s_ctokens s)) (reserves_view s r) 0)) (\<lambda>v.
       mod_user usr (\<lambda>o1. o1\<lparr>user_hf := (user_hf o1)\<lparr>hf_debt_volume := v\<rparr>\<rparr>)))"

definition filter_states :: "'a states_scheme \<Rightarrow> int \<Rightarrow> (string, nat) dict" where
  "filter_states s profit_thres =
     filter (\<lambda>(u, r). profit_thres < hf_debt_volume (user_hf (s_users s ! r))) (users_states s)"

record high_states = states +
  parent_users :: "(string, nat) dict"
  debt_desired :: int
  update_users :: "(string, int) dict"

definition HighProfitSates :: "states \<Rightarrow> int \<Rightarrow> high_states" where
  "HighProfitSates full_states profit_thres =
     states.extend (full_states\<lparr>users_states := filter_states full_states (profit_thres * 20)\<rparr>)
       (high_states.fields (users_states full_states) (profit_thres * 20) [])"

text \<open>Merging the full state's positions of a newly recorded user; objects are shared, not copied.\<close>

definition merge_reserve :: "string \<Rightarrow> string \<times> nat \<Rightarrow> (high_states, unit) eff" where
  "merge_reserve usr kv = (case kv of (key, vref) \<Rightarrow>
     bindE (getR (\<lambda>s. user_of s usr)) (\<lambda>o1.
     if dget (reserves o1) key \<noteq> None then
       bindE (getE (\<lambda>s. s_reserves s ! vref)) (\<lambda>v1.
       thenE (mod_reserve usr key (\<lambda>r. r\<lparr>col_amount := col_amount r + col_amount v1\<rparr>))
       (bindE (getE (\<lambda>s. s_reserves s ! vref)) (\<lambda>v2.
       thenE (mod_reserve usr key (\<lambda>r. r\<lparr>debt_amount := debt_amount r + debt_amount v2\<rparr>))
       (bindE (getE (\<lambda>s. s_reserves s ! vref)) (\<lambda>v3.
        mod_reserve usr key (\<lambda>r. if debt_interest r = 0 then r\<lparr>debt_interest := debt_interest v3\<rparr> else r))))))
     else mod_user usr (\<lambda>o1. o1\<lparr>reserves := dput key vref (reserves o1)\<rparr>)))"

definition merge_user :: "string \<times> int \<Rightarrow> (high_states, unit) eff" where
  "merge_user ut = (case ut of (usr, type) \<Rightarrow>
     whenE (type = 2)
       (bindE (getE (\<lambda>s. dget (parent_users s) usr)) (\<lambda>old. case old of
          None \<Rightarrow> returnE ()
        | Some r \<Rightarrow> bindE (getE (\<lambda>s. reserves (s_users s ! r))) (\<lambda>rs. forE (merge_reserve usr) rs))))"

definition HighProfit_update ::
    "abi_decoder \<Rightarrow> checksummer \<Rightarrow> log_receipt \<Rightarrow> (high_states, (string, int) dict) eff" where
  "HighProfit_update abi_decode checksum lg =
     bindE (States_update abi_decode checksum lg) (\<lambda>new_updated_users.
     thenE (forE merge_user new_updated_users)
     (thenE (modE (\<lambda>s. s\<lparr>update_users := dupdate (update_users s) new_updated_users\<rparr>))
       (returnE new_updated_users)))"

definition write_back_user :: "string \<Rightarrow> (high_states, unit) eff" where
  "write_back_user usr = bindE (getR (\<lambda>s. user_ref s usr)) (\<lambda>r.
     modE (\<lambda>s. s\<lparr>parent_users := dput usr r (parent_users s)\<rparr>))"

definition write_back_changed_states :: "(high_states, unit) eff" where
  "write_back_changed_states = bindE (getE (\<lambda>s. dkeys (update_users s))) (\<lambda>us. forE write_back_user us)"

definition eliminate_lowprof_states :: "string \<Rightarrow> (high_states, nat option) eff" where
  "eliminate_lowprof_states usr =
     bindE (getR (\<lambda>s. user_ref s usr)) (\<lambda>r.
     bindE (getE (\<lambda>s. hf_debt_volume (user_hf (s_users s ! r)) < debt_desired s)) (\<lambda>low.
     if low then thenE (modE (\<lambda>s. s\<lparr>users_states := ddel usr (users_states s)\<rparr>)) (returnE (Some r))
     else returnE None))"

definition write_back_lowprof_states :: "string \<Rightarrow> (high_states, unit) eff" where
  "write_back_lowprof_states usr =
     bindE (eliminate_lowprof_states usr) (\<lambda>st. case st of
       None \<Rightarrow> returnE ()
     | Some r \<Rightarrow> modE (\<lambda>s. s\<lparr>parent_users := dput usr r (parent_users s)\<rparr>))"

text \<open>\<open>FIFOStates.push\<close> appends to its bounded queue, then reads the missing attribute \<open>array\<close>.\<close>

record 'e fifo_states =
  max_length :: nat
  fifo_cache :: "'e list"

definition FIFOStates_push :: "'e \<Rightarrow> ('e fifo_states, unit) eff" where
  "FIFOStates_push e = thenE
     (modE (\<lambda>s. let c = fifo_cache s @ [e] in s\<lparr>fifo_cache := drop (length c - max_length s) c\<rparr>))
     (raiseE AttributeError)"

section \<open>Market membership and synchronisation\<close>

text \<open>\<open>get_assets_in\<close> stands for the node's answer to \<open>getAssetsIn\<close>.\<close>

definition set_col_liq :: "string \<Rightarrow> int \<Rightarrow> string \<Rightarrow> ('a states_scheme, unit) eff" where
  "set_col_liq usr b reserve = mod_reserve usr reserve (\<lambda>r. r\<lparr>is_col_liq := b\<rparr>)"

definition reload_and_extend_states :: "(string \<Rightarrow> string list res) \<Rightarrow> string \<Rightarrow> ('a states_scheme, unit) eff" where
  "reload_and_extend_states get_assets_in usr =
     bindE (liftR (get_assets_in usr)) (\<lambda>reserves_as_market.
     bindE (getR (\<lambda>s. user_of s usr)) (\<lambda>o1.
     thenE (forE (\<lambda>reserve. bindE (getR (\<lambda>s. user_of s usr)) (\<lambda>o2.
              whenE (dget (reserves o2) reserve \<noteq> None) (set_col_liq usr 1 reserve))) reserves_as_market)
     (forE (set_col_liq usr 0) (filter (\<lambda>a. a \<notin> set reserves_as_market) (dkeys (reserves o1))))))"

definition user_state_extend_hook ::
    "(string \<Rightarrow> string list res) \<Rightarrow> (string, int) dict \<Rightarrow> int \<Rightarrow> ('a states_scheme, int) eff" where
  "user_state_extend_hook get_assets_in res cnt =
     thenE (forE (reload_and_extend_states get_assets_in) (dkeys res)) (returnE cnt)"

text \<open>\<open>query_events_loop_liq\<close> is the loop of \<open>configs/utils.py\<close> with the node passed to the hook.\<close>

definition query_events_loop_liq ::
    "('l \<Rightarrow> ('a states_scheme, (string, int) dict) eff) \<Rightarrow> ((string, int) dict \<Rightarrow> int \<Rightarrow> ('a states_scheme, int) eff) \<Rightarrow>
     (int \<Rightarrow> int \<Rightarrow> 'l list res) \<Rightarrow> int \<Rightarrow> 'a states_scheme \<Rightarrow> (unit res \<times> 'a states_scheme) option" where
  "query_events_loop_liq update hook get_logs target_block s =
     query_events_loop last_update (\<lambda>b s. s\<lparr>last_update := b\<rparr>) update hook get_logs target_block 0 s"

definition sync_states ::
    "abi_decoder \<Rightarrow> checksummer \<Rightarrow> (string \<Rightarrow> string list res) \<Rightarrow> (log_filter \<Rightarrow> int \<Rightarrow> int \<Rightarrow> log_receipt list res) \<Rightarrow>
     int \<Rightarrow> string list \<Rightarrow> int \<Rightarrow> states \<Rightarrow> (unit res \<times> states) option" where
  "sync_states abi_decode checksum get_assets_in get_logs head rs delay s =
     query_events_loop_liq (States_update abi_decode checksum) (user_state_extend_hook get_assets_in)
       (get_logs (States_gen_states_filter s rs)) (head - delay) s"

definition query_reserves ::
    "(string \<Rightarrow> string list res) \<Rightarrow> (string \<Rightarrow> int list res) \<Rightarrow> string \<Rightarrow> (string, comp_reserve) dict res" where
  "query_reserves get_assets_in snapshot usr =
     bindR (get_assets_in usr) (\<lambda>markets. Inr (fold (\<lambda>a d.
       case bindR (snapshot a) (\<lambda>res. bindR (py_index res 0) (\<lambda>err. bindR (py_index res 1) (\<lambda>col.
              bindR (py_index res 2) (\<lambda>debt. Inr (err, col, debt))))) of
         Inl _ \<Rightarrow> d
       | Inr (err, col, debt) \<Rightarrow>
           if err = 0 \<and> col \<noteq> 0 \<or> debt \<noteq> 0
           then dput a \<lparr>col_amount = col, is_col_liq = 1, debt_amount = debt, debt_interest = 1\<rparr> d else d)
       markets []))"

definition backtesting_users ::
    "(string \<Rightarrow> string list res) \<Rightarrow> (string \<Rightarrow> int list res) \<Rightarrow> int res \<Rightarrow> string \<Rightarrow> (string, user_view) dict res" where
  "backtesting_users get_assets_in snapshot vai user =
     bindR (query_reserves get_assets_in snapshot user) (\<lambda>rs.
       Inr [(user, (rs, new_health_factor, case vai of Inl _ \<Rightarrow> 0 | Inr v \<Rightarrow> v))])"

definition backtesting_states ::
    "(string \<Rightarrow> string list res) \<Rightarrow> (string \<Rightarrow> int list res) \<Rightarrow> int res \<Rightarrow> ctokens res \<Rightarrow> string \<Rightarrow> int \<Rightarrow> states res" where
  "backtesting_states get_assets_in snapshot vai ctk user block_num =
     bindR (backtesting_users get_assets_in snapshot vai user) (\<lambda>d.
     bindR ctk (\<lambda>c. Inr (alloc_states d c block_num '''')))"

section \<open>Synchronisation keeps the ledger and returns\<close>

lemma frames_mod_reserve: "keeps (\<lambda>s. last_update s = b) (mod_reserve u a f)"
  unfolding mod_reserve_def by (intro keeps_intros) simp

lemma ledger_extend: "keeps (ledger T) (reload_and_extend_states get_assets_in usr)"
  unfolding reload_and_extend_states_def set_col_liq_def
  by (intro keeps_intros ledger_mod_reserve) simp_all

lemma frames_extend: "keeps (\<lambda>s. last_update s = b) (reload_and_extend_states get_assets_in usr)"
  unfolding reload_and_extend_states_def set_col_liq_def
  by (intro keeps_intros frames_mod_reserve)

lemma ledger_last_update: "ledger T s \<Longrightarrow> ledger T (s\<lparr>last_update := b\<rparr>)"
  by (simp add: ledger_def total_col_def)

interpretation states_loop: event_consumer last_update "\<lambda>b s. s\<lparr>last_update := b\<rparr>"
    "States_update abi_decode checksum" "user_state_extend_hook get_assets_in" "ledger T"
  for abi_decode checksum get_assets_in T
proof unfold_locales
  show "frames last_update (user_state_extend_hook get_assets_in res c)" for res c
    unfolding frames_keeps user_state_extend_hook_def by (intro allI keeps_intros frames_extend)
  show "keeps (ledger T) (user_state_extend_hook get_assets_in res c)" for res c
    unfolding user_state_extend_hook_def by (intro keeps_intros ledger_extend)
qed (simp_all add: ledger_last_update ledger_States_update)

section \<open>Sampling\<close>

lemma rnd_ge: "0 < x \<Longrightarrow> x * (1 - 1 / 2 ^ 53) \<le> rnd x"
proof -
  assume x: "0 < x"
  define e where "e = fl_exp x"
  define u where "u = (2::rat) powi (e - 52)"
  have u: "0 < u" by (simp add: u_def)
  have r: "rnd x = of_int (rne (x / u)) * u" using x by (simp add: rnd_def e_def u_def Let_def)
  have "x / u \<le> of_int (rne (x / u)) + 1 / 2" using rne_bounds by blast
  then have "x \<le> (of_int (rne (x / u)) + 1 / 2) * u" using u by (simp add: field_simps)
  then have 1: "x - u / 2 \<le> rnd x" using r by (simp add: algebra_simps)
  have "2 powi e \<le> x" using fl_exp_bounds [of x] x by (simp add: e_def)
  moreover have "(2::rat) powi e = u * 2 ^ 52"
    by (simp add: u_def power_int_diff)
  ultimately have "u / 2 \<le> x / 2 ^ 53" by simp
  with 1 show ?thesis by (simp add: algebra_simps)
qed

text \<open>For lists shorter than \<open>2 ^ 53\<close> the float ceiling is the exact one.\<close>

lemma float_ceiling:
  assumes "0 < k" "l < 2 ^ 53"
  shows "\<lceil>rnd (of_nat l / of_int k)\<rceil> = \<lceil>of_nat l / (of_int k :: rat)\<rceil>"
proof (cases "l = 0")
  case False
  define x :: rat where "x = of_nat l / of_int k"
  define m where "m = \<lceil>x\<rceil> - 1"
  have x: "0 < x" using assms False by (simp add: x_def)
  have m: "of_int m < x" "x \<le> of_int (m + 1)"
    unfolding m_def by linarith+
  have m0: "0 \<le> m" using x by (simp add: m_def)
  have kx: "x * of_int k = of_nat l" using assms by (simp add: x_def)
  have "of_int m * of_int k < (of_nat l :: rat)" using m(1) kx assms by (metis mult_strict_right_mono of_int_0_less_iff)
  then have "m * k < int l" by (metis of_int_less_iff of_int_mult of_int_of_nat_eq)
  then have "m * k + 1 \<le> int l" by simp
  then have "(of_int m * of_int k + 1 :: rat) \<le> of_nat l"
    by (metis of_int_1 of_int_add of_int_le_iff of_int_mult of_int_of_nat_eq)
  moreover have "(of_nat l :: rat) / 2 ^ 53 < 1" using assms(2) by (simp add: field_simps)
  ultimately have "of_int m * of_int k < (of_nat l :: rat) * (1 - 1 / 2 ^ 53)"
    by (simp add: algebra_simps)
  then have "of_int m * of_int k < x * (1 - 1 / 2 ^ 53) * of_int k"
    using kx by (simp add: algebra_simps)
  then have "of_int m < x * (1 - 1 / 2 ^ 53)" using assms(1) by (simp add: mult_less_cancel_right)
  then have lo: "of_int m < rnd x" using rnd_ge [OF x] by linarith
  have xl: "x \<le> of_nat l"
  proof -
    have "(1::rat) \<le> of_int k" using assms(1) by simp
    then have "(of_nat l :: rat) * 1 \<le> of_nat l * of_int k" by (rule mult_left_mono) simp
    then show ?thesis using assms(1) by (simp add: x_def divide_le_eq)
  qed
  have "of_int m < (of_int (int l) :: rat)" using m(1) xl by simp
  then have "m + 1 \<le> int l" by (simp only: of_int_less_iff)
  moreover have "int l < int (2 ^ 53)" using assms(2) by (simp only: of_nat_less_iff)
  ultimately have "\<bar>m + 1\<bar> \<le> 2 ^ 53" using m0 by simp
  then have "rnd (of_int (m + 1)) = of_int (m + 1)" by (rule rnd_of_int)
  then have hi: "rnd x \<le> of_int (m + 1)" using rnd_mono [OF m(2)] by simp
  from lo hi have "\<lceil>rnd x\<rceil> = m + 1" by (simp add: ceiling_eq_iff)
  then show ?thesis by (simp add: x_def m_def)
qed simp

lemma sample_bounds_ok:
  assumes "0 < k" "l < 2 ^ 53"
  shows "\<exists>len. int l \<le> int len * k \<and> (int len - 1) * k < int l \<and>
    (\<forall>i. sample_bounds i l k = Inr (let a = (if l < len * i then (len * i) mod l else len * i)
      in (a, min l (a + len))))"
proof -
  let ?x = "of_nat l / (of_int k :: rat)"
  define len where "len = nat \<lceil>?x\<rceil>"
  have x0: "0 \<le> ?x" using assms by simp
  have li: "int len = \<lceil>?x\<rceil>" using x0 by (simp add: len_def)
  have "?x \<le> of_int (int len)" "of_int (int len - 1) < ?x"
    unfolding li by (simp, linarith)
  then have "of_nat l \<le> of_int (int len) * (of_int k :: rat)" "of_int (int len - 1) * of_int k < (of_nat l :: rat)"
    using assms(1) by (simp_all add: field_simps)
  then have "int l \<le> int len * k" "(int len - 1) * k < int l"
    by (metis of_int_le_iff of_int_mult of_int_of_nat_eq) (metis of_int_less_iff of_int_mult of_int_of_nat_eq \<open>of_int (int len - 1) * of_int k < (of_nat l :: rat)\<close>)
  moreover have "sample_bounds i l k = Inr (let a = (if l < len * i then (len * i) mod l else len * i)
      in (a, min l (a + len)))" for i
    using assms float_ceiling [OF assms] by (auto simp: sample_bounds_def int_truediv_def len_def Let_def min_def)
  ultimately show ?thesis by blast
qed

lemma sampling_slice:
  assumes "0 < k" "length (users_states s) < 2 ^ 53"
  shows "\<exists>len. int (length (users_states s)) \<le> int len * k \<and>
     (int len - 1) * k < int (length (users_states s)) \<and>
     (\<forall>i. get_users_sampling s i k = Inr (let l = length (users_states s);
        a = (if l < len * i then (len * i) mod l else len * i) in slice (dkeys (users_states s)) a (min l (a + len))))"
  using sample_bounds_ok [OF assms] by (auto simp: get_users_sampling_def Let_def)

text \<open>With \<open>k\<close> samples, every user is in the sample of some index below \<open>k\<close>, whatever the number
  of users: the rounding of the float quotient loses nobody.\<close>

lemma sampling_covers:
  assumes "0 < k" "length (users_states s) < 2 ^ 53" "u \<in> set (dkeys (users_states s))"
  shows "\<exists>i < nat k. \<exists>xs. get_users_sampling s i k = Inr xs \<and> u \<in> set xs"
proof -
  let ?l = "length (users_states s)"
  obtain len where len: "int ?l \<le> int len * k"
    and run: "\<And>i. get_users_sampling s i k = Inr (let l = ?l;
        a = (if l < len * i then (len * i) mod l else len * i) in slice (dkeys (users_states s)) a (min l (a + len)))"
    using sampling_slice [OF assms(1,2)] by blast
  obtain p where p: "p < ?l" "dkeys (users_states s) ! p = u"
    using assms(3) by (metis in_set_conv_nth length_map)
  have "len \<noteq> 0" using len p(1) by (cases len) auto
  define i where "i = p div len"
  have b: "len * i \<le> p" "p < len * i + len"
    using \<open>len \<noteq> 0\<close> dividend_less_times_div [of len p] by (simp_all add: i_def)
  have "int (len * i) < int len * k" using b(1) p(1) len by linarith
  then have "i < nat k" using \<open>len \<noteq> 0\<close> by (simp add: zless_nat_eq_int_zless)
  moreover have "get_users_sampling s i k = Inr (slice (dkeys (users_states s)) (len * i) (min ?l (len * i + len)))"
    using run [of i] b(1) p(1) by (simp add: Let_def)
  moreover have "u \<in> set (slice (dkeys (users_states s)) (len * i) (min ?l (len * i + len)))"
  proof -
    have "p - len * i < length (slice (dkeys (users_states s)) (len * i) (min ?l (len * i + len)))"
      using b p(1) by (auto simp: length_slice)
    moreover have "slice (dkeys (users_states s)) (len * i) (min ?l (len * i + len)) ! (p - len * i) = u"
      using b p by (simp add: slice_def)
    ultimately show ?thesis by (metis nth_mem)
  qed
  ultimately show ?thesis by blast
qed

section \<open>Trimming\<close>

lemma position_view: "position s u a = (case dget (view s) u of None \<Rightarrow> None | Some (rs, _) \<Rightarrow> dget rs a)"
proof -
  have m: "dget (map (\<lambda>(k, v). (k, f v)) d) k = map_option f (dget d k)" for d :: "(string, 'b) dict" and f :: "'b \<Rightarrow> 'c" and k
    by (induction d) auto
  show ?thesis
    by (simp add: position_def view_def reserves_view_def m split: option.splits)
qed

lemma dkeys_view [simp]: "dkeys (view s) = dkeys (users_states s)"
  by (auto simp: view_def)

lemma pop_reserve_run:
  assumes "tidy s" "position s u a \<noteq> None"
  shows "\<exists>s'. pop_reserve u a s = (Inr (), s') \<and> tidy s' \<and>
    (\<forall>v b. position s' v b = (if v = u \<and> b = a then None else position s v b)) \<and>
    view s' = map (\<lambda>(v, (rs, x)). (v, (filter (\<lambda>(b, _). (v, b) \<noteq> (u, a)) rs, x))) (view s) \<and>
    states.more s' = states.more s \<and> s_ctokens s' = s_ctokens s \<and> users_states s' = users_states s \<and>
    last_update s' = last_update s \<and> block_hash s' = block_hash s"
proof -
  obtain r where r: "dget (users_states s) u = Some r" and a: "dget (reserves (s_users s ! r)) a \<noteq> None"
    using assms(2) by (auto simp: position_def split: option.splits)
  have so: "store_ok s" "unshared s" using assms(1) by (simp_all add: tidy_def)
  have rl: "r < length (s_users s)" using store_ok_user [OF so(1) r] by simp
  define s' where "s' = s\<lparr>s_users := (s_users s)[r := (s_users s ! r)\<lparr>reserves := ddel a (reserves (s_users s ! r))\<rparr>]\<rparr>"
  have run: "pop_reserve u a s = (Inr (), s')"
    using r a by (auto simp: pop_reserve_def mod_user_def py_simps reserve_ref_def user_of_def user_ref_def s'_def)
  have ok: "store_ok s'"
    using so(1) rl by (auto simp: store_ok_iff s'_def nth_list_update delete_conv split: if_splits)
  have pr: "pos_ref s' v b = (if v = u \<and> b = a then None else pos_ref s v b)" for v b
  proof (cases "v = u")
    case True
    then show ?thesis using r rl by (simp add: pos_ref_def s'_def)
  next
    case False
    then have "dget (users_states s) v \<noteq> Some r" using unshared_user [OF so] r by blast
    with False show ?thesis by (cases "dget (users_states s) v") (simp_all add: pos_ref_def s'_def)
  qed
  have us: "users_states s' = users_states s" by (simp add: s'_def)
  have "unshared s'"
    unfolding unshared_iff [OF ok] us pr
    using unshared_user [OF so] unshared_pos [OF so] by (auto split: if_splits)
  moreover have "view s' = map (\<lambda>(v, (rs, x)). (v, (filter (\<lambda>(b, _). (v, b) \<noteq> (u, a)) rs, x))) (view s)"
  proof -
    have "(reserves_view s' w, user_hf (s_users s' ! w), vai_repay (s_users s' ! w)) =
        (filter (\<lambda>(b, _). (v, b) \<noteq> (u, a)) (reserves_view s w), user_hf (s_users s ! w), vai_repay (s_users s ! w))"
      if "(v, w) \<in> set (users_states s)" for v w
    proof -
      have v: "dget (users_states s) v = Some w" using that so(1) by (simp add: store_ok_iff dict_ok_mem_iff)
      show ?thesis
      proof (cases "v = u")
        case True
        then have "w = r" using v r by simp
        then show ?thesis using True rl
          by (simp add: reserves_view_def s'_def AList.delete_eq filter_map comp_def case_prod_unfold) (metis)
      next
        case False
        then have "w \<noteq> r" using unshared_user [OF so] v r by blast
        then show ?thesis using False by (simp add: reserves_view_def s'_def case_prod_unfold)
      qed
    qed
    then show ?thesis unfolding view_def us by (auto simp: case_prod_unfold)
  qed
  ultimately show ?thesis
    using ok run us pr by (intro exI [of _ s']) (auto simp: tidy_def s'_def position_pos_ref)
qed

lemma pop_all_run:
  assumes "tidy s" "distinct ps" "\<And>u a. (u, a) \<in> set ps \<Longrightarrow> position s u a \<noteq> None"
  shows "\<exists>s'. forE (\<lambda>(u, a). pop_reserve u a) ps s = (Inr (), s') \<and> tidy s' \<and>
    view s' = map (\<lambda>(v, (rs, x)). (v, (filter (\<lambda>(b, _). (v, b) \<notin> set ps) rs, x))) (view s) \<and>
    states.more s' = states.more s \<and> s_ctokens s' = s_ctokens s \<and> users_states s' = users_states s \<and>
    last_update s' = last_update s \<and> block_hash s' = block_hash s"
  using assms
proof (induction ps arbitrary: s)
  case Nil
  have "map (\<lambda>(v, (rs, x)). (v, (filter (\<lambda>(b, _). True) rs, x))) (view s) = view s"
    by (simp add: case_prod_unfold)
  with Nil show ?case by (simp add: py_simps case_prod_unfold)
next
  case (Cons p ps)
  obtain u a where p: "p = (u, a)" by (cases p)
  obtain s1 where s1: "pop_reserve u a s = (Inr (), s1)" "tidy s1"
    and pos1: "\<And>v b. position s1 v b = (if v = u \<and> b = a then None else position s v b)" and s1v:
    "view s1 = map (\<lambda>(v, (rs, x)). (v, (filter (\<lambda>(b, _). (v, b) \<noteq> (u, a)) rs, x))) (view s)"
    "states.more s1 = states.more s" "s_ctokens s1 = s_ctokens s" "users_states s1 = users_states s"
    "last_update s1 = last_update s" "block_hash s1 = block_hash s"
    using pop_reserve_run [OF Cons.prems(1), of u a] Cons.prems(3) p by auto
  have "position s1 v b \<noteq> None" if "(v, b) \<in> set ps" for v b
    using that Cons.prems(2,3) p pos1 by (auto split: if_splits)
  then obtain s2 where s2: "forE (\<lambda>(u, a). pop_reserve u a) ps s1 = (Inr (), s2)" "tidy s2"
    "view s2 = map (\<lambda>(v, (rs, x)). (v, (filter (\<lambda>(b, _). (v, b) \<notin> set ps) rs, x))) (view s1)"
    "states.more s2 = states.more s1" "s_ctokens s2 = s_ctokens s1" "users_states s2 = users_states s1"
    "last_update s2 = last_update s1" "block_hash s2 = block_hash s1"
    using Cons.IH [OF s1(2)] Cons.prems(2) by auto
  have "view s2 = map (\<lambda>(v, (rs, x)). (v, (filter (\<lambda>(b, _). (v, b) \<notin> set (p # ps)) rs, x))) (view s)"
    unfolding s2(3) s1v(1) by (auto simp: case_prod_unfold p intro!: filter_cong)
  then show ?case
    using s1 s1v s2 p by (intro exI [of _ s2]) (simp add: py_simps)
qed

lemma forE_nested: "forE (\<lambda>(u, as). forE (g u) as) ms = forE (\<lambda>(u, a). g u a) (concat (map (\<lambda>(u, as). map (Pair u) as) ms))"
proof -
  have m: "forE (\<lambda>(u, a). g u a) (map (Pair u) as) = forE (g u) as" for u as
    by (induction as) auto
  show ?thesis by (induction ms) (auto simp: forE_append m)
qed

definition trim_view :: "(string, user_view) dict \<Rightarrow> (string, user_view) dict" where
  "trim_view = map (\<lambda>(u, (rs, x)). (u, (filter (\<lambda>(a, r). \<not> empty_position r) rs, x)))"

lemma trim_pairs:
  "concat (map (\<lambda>(u, as). map (Pair u) as) (trim_marks s)) =
   concat (map (\<lambda>(u, (rs, x)). map (\<lambda>(a, r). (u, a)) (filter (\<lambda>(a, r). empty_position r) rs)) (view s))"
  by (simp add: trim_marks_def view_def reserves_view_def case_prod_unfold comp_def filter_map)

lemma view_dict_ok:
  assumes "tidy s"
  shows "dict_ok (view s)" "(u, (rs, x)) \<in> set (view s) \<Longrightarrow> dict_ok rs"
proof -
  have so: "store_ok s" using assms by (simp add: tidy_def)
  then show "dict_ok (view s)" by (simp add: store_ok_iff dict_ok_def)
  assume "(u, (rs, x)) \<in> set (view s)"
  then obtain r where "(u, r) \<in> set (users_states s)" "rs = reserves_view s r" by (auto simp: view_def)
  moreover have "dict_ok (reserves (s_users s ! r))" if "(u, r) \<in> set (users_states s)" for u r
    using that so store_ok_user by (simp add: store_ok_iff dict_ok_mem_iff)
  ultimately show "dict_ok rs" by (auto simp: dict_ok_def reserves_view_def case_prod_unfold comp_def)
qed

lemma distinct_trim_pairs:
  assumes "dict_ok V" "\<And>u rs x. (u, (rs, x)) \<in> set V \<Longrightarrow> dict_ok rs"
  shows "distinct (concat (map (\<lambda>(u, (rs, x)). map (\<lambda>(a, r). (u, a)) (filter (\<lambda>(a, r). empty_position r) rs)) V))"
  using assms
proof (induction V)
  case (Cons p V)
  obtain u rs x where p: "p = (u, (rs, x))" by (cases p)
  have "dict_ok rs" using Cons.prems(2) p by auto
  then have "distinct (map fst (filter (\<lambda>(a, r). empty_position r) rs))"
    by (simp add: dict_ok_def distinct_map_filter)
  then have "distinct (map (\<lambda>(a, r). (u, a)) (filter (\<lambda>(a, r). empty_position r) rs))"
    by (auto simp: distinct_map case_prod_unfold inj_on_def)
  moreover have "u \<notin> fst ` set V" "dict_ok V" using Cons.prems(1) p by (simp_all add: dict_ok_def)
  ultimately show ?case
    using Cons p by (fastforce simp: image_iff)
qed simp

theorem trim_run:
  assumes "tidy s"
  shows "\<exists>s'. trim s = (Inr (), s') \<and> tidy s' \<and> view s' = trim_view (view s) \<and>
    s_ctokens s' = s_ctokens s \<and> users_states s' = users_states s \<and>
    last_update s' = last_update s \<and> block_hash s' = block_hash s \<and> states.more s' = states.more s"
proof -
  define ps where "ps = concat (map (\<lambda>(u, (rs, x)). map (\<lambda>(a, r). (u, a)) (filter (\<lambda>(a, r). empty_position r) rs)) (view s))"
  note ok = view_dict_ok [OF assms]
  have d: "distinct ps" unfolding ps_def by (rule distinct_trim_pairs) (use ok in auto)
  have mem: "(u, a) \<in> set ps \<longleftrightarrow> (\<exists>rs x r. (u, (rs, x)) \<in> set (view s) \<and> (a, r) \<in> set rs \<and> empty_position r)" for u a
    by (force simp: ps_def)
  have "position s u a \<noteq> None" if "(u, a) \<in> set ps" for u a
    using that ok unfolding mem by (fastforce simp: position_view dest: dget_mem)
  from pop_all_run [OF assms d this] obtain s' where s': "forE (\<lambda>(u, a). pop_reserve u a) ps s = (Inr (), s')"
    "tidy s'" "view s' = map (\<lambda>(v, (rs, x)). (v, (filter (\<lambda>(b, _). (v, b) \<notin> set ps) rs, x))) (view s)"
    "states.more s' = states.more s" "s_ctokens s' = s_ctokens s" "users_states s' = users_states s"
    "last_update s' = last_update s" "block_hash s' = block_hash s"
    by blast
  have "filter (\<lambda>(b, _). (v, b) \<notin> set ps) rs = filter (\<lambda>(a, r). \<not> empty_position r) rs"
    if v: "(v, (rs, x)) \<in> set (view s)" for v rs x
  proof (rule filter_cong [OF refl])
    fix br assume "br \<in> set rs"
    then obtain b r where br: "br = (b, r)" "(b, r) \<in> set rs" by (metis surj_pair)
    have one: "rs' = rs" if "(v, (rs', x')) \<in> set (view s)" for rs' x'
      using that v unfolding dict_ok_mem_iff [OF ok(1)] by simp
    have two: "r' = r" if "(b, r') \<in> set rs" for r'
      using that br(2) unfolding dict_ok_mem_iff [OF ok(2) [OF v]] by simp
    have "(v, b) \<in> set ps \<longleftrightarrow> empty_position r"
      unfolding mem using v br(2) one two by blast
    then show "(case br of (b, _) \<Rightarrow> (v, b) \<notin> set ps) = (case br of (a, r) \<Rightarrow> \<not> empty_position r)"
      by (simp add: br(1))
  qed
  then have "view s' = trim_view (view s)"
    unfolding s'(3) trim_view_def by auto
  moreover have "trim s = forE (\<lambda>(u, a). pop_reserve u a) ps s"
    unfolding trim_def bindE_apply forE_nested by (simp add: py_simps trim_pairs ps_def)
  ultimately show ?thesis using s' by (intro exI [of _ s']) simp
qed

section \<open>Cache and reload\<close>

lemma user_load_to_json [simp]: "user_load (user_to_json v) = Inr v"
  by (cases v) (simp add: user_load_def user_to_json_def hf_to_list_def hf_load_def reserves_load_to_list)

lemma zip_upt_inj: "(a, q) \<in> set (zip ks [n..<m]) \<Longrightarrow> (a', q) \<in> set (zip ks [n..<m]) \<Longrightarrow> a = a'"
  by (auto simp: in_set_zip)

lemma zip_upt_bounds: "(a, q) \<in> set (zip ks [n..<m]) \<Longrightarrow> n \<le> q \<and> q < m"
  by (auto simp: in_set_zip)

lemma unshared_refs:
  "unshared s \<Longrightarrow> (v, r) \<in> set (users_states s) \<Longrightarrow> (v', r') \<in> set (users_states s) \<Longrightarrow>
   (a, q) \<in> set (reserves (s_users s ! r)) \<Longrightarrow> (a', q) \<in> set (reserves (s_users s ! r')) \<Longrightarrow> v = v' \<and> a = a'"
  unfolding unshared_def
  by (drule (1) bspec, simp only: prod.case, drule (1) bspec, simp only: prod.case, elim conjE,
      drule (1) bspec, simp only: prod.case, drule (1) bspec, simp)

lemma alloc_view_run:
  assumes "tidy s" "u \<notin> set (dkeys (users_states s))" "dict_ok rs"
  shows "tidy (alloc_view (u, (rs, hf, vai)) s)"
    and "view (alloc_view (u, (rs, hf, vai)) s) = view s @ [(u, (rs, hf, vai))]"
proof -
  define n where "n = length (s_reserves s)"
  define z where "z = zip (map fst rs) [n..<n + length rs]"
  define s' where "s' = alloc_view (u, (rs, hf, vai)) s"
  have s': "users_states s' = users_states s @ [(u, length (s_users s))]"
    "s_users s' = s_users s @ [\<lparr>reserves = z, user_hf = hf, vai_repay = vai\<rparr>]"
    "s_reserves s' = s_reserves s @ map snd rs"
    using assms(2) by (simp_all add: s'_def alloc_view_def Let_def dput_new z_def n_def)
  have zb: "\<And>a q. (a, q) \<in> set z \<Longrightarrow> n \<le> q \<and> q < n + length rs"
    unfolding z_def by (rule zip_upt_bounds)
  have zi: "\<And>a q a'. (a, q) \<in> set z \<Longrightarrow> (a', q) \<in> set z \<Longrightarrow> a = a'"
    unfolding z_def by (rule zip_upt_inj)
  have so: "store_ok s" and un: "unshared s" using assms(1) by (simp_all add: tidy_def)
  have ul: "r < length (s_users s)" if "(v, r) \<in> set (users_states s)" for v r
    using that so by (auto simp: store_ok_def)
  have nl: "(v, length (s_users s)) \<notin> set (users_states s)" for v
    using ul by blast
  have ql: "q < n" if "(v, r) \<in> set (users_states s)" "(a, q) \<in> set (reserves (s_users s ! r))" for v r a q
    using that so ul [OF that(1)] nth_mem unfolding store_ok_def n_def by fast
  have "dict_ok z" using assms(3) by (simp add: dict_ok_def z_def)
  then have "store_ok s'"
    using so assms(2) zb unfolding store_ok_def s' n_def
    by (auto simp: dict_ok_def intro: less_SucI) fastforce
  moreover have "unshared s'"
    unfolding unshared_def s'
  proof (intro ballI, clarify, intro conjI impI, goal_cases)
    case (1 v r v' r')
    then show ?case using un nl by (auto simp: unshared_def)
  next
    case (2 v r v' r')
    show ?case
    proof (intro ballI, clarify)
      fix a q a'
      assume q: "(a, q) \<in> set (reserves ((s_users s @ [\<lparr>reserves = z, user_hf = hf, vai_repay = vai\<rparr>]) ! r))"
        "(a', q) \<in> set (reserves ((s_users s @ [\<lparr>reserves = z, user_hf = hf, vai_repay = vai\<rparr>]) ! r'))"
      consider "(v, r) \<in> set (users_states s)" "(v', r') \<in> set (users_states s)"
        | "(v, r) \<in> set (users_states s)" "v' = u" "r' = length (s_users s)"
        | "(v', r') \<in> set (users_states s)" "v = u" "r = length (s_users s)"
        | "v = u" "v' = u" "r = length (s_users s)" "r' = length (s_users s)"
        using 2 by auto
      then show "v = v' \<and> a = a'"
      proof cases
        case 1
        have "(a, q) \<in> set (reserves (s_users s ! r))" "(a', q) \<in> set (reserves (s_users s ! r'))"
          using q ul [OF 1(1)] ul [OF 1(2)] by (simp_all add: nth_append)
        then show ?thesis by (rule unshared_refs [OF un 1])
      next
        case 2
        then show ?thesis using q ul [OF 2(1)] ql [OF 2(1)] zb by (fastforce simp: nth_append)
      next
        case 3
        then show ?thesis using q ul [OF 3(1)] ql [OF 3(1)] zb by (fastforce simp: nth_append)
      next
        case 4
        then show ?thesis using q zi by (auto simp: nth_append)
      qed
    qed
  qed
  ultimately show "tidy (alloc_view (u, (rs, hf, vai)) s)" by (simp add: tidy_def s'_def)
  have old: "reserves_view s' r = reserves_view s r" if "(v, r) \<in> set (users_states s)" for v r
    using ul [OF that] ql [OF that] by (auto simp: reserves_view_def s' nth_append n_def)
  have "reserves_view s' (length (s_users s)) = rs"
    by (rule nth_equalityI) (auto simp: reserves_view_def s' z_def n_def nth_append)
  then show "view (alloc_view (u, (rs, hf, vai)) s) = view s @ [(u, (rs, hf, vai))]"
    using old ul by (auto simp: view_def s'_def [symmetric] s' nth_append)
qed

lemma alloc_states_run:
  assumes "dict_ok d" "\<forall>(u, (rs, x)) \<in> set d. dict_ok rs"
  shows "tidy (alloc_states d ctk l h) \<and> view (alloc_states d ctk l h) = d \<and>
    s_ctokens (alloc_states d ctk l h) = ctk \<and> last_update (alloc_states d ctk l h) = l \<and>
    block_hash (alloc_states d ctk l h) = h"
proof -
  have fr: "s_ctokens (alloc_view v s) = s_ctokens s \<and> last_update (alloc_view v s) = last_update s \<and>
     block_hash (alloc_view v s) = block_hash s" for v s
    by (cases v) (simp add: alloc_view_def Let_def)
  have "tidy (fold alloc_view d s) \<and> view (fold alloc_view d s) = view s @ d \<and>
     s_ctokens (fold alloc_view d s) = s_ctokens s \<and> last_update (fold alloc_view d s) = last_update s \<and>
     block_hash (fold alloc_view d s) = block_hash s"
    if "tidy s" "set (dkeys d) \<inter> set (dkeys (users_states s)) = {}" for s
    using assms that
  proof (induction d arbitrary: s)
    case (Cons p d)
    obtain u rs hf vai where p: "p = (u, (rs, hf, vai))" by (metis prod.exhaust)
    have u: "u \<notin> set (dkeys (users_states s))" "dict_ok rs"
      using Cons.prems p by auto
    let ?s = "alloc_view p s"
    have s: "tidy ?s" "view ?s = view s @ [p]"
      using alloc_view_run [OF Cons.prems(3) u] p by simp_all
    have "dkeys (users_states ?s) = dkeys (users_states s) @ [u]"
      using arg_cong [OF s(2), of dkeys] by (simp add: p)
    then have "set (dkeys d) \<inter> set (dkeys (users_states ?s)) = {}"
      using Cons.prems(1,4) p by (auto simp: dict_ok_def simp del: set_map)
    then show ?case
      using Cons.IH [of ?s] Cons.prems(1,2) s fr [of p s] by (simp add: dict_ok_def)
  qed simp
  from this [of "\<lparr>s_users = [], s_reserves = [], s_ctokens = ctk, s_plug_in = None, users_states = [],
      last_update = l, block_hash = h\<rparr>"]
  show ?thesis by (simp add: alloc_states_def tidy_def store_ok_def unshared_def view_def)
qed

text \<open>What the market files keep of a market: the balances' reserves and borrows read back as 0,
  because they are written under other keys than they are read.\<close>

definition reloaded_market :: "ctoken_infos \<Rightarrow> ctoken_infos" where
  "reloaded_market i = CtokenInfos (new_ctoken_risks\<lparr>borrow_index := borrow_index (risks i)\<rparr>)
     \<lparr>total_reserve = 0, total_borrow = 0, total_supply = total_supply (balances i)\<rparr>"

lemma dget_map_value: "dget (map (\<lambda>(k, v). (k, f v)) d) k = map_option f (dget d k)"
  by (induction d) auto

lemma json_dict_markets:
  assumes "\<And>x. f (g x) = Inr (h x)"
  shows "json_dict f (JObj (map (\<lambda>(c, i). (c, g i)) ctk)) = Inr (map (\<lambda>(c, i). (c, h i)) ctk)"
  using json_dict_JObj_map [of f g h, OF assms] by blast

text \<open>(C9) Caching the users' states trims the empty positions, and reloading the three files gives the
  trimmed users back, with the same block and hash. Of the markets the index and the supply survive;
  the reserves and the borrows are 0, because they are written under other names than they are read.\<close>

lemma cache_reload:
  assumes "tidy s" "set rs = set (dkeys (s_ctokens s))"
  shows "\<exists>s' u r b t. cache s = (Inr (u, r, b), s') \<and> reload_states 1 ib u r b rs = Inr t \<and> tidy t \<and>
    view s' = trim_view (view s) \<and> view t = trim_view (view s) \<and>
    last_update t = last_update s \<and> block_hash t = block_hash s \<and>
    (\<forall>a. dget (s_ctokens t) a = map_option reloaded_market (dget (s_ctokens s) a))"
proof -
  obtain s' where s': "trim s = (Inr (), s')" "tidy s'" "view s' = trim_view (view s)"
    "s_ctokens s' = s_ctokens s" "last_update s' = last_update s" "block_hash s' = block_hash s"
    using trim_run [OF assms(1)] by blast
  let ?V = "trim_view (view s)"
  let ?u = "JObj [(''users'', JObj (map (\<lambda>(u, v). (u, user_to_json v)) ?V)),
     (''lastUpdate'', JInt (last_update s)), (''blockHash'', JStr (block_hash s))]"
  let ?r = "JObj [(''reserves'', JObj (map (\<lambda>(c, i). (c, risks_to_dict (risks i))) (s_ctokens s))),
     (''lastUpdate'', JInt (last_update s))]"
  let ?b = "JObj [(''reserves'', JObj (map (\<lambda>(c, i). (c, balances_to_dict (balances i))) (s_ctokens s))),
     (''lastUpdate'', JInt (last_update s))]"
  have c: "cache s = (Inr (?u, ?r, ?b), s')"
    using s' by (simp add: cache_def py_simps to_json_def)
  define R where "R = map (\<lambda>(c, i). (c, new_ctoken_risks\<lparr>borrow_index := borrow_index (risks i)\<rparr>)) (s_ctokens s)"
  define B where "B = map (\<lambda>(c, i). (c, \<lparr>total_reserve = 0, total_borrow = 0, total_supply = total_supply (balances i)\<rparr>)) (s_ctokens s)"
  have u: "users_load 1 ib ?u = Inr (?V, last_update s, block_hash s)"
    using json_dict_JObj_map [of user_load user_to_json "\<lambda>v. v" ?V] by (simp add: users_load_def)
  have r: "reload_ctokens_risks ?r = Inr (R, last_update s)"
    using json_dict_markets [of risk_load "\<lambda>i. risks_to_dict (risks i)"
        "\<lambda>i. new_ctoken_risks\<lparr>borrow_index := borrow_index (risks i)\<rparr>" "s_ctokens s"]
    by (simp add: reload_ctokens_risks_def R_def)
  have b: "reload_ctokens_balances ?b = Inr (B, last_update s)"
    using json_dict_markets [of balance_load "\<lambda>i. balances_to_dict (balances i)"
        "\<lambda>i. \<lparr>total_reserve = 0, total_borrow = 0, total_supply = total_supply (balances i)\<rparr>" "s_ctokens s"]
    by (simp add: reload_ctokens_balances_def B_def)
  define ctk where "ctk = fold (\<lambda>r. dput r (CtokenInfos
     (case dget R r of None \<Rightarrow> new_ctoken_risks | Some x \<Rightarrow> x)
     (case dget B r of None \<Rightarrow> new_ctoken_balances | Some x \<Rightarrow> x))) rs []"
  have t: "tokens_load 1 ib ?b ?r rs = Inr (ctk, last_update s)"
    using r b by (simp add: tokens_load_def ctk_def)
  define st where "st = alloc_states ?V ctk (last_update s) (block_hash s)"
  have "dict_ok ?V" "\<forall>(u, (rs, x)) \<in> set ?V. dict_ok rs"
    using view_dict_ok [OF s'(2)] s'(3) by auto
  note st = alloc_states_run [OF this, of ctk "last_update s" "block_hash s", folded st_def]
  have "reload_states 1 ib ?u ?r ?b rs = Inr st"
    using u t by (simp add: reload_states_def st_def)
  moreover have "dget ctk a = map_option reloaded_market (dget (s_ctokens s) a)" for a
  proof (cases "dget (s_ctokens s) a")
    case None
    then have "a \<notin> set rs" using assms(2) by (simp add: map_of_eq_None_iff)
    with None show ?thesis by (simp add: ctk_def dget_fold_dput)
  next
    case (Some i)
    then have "a \<in> set rs" using assms(2) dget_in_keys by metis
    with Some show ?thesis
      by (simp add: ctk_def dget_fold_dput R_def B_def dget_map_value reloaded_market_def)
  qed
  ultimately show ?thesis
    unfolding c using st s'(3)
    by (intro exI [of _ s'] exI [of _ ?u] exI [of _ ?r] exI [of _ ?b] exI [of _ st]) (simp only: simp_thms)
qed

section \<open>Market membership\<close>

lemma set_col_liq_run:
  assumes "tidy s" "position s u a \<noteq> None"
  shows "\<exists>s'. set_col_liq u b a s = (Inr (), s') \<and> tidy s' \<and>
     position s' = upd_pos u a (\<lambda>r. r\<lparr>is_col_liq := b\<rparr>) (position s) \<and> users_states s' = users_states s"
  using mod_reserve_run [OF assms, of "\<lambda>r. r\<lparr>is_col_liq := b\<rparr>"] by (auto simp: set_col_liq_def)

definition flag_pos :: "string \<Rightarrow> (string \<Rightarrow> int option) \<Rightarrow> (string \<Rightarrow> string \<Rightarrow> comp_reserve option) \<Rightarrow>
    string \<Rightarrow> string \<Rightarrow> comp_reserve option" where
  \<comment> \<open>the flags of \<open>u\<close> set where \<open>m\<close> says so\<close>
  "flag_pos u m P = (\<lambda>v a. map_option (\<lambda>r. case (if v = u then m a else None) of
     None \<Rightarrow> r | Some b \<Rightarrow> r\<lparr>is_col_liq := b\<rparr>) (P v a))"

lemma upd_flag_pos:
  "upd_pos u a (\<lambda>r. r\<lparr>is_col_liq := b\<rparr>) (flag_pos u m P) = flag_pos u (m(a \<mapsto> b)) P"
  by (auto simp: upd_pos_def flag_pos_def fun_eq_iff option.map_comp comp_def
      intro!: map_option_cong split: option.splits)

lemma flags_run:
  assumes "tidy s" "\<forall>a \<in> set as. position s u a \<noteq> None" "position s = flag_pos u m P"
  shows "\<exists>s'. forE (set_col_liq u b) as s = (Inr (), s') \<and> tidy s' \<and> users_states s' = users_states s \<and>
     position s' = flag_pos u (\<lambda>a. if a \<in> set as then Some b else m a) P"
  using assms
proof (induction as arbitrary: s m)
  case Nil
  then show ?case by (simp add: py_simps)
next
  case (Cons a as)
  obtain s1 where s1: "set_col_liq u b a s = (Inr (), s1)" "tidy s1"
    "position s1 = upd_pos u a (\<lambda>r. r\<lparr>is_col_liq := b\<rparr>) (position s)" "users_states s1 = users_states s"
    using set_col_liq_run [OF Cons.prems(1), of u a b] Cons.prems(2) by auto
  have p1: "position s1 = flag_pos u (m(a \<mapsto> b)) P" using s1(3) Cons.prems(3) upd_flag_pos by simp
  have "\<forall>a \<in> set as. position s1 u a \<noteq> None"
    using Cons.prems(2) s1(3) by (auto simp: upd_pos_def)
  from Cons.IH [OF s1(2) this p1] obtain s2 where s2: "forE (set_col_liq u b) as s1 = (Inr (), s2)" "tidy s2"
    "users_states s2 = users_states s1"
    "position s2 = flag_pos u (\<lambda>x. if x \<in> set as then Some b else (m(a \<mapsto> b)) x) P" by blast
  moreover have "(\<lambda>x. if x \<in> set as then Some b else (m(a \<mapsto> b)) x) = (\<lambda>x. if x \<in> set (a # as) then Some b else m x)"
    by auto
  ultimately show ?case using s1 by (intro exI [of _ s2]) (simp add: py_simps)
qed

lemma user_of_run:
  assumes "dget (users_states s) u = Some r"
  shows "user_of s u = Inr (s_users s ! r)"
    and "dget (reserves (s_users s ! r)) a \<noteq> None \<longleftrightarrow> position s u a \<noteq> None"
  using assms by (simp_all add: user_of_def user_ref_def position_def)

lemma market_loop:
  assumes "tidy s" "dget (users_states s) u = Some r"
  shows "forE (\<lambda>a. bindE (getR (\<lambda>s. user_of s u)) (\<lambda>o2. whenE (dget (reserves o2) a \<noteq> None) (set_col_liq u b a))) as s =
     forE (set_col_liq u b) (filter (\<lambda>a. position s u a \<noteq> None) as) s"
  using assms
proof (induction as arbitrary: s)
  case (Cons a as)
  note uo = user_of_run [OF Cons.prems(2)]
  show ?case
  proof (cases "position s u a = None")
    case True
    then show ?thesis using Cons uo(1) uo(2) [of a] by (simp add: py_simps)
  next
    case False
    then obtain s1 where s1: "set_col_liq u b a s = (Inr (), s1)" "tidy s1"
      "position s1 = upd_pos u a (\<lambda>r. r\<lparr>is_col_liq := b\<rparr>) (position s)" "users_states s1 = users_states s"
      using set_col_liq_run [OF Cons.prems(1)] by blast
    have "(position s1 u x \<noteq> None) = (position s u x \<noteq> None)" for x
      using s1(3) by (auto simp: upd_pos_def)
    then show ?thesis
      using Cons.IH [OF s1(2)] Cons.prems(2) False uo(1) uo(2) [of a] s1(1,4) by (simp add: py_simps)
  qed
qed simp

text \<open>Reloading the markets that a user has entered sets the collateral flag of exactly the user's
  positions in these markets, clears it for the user's other positions, and touches nobody else.\<close>

lemma extend_run:
  assumes "tidy s" "dget (users_states s) u = Some r" "get_assets_in u = Inr ms"
  shows "\<exists>s'. reload_and_extend_states get_assets_in u s = (Inr (), s') \<and> tidy s' \<and> users_states s' = users_states s \<and>
     position s' = flag_pos u (\<lambda>a. Some (if a \<in> set ms then 1 else 0)) (position s)"
proof -
  note uo = user_of_run [OF assms(2)]
  have f0: "position s = flag_pos u (\<lambda>a. None) (position s)"
    by (auto simp: flag_pos_def fun_eq_iff option.map_ident)
  let ?as = "filter (\<lambda>a. position s u a \<noteq> None) ms"
  let ?bs = "filter (\<lambda>a. a \<notin> set ms) (dkeys (reserves (s_users s ! r)))"
  obtain s1 where s1: "forE (set_col_liq u 1) ?as s = (Inr (), s1)" "tidy s1" "users_states s1 = users_states s"
    "position s1 = flag_pos u (\<lambda>a. if a \<in> set ?as then Some 1 else None) (position s)"
    using flags_run [OF assms(1) _ f0, of ?as 1] by auto
  have pk: "position s u a \<noteq> None \<longleftrightarrow> a \<in> set (dkeys (reserves (s_users s ! r)))" for a
    using uo(2) [of a] by (metis dget_Some_iff_key not_None_eq)
  have "\<forall>a \<in> set ?bs. position s1 u a \<noteq> None"
    using pk s1(4) by (auto simp: flag_pos_def)
  from flags_run [OF s1(2) this s1(4), of 0]
  obtain s2 where s2: "forE (set_col_liq u 0) ?bs s1 = (Inr (), s2)" "tidy s2" "users_states s2 = users_states s1"
    "position s2 = flag_pos u (\<lambda>a. if a \<in> set ?bs then Some 0 else if a \<in> set ?as then Some 1 else None) (position s)"
    by blast
  have "position s2 v a = flag_pos u (\<lambda>a. Some (if a \<in> set ms then 1 else 0)) (position s) v a" for v a
    using pk [of a] by (cases "position s v a"; cases "v = u") (auto simp: s2(4) flag_pos_def)
  then have "position s2 = flag_pos u (\<lambda>a. Some (if a \<in> set ms then 1 else 0)) (position s)"
    by (simp add: fun_eq_iff)
  moreover have "reload_and_extend_states get_assets_in u s = (Inr (), s2)"
    using s1(1) s2(1) uo(1) assms(3) market_loop [OF assms(1,2), of 1 ms]
    by (simp add: reload_and_extend_states_def py_simps)
  ultimately show ?thesis using s1(3) s2 by auto
qed

section \<open>The high-profit view\<close>

lemma dget_filter: "dict_ok d \<Longrightarrow> dget (filter (\<lambda>(k, v). P k v) d) k =
    (case dget d k of None \<Rightarrow> None | Some v \<Rightarrow> if P k v then Some v else None)"
  by (induction d) (auto simp: dict_ok_def image_iff split: option.splits dest!: map_of_SomeD)

text \<open>The high-profit view has exactly the users of the full state whose debt exceeds twenty times
  the threshold, and shares their objects.\<close>

lemma HighProfit_users:
  assumes "tidy s"
  shows "dget (users_states (HighProfitSates s t)) u =
    (case dget (users_states s) u of None \<Rightarrow> None
     | Some r \<Rightarrow> if t * 20 < hf_debt_volume (user_hf (s_users s ! r)) then Some r else None)"
  using assms
  by (simp add: HighProfitSates_def filter_states_def dget_filter tidy_def store_ok_iff states.defs)

lemma ball2_mono: "(\<forall>(u, r) \<in> A. \<forall>(v, t) \<in> A. Q u r v t) \<Longrightarrow> B \<subseteq> A \<Longrightarrow> (\<forall>(u, r) \<in> B. \<forall>(v, t) \<in> B. Q u r v t)"
  by fast

lemma tidy_HighProfit:
  assumes "tidy s"
  shows "tidy (HighProfitSates s t)"
proof -
  let ?h = "HighProfitSates s t"
  have s: "store_ok s" "unshared s" using assms by (simp_all add: tidy_def)
  have e: "s_users ?h = s_users s" "s_reserves ?h = s_reserves s"
    by (simp_all add: HighProfitSates_def states.defs)
  have u: "users_states ?h = filter_states s (t * 20)"
    by (simp add: HighProfitSates_def states.defs)
  have sub: "set (users_states ?h) \<subseteq> set (users_states s)" by (auto simp: u filter_states_def)
  have "dict_ok (users_states ?h)"
    using s(1) by (auto simp: u filter_states_def store_ok_def dict_ok_def distinct_map_filter)
  then have "store_ok ?h" using s(1) sub by (auto simp: store_ok_def e)
  moreover have "unshared ?h" using ball2_mono [OF s(2) [unfolded unshared_def] sub] unfolding unshared_def e .
  ultimately show ?thesis by (simp add: tidy_def)
qed

text \<open>A log that changes only recorded users is handled as by the full view.\<close>

lemma merge_nothing: "\<forall>(u, t) \<in> set us. t \<noteq> 2 \<or> dget (parent_users s) u = None \<Longrightarrow> forE merge_user us s = (Inr (), s)"
  by (induction us) (auto simp: py_simps merge_user_def)

lemma HighProfit_update_known:
  assumes "States_update abi_decode checksum lg s = (Inr us, s1)"
    and "\<forall>(u, t) \<in> set us. t \<noteq> 2 \<or> dget (parent_users s1) u = None"
  shows "HighProfit_update abi_decode checksum lg s = (Inr us, s1\<lparr>update_users := dupdate (update_users s1) us\<rparr>)"
  using assms(1) merge_nothing [OF assms(2)] by (simp add: HighProfit_update_def py_simps)

lemma mod_reserve_eq:
  assumes "pos_ref s u a = Some q"
  shows "mod_reserve u a f s = (Inr (), s\<lparr>s_reserves := (s_reserves s)[q := f (s_reserves s ! q)]\<rparr>)"
  using assms
  by (auto simp: mod_reserve_def py_simps reserve_ref_def user_of_def user_ref_def pos_ref_def split: option.splits)

lemma pos_ref_reserves [simp]: "pos_ref (s\<lparr>s_reserves := x\<rparr>) = pos_ref s"
  by (auto simp: pos_ref_def fun_eq_iff split: option.splits)

definition merge_pos :: "comp_reserve \<Rightarrow> comp_reserve \<Rightarrow> comp_reserve" where
  \<comment> \<open>the own position \<open>r\<close> with the full state's \<open>v\<close> added\<close>
  "merge_pos v r = r\<lparr>col_amount := col_amount r + col_amount v, debt_amount := debt_amount r + debt_amount v,
     debt_interest := (if debt_interest r = 0 then debt_interest v else debt_interest r)\<rparr>"

lemma merge_reserve_present:
  assumes "tidy s" "pos_ref s u k = Some q" "q' < length (s_reserves s)"
  shows "merge_reserve u (k, q') s = (Inr (), s\<lparr>s_reserves := (s_reserves s)[q := merge_pos (s_reserves s ! q') (s_reserves s ! q)]\<rparr>)"
proof -
  have q: "q < length (s_reserves s)" using assms(1,2) store_ok_pos_ref by (auto simp: tidy_def)
  obtain r where r: "dget (users_states s) u = Some r" "dget (reserves (s_users s ! r)) k = Some q"
    using assms(2) by (auto simp: pos_ref_def split: option.splits)
  then have uo: "user_of s u = Inr (s_users s ! r)" by (simp add: user_of_def user_ref_def)
  show ?thesis
    using q r uo assms(2,3)
    by (cases "q = q'"; cases "s_reserves s ! q"; cases "s_reserves s ! q'")
      (auto simp: merge_reserve_def py_simps mod_reserve_eq merge_pos_def)
qed

lemma merge_reserve_absent:
  assumes "dget (users_states s) u = Some r" "dget (reserves (s_users s ! r)) k = None"
  shows "merge_reserve u (k, q) s = (Inr (), s\<lparr>s_users := (s_users s)[r := (s_users s ! r)\<lparr>reserves :=
      dput k q (reserves (s_users s ! r))\<rparr>]\<rparr>)"
  using assms by (simp add: merge_reserve_def py_simps user_of_def user_ref_def mod_user_def)

lemma tidy_add_ref:
  assumes t: "tidy s" and r: "dget (users_states s) u = Some r" and n: "dget (reserves (s_users s ! r)) k = None"
    and q: "q < length (s_reserves s)" "\<And>v b. pos_ref s v b \<noteq> Some q"
  defines "s' \<equiv> s\<lparr>s_users := (s_users s)[r := (s_users s ! r)\<lparr>reserves := dput k q (reserves (s_users s ! r))\<rparr>]\<rparr>"
  shows "tidy s'" and "pos_ref s' v b = (if v = u \<and> b = k then Some q else pos_ref s v b)"
proof -
  have so: "store_ok s" "unshared s" using t by (simp_all add: tidy_def)
  have rl: "r < length (s_users s)" using store_ok_user [OF so(1) r] by simp
  have ok: "store_ok s'"
    using so(1) rl q(1) by (auto simp: store_ok_iff s'_def nth_list_update split: if_splits)
  have us: "users_states s' = users_states s" by (simp add: s'_def)
  have pr: "pos_ref s' v b = (if v = u \<and> b = k then Some q else pos_ref s v b)" for v b
  proof (cases "v = u")
    case True
    with r rl show ?thesis by (simp add: pos_ref_def s'_def)
  next
    case False
    then have "dget (users_states s) v \<noteq> Some r" using unshared_user [OF so] r by blast
    with False show ?thesis by (cases "dget (users_states s) v") (simp_all add: pos_ref_def s'_def)
  qed
  show "pos_ref s' v b = (if v = u \<and> b = k then Some q else pos_ref s v b)" by (rule pr)
  have "unshared s'"
    unfolding unshared_iff [OF ok] us pr
    using unshared_user [OF so] unshared_pos [OF so] q(2) by (auto split: if_splits)
  with ok show "tidy s'" by (simp add: tidy_def)
qed

definition merged :: "comp_reserve option \<Rightarrow> comp_reserve option \<Rightarrow> comp_reserve option" where
  "merged own old = (case own of None \<Rightarrow> old | Some r \<Rightarrow> (case old of None \<Rightarrow> own | Some v \<Rightarrow> Some (merge_pos v r)))"

text \<open>A newly recorded user, whose object shares nothing with the full state's, gets the sums.\<close>

lemma merge_fresh_run:
  assumes "tidy s" "dget (users_states s) u = Some r"
    and "distinct (map fst kvs)" "distinct (map snd kvs)"
    and "\<forall>(k, q) \<in> set kvs. q < length (s_reserves s) \<and> (\<forall>v b. pos_ref s v b \<noteq> Some q)"
  shows "\<exists>s'. forE (merge_reserve u) kvs s = (Inr (), s') \<and> tidy s' \<and> users_states s' = users_states s \<and>
     position s' = (\<lambda>v a. if v = u then merged (position s u a) (map_option (\<lambda>q. s_reserves s ! q) (dget kvs a))
        else position s v a)"
  using assms
proof (induction kvs arbitrary: s)
  case Nil
  then show ?case by (auto simp: py_simps merged_def fun_eq_iff split: option.splits)
next
  case (Cons kq kvs)
  obtain k q where kq: "kq = (k, q)" by (cases kq)
  have kn: "k \<notin> set (map fst kvs)" "dget kvs k = None" and qn: "q \<notin> set (map snd kvs)"
    using Cons.prems(3,4) kq by (auto simp: map_of_eq_None_iff)
  have q: "q < length (s_reserves s)" "\<And>v b. pos_ref s v b \<noteq> Some q" using Cons.prems(5) kq by auto
  have "\<exists>s1. merge_reserve u (k, q) s = (Inr (), s1) \<and> tidy s1 \<and> users_states s1 = users_states s \<and>
     (\<forall>(k', q') \<in> set kvs. q' < length (s_reserves s1) \<and> (\<forall>v b. pos_ref s1 v b \<noteq> Some q') \<and> s_reserves s1 ! q' = s_reserves s ! q') \<and>
     position s1 = (\<lambda>v a. if v = u \<and> a = k then merged (position s u k) (Some (s_reserves s ! q)) else position s v a)"
  proof (cases "pos_ref s u k")
    case None
    then have n: "dget (reserves (s_users s ! r)) k = None" using Cons.prems(2) by (simp add: pos_ref_def)
    let ?s1 = "s\<lparr>s_users := (s_users s)[r := (s_users s ! r)\<lparr>reserves := dput k q (reserves (s_users s ! r))\<rparr>]\<rparr>"
    note add = tidy_add_ref [OF Cons.prems(1,2) n q]
    have "position ?s1 = (\<lambda>v a. if v = u \<and> a = k then merged (position s u k) (Some (s_reserves s ! q)) else position s v a)"
      using None by (auto simp: fun_eq_iff position_pos_ref add(2) merged_def)
    moreover have "\<forall>(k', q') \<in> set kvs. q' < length (s_reserves ?s1) \<and> (\<forall>v b. pos_ref ?s1 v b \<noteq> Some q') \<and>
        s_reserves ?s1 ! q' = s_reserves s ! q'"
    proof (clarify, intro conjI allI)
      fix k' q' v b assume k': "(k', q') \<in> set kvs"
      then have n: "q' \<noteq> q" using qn by force
      show "q' < length (s_reserves ?s1)" "s_reserves ?s1 ! q' = s_reserves s ! q'" using Cons.prems(5) k' by auto
      show "pos_ref ?s1 v b \<noteq> Some q'" using Cons.prems(5) k' n by (auto simp: add(2))
    qed
    ultimately show ?thesis
      using merge_reserve_absent [OF Cons.prems(2) n, of q] add(1) by (intro exI [of _ ?s1]) simp
  next
    case (Some p)
    let ?s1 = "s\<lparr>s_reserves := (s_reserves s)[p := merge_pos (s_reserves s ! q) (s_reserves s ! p)]\<rparr>"
    have pl: "p < length (s_reserves s)" using Some Cons.prems(1) store_ok_pos_ref by (auto simp: tidy_def)
    have pu: "v = u \<and> b = k" if "pos_ref s v b = Some p" for v b
      using Cons.prems(1) unshared_pos [OF _ _ that Some] by (simp add: tidy_def)
    have "position ?s1 v a = (if v = u \<and> a = k then merged (position s u k) (Some (s_reserves s ! q)) else position s v a)" for v a
      using Some pl pu [of v a] by (cases "pos_ref s v a") (auto simp: position_pos_ref merged_def nth_list_update)
    then have "position ?s1 = (\<lambda>v a. if v = u \<and> a = k then merged (position s u k) (Some (s_reserves s ! q)) else position s v a)"
      by blast
    moreover have "\<forall>(k', q') \<in> set kvs. q' < length (s_reserves ?s1) \<and> (\<forall>v b. pos_ref ?s1 v b \<noteq> Some q') \<and>
        s_reserves ?s1 ! q' = s_reserves s ! q'"
    proof (clarify, intro conjI allI)
      fix k' q' v b assume k': "(k', q') \<in> set kvs"
      then have o1: "q' < length (s_reserves s)" "\<And>v b. pos_ref s v b \<noteq> Some q'" using Cons.prems(5) by auto
      then have "q' \<noteq> p" using Some by blast
      then show "q' < length (s_reserves ?s1)" "pos_ref ?s1 v b \<noteq> Some q'" "s_reserves ?s1 ! q' = s_reserves s ! q'"
        using o1 by auto
    qed
    ultimately show ?thesis
      using merge_reserve_present [OF Cons.prems(1) Some q(1)] Cons.prems(1) by (intro exI [of _ ?s1]) simp
  qed
  then obtain s1 where s1: "merge_reserve u (k, q) s = (Inr (), s1)" "tidy s1" "users_states s1 = users_states s"
    "\<forall>(k', q') \<in> set kvs. q' < length (s_reserves s1) \<and> (\<forall>v b. pos_ref s1 v b \<noteq> Some q') \<and> s_reserves s1 ! q' = s_reserves s ! q'"
    "position s1 = (\<lambda>v a. if v = u \<and> a = k then merged (position s u k) (Some (s_reserves s ! q)) else position s v a)"
    by blast
  have "\<exists>s'. forE (merge_reserve u) kvs s1 = (Inr (), s') \<and> tidy s' \<and> users_states s' = users_states s1 \<and>
     position s' = (\<lambda>v a. if v = u then merged (position s1 u a) (map_option (\<lambda>q. s_reserves s1 ! q) (dget kvs a))
        else position s1 v a)"
    by (rule Cons.IH [OF s1(2)]) (use s1(3,4) Cons.prems(2-4) in auto)
  then obtain s2 where s2: "forE (merge_reserve u) kvs s1 = (Inr (), s2)" "tidy s2" "users_states s2 = users_states s1"
    "position s2 = (\<lambda>v a. if v = u then merged (position s1 u a) (map_option (\<lambda>q. s_reserves s1 ! q) (dget kvs a))
        else position s1 v a)" by blast
  have same: "map_option (\<lambda>q. s_reserves s1 ! q) (dget kvs a) = map_option (\<lambda>q. s_reserves s ! q) (dget kvs a)" for a
    using s1(4) by (cases "dget kvs a") (auto dest!: map_of_SomeD)
  have "position s2 v a = (if v = u then merged (position s u a) (map_option (\<lambda>q. s_reserves s ! q) (dget (kq # kvs) a))
      else position s v a)" for v a
    using kn(2) by (auto simp: s2(4) same s1(5) kq merged_def split: option.splits)
  then show ?case
    using s1 s2 kq by (intro exI [of _ s2]) (simp add: py_simps fun_eq_iff)
qed

text \<open>A user whose object is the full state's own: every position is added to itself.\<close>

lemma merge_aliased_run:
  assumes "tidy s" "distinct (map fst kvs)" "\<forall>(k, q) \<in> set kvs. pos_ref s u k = Some q"
  shows "\<exists>s'. forE (merge_reserve u) kvs s = (Inr (), s') \<and> tidy s' \<and>
     position s' = (\<lambda>v a. if v = u \<and> a \<in> set (map fst kvs) then map_option (\<lambda>r. merge_pos r r) (position s u a)
        else position s v a)"
  using assms
proof (induction kvs arbitrary: s)
  case Nil
  then show ?case by (simp add: py_simps)
next
  case (Cons kq kvs)
  obtain k q where kq: "kq = (k, q)" by (cases kq)
  have p: "pos_ref s u k = Some q" using Cons.prems(3) kq by simp
  have ql: "q < length (s_reserves s)" using p Cons.prems(1) store_ok_pos_ref by (auto simp: tidy_def)
  have pu: "v = u \<and> b = k" if "pos_ref s v b = Some q" for v b
    using Cons.prems(1) unshared_pos [OF _ _ that p] by (simp add: tidy_def)
  let ?s1 = "s\<lparr>s_reserves := (s_reserves s)[q := merge_pos (s_reserves s ! q) (s_reserves s ! q)]\<rparr>"
  have r1: "merge_reserve u (k, q) s = (Inr (), ?s1)" by (rule merge_reserve_present [OF Cons.prems(1) p ql])
  have pos1: "position ?s1 v a = (if v = u \<and> a = k then map_option (\<lambda>r. merge_pos r r) (position s u k) else position s v a)" for v a
    using p ql pu [of v a] by (cases "pos_ref s v a") (auto simp: position_pos_ref nth_list_update)
  have "\<exists>s'. forE (merge_reserve u) kvs ?s1 = (Inr (), s') \<and> tidy s' \<and>
     position s' = (\<lambda>v a. if v = u \<and> a \<in> set (map fst kvs) then map_option (\<lambda>r. merge_pos r r) (position ?s1 u a)
        else position ?s1 v a)"
    by (rule Cons.IH) (use Cons.prems in auto)
  then obtain s2 where s2: "forE (merge_reserve u) kvs ?s1 = (Inr (), s2)" "tidy s2"
     "position s2 = (\<lambda>v a. if v = u \<and> a \<in> set (map fst kvs) then map_option (\<lambda>r. merge_pos r r) (position ?s1 u a)
        else position ?s1 v a)" by blast
  have "k \<notin> set (map fst kvs)" using Cons.prems(2) kq by simp
  then have "position s2 = (\<lambda>v a. if v = u \<and> a \<in> set (map fst (kq # kvs)) then map_option (\<lambda>r. merge_pos r r) (position s u a)
        else position s v a)"
    by (auto simp: s2(3) pos1 kq fun_eq_iff)
  then show ?case using r1 s2 kq by (intro exI [of _ s2]) (simp add: py_simps)
qed

lemma position_update_users [simp]: "position (s\<lparr>update_users := x\<rparr>) = position s"
  by (auto simp: position_def fun_eq_iff split: option.splits)

text \<open>(C32) A log that opens a position for a user whose object the high-profit view shares with the full
  state makes the merge add the object to itself: all positions of the user are doubled.\<close>

lemma HighProfit_update_aliased:
  assumes "States_update abi_decode checksum lg s = (Inr [(u, 2)], s1)" "tidy s1"
    and "dget (users_states s1) u = Some r" "dget (parent_users s1) u = Some r"
  shows "\<exists>s'. HighProfit_update abi_decode checksum lg s = (Inr [(u, 2)], s') \<and>
    position s' = (\<lambda>v a. if v = u then map_option (\<lambda>r. merge_pos r r) (position s1 u a) else position s1 v a)"
proof -
  let ?rs = "reserves (s_users s1 ! r)"
  have d: "dict_ok ?rs" using store_ok_user assms(2,3) unfolding tidy_def by blast
  have "\<forall>(k, q) \<in> set ?rs. pos_ref s1 u k = Some q"
    using d assms(3) by (auto simp: pos_ref_def dict_ok_mem_iff)
  from merge_aliased_run [OF assms(2) _ this] d
  obtain s2 where s2: "forE (merge_reserve u) ?rs s1 = (Inr (), s2)"
    "position s2 = (\<lambda>v a. if v = u \<and> a \<in> set (map fst ?rs) then map_option (\<lambda>r. merge_pos r r) (position s1 u a)
        else position s1 v a)" by (auto simp: dict_ok_def)
  have "position s1 u a = None" if "a \<notin> set (map fst ?rs)" for a
    using that assms(3) by (simp add: position_def map_of_eq_None_iff)
  then have "position s2 = (\<lambda>v a. if v = u then map_option (\<lambda>r. merge_pos r r) (position s1 u a) else position s1 v a)"
    unfolding s2(2) by (auto simp: fun_eq_iff)
  then show ?thesis
    using assms(1,4) s2(1)
    by (intro exI [of _ "s2\<lparr>update_users := dupdate (update_users s2) [(u, 2)]\<rparr>"])
      (simp add: HighProfit_update_def py_simps merge_user_def)
qed


end
