(* ===== verification/Chain.thy ===== *)
theory Chain
  imports UsersView
begin

text \<open>
  What the bot reads from the chain besides the users: the comptroller's parameters and their
  events (\<open>configs/comet.py\<close>), the block clock (\<open>configs/block.py\<close>), and the market
  configuration and risk parameters (\<open>configs/protocol.py\<close>). A contract call is a function of the
  record \<open>node\<close>, a parameter of the model: it returns the call's result or raises.
\<close>

section \<open>Comptroller\<close>

definition COMET_EVENT_ABI :: "(string, event_abi) dict" where
  "COMET_EVENT_ABI = [
    (''0xaeba5a6c40a8ac138134bff1aaa65debf25971188a58804bad717f82f0ec1316'',
     \<lparr>ev_name = ''NewLiquidationIncentive'', ev_index_topic = [], ev_data = [''uint256'', ''uint256'']\<rparr>),
    (''0x70483e6592cd5182d45ac970e05bc62cdcc90e9d8ef2c2dbe686cf383bcd7fc5'',
     \<lparr>ev_name = ''NewCollateralFactor'', ev_index_topic = [], ev_data = [''address'', ''uint256'', ''uint256'']\<rparr>)]"

definition gen_comet_filter :: log_filter where
  "gen_comet_filter = \<lparr>f_address = [comet_addr P_ALIAS], f_topics = [[
     ''0xaeba5a6c40a8ac138134bff1aaa65debf25971188a58804bad717f82f0ec1316'',
     ''0x70483e6592cd5182d45ac970e05bc62cdcc90e9d8ef2c2dbe686cf383bcd7fc5'']]\<rparr>"

record comet_configs =
  liq_incentive :: int
  closs_factor :: int
  ctokens_collateral_factor :: "(string, int) dict"
  comet_last_update :: int

definition comet_new_incentive :: "log_receipt \<Rightarrow> abi_val list \<Rightarrow> (comet_configs, unit) eff" where
  "comet_new_incentive lg args =
     bindE (liftR (arg_int args 1)) (\<lambda>new.
       modE (\<lambda>c. c\<lparr>liq_incentive := new, comet_last_update := lg_blockNumber lg\<rparr>))"

definition comet_new_factor :: "log_receipt \<Rightarrow> abi_val list \<Rightarrow> (comet_configs, unit) eff" where
  "comet_new_factor lg args =
     bindE (liftR (arg_int args 2)) (\<lambda>new.
     bindE (liftR (arg_addr args 0)) (\<lambda>reserve.
       modE (\<lambda>c. c\<lparr>ctokens_collateral_factor := dput reserve new (ctokens_collateral_factor c),
                   comet_last_update := lg_blockNumber lg\<rparr>)))"

definition comet_update :: "abi_decoder \<Rightarrow> log_receipt \<Rightarrow> (comet_configs, unit) eff" where
  "comet_update abi_decode lg =
     (if lg_removed lg then returnE ()
      else bindE (liftR (topic0 lg)) (\<lambda>topic.
        case dget COMET_EVENT_ABI topic of
          None \<Rightarrow> returnE ()
        | Some obj \<Rightarrow>
            bindE (liftR (decode_data abi_decode obj lg (Raised ''comet update failed''))) (\<lambda>args.
              thenE (whenE (ev_name obj = ''NewLiquidationIncentive'') (comet_new_incentive lg args))
                    (whenE (ev_name obj = ''NewCollateralFactor'') (comet_new_factor lg args)))))"

text \<open>The comptroller's answers: incentive, close factor, and a market's collateral factor.\<close>

definition init_comet_configs ::
    "int res \<Rightarrow> int res \<Rightarrow> (string \<Rightarrow> int res) \<Rightarrow> string list \<Rightarrow> int \<Rightarrow> comet_configs res" where
  "init_comet_configs incentive close_factor markets rs block =
     bindR incentive (\<lambda>li. bindR close_factor (\<lambda>cf.
     bindR (foldR (\<lambda>a d. bindR (markets a) (\<lambda>v. Inr (dput a v d))) rs []) (\<lambda>d.
       Inr \<lparr>liq_incentive = li, closs_factor = cf, ctokens_collateral_factor = d, comet_last_update = block\<rparr>)))"

lemma comet_ignored:
  assumes "lg_removed lg \<or> (\<exists>t. topic0 lg = Inr t \<and> dget COMET_EVENT_ABI t = None)"
  shows "comet_update abi_decode lg c = (Inr (), c)"
  using assms by (auto simp: comet_update_def py_simps)

lemma comet_keeps_dict: "keeps (\<lambda>c. dict_ok (ctokens_collateral_factor c)) (comet_update abi_decode lg)"
  unfolding comet_update_def comet_new_incentive_def comet_new_factor_def
  by (auto split: option.splits intro!: keeps_intros)

text \<open>A collateral factor log that names the market by another spelling of its address than the
  dictionary's key leaves the factor that the health factors use as it was.\<close>

lemma comet_factor_other_key:
  assumes "arg_addr args 0 = Inr k" "arg_int args 2 = Inr new" "k \<noteq> a"
  shows "\<exists>c'. comet_new_factor lg args c = (Inr (), c') \<and>
     dget (ctokens_collateral_factor c') a = dget (ctokens_collateral_factor c) a"
  using assms by (simp add: comet_new_factor_def py_simps)

section \<open>Blocks\<close>

record block_infos =
  block_num :: int
  block_time :: int
  base_fee :: int
  bi_gas_price :: int

definition BlockInfos :: "int \<Rightarrow> int \<Rightarrow> int \<Rightarrow> block_infos" where
  "BlockInfos n t f = \<lparr>block_num = n, block_time = t, base_fee = f, bi_gas_price = 0\<rparr>"

definition update_block :: "int \<Rightarrow> int \<Rightarrow> block_infos \<Rightarrow> block_infos" where
  "update_block n t b = b\<lparr>block_num := n, block_time := t\<rparr>"

definition block_update :: "int \<Rightarrow> int \<Rightarrow> int \<Rightarrow> int \<Rightarrow> block_infos \<Rightarrow> block_infos" where
  "block_update n t f g b = b\<lparr>block_num := n, block_time := t, base_fee := f, bi_gas_price := g\<rparr>"

definition get_current_timestamp :: "block_infos \<Rightarrow> int \<Rightarrow> int" where
  "get_current_timestamp b current_block_num =
     (if current_block_num = block_num b then block_time b
      else block_time b + INTVL * (current_block_num - block_num b))"

definition get_blocknum_by_timestamp :: "block_infos \<Rightarrow> int \<Rightarrow> int" where
  "get_blocknum_by_timestamp b current_time =
     (if current_time = block_time b then block_num b
      else (current_time - block_time b) div INTVL + block_num b)"

lemma timestamp_affine: "get_current_timestamp b n = block_time b + 3 * (n - block_num b)"
  by (simp add: get_current_timestamp_def INTVL_def)

lemma blocknum_affine: "get_blocknum_by_timestamp b t = block_num b + (t - block_time b) div 3"
  by (simp add: get_blocknum_by_timestamp_def INTVL_def)

section \<open>Market configuration\<close>

record node =
  n_underlying :: "string \<Rightarrow> string res"
  n_symbol :: "string \<Rightarrow> string res"
  n_decimals :: "string \<Rightarrow> int res"
  n_token_config :: "string \<Rightarrow> (string list \<times> bool list) res"  \<comment> \<open>oracles and their flags\<close>
  n_ext_feed :: "string \<Rightarrow> string \<Rightarrow> string res"  \<comment> \<open>of an oracle address and an asset\<close>
  n_exchange_rate :: "string \<Rightarrow> int res"
  n_reserve_factor :: "string \<Rightarrow> int res"
  n_protocol_seize :: "string \<Rightarrow> int res"
  n_underlying_price :: "string \<Rightarrow> int res"
  n_vai_repay :: "string \<Rightarrow> int res"

text \<open>
  The local variables of \<open>query_ctokens_configs\<close> that the \<open>try\<close> block may leave unbound:
  underlying, its external spelling, symbol, decimals.
\<close>

record config_locals =
  cl_underlying :: "string option"
  cl_external :: "string option"
  cl_symbol :: "string option"
  cl_decimals :: "int option"

definition read_underlying :: "node \<Rightarrow> string \<Rightarrow> (config_locals, unit) eff" where
  "read_underlying nd ct =
     bindE (liftR (n_underlying nd ct)) (\<lambda>ua.
     thenE (modE (\<lambda>l. l\<lparr>cl_underlying := Some ua, cl_external := Some ua\<rparr>))
     (bindE (liftR (n_symbol nd ua)) (\<lambda>sy.
      thenE (modE (\<lambda>l. l\<lparr>cl_symbol := Some sy\<rparr>))
      (bindE (liftR (n_decimals nd ua)) (\<lambda>de.
        modE (\<lambda>l. l\<lparr>cl_decimals := Some de\<rparr>))))))"

definition vBNB :: string where
  "vBNB = ''0xA07c5b74C9B40447a954e1466938b865b6BBea36''"

definition underlying_locals :: "node \<Rightarrow> string \<Rightarrow> config_locals" where
  "underlying_locals nd ct = snd (tryE (read_underlying nd ct)
     (\<lambda>e. whenE (ct = vBNB) (modE (\<lambda>l. l\<lparr>
        cl_underlying := Some ''0xbb4CdB9CBd36B01bD1cBaEBF2De08d9173bc095c'',
        cl_external := Some ''0xbBbBBBBbbBBBbbbBbbBbbbbBBbBbbbbBbBbbBBbB'',
        cl_symbol := Some ''vBNB'', cl_decimals := Some 18\<rparr>)))
     \<lparr>cl_underlying = None, cl_external = None, cl_symbol = None, cl_decimals = None\<rparr>)"

definition enabled_index :: "bool list \<Rightarrow> nat" where
  \<comment> \<open>the loop counts the flags before the first that is set\<close>
  "enabled_index flags = length (takeWhile (\<lambda>b. \<not> b) flags)"

definition query_ctokens_configs :: "node \<Rightarrow> string \<Rightarrow> ctoken_configs res" where
  "query_ctokens_configs nd ct =
     (let l = underlying_locals nd ct in
      bindR (n_token_config nd ct) (\<lambda>(oracles, flags).
      bindR (py_index oracles (int (enabled_index flags))) (\<lambda>oracle_addr.
      bindR (opt_res UnboundLocalError (cl_external l)) (\<lambda>ext.
      bindR (n_ext_feed nd oracle_addr ext) (\<lambda>rep.
      bindR (opt_res UnboundLocalError (cl_underlying l)) (\<lambda>ua.
      bindR (opt_res UnboundLocalError (cl_decimals l)) (\<lambda>de.
      bindR (opt_res UnboundLocalError (cl_symbol l)) (\<lambda>sy.
        Inr (new_ctoken_configs ct rep ua de sy 8)))))))))"

definition complete_ctokens_configs_info :: "node \<Rightarrow> string list \<Rightarrow> (ctokens, unit) eff" where
  "complete_ctokens_configs_info nd rs = forE (\<lambda>a.
     bindE (liftR (query_ctokens_configs nd a)) (\<lambda>cfg.
     bindE (getR (dict_upd a (\<lambda>i. i\<lparr>configs := Some cfg\<rparr>))) (\<lambda>d. modE (\<lambda>_. d)))) rs"

definition onchain_ctoken_risks :: "node \<Rightarrow> string \<Rightarrow> ctoken_risks res" where
  "onchain_ctoken_risks nd a =
     bindR (n_exchange_rate nd a) (\<lambda>ex.
       Inr \<lparr>borrow_index = 1, reserve_factor = 0, exchange_rate = ex,
            protocol_seized = (case n_protocol_seize nd a of Inl _ \<Rightarrow> 0 | Inr p \<Rightarrow> p)\<rparr>)"

definition backtesting_reserves :: "node \<Rightarrow> string list \<Rightarrow> ctokens res" where
  "backtesting_reserves nd rs = foldR (\<lambda>a d. bindR (onchain_ctoken_risks nd a) (\<lambda>rk.
     Inr (dput a (CtokenInfos rk new_ctoken_balances) d))) rs []"

definition upd_risks :: "string \<Rightarrow> (ctoken_risks \<Rightarrow> ctoken_risks) \<Rightarrow> (ctokens, unit) eff" where
  "upd_risks a f = bindE (getR (dict_upd a (\<lambda>i. i\<lparr>risks := f (risks i)\<rparr>))) (\<lambda>d. modE (\<lambda>_. d))"

definition complete_ctokens_risks :: "node \<Rightarrow> string list \<Rightarrow> (ctokens, unit) eff" where
  "complete_ctokens_risks nd rs = forE (\<lambda>a.
     bindE (liftR (n_reserve_factor nd a)) (\<lambda>rf.
     thenE (upd_risks a (\<lambda>r. r\<lparr>reserve_factor := rf\<rparr>))
     (bindE (liftR (n_exchange_rate nd a)) (\<lambda>ex.
      thenE (upd_risks a (\<lambda>r. r\<lparr>exchange_rate := ex\<rparr>))
      (tryE (bindE (liftR (n_protocol_seize nd a)) (\<lambda>p. upd_risks a (\<lambda>r. r\<lparr>protocol_seized := p\<rparr>)))
            (\<lambda>e. returnE ())))))) rs"

lemma enabled_index_first:
  assumes "True \<in> set flags"
  shows "enabled_index flags < length flags" "flags ! enabled_index flags"
    "\<forall>i < enabled_index flags. \<not> flags ! i"
proof -
  show l: "enabled_index flags < length flags"
    using assms unfolding enabled_index_def
    by (induction flags) auto
  show "flags ! enabled_index flags"
    using nth_length_takeWhile [of "\<lambda>b. \<not> b" flags] l unfolding enabled_index_def by simp
  show "\<forall>i < enabled_index flags. \<not> flags ! i"
    unfolding enabled_index_def by (metis nth_mem set_takeWhileD takeWhile_nth)
qed

lemma underlying_locals_ok:
  assumes "n_underlying nd ct = Inr ua" "n_symbol nd ua = Inr sy" "n_decimals nd ua = Inr de"
  shows "underlying_locals nd ct = \<lparr>cl_underlying = Some ua, cl_external = Some ua, cl_symbol = Some sy, cl_decimals = Some de\<rparr>"
  using assms by (simp add: underlying_locals_def read_underlying_def py_simps)

text \<open>Estimating the time of a block from the current block and then the block of that time gives
  the block back, before and after the current one.\<close>

theorem block_time_roundtrip: "get_blocknum_by_timestamp b (get_current_timestamp b n) = n"
  by (simp add: blocknum_affine timestamp_affine)

end
