(* ===== verification/Signals.thy ===== *)
theory Signals
  imports Chain
begin

text \<open>
  \<open>configs/signals.py\<close>: the map from price aggregators to markets, the parser of an oracle report
  taken from a pending transaction, the scaling of a reported price to the oracle's format, and
  the life cycle of a market's price (\<open>update\<close> from a pending report, \<open>confirm\<close> by the event,
  \<open>revert\<close> after a timeout).

  The two protocols scale differently; the locale \<open>price_scaling\<close> states their common contract
  (a decimal shift), and both are interpretations of it.
\<close>

section \<open>Aggregators and markets\<close>

record aggregator_infos =
  ai_token :: string
  pair_symbols :: "string list"
  price_decimals :: nat

type_synonym signal_map = "(string, aggregator_infos list) dict"

record signals =
  signal_token_map :: signal_map
  token_signal_map :: "(string, string) dict"
  signals_event_filter_light :: "(string, string) dict list"
  signals_epoch :: "(string, int) dict"

definition signal_token_inverse :: "signal_map \<Rightarrow> (string, string) dict" where
  "signal_token_inverse m = fold (\<lambda>(k, datas). fold (\<lambda>d. dput (ai_token d) k) datas) m []"

definition Signals :: "signal_map \<Rightarrow> (string, string) dict list \<Rightarrow> signals" where
  "Signals m f = \<lparr>signal_token_map = m, token_signal_map = signal_token_inverse m,
     signals_event_filter_light = f, signals_epoch = []\<rparr>"

definition get_tokens_from_aggr :: "signals \<Rightarrow> string \<Rightarrow> (string list \<times> string) res" where
  "get_tokens_from_aggr s sg =
     bindR (dgetR (signal_token_map s) sg) (\<lambda>infos. Inr (map ai_token infos, sg))"

definition get_tokens_from_aggr_index :: "signals \<Rightarrow> int \<Rightarrow> (string list \<times> string) res" where
  "get_tokens_from_aggr_index s index =
     (let aggr_lst = dkeys (signal_token_map s) in
      if aggr_lst = [] then Inl ZeroDivisionError
      else bindR (py_index aggr_lst (index mod int (length aggr_lst))) (get_tokens_from_aggr s))"

definition event_filter_convert :: "signals \<Rightarrow> string list" where
  "event_filter_convert s = concat (map (map snd) (signals_event_filter_light s))"

definition gen_signals_filter :: "signals \<Rightarrow> log_filter" where
  "gen_signals_filter s = \<lparr>f_address = event_filter_convert s,
     f_topics = [[''0xf6a97944f31ea060dfde0566e4167c1a1082551e64b60ecb14d599a9d023d451'']]\<rparr>"

text \<open>\<open>'A / ETH'\<close> to \<open>[A, ETH]\<close>.\<close>

fun py_split :: "char \<Rightarrow> string \<Rightarrow> string list" where
  "py_split c [] = [[]]"
| "py_split c (x # s) = (if x = c then [] # py_split c s
     else case py_split c s of w # rest \<Rightarrow> (x # w) # rest | [] \<Rightarrow> [[x]])"

definition aggregator_description_parse :: "string \<Rightarrow> string list" where
  "aggregator_description_parse descr = py_split (CHR ''/'') (filter (\<lambda>c. c \<noteq> CHR '' '') descr)"

text \<open>The aggregator contracts: \<open>query_aggregator\<close>, \<open>description\<close>, \<open>decimals\<close> are the node's answers.\<close>

definition aggregator_step ::
    "(string \<Rightarrow> string res) \<Rightarrow> (string \<Rightarrow> string res) \<Rightarrow> (string \<Rightarrow> nat res) \<Rightarrow> ctokens \<Rightarrow> string \<Rightarrow>
     signal_map \<times> (string, string) dict list \<Rightarrow> (signal_map \<times> (string, string) dict list) res" where
  "aggregator_step query_aggregator description decimals_of ctk reserve st = (case st of (dic, flt) \<Rightarrow>
     bindR (ctk_configs ctk reserve) (\<lambda>cfg.
     if reporter cfg = ADDRESS_ZERO then Inr (dic, flt)
     else bindR (query_aggregator (reporter cfg)) (\<lambda>aggregator.
       bindR (description aggregator) (\<lambda>descr.
       bindR (decimals_of aggregator) (\<lambda>dec.
         let key = lower aggregator;
             olds = (case dget dic key of None \<Rightarrow> [] | Some l \<Rightarrow> l)
         in Inr (dput key (olds @ [\<lparr>ai_token = reserve, pair_symbols = aggregator_description_parse descr,
                                    price_decimals = dec\<rparr>]) dic,
                 flt @ [[(''to'', aggregator)]]))))))"

definition query_reserves_aggregator ::
    "(string \<Rightarrow> string res) \<Rightarrow> (string \<Rightarrow> string res) \<Rightarrow> (string \<Rightarrow> nat res) \<Rightarrow> string list \<Rightarrow> ctokens \<Rightarrow>
     (signal_map \<times> (string, string) dict list) res" where
  "query_reserves_aggregator query_aggregator description decimals_of rs ctk =
     foldR (aggregator_step query_aggregator description decimals_of ctk) rs ([], [])"

text \<open>\<open>init_signals\<close>: the extra maps \<open>ST_ALIAS\<close> and \<open>S_ALIAS\<close> are empty on this deployment.\<close>

definition init_signals ::
    "(string \<Rightarrow> string res) \<Rightarrow> (string \<Rightarrow> string res) \<Rightarrow> (string \<Rightarrow> nat res) \<Rightarrow> string list \<Rightarrow> ctokens \<Rightarrow> signals res" where
  "init_signals query_aggregator description decimals_of rs ctk =
     bindR (query_reserves_aggregator query_aggregator description decimals_of rs ctk) (\<lambda>(dic, flt).
       Inr (Signals (dupdate dic []) (flt @ [])))"

section \<open>The report parser\<close>

definition TRANSMIT_FUNC_SIG :: bytes where
  "TRANSMIT_FUNC_SIG = [0xc9, 0x80, 0x75, 0x39]"

record pending_tx =
  tx_to :: string
  tx_input :: string
  tx_gasPrice :: "string option"
  tx_maxFeePerGas :: string

definition last_n :: "nat \<Rightarrow> 'a list \<Rightarrow> 'a list" where
  \<comment> \<open>\<open>xs[-n:]\<close>\<close>
  "last_n n xs = drop (length xs - n) xs"

definition report_epoch :: "bytes \<Rightarrow> int res" where
  "report_epoch data = (let offset = be_nat (slice data 0 32) + 32
     in py_int 16 (hex_bytes (last_n 5 (slice data offset (offset + 32)))))"

definition report_observations :: "bytes \<Rightarrow> int list" where
  "report_observations data =
     (let offset = be_nat (slice data 0 32) + 32;
          array_length = be_nat (slice data (offset + 96) (offset + 128))
      in map (\<lambda>i. int (be_nat (slice data (offset + 128 + 32 * i) (offset + 128 + 32 * i + 32)))) [0..<array_length])"

definition tx_filter_and_parsing :: "pending_tx \<Rightarrow> int \<Rightarrow> (signals, string \<times> int) eff" where
  "tx_filter_and_parsing tx gas_price =
     bindE (liftR (fromhex (drop 2 (tx_input tx)))) (\<lambda>call_data_bin.
     thenE (liftR (guardR (4 < length call_data_bin) (Raised ''call data error'')))
     (thenE (liftR (guardR (slice call_data_bin 0 4 = TRANSMIT_FUNC_SIG) (Raised ''unknown function signature'')))
     (bindE (liftR (py_int 16 (case tx_gasPrice tx of Some p \<Rightarrow> p | None \<Rightarrow> tx_maxFeePerGas tx))) (\<lambda>signal_gasprice.
      thenE (liftR (guardR (\<not> of_int signal_gasprice < fmul (rnd (9/10)) (fl_int gas_price)) (Raised ''signal price too low'')))
      (let data = drop 4 call_data_bin in
       bindE (liftR (report_epoch data)) (\<lambda>signal_epoch.
       bindE (getE (\<lambda>s. case dget (signals_epoch s) (tx_to tx) of None \<Rightarrow> 0 | Some e \<Rightarrow> e)) (\<lambda>local_epoch.
       thenE (liftR (guardR (\<not> signal_epoch < local_epoch) (Raised ''signal stale report'')))
       (thenE (modE (\<lambda>s. s\<lparr>signals_epoch := dput (tx_to tx) signal_epoch (signals_epoch s)\<rparr>))
       (let array_args = report_observations data in
        bindE (liftR (py_index array_args (int (length array_args) div 2))) (\<lambda>pr.
          returnE (tx_to tx, pr)))))))))))"

definition no_name :: "signals \<Rightarrow> string \<Rightarrow> int \<Rightarrow> ((string \<times> int \<times> nat) list \<times> string) res" where
  "no_name s aggregator pr =
     bindR (dgetR (signal_token_map s) aggregator) (\<lambda>aggr_infos.
     bindR (mapR (\<lambda>ai. bindR (py_index (pair_symbols ai) 1) (\<lambda>quote.
        if quote = base_currency P_ALIAS then Inr (ai_token ai, pr, price_decimals ai)
        else Inl (Raised ''unrecognize aggregators''))) aggr_infos) (\<lambda>r.
       Inr (r, aggregator)))"

section \<open>Price scales\<close>

definition nonneg :: "int \<Rightarrow> nat" where
  \<comment> \<open>\<open>if delta < 0: delta = 0\<close>\<close>
  "nonneg d = (if d < 0 then 0 else nat d)"

definition v2_price_scale :: "int \<Rightarrow> int \<Rightarrow> int \<Rightarrow> string" where
  "v2_price_scale pr units rep_multiplier = py_str pr @ zfill [] (nonneg (30 + rep_multiplier - units * 2))"

definition v2_gen_oracle_params :: "nat \<Rightarrow> ctoken_configs \<Rightarrow> int \<times> int" where
  "v2_gen_oracle_params feed_decimals cfg = (base_units cfg, reporter_multiplier cfg)"

definition v2_get_oracle_price :: "int \<Rightarrow> nat \<Rightarrow> ctoken_configs \<Rightarrow> int res" where
  "v2_get_oracle_price pr feed_decimals cfg = py_int 10 (v2_price_scale pr (base_units cfg) (reporter_multiplier cfg))"

definition v2_price_scale_inverse :: "int \<Rightarrow> int \<Rightarrow> int \<Rightarrow> pyfloat res" where
  "v2_price_scale_inverse pr units rep_multiplier = int_truediv pr (10 ^ nonneg (30 + rep_multiplier - units * 2))"

definition is_within_anchor :: "int \<Rightarrow> bool" where
  "is_within_anchor pr = True"

definition v2_tx_filter_and_parsing :: "pending_tx \<Rightarrow> int \<Rightarrow> (signals, string \<times> int) eff" where
  "v2_tx_filter_and_parsing tx gas_price =
     bindE (tx_filter_and_parsing tx gas_price) (\<lambda>(contract_addr, pr).
     thenE (liftR (guardR (is_within_anchor pr) (Raised ''signal price not in anchor'')))
       (returnE (contract_addr, pr)))"

definition venus_price_scale :: "int \<Rightarrow> int \<Rightarrow> int \<Rightarrow> string" where
  "venus_price_scale pr underlying_dec feed_decimals =
     py_str pr @ zfill [] (nonneg (18 - underlying_dec)) @ zfill [] (nonneg (18 - feed_decimals))"

definition venus_gen_oracle_params :: "nat \<Rightarrow> ctoken_configs \<Rightarrow> int \<times> int" where
  "venus_gen_oracle_params feed_decimals cfg = (underlying_decimals cfg, int feed_decimals)"

definition venus_get_oracle_price :: "int \<Rightarrow> nat \<Rightarrow> ctoken_configs \<Rightarrow> int res" where
  "venus_get_oracle_price pr feed_decimals cfg =
     py_int 10 (venus_price_scale pr (underlying_decimals cfg) (int feed_decimals))"

definition venus_price_scale_inverse :: "int \<Rightarrow> int \<Rightarrow> nat \<Rightarrow> pyfloat res" where
  "venus_price_scale_inverse pr underlying_dec feed_decimals =
     bindR (int_truediv pr (10 ^ nonneg (18 - underlying_dec))) (\<lambda>q. fdiv q (fl_int (10 ^ feed_decimals)))"

section \<open>The life cycle of a price\<close>

definition CtokenPrice :: "int \<Rightarrow> int \<Rightarrow> ctoken_price" where
  "CtokenPrice pr lu = \<lparr>price_current = pr, price_cache = 0, price_last_update = lu, is_comfired = True\<rparr>"

definition CtokenPrice_update :: "int \<Rightarrow> int \<Rightarrow> ctoken_price \<Rightarrow> ctoken_price" where
  "CtokenPrice_update new_price lu p = p\<lparr>
     price_cache := (if is_comfired p then price_current p else price_cache p),
     price_current := new_price, price_last_update := lu, is_comfired := False\<rparr>"

definition CtokenPrice_revert :: "int \<Rightarrow> ctoken_price \<Rightarrow> ctoken_price" where
  \<comment> \<open>\<open>now\<close> is \<open>int(time.time())\<close>\<close>
  "CtokenPrice_revert now p =
     (if \<not> is_comfired p \<and> price_last_update p + INTVL * 5 < now
      then p\<lparr>price_current := price_cache p, price_cache := 0, is_comfired := True\<rparr> else p)"

definition SIGNAL_EVENT_ABI :: "(string, event_abi) dict" where
  "SIGNAL_EVENT_ABI = [(''0xf6a97944f31ea060dfde0566e4167c1a1082551e64b60ecb14d599a9d023d451'',
     \<lparr>ev_name = ''NewTransmission'', ev_index_topic = [''uint32''],
      ev_data = [''int192'', ''address'', ''int192[]'', ''bytes'', ''bytes32'']\<rparr>)]"

definition CtokenPrice_confirm ::
    "abi_decoder \<Rightarrow> log_receipt \<Rightarrow> (int \<Rightarrow> int \<Rightarrow> int \<Rightarrow> string) \<Rightarrow> int \<times> int \<Rightarrow> (ctoken_price, unit) eff" where
  "CtokenPrice_confirm abi_decode lg scale_func args =
     (if lg_removed lg then returnE ()
      else bindE (liftR (topic0 lg)) (\<lambda>topic.
        case dget SIGNAL_EVENT_ABI topic of
          None \<Rightarrow> returnE ()
        | Some obj \<Rightarrow>
            (case decode_data abi_decode obj lg (Raised '''') of
               Inl _ \<Rightarrow> returnE ()
             | Inr args_data \<Rightarrow>
                 whenE (ev_name obj = ''NewTransmission'')
                   (bindE (liftR (arg_int args_data 0)) (\<lambda>answer.
                    bindE (liftR (py_int 10 (scale_func answer (fst args) (snd args)))) (\<lambda>new_price.
                      modE (\<lambda>p. p\<lparr>price_current := new_price, is_comfired := True\<rparr>)))))))"

definition init_ctoken_price :: "node \<Rightarrow> int \<Rightarrow> string \<Rightarrow> ctoken_price res" where
  "init_ctoken_price nd now a = bindR (n_underlying_price nd a) (\<lambda>pr. Inr (CtokenPrice pr now))"

definition complete_ctokens_price_info :: "node \<Rightarrow> int \<Rightarrow> string list \<Rightarrow> (ctokens, unit) eff" where
  "complete_ctokens_price_info nd now rs = forE (\<lambda>a.
     bindE (liftR (init_ctoken_price nd now a)) (\<lambda>p.
     bindE (getR (dict_upd a (\<lambda>i. i\<lparr>price := Some p\<rparr>))) (\<lambda>d. modE (\<lambda>_. d)))) rs"

section \<open>Scaling is a decimal shift\<close>

locale price_scaling =
  fixes scale :: "int \<Rightarrow> int \<Rightarrow> int \<Rightarrow> string"
    and shift :: "int \<Rightarrow> int \<Rightarrow> nat"
  assumes scale_shift: "py_int 10 (scale pr a b) = Inr (pr * 10 ^ shift a b)"
begin

lemma scale_inj: "py_int 10 (scale p a b) = py_int 10 (scale q a b) \<longleftrightarrow> p = q"
  by (simp add: scale_shift)

lemma confirm_run:
  assumes "\<not> lg_removed lg" "topic0 lg = Inr topic" "dget SIGNAL_EVENT_ABI topic = Some obj"
    and "decode_data abi_decode obj lg (Raised '''') = Inr args" "arg_int args 0 = Inr answer"
  shows "CtokenPrice_confirm abi_decode lg scale (a, b) p =
    (Inr (), p\<lparr>price_current := answer * 10 ^ shift a b, is_comfired := True\<rparr>)"
proof -
  have "ev_name obj = ''NewTransmission''"
    using assms(3) by (auto simp: SIGNAL_EVENT_ABI_def split: if_splits)
  then show ?thesis
    using assms by (simp add: CtokenPrice_confirm_def py_simps scale_shift)
qed

lemma confirm_cases:
  "snd (CtokenPrice_confirm abi_decode lg scale ab p) = p \<or>
   (\<exists>new. snd (CtokenPrice_confirm abi_decode lg scale ab p) = p\<lparr>price_current := new, is_comfired := True\<rparr>)"
  by (auto simp: CtokenPrice_confirm_def py_simps scale_shift split: option.splits sum.splits)

end

interpretation v2_scaling: price_scaling v2_price_scale "\<lambda>units mul. nonneg (30 + mul - units * 2)"
  by unfold_locales (simp add: v2_price_scale_def py_int_str_zeros)

interpretation venus_scaling: price_scaling venus_price_scale "\<lambda>u f. nonneg (18 - u) + nonneg (18 - f)"
  by unfold_locales (simp add: venus_price_scale_def py_int_str_zeros flip: replicate_add)

section \<open>Every run of a price\<close>

text \<open>The second component is the last price that was initial or confirmed by an event.\<close>

inductive price_step :: "ctoken_price \<times> int \<Rightarrow> ctoken_price \<times> int \<Rightarrow> bool" where
  pending: "price_step (p, g) (CtokenPrice_update new lu p, g)"
| timeout: "price_step (p, g) (CtokenPrice_revert now p, g)"
| confirmed: "CtokenPrice_confirm abi_decode lg venus_price_scale ab p = (r, p') \<Longrightarrow> p' \<noteq> p \<Longrightarrow>
    price_step (p, g) (p', price_current p')"
| unconfirmed: "CtokenPrice_confirm abi_decode lg venus_price_scale ab p = (r, p) \<Longrightarrow> price_step (p, g) (p, g)"

inductive_cases price_stepE: "price_step (p, g) (p', g')"

definition price_inv :: "ctoken_price \<times> int \<Rightarrow> bool" where
  "price_inv pg = (case pg of (p, g) \<Rightarrow> (if is_comfired p then price_current p = g else price_cache p = g))"

lemma price_inv_step: "price_step pg pg' \<Longrightarrow> price_inv pg \<Longrightarrow> price_inv pg'"
proof (induction rule: price_step.induct)
  case (confirmed abi_decode lg ab p r p' g)
  then show ?case
    using venus_scaling.confirm_cases [of abi_decode lg ab p] by (auto simp: price_inv_def)
qed (auto simp: price_inv_def CtokenPrice_update_def CtokenPrice_revert_def)

lemma price_inv_reachable: "price_step\<^sup>*\<^sup>* pg pg' \<Longrightarrow> price_inv pg \<Longrightarrow> price_inv pg'"
  by (induction rule: rtranclp_induct) (auto intro: price_inv_step)

lemma revert_reachable:
  assumes "price_step\<^sup>*\<^sup>* (CtokenPrice pr lu, pr) (p, g)" and "price_last_update p + 15 < now"
  shows "price_current (CtokenPrice_revert now p) = g \<and> is_comfired (CtokenPrice_revert now p)"
proof -
  have "price_inv (p, g)"
    using price_inv_reachable [OF assms(1)] by (simp add: price_inv_def CtokenPrice_def)
  then show ?thesis
    using assms(2) by (auto simp: price_inv_def CtokenPrice_revert_def INTVL_def)
qed

section \<open>Reports\<close>

text \<open>The layout of a report: the offset, what lies before it, the context, two words, the
  number of observations, and the observations.\<close>

definition encode_report :: "bytes \<Rightarrow> bytes \<Rightarrow> bytes \<Rightarrow> nat list \<Rightarrow> bytes \<Rightarrow> bytes" where
  "encode_report mid ctx two_words obs rest =
     nat_be 32 (length mid) @ mid @ ctx @ two_words @ nat_be 32 (length obs) @ concat (map (nat_be 32) obs) @ rest"

lemma slice_append: "length xs = i \<Longrightarrow> slice (xs @ ys @ zs) i (i + length ys) = ys"
  by (simp add: slice_def)

lemma concat_nat_be_nth:
  assumes "i < length obs"
  shows "take 32 (drop (32 * i) (concat (map (nat_be 32) obs) @ rest)) = nat_be 32 (obs ! i)"
  using assms
proof (induction obs arbitrary: i)
  case (Cons x obs)
  show ?case
  proof (cases i)
    case (Suc j)
    then have "drop (32 * i) (concat (map (nat_be 32) (x # obs)) @ rest) =
        drop (32 * j) (concat (map (nat_be 32) obs) @ rest)"
      by (simp add: drop_append)
    then show ?thesis using Suc Cons by simp
  qed simp
qed simp

lemma report_parts:
  fixes rest :: bytes
  assumes "length mid < 256 ^ 32" "length ctx = 32" "length two_words = 64" "length obs < 256 ^ 32"
    and "\<forall>x \<in> set obs. x < 256 ^ 32"
  defines "data \<equiv> encode_report mid ctx two_words obs rest"
  shows "report_observations data = map int obs"
    and "report_epoch data = py_int 16 (hex_bytes (drop 27 ctx))"
proof -
  have o: "be_nat (slice data 0 32) = length mid"
    using assms(1) by (simp add: data_def encode_report_def slice_def be_nat_nat_be)
  have n: "slice data (length mid + 32 + 96) (length mid + 32 + 128) = nat_be 32 (length obs)"
    using assms(2,3) by (simp add: data_def encode_report_def slice_def)
  have i: "slice data (length mid + 32 + 128 + 32 * i) (length mid + 32 + 128 + 32 * i + 32) = nat_be 32 (obs ! i)"
    if "i < length obs" for i
    using assms(2,3) concat_nat_be_nth [OF that, of rest]
    by (simp add: data_def encode_report_def slice_def drop_append)
  have c: "slice data (length mid + 32) (length mid + 32 + 32) = ctx"
    using assms(2) by (simp add: data_def encode_report_def slice_def)
  show "report_epoch data = py_int 16 (hex_bytes (drop 27 ctx))"
    using c assms(2) by (simp add: report_epoch_def o Let_def last_n_def)
  have len: "be_nat (nat_be 32 (length obs)) = length obs"
    using assms(4) by (simp add: be_nat_nat_be)
  have "report_observations data = map (\<lambda>i. int (be_nat (nat_be 32 (obs ! i)))) [0..<length obs]"
    unfolding report_observations_def o Let_def n len by (rule map_cong [OF refl]) (use i in simp)
  also have "\<dots> = map (\<lambda>i. int (obs ! i)) [0..<length obs]"
    using assms(5) by (intro map_cong) (auto simp: be_nat_nat_be)
  also have "\<dots> = map int obs" by (rule nth_equalityI) auto
  finally show "report_observations data = map int obs" .
qed

lemma py_index_mid: "py_index xs (int (length xs) div 2) = Inr x \<longleftrightarrow> xs \<noteq> [] \<and> x = xs ! (length xs div 2)"
proof -
  have e: "int (length xs) div 2 = int (length xs div 2)" by simp
  have l: "length xs div 2 < length xs" if "xs \<noteq> []"
    by (rule div_less_dividend) (use that in auto)
  show ?thesis
    unfolding e using l by (cases "xs = []") (auto simp: py_index_def)
qed

lemma parse_accepted:
  assumes "tx_filter_and_parsing tx gp s = (Inr (c, pr), s')"
  shows "\<exists>call e. fromhex (drop 2 (tx_input tx)) = Inr call \<and> slice call 0 4 = TRANSMIT_FUNC_SIG \<and>
    report_epoch (drop 4 call) = Inr e \<and> c = tx_to tx \<and>
    (\<forall>l. dget (signals_epoch s) c = Some l \<longrightarrow> l \<le> e) \<and> s' = s\<lparr>signals_epoch := dput c e (signals_epoch s)\<rparr> \<and>
    report_observations (drop 4 call) \<noteq> [] \<and>
    pr = report_observations (drop 4 call) ! (length (report_observations (drop 4 call)) div 2)"
  using assms
  by (auto simp: tx_filter_and_parsing_def py_simps Let_def guardR_def py_index_mid not_less
      split: sum.splits if_splits option.splits)

text \<open>Whatever transaction is parsed, the recorded epoch of an aggregator never goes back.\<close>

lemma epoch_monotone:
  assumes "dget (signals_epoch s) c = Some l"
  shows "\<exists>l' \<ge> l. dget (signals_epoch (snd (tx_filter_and_parsing tx gp s))) c = Some l'"
  using assms
  by (auto simp: tx_filter_and_parsing_def py_simps Let_def guardR_def not_less
      split: sum.splits if_splits option.splits)


section \<open>The two maps of the aggregators\<close>

lemma inverse_sound:
  assumes "dget (signal_token_inverse m) t = Some k"
  shows "\<exists>datas. (k, datas) \<in> set m \<and> t \<in> ai_token ` set datas"
proof -
  have inner: "dget (fold (\<lambda>d. dput (ai_token d) k) datas acc) t =
      (if t \<in> ai_token ` set datas then Some k else dget acc t)" for k datas acc
    by (induction datas arbitrary: acc) auto
  have "dget (fold (\<lambda>(k, datas). fold (\<lambda>d. dput (ai_token d) k) datas) m acc) t = Some k \<Longrightarrow>
      (\<exists>datas. (k, datas) \<in> set m \<and> t \<in> ai_token ` set datas) \<or> dget acc t = Some k" for acc
    by (induction m arbitrary: acc) (fastforce simp: inner split: if_splits)+
  then show ?thesis using assms by (force simp: signal_token_inverse_def)
qed

lemma inverse_complete:
  assumes "(k, datas) \<in> set m" "d \<in> set datas"
  shows "dget (signal_token_inverse m) (ai_token d) \<noteq> None"
proof -
  let ?t = "ai_token d"
  have inner: "dget (fold (\<lambda>d. dput (ai_token d) k) datas acc) ?t =
      (if ?t \<in> ai_token ` set datas then Some k else dget acc ?t)" for k datas acc
    by (induction datas arbitrary: acc) auto
  have keep: "dget acc ?t \<noteq> None \<Longrightarrow>
      dget (fold (\<lambda>(k, datas). fold (\<lambda>d. dput (ai_token d) k) datas) m acc) ?t \<noteq> None" for m acc
    by (induction m arbitrary: acc) (auto simp: inner)
  have "(k, datas) \<in> set m \<Longrightarrow>
      dget (fold (\<lambda>(k, datas). fold (\<lambda>d. dput (ai_token d) k) datas) m acc) ?t \<noteq> None" for acc
  proof (induction m arbitrary: acc)
    case (Cons p m)
    obtain k' ds where p: "p = (k', ds)" by (cases p)
    show ?case
    proof (cases "(k, datas) = p")
      case True
      then have "dget (fold (\<lambda>d. dput (ai_token d) k) datas acc) ?t \<noteq> None"
        using assms(2) by (simp add: inner)
      from keep [OF this, of m] show ?thesis unfolding True [symmetric] by simp
    next
      case False
      then show ?thesis using Cons by simp
    qed
  qed simp
  then show ?thesis using assms(1) by (simp add: signal_token_inverse_def)
qed

text \<open>The inverted map knows exactly the tokens of the aggregators, and maps each of them to an
  aggregator that has it.\<close>

theorem signal_inverse:
  "(dget (signal_token_inverse m) t = None \<longleftrightarrow> (\<forall>(k, datas) \<in> set m. t \<notin> ai_token ` set datas)) \<and>
   (\<forall>k. dget (signal_token_inverse m) t = Some k \<longrightarrow> (\<exists>datas. (k, datas) \<in> set m \<and> t \<in> ai_token ` set datas))"
proof (intro conjI iffI allI impI)
  show "\<forall>(k, datas) \<in> set m. t \<notin> ai_token ` set datas" if "dget (signal_token_inverse m) t = None"
    using that inverse_complete by fastforce
  show "dget (signal_token_inverse m) t = None" if n: "\<forall>(k, datas) \<in> set m. t \<notin> ai_token ` set datas"
  proof (cases "dget (signal_token_inverse m) t")
    case (Some k)
    from inverse_sound [OF this] n show ?thesis by blast
  qed
qed (rule inverse_sound)

text \<open>The price text that the oracle scaling builds is always read back as a number: the answer of
  the aggregator shifted by the decimals of the underlying and of the feed, with no rounding.\<close>

theorem venus_price_exact:
  "venus_get_oracle_price pr feed cfg =
     Inr (pr * 10 ^ (nonneg (18 - underlying_decimals cfg) + nonneg (18 - int feed)))"
  by (simp add: venus_get_oracle_price_def venus_scaling.scale_shift)

end
