(* ===== verification/Router.thy ===== *)
theory Router
  imports Signals
begin

text \<open>
  \<open>configs/router.py\<close>: liquidity pools, the quote of one swap on a constant-product pool, and the
  search for the cheapest route through intermediate tokens.

  A pool is kept under the concatenation of its two token addresses in order, and the position of
  a token in the pair is its index. The list of intermediate tokens is one global object that the
  constructor \<open>Routs\<close> edits, so it is a state of its own. The locale \<open>swap_quote\<close> is what the route
  search needs of a quote.
\<close>

section \<open>Pools\<close>

definition COMP_NOT_DEBT_COL_AT_SAME :: "string list" where
  "COMP_NOT_DEBT_COL_AT_SAME = []"

record 'l pool =
  pool_pair :: "string \<times> string"
  pool_addr :: string
  liquidity :: 'l
  pool_fee :: int

type_synonym 'l pools = "(string, 'l pool option) dict"

definition check_liquidity :: "int list pool \<Rightarrow> int \<Rightarrow> nat \<Rightarrow> bool res" where
  "check_liquidity p amount_out token_index =
     bindR (py_index (liquidity p) (int token_index)) (\<lambda>l. Inr (l < amount_out))"

definition ROUTS_TOKENS :: "string list" where
  "ROUTS_TOKENS = [
     ''0xbb4CdB9CBd36B01bD1cBaEBF2De08d9173bc095c'',
     ''0xe9e7CEA3DedcA5984780Bafc599bD69ADd087D56'',
     ''0x55d398326f99059fF775485246999027B3197955'']"

definition gen_pool_key :: "string \<Rightarrow> string \<Rightarrow> string \<times> nat" where
  "gen_pool_key token_a token_b =
     (if token_a < token_b then (token_a @ token_b, 0) else (token_b @ token_a, 1))"

definition pools_get :: "'l pools \<Rightarrow> string \<Rightarrow> 'l pool option" where
  "pools_get pools key = (case dget pools key of None \<Rightarrow> None | Some p \<Rightarrow> p)"

section \<open>Routes\<close>

record path_step =
  ps_pool_addr :: string
  ps_fee :: int
  ps_token0 :: string
  ps_token1 :: string
  is_zero_for_one :: nat
  ps_amount_out :: int

record routs =
  token_in :: string
  token_out :: string
  paths :: "path_step list"

text \<open>\<open>Routs\<close>: both tokens are removed from the global list, which every route object shares.\<close>

definition Routs :: "string \<Rightarrow> string \<Rightarrow> (string list, routs) eff" where
  "Routs t_in t_out = thenE (modE (\<lambda>g. if t_in \<in> set g then list_del_one t_in g else g))
     (thenE (modE (\<lambda>g. if t_out \<in> set g then list_del_one t_out g else g))
       (returnE \<lparr>token_in = t_in, token_out = t_out, paths = []\<rparr>))"

definition gen_new_routs :: "string \<Rightarrow> string \<Rightarrow> (string list, routs) eff" where
  "gen_new_routs t_in t_out = Routs t_in t_out"

type_synonym 'l swap = "'l pool \<Rightarrow> int \<Rightarrow> nat \<Rightarrow> int res"

definition single_rout_simulation ::
    "string \<Rightarrow> string \<Rightarrow> int \<Rightarrow> 'l swap \<Rightarrow> 'l pools \<Rightarrow> int \<times> path_step option" where
  "single_rout_simulation t_in t_out amount_out swap_simulation pools =
     (let (key, token_in_index) = gen_pool_key t_in t_out;
          token_out_index = 1 - token_in_index
      in case pools_get pools key of
           None \<Rightarrow> (- 1, None)
         | Some p \<Rightarrow>
             (case swap_simulation p amount_out token_out_index of
                Inl _ \<Rightarrow> (- 1, None)
              | Inr amount_in \<Rightarrow> (amount_in, Some \<lparr>ps_pool_addr = pool_addr p, ps_fee = pool_fee p,
                  ps_token0 = fst (pool_pair p), ps_token1 = snd (pool_pair p),
                  is_zero_for_one = token_out_index, ps_amount_out = amount_out\<rparr>)))"

fun walk_path :: "'l swap \<Rightarrow> 'l pools \<Rightarrow> string list \<Rightarrow> int \<Rightarrow> path_step list \<Rightarrow> int \<times> path_step list" where
  \<comment> \<open>the inner loop over the tokens of one route, from the last token back; -1 after \<open>break\<close>\<close>
  "walk_path swap pools (t_out # t_in # ts) amount_out acc =
     (case single_rout_simulation t_in t_out amount_out swap pools of
        (amount_in, None) \<Rightarrow> (- 1, acc)
      | (amount_in, Some st) \<Rightarrow>
          if amount_in = - 1 then (- 1, acc) else walk_path swap pools (t_in # ts) amount_in (acc @ [st]))"
| "walk_path swap pools _ amount_out acc = (amount_out, acc)"

text \<open>\<open>itertools.permutations(xs, k)\<close>, in its order.\<close>

fun py_permutations :: "'a list \<Rightarrow> nat \<Rightarrow> 'a list list" where
  "py_permutations xs 0 = [[]]"
| "py_permutations xs (Suc k) = concat (map (\<lambda>i.
     map ((#) (xs ! i)) (py_permutations (take i xs @ drop (Suc i) xs) k)) [0..<length xs])"

definition all_routes :: "string list \<Rightarrow> string \<Rightarrow> string \<Rightarrow> string list list" where
  "all_routes rout_tokens t_in t_out =
     concat (map (\<lambda>k. map (\<lambda>res. [t_out] @ res @ [t_in]) (py_permutations rout_tokens k)) [0..<length rout_tokens + 1])"

definition best_route :: "'l swap \<Rightarrow> 'l pools \<Rightarrow> int \<Rightarrow> string list \<Rightarrow> int \<times> path_step list \<Rightarrow> int \<times> path_step list" where
  "best_route swap pools final_out path best = (case best of (final_in, ps) \<Rightarrow>
     (case walk_path swap pools path final_out [] of (amount_in, paths_temp) \<Rightarrow>
        if amount_in \<noteq> - 1 \<and> (amount_in < final_in \<or> final_in = - 1) then (amount_in, paths_temp) else (final_in, ps)))"

definition find_routs :: "string list \<Rightarrow> routs \<Rightarrow> int \<Rightarrow> 'l pools \<Rightarrow> 'l swap \<Rightarrow> int \<times> path_step list" where
  "find_routs rout_tokens r final_out pools swap =
     fold (best_route swap pools final_out) (all_routes rout_tokens (token_in r) (token_out r)) (- 1, [])"

definition RoutsCompV2_find_routs :: "string list \<Rightarrow> routs \<Rightarrow> int \<Rightarrow> 'l pools \<Rightarrow> 'l swap \<Rightarrow> int \<times> path_step list" where
  "RoutsCompV2_find_routs rout_tokens r final_out pools swap =
     (if token_out r = token_in r \<and> token_out r \<in> set COMP_NOT_DEBT_COL_AT_SAME then (- 1, [])
      else find_routs rout_tokens r final_out pools swap)"

section \<open>Constant-product pools\<close>

text \<open>\<open>get_pair\<close> and \<open>get_reserves\<close> stand for the factory and pair contracts.\<close>

definition v2_query_max_liq_pool ::
    "(string \<times> string \<Rightarrow> string res) \<Rightarrow> (string \<Rightarrow> int list res) \<Rightarrow> int \<Rightarrow> string \<times> string \<Rightarrow> int list pool option res" where
  "v2_query_max_liq_pool get_pair get_reserves fee pair =
     bindR (get_pair pair) (\<lambda>pair_addr.
       if pair_addr = ADDRESS_ZERO then Inr None
       else bindR (get_reserves pair_addr) (\<lambda>rs.
         Inr (Some \<lparr>pool_pair = pair, pool_addr = pair_addr, liquidity = rs, pool_fee = fee\<rparr>)))"

definition add_liq_pool :: "(string \<times> string \<Rightarrow> 'l pool option res) \<Rightarrow> string \<times> string \<Rightarrow> ('l pools, unit) eff" where
  "add_liq_pool query pair =
     (let (key, token0_index) = gen_pool_key (fst pair) (snd pair);
          ordered = (if token0_index = 0 then pair else (snd pair, fst pair))
      in bindE (liftR (query ordered)) (\<lambda>p. modE (dput key p)))"

definition v2_get_liq_pool :: "'l pools \<Rightarrow> string \<times> string \<Rightarrow> 'l pool option" where
  "v2_get_liq_pool pools pair = pools_get pools (fst (gen_pool_key (fst pair) (snd pair)))"

text \<open>\<open>SwapV3.get_liq_pool\<close> looks up the pair of key and index, which is never a key.\<close>

definition v3_get_liq_pool :: "'l pools \<Rightarrow> string \<times> string \<Rightarrow> 'l pool option" where
  "v3_get_liq_pool pools pair = None"

definition v2_swap_simulation :: "int list swap" where
  "v2_swap_simulation p amount_out token_out_index =
     bindR (py_index (liquidity p) (int token_out_index)) (\<lambda>x.
     bindR (py_index (liquidity p) (1 - int token_out_index)) (\<lambda>y.
       if x < amount_out * 20 then Inr (- 1)
       else bindR (py_div (y * amount_out * 10000) ((x - amount_out) * (10000 - pool_fee p))) (\<lambda>q. Inr (q + 1))))"

definition v3_query_max_liq_pool ::
    "(string \<times> string \<Rightarrow> int \<Rightarrow> string res) \<Rightarrow> (string \<Rightarrow> int res) \<Rightarrow> string \<times> string \<Rightarrow> int pool option res" where
  "v3_query_max_liq_pool get_pool query_liquidity pair =
     bindR (foldR (\<lambda>fee (max_liq, temp_pool).
       bindR (get_pool pair fee) (\<lambda>pair_addr.
         if pair_addr = ADDRESS_ZERO then Inr (max_liq, temp_pool)
         else bindR (query_liquidity pair_addr) (\<lambda>liq.
           Inr (if max_liq < liq
             then (liq, Some \<lparr>pool_pair = pair, pool_addr = pair_addr, liquidity = liq, pool_fee = fee\<rparr>)
             else (max_liq, temp_pool)))))
       [100, 500, 3000, 10000] (0, None)) (\<lambda>(max_liq, temp_pool). Inr temp_pool)"

definition v3_swap_simulation ::
    "(string \<Rightarrow> string \<Rightarrow> int \<Rightarrow> int \<Rightarrow> int res) \<Rightarrow> (string \<Rightarrow> string \<Rightarrow> int \<Rightarrow> int \<Rightarrow> int res) \<Rightarrow> int swap" where
  "v3_swap_simulation quote_exact_output quote_exact_input p amount_out token_out_index =
     (let t_in = (if token_out_index = 0 then snd (pool_pair p) else fst (pool_pair p));
          t_out = (if token_out_index = 0 then fst (pool_pair p) else snd (pool_pair p))
      in case (if 0 < amount_out then quote_exact_output t_in t_out (pool_fee p) amount_out
               else quote_exact_input t_in t_out (pool_fee p) (- amount_out)) of
           Inl _ \<Rightarrow> Inl (Raised ''quote pool failed'') | Inr v \<Rightarrow> Inr v)"

definition init_router_pools ::
    "(string \<times> string \<Rightarrow> 'l pool option res) \<Rightarrow> string list \<Rightarrow> ctokens \<Rightarrow> ('l pools, unit) eff" where
  "init_router_pools query rs ctk = forE (\<lambda>i. forE (\<lambda>j.
     whenE (\<not> j \<le> i)
       (bindE (liftR (ctk_configs ctk (rs ! i))) (\<lambda>c0.
        bindE (liftR (ctk_configs ctk (rs ! j))) (\<lambda>c1.
          add_liq_pool query (underlying c0, underlying c1)))))
     [0..<length rs]) [0..<length rs]"

section \<open>Pool keys\<close>

lemma gen_pool_key_sym: "a \<noteq> b \<Longrightarrow> fst (gen_pool_key a b) = fst (gen_pool_key b a)"
  by (auto simp: gen_pool_key_def)

lemma gen_pool_key_index: "snd (gen_pool_key a b) \<le> 1"
  by (simp add: gen_pool_key_def)

lemma gen_pool_key_inj:
  assumes "length a = n" "length b = n" "length c = n" "length d = n"
    and "fst (gen_pool_key a b) = fst (gen_pool_key c d)"
  shows "{a, b} = {c, d}"
  using assms by (auto simp: gen_pool_key_def split: if_splits)

text \<open>The pair that \<open>add_liq_pool\<close> queries is ordered, and its index points at the token.\<close>

lemma gen_pool_key_order:
  assumes "a \<noteq> b"
  defines "ordered \<equiv> (if snd (gen_pool_key a b) = 0 then (a, b) else (b, a))"
  shows "fst ordered < snd ordered" "[fst ordered, snd ordered] ! snd (gen_pool_key a b) = a"
  using assms by (auto simp: gen_pool_key_def)

section \<open>The cheapest route\<close>

definition quotes :: "'l swap \<Rightarrow> 'l pools \<Rightarrow> int \<Rightarrow> string list \<Rightarrow> int" where
  "quotes swap pools final_out path = fst (walk_path swap pools path final_out [])"

lemma best_route_fold:
  assumes "fold (best_route swap pools out) rs (f0, p0) = (f, p)"
  shows "(f, p) = (f0, p0) \<and> (\<forall>r \<in> set rs. quotes swap pools out r = - 1 \<or> f0 \<noteq> - 1 \<and> f0 \<le> quotes swap pools out r) \<or>
    (\<exists>r \<in> set rs. walk_path swap pools r out [] = (f, p) \<and> f \<noteq> - 1 \<and> (f0 = - 1 \<or> f < f0)) \<and>
    (\<forall>r \<in> set rs. quotes swap pools out r = - 1 \<or> f \<le> quotes swap pools out r)"
  using assms
proof (induction rs arbitrary: f0 p0)
  case (Cons r rs)
  obtain a t where w: "walk_path swap pools r out [] = (a, t)" by (cases "walk_path swap pools r out []")
  then have q: "quotes swap pools out r = a" by (simp add: quotes_def)
  show ?case
  proof (cases "a \<noteq> - 1 \<and> (a < f0 \<or> f0 = - 1)")
    case True
    then have "best_route swap pools out r (f0, p0) = (a, t)" using w by (simp add: best_route_def)
    then have "fold (best_route swap pools out) rs (a, t) = (f, p)" using Cons.prems by simp
    from Cons.IH [OF this] show ?thesis using True w q by auto
  next
    case False
    then have "best_route swap pools out r (f0, p0) = (f0, p0)" using w by (auto simp: best_route_def)
    then have "fold (best_route swap pools out) rs (f0, p0) = (f, p)" using Cons.prems by simp
    from Cons.IH [OF this] show ?thesis using False w q by auto
  qed
qed simp

lemma find_routs_best:
  assumes "find_routs g r out pools swap = (f, p)"
  shows "f = - 1 \<and> p = [] \<and> (\<forall>path \<in> set (all_routes g (token_in r) (token_out r)). quotes swap pools out path = - 1) \<or>
    f \<noteq> - 1 \<and> (\<exists>path \<in> set (all_routes g (token_in r) (token_out r)). walk_path swap pools path out [] = (f, p)) \<and>
    (\<forall>path \<in> set (all_routes g (token_in r) (token_out r)). quotes swap pools out path = - 1 \<or> f \<le> quotes swap pools out path)"
  using best_route_fold [OF assms [unfolded find_routs_def]] by auto

lemma set_py_permutations:
  assumes "distinct xs"
  shows "set (py_permutations xs k) = {ys. length ys = k \<and> distinct ys \<and> set ys \<subseteq> set xs}"
  using assms
proof (induction xs k rule: py_permutations.induct)
  case (2 xs k)
  have d: "distinct (take i xs @ drop (Suc i) xs)" "set (take i xs @ drop (Suc i) xs) = set xs - {xs ! i}"
    if "i < length xs" for i
  proof -
    have e: "xs = take i xs @ xs ! i # drop (Suc i) xs" using id_take_nth_drop [OF that] .
    have "distinct (take i xs @ xs ! i # drop (Suc i) xs)" using 2(2) e by metis
    moreover have "set xs = set (take i xs @ xs ! i # drop (Suc i) xs)" using e by metis
    ultimately show "distinct (take i xs @ drop (Suc i) xs)"
      "set (take i xs @ drop (Suc i) xs) = set xs - {xs ! i}" by auto
  qed
  have "set (py_permutations xs (Suc k)) = (\<Union>i < length xs. (#) (xs ! i) ` {ys. length ys = k \<and> distinct ys \<and> set ys \<subseteq> set xs - {xs ! i}})"
    using 2(1) d by (auto simp: atLeast0LessThan)
  also have "\<dots> = {ys. length ys = Suc k \<and> distinct ys \<and> set ys \<subseteq> set xs}"
  proof (intro equalityI subsetI)
    fix zs assume "zs \<in> {ys. length ys = Suc k \<and> distinct ys \<and> set ys \<subseteq> set xs}"
    then obtain y ys where z: "zs = y # ys" "length ys = k" "distinct ys" "y \<notin> set ys" "y \<in> set xs" "set ys \<subseteq> set xs"
      by (cases zs) auto
    then obtain i where "i < length xs" "y = xs ! i" by (metis in_set_conv_nth)
    with z show "zs \<in> (\<Union>i < length xs. (#) (xs ! i) ` {ys. length ys = k \<and> distinct ys \<and> set ys \<subseteq> set xs - {xs ! i}})"
      by auto
  qed auto
  finally show ?case .
qed auto

lemma set_all_routes:
  assumes "distinct g"
  shows "set (all_routes g t_in t_out) = {[t_out] @ ys @ [t_in] | ys. distinct ys \<and> set ys \<subseteq> set g}"
proof -
  have "length ys \<le> length g" if "distinct ys" "set ys \<subseteq> set g" for ys
  proof -
    have "card (set ys) \<le> card (set g)" using that(2) by (intro card_mono) auto
    then show ?thesis using distinct_card [OF that(1)] card_length [of g] by linarith
  qed
  then have l: "distinct ys \<Longrightarrow> set ys \<subseteq> set g \<Longrightarrow> length ys \<in> {0..<length g + 1}" for ys
    by (simp add: less_Suc_eq_le)
  have "set (all_routes g t_in t_out) =
      (\<Union>k \<in> {0..<length g + 1}. (\<lambda>res. [t_out] @ res @ [t_in]) ` {ys. length ys = k \<and> distinct ys \<and> set ys \<subseteq> set g})"
    unfolding all_routes_def set_concat set_map image_image set_upt set_py_permutations [OF assms] ..
  also have "\<dots> = {[t_out] @ ys @ [t_in] | ys. distinct ys \<and> set ys \<subseteq> set g}"
    using l by blast
  finally show ?thesis .
qed

section \<open>What a quote promises\<close>

locale swap_quote =
  fixes swap :: "'l swap"
    and good :: "'l pool \<Rightarrow> bool"
  assumes quote_pos: "good p \<Longrightarrow> 0 < a \<Longrightarrow> swap p a i = Inr r \<Longrightarrow> r \<noteq> - 1 \<Longrightarrow> 0 < r"
begin

definition good_pools :: "'l pools \<Rightarrow> bool" where
  "good_pools pools \<longleftrightarrow> (\<forall>k p. pools_get pools k = Some p \<longrightarrow> good p)"

lemma single_pos:
  assumes "good_pools pools" "0 < a" "single_rout_simulation t_in t_out a swap pools = (r, st)" "r \<noteq> - 1"
  shows "0 < r \<and> (\<exists>x. st = Some x \<and> ps_amount_out x = a)"
  using assms
  by (auto simp: single_rout_simulation_def good_pools_def Let_def intro: quote_pos
      split: option.splits sum.splits prod.splits)

lemma walk_pos:
  assumes "good_pools pools" "0 < a" "walk_path swap pools ts a acc = (r, ps)" "r \<noteq> - 1"
    and "\<forall>x \<in> set acc. 0 < ps_amount_out x"
  shows "0 < r \<and> (\<forall>x \<in> set ps. 0 < ps_amount_out x) \<and> length ps = length acc + (length ts - 1)"
  using assms
proof (induction ts arbitrary: a acc)
  case (Cons t us)
  show ?case
  proof (cases us)
    case Nil
    with Cons.prems show ?thesis by simp
  next
    case (Cons u vs)
    obtain b st where b: "single_rout_simulation u t a swap pools = (b, st)"
      by (cases "single_rout_simulation u t a swap pools")
    have nb: "b \<noteq> - 1" "st \<noteq> None"
      using Cons.prems(3,4) b Cons by (auto split: option.splits if_splits)
    then obtain x where x: "0 < b" "st = Some x" "ps_amount_out x = a"
      using single_pos [OF Cons.prems(1,2) b] by auto
    have "walk_path swap pools us b (acc @ [x]) = (r, ps)"
      using Cons.prems(3) Cons b nb x by simp
    from Cons.IH [OF Cons.prems(1) x(1) this Cons.prems(4)]
    show ?thesis using Cons.prems(2,5) x Cons by auto
  qed
qed simp

text \<open>A route that is found asks a positive input, and every hop a positive output.\<close>

lemma find_routs_pos:
  assumes "good_pools pools" "0 < out" "find_routs g rt out pools swap = (f, ps)" "f \<noteq> - 1"
  shows "0 < f \<and> ps \<noteq> [] \<and> (\<forall>x \<in> set ps. 0 < ps_amount_out x)"
proof -
  obtain path where p: "path \<in> set (all_routes g (token_in rt) (token_out rt))"
    "walk_path swap pools path out [] = (f, ps)"
    using find_routs_best [OF assms(3)] assms(4) by auto
  have "2 \<le> length path" using p(1) by (auto simp: all_routes_def)
  then show ?thesis using walk_pos [OF assms(1,2) p(2) assms(4)] by auto
qed

end

definition good_v2_pool :: "int list pool \<Rightarrow> bool" where
  "good_v2_pool p \<longleftrightarrow> (\<forall>l \<in> set (liquidity p). 0 \<le> l) \<and> 0 \<le> pool_fee p \<and> pool_fee p < 10000"

lemma v2_swap_result:
  assumes "v2_swap_simulation p a i = Inr r" "r \<noteq> - 1"
  shows "\<exists>x y. py_index (liquidity p) (int i) = Inr x \<and> py_index (liquidity p) (1 - int i) = Inr y \<and>
    20 * a \<le> x \<and> r = y * a * 10000 div ((x - a) * (10000 - pool_fee p)) + 1"
  using assms by (auto simp: v2_swap_simulation_def bindR_def py_div_def split: sum.splits if_splits)

lemma py_index_mem: "py_index xs i = Inr x \<Longrightarrow> x \<in> set xs"
proof -
  assume a: "py_index xs i = Inr x"
  then have n: "0 < int (length xs)" by (cases "xs = []") (auto simp: py_index_def split: if_splits)
  then have "nat (i mod int (length xs)) < length xs"
    using pos_mod_bound [OF n, of i] pos_mod_sign [OF n, of i] by linarith
  then show ?thesis using a by (auto simp: py_index_def split: if_splits)
qed

interpretation v2_quote: swap_quote v2_swap_simulation good_v2_pool
proof unfold_locales
  fix p :: "int list pool" and a r :: int and i :: nat
  assume g: "good_v2_pool p" and a: "0 < a" and r: "v2_swap_simulation p a i = Inr r" "r \<noteq> - 1"
  obtain x y where xy: "py_index (liquidity p) (int i) = Inr x" "py_index (liquidity p) (1 - int i) = Inr y"
    "20 * a \<le> x" "r = y * a * 10000 div ((x - a) * (10000 - pool_fee p)) + 1"
    using v2_swap_result [OF r] by blast
  have "0 \<le> y" using g py_index_mem [OF xy(2)] by (simp add: good_v2_pool_def)
  then have "0 \<le> y * a * 10000 div ((x - a) * (10000 - pool_fee p))"
    using a xy(3) g by (intro pos_imp_zdiv_nonneg_iff [THEN iffD2]) (auto simp: good_v2_pool_def)
  with xy(4) show "0 < r" by simp
qed


text \<open>(C8) The route search looks at every route through distinct intermediate tokens. It reports -1 exactly
  when no route can be quoted, and otherwise the steps of a route whose input no other route undercuts.\<close>

theorem cheapest_route:
  assumes "distinct g" "find_routs g r out pools swap = (f, p)"
  defines "R \<equiv> {[token_out r] @ ys @ [token_in r] | ys. distinct ys \<and> set ys \<subseteq> set g}"
  shows "(f = - 1 \<longleftrightarrow> (\<forall>path \<in> R. quotes swap pools out path = - 1)) \<and> (f = - 1 \<longrightarrow> p = []) \<and>
    (f \<noteq> - 1 \<longrightarrow> (\<exists>path \<in> R. walk_path swap pools path out [] = (f, p)) \<and>
      (\<forall>path \<in> R. quotes swap pools out path = - 1 \<or> f \<le> quotes swap pools out path))"
proof -
  have R: "set (all_routes g (token_in r) (token_out r)) = R"
    unfolding R_def by (rule set_all_routes [OF assms(1)])
  from find_routs_best [OF assms(2), unfolded R] show ?thesis
    by (auto simp: quotes_def)
qed

text \<open>For addresses of equal length, two pairs of tokens have the same pool key exactly when they
  are the same pair, in either order.\<close>

theorem pool_key_unordered:
  assumes "length a = n" "length b = n" "length c = n" "length d = n" "a \<noteq> b"
  shows "fst (gen_pool_key a b) = fst (gen_pool_key c d) \<longleftrightarrow> {a, b} = {c, d}"
  using gen_pool_key_inj [OF assms(1-4)] gen_pool_key_sym [OF assms(5)] by (auto simp: doubleton_eq_iff)

end
