(* ===== verification/Bots.thy ===== *)
theory Bots
  imports Router
begin

text \<open>
  \<open>bots.py\<close>: the call data of the liquidation contract, written as hexadecimal text. It is the
  selector followed by words of 64 digits: borrower, the two markets, the offset, the number of
  steps, and six words per step, the last step of the route first.
\<close>

definition addr_word :: "string \<Rightarrow> string" where
  "addr_word a = zfill (drop 2 (lower a)) 64"

definition hex_word :: "int \<Rightarrow> string" where
  "hex_word i = zfill (drop 2 (py_hex i)) 64"

definition step_words :: "path_step \<Rightarrow> string" where
  "step_words p = addr_word (ps_pool_addr p) @ hex_word (ps_fee p) @ zfill (py_str (int (is_zero_for_one p))) 64 @
     addr_word (ps_token0 p) @ addr_word (ps_token1 p) @ hex_word (ps_amount_out p)"

definition bot_gen :: "string \<Rightarrow> string \<Rightarrow> string \<Rightarrow> path_step list \<Rightarrow> string" where
  "bot_gen borrower debt_ctoken col_ctoken ps =
     ''0x5cf671a6'' @ addr_word borrower @ addr_word debt_ctoken @ addr_word col_ctoken @
     zfill (drop 2 ''0x80'') 64 @ hex_word (int (length ps)) @
     concat (map (\<lambda>i. step_words (ps ! i)) (rev [0..<length ps]))"

section \<open>The words\<close>

fun word64 :: "nat \<Rightarrow> string \<Rightarrow> string list" where
  \<comment> \<open>the first \<open>n\<close> words of a text\<close>
  "word64 0 s = []"
| "word64 (Suc n) s = take 64 s # word64 n (drop 64 s)"

lemma word64_append: "\<forall>w \<in> set wds. length w = 64 \<Longrightarrow> word64 (length wds) (concat wds @ s) = wds"
  by (induction wds) auto

definition address_ok :: "string \<Rightarrow> bool" where
  "address_ok a \<longleftrightarrow> length a = 42"

lemma length_addr_word: "address_ok a \<Longrightarrow> length (addr_word a) = 64"
  by (simp add: addr_word_def length_zfill address_ok_def)

lemma length_hex_word:
  assumes "0 \<le> i" "i < 2 ^ 256"
  shows "length (hex_word i) = 64"
proof -
  have "nat i < 16 ^ 64" using assms by (simp add: nat_less_iff)
  then have "length (digits 16 (nat i)) \<le> 64" by (intro length_digits_le) auto
  then show ?thesis using assms(1) by (simp add: hex_word_def py_hex_def length_zfill)
qed

lemma digit_char_0: "digit_char 0 = CHR ''0''"
  by code_simp

lemma hex_word_value:
  assumes "0 \<le> i"
  shows "py_int 16 (hex_word i) = Inr i"
proof -
  let ?ds = "digits 16 (nat i)"
  obtain d where d: "d < 16" "hd ?ds = digit_char d" using digits_hd [of 16 "nat i"] by auto
  have z: "hex_word i = replicate (64 - length ?ds) CHR ''0'' @ ?ds"
    using assms zfill_unsigned [of ?ds 64] d digit_char_plain [OF d(1)]
    by (simp add: hex_word_def py_hex_def rjust0_def)
  define k where "k = 64 - length ?ds"
  define t where "t = replicate k CHR ''0'' @ ?ds"
  have t: "t \<noteq> []" "t = hex_word i" by (simp_all add: t_def z k_def)
  have plain: "\<exists>e < 16. c = digit_char e" if "c \<in> set t" for c
    using that digits_plain [of 16 c "nat i"]
    by (auto simp: t_def simp flip: digit_char_0 intro: exI [of _ "0::nat"])
  obtain e1 where e1: "e1 < 16" "hd t = digit_char e1" using plain t(1) by (metis hd_in_set)
  obtain e2 where e2: "e2 < 16" "last t = digit_char e2" using plain t(1) by (metis last_in_set)
  have s: "strip t = t"
    using t(1) e1 e2 digit_char_not_ws by (intro strip_plain) auto
  have "scan_nat 16 t = Some (nat i)"
  proof (cases "length t \<ge> 2")
    case True
    then have "t ! 1 \<in> set t" by simp
    then have "t ! 1 \<noteq> CHR ''x''" "t ! 1 \<noteq> CHR ''X''" using plain digit_char_plain by metis+
    then show ?thesis by (simp add: scan_nat_def t_def scan_zeros_digits)
  qed (simp add: scan_nat_def t_def scan_zeros_digits)
  moreover obtain c cs where "t = c # cs" "c = digit_char e1" using t(1) e1 by (cases t) auto
  ultimately have "py_int 16 t = Inr (int (nat i))"
    using s digit_char_plain [OF e1(1)] by (simp add: py_int_def)
  then show ?thesis using t(2) assms by simp
qed

definition flag_word :: "nat \<Rightarrow> string" where
  "flag_word b = zfill (py_str (int b)) 64"

lemma length_flag_word: "b \<le> 1 \<Longrightarrow> length (flag_word b) = 64"
  by (cases b) (simp_all add: flag_word_def length_zfill py_str_def digits.simps)

definition step_ok :: "path_step \<Rightarrow> bool" where
  "step_ok p \<longleftrightarrow> address_ok (ps_pool_addr p) \<and> 0 \<le> ps_fee p \<and> ps_fee p < 2 ^ 256 \<and> is_zero_for_one p \<le> 1 \<and>
     address_ok (ps_token0 p) \<and> address_ok (ps_token1 p) \<and> 0 \<le> ps_amount_out p \<and> ps_amount_out p < 2 ^ 256"

definition step_word_list :: "path_step \<Rightarrow> string list" where
  "step_word_list p = [addr_word (ps_pool_addr p), hex_word (ps_fee p), flag_word (is_zero_for_one p),
     addr_word (ps_token0 p), addr_word (ps_token1 p), hex_word (ps_amount_out p)]"

lemma step_words_concat: "step_words p = concat (step_word_list p)"
  by (simp add: step_words_def step_word_list_def flag_word_def)

lemma step_word_lengths: "step_ok p \<Longrightarrow> w \<in> set (step_word_list p) \<Longrightarrow> length w = 64"
  by (auto simp: step_word_list_def step_ok_def length_addr_word length_hex_word length_flag_word)

lemma steps_rev: "concat (map (\<lambda>i. f (ps ! i)) (rev [0..<length ps])) = concat (map f (rev ps))"
  by (metis (no_types, lifting) map_map map_nth rev_map comp_def map_eq_conv)

lemma concat_map_concat: "concat (map (\<lambda>x. concat (f x)) xs) = concat (concat (map f xs))"
  by (induction xs) auto

lemma bot_gen_words:
  assumes "address_ok u" "address_ok d" "address_ok c" "\<forall>p \<in> set ps. step_ok p" "length ps < 2 ^ 256"
  shows "take 10 (bot_gen u d c ps) = ''0x5cf671a6''"
    and "word64 (5 + 6 * length ps) (drop 10 (bot_gen u d c ps)) =
      [addr_word u, addr_word d, addr_word c, hex_word 128, hex_word (int (length ps))] @
      concat (map step_word_list (rev ps))"
    and "length (bot_gen u d c ps) = 10 + 64 * (5 + 6 * length ps)"
proof -
  let ?wds = "[addr_word u, addr_word d, addr_word c, hex_word 128, hex_word (int (length ps))] @
      concat (map step_word_list (rev ps))"
  have off: "zfill (drop 2 ''0x80'') 64 = hex_word 128"
    by code_simp
  have g: "bot_gen u d c ps = ''0x5cf671a6'' @ concat ?wds"
    unfolding bot_gen_def steps_rev off step_words_concat
    by (simp add: concat_map_concat steps_rev)
  have lps: "(int (length ps)) < 2 ^ 256" using assms(5) by (metis of_nat_less_iff of_nat_numeral of_nat_power)
  have l: "\<forall>w \<in> set ?wds. length w = 64"
    using assms step_word_lengths lps by (auto simp: length_addr_word length_hex_word)
  have n: "length ?wds = 5 + 6 * length ps"
    by (simp add: length_concat comp_def step_word_list_def sum_list_triv)
  show "take 10 (bot_gen u d c ps) = ''0x5cf671a6''" by (simp add: g)
  show "word64 (5 + 6 * length ps) (drop 10 (bot_gen u d c ps)) = ?wds"
    using word64_append [OF l, of "[]"] unfolding n g by simp
  have "length (concat wds) = 64 * length wds" if "\<forall>w \<in> set wds. length w = 64" for wds :: "string list"
    using that by (induction wds) auto
  from this [OF l] show "length (bot_gen u d c ps) = 10 + 64 * (5 + 6 * length ps)"
    unfolding n g by simp
qed

section \<open>The call data are bytes\<close>

definition hex_char :: "char \<Rightarrow> bool" where
  "hex_char c \<longleftrightarrow> char_digit c \<noteq> None \<and> \<not> ws c"

lemma fromhex_total: "list_all hex_char s \<Longrightarrow> even (length s) \<Longrightarrow> \<exists>b. fromhex s = Inr b"
  by (induction s rule: fromhex.induct) (auto simp: hex_char_def)

lemma hex_zfill:
  assumes "list_all hex_char s"
  shows "list_all hex_char (zfill s w)"
proof -
  have "hex_char CHR ''0''" by code_simp
  moreover have "\<not> hex_char CHR ''-''" "\<not> hex_char CHR ''+''" by code_simp+
  ultimately show ?thesis using assms by (cases s) (auto simp: zfill_def list_all_iff)
qed

lemma hex_digit_char: "d < 16 \<Longrightarrow> hex_char (digit_char d)"
  using digit_char_not_ws by (simp add: hex_char_def)

lemma hex_digits: "2 \<le> b \<Longrightarrow> b \<le> 16 \<Longrightarrow> list_all hex_char (digits b n)"
  by (auto simp: list_all_iff dest!: digits_plain hex_digit_char)

lemma bot_gen_decodes:
  assumes "list_all hex_char (drop 2 (lower u))" "list_all hex_char (drop 2 (lower d))" "list_all hex_char (drop 2 (lower c))"
    and "\<forall>p \<in> set ps. list_all hex_char (drop 2 (lower (ps_pool_addr p))) \<and> list_all hex_char (drop 2 (lower (ps_token0 p))) \<and>
      list_all hex_char (drop 2 (lower (ps_token1 p))) \<and> 0 \<le> ps_fee p \<and> 0 \<le> ps_amount_out p"
    and "even (length (bot_gen u d c ps))"
  shows "\<exists>b. fromhex (drop 2 (bot_gen u d c ps)) = Inr b"
proof -
  have a: "list_all hex_char (addr_word x)" if "list_all hex_char (drop 2 (lower x))" for x
    using hex_zfill [OF that] by (simp add: addr_word_def)
  have h: "list_all hex_char (hex_word i)" if "0 \<le> i" for i
    using hex_zfill [OF hex_digits [of 16 "nat i"]] that by (simp add: hex_word_def py_hex_def)
  have z: "list_all hex_char (zfill (py_str (int n)) 64)" for n
    using hex_zfill [OF hex_digits [of 10 n]] by (simp add: py_str_def)
  have "list_all hex_char (step_words p)" if "p \<in> set ps" for p
    using assms(4) that by (simp add: step_words_def a h z)
  then have s: "list_all hex_char (concat (map (\<lambda>i. step_words (ps ! i)) (rev [0..<length ps])))"
    by (auto simp: list_all_iff) (meson nth_mem)
  have "list_all hex_char (drop 2 (bot_gen u d c ps))"
  proof -
    have "list_all hex_char (drop 2 ''0x5cf671a6'')" "list_all hex_char (drop 2 ''0x80'')" by code_simp+
    then show ?thesis using s assms(1-3) hex_zfill [of "drop 2 ''0x80''" 64] by (simp add: bot_gen_def a h)
  qed
  moreover have "even (length (drop 2 (bot_gen u d c ps)))" using assms(5) by simp
  ultimately show ?thesis using fromhex_total by blast
qed


end
