(* ===== verification/Sending.thy ===== *)
theory Sending
  imports Bots
begin

text \<open>
  \<open>transaction/types.py\<close>, \<open>transaction/send.py\<close>, \<open>transaction/account.py\<close> and the signing part of
  \<open>tx.py\<close>: transactions, the choice of the gas price, the accounts' nonces, and the senders. The
  signature is a parameter \<open>sign address tx\<close>; a sender's effect is what it hands to the network or
  to its callback. Profits, prices and gas prices are floats where the code computes floats.
\<close>

section \<open>Transactions\<close>

record tx_params =
  t_value :: int
  t_gas :: int
  t_gasPrice :: "int option"
  t_maxFeePerGas :: "int option"
  t_maxPriorityFeePerGas :: "int option"
  t_chainId :: "int option"
  t_type :: "int option"
  t_to :: "string option"
  t_data :: "bytes option"
  t_nonce :: "int option"

definition create_type2_tx :: "pyfloat \<Rightarrow> int \<Rightarrow> pyfloat \<Rightarrow> tx_params \<times> int" where
  "create_type2_tx gas_fee basefee mev =
     (let fee = fl_trunc (fadd mev (fl_int (basefee * 2))) in
      (\<lparr>t_value = 0, t_gas = 22000, t_gasPrice = None, t_maxFeePerGas = Some fee,
        t_maxPriorityFeePerGas = Some (fl_trunc mev), t_chainId = Some CHAIN_ID, t_type = Some 2,
        t_to = None, t_data = None, t_nonce = None\<rparr>, fee))"

definition create_type0_tx :: "pyfloat \<Rightarrow> int \<Rightarrow> pyfloat \<Rightarrow> tx_params \<times> int" where
  "create_type0_tx gas_fee basefee mev =
     (let fee = fl_trunc gas_fee in
      (\<lparr>t_value = 0, t_gas = 22000, t_gasPrice = Some fee, t_maxFeePerGas = None,
        t_maxPriorityFeePerGas = None, t_chainId = None, t_type = None,
        t_to = None, t_data = None, t_nonce = None\<rparr>, fee))"

record send_type =
  gas_limit :: int
  estimate_gas :: int
  mev_ratio :: pyfloat
  st_aggr :: string
  map_sig :: "pyfloat \<Rightarrow> int \<Rightarrow> pyfloat \<Rightarrow> tx_params \<times> int"
  map_net :: "pyfloat \<Rightarrow> int \<Rightarrow> pyfloat \<Rightarrow> tx_params \<times> int"
  price_token :: "string option"
  st_price_decimals :: nat

definition SendType :: "int \<Rightarrow> int \<Rightarrow> pyfloat \<Rightarrow> string \<Rightarrow> (pyfloat \<Rightarrow> int \<Rightarrow> pyfloat \<Rightarrow> tx_params \<times> int) \<Rightarrow>
    (pyfloat \<Rightarrow> int \<Rightarrow> pyfloat \<Rightarrow> tx_params \<times> int) \<Rightarrow> send_type" where
  "SendType limit est ratio aggregator send_sig send_net =
     \<lparr>gas_limit = limit, estimate_gas = est, mev_ratio = ratio, st_aggr = aggregator,
      map_sig = send_sig, map_net = send_net, price_token = None, st_price_decimals = 0\<rparr>"

definition init_send_type :: "string \<Rightarrow> send_type option" where
  "init_send_type net =
     (if net = ''Polygon'' then Some (SendType 1200000 500000 0 '''' create_type0_tx create_type2_tx)
      else if net = ''BSC'' then Some (SendType 3000000 1500000 0
        ''0x137924D7C36816E0DcAF016eB617Cc2C92C05782'' create_type0_tx create_type0_tx)
      else if net = ''Ethereum'' then Some (SendType 3000000 1500000 (rnd (8/10)) '''' create_type2_tx create_type2_tx)
      else None)"

text \<open>\<open>sig_gas\<close> is the gas price of the signal, when there is one.\<close>

definition create_liq_transaction :: "send_type \<Rightarrow> pyfloat \<Rightarrow> block_infos \<Rightarrow> int option \<Rightarrow> (tx_params \<times> int) res" where
  "create_liq_transaction st revenue b sig_gas =
     bindR (fdiv revenue (fl_int (estimate_gas st))) (\<lambda>q.
       let mev = fmul (mev_ratio st) (fsub (fmul q (fl_int (10 ^ 18))) (fl_int (base_fee b)))
       in Inr (case sig_gas of
            Some g \<Rightarrow> map_sig st (of_int g) (base_fee b) mev
          | None \<Rightarrow> map_net st (of_int (bi_gas_price b)) (base_fee b) mev))"

section \<open>Accounts\<close>

record acc_compound =
  acc_address :: string
  acc_nonce :: int

type_synonym signer = "string \<Rightarrow> tx_params \<Rightarrow> bytes"

definition init_accounts :: "(string \<Rightarrow> int res) \<Rightarrow> string list \<Rightarrow> acc_compound list res" where
  "init_accounts get_transaction_count addresses =
     mapR (\<lambda>a. bindR (get_transaction_count a) (\<lambda>n. Inr \<lparr>acc_address = a, acc_nonce = n\<rparr>)) addresses"

record task =
  task_index :: string
  task_raw :: bytes
  task_profit :: pyfloat

fun sign_sending_tx_to_tasks ::
    "signer \<Rightarrow> string \<Rightarrow> tx_params \<Rightarrow> pyfloat \<Rightarrow> acc_compound list \<Rightarrow> task list \<times> acc_compound list" where
  "sign_sending_tx_to_tasks sign index tx profit [] = ([], [])"
| "sign_sending_tx_to_tasks sign index tx profit (acc # accs) =
     (let tx1 = tx\<lparr>t_nonce := Some (acc_nonce acc)\<rparr>;
          acc1 = acc\<lparr>acc_nonce := acc_nonce acc + 1\<rparr>;
          raw = sign (acc_address acc1) tx1;
          (rest, accs1) = sign_sending_tx_to_tasks sign index tx1 profit accs
      in (\<lparr>task_index = index, task_raw = raw, task_profit = profit\<rparr> # rest, acc1 # accs1))"

lemma sign_tasks_spec:
  "sign_sending_tx_to_tasks sign index tx profit accs =
   (map (\<lambda>acc. \<lparr>task_index = index, task_raw = sign (acc_address acc) (tx\<lparr>t_nonce := Some (acc_nonce acc)\<rparr>),
      task_profit = profit\<rparr>) accs,
    map (\<lambda>acc. acc\<lparr>acc_nonce := acc_nonce acc + 1\<rparr>) accs)"
  by (induction accs arbitrary: tx) (auto simp: Let_def)

text \<open>\<open>add_executor\<close> of \<open>tx.py\<close>.\<close>

definition add_executor :: "string \<Rightarrow> tx_params res" where
  "add_executor address =
     bindR (fromhex (drop 2 (''0x1f5a0bbe'' @ zfill (drop 2 (lower address)) 64))) (\<lambda>d.
       Inr \<lparr>t_value = 0, t_gas = 50000, t_gasPrice = Some 135000000000, t_maxFeePerGas = None,
        t_maxPriorityFeePerGas = None, t_chainId = Some CHAIN_ID, t_type = None,
        t_to = Some ''0x7E977e82e3eaf3DB7c3dfCCf727C66Bdf80d6Dee'', t_data = Some d, t_nonce = None\<rparr>)"

section \<open>Senders\<close>

record sender =
  snd_lock :: bool
  snd_counter :: int

definition Sender :: sender where
  "Sender = \<lparr>snd_lock = False, snd_counter = 0\<rparr>"

text \<open>\<open>WsSender.send_transactions\<close>: the raw transactions it hands to its tasks, in order.\<close>

definition Ws_send_transactions :: "sender \<Rightarrow> task list \<Rightarrow> bytes list" where
  "Ws_send_transactions s results =
     (if snd_lock s \<and> length results = 0 then [] else map task_raw results)"

record bnb48_sender = sender +
  b_acc :: acc_compound
  bnb_price :: pyfloat
  b_storage :: "(string, int) dict"
  b_balance :: int
  bnb_gas_price :: int

definition create_self_transfer :: "signer \<Rightarrow> pyfloat \<Rightarrow> (bnb48_sender, string) eff" where
  "create_self_transfer sign gas_fee =
     bindE (getE b_acc) (\<lambda>acc.
     thenE (modE (\<lambda>s. s\<lparr>b_acc := acc\<lparr>acc_nonce := acc_nonce acc + 1\<rparr>\<rparr>))
       (returnE (hexbytes_hex (sign (acc_address acc)
         ((fst (create_type0_tx gas_fee 0 0))\<lparr>t_to := Some (acc_address acc), t_nonce := Some (acc_nonce acc)\<rparr>)))))"

text \<open>
  \<open>BnB48Sender.x\<close>: \<open>tx_mev + txs\<close> adds a string and a list, so a bundle that is worth its gas
  raises \<open>TypeError\<close> after the nonce was used; a cheaper one is dropped.
\<close>

definition bundle_price :: "pyfloat \<Rightarrow> pyfloat \<Rightarrow> int \<Rightarrow> pyfloat res" where
  "bundle_price profits bp bal =
     bindR (fdiv (fmul (rnd (1/2)) profits) bp) (\<lambda>bnb_cost.
     bindR (int_truediv (bal * 22000) 21000) (\<lambda>min_balance.
       fdiv (if min_balance < bnb_cost then min_balance else bnb_cost) 21000))"

definition BnB48_x :: "signer \<Rightarrow> pyfloat \<Rightarrow> string list \<Rightarrow> int \<Rightarrow> (bnb48_sender, unit) eff" where
  "BnB48_x sign profits txs expire =
     bindE (getR (\<lambda>s. bundle_price profits (bnb_price s) (b_balance s))) (\<lambda>mev_gas_price.
     bindE (getE bnb_gas_price) (\<lambda>g.
     if mev_gas_price < of_int g then returnE ()
     else bindE (create_self_transfer sign mev_gas_price) (\<lambda>tx_mev. raiseE TypeError)))"

fun dedup_tasks :: "task list \<Rightarrow> string list \<Rightarrow> (pyfloat \<times> bytes) list" where
  "dedup_tasks [] seen = []"
| "dedup_tasks (t # ts) seen =
     (if task_index t \<in> set seen then dedup_tasks ts seen
      else (task_profit t, task_raw t) # dedup_tasks ts (task_index t # seen))"

definition BnB48_send_transactions ::
    "signer \<Rightarrow> task list \<Rightarrow> int \<Rightarrow> string res option \<Rightarrow> (bnb48_sender, unit) eff" where
  \<comment> \<open>\<open>raw\<close> is \<open>signal_recv['raw_tx']\<close> when a signal is given\<close>
  "BnB48_send_transactions sign results expire_raw raw =
     bindE (getE snd_lock) (\<lambda>locked.
     if locked \<and> length results = 0 then returnE ()
     else
       let sorted_txs_liq = sort_key_rev (\<lambda>x. x) (dedup_tasks results []);
           best = take 2 sorted_txs_liq;
           bump = modE (\<lambda>s. s\<lparr>b_acc := (b_acc s)\<lparr>acc_nonce := acc_nonce (b_acc s) + 1\<rparr>\<rparr>)
       in thenE (case raw of
            None \<Rightarrow> returnE ()
          | Some r \<Rightarrow> bindE (liftR r) (\<lambda>raw_tx.
              BnB48_x sign (fold (\<lambda>(p, _) acc. fadd acc p) best 0)
                (raw_tx # map (\<lambda>(_, b). hexbytes_hex b) best) (expire_raw + 6)))
         (thenE (forE (\<lambda>(p, b). thenE (BnB48_x sign p [hexbytes_hex b] (expire_raw + 60)) bump) best)
           bump))"

text \<open>\<open>update\<close> asks for the status of stored bundles with a method the class does not have.\<close>

definition BnB48_update ::
    "(string \<Rightarrow> int res) \<Rightarrow> (string \<Rightarrow> int res) \<Rightarrow> int \<Rightarrow> (bnb48_sender, unit) eff" where
  "BnB48_update get_transaction_count get_balance bnb_price_with_decimals =
     bindE (getE b_storage) (\<lambda>st.
     if st \<noteq> [] then raiseE AttributeError
     else bindE (getE (\<lambda>s. acc_address (b_acc s))) (\<lambda>a.
       bindE (liftR (get_transaction_count a)) (\<lambda>n.
       thenE (modE (\<lambda>s. s\<lparr>b_acc := (b_acc s)\<lparr>acc_nonce := n\<rparr>\<rparr>))
       (bindE (liftR (get_balance a)) (\<lambda>bal.
        thenE (modE (\<lambda>s. s\<lparr>b_balance := bal\<rparr>))
        (bindE (liftR (int_truediv bnb_price_with_decimals (10 ^ 18))) (\<lambda>p.
          modE (\<lambda>s. s\<lparr>bnb_price := p\<rparr>))))))))"

text \<open>\<open>FlashSender.send_transactions\<close>: one callback per result, with the simulation's verdict.\<close>

definition Flash_send_transactions ::
    "('raw list \<Rightarrow> string \<Rightarrow> unit res) \<Rightarrow> (bytes \<Rightarrow> 'raw) \<Rightarrow> sender \<Rightarrow> task list \<Rightarrow> int \<Rightarrow> 'raw option \<Rightarrow> (int \<times> string) list" where
  "Flash_send_transactions simulate wrap s results expire raw =
     (if snd_lock s \<and> length results = 0 then []
      else map (\<lambda>t. (case simulate ((case raw of None \<Rightarrow> [] | Some r \<Rightarrow> [r]) @ [wrap (task_raw t)]) (py_str expire) of
          Inl _ \<Rightarrow> - 1 | Inr _ \<Rightarrow> 0, task_index t)) results)"

text \<open>\<open>process_receipts\<close> of \<open>compound.py\<close>: failed receipts are counted; five of them set the lock.\<close>

definition process_receipt :: "string \<Rightarrow> ('a sender_scheme, unit) eff" where
  "process_receipt status =
     bindE (liftR (py_int 16 status)) (\<lambda>st.
     thenE (whenE (st = 0) (modE (\<lambda>s. s\<lparr>snd_counter := snd_counter s + 1\<rparr>)))
     (modE (\<lambda>s. if 5 \<le> snd_counter s then s\<lparr>snd_lock := True\<rparr> else s)))"

definition process_receipts :: "string list \<Rightarrow> ('a sender_scheme, unit) eff" where
  "process_receipts receipts = forE process_receipt receipts"

section \<open>Properties of the senders\<close>

lemma dedup_in: "(p, b) \<in> set (dedup_tasks ts seen) \<Longrightarrow> \<exists>t \<in> set ts. task_index t \<notin> set seen \<and> p = task_profit t \<and> b = task_raw t"
  by (induction ts arbitrary: seen) (fastforce split: if_splits)+

text \<open>Of the tasks of a round, the bundle sender keeps exactly one for each identifier.\<close>

lemma dedup_length: "length (dedup_tasks ts seen) = card (task_index ` set ts - set seen)"
proof (induction ts arbitrary: seen)
  case (Cons t ts)
  show ?case
  proof (cases "task_index t \<in> set seen")
    case True
    then have "task_index ` set (t # ts) - set seen = task_index ` set ts - set seen" by auto
    with True Cons show ?thesis by simp
  next
    case False
    have e: "task_index ` set (t # ts) - set seen = insert (task_index t) (task_index ` set ts - set (task_index t # seen))"
      using False by auto
    show ?thesis unfolding e using False Cons by simp
  qed
qed simp

lemma lock_keeps_result_sending: "results \<noteq> [] \<Longrightarrow> Ws_send_transactions s results = map task_raw results"
  by (simp add: Ws_send_transactions_def)

definition failures :: "string list \<Rightarrow> nat" where
  "failures rs = length (filter (\<lambda>r. py_int 16 r = Inr 0) rs)"

text \<open>Processing receipts counts the failed ones, and sets the lock once five have failed.\<close>

lemma process_receipts_run:
  assumes "\<forall>r \<in> set rs. \<exists>n. py_int 16 r = Inr n"
  shows "process_receipts rs s = (Inr (), s\<lparr>snd_counter := snd_counter s + int (failures rs),
     snd_lock := (snd_lock s \<or> rs \<noteq> [] \<and> 5 \<le> snd_counter s + int (failures rs))\<rparr>)"
  using assms
proof (induction rs arbitrary: s)
  case Nil
  then show ?case by (simp add: process_receipts_def py_simps failures_def)
next
  case (Cons r rs)
  obtain n where n: "py_int 16 r = Inr n" using Cons.prems by auto
  define s1 where "s1 = snd (process_receipt r s)"
  have r1: "process_receipt r s = (Inr (), s1)"
    using n by (simp add: process_receipt_def py_simps s1_def)
  have s1: "s1 = s\<lparr>snd_counter := snd_counter s + (if n = 0 then 1 else 0),
      snd_lock := (snd_lock s \<or> 5 \<le> snd_counter s + (if n = 0 then 1 else 0))\<rparr>"
    using n by (cases s) (simp add: s1_def process_receipt_def py_simps)
  have "process_receipts rs s1 = (Inr (), s1\<lparr>snd_counter := snd_counter s1 + int (failures rs),
     snd_lock := (snd_lock s1 \<or> rs \<noteq> [] \<and> 5 \<le> snd_counter s1 + int (failures rs))\<rparr>)"
    using Cons by simp
  moreover have "process_receipts (r # rs) s = process_receipts rs s1"
    using r1 by (simp add: process_receipts_def py_simps)
  moreover have "failures (r # rs) = (if n = 0 then Suc (failures rs) else failures rs)"
    using n by (simp add: failures_def)
  moreover have "rs = [] \<Longrightarrow> failures rs = 0" by (simp add: failures_def)
  ultimately show ?case using s1 by (cases s; cases "rs = []") auto
qed

lemma bundle_price_bound:
  assumes "bundle_price profits bp bal = Inr g"
  shows "g \<le> rnd (rnd (of_int (bal * 22000) / 21000) / 21000)"
proof -
  obtain c m where m: "int_truediv (bal * 22000) 21000 = Inr m" and g: "fdiv (if m < c then m else c) 21000 = Inr g"
    using assms unfolding bundle_price_def bindR_Inr_iff by blast
  have "g = rnd ((if m < c then m else c) / 21000)" using g unfolding fdiv_Inr_iff by blast
  also have "\<dots> \<le> rnd (m / 21000)" by (intro rnd_mono divide_right_mono) simp_all
  finally show ?thesis using m unfolding int_truediv_Inr_iff by simp
qed

end
