(* ===== verification/Listening.thy ===== *)
theory Listening
  imports Sending
begin

text \<open>
  \<open>liquidations.py\<close>: the record of a liquidation seen on the chain; \<open>utils.py\<close>: the
  re-subscription loops, the pool that replaces multiprocessing, and the storage index of a
  mapping entry. The node, the clock and the hash are parameters; a subscription attempt is
  represented by how it ended.
\<close>

section \<open>Liquidations on the chain\<close>

definition LIQ_EVENT_ABI :: "(string, event_abi) dict" where
  "LIQ_EVENT_ABI = [(''0x298637f684da70674f26509b10f07ec2fbc77a335ab1e7d6215a4b2484d8bb52'',
     \<lparr>ev_name = ''LiquidateBorrow'', ev_index_topic = [],
      ev_data = [''address'', ''address'', ''uint256'', ''address'', ''uint256'']\<rparr>)]"

definition gen_liquidation_filter :: "string list \<Rightarrow> log_filter" where
  "gen_liquidation_filter rs = \<lparr>f_address = rs,
     f_topics = [[''0x298637f684da70674f26509b10f07ec2fbc77a335ab1e7d6215a4b2484d8bb52'']]\<rparr>"

record chain_tx =
  ct_hash :: bytes
  ct_from :: string
  ct_to :: string

text \<open>\<open>query_recpt_infos\<close> and \<open>query_tx_origin\<close>: a failing query gives the default.\<close>

definition query_recpt_infos :: "(string \<Rightarrow> (int \<times> int) res) \<Rightarrow> string \<Rightarrow> int \<times> int" where
  "query_recpt_infos get_receipt h = (case get_receipt h of Inl _ \<Rightarrow> (0, 0) | Inr r \<Rightarrow> r)"

definition query_tx_origin :: "(string \<Rightarrow> chain_tx res) \<Rightarrow> string \<Rightarrow> string" where
  "query_tx_origin get_transaction h =
     (case get_transaction h of Inl _ \<Rightarrow> ADDRESS_ZERO | Inr tx \<Rightarrow> ct_from tx)"

text \<open>What \<open>LiquidationCall.update\<close> reports: the short form when the transaction is unknown.\<close>

datatype liq_report =
    ShortReport (lr_user: string) (lr_debt: int) (lr_collateral: string) (lr_revenue: int)
  | FullReport (lr_user: string) (lr_debt: int) (lr_collateral: string) (lr_revenue: int)
      (lr_executor: string) (lr_liquidator: string) (lr_gas_cost: pyfloat) (lr_profit: pyfloat)

record liq_env =
  le_block_time :: "int \<Rightarrow> int res"
  le_reserves_value :: "string \<Rightarrow> int \<Rightarrow> bool \<Rightarrow> int res"
  le_tx_by_block :: "int \<Rightarrow> int \<Rightarrow> chain_tx res"
  le_receipt :: "string \<Rightarrow> (int \<times> int) res"

definition liq_full_report ::
    "liq_env \<Rightarrow> chain_tx \<Rightarrow> string \<Rightarrow> string \<Rightarrow> int \<Rightarrow> string \<Rightarrow> int \<Rightarrow> int \<Rightarrow> liq_report res" where
  "liq_full_report env tx liquidator user debt_to_cover collateral_asset collateral_value debt_value =
     (let lq = (if liquidator = ''0x0870793286aada55d39ce7f82fb2766e8004cf43'' then ct_to tx else liquidator);
          (gas_used, gas_price) = query_recpt_infos (le_receipt env) (hexbytes_hex (ct_hash tx))
      in bindR (int_truediv (gas_price * gas_used) (10 ^ 18)) (\<lambda>gas_cost_native.
           Inr (FullReport user debt_to_cover collateral_asset (collateral_value - debt_value)
             (ct_from tx) lq gas_cost_native
             (fsub (fsub (fl_int (collateral_value - debt_value)) gas_cost_native) 0))))"

definition LiquidationCall_update :: "abi_decoder \<Rightarrow> liq_env \<Rightarrow> log_receipt \<Rightarrow> liq_report option res" where
  "LiquidationCall_update abi_decode env lg =
     (if lg_removed lg then Inr None
      else bindR (topic0 lg) (\<lambda>topic.
        case dget LIQ_EVENT_ABI topic of
          None \<Rightarrow> Inr None
        | Some obj \<Rightarrow>
            bindR (decode_data abi_decode obj lg (Raised ''liquidation parsing failed'')) (\<lambda>args.
            bindR (arg_addr args 0) (\<lambda>liquidator. bindR (arg_addr args 1) (\<lambda>user.
            bindR (arg_addr args 3) (\<lambda>collateral_asset. bindR (arg_int args 2) (\<lambda>debt_to_cover.
            bindR (arg_int args 4) (\<lambda>amount.
            bindR (le_reserves_value env collateral_asset amount True) (\<lambda>collateral_value.
            bindR (le_reserves_value env (lg_address lg) debt_to_cover False) (\<lambda>debt_value.
            bindR (le_block_time env (lg_blockNumber lg)) (\<lambda>_.
              (case le_tx_by_block env (lg_blockNumber lg) (lg_transactionIndex lg) of
                 Inl _ \<Rightarrow> Inr (Some (ShortReport user debt_to_cover collateral_asset (collateral_value - debt_value)))
               | Inr tx \<Rightarrow> bindR (liq_full_report env tx liquidator user debt_to_cover collateral_asset
                     collateral_value debt_value) (\<lambda>r. Inr (Some r))))))))))))))"

text \<open>\<open>trace_call_parsing\<close>: the value moved by inner calls and by the transaction itself.\<close>

record trace_call =
  tc_type :: string
  tc_value :: string

definition trace_value :: "string \<Rightarrow> pyfloat res" where
  "trace_value s = bindR (py_int 16 s) (\<lambda>v. int_truediv v (10 ^ 18))"

definition trace_step :: "trace_call \<Rightarrow> (string, pyfloat) dict \<times> pyfloat \<Rightarrow> ((string, pyfloat) dict \<times> pyfloat) res" where
  "trace_step call st = (case st of (mev_dict, total1) \<Rightarrow>
     if tc_type call = ''CALL'' then
       bindR (trace_value (tc_value call)) (\<lambda>v.
         if v \<noteq> 0 then Inr (dput ''inner_tx'' (fadd total1 v) mev_dict, fadd total1 v) else Inr (mev_dict, total1))
     else Inr (mev_dict, total1))"

text \<open>The function logs through a name that only the script defines, so it raises at its end.\<close>

definition trace_call_parsing :: "bool \<Rightarrow> (trace_call list \<times> string) option \<Rightarrow> ((string, pyfloat) dict \<times> pyfloat) res" where
  "trace_call_parsing logger_bound res1 = (case res1 of
     None \<Rightarrow> Inr ([], 0)
   | Some (calls, top_value) \<Rightarrow>
       bindR (foldR trace_step calls ([], 0)) (\<lambda>(mev_dict, total1).
       bindR (trace_value top_value) (\<lambda>v.
       bindR (guardR logger_bound NameError) (\<lambda>_.
         if v \<noteq> 0 then Inr (dput ''transfer'' v mev_dict, fadd total1 v) else Inr (mev_dict, total1)))))"

section \<open>Subscriptions\<close>

datatype attempt = Returned | Failed "bool"  \<comment> \<open>the flag: the message contains 1006\<close>

definition counted :: "attempt \<Rightarrow> bool" where
  "counted a = (case a of Returned \<Rightarrow> False | Failed is1006 \<Rightarrow> \<not> is1006)"

text \<open>
  The number of attempts made when the loop raises. Failures with code 1006 are retried without
  limit, so the loop may run forever.
\<close>

partial_function (option) subscribe_full :: "(nat \<Rightarrow> attempt) \<Rightarrow> nat \<Rightarrow> nat \<Rightarrow> nat option" where
  "subscribe_full attempts i counter =
     (if 3 \<le> counter then Some i
      else subscribe_full attempts (Suc i) (if counted (attempts i) then Suc counter else counter))"

function subscribe_event_light :: "(nat \<Rightarrow> attempt) \<Rightarrow> nat \<Rightarrow> nat \<Rightarrow> nat" where
  "subscribe_event_light attempts i counter =
     (let counter1 = counter + 1 in
      if 6 \<le> counter1 then i else subscribe_event_light attempts (Suc i) counter1)"
  by pat_completeness auto
termination
  by (relation "measure (\<lambda>(_, _, c). 6 - c)") auto

declare subscribe_event_light.simps [simp del]

lemma subscribe_event_light_five: "subscribe_event_light attempts 0 0 = 5"
  by (simp add: subscribe_event_light.simps)

definition failures_before :: "(nat \<Rightarrow> attempt) \<Rightarrow> nat \<Rightarrow> nat" where
  "failures_before attempts n = length (filter (\<lambda>i. counted (attempts i)) [0..<n])"

lemma failures_before_Suc:
  "failures_before attempts (Suc n) = failures_before attempts n + (if counted (attempts n) then 1 else 0)"
  by (simp add: failures_before_def)

lemma subscribe_full_returns:
  assumes "failures_before attempts i = c" "i \<le> n" "failures_before attempts n = 3"
    and "\<forall>m < n. failures_before attempts m < 3"
  shows "subscribe_full attempts i c = Some n"
  using assms
proof (induction "n - i" arbitrary: i c)
  case 0
  then show ?case by (simp add: subscribe_full.simps)
next
  case (Suc k)
  then have i: "i < n" by simp
  then have "c < 3" using Suc.prems by auto
  then show ?case
    using Suc i by (subst subscribe_full.simps) (auto simp: failures_before_Suc)
qed

lemma subscribe_full_raises_only_after_three:
  assumes "subscribe_full attempts i c = Some n" "failures_before attempts i = c" "c \<le> 3"
  shows "failures_before attempts n = 3"
proof -
  have "\<forall>i c n. subscribe_full attempts i c = Some n \<longrightarrow> failures_before attempts i = c \<longrightarrow> c \<le> 3 \<longrightarrow>
      failures_before attempts n = 3"
  proof (rule allI, rule allI, rule allI, rule impI)
    fix i c n assume "subscribe_full attempts i c = Some n"
    then show "failures_before attempts i = c \<longrightarrow> c \<le> 3 \<longrightarrow> failures_before attempts n = 3"
      by (rule subscribe_full.raw_induct [rotated]) (auto simp: failures_before_Suc split: if_splits)
  qed
  with assms show ?thesis by blast
qed

text \<open>The messages of one connection: each is handed to the callback, in order.\<close>

definition subscribe_to_node :: "('m \<Rightarrow> ('s, unit) eff) \<Rightarrow> 'm list \<Rightarrow> ('s, unit) eff" where
  "subscribe_to_node callback messages =
     thenE (forE callback messages) (raiseE (Raised ''get response from node failed''))"

section \<open>The pool without processes\<close>

text \<open>\<open>FakePool.apply_async\<close> runs the function at once and returns a queue that holds its result.\<close>

definition FakePool_apply_async :: "('a \<Rightarrow> 'b res) \<Rightarrow> 'a \<Rightarrow> 'b list res" where
  "FakePool_apply_async f args = bindR (f args) (\<lambda>r. Inr [r])"

definition queue_get :: "'b list \<Rightarrow> 'b res" where
  "queue_get q = (case q of [] \<Rightarrow> Inl (Raised ''Empty'') | x # _ \<Rightarrow> Inr x)"

section \<open>Storage of a mapping\<close>

datatype slot_key = KInt int | KStr string | KBytes bytes

definition key_hex :: "slot_key \<Rightarrow> string" where
  "key_hex k = rjust0 (drop 2 (case k of KInt i \<Rightarrow> py_hex i | KStr s \<Rightarrow> s | KBytes b \<Rightarrow> hexbytes_hex b)) 64"

definition calculate_mapping_index :: "(bytes \<Rightarrow> bytes) \<Rightarrow> slot_key \<Rightarrow> slot_key \<Rightarrow> bytes res" where
  \<comment> \<open>\<open>keccak\<close> is web3's hash; a slot given as text is not handled by the code\<close>
  "calculate_mapping_index keccak key slot = (case slot of
     KStr _ \<Rightarrow> Inl UnboundLocalError
   | _ \<Rightarrow> bindR (fromhex (key_hex key @ key_hex slot)) (\<lambda>b. Inr (keccak b)))"

lemma mapping_index_bytes:
  assumes "length k = 32" "length s = 32"
  shows "calculate_mapping_index keccak (KBytes k) (KBytes s) = Inr (keccak (k @ s))"
proof -
  have "key_hex (KBytes b) = hex_bytes b" if "length b = 32" for b
    using that by (simp add: key_hex_def hexbytes_hex_def rjust0_def length_hex_bytes)
  then have "key_hex (KBytes k) @ key_hex (KBytes s) = hex_bytes (k @ s)" using assms by simp
  then show ?thesis
    unfolding calculate_mapping_index_def by (simp del: hex_bytes_simps)
qed

text \<open>The subscription loop raises at exactly the attempt that follows the third failure without
  code 1006; with fewer such failures it never ends.\<close>

theorem subscribe_full_exact:
  "subscribe_full attempts 0 0 = Some n \<longleftrightarrow>
     failures_before attempts n = 3 \<and> (\<forall>m < n. failures_before attempts m < 3)"
proof
  have z: "failures_before attempts 0 = 0" by (simp add: failures_before_def)
  show "subscribe_full attempts 0 0 = Some n"
    if "failures_before attempts n = 3 \<and> (\<forall>m < n. failures_before attempts m < 3)"
    using subscribe_full_returns [OF z] that by simp
  assume s: "subscribe_full attempts 0 0 = Some n"
  have three: "failures_before attempts n = 3" using subscribe_full_raises_only_after_three [OF s z] by simp
  define n1 where "n1 = (LEAST k. 3 \<le> failures_before attempts k)"
  have n1: "3 \<le> failures_before attempts n1" unfolding n1_def using three by (rule LeastI [OF eq_imp_le, OF sym])
  have below: "\<forall>m < n1. failures_before attempts m < 3" unfolding n1_def by (auto simp: not_le dest: not_less_Least)
  have "failures_before attempts n1 = 3"
  proof (cases n1)
    case (Suc k)
    then have "failures_before attempts k < 3" using below by simp
    then show ?thesis using n1 Suc by (simp add: failures_before_Suc split: if_splits)
  qed (use n1 z in simp)
  from subscribe_full_returns [OF z _ this below] s have "n = n1" by simp
  then show "failures_before attempts n = 3 \<and> (\<forall>m < n. failures_before attempts m < 3)" using three below by simp
qed

end
