(* ===== verification/Health.thy ===== *)
theory Health
  imports Listening
begin

text \<open>
  \<open>compound.py\<close>, the health factors: the loop over a user's positions, the lists of users a
  round of the bot works on, the recording of the results, and the two pools that spread the
  loop over processes. The float division is the correctly rounded quotient of two integers; an
  overflow of the float range is not modelled. \<open>now\<close> is \<open>int(time.time())\<close>, one reading per call.

  \<open>col_sum\<close> and \<open>debt_sum\<close> are the sums over the positions that the loop computes. The guard
  \<open>0 < hf < 1\<close> is related to them, the pools to the loop, and the trimmed lists to the health
  factors. The pools run on \<open>FakePool\<close>, which the script installs.
\<close>

section \<open>Health factors\<close>

definition DESIRED_PROFIT_SCALE :: int where
  "DESIRED_PROFIT_SCALE = 10 * EXP_SCALE"

definition HF_THRESHOLD :: int where
  "HF_THRESHOLD = 1"

definition TREASURY_PERCENT :: int where
  "TREASURY_PERCENT = 50000000000000000"

type_synonym hf_args = "string \<times> (string, comp_reserve) dict \<times> int"
type_synonym hf_result = "string \<times> health_factor \<times> (string, comp_reserve) dict"

definition gen_users_with_args :: "'a states_scheme \<Rightarrow> string list \<Rightarrow> hf_args list res" where
  "gen_users_with_args s users = mapR (\<lambda>usr.
     bindR (user_of s usr) (\<lambda>o1. Inr (usr, map (\<lambda>(a, q). (a, s_reserves s ! q)) (reserves o1), vai_repay o1))) users"

text \<open>One turn of the loop over a user's positions; \<open>continue\<close> leaves the debt as it is.\<close>

definition hf_step :: "ctokens \<Rightarrow> comet_configs \<Rightarrow> string \<times> comp_reserve \<Rightarrow> int \<times> int \<Rightarrow> (int \<times> int) res" where
  "hf_step ctk com kv acc = (case kv of (token_addr, reserve) \<Rightarrow> case acc of (sum_collateral, sum_borrow) \<Rightarrow>
     bindR (ctk_price_current ctk token_addr) (\<lambda>pr.
     bindR (dgetR (ctokens_collateral_factor com) token_addr) (\<lambda>collateral_factor.
     bindR (ctk_risks ctk token_addr) (\<lambda>rk.
       let sum_collateral1 = (if is_col_liq reserve \<noteq> 0 \<and> 0 < collateral_factor \<and> 0 < col_amount reserve
             then sum_collateral + collateral_factor * exchange_rate rk div EXP_SCALE * pr div EXP_SCALE
               * col_amount reserve div EXP_SCALE
             else sum_collateral)
       in if 0 < debt_amount reserve then
            if debt_interest reserve = 0 then Inr (sum_collateral1, sum_borrow)
            else let debt_balance = debt_amount reserve * borrow_index rk div debt_interest reserve
                 in Inr (sum_collateral1, sum_borrow + debt_balance * pr div EXP_SCALE)
          else Inr (sum_collateral1, sum_borrow)))))"

definition calculate_health_factor :: "int \<Rightarrow> hf_args \<Rightarrow> ctokens \<Rightarrow> comet_configs \<Rightarrow> hf_result res" where
  "calculate_health_factor now usr_with_args ctk com = (case usr_with_args of (usr, rs, repay) \<Rightarrow>
     bindR (foldR (hf_step ctk com) rs (0, 0)) (\<lambda>(sum_collateral, sum_borrow).
       let sum_borrow_plus_effects = sum_borrow + repay
       in if sum_borrow_plus_effects \<le> 0
          then Inr (usr, \<lparr>hf_value = 0, hf_debt_volume = sum_borrow_plus_effects, hf_last_update = now\<rparr>, rs)
          else bindR (int_truediv sum_collateral sum_borrow_plus_effects) (\<lambda>hf.
            Inr (usr, \<lparr>hf_value = hf, hf_debt_volume = sum_borrow_plus_effects, hf_last_update = now\<rparr>, rs))))"

definition signal_calculate_health_factor :: "int \<Rightarrow> hf_args list \<Rightarrow> ctokens \<Rightarrow> comet_configs \<Rightarrow> hf_result list res" where
  "signal_calculate_health_factor now targets ctk com = mapR (\<lambda>u. calculate_health_factor now u ctk com) targets"

text \<open>\<open>write_health_factor\<close>: the results replace the users' health factors.\<close>

definition write_health_factor :: "hf_result list \<Rightarrow> ('a states_scheme, unit) eff" where
  "write_health_factor results = forE (\<lambda>(usr, h, _). mod_user usr (\<lambda>o1. o1\<lparr>user_hf := h\<rparr>)) results"

text \<open>\<open>print_health_factor\<close>: the numbers it logs for a result.\<close>

definition print_health_factor :: "hf_result list \<Rightarrow> (string \<times> pyfloat \<times> pyfloat \<times> pyfloat) list" where
  "print_health_factor results = map (\<lambda>(usr, h, _).
     let sum_borrow = fl_int (hf_debt_volume h); sum_collateral = fmul sum_borrow (hf_value h)
     in if 1 < hf_value h then (usr, fsub sum_collateral sum_borrow, 0, sum_collateral)
        else (usr, 0, fsub sum_borrow sum_collateral, sum_collateral)) results"

section \<open>Running over many users\<close>

definition execution_select :: "('t list \<Rightarrow> 'r res) \<Rightarrow> 't list \<Rightarrow> 'r res" where
  \<comment> \<open>the branch of the process pool is disabled by \<open>if False and ...\<close>\<close>
  "execution_select map_func lst = map_func lst"

definition start_multi_process :: "('t list \<Rightarrow> 'r list res) \<Rightarrow> 't list \<Rightarrow> 'r list res" where
  "start_multi_process map_func targets =
     bindR (mapR (\<lambda>tar. FakePool_apply_async map_func [tar]) targets) (\<lambda>qs.
       foldR (\<lambda>q res1. bindR (queue_get q) (\<lambda>r. Inr (res1 @ r))) qs [])"

definition start_multi_process_old :: "('t list \<Rightarrow> 'r list res) \<Rightarrow> nat \<Rightarrow> 't list \<Rightarrow> 'r list res" where
  "start_multi_process_old map_func target_num targets =
     (if target_num = 0 then Inl ZeroDivisionError
      else let invl = length targets div target_num
      in bindR (mapR (\<lambda>i. FakePool_apply_async map_func
             (if i = target_num - 1 then drop (invl * i) targets else slice targets (invl * i) (invl * (i + 1))))
           [0..<target_num]) (\<lambda>qs.
         foldR (\<lambda>q res1. bindR (queue_get q) (\<lambda>r. Inr (res1 @ r))) qs []))"

section \<open>Trimming the list of users\<close>

definition users_trimming_skip :: "health_factor \<Rightarrow> int \<Rightarrow> pyfloat \<Rightarrow> bool res" where
  \<comment> \<open>\<open>last_update + min(abs(hf_norm)//intvl*intvl_time, 86400) > current_time\<close>: \<open>min\<close> returns the
     int or the float it was given\<close>
  "users_trimming_skip h current_time hf_norm =
     bindR (ffloordiv \<bar>hf_norm\<bar> (rnd (1/100))) (\<lambda>ticks.
       let d = fmul ticks 120
       in Inr (if 86400 < d then current_time < hf_last_update h + 86400
               else of_int current_time < fadd (fl_int (hf_last_update h)) d))"

definition hf_norm_of :: "health_factor \<Rightarrow> pyfloat res" where
  "hf_norm_of h = bindR (fdiv (hf_value h) (fl_int HF_THRESHOLD)) (\<lambda>q. Inr (fsub q 1))"

definition trimming_selects :: "bool \<Rightarrow> pyfloat \<Rightarrow> bool" where
  "trimming_selects is_signal hf_norm =
     (let left = rnd (1/10); right = - rnd (1/10); base = 0 in
      if is_signal \<and> hf_norm < left \<and> base < hf_norm then True
      else \<not> is_signal \<and> (left \<le> hf_norm \<or> hf_norm \<le> base \<and> right \<le> hf_norm \<or> hf_norm = - 1))"

fun trimming_loop :: "(string \<Rightarrow> health_factor res) \<Rightarrow> int \<Rightarrow> bool \<Rightarrow> string list \<Rightarrow> (pyfloat \<times> string) list res" where
  "trimming_loop hf current_time is_signal [] = Inr []"
| "trimming_loop hf current_time is_signal (usr # users) =
     bindR (hf usr) (\<lambda>h.
     bindR (hf_norm_of h) (\<lambda>hf_norm.
     bindR (users_trimming_skip h current_time hf_norm) (\<lambda>skip.
     bindR (trimming_loop hf current_time is_signal users) (\<lambda>rest.
       Inr (if \<not> skip \<and> trimming_selects is_signal hf_norm then (hf_norm, usr) # rest else rest)))))"

definition users_trimming :: "string list \<Rightarrow> 'a states_scheme \<Rightarrow> int \<Rightarrow> bool \<Rightarrow> string list res" where
  "users_trimming users sta current_time is_signal =
     bindR (trimming_loop (\<lambda>u. bindR (user_of sta u) (\<lambda>o1. Inr (user_hf o1))) current_time is_signal users) (\<lambda>sel.
       Inr (map snd (if is_signal then py_sorted sel else sel)))"

section \<open>What a health factor says\<close>

type_synonym market = "int \<times> int \<times> ctoken_risks"

definition market_of :: "ctokens \<Rightarrow> comet_configs \<Rightarrow> string \<Rightarrow> market res" where
  \<comment> \<open>price, collateral factor and risk parameters of a market\<close>
  "market_of ctk com a = bindR (ctk_price_current ctk a) (\<lambda>pr.
     bindR (dgetR (ctokens_collateral_factor com) a) (\<lambda>cf. bindR (ctk_risks ctk a) (\<lambda>rk. Inr (pr, cf, rk))))"

fun col_value :: "market \<Rightarrow> comp_reserve \<Rightarrow> int" where
  "col_value (pr, cf, rk) r = (if is_col_liq r \<noteq> 0 \<and> 0 < cf \<and> 0 < col_amount r
     then cf * exchange_rate rk div EXP_SCALE * pr div EXP_SCALE * col_amount r div EXP_SCALE else 0)"

fun debt_value :: "market \<Rightarrow> comp_reserve \<Rightarrow> int" where
  "debt_value (pr, cf, rk) r = (if 0 < debt_amount r \<and> debt_interest r \<noteq> 0
     then debt_amount r * borrow_index rk div debt_interest r * pr div EXP_SCALE else 0)"

lemma hf_step_market:
  "hf_step ctk com (a, r) (c, b) = bindR (market_of ctk com a) (\<lambda>m. Inr (c + col_value m r, b + debt_value m r))"
  by (auto simp: hf_step_def market_of_def bindR_def Let_def split: sum.splits)

definition col_sum :: "(string \<Rightarrow> market) \<Rightarrow> (string, comp_reserve) dict \<Rightarrow> int" where
  "col_sum M rs = sum_list (map (\<lambda>(a, r). col_value (M a) r) rs)"

definition debt_sum :: "(string \<Rightarrow> market) \<Rightarrow> (string, comp_reserve) dict \<Rightarrow> int" where
  "debt_sum M rs = sum_list (map (\<lambda>(a, r). debt_value (M a) r) rs)"

definition markets_are :: "ctokens \<Rightarrow> comet_configs \<Rightarrow> (string, comp_reserve) dict \<Rightarrow> (string \<Rightarrow> market) \<Rightarrow> bool" where
  "markets_are ctk com rs M \<longleftrightarrow> (\<forall>a \<in> set (dkeys rs). market_of ctk com a = Inr (M a))"

lemma hf_sums:
  "markets_are ctk com rs M \<Longrightarrow> foldR (hf_step ctk com) rs (c, b) = Inr (c + col_sum M rs, b + debt_sum M rs)"
  by (induction rs arbitrary: c b) (auto simp: markets_are_def hf_step_market col_sum_def debt_sum_def)

lemma health_factor_sums:
  assumes "markets_are ctk com rs M" "0 < debt_sum M rs + repay"
  shows "calculate_health_factor now (usr, rs, repay) ctk com = Inr (usr, \<lparr>
     hf_value = rnd (of_int (col_sum M rs) / of_int (debt_sum M rs + repay)),
     hf_debt_volume = debt_sum M rs + repay, hf_last_update = now\<rparr>, rs)"
  using assms(2) by (simp add: calculate_health_factor_def hf_sums [OF assms(1)] int_truediv_def)

lemma health_factor_no_debt:
  assumes "markets_are ctk com rs M" "debt_sum M rs + repay \<le> 0"
  shows "calculate_health_factor now (usr, rs, repay) ctk com = Inr (usr, \<lparr>
     hf_value = 0, hf_debt_volume = debt_sum M rs + repay, hf_last_update = now\<rparr>, rs)"
  using assms(2) by (simp add: calculate_health_factor_def hf_sums [OF assms(1)])

lemma health_factor_shape:
  "calculate_health_factor now (usr, rs, repay) ctk com = Inr (u, h, rs1) \<Longrightarrow> u = usr \<and> rs1 = rs \<and> hf_last_update h = now"
  by (auto simp: calculate_health_factor_def Let_def split: if_splits)

text \<open>The guard \<open>0 < hf < 1\<close> of the liquidation: the collateral is positive and does not cover the debt.\<close>

lemma health_factor_guard:
  assumes "calculate_health_factor now (usr, rs, repay) ctk com = Inr (u, h, rs1)" "markets_are ctk com rs M"
    and "0 < hf_value h" "hf_value h < 1"
  shows "0 < col_sum M rs \<and> col_sum M rs < debt_sum M rs + repay \<and> hf_debt_volume h = debt_sum M rs + repay"
proof (cases "0 < debt_sum M rs + repay")
  case True
  define c d where cd: "c = col_sum M rs" "d = debt_sum M rs + repay"
  have h: "h = \<lparr>hf_value = rnd (of_int c / of_int d), hf_debt_volume = d, hf_last_update = now\<rparr>"
    using assms(1) unfolding health_factor_sums [OF assms(2) True] by (auto simp: cd)
  have "0 < (of_int c :: rat) / of_int d" using assms(3) h by (simp add: ieee.fl_pos_iff)
  moreover have "(of_int c :: rat) / of_int d < 1" using assms(4) h by (simp add: ieee.fl_less_oneD)
  ultimately show ?thesis using True h by (simp add: cd zero_less_divide_iff divide_less_eq_1)
next
  case False
  then have "debt_sum M rs + repay \<le> 0" by simp
  then show ?thesis using assms(1,3) unfolding health_factor_no_debt [OF assms(2) \<open>debt_sum M rs + repay \<le> 0\<close>] by auto
qed

lemma health_factor_covered:
  assumes "calculate_health_factor now (usr, rs, repay) ctk com = Inr (u, h, rs1)" "markets_are ctk com rs M"
    and "0 < debt_sum M rs + repay" "debt_sum M rs + repay \<le> col_sum M rs"
  shows "1 \<le> hf_value h"
proof -
  have "hf_value h = rnd (of_int (col_sum M rs) / of_int (debt_sum M rs + repay))"
    using assms(1) unfolding health_factor_sums [OF assms(2,3)] by auto
  moreover have "1 \<le> (of_int (col_sum M rs) :: rat) / of_int (debt_sum M rs + repay)"
    using assms(3,4) by (simp add: le_divide_eq flip: of_int_add)
  ultimately show ?thesis by (simp add: ieee.fl_ge_one)
qed

section \<open>The pool computes what the loop computes\<close>

lemma collect_singletons:
  "foldR (\<lambda>q res1. bindR (queue_get q) (\<lambda>r. Inr (res1 @ r))) (map (\<lambda>x. [x]) xss) a = Inr (a @ concat xss)"
  by (induction xss arbitrary: a) (auto simp: queue_get_def)

lemma pool_chunks:
  "bindR (mapR (\<lambda>c. FakePool_apply_async (mapR g) (k c)) cs) (\<lambda>qs.
     foldR (\<lambda>q res1. bindR (queue_get q) (\<lambda>r. Inr (res1 @ r))) qs []) = mapR g (concat (map k cs))"
proof -
  have 1: "mapR (\<lambda>c. FakePool_apply_async (mapR g) (k c)) cs =
      bindR (mapR (\<lambda>c. mapR g (k c)) cs) (\<lambda>yss. Inr (map (\<lambda>x. [x]) yss))"
    by (induction cs) (auto simp: FakePool_apply_async_def bindR_def split: sum.splits)
  have 2: "mapR g (concat (map k cs)) = bindR (mapR (\<lambda>c. mapR g (k c)) cs) (\<lambda>yss. Inr (concat yss))"
    by (induction cs) (auto simp: mapR_append bindR_def split: sum.splits)
  show ?thesis
    unfolding 1 2 by (cases "mapR (\<lambda>c. mapR g (k c)) cs") (auto simp: collect_singletons)
qed

lemma start_multi_process_mapR: "start_multi_process (mapR g) ts = mapR g ts"
  using pool_chunks [of g "\<lambda>t. [t]" ts] by (simp add: start_multi_process_def)

lemma slices_cover:
  assumes "0 < n"
  shows "concat (map (\<lambda>i. if i = n - 1 then drop (k * i) xs else slice xs (k * i) (k * (i + 1))) [0..<n]) = xs"
proof -
  have p: "concat (map (\<lambda>i. slice xs (k * i) (k * (i + 1))) [0..<m]) = take (k * m) xs" for m
  proof (induction m)
    case (Suc m)
    have "take (k * Suc m) xs = take (k * m) xs @ take k (drop (k * m) xs)"
      by (metis add.commute mult_Suc_right take_add)
    then show ?case using Suc by (simp add: slice_def)
  qed simp
  obtain m where n: "n = Suc m" using assms by (cases n) auto
  have e: "map (\<lambda>i. if i = m then drop (k * i) xs else slice xs (k * i) (k * (i + 1))) [0..<m] =
      map (\<lambda>i. slice xs (k * i) (k * (i + 1))) [0..<m]" by (rule map_cong) auto
  show ?thesis unfolding n using p [of m] by (simp only: diff_Suc_1 upt_Suc_append map_append concat_append e) simp
qed

text \<open>(C12) Cutting the users into chunks for the pool and collecting the chunks gives the result of the
  plain loop, for every number of processes, in the same order, with the same exception if one is raised.\<close>

lemma start_multi_process_old_mapR: "0 < n \<Longrightarrow> start_multi_process_old (mapR g) n ts = mapR g ts"
  unfolding start_multi_process_old_def Let_def by (simp only: pool_chunks slices_cover) simp

section \<open>What the trimming keeps\<close>

definition norm_of :: "health_factor \<Rightarrow> pyfloat" where
  "norm_of h = rnd (rnd (hf_value h) - 1)"

lemma hf_norm_of_eq: "hf_norm_of h = Inr (norm_of h)"
  by (simp add: hf_norm_of_def fdiv_def fsub_def norm_of_def HF_THRESHOLD_def fl_int_def)

definition is_stale :: "int \<Rightarrow> health_factor \<Rightarrow> bool" where
  \<comment> \<open>the health factor is old enough to be computed again\<close>
  "is_stale now h \<longleftrightarrow> users_trimming_skip h now (norm_of h) = Inr False"

lemma users_trimming_skip_total: "users_trimming_skip h now x = Inr True \<or> users_trimming_skip h now x = Inr False"
proof -
  have "rnd (1/100) \<noteq> 0" by (simp add: ieee.fl_eq_0_iff)
  then show ?thesis by (simp add: users_trimming_skip_def ffloordiv_def Let_def)
qed

lemma trimming_loop_run:
  assumes "\<forall>u \<in> set users. hf u = Inr (H u)"
  shows "trimming_loop hf now is_signal users = Inr (map (\<lambda>u. (norm_of (H u), u))
     (filter (\<lambda>u. is_stale now (H u) \<and> trimming_selects is_signal (norm_of (H u))) users))"
  using assms
proof (induction users)
  case (Cons u users)
  show ?case
    using users_trimming_skip_total [of "H u" now "norm_of (H u)"] Cons by (auto simp: hf_norm_of_eq is_stale_def)
qed simp

definition hfs_are :: "'a states_scheme \<Rightarrow> string list \<Rightarrow> (string \<Rightarrow> health_factor) \<Rightarrow> bool" where
  "hfs_are s users H \<longleftrightarrow> (\<forall>u \<in> set users. \<exists>o1. user_of s u = Inr o1 \<and> user_hf o1 = H u)"

lemma users_trimming_run:
  assumes "hfs_are s users H"
  shows "users_trimming users s now is_signal = Inr (map snd ((if is_signal then py_sorted else id)
     (map (\<lambda>u. (norm_of (H u), u))
       (filter (\<lambda>u. is_stale now (H u) \<and> trimming_selects is_signal (norm_of (H u))) users))))"
proof -
  have "\<forall>u \<in> set users. bindR (user_of s u) (\<lambda>o1. Inr (user_hf o1)) = Inr (H u)"
    using assms by (auto simp: hfs_are_def)
  from trimming_loop_run [OF this] show ?thesis by (simp add: users_trimming_def)
qed

text \<open>The trimmed list has exactly the users whose health factor is old enough to be computed again
  and lies in the band of the list.\<close>

lemma trimming_set:
  assumes "hfs_are s users H" "users_trimming users s now is_signal = Inr us"
  shows "set us = {u \<in> set users. is_stale now (H u) \<and> trimming_selects is_signal (norm_of (H u))}"
  using assms(2) unfolding users_trimming_run [OF assms(1)] by (cases is_signal) (auto simp: image_image)

text \<open>The users selected for a signal are sorted by their distance from liquidation.\<close>

lemma trimming_sorted:
  assumes "hfs_are s users H" "users_trimming users s now True = Inr us"
  shows "sorted (map (\<lambda>u. norm_of (H u)) us)"
proof -
  define xs where "xs = map (\<lambda>u. (norm_of (H u), u))
       (filter (\<lambda>u. is_stale now (H u) \<and> trimming_selects True (norm_of (H u))) users)"
  have us: "us = map snd (py_sorted xs)"
    using assms(2) unfolding users_trimming_run [OF assms(1)] xs_def by simp
  have "\<forall>p \<in> set (py_sorted xs). fst p = norm_of (H (snd p))" by (auto simp: xs_def)
  then have "map (\<lambda>u. norm_of (H u)) us = map fst (py_sorted xs)" using us by auto
  moreover have "sorted (map fst (py_sorted xs))"
  proof -
    have "sorted_wrt (\<lambda>x y. fst x \<le> fst y) (py_sorted xs)"
      using sorted_sort [of xs] by (rule sorted_wrt_mono_rel [rotated]) (auto simp: less_eq_prod_def split: if_splits)
    then show ?thesis by (simp add: sorted_map)
  qed
  ultimately show ?thesis by simp
qed

text \<open>A user is never in both lists; only one far under water (below -0.1, not -1) is in neither.\<close>

lemma trimming_selects_split:
  "\<not> (trimming_selects True x \<and> trimming_selects False x)"
  "trimming_selects True x \<or> trimming_selects False x \<longleftrightarrow> - rnd (1/10) \<le> x \<or> x = - 1"
proof -
  have "0 < rnd (1/10)" by (simp add: ieee.fl_pos_iff)
  then show "\<not> (trimming_selects True x \<and> trimming_selects False x)"
    "trimming_selects True x \<or> trimming_selects False x \<longleftrightarrow> - rnd (1/10) \<le> x \<or> x = - 1"
    by (auto simp: trimming_selects_def Let_def)
qed

section \<open>Recording the results\<close>

lemma mod_user_hf_run:
  fixes h :: health_factor
  assumes "tidy s" "dget (users_states s) u = Some r"
  defines "s' \<equiv> s\<lparr>s_users := (s_users s)[r := (s_users s ! r)\<lparr>user_hf := h\<rparr>]\<rparr>"
  shows "mod_user u (\<lambda>o1. o1\<lparr>user_hf := h\<rparr>) s = (Inr (), s')"
    "pos_ref s' = pos_ref s" "tidy s'"
    "dget (users_states s) v \<noteq> None \<Longrightarrow> \<exists>o1 o2. user_of s' v = Inr o1 \<and> user_of s v = Inr o2 \<and>
       o1 = (if v = u then o2\<lparr>user_hf := h\<rparr> else o2)"
proof -
  have ok: "store_ok s" "unshared s" using assms(1) by (auto simp: tidy_def)
  have r: "r < length (s_users s)" using store_ok_user [OF ok(1) assms(2)] by simp
  show "mod_user u (\<lambda>o1. o1\<lparr>user_hf := h\<rparr>) s = (Inr (), s')"
    using assms(2) by (simp add: mod_user_def py_simps user_ref_def s'_def)
  have res: "reserves ((s_users s)[r := (s_users s ! r)\<lparr>user_hf := h\<rparr>] ! i) = reserves (s_users s ! i)"
    if "i < length (s_users s)" for i
    using that r by (cases "i = r") auto
  have ref: "i < length (s_users s)" if "dget (users_states s) v = Some i" for v i
    using store_ok_user [OF ok(1) that] by simp
  show p: "pos_ref s' = pos_ref s"
    using ref by (auto simp: fun_eq_iff pos_ref_def s'_def res split: option.splits)
  have ok': "store_ok s'"
    using ok(1) unfolding store_ok_iff by (auto simp: s'_def res)
  have "unshared s'"
    using ok(2) unfolding unshared_iff [OF ok(1)] unshared_iff [OF ok'] p by (simp add: s'_def)
  with ok' show "tidy s'" by (simp add: tidy_def)
  show "\<exists>o1 o2. user_of s' v = Inr o1 \<and> user_of s v = Inr o2 \<and> o1 = (if v = u then o2\<lparr>user_hf := h\<rparr> else o2)"
    if known: "dget (users_states s) v \<noteq> None"
  proof -
    obtain i where i: "dget (users_states s) v = Some i" using known by (cases "dget (users_states s) v") simp_all
    have "i = r \<longleftrightarrow> v = u" using i assms(2) unshared_user [OF ok] by auto
    then show ?thesis using i r by (auto simp: user_of_def user_ref_def s'_def)
  qed
qed

definition last_hf :: "hf_result list \<Rightarrow> string \<Rightarrow> health_factor \<Rightarrow> health_factor" where
  \<comment> \<open>the last result for a user\<close>
  "last_hf results v h0 = fold (\<lambda>(u, h, _) h1. if u = v then h else h1) results h0"

text \<open>Recording the results of a round gives each user its last result as the health factor and
  changes neither positions nor other users.\<close>

lemma write_health_factor_run:
  assumes "tidy s" "\<forall>(u, _) \<in> set results. dget (users_states s) u \<noteq> None"
  shows "\<exists>s'. write_health_factor results s = (Inr (), s') \<and> tidy s' \<and> users_states s' = users_states s \<and>
     position s' = position s \<and>
     (\<forall>v o2. user_of s v = Inr o2 \<longrightarrow> user_of s' v = Inr (o2\<lparr>user_hf :=
        last_hf results v (user_hf o2)\<rparr>))"
  using assms
proof (induction results arbitrary: s)
  case Nil
  then show ?case by (simp add: write_health_factor_def py_simps last_hf_def)
next
  case (Cons res results)
  obtain u h d where res: "res = (u, h, d)" by (cases res) auto
  obtain r where r: "dget (users_states s) u = Some r" using Cons.prems res by auto
  define s1 where "s1 = s\<lparr>s_users := (s_users s)[r := (s_users s ! r)\<lparr>user_hf := h\<rparr>]\<rparr>"
  note m = mod_user_hf_run [OF Cons.prems(1) r, where h = h, folded s1_def]
  have us: "users_states s1 = users_states s" by (simp add: s1_def)
  have pos: "position s1 = position s" using m(2) by (simp add: fun_eq_iff position_pos_ref s1_def)
  have "\<forall>(u, _) \<in> set results. dget (users_states s1) u \<noteq> None" using Cons.prems(2) us by simp
  from Cons.IH [OF m(3) this] obtain s' where s': "write_health_factor results s1 = (Inr (), s')" "tidy s'"
    "users_states s' = users_states s1" "position s' = position s1"
    "\<forall>v o2. user_of s1 v = Inr o2 \<longrightarrow> user_of s' v = Inr (o2\<lparr>user_hf :=
        last_hf results v (user_hf o2)\<rparr>)" by blast
  have run: "write_health_factor (res # results) s = (Inr (), s')"
    using m(1) s'(1) by (simp add: write_health_factor_def res py_simps)
  have "user_of s' v = Inr (o2\<lparr>user_hf :=
      last_hf (res # results) v (user_hf o2)\<rparr>)"
    if "user_of s v = Inr o2" for v o2
  proof -
    have "dget (users_states s) v \<noteq> None" using that by (auto simp: user_of_def user_ref_def)
    from m(4) [OF this] that have "user_of s1 v = Inr (if v = u then o2\<lparr>user_hf := h\<rparr> else o2)" by auto
    then show ?thesis using s'(5) by (auto simp: res last_hf_def)
  qed
  then show ?case using run s' us pos by auto
qed

end
