(* ===== verification/Liquidation.thy ===== *)
theory Liquidation
  imports Health
begin

text \<open>
  \<open>compound.py\<close>, the liquidation itself: the pairs of debt and collateral of a user and their
  estimated profit, the profit after the swap along the best route, the record of the users that
  are being liquidated, the transaction with its costs, and the searches in the sorted users.

  A call is one Python coroutine without suspension points. Its state \<open>liq_world\<close> is what it
  shares with the rest: the global list of intermediate tokens, the record of liquidations, the
  accounts' nonces and the number of random identifiers drawn.
\<close>

section \<open>Pairs of debt and collateral\<close>

definition mul_scalar_truncate :: "int \<Rightarrow> int \<Rightarrow> int" where
  "mul_scalar_truncate ratio repay_amount = ratio * repay_amount div EXP_SCALE"

definition mul_scalar_truncate_reverse :: "int \<Rightarrow> int \<Rightarrow> int res" where
  "mul_scalar_truncate_reverse ratio seize_amount = py_div (seize_amount * EXP_SCALE) ratio"

record liq_pair =
  lp_profit :: int
  lp_col_ctoken :: string
  lp_debt_ctoken :: string
  lp_seize_tokens :: int
  lp_repay_amount :: int

definition debt_entries :: "(string, comp_reserve) dict \<Rightarrow> ctokens \<Rightarrow> comet_configs \<Rightarrow> (int \<times> string \<times> int) list res" where
  \<comment> \<open>the first loop: the normalized debt, the market, the largest amount that may be repaid\<close>
  "debt_entries rs ctk com = foldR (\<lambda>(ctoken_addr, data) debts.
     bindR (ctk_risks ctk ctoken_addr) (\<lambda>rk.
     if 0 < debt_amount data then
       bindR (py_div (debt_amount data * borrow_index rk) (debt_interest data)) (\<lambda>debt_balance.
       let debt_max = mul_scalar_truncate (closs_factor com) debt_balance in
       bindR (ctk_price_current ctk ctoken_addr) (\<lambda>debt_price.
         Inr (debts @ [(debt_price * debt_max div EXP_SCALE, ctoken_addr, debt_max)])))
     else Inr debts)) rs []"

definition seize_pair :: "ctokens \<Rightarrow> comet_configs \<Rightarrow> string \<Rightarrow> int \<Rightarrow> int \<Rightarrow> string \<Rightarrow> int \<Rightarrow> liq_pair res" where
  \<comment> \<open>the body of the second loop for a collateral with a positive balance\<close>
  "seize_pair ctk com debt_ctoken debt_price actual_repay_amount ctoken_addr collateral_balance =
     bindR (ctk_price_current ctk ctoken_addr) (\<lambda>pr.
     bindR (ctk_risks ctk ctoken_addr) (\<lambda>rk.
     let numerator = liq_incentive com * debt_price div EXP_SCALE;
         denominator = pr * exchange_rate rk div EXP_SCALE in
     bindR (py_div (numerator * EXP_SCALE) denominator) (\<lambda>ratio.
     let seize = mul_scalar_truncate ratio actual_repay_amount in
     bindR (if collateral_balance < seize
            then bindR (mul_scalar_truncate_reverse ratio collateral_balance) (\<lambda>a. Inr (collateral_balance, a))
            else Inr (seize, actual_repay_amount)) (\<lambda>(seize_tokens, rejust_repay_amount).
     bindR (py_div (seize_tokens * TREASURY_PERCENT) (liq_incentive com)) (\<lambda>fee.
     let seize_tokens1 = seize_tokens - fee;
         profit_apprx = (seize_tokens1 * exchange_rate rk div EXP_SCALE * pr - rejust_repay_amount * debt_price) div EXP_SCALE
     in Inr \<lparr>lp_profit = profit_apprx, lp_col_ctoken = ctoken_addr, lp_debt_ctoken = debt_ctoken,
             lp_seize_tokens = seize_tokens1, lp_repay_amount = rejust_repay_amount\<rparr>)))))"

definition collateral_pairs ::
    "(string, comp_reserve) dict \<Rightarrow> ctokens \<Rightarrow> comet_configs \<Rightarrow> string \<Rightarrow> int \<Rightarrow> int \<Rightarrow> liq_pair list res" where
  "collateral_pairs rs ctk com debt_ctoken debt_price actual_repay_amount =
     mapR (\<lambda>(a, data). seize_pair ctk com debt_ctoken debt_price actual_repay_amount a (col_amount data))
       (filter (\<lambda>(a, data). 0 < col_amount data) rs)"

definition liquidation_simulation ::
    "(string, comp_reserve) dict \<Rightarrow> ctokens \<Rightarrow> comet_configs \<Rightarrow> (string, liq_pair list) dict res" where
  "liquidation_simulation rs ctk com =
     bindR (debt_entries rs ctk com) (\<lambda>debts0.
     if length debts0 = 0 then Inr []
     else
       let debts = sort_key_rev (\<lambda>x. x) debts0;
           debt_normalize_max = fst (hd debts)
       in foldR (\<lambda>(debt_normalize, debt_ctoken, actual_repay_amount) pairs.
         bindR (ctk_price_current ctk debt_ctoken) (\<lambda>debt_price.
         if of_int debt_normalize < fmul (fl_int debt_normalize_max) (rnd (8/10)) then Inr pairs
         else bindR (collateral_pairs rs ctk com debt_ctoken debt_price actual_repay_amount) (\<lambda>collaterals.
           Inr (if length collaterals \<noteq> 0 then dput debt_ctoken (sort_key_rev lp_profit collaterals) pairs else pairs))))
       debts [])"

section \<open>The profit after the swap\<close>

definition evaluate_pair ::
    "ctokens \<Rightarrow> 'l pools \<Rightarrow> 'l swap \<Rightarrow> string \<Rightarrow> liq_pair \<Rightarrow> (string list, (liq_pair \<times> routs) option) eff" where
  \<comment> \<open>the body of the inner loop; \<open>None\<close> for \<open>continue\<close>. The state is the global list of routers.\<close>
  "evaluate_pair ctk pools swap_func debt_ctoken pair =
     (if lp_profit pair < DESIRED_PROFIT_SCALE then returnE None
      else bindE (liftR (ctk_configs ctk (lp_col_ctoken pair))) (\<lambda>cfg_in.
        bindE (liftR (ctk_configs ctk debt_ctoken)) (\<lambda>cfg_out.
        bindE (gen_new_routs (underlying cfg_in) (underlying cfg_out)) (\<lambda>r.
        bindE (getE (\<lambda>g. find_routs g r (lp_repay_amount pair) pools swap_func)) (\<lambda>(swap_tokens, ps).
        if swap_tokens \<le> 0 \<and> length ps = 0 then returnE None
        else bindE (liftR (ctk_price_current ctk (lp_col_ctoken pair))) (\<lambda>pr.
          bindE (liftR (ctk_risks ctk (lp_col_ctoken pair))) (\<lambda>rk.
          let seize_tokens_ua = lp_seize_tokens pair * exchange_rate rk div EXP_SCALE;
              profit_actual = (seize_tokens_ua - swap_tokens) * pr div EXP_SCALE
          in returnE (Some (pair\<lparr>lp_profit := profit_actual\<rparr>, r\<lparr>paths := ps\<rparr>)))))))))"

definition profit_simulation ::
    "ctokens \<Rightarrow> (string, liq_pair list) dict \<Rightarrow> 'l pools \<Rightarrow> 'l swap \<Rightarrow> (string list, (liq_pair \<times> routs) option) eff" where
  \<comment> \<open>the pairs belong to this call, so the profit written into a pair is visible in the target only\<close>
  "profit_simulation ctk liq_pairs pools swap_func =
     bindE (foldE (\<lambda>(debt_ctoken, pairs) acc.
       foldE (\<lambda>pair (max_profit, target).
         bindE (evaluate_pair ctk pools swap_func debt_ctoken pair) (\<lambda>e.
           returnE (case e of None \<Rightarrow> (max_profit, target)
             | Some (pair1, r) \<Rightarrow> if max_profit < lp_profit pair1 then (lp_profit pair1, Some (pair1, r))
                 else (max_profit, target)))) pairs acc) liq_pairs (0, None)) (\<lambda>(max_profit, target).
       returnE target)"

section \<open>Bounds of a pair\<close>

lemma div_mult_le_int: "0 < (b::int) \<Longrightarrow> a div b * b \<le> a"
  by (metis minus_mod_eq_div_mult diff_ge_0_iff_ge pos_mod_sign diff_diff_eq2 add_diff_cancel_left')

lemma fee_bounds:
  assumes "0 \<le> (x::int)" "0 \<le> t" "t \<le> i" "0 < i"
  shows "0 \<le> x * t div i" "x * t div i \<le> x"
proof -
  show "0 \<le> x * t div i" using assms by (simp add: pos_imp_zdiv_nonneg_iff)
  have "x * t div i \<le> x * i div i" using assms by (intro zdiv_mono1) (auto simp: mult_left_mono)
  then show "x * t div i \<le> x" using assms by simp
qed

definition market_sane :: "ctokens \<Rightarrow> comet_configs \<Rightarrow> bool" where
  \<comment> \<open>no negative price or rate, and an incentive that pays the treasury's part\<close>
  "market_sane ctk com \<longleftrightarrow> 0 \<le> closs_factor com \<and> TREASURY_PERCENT \<le> liq_incentive com \<and>
     (\<forall>(a, i) \<in> set ctk. 0 \<le> exchange_rate (risks i) \<and> 0 \<le> borrow_index (risks i) \<and>
        (case price i of None \<Rightarrow> True | Some p \<Rightarrow> 0 \<le> price_current p))"

lemma market_sane_risks: "market_sane ctk com \<Longrightarrow> ctk_risks ctk a = Inr rk \<Longrightarrow> 0 \<le> exchange_rate rk \<and> 0 \<le> borrow_index rk"
  by (fastforce simp: market_sane_def ctk_risks_def dest: map_of_SomeD)

lemma market_sane_price: "market_sane ctk com \<Longrightarrow> ctk_price_current ctk a = Inr pr \<Longrightarrow> 0 \<le> pr"
  by (fastforce simp: market_sane_def ctk_price_current_def ctk_price_def dest: map_of_SomeD split: option.splits)

lemma seize_pair_bounds:
  assumes "seize_pair ctk com d dp R a c = Inr p" "market_sane ctk com" "0 < c" "0 \<le> R" "0 \<le> dp"
  shows "lp_debt_ctoken p = d \<and> lp_col_ctoken p = a \<and> 0 \<le> lp_seize_tokens p \<and> lp_seize_tokens p \<le> c \<and>
    0 \<le> lp_repay_amount p \<and> lp_repay_amount p \<le> R"
proof -
  have E: "0 < EXP_SCALE" by (simp add: EXP_SCALE_def)
  have T: "0 < TREASURY_PERCENT" "TREASURY_PERCENT \<le> liq_incentive com" "0 < liq_incentive com"
    using assms(2) by (auto simp: TREASURY_PERCENT_def market_sane_def)
  obtain pr rk where m: "ctk_price_current ctk a = Inr pr" "ctk_risks ctk a = Inr rk"
    using assms(1) unfolding seize_pair_def bindR_Inr_iff by blast
  define num den where "num = liq_incentive com * dp div EXP_SCALE" "den = pr * exchange_rate rk div EXP_SCALE"
  define ratio where "ratio = num * EXP_SCALE div den"
  define seize where "seize = ratio * R div EXP_SCALE"
  have "0 \<le> pr" "0 \<le> exchange_rate rk" using m market_sane_price market_sane_risks assms(2) by blast+
  then have nd: "0 \<le> num" "0 \<le> den" using E T assms(5) by (auto simp: num_den_def pos_imp_zdiv_nonneg_iff)
  have den: "0 < den"
    using assms(1) m nd by (auto simp: seize_pair_def Let_def num_den_def)
  have ratio: "0 \<le> ratio" using nd den E by (simp add: ratio_def pos_imp_zdiv_nonneg_iff mult_nonneg_nonneg less_imp_le)
  have seize: "0 \<le> seize" using ratio assms(4) E by (simp add: seize_def pos_imp_zdiv_nonneg_iff)
  obtain st ra where st: "(if c < seize then bindR (mul_scalar_truncate_reverse ratio c) (\<lambda>a. Inr (c, a)) else Inr (seize, R)) = Inr (st, ra)"
    and p: "lp_debt_ctoken p = d" "lp_col_ctoken p = a" "lp_repay_amount p = ra"
    "lp_seize_tokens p = st - st * TREASURY_PERCENT div liq_incentive com"
    using assms(1) m den unfolding seize_pair_def Let_def mul_scalar_truncate_def
    by (auto simp: num_den_def [symmetric] ratio_def [symmetric] seize_def [symmetric] split: if_splits)
  have b: "0 \<le> st \<and> st \<le> c \<and> 0 \<le> ra \<and> ra \<le> R"
  proof (cases "c < seize")
    case True
    then have ra: "ratio \<noteq> 0" "st = c" "ra = c * EXP_SCALE div ratio" using st by (auto simp: mul_scalar_truncate_reverse_def)
    then have pos: "0 < ratio" using ratio by simp
    have "c * EXP_SCALE \<le> seize * EXP_SCALE" using True E by simp
    also have "\<dots> \<le> ratio * R" unfolding seize_def using E by (rule div_mult_le_int)
    finally have "ra \<le> ratio * R div ratio" unfolding ra using pos by (intro zdiv_mono1) auto
    moreover have "0 \<le> ra" unfolding ra using pos E assms(3) by (simp add: pos_imp_zdiv_nonneg_iff mult_nonneg_nonneg less_imp_le)
    ultimately show ?thesis using ra pos assms(3) by simp
  next
    case False
    then show ?thesis using st seize assms(4) by simp
  qed
  with p fee_bounds [of st "TREASURY_PERCENT" "liq_incentive com"] T show ?thesis by auto
qed

section \<open>What the simulation returns\<close>

definition may_repay :: "(string, comp_reserve) dict \<Rightarrow> ctokens \<Rightarrow> comet_configs \<Rightarrow> string \<Rightarrow> int \<Rightarrow> bool" where
  \<comment> \<open>\<open>m\<close> is the close factor's part of the user's debt in \<open>d\<close>\<close>
  "may_repay rs ctk com d m \<longleftrightarrow> (\<exists>b rk. (d, b) \<in> set rs \<and> 0 < debt_amount b \<and> ctk_risks ctk d = Inr rk \<and>
     debt_interest b \<noteq> 0 \<and>
     m = closs_factor com * (debt_amount b * borrow_index rk div debt_interest b) div EXP_SCALE)"

definition pair_ok :: "(string, comp_reserve) dict \<Rightarrow> ctokens \<Rightarrow> comet_configs \<Rightarrow> string \<Rightarrow> liq_pair \<Rightarrow> bool" where
  "pair_ok rs ctk com d p \<longleftrightarrow> lp_debt_ctoken p = d \<and>
     (\<exists>c. (lp_col_ctoken p, c) \<in> set rs \<and> 0 \<le> lp_seize_tokens p \<and> lp_seize_tokens p \<le> col_amount c) \<and>
     (\<exists>m. may_repay rs ctk com d m \<and> 0 \<le> lp_repay_amount p \<and> lp_repay_amount p \<le> m)"

lemma debt_entries_repay:
  assumes "debt_entries rs ctk com = Inr ds" "(n, d, m) \<in> set ds"
  shows "may_repay rs ctk com d m \<and> (\<exists>pr. ctk_price_current ctk d = Inr pr \<and> n = pr * m div EXP_SCALE)"
proof -
  define I where "I ds \<longleftrightarrow> (\<forall>(n, d, m) \<in> set ds. may_repay rs ctk com d m \<and>
    (\<exists>pr. ctk_price_current ctk d = Inr pr \<and> n = pr * m div EXP_SCALE))" for ds
  have "I ds"
    using assms(1) unfolding debt_entries_def
  proof (rule foldR_inv)
    show "I []" by (simp add: I_def)
  next
    fix x ds1 ds2
    assume x: "x \<in> set rs" and i: "I ds1" and st: "(case x of (ctoken_addr, data) \<Rightarrow> \<lambda>debts.
      bindR (ctk_risks ctk ctoken_addr) (\<lambda>rk. if 0 < debt_amount data
       then bindR (py_div (debt_amount data * borrow_index rk) (debt_interest data)) (\<lambda>debt_balance.
         let debt_max = mul_scalar_truncate (closs_factor com) debt_balance
         in bindR (ctk_price_current ctk ctoken_addr) (\<lambda>debt_price.
              Inr (debts @ [(debt_price * debt_max div EXP_SCALE, ctoken_addr, debt_max)])))
       else Inr debts)) ds1 = Inr ds2"
    obtain a b where ab: "x = (a, b)" by (cases x)
    obtain rk where rk: "ctk_risks ctk a = Inr rk" using st ab by auto
    show "I ds2"
    proof (cases "0 < debt_amount b")
      case True
      then obtain pr where pr: "ctk_price_current ctk a = Inr pr" "debt_interest b \<noteq> 0"
        and ds2: "ds2 = ds1 @ [(pr * mul_scalar_truncate (closs_factor com) (debt_amount b * borrow_index rk div debt_interest b)
            div EXP_SCALE, a, mul_scalar_truncate (closs_factor com) (debt_amount b * borrow_index rk div debt_interest b))]"
        using st ab rk by (auto simp: Let_def)
      have "may_repay rs ctk com a (mul_scalar_truncate (closs_factor com) (debt_amount b * borrow_index rk div debt_interest b))"
        unfolding may_repay_def mul_scalar_truncate_def using x ab True rk pr(2) by blast
      with i pr show ?thesis by (auto simp: I_def ds2)
    qed (use st ab rk i in auto)
  qed
  with assms(2) show ?thesis unfolding I_def by blast
qed

lemma may_repay_nonneg:
  assumes "may_repay rs ctk com d m" "market_sane ctk com" "\<forall>(a, b) \<in> set rs. 0 \<le> debt_interest b"
  shows "0 \<le> m"
proof -
  obtain b rk where b: "(d, b) \<in> set rs" "0 < debt_amount b" "ctk_risks ctk d = Inr rk" "debt_interest b \<noteq> 0"
    and m: "m = closs_factor com * (debt_amount b * borrow_index rk div debt_interest b) div EXP_SCALE"
    using assms(1) unfolding may_repay_def by blast
  have "0 \<le> debt_interest b" using assms(3) b(1) by blast
  then have i: "0 < debt_interest b" using b(4) by simp
  have "0 \<le> borrow_index rk" "0 \<le> closs_factor com"
    using market_sane_risks [OF assms(2) b(3)] assms(2) by (auto simp: market_sane_def)
  then have "0 \<le> debt_amount b * borrow_index rk div debt_interest b" using b(2) i by (simp add: pos_imp_zdiv_nonneg_iff)
  then show ?thesis unfolding m using \<open>0 \<le> closs_factor com\<close> by (simp add: pos_imp_zdiv_nonneg_iff)
qed

lemma collateral_pairs_ok:
  assumes "collateral_pairs rs ctk com d dp m = Inr ps" "market_sane ctk com" "may_repay rs ctk com d m" "0 \<le> m" "0 \<le> dp" "p \<in> set ps"
  shows "pair_ok rs ctk com d p"
proof -
  obtain x where x: "x \<in> set (filter (\<lambda>(a, data). 0 < col_amount data) rs)"
    and s: "(case x of (a, data) \<Rightarrow> seize_pair ctk com d dp m a (col_amount data)) = Inr p"
    using mapR_in [OF assms(1) [unfolded collateral_pairs_def] assms(6)] by blast
  obtain a c where ac: "x = (a, c)" by (cases x)
  then have c: "(a, c) \<in> set rs" "0 < col_amount c" using x by auto
  have "seize_pair ctk com d dp m a (col_amount c) = Inr p" using s ac by simp
  from seize_pair_bounds [OF this assms(2) c(2) assms(4,5)] c(1) assms(3)
  show ?thesis unfolding pair_ok_def by blast
qed

definition pairs_ok :: "(string, comp_reserve) dict \<Rightarrow> ctokens \<Rightarrow> comet_configs \<Rightarrow> (string, liq_pair list) dict \<Rightarrow> bool" where
  "pairs_ok rs ctk com pairs \<longleftrightarrow> dict_ok pairs \<and> (\<forall>d ps. dget pairs d = Some ps \<longrightarrow> ps \<noteq> [] \<and>
     sorted_wrt (\<lambda>p q. lp_profit q \<le> lp_profit p) ps \<and> (\<forall>p \<in> set ps. pair_ok rs ctk com d p))"

lemma liquidation_simulation_ok:
  assumes "liquidation_simulation rs ctk com = Inr pairs" "market_sane ctk com" "\<forall>(a, b) \<in> set rs. 0 \<le> debt_interest b"
  shows "pairs_ok rs ctk com pairs"
proof -
  obtain ds where ds: "debt_entries rs ctk com = Inr ds" using assms(1) by (auto simp: liquidation_simulation_def)
  show ?thesis
  proof (cases "ds = []")
    case True
    then show ?thesis using assms(1) ds by (simp add: liquidation_simulation_def pairs_ok_def)
  next
    case False
    define mx where "mx = fst (hd (sort_key_rev (\<lambda>x. x) ds))"
    have f: "foldR (\<lambda>(n, d, m) pairs. bindR (ctk_price_current ctk d) (\<lambda>dp.
         if of_int n < fmul (fl_int mx) (rnd (8/10)) then Inr pairs
         else bindR (collateral_pairs rs ctk com d dp m) (\<lambda>collaterals.
           Inr (if length collaterals \<noteq> 0 then dput d (sort_key_rev lp_profit collaterals) pairs else pairs))))
       (sort_key_rev (\<lambda>x. x) ds) [] = Inr pairs"
      using assms(1) ds False by (simp add: liquidation_simulation_def mx_def Let_def)
    show ?thesis
    proof (rule foldR_inv [OF f])
      show "pairs_ok rs ctk com []" by (simp add: pairs_ok_def)
    next
      fix x p1 p2
      assume x: "x \<in> set (sort_key_rev (\<lambda>x. x) ds)" and i: "pairs_ok rs ctk com p1"
        and st: "(case x of (n, d, m) \<Rightarrow> \<lambda>pairs. bindR (ctk_price_current ctk d) (\<lambda>dp.
         if of_int n < fmul (fl_int mx) (rnd (8/10)) then Inr pairs
         else bindR (collateral_pairs rs ctk com d dp m) (\<lambda>collaterals.
           Inr (if length collaterals \<noteq> 0 then dput d (sort_key_rev lp_profit collaterals) pairs else pairs)))) p1 = Inr p2"
      obtain n d m where nd: "x = (n, d, m)" by (cases x)
      have mr: "may_repay rs ctk com d m" using debt_entries_repay [OF ds] x nd by simp
      have m0: "0 \<le> m" using may_repay_nonneg [OF mr assms(2,3)] .
      obtain dp where dp: "ctk_price_current ctk d = Inr dp" using st nd by auto
      have dp0: "0 \<le> dp" using market_sane_price [OF assms(2) dp] .
      show "pairs_ok rs ctk com p2"
      proof (cases "p2 = p1")
        case False
        then obtain ps where ps: "collateral_pairs rs ctk com d dp m = Inr ps" "ps \<noteq> []"
          and p2: "p2 = dput d (sort_key_rev lp_profit ps) p1"
          using st nd dp by (auto split: if_splits)
        have "\<forall>p \<in> set ps. pair_ok rs ctk com d p"
          using collateral_pairs_ok [OF ps(1) assms(2) mr m0 dp0] by blast
        with i ps(2) show ?thesis by (auto simp: p2 pairs_ok_def sorted_sort_key_rev)
      qed (use i in simp)
    qed
  qed
qed

section \<open>The best target\<close>

definition best_target :: "(liq_pair \<times> routs) option list \<Rightarrow> int \<times> (liq_pair \<times> routs) option \<Rightarrow> int \<times> (liq_pair \<times> routs) option" where
  "best_target es acc = fold (\<lambda>e (mx, t). case e of None \<Rightarrow> (mx, t)
     | Some (p, r) \<Rightarrow> if mx < lp_profit p then (lp_profit p, Some (p, r)) else (mx, t)) es acc"

lemma best_target_spec:
  assumes "best_target es (m0, t0) = (mx, t)"
  shows "m0 \<le> mx \<and> (\<forall>p r. Some (p, r) \<in> set es \<longrightarrow> lp_profit p \<le> mx) \<and>
    (t = t0 \<and> mx = m0 \<or> (\<exists>p r. Some (p, r) \<in> set es \<and> t = Some (p, r) \<and> lp_profit p = mx \<and> m0 < mx))"
  using assms
proof (induction es arbitrary: m0 t0)
  case Nil
  then show ?case by (simp add: best_target_def)
next
  case (Cons e es)
  show ?case
  proof (cases e)
    case None
    then have "best_target es (m0, t0) = (mx, t)" using Cons.prems by (simp add: best_target_def)
    from Cons.IH [OF this] None show ?thesis by auto
  next
    case (Some pr)
    obtain p r where pr: "e = Some (p, r)" using Some by (cases pr) auto
    show ?thesis
    proof (cases "m0 < lp_profit p")
      case True
      then have "best_target es (lp_profit p, Some (p, r)) = (mx, t)" using Cons.prems pr by (simp add: best_target_def)
      from Cons.IH [OF this] True pr show ?thesis by auto
    next
      case False
      then have "best_target es (m0, t0) = (mx, t)" using Cons.prems pr by (simp add: best_target_def)
      from Cons.IH [OF this] False pr show ?thesis by auto
    qed
  qed
qed

definition evaluations ::
    "ctokens \<Rightarrow> (string, liq_pair list) dict \<Rightarrow> 'l pools \<Rightarrow> 'l swap \<Rightarrow> (string list, (liq_pair \<times> routs) option list) eff" where
  \<comment> \<open>the pairs one after the other, without the running maximum\<close>
  "evaluations ctk liq_pairs pools swap_func =
     mapE (\<lambda>(d, p). evaluate_pair ctk pools swap_func d p) (concat (map (\<lambda>(d, ps). map (Pair d) ps) liq_pairs))"

lemma mapE_append: "mapE f (xs @ ys) = bindE (mapE f xs) (\<lambda>a. bindE (mapE f ys) (\<lambda>b. returnE (a @ b)))"
  by (induction xs) (auto simp: fun_eq_iff py_simps prod_eq_iff split: sum.splits)

lemma foldE_best:
  "foldE (\<lambda>pair (max_profit, target). bindE (f pair) (\<lambda>e. returnE (case e of None \<Rightarrow> (max_profit, target)
     | Some (pair1, r) \<Rightarrow> if max_profit < lp_profit pair1 then (lp_profit pair1, Some (pair1, r)) else (max_profit, target)))) ps acc
   = bindE (mapE f ps) (\<lambda>es. returnE (best_target es acc))"
  by (induction ps arbitrary: acc) (auto simp: fun_eq_iff py_simps best_target_def split: sum.splits prod.splits)

lemma profit_simulation_best:
  "profit_simulation ctk liq_pairs pools swap_func =
     bindE (evaluations ctk liq_pairs pools swap_func) (\<lambda>es. returnE (snd (best_target es (0, None))))"
proof -
  define g where "g d = evaluate_pair ctk pools swap_func d" for d
  have "foldE (\<lambda>(d, ps) acc. bindE (mapE (g d) ps) (\<lambda>es. returnE (best_target es acc))) liq_pairs acc =
      bindE (mapE (\<lambda>(d, p). g d p) (concat (map (\<lambda>(d, ps). map (Pair d) ps) liq_pairs))) (\<lambda>es. returnE (best_target es acc))" for acc
  proof (induction liq_pairs arbitrary: acc)
    case Nil
    then show ?case by (auto simp: fun_eq_iff py_simps best_target_def)
  next
    case (Cons x xs)
    obtain d ps where x: "x = (d, ps)" by (cases x)
    have m: "mapE (\<lambda>(d, p). g d p) (map (Pair d) ps) = mapE (g d) ps"
      by (induction ps) (simp_all)
    have b: "best_target (a @ b) acc = best_target b (best_target a acc)" for a b acc by (simp add: best_target_def)
    show ?case
      using Cons by (auto simp: x m b mapE_append fun_eq_iff py_simps split: sum.splits)
  qed
  then show ?thesis
    unfolding profit_simulation_def evaluations_def foldE_best g_def [symmetric] 
    by (auto simp: fun_eq_iff py_simps split: sum.splits prod.splits)
qed

section \<open>Users that are being liquidated\<close>

text \<open>The entry of a user and a market is the list of the amount and the index of the attempt.\<close>

datatype liq_mark = MarkDebt int | MarkIndex string

type_synonym liq_marks = "(string, (string, liq_mark list) dict) dict"

definition mark_debt :: "liq_mark \<Rightarrow> int res" where
  "mark_debt m = (case m of MarkDebt d \<Rightarrow> Inr d | MarkIndex _ \<Rightarrow> Inl TypeError)"

definition free_user_liquidated :: "string \<Rightarrow> string \<Rightarrow> (liq_marks, unit) eff" where
  "free_user_liquidated user debt =
     bindE (getR (\<lambda>m. dgetR m user)) (\<lambda>d.
     bindE (liftR (dgetR d debt)) (\<lambda>l.
     if l = [] then raiseE IndexError
     else modE (dput user (dput debt (butlast l) d))))"

definition is_user_liquidated :: "string \<Rightarrow> string \<Rightarrow> int \<Rightarrow> (liq_marks, liq_mark option) eff" where
  \<comment> \<open>\<open>Some index\<close> for \<open>(True, prev_index)\<close>\<close>
  "is_user_liquidated user debt debt_to_cover =
     bindE (getE (\<lambda>m. dget m user)) (\<lambda>du. case du of
       None \<Rightarrow> returnE None
     | Some d \<Rightarrow> (case dget d debt of
         None \<Rightarrow> returnE None
       | Some l \<Rightarrow>
           bindE (liftR (bindR (py_index l 0) mark_debt)) (\<lambda>prev_debt_to_cover.
           bindE (liftR (py_index l 1)) (\<lambda>prev_index.
           bindE (liftR (int_truediv debt_to_cover prev_debt_to_cover)) (\<lambda>q.
           if \<bar>fsub q 1\<bar> < rnd (1/10) then returnE (Some prev_index)
           else thenE (modE (dput user (dput debt [MarkDebt debt_to_cover, prev_index] d))) (returnE None))))))"

definition set_user_liquidated :: "string \<Rightarrow> string \<Rightarrow> string \<Rightarrow> int \<Rightarrow> (liq_marks, unit) eff" where
  "set_user_liquidated index user debt debt_to_cover =
     thenE (modE (\<lambda>m. if dget m user = None then dput user [] m else m))
     (modE (\<lambda>m. dput user (dput debt [MarkDebt debt_to_cover, MarkIndex index] (the (dget m user))) m))"

section \<open>Starting a liquidation\<close>

record liq_world =
  lw_routers :: "string list"
  lw_marks :: liq_marks
  lw_accounts :: "acc_compound list"
  lw_ids :: nat

definition on_routers :: "(string list, 'a) eff \<Rightarrow> (liq_world, 'a) eff" where
  "on_routers m = (\<lambda>w. case m (lw_routers w) of (r, g) \<Rightarrow> (r, w\<lparr>lw_routers := g\<rparr>))"

definition on_marks :: "(liq_marks, 'a) eff \<Rightarrow> (liq_world, 'a) eff" where
  "on_marks m = (\<lambda>w. case m (lw_marks w) of (r, g) \<Rightarrow> (r, w\<lparr>lw_marks := g\<rparr>))"

text \<open>The price of the chain's coin, in the unit of the revenue.\<close>

definition base_price :: "ctokens \<Rightarrow> send_type \<Rightarrow> pyfloat res" where
  "base_price ctk st = (case price_token st of
     None \<Rightarrow> Inr 1
   | Some ctoken_addr \<Rightarrow>
       bindR (ctk_price_current ctk ctoken_addr) (\<lambda>pr.
       bindR (ctk_configs ctk ctoken_addr) (\<lambda>cfg.
       bindR (venus_price_scale_inverse pr (fst (venus_gen_oracle_params (st_price_decimals st) cfg)) (st_price_decimals st)) (\<lambda>q.
       bindR (fdiv q (fl_int (10 ^ st_price_decimals st))) (\<lambda>q2. Inr (fmul q2 (fl_int EXP_SCALE)))))))"

definition liquidation_profit :: "ctokens \<Rightarrow> send_type \<Rightarrow> int \<Rightarrow> int \<Rightarrow> pyfloat res" where
  "liquidation_profit ctk st revenue gas_fee =
     bindR (base_price ctk st) (\<lambda>pr.
     bindR (int_truediv gas_fee (10 ^ 18)) (\<lambda>g.
       Inr (fsub (fl_int revenue) (fmul (fmul g (fl_int (estimate_gas st))) pr))))"

definition liquidation_start ::
    "signer \<Rightarrow> string \<Rightarrow> string \<Rightarrow> ctokens \<Rightarrow> block_infos \<Rightarrow> routs \<Rightarrow> liq_pair \<Rightarrow> int option \<Rightarrow> send_type \<Rightarrow>
     (liq_world, task list) eff" where
  "liquidation_start sign index usr ctk b r pair sig_gas st =
     bindE (on_marks (is_user_liquidated usr (lp_debt_ctoken pair) (lp_repay_amount pair))) (\<lambda>prev.
     if prev \<noteq> None then returnE []
     else bindE (liftR (create_liq_transaction st (of_int (lp_profit pair)) b sig_gas)) (\<lambda>(tx, gas_fee).
       bindE (liftR (liquidation_profit ctk st (lp_profit pair) gas_fee)) (\<lambda>profit.
       if profit < 0 then returnE []
       else if length (paths r) = 0 then returnE []
       else bindE (liftR (fromhex (drop 2 (bot_gen usr (lp_debt_ctoken pair) (lp_col_ctoken pair) (paths r))))) (\<lambda>data.
         thenE (on_marks (set_user_liquidated index usr (lp_debt_ctoken pair) (lp_repay_amount pair)))
         (bindE (getE lw_accounts) (\<lambda>accs.
          let (ts, accs1) = sign_sending_tx_to_tasks sign index
                (tx\<lparr>t_data := Some data, t_to := Some (drop 2 (contract_addr P_ALIAS)), t_chainId := Some CHAIN_ID\<rparr>) profit accs
          in thenE (modE (\<lambda>w. w\<lparr>lw_accounts := accs1\<rparr>)) (returnE ts)))))))"

text \<open>\<open>generate_unique_id\<close> draws random text: \<open>unique_id n\<close> is the \<open>n\<close>-th draw.\<close>

definition draw_id :: "(nat \<Rightarrow> string) \<Rightarrow> (liq_world, string) eff" where
  "draw_id unique_id = bindE (getE lw_ids) (\<lambda>n. thenE (modE (\<lambda>w. w\<lparr>lw_ids := Suc n\<rparr>)) (returnE (unique_id n)))"

definition simulate_user ::
    "signer \<Rightarrow> (nat \<Rightarrow> string) \<Rightarrow> ctokens \<Rightarrow> comet_configs \<Rightarrow> block_infos \<Rightarrow> 'l pools \<Rightarrow> 'l swap \<Rightarrow> int option \<Rightarrow> send_type \<Rightarrow>
     hf_result \<Rightarrow> (liq_world, task list) eff" where
  \<comment> \<open>the body of the loop of \<open>signal_simulate_health_factor\<close>\<close>
  "simulate_user sign unique_id ctk com b pools swap_func sig_gas st res1 = (case res1 of (usr, h, rs) \<Rightarrow>
     bindE (liftR (fdiv (hf_value h) (fl_int HF_THRESHOLD))) (\<lambda>ratio.
     if \<not> (ratio < 1 \<and> 0 < ratio) then returnE []
     else bindE (liftR (liquidation_simulation rs ctk com)) (\<lambda>liq_pairs.
       if length liq_pairs = 0 then returnE []
       else bindE (liftR (bindR (dgetR liq_pairs (fst (hd liq_pairs))) (\<lambda>ps. py_index ps 0))) (\<lambda>p0.
         if lp_profit p0 < DESIRED_PROFIT_SCALE then returnE []
         else bindE (on_routers (profit_simulation ctk liq_pairs pools swap_func)) (\<lambda>target. case target of
             None \<Rightarrow> returnE []
           | Some (pair, r) \<Rightarrow> bindE (draw_id unique_id) (\<lambda>index.
               if lp_profit pair < DESIRED_PROFIT_SCALE then returnE []
               else liquidation_start sign index usr ctk b r pair sig_gas st))))))"

definition signal_simulate_health_factor ::
    "signer \<Rightarrow> (nat \<Rightarrow> string) \<Rightarrow> hf_result list \<Rightarrow> ctokens \<Rightarrow> comet_configs \<Rightarrow> block_infos \<Rightarrow> 'l pools \<Rightarrow> 'l swap \<Rightarrow>
     int option \<Rightarrow> send_type \<Rightarrow> (liq_world, task list) eff" where
  "signal_simulate_health_factor sign unique_id results ctk com b pools swap_func sig_gas st =
     foldE (\<lambda>res1 tasks. bindE (simulate_user sign unique_id ctk com b pools swap_func sig_gas st res1) (\<lambda>ts.
       returnE (tasks @ ts))) results []"

section \<open>What is sent\<close>

text \<open>A user just recorded as being liquidated is recognized for the same debt market as long as the
  amount differs by less than a tenth, and the record stays.\<close>

lemma set_then_is_liquidated:
  assumes "a \<noteq> 0" "\<bar>rnd (rnd (of_int b / of_int a) - 1)\<bar> < rnd (1/10)"
  shows "is_user_liquidated u d b (snd (set_user_liquidated index u d a m)) =
    (Inr (Some (MarkIndex index)), snd (set_user_liquidated index u d a m))"
  using assms by (simp add: is_user_liquidated_def set_user_liquidated_def py_simps py_index_def mark_debt_def
      int_truediv_def fsub_def)

lemma is_user_liquidated_same: "dget (snd (is_user_liquidated u d a m)) v = dget m v" if "v \<noteq> u" for v
  using that by (auto simp: is_user_liquidated_def py_simps split: option.splits sum.splits)

lemma set_user_liquidated_run: "\<exists>m'. set_user_liquidated index u d a m = (Inr (), m')"
  by (simp add: set_user_liquidated_def py_simps)

definition liq_tx :: "tx_params \<Rightarrow> bytes \<Rightarrow> tx_params" where
  "liq_tx tx data = tx\<lparr>t_data := Some data, t_to := Some (drop 2 (contract_addr P_ALIAS)), t_chainId := Some CHAIN_ID\<rparr>"

definition signed_tasks :: "signer \<Rightarrow> string \<Rightarrow> tx_params \<Rightarrow> pyfloat \<Rightarrow> acc_compound list \<Rightarrow> task list" where
  \<comment> \<open>one task per account, signed with the account's own nonce\<close>
  "signed_tasks sign index tx profit accs = map (\<lambda>acc. \<lparr>task_index = index,
     task_raw = sign (acc_address acc) (tx\<lparr>t_nonce := Some (acc_nonce acc)\<rparr>), task_profit = profit\<rparr>) accs"

lemma liquidation_start_cases:
  assumes "liquidation_start sign index usr ctk b r pair sig_gas st w = (Inr ts, w')"
  obtains (nothing) "ts = []" "lw_accounts w' = lw_accounts w"
  | (sent) tx gas_fee profit data m where
      "create_liq_transaction st (of_int (lp_profit pair)) b sig_gas = Inr (tx, gas_fee)"
      "liquidation_profit ctk st (lp_profit pair) gas_fee = Inr profit" "0 \<le> profit" "paths r \<noteq> []"
      "fromhex (drop 2 (bot_gen usr (lp_debt_ctoken pair) (lp_col_ctoken pair) (paths r))) = Inr data"
      "ts = signed_tasks sign index (liq_tx tx data) profit (lw_accounts w)"
      "lw_accounts w' = map (\<lambda>acc. acc\<lparr>acc_nonce := acc_nonce acc + 1\<rparr>) (lw_accounts w)"
      "lw_marks w' = snd (set_user_liquidated index usr (lp_debt_ctoken pair) (lp_repay_amount pair) m)"
proof -
  obtain prev m where m: "is_user_liquidated usr (lp_debt_ctoken pair) (lp_repay_amount pair) (lw_marks w) = (Inr prev, m)"
    using assms by (auto simp: liquidation_start_def on_marks_def py_simps split: sum.splits prod.splits)
  show thesis
  proof (cases "prev = None \<and> ts \<noteq> []")
    case False
    then have "ts = [] \<and> lw_accounts w' = lw_accounts w"
      using assms m
      by (auto simp: liquidation_start_def on_marks_def py_simps sign_tasks_spec Let_def split: sum.splits prod.splits if_splits)
    then show thesis using that(1) by blast
  next
    case True
    then obtain tx gas_fee where tx: "create_liq_transaction st (of_int (lp_profit pair)) b sig_gas = Inr (tx, gas_fee)"
      using assms m by (auto simp: liquidation_start_def on_marks_def py_simps split: sum.splits)
    then obtain profit where pf: "liquidation_profit ctk st (lp_profit pair) gas_fee = Inr profit"
      using assms m True by (auto simp: liquidation_start_def on_marks_def py_simps split: sum.splits)
    then have c: "0 \<le> profit" "paths r \<noteq> []"
      using assms m True tx by (auto simp: liquidation_start_def on_marks_def py_simps split: sum.splits if_splits)
    then obtain data where d: "fromhex (drop 2 (bot_gen usr (lp_debt_ctoken pair) (lp_col_ctoken pair) (paths r))) = Inr data"
      using assms m True tx pf by (auto simp: liquidation_start_def on_marks_def py_simps split: sum.splits if_splits)
    obtain m2 where m2: "set_user_liquidated index usr (lp_debt_ctoken pair) (lp_repay_amount pair) m = (Inr (), m2)"
      using set_user_liquidated_run by blast
    have "liquidation_start sign index usr ctk b r pair sig_gas st w = (Inr (signed_tasks sign index (liq_tx tx data) profit (lw_accounts w)),
        w\<lparr>lw_marks := m2, lw_accounts := map (\<lambda>acc. acc\<lparr>acc_nonce := acc_nonce acc + 1\<rparr>) (lw_accounts w)\<rparr>)"
      using m True tx pf c d m2
      by (simp add: liquidation_start_def on_marks_def py_simps sign_tasks_spec Let_def signed_tasks_def liq_tx_def)
    then show thesis
      using that(2) [OF tx pf c d, of m] m2 assms by simp
  qed
qed

lemma liquidation_start_profit:
  "liquidation_start sign index usr ctk b r pair sig_gas st w = (Inr ts, w') \<Longrightarrow> \<forall>t \<in> set ts. 0 \<le> task_profit t \<and> task_index t = index"
  by (erule liquidation_start_cases) (auto simp: signed_tasks_def)

lemma liquidation_start_sends:
  assumes "is_user_liquidated usr (lp_debt_ctoken pair) (lp_repay_amount pair) (lw_marks w) = (Inr None, m)"
    and "create_liq_transaction st (of_int (lp_profit pair)) b sig_gas = Inr (tx, gas_fee)"
    and "liquidation_profit ctk st (lp_profit pair) gas_fee = Inr profit" "0 \<le> profit" "paths r \<noteq> []"
    and "fromhex (drop 2 (bot_gen usr (lp_debt_ctoken pair) (lp_col_ctoken pair) (paths r))) = Inr data"
  shows "\<exists>w'. liquidation_start sign index usr ctk b r pair sig_gas st w =
    (Inr (signed_tasks sign index (liq_tx tx data) profit (lw_accounts w)), w')"
proof -
  obtain m2 where m2: "set_user_liquidated index usr (lp_debt_ctoken pair) (lp_repay_amount pair) m = (Inr (), m2)"
    using set_user_liquidated_run by blast
  show ?thesis
    using assms m2
    by (simp add: liquidation_start_def on_marks_def py_simps sign_tasks_spec Let_def signed_tasks_def liq_tx_def)
qed

text \<open>The target of the second simulation is one of the pairs, with its profit after the swap.\<close>

lemma mapE_in:
  "mapE f xs s = (Inr ys, s') \<Longrightarrow> y \<in> set ys \<Longrightarrow> \<exists>x \<in> set xs. \<exists>s1 s2. f x s1 = (Inr y, s2)"
proof (induction xs arbitrary: s ys s')
  case (Cons x xs)
  obtain r1 s1 where f: "f x s = (r1, s1)" by (cases "f x s")
  then obtain y1 where y1: "r1 = Inr y1" using Cons.prems(1) by (cases r1) (simp_all add: py_simps)
  obtain r2 s2 where m: "mapE f xs s1 = (r2, s2)" by (cases "mapE f xs s1")
  then obtain ys1 where ys1: "r2 = Inr ys1" using Cons.prems(1) f y1 by (cases r2) (simp_all add: py_simps)
  have "ys = y1 # ys1" using Cons.prems(1) f y1 m ys1 by (simp add: py_simps)
  then show ?case using Cons.prems(2) Cons.IH [OF m [unfolded ys1]] f y1 by auto
qed (simp add: py_simps)

lemma evaluate_pair_same:
  "evaluate_pair ctk pools swap_func d q g = (Inr (Some (pair, r)), g') \<Longrightarrow> pair = q\<lparr>lp_profit := lp_profit pair\<rparr>"
  by (auto simp: evaluate_pair_def py_simps Let_def split: if_splits sum.splits prod.splits)

lemma profit_simulation_target:
  assumes "profit_simulation ctk liq_pairs pools swap_func g = (Inr (Some (pair, r)), g')"
  shows "\<exists>d qs q. (d, qs) \<in> set liq_pairs \<and> q \<in> set qs \<and> pair = q\<lparr>lp_profit := lp_profit pair\<rparr>"
proof -
  obtain r1 g1 where e: "evaluations ctk liq_pairs pools swap_func g = (r1, g1)"
    by (cases "evaluations ctk liq_pairs pools swap_func g")
  obtain es where es: "r1 = Inr es" using assms e by (cases r1) (simp_all add: profit_simulation_best py_simps)
  obtain mx t where b: "best_target es (0, None) = (mx, t)" by (cases "best_target es (0, None)")
  have "t = Some (pair, r)" using assms e es b by (simp add: profit_simulation_best py_simps)
  then have "Some (pair, r) \<in> set es" using best_target_spec [OF b] by auto
  from mapE_in [OF e [unfolded es evaluations_def] this] obtain d qs q s1 s2 where
    "(d, qs) \<in> set liq_pairs" "q \<in> set qs" "evaluate_pair ctk pools swap_func d q s1 = (Inr (Some (pair, r)), s2)"
    by auto
  then show ?thesis using evaluate_pair_same by blast
qed

text \<open>
  Why a task may be sent: the health factor of the user is strictly between 0 and 1, and the
  signed call is for this user and one of the pairs of the simulation, along a route that exists.
\<close>

definition call_for :: "signer \<Rightarrow> string \<Rightarrow> liq_pair \<Rightarrow> task \<Rightarrow> bool" where
  "call_for sign usr q t \<longleftrightarrow> 0 \<le> task_profit t \<and> (\<exists>ps data acc tx. ps \<noteq> [] \<and>
     fromhex (drop 2 (bot_gen usr (lp_debt_ctoken q) (lp_col_ctoken q) ps)) = Inr data \<and>
     t_data tx = Some data \<and> t_to tx = Some (drop 2 (contract_addr P_ALIAS)) \<and> task_raw t = sign acc tx)"

definition justified :: "signer \<Rightarrow> ctokens \<Rightarrow> comet_configs \<Rightarrow> hf_result \<Rightarrow> task \<Rightarrow> bool" where
  "justified sign ctk com res t \<longleftrightarrow> (case res of (usr, h, rs) \<Rightarrow> 0 < hf_value h \<and> hf_value h < 1 \<and>
     (\<exists>pairs d qs q. liquidation_simulation rs ctk com = Inr pairs \<and> (d, qs) \<in> set pairs \<and> q \<in> set qs \<and>
        call_for sign usr q t))"

lemma liquidation_start_calls:
  assumes "liquidation_start sign index usr ctk b r pair sig_gas st w = (Inr ts, w')" "t \<in> set ts"
  shows "call_for sign usr pair t"
  using assms(1)
proof (cases rule: liquidation_start_cases)
  case nothing
  then show ?thesis using assms(2) by simp
next
  case (sent tx gas_fee profit data m)
  then obtain acc :: acc_compound where acc: "t = \<lparr>task_index = index,
     task_raw = sign (acc_address acc) (liq_tx tx data\<lparr>t_nonce := Some (acc_nonce acc)\<rparr>), task_profit = profit\<rparr>"
    using assms(2) by (auto simp: signed_tasks_def)
  define tx1 where "tx1 = liq_tx tx data\<lparr>t_nonce := Some (acc_nonce acc)\<rparr>"
  have "t_data tx1 = Some data" "t_to tx1 = Some (drop 2 (contract_addr P_ALIAS))" by (simp_all add: tx1_def liq_tx_def)
  moreover have "task_raw t = sign (acc_address acc) tx1" "task_profit t = profit" by (simp_all add: acc tx1_def)
  ultimately show ?thesis unfolding call_for_def using sent(3-5) by blast
qed

lemma simulate_user_tasks:
  assumes "simulate_user sign unique_id ctk com b pools swap_func sig_gas st (usr, h, rs) w = (Inr ts, w')" "t \<in> set ts"
  shows "justified sign ctk com (usr, h, rs) t"
proof -
  have f: "fdiv (hf_value h) (fl_int HF_THRESHOLD) = Inr (rnd (hf_value h))"
    by (simp add: fdiv_def HF_THRESHOLD_def fl_int_def)
  have g: "0 < rnd (hf_value h)" "rnd (hf_value h) < 1"
    using assms by (auto simp: simulate_user_def f py_simps split: if_splits)
  then have hf: "0 < hf_value h" "hf_value h < 1" by (simp_all add: ieee.fl_pos_iff ieee.fl_less_oneD)
  obtain pairs pair r index w1 where ls: "liquidation_simulation rs ctk com = Inr pairs"
    and ps: "\<exists>g g'. profit_simulation ctk pairs pools swap_func g = (Inr (Some (pair, r)), g')"
    and s: "liquidation_start sign index usr ctk b r pair sig_gas st w1 = (Inr ts, w')"
    using assms g by (auto simp: simulate_user_def on_routers_def f py_simps not_less split: if_splits sum.splits option.splits prod.splits)
      (metis prod.collapse)+
  obtain d qs q where q: "(d, qs) \<in> set pairs" "q \<in> set qs" "pair = q\<lparr>lp_profit := lp_profit pair\<rparr>"
    using ps profit_simulation_target by blast
  have "lp_debt_ctoken pair = lp_debt_ctoken q \<and> lp_col_ctoken pair = lp_col_ctoken q"
    by (subst q(3), simp)+
  then have "call_for sign usr q t" using liquidation_start_calls [OF s assms(2)] by (simp add: call_for_def)
  with hf ls q show ?thesis by (auto simp: justified_def)
qed

lemma signal_simulate_tasks:
  assumes "signal_simulate_health_factor sign unique_id results ctk com b pools swap_func sig_gas st w = (Inr tasks, w')"
  shows "\<forall>t \<in> set tasks. \<exists>res \<in> set results. justified sign ctk com res t"
proof -
  define P where "P t \<longleftrightarrow> (\<exists>res \<in> set results. justified sign ctk com res t)" for t :: task
  define F where "F = (\<lambda>res1 tasks. bindE (simulate_user sign unique_id ctk com b pools swap_func sig_gas st res1) (\<lambda>ts.
       returnE (tasks @ ts)))"
  have "\<forall>t \<in> set tasks. P t" if "set rest \<subseteq> set results" "\<forall>t \<in> set tasks0. P t"
    "foldE F rest tasks0 w0 = (Inr tasks, w')" for rest tasks0 w0
    using that
  proof (induction rest arbitrary: tasks0 w0)
    case Nil
    then show ?case by (simp add: py_simps)
  next
    case (Cons x rest)
    obtain usr h rs where x: "x = (usr, h, rs)" by (cases x) auto
    obtain q w1 where q: "simulate_user sign unique_id ctk com b pools swap_func sig_gas st x w0 = (q, w1)"
      by (cases "simulate_user sign unique_id ctk com b pools swap_func sig_gas st x w0")
    obtain ts where ts0: "q = Inr ts" using Cons.prems(3) by (cases q) (simp_all add: q F_def py_simps)
    have ts: "simulate_user sign unique_id ctk com b pools swap_func sig_gas st x w0 = (Inr ts, w1)" using q ts0 by simp
    then have "F x tasks0 w0 = (Inr (tasks0 @ ts), w1)" by (simp add: F_def py_simps)
    then have rest: "foldE F rest (tasks0 @ ts) w1 = (Inr tasks, w')"
      using Cons.prems(3) by (simp add: bindE_apply)
    have "\<forall>t \<in> set ts. P t"
      using simulate_user_tasks [OF ts [unfolded x]] Cons.prems(1) x unfolding P_def by fastforce
    then show ?case using Cons.IH [OF _ _ rest] Cons.prems by auto
  qed
  from this [OF subset_refl, of "[]" w] assms show ?thesis
    by (simp add: signal_simulate_health_factor_def F_def P_def)
qed

section \<open>Searching the users in the order of their health factors\<close>

definition calculate_health_factor_fake_inverse :: "pyfloat \<Rightarrow> pyfloat \<Rightarrow> pyfloat res" where
  "calculate_health_factor_fake_inverse health_factor_after delta =
     bindR (if delta < 0 then Inr (fadd 1 delta) else fdiv 1 (fadd 1 delta)) (\<lambda>f_delta.
       fdiv health_factor_after f_delta)"

definition hf_lookup :: "'a states_scheme \<Rightarrow> string \<Rightarrow> pyfloat res" where
  "hf_lookup s usr = bindR (user_of s usr) (\<lambda>o1. Inr (hf_value (user_hf o1)))"

fun find_hf_loop :: "(string \<Rightarrow> pyfloat res) \<Rightarrow> pyfloat \<Rightarrow> string list \<Rightarrow> string list \<Rightarrow> string list res" where
  "find_hf_loop hf thres [] filtered = Inr filtered"
| "find_hf_loop hf thres (usr # users) filtered =
     bindR (hf usr) (\<lambda>h.
       let filtered1 = (if h < thres then filtered @ [usr] else filtered)
       in if rnd (101/100) < h then Inr filtered1 else find_hf_loop hf thres users filtered1)"

definition find_hf_users :: "'a states_scheme \<Rightarrow> string list \<Rightarrow> pyfloat \<Rightarrow> string list res" where
  "find_hf_users s users delta_max =
     bindR (calculate_health_factor_fake_inverse (fl_int HF_THRESHOLD) delta_max) (\<lambda>thres.
       find_hf_loop (hf_lookup s) thres users [])"

text \<open>The same loop over indices.\<close>

definition find_hf_users_index_by_seq :: "'a states_scheme \<Rightarrow> string list \<Rightarrow> pyfloat \<Rightarrow> string list res" where
  "find_hf_users_index_by_seq s users delta_max =
     bindR (calculate_health_factor_fake_inverse (fl_int HF_THRESHOLD) delta_max) (\<lambda>thres.
       find_hf_loop (hf_lookup s) thres (map (\<lambda>i. users ! i) [0..<length users]) [])"

text \<open>\<open>round((left + right)/2)\<close> rounds halves to the even neighbour.\<close>

definition mid_index :: "int \<Rightarrow> int \<Rightarrow> int" where
  "mid_index left right = rne (of_int (left + right) / 2)"

lemma mid_index_between: "left + 1 < right \<Longrightarrow> left < mid_index left right \<and> mid_index left right < right"
proof -
  assume lr: "left + 1 < right"
  have "of_int (left + 1) \<le> (of_int (left + right) / 2 :: rat)" "(of_int (left + right) / 2 :: rat) \<le> of_int (right - 1)"
  proof -
    have "of_int (2 * (left + 1)) \<le> (of_int (left + right) :: rat)" using lr by (intro of_int_le_iff [THEN iffD2]) simp
    then show "of_int (left + 1) \<le> (of_int (left + right) / 2 :: rat)" by simp
    have "(of_int (left + right) :: rat) \<le> of_int (2 * (right - 1))" using lr by (intro of_int_le_iff [THEN iffD2]) simp
    then show "(of_int (left + right) / 2 :: rat) \<le> of_int (right - 1)" by simp
  qed
  then have "rne (of_int (left + 1)) \<le> mid_index left right" "mid_index left right \<le> rne (of_int (right - 1))"
    unfolding mid_index_def by (auto intro: rne_mono simp del: rne_of_int)
  then show ?thesis unfolding rne_of_int by simp
qed

function binary_loop :: "(int \<Rightarrow> pyfloat res) \<Rightarrow> pyfloat \<Rightarrow> int \<Rightarrow> int \<Rightarrow> (int \<times> int) res" where
  "binary_loop hf thres left right =
     (if left < right - 1 then
        bindR (hf (mid_index left right)) (\<lambda>h.
          if h < thres then binary_loop hf thres (mid_index left right) right
          else binary_loop hf thres left (mid_index left right))
      else Inr (left, right))"
  by pat_completeness auto
termination
  by (relation "measure (\<lambda>(_, _, l, r). nat (r - l))") (auto dest!: mid_index_between [rotated] simp: mid_index_between)

declare binary_loop.simps [simp del]

definition find_hf_users_index_by_binary :: "'a states_scheme \<Rightarrow> string list \<Rightarrow> pyfloat \<Rightarrow> int res" where
  "find_hf_users_index_by_binary s sorted_users delta_max =
     bindR (calculate_health_factor_fake_inverse (fl_int HF_THRESHOLD) delta_max) (\<lambda>thres.
     let hf = (\<lambda>i. bindR (py_index sorted_users i) (hf_lookup s)) in
     bindR (binary_loop hf thres 0 (int (length sorted_users) - 1)) (\<lambda>(left, right).
     bindR (hf right) (\<lambda>hf_right. bindR (hf left) (\<lambda>hf_left.
       Inr (if hf_right < thres then right + 1 else if thres < hf_left then left else left + 1)))))"

lemma binary_loop_run:
  assumes "\<forall>i. l \<le> i \<and> i \<le> r \<longrightarrow> hf i = Inr (H i)" "l \<le> r"
    and "\<forall>i j. l \<le> i \<and> i \<le> j \<and> j \<le> r \<longrightarrow> H i \<le> H j"
  shows "\<exists>l' r'. binary_loop hf thres l r = Inr (l', r') \<and> l \<le> l' \<and> l' \<le> r' \<and> r' \<le> r \<and> r' - l' \<le> 1 \<and>
    (l' = l \<or> H l' < thres) \<and> (r' = r \<or> thres \<le> H r')"
  using assms
proof (induction hf thres l r rule: binary_loop.induct)
  case (1 hf thres l r)
  show ?case
  proof (cases "l < r - 1")
    case False
    then show ?thesis using 1(4) by (subst binary_loop.simps) auto
  next
    case True
    define m where "m = mid_index l r"
    have m: "l < m" "m < r" using mid_index_between [of l r] True by (auto simp: m_def)
    have hm: "hf m = Inr (H m)" using 1(3) m by auto
    show ?thesis
    proof (cases "H m < thres")
      case less: True
      have "\<exists>l' r'. binary_loop hf thres m r = Inr (l', r') \<and> m \<le> l' \<and> l' \<le> r' \<and> r' \<le> r \<and> r' - l' \<le> 1 \<and>
          (l' = m \<or> H l' < thres) \<and> (r' = r \<or> thres \<le> H r')"
        using 1(1) [OF True less [unfolded m_def]] 1(3,5) m by (auto simp: m_def [symmetric])
      then show ?thesis using True hm less m by (subst binary_loop.simps) (auto simp: m_def [symmetric])
    next
      case ge: False
      have "\<exists>l' r'. binary_loop hf thres l m = Inr (l', r') \<and> l \<le> l' \<and> l' \<le> r' \<and> r' \<le> m \<and> r' - l' \<le> 1 \<and>
          (l' = l \<or> H l' < thres) \<and> (r' = m \<or> thres \<le> H r')"
        using 1(2) [OF True ge [unfolded m_def]] 1(3,5) m by (auto simp: m_def [symmetric])
      then show ?thesis using True hm ge m by (subst binary_loop.simps) (auto simp: m_def [symmetric] not_less)
    qed
  qed
qed

text \<open>(C7) The binary search in the users sorted by health factor returns an index that splits the list at
  the threshold: nobody before it is above, nobody from it on is below.\<close>

lemma binary_search_splits:
  assumes "users \<noteq> []" "\<forall>i < length users. hf_lookup s (users ! i) = Inr (H i)"
    and "\<forall>i j. i \<le> j \<and> j < length users \<longrightarrow> H i \<le> H j"
    and "calculate_health_factor_fake_inverse (fl_int HF_THRESHOLD) delta = Inr thres"
  shows "\<exists>k. find_hf_users_index_by_binary s users delta = Inr (int k) \<and> k \<le> length users \<and>
    (\<forall>i < k. H i \<le> thres) \<and> (\<forall>i < length users. k \<le> i \<longrightarrow> thres \<le> H i)"
proof -
  define n where "n = length users"
  have n: "0 < n" using assms(1) by (simp add: n_def)
  define hf where "hf = (\<lambda>i. bindR (py_index users i) (hf_lookup s))"
  define G where "G i = H (nat i)" for i
  have hf: "hf i = Inr (G i)" if "0 \<le> i" "i \<le> int n - 1" for i
  proof -
    have "nat i < length users" using that by (auto simp: n_def)
    then have "py_index users i = Inr (users ! nat i)" using py_index_nat [of "nat i" users] that by simp
    then show ?thesis using assms(2) \<open>nat i < length users\<close> by (simp add: hf_def G_def)
  qed
  have mono: "G i \<le> G j" if "0 \<le> i" "i \<le> j" "j \<le> int n - 1" for i j
    using assms(3) that by (simp add: G_def n_def nat_le_iff nat_less_iff)
  obtain l r where lr: "binary_loop hf thres 0 (int n - 1) = Inr (l, r)" "0 \<le> l" "l \<le> r" "r \<le> int n - 1" "r - l \<le> 1"
    "l = 0 \<or> G l < thres" "r = int n - 1 \<or> thres \<le> G r"
    using binary_loop_run [of 0 "int n - 1" hf G thres] hf mono n by auto
  define k where "k = (if G r < thres then r + 1 else if thres < G l then l else l + 1)"
  have run: "find_hf_users_index_by_binary s users delta = Inr k"
    using assms(4) lr hf by (simp add: find_hf_users_index_by_binary_def hf_def [symmetric] n_def [symmetric] k_def)
  have k: "0 \<le> k" "k \<le> int n" using lr by (auto simp: k_def)
  have lo: "G i \<le> thres" if "0 \<le> i" "i < k" for i
  proof (cases "G r < thres")
    case True
    then show ?thesis using mono [of i r] that lr by (simp add: k_def)
  next
    case False
    then have "i \<le> l" "thres < G l \<longrightarrow> i < l" using that by (auto simp: k_def split: if_splits)
    then show ?thesis using mono [of i l] that lr by force
  qed
  have hi: "thres \<le> G i" if "k \<le> i" "i \<le> int n - 1" for i
  proof (cases "G r < thres")
    case True
    then show ?thesis using that lr by (auto simp: k_def)
  next
    case False
    then have "l \<le> i" "thres < G l \<or> l + 1 \<le> i" using that by (auto simp: k_def split: if_splits)
    then show ?thesis
      using mono [of l i] mono [of r i] that lr False by (cases "thres < G l") auto
  qed
  have "\<exists>k'. k = int k'" using k by (metis nat_0_le)
  then obtain k' where k': "k = int k'" by blast
  have "\<forall>i < k'. H i \<le> thres" using lo k' by (metis G_def nat_int of_nat_0_le_iff of_nat_less_iff)
  moreover have "\<forall>i < length users. k' \<le> i \<longrightarrow> thres \<le> H i"
  proof (intro allI impI)
    fix i assume "i < length users" "k' \<le> i"
    then show "thres \<le> H i" using hi [of "int i"] k' by (simp add: G_def n_def)
  qed
  ultimately show ?thesis using run k k' by (auto simp: n_def)
qed

lemma binary_search_empty:
  "calculate_health_factor_fake_inverse (fl_int HF_THRESHOLD) delta = Inr thres \<Longrightarrow>
   find_hf_users_index_by_binary s [] delta = Inl IndexError"
  by (simp add: find_hf_users_index_by_binary_def binary_loop.simps py_index_def)

end
