(* ===== verification/Bot.thy ===== *)
theory Bot
  imports Liquidation
begin

text \<open>
  \<open>compound.py\<close>, the callbacks: a new block header, the idle loop, the logs of the markets, the
  comptroller, the price aggregators and the plug-in, and a pending oracle report. The script's
  globals are the record \<open>bot\<close>; what a callback asks of the node, the clock and the random
  source is the record \<open>bot_env\<close>, one per call. A callback is one step: other coroutines run
  only while a sender awaits the network, and that interleaving is not modelled.

  The locale \<open>market_view\<close> collects the predicates that the handlers of market logs cannot
  change; the anchors of the prices and the block of the last update are instances.
\<close>

section \<open>State\<close>

record signal_info =
  sr_hash :: string
  recv_height :: int
  sr_tx_type :: string
  sr_gas_price :: int
  priority_fee :: int
  sr_raw_tx :: string

record bot =
  bt_states :: high_states
  bt_comet :: comet_configs
  bt_signals :: signals
  bt_blocks :: block_infos
  bt_sender :: bnb48_sender
  bt_world :: liq_world
  users_pending :: "string list list"
  users_continue :: "string list list"
  users_pre_filtered :: "(string, string list) dict"
  signal_recv :: "signal_info option"

record pending_msg =
  pm_tx :: pending_tx
  pm_hash :: string
  pm_type :: string
  pm_priority_fee :: string

record 'l bot_env =
  e_abi :: abi_decoder
  e_checksum :: checksummer
  e_sign :: signer
  e_ids :: "nat \<Rightarrow> string"
  e_pools :: "'l pools"
  e_swap :: "'l swap"
  e_send_type :: send_type
  e_reserves :: "string list"
  e_assets_in :: "string \<Rightarrow> string list res"
  e_vai_repay :: "string \<Rightarrow> int res"
  e_exchange_rate :: "string \<Rightarrow> int res"
  e_gas_price :: "int res"
  e_tx_count :: "string \<Rightarrow> int res"
  e_balance :: "string \<Rightarrow> int res"
  e_encode_tx :: "pending_msg \<Rightarrow> string res"
  e_now :: int

definition zoom :: "('s \<Rightarrow> 't) \<Rightarrow> ('t \<Rightarrow> 's \<Rightarrow> 's) \<Rightarrow> ('t, 'a) eff \<Rightarrow> ('s, 'a) eff" where
  \<comment> \<open>an effect on one of the globals\<close>
  "zoom get put m = (\<lambda>s. case m (get s) of (r, t) \<Rightarrow> (r, put t s))"

definition on_states :: "(high_states, 'a) eff \<Rightarrow> (bot, 'a) eff" where
  "on_states = zoom bt_states (\<lambda>t b. b\<lparr>bt_states := t\<rparr>)"

definition on_comet :: "(comet_configs, 'a) eff \<Rightarrow> (bot, 'a) eff" where
  "on_comet = zoom bt_comet (\<lambda>t b. b\<lparr>bt_comet := t\<rparr>)"

definition on_signals :: "(signals, 'a) eff \<Rightarrow> (bot, 'a) eff" where
  "on_signals = zoom bt_signals (\<lambda>t b. b\<lparr>bt_signals := t\<rparr>)"

definition on_sender :: "(bnb48_sender, 'a) eff \<Rightarrow> (bot, 'a) eff" where
  "on_sender = zoom bt_sender (\<lambda>t b. b\<lparr>bt_sender := t\<rparr>)"

definition on_world :: "(liq_world, 'a) eff \<Rightarrow> (bot, 'a) eff" where
  "on_world = zoom bt_world (\<lambda>t b. b\<lparr>bt_world := t\<rparr>)"

section \<open>Queues\<close>

definition get_data_from_queue :: "'a list list \<Rightarrow> 'a list \<times> 'a list list" where
  "get_data_from_queue q = (case q of [] \<Rightarrow> ([], []) | x # q1 \<Rightarrow> (x, q1))"

definition write_data_from_queue :: "nat \<Rightarrow> 'a list list \<Rightarrow> 'a list \<Rightarrow> 'a list list" where
  \<comment> \<open>\<open>maxsize\<close> 0 is no limit; putting into a full queue raises, which is only logged\<close>
  "write_data_from_queue maxsize q data = (if maxsize = 0 \<or> length q < maxsize then q @ [data] else q)"

section \<open>Prices and markets\<close>

definition mod_price :: "string \<Rightarrow> (ctoken_price, unit) eff \<Rightarrow> ('a states_scheme, unit) eff" where
  \<comment> \<open>an effect on the price object of a market\<close>
  "mod_price a m = bindE (getR (\<lambda>s. ctk_price (s_ctokens s) a)) (\<lambda>p.
     case m p of (r, p1) \<Rightarrow> thenE (mod_ctoken a (\<lambda>i. i\<lparr>price := Some p1\<rparr>)) (liftR r))"

definition set_exchange_rate :: "string \<Rightarrow> int \<Rightarrow> ('a states_scheme, unit) eff" where
  "set_exchange_rate a v = mod_ctoken a (\<lambda>i. i\<lparr>risks := (risks i)\<lparr>exchange_rate := v\<rparr>\<rparr>)"

section \<open>A new block\<close>

record header_msg =
  hm_miner :: string
  hm_number :: string
  hm_timestamp :: string
  hm_baseFeePerGas :: "string option"

definition base_fee_of :: "string option \<Rightarrow> int res" where
  "base_fee_of f = (case f of None \<Rightarrow> Inr 0 | Some s \<Rightarrow> if s = ''None'' then Inr 0 else py_int 16 s)"

definition refresh_nonces :: "(string \<Rightarrow> int res) \<Rightarrow> (liq_world, unit) eff" where
  \<comment> \<open>task 4, account by account: those before a failing query keep their new nonce\<close>
  "refresh_nonces tx_count = bindE (getE (\<lambda>w. length (lw_accounts w))) (\<lambda>n.
     forE (\<lambda>i. bindE (getR (\<lambda>w. tx_count (acc_address (lw_accounts w ! i)))) (\<lambda>c.
       modE (\<lambda>w. w\<lparr>lw_accounts := (lw_accounts w)[i := (lw_accounts w ! i)\<lparr>acc_nonce := c\<rparr>]\<rparr>))) [0..<n])"

definition vBNB_price_key :: string where
  "vBNB_price_key = ''0xA07c5b74C9B40447a954e1466938b865b6BBea36''"

definition on_message :: "'l bot_env \<Rightarrow> header_msg option \<Rightarrow> (bot, unit) eff" where
  \<comment> \<open>\<open>None\<close>: the message has no \<open>params\<close> or no \<open>result\<close>\<close>
  "on_message env message = (case message of None \<Rightarrow> returnE () | Some h \<Rightarrow>
     bindE (liftR (py_int 16 (hm_number h))) (\<lambda>block_number.
     bindE (liftR (py_int 16 (hm_timestamp h))) (\<lambda>block_timestamp.
     bindE (liftR (base_fee_of (hm_baseFeePerGas h))) (\<lambda>fee.
     bindE (liftR (e_gas_price env)) (\<lambda>gas_price.
     thenE (modE (\<lambda>b. b\<lparr>bt_blocks := block_update block_number block_timestamp fee gas_price (bt_blocks b)\<rparr>))
     (thenE (liftR (guardR (e_reserves env \<noteq> []) ZeroDivisionError))
     (let token_addr = e_reserves env ! nat (block_number mod int (length (e_reserves env))) in
      bindE (liftR (e_exchange_rate env token_addr)) (\<lambda>rate.
      thenE (on_states (set_exchange_rate token_addr rate))
      (thenE (on_states (forE (\<lambda>reserve. mod_price reserve (modE (CtokenPrice_revert (e_now env)))) (e_reserves env)))
      (thenE (on_world (refresh_nonces (e_tx_count env)))
      (bindE (getR (\<lambda>b. ctk_price_current (s_ctokens (bt_states b)) vBNB_price_key)) (\<lambda>p.
       on_sender (BnB48_update (e_tx_count env) (e_balance env) p)))))))))))))"

section \<open>A round over some users\<close>

definition bnb48_expire :: "block_infos \<Rightarrow> int \<Rightarrow> int" where
  "bnb48_expire b bn = get_current_timestamp b bn"

definition flash_expire :: "int \<Rightarrow> int" where
  "flash_expire bn = bn + SIG_DELAY_MAX"

definition calculate_users :: "'l bot_env \<Rightarrow> string list \<Rightarrow> (bot, hf_result list) eff" where
  \<comment> \<open>\<open>gen_users_with_args\<close> and \<open>execution_select\<close> of \<open>signal_calculate_health_factor\<close>\<close>
  "calculate_users env users = getR (\<lambda>b.
     bindR (gen_users_with_args (bt_states b) users) (\<lambda>args.
       execution_select (\<lambda>l. signal_calculate_health_factor (e_now env) l (s_ctokens (bt_states b)) (bt_comet b)) args))"

definition liquidate_and_send :: "'l bot_env \<Rightarrow> hf_result list \<Rightarrow> signal_info option \<Rightarrow> (bot, task list) eff" where
  \<comment> \<open>\<open>signal_simulate_health_factor\<close> with the globals, then \<open>sender.send_transactions\<close>\<close>
  "liquidate_and_send env results sig =
     bindE (getE (\<lambda>b. b)) (\<lambda>b.
     bindE (on_world (signal_simulate_health_factor (e_sign env) (e_ids env) results (s_ctokens (bt_states b)) (bt_comet b)
        (bt_blocks b) (e_pools env) (e_swap env) (map_option sr_gas_price sig) (e_send_type env))) (\<lambda>coroutines.
     thenE (on_sender (BnB48_send_transactions (e_sign env) coroutines (bnb48_expire (bt_blocks b) (block_num (bt_blocks b)))
        (map_option (\<lambda>s. Inr (sr_raw_tx s)) sig)))
       (returnE coroutines)))"

definition write_results :: "hf_result list \<Rightarrow> (bot, unit) eff" where
  "write_results results = on_states (write_health_factor results)"

definition liquidation_round :: "'l bot_env \<Rightarrow> string list \<Rightarrow> signal_info option \<Rightarrow> (bot, unit) eff" where
  \<comment> \<open>tasks 1 and 2 of the idle callback\<close>
  "liquidation_round env users sig =
     bindE (calculate_users env users) (\<lambda>results.
     bindE (liquidate_and_send env results sig) (\<lambda>coroutines. write_results results))"

section \<open>The idle callback\<close>

definition sample_round :: "'l bot_env \<Rightarrow> int \<Rightarrow> (bot, unit) eff" where
  "sample_round env index =
     bindE (getR (\<lambda>b. get_users_sampling (bt_states b) (nat index) 10)) (\<lambda>users.
     bindE (getR (\<lambda>b. users_trimming users (bt_states b) (e_now env) False)) (\<lambda>users_trim.
     bindE (calculate_users env users_trim) (\<lambda>results. write_results results)))"

definition prefilter_round :: "'l bot_env \<Rightarrow> int \<Rightarrow> (bot, unit) eff" where
  "prefilter_round env index =
     bindE (getR (\<lambda>b. get_tokens_from_aggr_index (bt_signals b) index)) (\<lambda>(tokens_addr, aggr).
     bindE (getE (\<lambda>b. users_filtering (bt_states b) tokens_addr)) (\<lambda>users.
     bindE (getR (\<lambda>b. users_trimming users (bt_states b) (e_now env + 1200) True)) (\<lambda>users_trim.
       modE (\<lambda>b. b\<lparr>users_pre_filtered := dput aggr users_trim (users_pre_filtered b)\<rparr>))))"

definition liquidation_idle_callback :: "'l bot_env \<Rightarrow> int \<Rightarrow> (bot, int) eff" where
  "liquidation_idle_callback env prev_block =
     bindE (getE (\<lambda>b. block_num (bt_blocks b))) (\<lambda>bn.
     bindE (getE (\<lambda>b. fst (get_data_from_queue (users_continue b)))) (\<lambda>users1.
     thenE (modE (\<lambda>b. b\<lparr>users_continue := snd (get_data_from_queue (users_continue b))\<rparr>))
     (if length users1 \<noteq> 0 then thenE (liquidation_round env users1 None) (returnE prev_block)
      else
        bindE (getE (\<lambda>b. fst (get_data_from_queue (users_pending b)))) (\<lambda>users2.
        thenE (modE (\<lambda>b. b\<lparr>users_pending := snd (get_data_from_queue (users_pending b))\<rparr>))
        (if length users2 \<noteq> 0 then
           bindE (getE (\<lambda>b. case signal_recv b of None \<Rightarrow> None
             | Some sg \<Rightarrow> if recv_height sg = bn then Some sg else None)) (\<lambda>sig.
             thenE (liquidation_round env users2 sig) (returnE prev_block))
         else if bn \<le> prev_block then returnE prev_block
         else
           (let switch = bn mod (60 div INTVL) in
            thenE (if switch = 1 then sample_round env bn
                   else if switch = 3 then prefilter_round env bn else returnE ())
              (returnE bn)))))))"

section \<open>Logs of the markets\<close>

definition refresh_vai_repay :: "(string \<Rightarrow> int res) \<Rightarrow> string list \<Rightarrow> ('a states_scheme, unit) eff" where
  \<comment> \<open>the query comes before the test\<close>
  "refresh_vai_repay vai_repay_of us = forE (\<lambda>usr.
     bindE (liftR (vai_repay_of usr)) (\<lambda>v.
     bindE (getE (\<lambda>s. dget (users_states s) usr = None)) (\<lambda>unknown.
       whenE (\<not> unknown) (mod_user usr (\<lambda>o1. o1\<lparr>vai_repay := v\<rparr>))))) us"

text \<open>
  The place of a user in a list that is sorted by health factor: the first user with a larger
  one, and 0 when there is none.
\<close>

fun insert_index_from :: "(string \<Rightarrow> pyfloat res) \<Rightarrow> pyfloat \<Rightarrow> nat \<Rightarrow> string list \<Rightarrow> nat res" where
  "insert_index_from hf h i [] = Inr 0"
| "insert_index_from hf h i (u # us) =
     bindR (hf u) (\<lambda>hf_compare. if h < hf_compare then Inr i else insert_index_from hf h (Suc i) us)"

definition insert_pre_filtered :: "(string \<Rightarrow> pyfloat res) \<Rightarrow> string \<Rightarrow> pyfloat \<Rightarrow> string list \<Rightarrow> string list res" where
  "insert_pre_filtered hf usr h pre =
     (if usr \<in> set pre then Inr pre
      else bindR (insert_index_from hf h 0 pre) (\<lambda>i. Inr (list_insert_at i usr pre)))"

definition add_to_pre_filtered :: "string \<Rightarrow> (bot, unit) eff" where
  \<comment> \<open>the body of the loop over \<open>users_filtered\<close>\<close>
  "add_to_pre_filtered usr =
     bindE (getR (\<lambda>b. user_of (bt_states b) usr)) (\<lambda>o1.
     forE (\<lambda>ctoken_addr. bindE (getE (\<lambda>b. dget (token_signal_map (bt_signals b)) ctoken_addr)) (\<lambda>aggr. case aggr of
         None \<Rightarrow> returnE ()
       | Some ag \<Rightarrow>
           bindE (getR (\<lambda>b. bindR (dgetR (users_pre_filtered b) ag)
              (insert_pre_filtered (hf_lookup (bt_states b)) usr (hf_value (user_hf o1))))) (\<lambda>pre.
             modE (\<lambda>b. b\<lparr>users_pre_filtered := dput ag pre (users_pre_filtered b)\<rparr>))))
       (dkeys (reserves o1)))"

definition apply_logs ::
    "('l \<Rightarrow> ('s, (string, int) dict) eff) \<Rightarrow> 'l list \<Rightarrow> ('s, (string, int) dict) eff" where
  "apply_logs update logs = foldE (\<lambda>lg users. bindE (update lg) (\<lambda>temp. returnE (dupdate users temp))) logs []"

definition recalculate_users :: "'l bot_env \<Rightarrow> string list \<Rightarrow> (bot, unit) eff" where
  \<comment> \<open>from the reload of the markets entered to the lists of the aggregators\<close>
  "recalculate_users env users_lst =
     thenE (on_states (forE (reload_and_extend_states (e_assets_in env)) users_lst))
     (bindE (calculate_users env users_lst) (\<lambda>results.
     bindE (getR (\<lambda>b. users_trimming users_lst (bt_states b) (e_now env + 86400) False)) (\<lambda>users_target.
     thenE (write_results results)
     (bindE (getR (\<lambda>b. users_trimming users_target (bt_states b) (e_now env + 86400) True)) (\<lambda>users_filtered.
       forE add_to_pre_filtered users_filtered)))))"

definition drain_plug_in :: "'l bot_env \<Rightarrow> (bot, unit) eff" where
  "drain_plug_in env = on_states (bindE (getE s_plug_in) (\<lambda>p. case p of
     None \<Rightarrow> returnE ()
   | Some st \<Rightarrow> thenE (refresh_vai_repay (e_vai_repay env) (dkeys (es_storage st)))
       (modE (\<lambda>s. s\<lparr>s_plug_in := map_option (\<lambda>p. p\<lparr>es_storage := []\<rparr>) (s_plug_in s)\<rparr>))))"

definition users_subscribe_callback :: "'l bot_env \<Rightarrow> log_receipt_light \<Rightarrow> (bot, unit) eff" where
  "users_subscribe_callback env response =
     bindE (liftR (converter (e_checksum env) response)) (\<lambda>logs.
     bindE (getE (\<lambda>b. last_update (bt_states b))) (\<lambda>lu.
     if ll_blockNumber response < lu then returnE ()
     else
       bindE (on_states (apply_logs (HighProfit_update (e_abi env) (e_checksum env)) logs)) (\<lambda>users.
       thenE (on_states (modE (\<lambda>s. s\<lparr>last_update := ll_blockNumber response, block_hash := ll_blockHash response\<rparr>)))
       (thenE (recalculate_users env (dkeys users))
         (drain_plug_in env)))))"

definition users_subscribe_callback_full :: "'l bot_env \<Rightarrow> log_receipt_full option \<Rightarrow> (bot, unit) eff" where
  "users_subscribe_callback_full env message = (case message of
     None \<Rightarrow> returnE ()
   | Some m \<Rightarrow> bindE (liftR (converter_full m)) (users_subscribe_callback env))"

section \<open>Logs of the comptroller, the aggregators and the plug-in\<close>

definition comet_subscribe_callback :: "'l bot_env \<Rightarrow> log_receipt_light \<Rightarrow> (bot, unit) eff" where
  "comet_subscribe_callback env response =
     bindE (liftR (converter (e_checksum env) response)) (\<lambda>logs.
     bindE (getE (\<lambda>b. comet_last_update (bt_comet b))) (\<lambda>lu.
     if ll_blockNumber response < lu then returnE ()
     else thenE (on_comet (forE (comet_update (e_abi env)) logs))
       (on_comet (modE (\<lambda>c. c\<lparr>comet_last_update := ll_blockNumber response\<rparr>)))))"

definition confirm_price :: "'l bot_env \<Rightarrow> log_receipt \<Rightarrow> aggregator_infos \<Rightarrow> (bot, unit) eff" where
  "confirm_price env lg token_info = on_states (
     bindE (getR (\<lambda>s. ctk_configs (s_ctokens s) (ai_token token_info))) (\<lambda>cfg.
       mod_price (ai_token token_info) (CtokenPrice_confirm (e_abi env) lg venus_price_scale
         (venus_gen_oracle_params (price_decimals token_info) cfg))))"

definition signals_subscribe_callback :: "'l bot_env \<Rightarrow> log_receipt_light \<Rightarrow> (bot, unit) eff" where
  "signals_subscribe_callback env response =
     bindE (liftR (converter (e_checksum env) response)) (\<lambda>logs.
     forE (\<lambda>lg. bindE (getR (\<lambda>b. dgetR (signal_token_map (bt_signals b)) (lower (lg_address lg)))) (\<lambda>aggr_infos.
       forE (confirm_price env lg) aggr_infos)) logs)"

definition signals_subscribe_callback_full :: "'l bot_env \<Rightarrow> log_receipt_full option \<Rightarrow> (bot, unit) eff" where
  "signals_subscribe_callback_full env message = (case message of
     None \<Rightarrow> returnE ()
   | Some m \<Rightarrow> bindE (liftR (converter_full m)) (signals_subscribe_callback env))"

definition vai_repay_subscribe_callback :: "'l bot_env \<Rightarrow> event_state \<Rightarrow> log_receipt_light \<Rightarrow> (bot, unit) eff" where
  "vai_repay_subscribe_callback env event_vai_repay response =
     bindE (liftR (converter (e_checksum env) response)) (\<lambda>logs.
     bindE (liftR (foldR (\<lambda>lg res1. bindR (vai_update (e_abi env) event_vai_repay lg) (\<lambda>temp. Inr (dupdate res1 temp))) logs [])) (\<lambda>res1.
       on_states (refresh_vai_repay (e_vai_repay env) (dkeys res1))))"

definition liquidations_subscribe_callback :: "'l bot_env \<Rightarrow> liq_env \<Rightarrow> log_receipt_light \<Rightarrow> liq_report option list res" where
  "liquidations_subscribe_callback env le response =
     bindR (converter (e_checksum env) response) (mapR (LiquidationCall_update (e_abi env) le))"

section \<open>A pending report\<close>

definition record_signal :: "'l bot_env \<Rightarrow> pending_msg \<Rightarrow> (bot, signal_info) eff" where
  "record_signal env message =
     bindE (liftR (e_encode_tx env message)) (\<lambda>raw.
     bindE (liftR (if pm_type message = ''0x2''
         then bindR (py_int 16 (pm_priority_fee message)) (\<lambda>p. Inr (0, p))
         else bindR (opt_res KeyError (tx_gasPrice (pm_tx message))) (\<lambda>g. bindR (py_int 16 g) (\<lambda>g. Inr (g, 0))))) (\<lambda>(gas_fee, prio).
     bindE (getE (\<lambda>b. \<lparr>sr_hash = pm_hash message, recv_height = block_num (bt_blocks b), sr_tx_type = pm_type message,
        sr_gas_price = gas_fee, priority_fee = prio, sr_raw_tx = raw\<rparr>)) (\<lambda>sig.
       thenE (modE (\<lambda>b. b\<lparr>signal_recv := Some sig\<rparr>)) (returnE sig))))"

definition update_price :: "'l bot_env \<Rightarrow> string \<times> int \<times> nat \<Rightarrow> (bot, unit) eff" where
  \<comment> \<open>the body of the loop over the parsed prices; the quotient is only logged, but it may raise\<close>
  "update_price env r = (case r of (token_addr, pr, feed_decimals) \<Rightarrow> on_states (
     bindE (getR (\<lambda>s. ctk_configs (s_ctokens s) token_addr)) (\<lambda>cfg.
     bindE (liftR (venus_get_oracle_price pr feed_decimals cfg)) (\<lambda>new_price.
     bindE (getR (\<lambda>s. ctk_price_current (s_ctokens s) token_addr)) (\<lambda>old_price.
     thenE (liftR (int_truediv new_price old_price))
       (mod_price token_addr (modE (CtokenPrice_update new_price (e_now env)))))))))"

definition pt_users :: "'l bot_env \<Rightarrow> string list \<Rightarrow> signal_info \<Rightarrow> (bot, bool) eff" where
  \<comment> \<open>the first 20 users at once, the others through the queue\<close>
  "pt_users env users sig = (let index = 20 in
     bindE (calculate_users env (take index users)) (\<lambda>results.
     bindE (liquidate_and_send env results (Some sig)) (\<lambda>coroutines.
     thenE (write_results results)
     (thenE (modE (\<lambda>b. b\<lparr>users_pending := write_data_from_queue 0 (users_pending b) (drop index users)\<rparr>))
       (returnE (coroutines \<noteq> []))))))"

definition pt :: "'l bot_env \<Rightarrow> pending_msg \<Rightarrow> (bot, bool) eff" where
  \<comment> \<open>True when there is a time to report\<close>
  "pt env message =
     bindE (tryE (bindE (getE (\<lambda>b. bi_gas_price (bt_blocks b))) (\<lambda>g.
         bindE (on_signals (tx_filter_and_parsing (pm_tx message) g)) (\<lambda>(contract_addr, pr).
         bindE (getR (\<lambda>b. no_name (bt_signals b) contract_addr pr)) (\<lambda>r. returnE (Some r)))))
       (\<lambda>e. returnE None)) (\<lambda>parsed. case parsed of
       None \<Rightarrow> returnE False
     | Some (res1, aggr) \<Rightarrow>
         bindE (record_signal env message) (\<lambda>sig.
         thenE (forE (update_price env) res1)
         (bindE (getE (\<lambda>b. case dget (users_pre_filtered b) aggr of None \<Rightarrow> [] | Some us \<Rightarrow> us)) (\<lambda>users.
          if length users = 0 then returnE False else pt_users env users sig))))"

section \<open>Values for the other components\<close>

definition get_block_time :: "bot \<Rightarrow> int \<Rightarrow> int" where
  "get_block_time b bn = get_current_timestamp (bt_blocks b) bn"

definition get_reserves_value :: "checksummer \<Rightarrow> bot \<Rightarrow> string \<Rightarrow> int \<Rightarrow> bool \<Rightarrow> int res" where
  "get_reserves_value checksum b token amount is_col =
     (let token_addr = checksum token; ctk = s_ctokens (bt_states b) in
      bindR (ctk_price_current ctk token_addr) (\<lambda>pr.
      if is_col then bindR (ctk_risks ctk token_addr) (\<lambda>rk.
        Inr (amount * exchange_rate rk div EXP_SCALE * pr div EXP_SCALE))
      else Inr (amount * pr div EXP_SCALE)))"

definition complete_states_info :: "int \<Rightarrow> comet_configs \<Rightarrow> ('a states_scheme, hf_result list) eff" where
  "complete_states_info now com =
     bindE (getE (\<lambda>s. dkeys (users_states s))) (\<lambda>users.
     bindE (getR (\<lambda>s. bindR (gen_users_with_args s users) (\<lambda>args.
        execution_select (\<lambda>l. signal_calculate_health_factor now l (s_ctokens s) com) args))) (\<lambda>results.
     thenE (write_health_factor results) (returnE results)))"

definition prefilter_all :: "int \<Rightarrow> signals \<Rightarrow> 'a states_scheme \<Rightarrow> (string, string list) dict res" where
  \<comment> \<open>the loop of the script that fills \<open>users_pre_filtered\<close>\<close>
  "prefilter_all now sg s = foldR (\<lambda>aggr d.
     bindR (get_tokens_from_aggr sg aggr) (\<lambda>(tokens_addr, _).
     bindR (users_trimming (users_filtering s tokens_addr) s (now + 1200) True) (\<lambda>users_trim.
       Inr (dput aggr users_trim d)))) (dkeys (signal_token_map sg)) []"

section \<open>What the handlers of market logs leave alone\<close>

text \<open>
  The handlers write users, positions, the plug-in, and the markets except for their prices. A
  predicate that depends on nothing of this but the prices is kept by each of them.
\<close>

locale market_view =
  fixes P :: "high_states \<Rightarrow> bool"
  assumes view_users: "P s \<Longrightarrow> P (s\<lparr>s_users := x\<rparr>)"
    and view_reserves: "P s \<Longrightarrow> P (s\<lparr>s_reserves := y\<rparr>)"
    and view_names: "P s \<Longrightarrow> P (s\<lparr>users_states := z\<rparr>)"
    and view_plug_in: "P s \<Longrightarrow> P (s\<lparr>s_plug_in := p\<rparr>)"
    and view_updates: "P s \<Longrightarrow> P (s\<lparr>update_users := q\<rparr>)"
    and view_market: "P s \<Longrightarrow> (\<And>i. price (f i) = price i) \<Longrightarrow> dget (s_ctokens s) a = Some i \<Longrightarrow>
      P (s\<lparr>s_ctokens := dput a (f i) (s_ctokens s)\<rparr>)"
begin

lemma view_mod_reserve: "keeps P (mod_reserve u a f)"
  unfolding mod_reserve_def by (intro keeps_intros view_reserves)

lemma view_mod_user: "keeps P (mod_user u f)"
  unfolding mod_user_def by (intro keeps_intros view_users)

lemma view_mod_ctoken: "(\<And>i. price (f i) = price i) \<Longrightarrow> keeps P (mod_ctoken a f)"
  by (rule keepsI) (auto simp: mod_ctoken_def py_simps dict_upd_def intro: view_market split: option.splits)

lemma view_check: "keeps P (check_user_and_reserve u a)"
proof -
  have u: "P s \<Longrightarrow> P (alloc_user u s)" for u s
    unfolding alloc_user_def using view_names [OF view_users] by simp
  have r: "P s \<Longrightarrow> P (alloc_reserve r a s)" for r a s
    unfolding alloc_reserve_def using view_users [OF view_reserves] by simp
  show ?thesis unfolding check_user_and_reserve_def by (intro keeps_intros u r)
qed

lemma view_set_debt: "keeps P (set_debt u a x y)"
  unfolding set_debt_def by (intro keeps_intros view_check view_mod_reserve view_mod_ctoken) simp

lemma view_on_transfer: "keeps P (on_transfer lg reserve args)"
  unfolding on_transfer_def supply_shift_def
  by (intro keeps_intros view_check view_mod_reserve view_mod_ctoken) simp_all

lemma view_dispatch: "keeps P (dispatch_event name lg reserve args)"
  unfolding dispatch_event_def on_repay_borrow_def on_borrow_def on_accrue_def on_reserves_def on_reserve_factor_def
  by (intro keeps_intros view_on_transfer view_set_debt view_mod_ctoken) simp_all

lemma view_States_update: "keeps P (States_update abi_decode checksum lg)"
proof -
  have p: "keeps P (plug_in_update abi_decode lg)"
    unfolding plug_in_update_def by (intro keeps_intros) (auto split: option.splits intro!: keeps_intros view_plug_in)
  show ?thesis
    unfolding States_update_def
    by (intro keeps_intros p) (auto split: option.splits intro!: keeps_intros view_dispatch)
qed

lemma view_merge_user: "keeps P (merge_user ut)"
proof -
  have "keeps P (merge_reserve u kv)" for u kv
    unfolding merge_reserve_def by (cases kv) (auto intro!: keeps_intros view_mod_reserve view_mod_user)
  then show ?thesis
    unfolding merge_user_def by (cases ut) (auto intro!: keeps_intros split: option.splits)
qed

lemma view_HighProfit_update: "keeps P (HighProfit_update abi_decode checksum lg)"
  unfolding HighProfit_update_def by (intro keeps_intros view_States_update view_merge_user view_updates)

lemma view_extend: "keeps P (reload_and_extend_states get_assets_in usr)"
  unfolding reload_and_extend_states_def set_col_liq_def by (intro keeps_intros view_mod_reserve)

lemma view_write_health_factor: "keeps P (write_health_factor results)"
  unfolding write_health_factor_def by (auto intro!: keeps_intros view_mod_user)

lemma view_vai_repay: "keeps P (refresh_vai_repay vai_repay_of us)"
  unfolding refresh_vai_repay_def by (intro keeps_intros view_mod_user)

end

section \<open>Prices across the callbacks\<close>

text \<open>\<open>G a\<close> is the last confirmed price of \<open>a\<close>: the current one, or the one a revert brings back.\<close>

definition anchored :: "(string \<Rightarrow> int) \<Rightarrow> 'a states_scheme \<Rightarrow> bool" where
  "anchored G s \<longleftrightarrow> (\<forall>a p. ctk_price (s_ctokens s) a = Inr p \<longrightarrow> price_inv (p, G a))"

lemma anchored_market:
  assumes "anchored G s" "\<And>i. price (f i) = price i" "dget (s_ctokens s) a = Some i"
  shows "anchored G (s\<lparr>s_ctokens := dput a (f i) (s_ctokens s)\<rparr>)"
proof -
  have "ctk_price (dput a (f i) (s_ctokens s)) b = ctk_price (s_ctokens s) b" for b
    using assms(2,3) by (simp add: ctk_price_def dgetR_def)
  then show ?thesis using assms(1) by (simp add: anchored_def)
qed

interpretation price_view: market_view "anchored G" for G
  by unfold_locales (simp_all add: anchored_market, simp_all add: anchored_def)

interpretation clock_view: market_view "\<lambda>s. n \<le> last_update s" for n
  by unfold_locales simp_all

lemma anchored_mod_price:
  assumes "\<And>p. ctk_price (s_ctokens s) a = Inr p \<Longrightarrow> price_inv (p, G a) \<Longrightarrow> price_inv (snd (m p), G' a)"
    and "\<And>b. b \<noteq> a \<Longrightarrow> G' b = G b" and "ctk_price (s_ctokens s) a = Inr p" and "anchored G s"
  shows "anchored G' (snd (mod_price a m s))"
proof -
  obtain r p1 where m: "m p = (r, p1)" by (cases "m p")
  obtain i where i: "dget (s_ctokens s) a = Some i" "price i = Some p"
    using assms(3) by (auto simp: ctk_price_def)
  have "snd (mod_price a m s) = s\<lparr>s_ctokens := dput a (i\<lparr>price := Some p1\<rparr>) (s_ctokens s)\<rparr>"
    using assms(3) m i by (simp add: mod_price_def mod_ctoken_def dict_upd_def py_simps)
  moreover have "price_inv (q, G' b)" if "ctk_price (dput a (i\<lparr>price := Some p1\<rparr>) (s_ctokens s)) b = Inr q" for b q
  proof (cases "b = a")
    case True
    then have "q = p1" using that by (auto simp: ctk_price_def dgetR_def)
    moreover have "price_inv (p1, G' a)" using assms(1) [OF assms(3)] assms(3,4) m by (auto simp: anchored_def)
    ultimately show ?thesis using True by simp
  next
    case False
    then have "ctk_price (s_ctokens s) b = Inr q" using that by (simp add: ctk_price_def dgetR_def)
    then show ?thesis using assms(2,4) False by (simp add: anchored_def)
  qed
  ultimately show ?thesis by (simp add: anchored_def)
qed

lemma mod_price_missing: "ctk_price (s_ctokens s) a = Inl e \<Longrightarrow> snd (mod_price a m s) = s"
  by (simp add: mod_price_def py_simps)

lemma anchored_mod_price_keeps:
  assumes "\<And>p g. price_inv (p, g) \<Longrightarrow> price_inv (snd (m p), g)"
  shows "keeps (anchored G) (mod_price a m)"
proof (rule keepsI)
  fix s :: "'a states_scheme" assume s: "anchored G s"
  show "anchored G (snd (mod_price a m s))"
  proof (cases "ctk_price (s_ctokens s) a")
    case (Inl e)
    then show ?thesis using s by (simp add: mod_price_missing)
  next
    case (Inr p)
    show ?thesis by (rule anchored_mod_price [OF _ _ Inr s]) (use assms in auto)
  qed
qed

lemma anchored_revert: "keeps (anchored G) (mod_price a (modE (CtokenPrice_revert now)))"
  by (rule anchored_mod_price_keeps) (auto simp: py_simps intro: price_inv_step price_step.timeout)

lemma anchored_update: "keeps (anchored G) (mod_price a (modE (CtokenPrice_update new now)))"
  by (rule anchored_mod_price_keeps) (auto simp: py_simps intro: price_inv_step price_step.pending)

lemma anchored_exchange_rate: "keeps (anchored G) (set_exchange_rate a v)"
proof (rule keepsI)
  fix s :: "'a states_scheme" assume "anchored G s"
  then show "anchored G (snd (set_exchange_rate a v s))"
    by (auto simp: set_exchange_rate_def mod_ctoken_def py_simps dict_upd_def split: option.splits
        intro: anchored_market [where f = "\<lambda>i. i\<lparr>risks := (risks i)\<lparr>exchange_rate := v\<rparr>\<rparr>"])
qed

text \<open>A confirmation moves the anchor of its market.\<close>

lemma anchored_confirm:
  assumes "anchored G s"
  shows "\<exists>G'. anchored G' (snd (mod_price a (CtokenPrice_confirm abi_decode lg venus_price_scale ab) s)) \<and> (\<forall>b. b \<noteq> a \<longrightarrow> G' b = G b)"
proof (cases "ctk_price (s_ctokens s) a")
  case (Inl e)
  then show ?thesis using assms by (auto simp: mod_price_missing)
next
  case (Inr p)
  define p1 where "p1 = snd (CtokenPrice_confirm abi_decode lg venus_price_scale ab p)"
  define G' where "G' = (if p1 = p then G else G(a := price_current p1))"
  have "price_inv (p1, G' a)" if "price_inv (p, G a)"
    using venus_scaling.confirm_cases [of abi_decode lg ab p] that by (auto simp: G'_def p1_def price_inv_def)
  then have "anchored G' (snd (mod_price a (CtokenPrice_confirm abi_decode lg venus_price_scale ab) s))"
    by (intro anchored_mod_price [OF _ _ Inr assms]) (auto simp: p1_def [symmetric] Inr G'_def)
  then show ?thesis by (auto simp: G'_def)
qed

section \<open>Steps of the bot\<close>

lemma on_states_apply [py_simps]: "on_states m b = (fst (m (bt_states b)), b\<lparr>bt_states := snd (m (bt_states b))\<rparr>)"
  by (simp add: on_states_def zoom_def split: prod.splits)

lemma on_other_apply [py_simps]:
  "on_comet mc b = (fst (mc (bt_comet b)), b\<lparr>bt_comet := snd (mc (bt_comet b))\<rparr>)"
  "on_signals ms b = (fst (ms (bt_signals b)), b\<lparr>bt_signals := snd (ms (bt_signals b))\<rparr>)"
  "on_sender md b = (fst (md (bt_sender b)), b\<lparr>bt_sender := snd (md (bt_sender b))\<rparr>)"
  "on_world mw b = (fst (mw (bt_world b)), b\<lparr>bt_world := snd (mw (bt_world b))\<rparr>)"
  by (simp_all add: on_comet_def on_signals_def on_sender_def on_world_def zoom_def split: prod.splits)

lemma keeps_on_states: "keeps P m \<Longrightarrow> keeps (\<lambda>b. P (bt_states b)) (on_states m)"
  by (simp add: keeps_def py_simps)

lemma keeps_on_other:
  "keeps (\<lambda>b. P (bt_states b)) (on_comet mc)" "keeps (\<lambda>b. P (bt_states b)) (on_signals ms)"
  "keeps (\<lambda>b. P (bt_states b)) (on_sender md)" "keeps (\<lambda>b. P (bt_states b)) (on_world mw)"
  by (simp_all add: keeps_def py_simps)

text \<open>
  A predicate on the positions and markets that the handlers keep is kept by every callback,
  when it survives the writes of the callbacks' own: the block, the plug-in's emptying, the
  exchange rate, and the two writes of a price that is not a confirmation.
\<close>

locale bot_view = market_view P for P +
  assumes view_revert: "keeps P (mod_price a (modE (CtokenPrice_revert now)))"
    and view_pending: "keeps P (mod_price a (modE (CtokenPrice_update new now)))"
begin

abbreviation PB :: "bot \<Rightarrow> bool" where
  "PB \<equiv> \<lambda>b. P (bt_states b)"

lemma view_exchange_rate: "keeps P (set_exchange_rate a v)"
  unfolding set_exchange_rate_def by (rule view_mod_ctoken) simp

lemma keeps_modE_other: "(\<And>b. bt_states (f b) = bt_states b) \<Longrightarrow> keeps PB (modE f)"
  by (rule keeps_modE) simp

lemma view_on_message: "keeps PB (on_message env message)"
proof (cases message)
  case None
  then show ?thesis by (simp add: on_message_def keeps_basic)
next
  case (Some h)
  have "keeps P (forE (\<lambda>reserve. mod_price reserve (modE (CtokenPrice_revert (e_now env)))) (e_reserves env))"
    by (intro keeps_forE view_revert)
  then show ?thesis
    unfolding on_message_def Some Let_def option.case
    by (intro keeps_bindE keeps_thenE keeps_basic keeps_on_states keeps_on_other keeps_modE_other view_exchange_rate) simp_all
qed

lemma view_calculate: "keeps PB (calculate_users env users)"
  unfolding calculate_users_def by (rule keeps_basic)

lemma view_send: "keeps PB (liquidate_and_send env results sig)"
  unfolding liquidate_and_send_def by (intro keeps_bindE keeps_thenE keeps_basic keeps_on_other)

lemma view_write: "keeps PB (write_results results)"
  unfolding write_results_def by (intro keeps_on_states view_write_health_factor)

lemma view_round: "keeps PB (liquidation_round env users sig)"
  unfolding liquidation_round_def by (intro keeps_bindE view_calculate view_send view_write)

lemma view_idle: "keeps PB (liquidation_idle_callback env prev_block)"
proof -
  have 1: "keeps PB (sample_round env n)" for n
    unfolding sample_round_def by (intro keeps_bindE keeps_basic view_calculate view_write)
  have 2: "keeps PB (prefilter_round env n)" for n
    unfolding prefilter_round_def by (intro keeps_bindE keeps_basic keeps_modE_other) (auto intro!: keeps_bindE keeps_basic keeps_modE_other)
  show ?thesis
    unfolding liquidation_idle_callback_def Let_def
    by (intro keeps_bindE keeps_thenE keeps_if keeps_basic keeps_modE_other view_round 1 2) simp_all
qed

lemma view_apply_logs: "keeps P (apply_logs (HighProfit_update abi checksum) l)"
  unfolding apply_logs_def by (intro keeps_foldE keeps_bindE view_HighProfit_update keeps_basic)

lemma view_recalculate: "keeps PB (recalculate_users env us)"
proof -
  have add: "keeps PB (add_to_pre_filtered u)" for u
    unfolding add_to_pre_filtered_def
    by (intro keeps_bindE keeps_forE keeps_basic) (auto split: option.splits intro!: keeps_bindE keeps_basic keeps_modE_other)
  show ?thesis
    unfolding recalculate_users_def
    by (intro keeps_bindE keeps_thenE keeps_forE keeps_on_states keeps_basic view_extend view_calculate view_write add)
qed

lemma view_drain: "keeps PB (drain_plug_in env)"
  unfolding drain_plug_in_def
  by (intro keeps_on_states keeps_bindE) (auto split: option.splits intro!: keeps_basic keeps_thenE keeps_modE view_vai_repay view_plug_in)

lemma view_comet: "keeps PB (comet_subscribe_callback env response)"
  unfolding comet_subscribe_callback_def by (intro keeps_bindE keeps_thenE keeps_if keeps_basic keeps_on_other)

lemma view_vai: "keeps PB (vai_repay_subscribe_callback env ev response)"
  unfolding vai_repay_subscribe_callback_def by (intro keeps_bindE keeps_basic keeps_on_states view_vai_repay)

lemma view_update_price: "keeps PB (update_price env r)"
  unfolding update_price_def
  by (cases r) (auto intro!: keeps_on_states keeps_bindE keeps_thenE keeps_basic view_pending)

lemma view_pt: "keeps PB (pt env message)"
proof -
  have sig: "keeps PB (record_signal env message)"
    unfolding record_signal_def by (intro keeps_bindE keeps_basic) (auto intro!: keeps_bindE keeps_thenE keeps_basic keeps_modE_other)
  have users: "keeps PB (pt_users env users sg)" for users sg
    unfolding pt_users_def Let_def
    by (intro keeps_bindE keeps_thenE keeps_basic view_calculate view_send view_write keeps_modE_other) simp_all
  have parse: "keeps PB (on_signals ms)" for ms :: "(signals, string \<times> int) eff" by (rule keeps_on_other)
  show ?thesis
    unfolding pt_def
    by (auto split: option.splits intro!: keeps_tryE keeps_bindE keeps_thenE keeps_forE keeps_if keeps_basic sig users parse view_update_price)
qed

end

text \<open>The handler of the markets' logs writes the block as well.\<close>

locale block_view = bot_view P for P +
  assumes view_block: "P s \<Longrightarrow> P (s\<lparr>last_update := n, block_hash := h\<rparr>)"
begin

lemma view_users: "keeps PB (users_subscribe_callback env response)"
  unfolding users_subscribe_callback_def
  by (intro keeps_bindE keeps_thenE keeps_if keeps_basic keeps_on_states view_apply_logs view_recalculate view_drain
      keeps_modE view_block)

end

section \<open>Prices and the block of the last update, over all callbacks\<close>

interpretation price_steps: block_view "anchored G" for G
  by unfold_locales (simp_all add: anchored_revert anchored_update, simp add: anchored_def)

lemma mod_price_last_update: "last_update (snd (mod_price a m s)) = last_update s"
  by (simp add: mod_price_def mod_ctoken_def py_simps split: sum.splits prod.splits)

interpretation clock_steps: bot_view "\<lambda>s. n \<le> last_update s" for n
  by unfold_locales (simp_all add: keeps_def mod_price_last_update)

interpretation clock_frame: bot_view "\<lambda>s. last_update s = v" for v
  by unfold_locales (simp_all add: keeps_def mod_price_last_update)

lemma users_callback_clock: "last_update (bt_states b) \<le> last_update (bt_states (snd (users_subscribe_callback env response b)))"
proof -
  let ?n = "ll_blockNumber response"
  have f: "last_update (snd (apply_logs (HighProfit_update abi ck) l s)) = last_update s" for abi ck l s
    by (rule keepsD [OF clock_frame.view_apply_logs]) simp
  have rest: "last_update (bt_states b1) \<le> last_update (bt_states (snd (thenE (recalculate_users env us) (drain_plug_in env) b1)))" for us b1
    by (rule keepsD [OF keeps_thenE [OF clock_steps.view_recalculate clock_steps.view_drain]]) simp
  consider e where "converter (e_checksum env) response = Inl e"
    | l where "converter (e_checksum env) response = Inr l" "?n < last_update (bt_states b)"
    | l e where "converter (e_checksum env) response = Inr l" "\<not> ?n < last_update (bt_states b)"
        "fst (apply_logs (HighProfit_update (e_abi env) (e_checksum env)) l (bt_states b)) = Inl e"
    | l us where "converter (e_checksum env) response = Inr l" "\<not> ?n < last_update (bt_states b)"
        "fst (apply_logs (HighProfit_update (e_abi env) (e_checksum env)) l (bt_states b)) = Inr us"
    by (metis sum.exhaust)
  then show ?thesis
  proof cases
    case (4 l us)
    define b1 where "b1 = b\<lparr>bt_states := (snd (apply_logs (HighProfit_update (e_abi env) (e_checksum env)) l (bt_states b)))
      \<lparr>last_update := ?n, block_hash := ll_blockHash response\<rparr>\<rparr>"
    have "snd (users_subscribe_callback env response b) =
        snd (thenE (recalculate_users env (dkeys us)) (drain_plug_in env) b1)"
      using 4 by (simp add: users_subscribe_callback_def b1_def eff_apply bindE_apply on_states_apply)
    then show ?thesis using rest [of b1 "dkeys us"] 4(2) by (simp add: b1_def)
  qed (simp_all add: users_subscribe_callback_def py_simps f)
qed

text \<open>The callbacks other than the price logs, and all of them, on the pools of \<open>SwapV2\<close>.\<close>

type_synonym v2_env = "int list bot_env"

inductive quiet_step :: "bot \<Rightarrow> bot \<Rightarrow> bool" where
  header: "quiet_step b (snd (on_message (env :: v2_env) message b))"
| idle: "quiet_step b (snd (liquidation_idle_callback (env :: v2_env) prev_block b))"
| users_log: "quiet_step b (snd (users_subscribe_callback (env :: v2_env) response b))"
| comet_log: "quiet_step b (snd (comet_subscribe_callback (env :: v2_env) response b))"
| vai_log: "quiet_step b (snd (vai_repay_subscribe_callback (env :: v2_env) ev response b))"
| pending: "quiet_step b (snd (pt (env :: v2_env) msg b))"
| receipts: "quiet_step b (snd (on_sender (process_receipts rs) b))"

inductive bot_step :: "bot \<Rightarrow> bot \<Rightarrow> bool" where
  quiet: "quiet_step b b' \<Longrightarrow> bot_step b b'"
| price_log: "bot_step b (snd (signals_subscribe_callback (env :: v2_env) response b))"

lemma anchored_quiet_step: "quiet_step b b' \<Longrightarrow> anchored G (bt_states b) \<Longrightarrow> anchored G (bt_states b')"
proof (induction rule: quiet_step.induct)
  case (receipts b rs)
  then show ?case by (simp add: py_simps)
qed (rule keepsD [OF price_steps.view_on_message] keepsD [OF price_steps.view_idle] keepsD [OF price_steps.view_users]
    keepsD [OF price_steps.view_comet] keepsD [OF price_steps.view_vai] keepsD [OF price_steps.view_pt], assumption)+

lemma anchored_quiet: "quiet_step\<^sup>*\<^sup>* b b' \<Longrightarrow> anchored G (bt_states b) \<Longrightarrow> anchored G (bt_states b')"
  by (induction rule: rtranclp_induct) (auto intro: anchored_quiet_step)

lemma clock_price_log: "keeps (\<lambda>b. n \<le> last_update (bt_states b)) (signals_subscribe_callback env response)"
proof -
  have c: "keeps (\<lambda>b. n \<le> last_update (bt_states b)) (confirm_price env lg t)" for lg t
    unfolding confirm_price_def
    by (intro keeps_on_states keeps_bindE keeps_basic) (simp add: keeps_def mod_price_last_update)
  show ?thesis unfolding signals_subscribe_callback_def by (intro keeps_bindE keeps_forE keeps_basic c)
qed

lemma clock_step: "bot_step b b' \<Longrightarrow> last_update (bt_states b) \<le> last_update (bt_states b')"
proof (induction rule: bot_step.induct)
  case (quiet b b')
  then show ?case
  proof (induction rule: quiet_step.induct)
    case (users_log b env response)
    then show ?case by (rule users_callback_clock)
  next
    case (receipts b rs)
    then show ?case by (simp add: py_simps)
  qed (rule keepsD [OF clock_steps.view_on_message] keepsD [OF clock_steps.view_idle]
      keepsD [OF clock_steps.view_comet] keepsD [OF clock_steps.view_vai] keepsD [OF clock_steps.view_pt], rule order_refl)+
next
  case (price_log b env response)
  then show ?case by (rule keepsD [OF clock_price_log]) simp
qed

text \<open>Over any sequence of callbacks the block of the last update never goes back.\<close>

lemma clock_steps_mono: "bot_step\<^sup>*\<^sup>* b b' \<Longrightarrow> last_update (bt_states b) \<le> last_update (bt_states b')"
  by (induction rule: rtranclp_induct) (auto dest: clock_step)

section \<open>A block header brings back stale prices\<close>

lemma mod_price_modE:
  assumes "mod_price a (modE f) s = (Inr (), s')"
  shows "\<exists>p. ctk_price (s_ctokens s) a = Inr p \<and>
    (\<forall>b. ctk_price (s_ctokens s') b = (if b = a then Inr (f p) else ctk_price (s_ctokens s) b))"
proof -
  obtain p where p: "ctk_price (s_ctokens s) a = Inr p"
    using assms by (cases "ctk_price (s_ctokens s) a") (auto simp: mod_price_def py_simps)
  then obtain i where i: "dget (s_ctokens s) a = Some i" by (auto simp: ctk_price_def)
  have "s' = s\<lparr>s_ctokens := dput a (i\<lparr>price := Some (f p)\<rparr>) (s_ctokens s)\<rparr>"
    using assms p i by (simp add: mod_price_def mod_ctoken_def dict_upd_def py_simps)
  then have "ctk_price (s_ctokens s') b = (if b = a then Inr (f p) else ctk_price (s_ctokens s) b)" for b
    by (simp add: ctk_price_def dgetR_def)
  with p show ?thesis by blast
qed

lemma revert_all:
  assumes "forE (\<lambda>reserve. mod_price reserve (modE (CtokenPrice_revert now))) rs s = (Inr (), s')"
    and "anchored G s" "a \<in> set rs"
    and "\<And>p. ctk_price (s_ctokens s) a = Inr p \<Longrightarrow> is_comfired p \<or> price_last_update p + 15 < now"
  shows "\<exists>p. ctk_price (s_ctokens s') a = Inr p \<and> is_comfired p \<and> price_current p = G a"
proof -
  define rstored where "rstored s \<longleftrightarrow> (\<exists>p. ctk_price (s_ctokens s) a = Inr p \<and> is_comfired p \<and> price_current p = G a)" for s :: "'a states_scheme"
  have "rstored s'" if "forE (\<lambda>reserve. mod_price reserve (modE (CtokenPrice_revert now))) rs s = (Inr (), s')"
    "anchored G s" "a \<in> set rs \<or> rstored s"
    "\<And>p. ctk_price (s_ctokens s) a = Inr p \<Longrightarrow> is_comfired p \<or> price_last_update p + 15 < now" for rs s
    using that
  proof (induction rs arbitrary: s)
    case Nil
    then show ?case by (simp add: py_simps)
  next
    case (Cons c rs)
    obtain s1 where c: "mod_price c (modE (CtokenPrice_revert now)) s = (Inr (), s1)"
      and rest: "forE (\<lambda>reserve. mod_price reserve (modE (CtokenPrice_revert now))) rs s1 = (Inr (), s')"
    proof (cases "mod_price c (modE (CtokenPrice_revert now)) s")
      case (Pair r s1)
      then have "r = Inr ()" using Cons.prems(1) by (cases r) (simp_all add: bindE_apply)
      then show thesis using that [of s1] Pair Cons.prems(1) by (simp add: bindE_apply)
    qed
    have an: "anchored G s1" using keepsD [OF anchored_revert Cons.prems(2), of c now] c by simp
    from mod_price_modE [OF c] obtain p where p: "ctk_price (s_ctokens s) c = Inr p"
      and pr: "\<And>b. ctk_price (s_ctokens s1) b = (if b = c then Inr (CtokenPrice_revert now p) else ctk_price (s_ctokens s) b)" by blast
    show ?case
    proof (cases "c = a")
      case True
      have "price_inv (p, G a)" using Cons.prems(2) p True by (simp add: anchored_def)
      moreover have "is_comfired p \<or> price_last_update p + 15 < now" using Cons.prems(4) p True by simp
      ultimately have r: "is_comfired (CtokenPrice_revert now p) \<and> price_current (CtokenPrice_revert now p) = G a"
        by (auto simp: price_inv_def CtokenPrice_revert_def INTVL_def)
      then have "rstored s1" using pr [of a] True by (simp add: rstored_def)
      then show ?thesis using Cons.IH [OF rest an] r pr [of a] True by simp
    next
      case False
      then have "a \<in> set rs \<or> rstored s1" using Cons.prems(3) pr [of a] by (auto simp: rstored_def)
      then show ?thesis using Cons.IH [OF rest an] Cons.prems(4) pr [of a] False by simp
    qed
  qed
  from this [OF assms(1,2)] assms(3,4) show ?thesis by (simp add: rstored_def)
qed

section \<open>Users of a signal\<close>

lemma calculate_users_state: "snd (calculate_users env us b) = b"
  by (simp add: calculate_users_def py_simps)

text \<open>A pending report has the health factors of the first twenty users of the signal computed at once
  and queues all the others.\<close>

lemma pt_users_pending:
  assumes "pt_users env users sig b = (Inr r, b')"
  shows "users_pending b' = users_pending b @ [drop 20 users] \<and> (\<exists>results. calculate_users env (take 20 users) b = (Inr results, b))"
proof -
  have c: "calculate_users env (take 20 users) b = (fst (calculate_users env (take 20 users) b), b)"
    using calculate_users_state by (metis prod.collapse)
  have p: "users_pending (snd (liquidate_and_send env results s1 b1)) = users_pending b1"
    "users_pending (snd (write_results results b1)) = users_pending b1" for results s1 b1
    by (simp_all add: liquidate_and_send_def write_results_def py_simps split: sum.splits)
  obtain results where r: "fst (calculate_users env (take 20 users) b) = Inr results"
    using assms by (cases "fst (calculate_users env (take 20 users) b)") (simp_all add: pt_users_def calculate_users_state bindE_apply)
  obtain cs where cs: "fst (liquidate_and_send env results (Some sig) b) = Inr cs"
    using assms r by (cases "fst (liquidate_and_send env results (Some sig) b)") (simp_all add: pt_users_def calculate_users_state bindE_apply)
  obtain u where u: "fst (write_results results (snd (liquidate_and_send env results (Some sig) b))) = Inr u"
    using assms r cs
    by (cases "fst (write_results results (snd (liquidate_and_send env results (Some sig) b)))")
      (simp_all add: pt_users_def calculate_users_state bindE_apply thenE_def)
  have "users_pending b' = users_pending b @ [drop 20 users]"
    using assms r cs u p
    by (auto simp: pt_users_def calculate_users_state bindE_apply eff_apply write_data_from_queue_def)
  then show ?thesis using c r by simp
qed

lemma idle_takes_pending:
  assumes "users_continue b = []" "users_pending b = us # q" "us \<noteq> []"
  shows "\<exists>sig. liquidation_idle_callback env prev_block b =
    thenE (liquidation_round env us sig) (returnE prev_block) (b\<lparr>users_continue := [], users_pending := q\<rparr>)"
proof -
  define sig where "sig = (case signal_recv b of None \<Rightarrow> None
     | Some sg \<Rightarrow> if recv_height sg = block_num (bt_blocks b) then Some sg else None)"
  have "liquidation_idle_callback env prev_block b =
    thenE (liquidation_round env us sig) (returnE prev_block) (b\<lparr>users_continue := [], users_pending := q\<rparr>)"
    using assms(3) by (simp add: liquidation_idle_callback_def get_data_from_queue_def eff_apply bindE_apply assms(1,2) sig_def)
  then show ?thesis by blast
qed

section \<open>The lists of the aggregators\<close>

lemma insert_index_from_run:
  assumes "\<forall>u \<in> set us. hf u = Inr (H u)"
  shows "insert_index_from hf h i us = Inr (if \<exists>u \<in> set us. h < H u then i + length (takeWhile (\<lambda>u. \<not> h < H u) us) else 0)"
  using assms by (induction us arbitrary: i) auto

text \<open>A user whose health factor is below that of some listed user is inserted so that the list
  stays sorted and gains only this user.\<close>

lemma insert_pre_filtered_sorted:
  assumes "\<forall>u \<in> set pre. hf u = Inr (H u)" "usr \<notin> set pre" "sorted (map H pre)" "H usr = h"
    and "pre \<noteq> []" "\<exists>u \<in> set pre. h < H u"
  shows "\<exists>pre'. insert_pre_filtered hf usr h pre = Inr pre' \<and> mset pre' = add_mset usr (mset pre) \<and> sorted (map H pre')"
proof -
  define n where "n = length (takeWhile (\<lambda>u. \<not> h < H u) pre)"
  have t: "take n pre = takeWhile (\<lambda>u. \<not> h < H u) pre" unfolding n_def by (rule takeWhile_eq_take [symmetric])
  have d: "drop n pre = dropWhile (\<lambda>u. \<not> h < H u) pre" unfolding n_def by (rule dropWhile_eq_drop [symmetric])
  have run: "insert_pre_filtered hf usr h pre = Inr (list_insert_at n usr pre)"
    using assms(2,6) insert_index_from_run [OF assms(1), of h 0] by (simp add: insert_pre_filtered_def n_def)
  have m: "mset (list_insert_at n usr pre) = add_mset usr (mset pre)"
  proof -
    have "mset pre = mset (take n pre) + mset (drop n pre)" by (metis append_take_drop_id mset_append)
    then show ?thesis by (simp add: list_insert_at_def)
  qed
  have lo: "\<forall>u \<in> set (take n pre). H u \<le> h" unfolding t by (auto dest: set_takeWhileD)
  have hi: "\<forall>u \<in> set (drop n pre). h \<le> H u"
  proof (cases "drop n pre")
    case (Cons x xs)
    have "h < H x" using hd_dropWhile [of "\<lambda>u. \<not> h < H u" pre] assms(6) Cons d by auto
    moreover have "sorted (map H (drop n pre))" using assms(3) by (simp add: drop_map [symmetric] sorted_wrt_drop)
    ultimately show ?thesis using Cons by auto
  qed simp
  have "sorted (map H (take n pre))" "sorted (map H (drop n pre))"
    using assms(3) by (simp_all add: take_map [symmetric] drop_map [symmetric] sorted_wrt_take sorted_wrt_drop)
  with lo hi have "sorted (map H (list_insert_at n usr pre))"
    using assms(4) by (auto simp: list_insert_at_def sorted_append) force
  with run m show ?thesis by blast
qed

text \<open>A user with a health factor that no listed user exceeds is put in front of the list, which
  is then not sorted.\<close>

lemma insert_pre_filtered_front:
  assumes "\<forall>u \<in> set pre. hf u = Inr (H u)" "usr \<notin> set pre" "\<forall>u \<in> set pre. \<not> h < H u"
  shows "insert_pre_filtered hf usr h pre = Inr (usr # pre)"
  using assms(2,3) insert_index_from_run [OF assms(1), of h 0] by (auto simp: insert_pre_filtered_def list_insert_at_def)

end
