(* ===== verification/Samples.thy ===== *)
theory Samples
  imports Bot
begin

text \<open>
  A concrete bot for the examples beside the properties: two markets at par, one user with 1000
  of collateral and 900 of debt, a deep pool between the two tokens, one account. The round
  over this user is evaluated step by step; it ends with one signed task.
\<close>

section \<open>The world\<close>

definition addr_a :: string where "addr_a = ''0xaaaaaaaaaaaaaaaaaaaaaaaaaaaaaaaaaaaaaaaa''"
definition addr_b :: string where "addr_b = ''0xbbbbbbbbbbbbbbbbbbbbbbbbbbbbbbbbbbbbbbbb''"
definition usr_1 :: string where "usr_1 = ''0x1111111111111111111111111111111111111111''"
definition pool_1 :: string where "pool_1 = ''0xcccccccccccccccccccccccccccccccccccccccc''"

definition demo_market :: "string \<Rightarrow> int \<Rightarrow> ctoken_infos" where
  "demo_market ua pr = \<lparr>risks = \<lparr>borrow_index = EXP_SCALE, reserve_factor = 0, exchange_rate = EXP_SCALE, protocol_seized = 0\<rparr>,
     balances = new_ctoken_balances, configs = Some (new_ctoken_configs ua '''' ua 18 ''X'' 8),
     price = Some (CtokenPrice pr 0)\<rparr>"

definition demo_ctokens :: ctokens where
  "demo_ctokens = [(''vA'', demo_market addr_a EXP_SCALE), (''vB'', demo_market addr_b EXP_SCALE)]"

definition demo_comet :: comet_configs where
  "demo_comet = \<lparr>liq_incentive = 1100000000000000000, closs_factor = 500000000000000000,
     ctokens_collateral_factor = [(''vA'', 800000000000000000), (''vB'', 800000000000000000)], comet_last_update = 0\<rparr>"

definition demo_reserves :: "(string, comp_reserve) dict" where
  "demo_reserves = [(''vA'', \<lparr>col_amount = 1000 * EXP_SCALE, is_col_liq = 1, debt_amount = 0, debt_interest = 0\<rparr>),
     (''vB'', \<lparr>col_amount = 0, is_col_liq = 0, debt_amount = 900 * EXP_SCALE, debt_interest = EXP_SCALE\<rparr>)]"

definition demo_hf :: health_factor where
  "demo_hf = \<lparr>hf_value = rnd (800 / 900), hf_debt_volume = 900 * EXP_SCALE, hf_last_update = 7\<rparr>"

definition demo_pools :: "int list pools" where
  "demo_pools = [(addr_a @ addr_b, Some \<lparr>pool_pair = (addr_a, addr_b), pool_addr = pool_1, 
    liquidity = [10^9 * EXP_SCALE, 10^9 * EXP_SCALE, 0], pool_fee = 25\<rparr>)]"

definition demo_pairs :: "(string, liq_pair list) dict" where
 "demo_pairs = [(''vB'', [\<lparr>lp_profit = 22500000000000000000, lp_col_ctoken=''vA'', lp_debt_ctoken=''vB'', lp_seize_tokens = 472500000000000000000, lp_repay_amount=450000000000000000000\<rparr>])]"

definition demo_send :: send_type where
  "demo_send = SendType 3000000 1500000 0 '''' create_type0_tx create_type0_tx"

definition demo_blocks :: block_infos where
  "demo_blocks = \<lparr>block_num = 100, block_time = 1000, base_fee = 0, bi_gas_price = 5000000000\<rparr>"

definition demo_step :: path_step where
  "demo_step = \<lparr>ps_pool_addr = pool_1, ps_fee = 25, ps_token0 = addr_a, ps_token1 = addr_b,
     is_zero_for_one = 1, ps_amount_out = 450000000000000000000\<rparr>"

definition demo_target :: liq_pair where
  "demo_target = (hd (snd (hd demo_pairs)))\<lparr>lp_profit := 21371977443517669131\<rparr>"

definition demo_route :: routs where
  "demo_route = \<lparr>token_in = addr_a, token_out = addr_b, paths = [demo_step]\<rparr>"

definition demo_states :: high_states where
  "demo_states = \<lparr>
     s_users = [\<lparr>reserves = [(''vA'', 0), (''vB'', 1)], user_hf = new_health_factor, vai_repay = 0\<rparr>],
     s_reserves = map snd demo_reserves, s_ctokens = demo_ctokens, s_plug_in = None,
     users_states = [(usr_1, 0)], last_update = 90, block_hash = '''',
     parent_users = [], debt_desired = 0, update_users = []\<rparr>"

definition demo_world :: liq_world where
  "demo_world = \<lparr>lw_routers = [], lw_marks = [], lw_accounts = [\<lparr>acc_address = addr_a, acc_nonce = 4\<rparr>], lw_ids = 0\<rparr>"

definition demo_sender :: bnb48_sender where
  "demo_sender = \<lparr>snd_lock = False, snd_counter = 0, b_acc = \<lparr>acc_address = addr_b, acc_nonce = 0\<rparr>,
     bnb_price = 300, b_storage = [], b_balance = 0, bnb_gas_price = 5000000000\<rparr>"

definition demo_bot :: bot where
  "demo_bot = \<lparr>bt_states = demo_states, bt_comet = demo_comet, bt_signals = Signals [] [], bt_blocks = demo_blocks,
     bt_sender = demo_sender, bt_world = demo_world, users_pending = [], users_continue = [],
     users_pre_filtered = [], signal_recv = None\<rparr>"

definition demo_sign :: signer where
  "demo_sign a tx = word_of_int (case t_nonce tx of Some n \<Rightarrow> n | None \<Rightarrow> 0) # (case t_data tx of Some d \<Rightarrow> d | None \<Rightarrow> [])"

definition demo_env :: "int list bot_env" where
  "demo_env = \<lparr>e_abi = (\<lambda>_ _. None), e_checksum = id, e_sign = demo_sign, e_ids = (\<lambda>n. ''id''),
     e_pools = demo_pools, e_swap = v2_swap_simulation, e_send_type = demo_send, e_reserves = [''vA'', ''vB''],
     e_assets_in = (\<lambda>_. Inr [''vA'']), e_vai_repay = (\<lambda>_. Inr 0), e_exchange_rate = (\<lambda>_. Inr EXP_SCALE),
     e_gas_price = Inr 5000000000, e_tx_count = (\<lambda>_. Inr 4), e_balance = (\<lambda>_. Inr 0),
     e_encode_tx = (\<lambda>_. Inr ''''), e_now = 7\<rparr>"

section \<open>A round, step by step\<close>

lemma demo_health: "calculate_health_factor 7 (usr_1, demo_reserves, 0) demo_ctokens demo_comet = Inr (usr_1, demo_hf, demo_reserves)"
  by code_simp

lemma demo_debts: "debt_entries demo_reserves demo_ctokens demo_comet = Inr [(450000000000000000000, ''vB'', 450000000000000000000)]"
  by code_simp

lemma demo_simulation: "liquidation_simulation demo_reserves demo_ctokens demo_comet = Inr demo_pairs"
proof -
  have 1: "\<not> (450000000000000000000 :: rat) < fmul (fl_int 450000000000000000000) (rnd (8/10))" by code_simp
  have 2: "collateral_pairs demo_reserves demo_ctokens demo_comet ''vB'' EXP_SCALE 450000000000000000000 = Inr (snd (hd demo_pairs))"
    by code_simp
  have 3: "ctk_price_current demo_ctokens ''vB'' = Inr EXP_SCALE" by code_simp
  have 4: "sort_key_rev lp_profit (snd (hd demo_pairs)) = snd (hd demo_pairs)" by (simp add: demo_pairs_def sort_key_rev_def)
  show ?thesis
    using 1 2 4 by (simp add: liquidation_simulation_def demo_debts sort_key_rev_def 3 Let_def) (simp add: demo_pairs_def)
qed

lemma demo_swap: "profit_simulation demo_ctokens demo_pairs demo_pools v2_swap_simulation [] = (Inr (Some (demo_target, demo_route)), [])"
  by code_simp

definition demo_tx :: tx_params where
  "demo_tx = fst (create_type0_tx 5000000000 0 0)"

lemma demo_create: "create_liq_transaction demo_send (of_int (lp_profit demo_target)) demo_blocks None = Inr (demo_tx, 5000000000)"
  by code_simp

definition demo_profit :: pyfloat where
  "demo_profit = fsub (fl_int 21371977443517669131) (fmul (fmul (rnd (5000000000 / 10 ^ 18)) (fl_int 1500000)) 1)"

lemma demo_revenue: "liquidation_profit demo_ctokens demo_send (lp_profit demo_target) 5000000000 = Inr demo_profit"
  by (simp add: liquidation_profit_def base_price_def demo_send_def SendType_def int_truediv_def demo_profit_def
      demo_target_def)

lemma demo_profit_nonneg: "0 \<le> demo_profit"
proof -
  have "rnd (5000000000 / 10 ^ 18) \<le> 1" by (rule ieee.fl_le_one) simp
  then have "rnd (5000000000 / 10 ^ 18) * 1500000 \<le> 1500000" by simp
  then have 1: "rnd (rnd (5000000000 / 10 ^ 18) * 1500000) \<le> rnd 1500000" by (rule rnd_mono)
  then have "rnd (rnd (rnd (5000000000 / 10 ^ 18) * 1500000)) \<le> rnd 1500000" using rnd_mono [OF 1] by simp
  moreover have "rnd 1500000 \<le> rnd 21371977443517669131" by (rule rnd_mono) simp
  ultimately show ?thesis by (simp add: demo_profit_def fsub_def fmul_def fl_int_def ieee.fl_nonneg)
qed

lemma demo_call_ok: "\<exists>b. fromhex (drop 2 (bot_gen usr_1 ''vB'' ''vA'' [demo_step])) = Inr b"
proof (rule bot_gen_decodes)
  have "list_all hex_char (drop 2 (lower usr_1))" "list_all hex_char (drop 2 (lower pool_1))" 
    "list_all hex_char (drop 2 (lower addr_a))" "list_all hex_char (drop 2 (lower addr_b))" by code_simp+
  then show "\<forall>p \<in> set [demo_step]. list_all hex_char (drop 2 (lower (ps_pool_addr p))) \<and> list_all hex_char (drop 2 (lower (ps_token0 p))) \<and>
      list_all hex_char (drop 2 (lower (ps_token1 p))) \<and> 0 \<le> ps_fee p \<and> 0 \<le> ps_amount_out p"
    "list_all hex_char (drop 2 (lower usr_1))"
    by (simp_all add: demo_step_def)
  have "length (zfill (py_str 1) 64) = 64" by code_simp
  then show "even (length (bot_gen usr_1 ''vB'' ''vA'' [demo_step]))"
    by (simp add: bot_gen_def step_words_def addr_word_def length_zfill length_hex_word demo_step_def
      usr_1_def pool_1_def addr_a_def addr_b_def)
qed (simp_all add: lower_def)

definition demo_data :: bytes where
  "demo_data = projr (fromhex (drop 2 (bot_gen usr_1 ''vB'' ''vA'' [demo_step])))"

lemma demo_call: "fromhex (drop 2 (bot_gen usr_1 ''vB'' ''vA'' [demo_step])) = Inr demo_data"
  using demo_call_ok by (auto simp: demo_data_def)

definition demo_task :: task where
  "demo_task = \<lparr>task_index = ''id'', task_raw = 4 # demo_data, task_profit = demo_profit\<rparr>"

lemma demo_users: "calculate_users demo_env [usr_1] demo_bot = (Inr [(usr_1, demo_hf, demo_reserves)], demo_bot)"
proof -
  have "gen_users_with_args demo_states [usr_1] = Inr [(usr_1, demo_reserves, 0)]" by code_simp
  then show ?thesis
    by (simp add: calculate_users_def py_simps execution_select_def signal_calculate_health_factor_def demo_bot_def demo_env_def
      demo_states_def demo_health)
qed

lemma demo_start:
  "\<exists>w'. liquidation_start demo_sign ''id'' usr_1 demo_ctokens demo_blocks demo_route demo_target None demo_send (demo_world\<lparr>lw_ids := Suc 0\<rparr>)
     = (Inr [demo_task], w')"
proof -
  have t: "lp_debt_ctoken demo_target = ''vB''" "lp_col_ctoken demo_target = ''vA''" "paths demo_route = [demo_step]"
    by (simp_all add: demo_target_def demo_pairs_def demo_route_def)
  have m: "is_user_liquidated usr_1 ''vB'' a (lw_marks demo_world) = (Inr None, [])" for a
    by (simp add: is_user_liquidated_def py_simps demo_world_def)
  have k: "signed_tasks demo_sign ''id'' (liq_tx demo_tx demo_data) demo_profit (lw_accounts (demo_world\<lparr>lw_ids := Suc 0\<rparr>)) = [demo_task]"
    by (simp add: signed_tasks_def demo_world_def demo_task_def demo_sign_def liq_tx_def)
  have "\<exists>w'. liquidation_start demo_sign ''id'' usr_1 demo_ctokens demo_blocks demo_route demo_target None demo_send (demo_world\<lparr>lw_ids := Suc 0\<rparr>)
     = (Inr (signed_tasks demo_sign ''id'' (liq_tx demo_tx demo_data) demo_profit (lw_accounts (demo_world\<lparr>lw_ids := Suc 0\<rparr>))), w')"
    by (rule liquidation_start_sends [OF _ demo_create demo_revenue demo_profit_nonneg]) (simp_all add: t m demo_call)
  then show ?thesis unfolding k .
qed

lemma demo_simulate:
  "\<exists>w'. signal_simulate_health_factor demo_sign (\<lambda>n. ''id'') [(usr_1, demo_hf, demo_reserves)] demo_ctokens demo_comet
     demo_blocks demo_pools v2_swap_simulation None demo_send demo_world = (Inr [demo_task], w')"
proof -
  obtain w' where w': "liquidation_start demo_sign ''id'' usr_1 demo_ctokens demo_blocks demo_route demo_target None demo_send
     (demo_world\<lparr>lw_ids := Suc 0\<rparr>) = (Inr [demo_task], w')" using demo_start by blast
  have f: "fdiv (hf_value demo_hf) (fl_int HF_THRESHOLD) = Inr (rnd (hf_value demo_hf))"
    by (simp add: fdiv_def HF_THRESHOLD_def fl_int_def)
  have h: "rnd (hf_value demo_hf) < 1" "0 < rnd (hf_value demo_hf)" by code_simp+
  have p: "demo_pairs \<noteq> []" "bindR (dgetR demo_pairs (fst (hd demo_pairs))) (\<lambda>ps. py_index ps 0) = Inr (hd (snd (hd demo_pairs)))"
    "\<not> lp_profit (hd (snd (hd demo_pairs))) < DESIRED_PROFIT_SCALE" "\<not> lp_profit demo_target < DESIRED_PROFIT_SCALE"
    by (simp_all add: demo_pairs_def py_index_def demo_target_def DESIRED_PROFIT_SCALE_def EXP_SCALE_def)
  have r: "on_routers (profit_simulation demo_ctokens demo_pairs demo_pools v2_swap_simulation) demo_world =
      (Inr (Some (demo_target, demo_route)), demo_world)"
    by (simp add: on_routers_def demo_world_def demo_swap)
  have d: "draw_id (\<lambda>n. ''id'') demo_world = (Inr ''id'', demo_world\<lparr>lw_ids := Suc 0\<rparr>)"
    by (simp add: draw_id_def py_simps demo_world_def)
  have "simulate_user demo_sign (\<lambda>n. ''id'') demo_ctokens demo_comet demo_blocks demo_pools v2_swap_simulation None demo_send
      (usr_1, demo_hf, demo_reserves) demo_world = (Inr [demo_task], w')"
    unfolding simulate_user_def by (simp add: eff_apply bindE_apply f h demo_simulation p r d w')
  then show ?thesis by (simp add: signal_simulate_health_factor_def py_simps)
qed

lemma poor_price: "\<exists>g. bundle_price p 300 0 = Inr g \<and> g \<le> 0"
proof -
  have "rnd (x / 21000) \<le> 0" if "x \<le> 0" for x
    using rnd_mono [of "x / 21000" 0] that by simp
  then show ?thesis by (auto simp: bundle_price_def fdiv_def fmul_def int_truediv_def)
qed

lemma poor_sender:
  assumes "b_balance s = 0" "bnb_price s = 300" "bnb_gas_price s = 5000000000"
  shows "BnB48_x sign p txs e s = (Inr (), s)"
proof -
  obtain g where g: "bundle_price p 300 0 = Inr g" "g \<le> 0" using poor_price by blast
  then have "g < 5000000000" by simp
  then show ?thesis using assms by (simp add: BnB48_x_def py_simps g(1))
qed

lemma demo_sent: "\<exists>b'. liquidate_and_send demo_env [(usr_1, demo_hf, demo_reserves)] None demo_bot = (Inr [demo_task], b')"
proof -
  obtain w' where w': "signal_simulate_health_factor demo_sign (\<lambda>n. ''id'') [(usr_1, demo_hf, demo_reserves)] demo_ctokens demo_comet
     demo_blocks demo_pools v2_swap_simulation None demo_send demo_world = (Inr [demo_task], w')"
    using demo_simulate by blast
  have s: "\<exists>s'. BnB48_send_transactions demo_sign [demo_task] e None demo_sender = (Inr (), s')" for e
    by (simp add: BnB48_send_transactions_def py_simps demo_sender_def poor_sender sort_key_rev_def Let_def)
  define e where "e = bnb48_expire demo_blocks (block_num demo_blocks)"
  obtain s' where s': "BnB48_send_transactions demo_sign [demo_task] e None demo_sender = (Inr (), s')" using s by blast
  have fields: "e_sign demo_env = demo_sign" "e_ids demo_env = (\<lambda>n. ''id'')" "e_pools demo_env = demo_pools"
    "e_swap demo_env = v2_swap_simulation" "e_send_type demo_env = demo_send"
    "bt_world demo_bot = demo_world" "bt_sender demo_bot = demo_sender"
    "s_ctokens (bt_states demo_bot) = demo_ctokens" "bt_comet demo_bot = demo_comet" "bt_blocks demo_bot = demo_blocks"
    by (simp_all add: demo_env_def demo_bot_def demo_states_def)
  show ?thesis
    by (simp add: liquidate_and_send_def py_simps fields w' e_def [symmetric] s')
qed

section \<open>The sample is well formed\<close>

lemma demo_tidy: "tidy demo_states"
  by (simp add: tidy_def store_ok_def unshared_def demo_states_def demo_reserves_def dict_ok_def)

lemma demo_market_sane: "market_sane demo_ctokens demo_comet"
  by (simp add: market_sane_def demo_ctokens_def demo_comet_def demo_market_def CtokenPrice_def EXP_SCALE_def TREASURY_PERCENT_def)

lemma demo_interest: "\<forall>r \<in> set (s_reserves demo_states). 0 \<le> debt_interest r"
  by (simp add: demo_states_def demo_reserves_def EXP_SCALE_def)

section \<open>A bot with a pending price that was not confirmed\<close>

definition stale_ctokens :: ctokens where
  "stale_ctokens = [(''vA'', (demo_market addr_a EXP_SCALE)\<lparr>price := Some (CtokenPrice_update 5 0 (CtokenPrice EXP_SCALE 0))\<rparr>),
     (vBNB_price_key, demo_market addr_b (300 * EXP_SCALE))]"

definition stale_bot :: bot where
  "stale_bot = demo_bot\<lparr>bt_states := demo_states\<lparr>s_ctokens := stale_ctokens\<rparr>\<rparr>"

definition stale_env :: "int list bot_env" where
  "stale_env = demo_env\<lparr>e_reserves := [''vA''], e_now := 100\<rparr>"

definition stale_header :: header_msg where
  "stale_header = \<lparr>hm_miner = '''', hm_number = ''0x65'', hm_timestamp = ''0x3eb'', hm_baseFeePerGas = None\<rparr>"

lemma stale_receipt: "snd (on_sender (process_receipts [''0x1'']) stale_bot) = stale_bot"
proof -
  have "py_int 16 ''0x1'' = Inr 1" by code_simp
  then show ?thesis
    by (simp add: py_simps process_receipts_def process_receipt_def stale_bot_def demo_bot_def demo_sender_def)
qed

lemma stale_message: "\<exists>b2. on_message stale_env (Some stale_header) stale_bot = (Inr (), b2)"
proof -
  have "fst (on_message stale_env (Some stale_header) stale_bot) = Inr ()" by code_simp
  then show ?thesis by (metis prod.collapse)
qed

lemma stale_anchored: "anchored (\<lambda>a. if a = vBNB_price_key then 300 * EXP_SCALE else EXP_SCALE) (bt_states stale_bot)"
  by (auto simp: anchored_def stale_bot_def stale_ctokens_def ctk_price_def demo_market_def price_inv_def
      CtokenPrice_def CtokenPrice_update_def dgetR_def vBNB_price_key_def split: if_splits)

lemma stale_price:
  "\<forall>p. ctk_price (s_ctokens (bt_states stale_bot)) ''vA'' = Inr p \<longrightarrow> is_comfired p \<or> price_last_update p + 15 < e_now stale_env"
  "''vA'' \<noteq> vBNB_price_key"
  by (auto simp: stale_bot_def stale_ctokens_def ctk_price_def CtokenPrice_update_def dgetR_def stale_env_def vBNB_price_key_def)

end
