(* ===== verification/Examples.thy ===== *)
theory Examples
  imports Samples
begin

text \<open>
  The properties of the components at concrete inputs: each theorem here applies one of them with
  its hypotheses evaluated.
\<close>

section \<open>Logs\<close>

definition bytes_of :: "string \<Rightarrow> bytes" where
  "bytes_of s = (case fromhex s of Inr b \<Rightarrow> b | Inl _ \<Rightarrow> [])"

definition demo_log :: "string \<Rightarrow> string \<Rightarrow> bytes list \<Rightarrow> log_receipt" where
  "demo_log a topic args = \<lparr>lg_address = a, lg_data = ''0x00'', lg_topics = bytes_of (drop 2 topic) # args,
     lg_blockNumber = 91, lg_blockHash = [], lg_transactionIndex = 0, lg_transactionHash = [], lg_removed = False\<rparr>"

definition word_of_addr :: "string \<Rightarrow> bytes" where
  "word_of_addr a = replicate 12 0 @ bytes_of (drop 2 a)"

definition transfer_log :: log_receipt where
  "transfer_log = demo_log ''vA'' ''0xddf252ad1be2c89b69c2b068fc378daa952ba7f163c4a11628f55a4df523b3ef''
     [word_of_addr usr_1, word_of_addr addr_a]"

definition borrow_log :: "string \<Rightarrow> log_receipt" where
  "borrow_log a = demo_log a ''0x13ed6866d4e1ee6da46f845c46d7e54120883d75c5ea9a2dacc1c4ca8984ab80'' []"

definition borrow_args :: "abi_val list" where
  "borrow_args = [VAddr usr_1, VInt 3, VInt 8, VInt 9]"

lemma transfer_log_ok:
  "log_of ''0xddf252ad1be2c89b69c2b068fc378daa952ba7f163c4a11628f55a4df523b3ef'' (\<lambda>_ _. Some [VInt 5]) transfer_log
     \<lparr>ev_name = ''Transfer'', ev_index_topic = [''address'', ''address''], ev_data = [''uint256'']\<rparr> [VInt 5]"
  "topic_addr transfer_log 1 = Inr usr_1" "topic_addr transfer_log 2 = Inr addr_a"
  by code_simp+

lemma borrow_log_ok:
  "log_of ''0x13ed6866d4e1ee6da46f845c46d7e54120883d75c5ea9a2dacc1c4ca8984ab80'' (\<lambda>_ _. Some borrow_args) (borrow_log ''vA'')
     \<lparr>ev_name = ''Borrow'', ev_index_topic = [], ev_data = [''address'', ''uint256'', ''uint256'', ''uint256'']\<rparr> borrow_args"
  by code_simp

lemma demo_market_vA: "dget (s_ctokens demo_states) ''vA'' = Some (demo_market addr_a EXP_SCALE)" "s_plug_in demo_states = None"
  by (simp_all add: demo_states_def demo_ctokens_def)



section \<open>The loops over the blocks\<close>

theorem ranges_exact_witness:
  "block_ranges 10 4000 = [(11, 2010), (2011, 4000)] \<and> concat (map (\<lambda>(a, b). [a..b]) [(11, 2010), (2011, 4000)]) = [11..4000::int]"
proof -
  have r: "block_ranges 10 4000 = [(11, 2010), (2011, 4000)]"
    by (simp add: block_ranges.simps range_end_def Let_def)
  from ranges_exact [of 10 4000] show ?thesis unfolding r by simp
qed

definition demo_full :: states where
  "demo_full = states.truncate demo_states"

lemma full_tidy: "tidy demo_full"
  by (simp add: tidy_def store_ok_def unshared_def demo_full_def states.truncate_def demo_states_def demo_reserves_def dict_ok_def)


section \<open>The users\<close>

theorem cache_reload_witness:
  "\<exists>s' u r b t. cache demo_states = (Inr (u, r, b), s') \<and> reload_states 1 0 u r b [''vA'', ''vB''] = Inr t \<and>
     view t = trim_view (view demo_states)"
proof -
  have "set [''vA'', ''vB''] = set (dkeys (s_ctokens demo_states))" by (simp add: demo_states_def demo_ctokens_def)
  from cache_reload [OF demo_tidy this] show ?thesis by blast
qed

theorem sampling_covers_witness: "\<exists>i < nat 3. \<exists>xs. get_users_sampling demo_states i 3 = Inr xs \<and> usr_1 \<in> set xs"
  by (rule sampling_covers) (simp_all add: demo_states_def)

theorem HighProfit_users_witness: "dget (users_states (HighProfitSates demo_full 1)) usr_1 = None"
  by (simp add: HighProfit_users [OF full_tidy])
    (simp add: demo_full_def states.truncate_def demo_states_def new_health_factor_def)

definition shared_states :: high_states where
  "shared_states = demo_states\<lparr>parent_users := [(usr_1, 0)],
     s_ctokens := (''vC'', demo_market addr_a EXP_SCALE) # demo_ctokens\<rparr>"

lemma shared_update: "fst (States_update (\<lambda>_ _. Some borrow_args) id (borrow_log ''vC'') shared_states) = Inr [(usr_1, 2)]"
  by code_simp

theorem HighProfit_update_aliased_witness:
  "\<exists>s'. HighProfit_update (\<lambda>_ _. Some borrow_args) id (borrow_log ''vC'') shared_states = (Inr [(usr_1, 2)], s') \<and>
     map_option col_amount (position shared_states usr_1 ''vA'') = Some (1000 * EXP_SCALE) \<and>
     map_option col_amount (position s' usr_1 ''vA'') = Some (2000 * EXP_SCALE)"
proof -
  define s1 where "s1 = snd (States_update (\<lambda>_ _. Some borrow_args) id (borrow_log ''vC'') shared_states)"
  have u: "States_update (\<lambda>_ _. Some borrow_args) id (borrow_log ''vC'') shared_states = (Inr [(usr_1, 2)], s1)"
    using shared_update by (simp add: s1_def prod_eq_iff)
  have "tidy shared_states"
    by (simp add: tidy_def store_ok_def unshared_def shared_states_def demo_states_def demo_reserves_def dict_ok_def)
  then have t: "tidy s1" unfolding s1_def by (rule keepsD [OF tidy_States_update])
  have r: "dget (users_states s1) usr_1 = Some 0" "dget (parent_users s1) usr_1 = Some 0"
    unfolding s1_def by code_simp+
  have p: "map_option col_amount (position s1 usr_1 ''vA'') = Some (1000 * EXP_SCALE)"
    "map_option col_amount (position shared_states usr_1 ''vA'') = Some (1000 * EXP_SCALE)"
    unfolding s1_def by code_simp+
  then obtain c where "position s1 usr_1 ''vA'' = Some c" "col_amount c = 1000 * EXP_SCALE" by auto
  with HighProfit_update_aliased [OF u t r] p(2) show ?thesis by (auto simp: merge_pos_def)
qed

theorem extend_run_witness:
  "\<exists>s'. reload_and_extend_states (\<lambda>_. Inr [''vA'']) usr_1 demo_states = (Inr (), s') \<and>
     position s' = flag_pos usr_1 (\<lambda>a. Some (if a = ''vA'' then 1 else 0)) (position demo_states)"
  using extend_run [OF demo_tidy, where u = usr_1 and r = 0 and ms = "[''vA'']" and get_assets_in = "\<lambda>_. Inr [''vA'']"]
  by (auto simp: demo_states_def)

section \<open>Chain, signals and routes\<close>

theorem comet_factor_other_key_witness:
  "\<exists>c'. comet_new_factor undefined [VAddr ''0xab'', VInt 1, VInt 7] demo_comet = (Inr (), c') \<and>
     dget (ctokens_collateral_factor c') ''0xAB'' = dget (ctokens_collateral_factor demo_comet) ''0xAB''"
  by (rule comet_factor_other_key [where k = "''0xab''" and new = 7]) (simp_all add: arg_addr_def arg_int_def)

definition demo_signals :: signal_map where
  "demo_signals = [(''0xaggr'', [\<lparr>ai_token = ''vA'', pair_symbols = [''A'', ''USD''], price_decimals = 8\<rparr>])]"

theorem signal_inverse_witness:
  "dget (signal_token_inverse demo_signals) ''vA'' = Some ''0xaggr'' \<and> dget (signal_token_inverse demo_signals) ''vB'' = None"
  using signal_inverse [of demo_signals "''vA''"] signal_inverse [of demo_signals "''vB''"] by (auto simp: demo_signals_def)

definition report_tx :: pending_tx where
  "report_tx = \<lparr>tx_to = ''0xaggr'', tx_input = ''0x'' @ hex_bytes (TRANSMIT_FUNC_SIG @
       encode_report (replicate 5 0) (replicate 31 0 @ [7]) (replicate 64 0) [3, 5, 9] []),
     tx_gasPrice = Some ''0x5'', tx_maxFeePerGas = ''0x0''\<rparr>"

definition idle_signals :: signals where
  "idle_signals = (Signals demo_signals [])\<lparr>signals_epoch := [(''0xaggr'', 3)]\<rparr>"


theorem epoch_monotone_witness:
  "\<exists>l'. 3 \<le> l' \<and> dget (signals_epoch (snd (tx_filter_and_parsing report_tx 5 idle_signals))) ''0xaggr'' = Some l'"
proof -
  have "dget (signals_epoch idle_signals) ''0xaggr'' = Some 3" by (simp add: idle_signals_def)
  from epoch_monotone [OF this] show ?thesis by blast
qed

theorem cheapest_route_witness:
  "\<exists>ys. distinct ys \<and> walk_path v2_swap_simulation demo_pools ([addr_b] @ ys @ [addr_a]) 450000000000000000000 [] =
     (451128022556482330869, [demo_step])"
proof -
  have "find_routs [] demo_route 450000000000000000000 demo_pools v2_swap_simulation = (451128022556482330869, [demo_step])"
    by code_simp
  from cheapest_route [OF _ this] show ?thesis by (auto simp: demo_route_def simp del: walk_path.simps intro!: exI [of _ "[]"])
qed

theorem pool_key_unordered_witness: "fst (gen_pool_key addr_a addr_b) = fst (gen_pool_key addr_b addr_a)"
  using pool_key_unordered [of addr_a 42 addr_b addr_b addr_a] by (auto simp: addr_a_def addr_b_def)


section \<open>Call data, tasks and subscriptions\<close>


theorem process_receipts_run_witness:
  "process_receipts [''0x0'', ''0x1''] demo_sender = (Inr (), demo_sender\<lparr>snd_counter := 1\<rparr>)"
proof -
  have p: "py_int 16 ''0x0'' = Inr 0" "py_int 16 ''0x1'' = Inr 1" by code_simp+
  then have "failures [''0x0'', ''0x1''] = 1" by (simp add: failures_def)
  with process_receipts_run [of "[''0x0'', ''0x1'']" demo_sender] p show ?thesis by (simp add: demo_sender_def)
qed

theorem subscribe_full_exact_witness: "subscribe_full (\<lambda>i. Failed (i = 1)) 0 0 = Some 4"
proof -
  have "failures_before (\<lambda>i. Failed (i = 1)) 4 = 3 \<and> (\<forall>m < 4. failures_before (\<lambda>i. Failed (i = 1)) m < 3)" by code_simp
  then show ?thesis using subscribe_full_exact [of "\<lambda>i. Failed (i = 1)" 4] by blast
qed

section \<open>Health factors and targets\<close>

theorem start_multi_process_old_mapR_witness:
  "start_multi_process_old (mapR (\<lambda>x. Inr (x + 1))) 2 [1, 2, 3 :: int] = Inr [2, 3, 4]"
  using start_multi_process_old_mapR [of 2 "\<lambda>x. Inr (x + 1)" "[1, 2, 3 :: int]"] by simp

text \<open>Two users close to liquidation.\<close>

definition near_hf :: "int \<Rightarrow> health_factor" where
  "near_hf percent = \<lparr>hf_value = rnd (of_int percent / 100), hf_debt_volume = 0, hf_last_update = 0\<rparr>"

definition near_states :: states where
  "near_states = \<lparr>s_users = map (\<lambda>p. \<lparr>reserves = [], user_hf = near_hf p, vai_repay = 0\<rparr>) [105, 102],
     s_reserves = [], s_ctokens = [], s_plug_in = None, users_states = [(''u5'', 0), (''u2'', 1)],
     last_update = 0, block_hash = ''''\<rparr>"

definition near_of :: "string \<Rightarrow> health_factor" where
  "near_of u = near_hf (if u = ''u5'' then 105 else 102)"

lemma near_users: "hfs_are near_states [''u5'', ''u2''] near_of"
  by (simp add: hfs_are_def near_states_def user_of_def user_ref_def near_of_def)

lemma near_trimmed: "users_trimming [''u5'', ''u2''] near_states 1000000 True = Inr [''u2'', ''u5'']"
proof -
  have "is_stale 1000000 (near_hf 105)" "is_stale 1000000 (near_hf 102)"
    "trimming_selects True (norm_of (near_hf 105))" "trimming_selects True (norm_of (near_hf 102))"
    "norm_of (near_hf 102) < norm_of (near_hf 105)"
    by code_simp+
  then show ?thesis by (simp add: users_trimming_run [OF near_users] near_of_def)
qed

theorem trimming_sorted_witness: "sorted (map (\<lambda>u. norm_of (near_of u)) [''u2'', ''u5''])"
  by (rule trimming_sorted [OF near_users near_trimmed])

theorem trimming_set_witness: "is_stale 1000000 (near_of ''u2'') \<and> trimming_selects True (norm_of (near_of ''u2''))"
  using trimming_set [OF near_users near_trimmed] by auto

theorem write_health_factor_run_witness:
  "\<exists>s'. write_health_factor [(usr_1, demo_hf, [])] demo_states = (Inr (), s') \<and> position s' = position demo_states"
  using write_health_factor_run [OF demo_tidy, of "[(usr_1, demo_hf, [])]"] by (auto simp: demo_states_def)

theorem set_then_is_liquidated_witness:
  "fst (is_user_liquidated usr_1 ''vB'' 105 (snd (set_user_liquidated ''id'' usr_1 ''vB'' 100 []))) = Inr (Some (MarkIndex ''id''))"
proof -
  have "\<bar>rnd (rnd (of_int 105 / of_int 100) - 1)\<bar> < rnd (1/10)" by code_simp
  from set_then_is_liquidated [OF _ this] show ?thesis by simp
qed

theorem binary_search_splits_witness:
  "\<exists>k. find_hf_users_index_by_binary near_states [''u2'', ''u5''] 0 = Inr (int k) \<and> k \<le> 2"
proof -
  have h: "\<forall>i < length [''u2'', ''u5'']. hf_lookup near_states ([''u2'', ''u5''] ! i) = Inr (hf_value (near_of ([''u2'', ''u5''] ! i)))"
    by (auto simp: hf_lookup_def user_of_def user_ref_def near_states_def near_of_def less_Suc_eq numeral_2_eq_2)
  have "hf_value (near_of ''u2'') \<le> hf_value (near_of ''u5'')" by code_simp
  then have m: "\<forall>i j. i \<le> j \<and> j < length [''u2'', ''u5''] \<longrightarrow>
      hf_value (near_of ([''u2'', ''u5''] ! i)) \<le> hf_value (near_of ([''u2'', ''u5''] ! j))"
    by (auto simp: less_Suc_eq numeral_2_eq_2 le_Suc_eq)
  have t: "calculate_health_factor_fake_inverse (fl_int HF_THRESHOLD) 0 = Inr 1" by code_simp
  from binary_search_splits [OF _ h m t] show ?thesis by (auto simp: numeral_2_eq_2)
qed

section \<open>The bot\<close>

theorem clock_steps_mono_witness:
  "last_update (bt_states stale_bot) \<le> last_update (bt_states (snd (users_subscribe_callback stale_env
     \<lparr>ll_blockHash = ''0x1'', ll_blockNumber = 95, ll_events = None\<rparr> stale_bot)))"
  by (rule clock_steps_mono, rule r_into_rtranclp, rule bot_step.quiet, rule quiet_step.users_log)

definition idle_bot :: bot where
  "idle_bot = demo_bot\<lparr>bt_states := demo_states\<lparr>s_users := [\<lparr>reserves = [], user_hf = new_health_factor, vai_repay = 0\<rparr>]\<rparr>\<rparr>"

definition demo_signal :: signal_info where
  "demo_signal = \<lparr>sr_hash = '''', recv_height = 100, sr_tx_type = ''0x0'', sr_gas_price = 5, priority_fee = 0, sr_raw_tx = ''0x''\<rparr>"

lemma write_health_factor_returns:
  "\<forall>(u, _) \<in> set rs. dget (users_states s) u \<noteq> None \<Longrightarrow> \<exists>s'. write_health_factor rs s = (Inr (), s')"
proof (induction rs arbitrary: s)
  case (Cons x rs)
  obtain u h d r where x: "x = (u, h, d)" "dget (users_states s) u = Some r" using Cons.prems by (cases x) auto
  define s1 where "s1 = s\<lparr>s_users := (s_users s)[r := (s_users s ! r)\<lparr>user_hf := h\<rparr>]\<rparr>"
  have m: "mod_user u (\<lambda>o1. o1\<lparr>user_hf := h\<rparr>) s = (Inr (), s1)"
    using x by (simp add: mod_user_def py_simps user_ref_def s1_def)
  have "\<exists>s'. write_health_factor rs s1 = (Inr (), s')" using Cons.prems by (intro Cons.IH) (simp add: s1_def)
  then show ?case by (simp add: write_health_factor_def x m py_simps)
qed (simp add: write_health_factor_def py_simps)

lemma idle_users: "calculate_users demo_env (replicate n usr_1) idle_bot =
    (Inr (replicate n (usr_1, \<lparr>hf_value = 0, hf_debt_volume = 0, hf_last_update = 7\<rparr>, [])), idle_bot)"
proof -
  have "user_of (bt_states idle_bot) usr_1 = Inr \<lparr>reserves = [], user_hf = new_health_factor, vai_repay = 0\<rparr>"
    by (simp add: user_of_def user_ref_def idle_bot_def demo_states_def)
  then have g: "gen_users_with_args (bt_states idle_bot) (replicate n usr_1) = Inr (replicate n (usr_1, [], 0))"
    by (induction n) (simp_all add: gen_users_with_args_def)
  have "calculate_health_factor 7 (usr_1, [], 0) c k = Inr (usr_1, \<lparr>hf_value = 0, hf_debt_volume = 0, hf_last_update = 7\<rparr>, [])" for c k
    by (simp add: calculate_health_factor_def)
  then have "mapR (\<lambda>u. calculate_health_factor 7 u c k) (replicate n (usr_1, [], 0)) =
      Inr (replicate n (usr_1, \<lparr>hf_value = 0, hf_debt_volume = 0, hf_last_update = 7\<rparr>, []))" for c k
    by (induction n) simp_all
  then show ?thesis
    by (simp add: calculate_users_def py_simps g execution_select_def signal_calculate_health_factor_def demo_env_def)
qed

lemma no_debt_no_task:
  "hf_value h = 0 \<Longrightarrow> signal_simulate_health_factor sign ids (replicate n (usr_1, h, [])) ctk com b pools swap_func g st w = (Inr [], w)"
  by (induction n) (simp_all add: signal_simulate_health_factor_def simulate_user_def py_simps fdiv_def fl_int_def HF_THRESHOLD_def)

theorem pt_users_pending_witness:
  "\<exists>r b'. pt_users demo_env (replicate 22 usr_1) demo_signal idle_bot = (Inr r, b') \<and> users_pending b' = [[usr_1, usr_1]]"
proof -
  define h where "h = \<lparr>hf_value = 0, hf_debt_volume = 0, hf_last_update = 7\<rparr>"
  define rs :: "hf_result list" where "rs = replicate 20 (usr_1, h, [])"
  have c: "calculate_users demo_env (take 20 (replicate 22 usr_1)) idle_bot = (Inr rs, idle_bot)"
    using idle_users [of 20] by (simp add: rs_def h_def)
  have sim: "signal_simulate_health_factor (e_sign demo_env) (e_ids demo_env) rs (s_ctokens (bt_states idle_bot)) (bt_comet idle_bot)
      (bt_blocks idle_bot) (e_pools demo_env) (e_swap demo_env) (map_option sr_gas_price (Some demo_signal)) (e_send_type demo_env) w =
      (Inr [], w)" for w
    unfolding rs_def by (rule no_debt_no_task) (simp add: h_def)
  have snd: "bt_sender idle_bot = demo_sender" by (simp add: idle_bot_def demo_bot_def)
  have "\<exists>s1. BnB48_send_transactions sg [] e (Some (Inr raw)) demo_sender = (Inr (), s1)" for sg e raw
    by (simp add: BnB48_send_transactions_def py_simps Let_def sort_key_rev_def demo_sender_def poor_sender)
  then obtain s1 where s1: "BnB48_send_transactions (e_sign demo_env) []
      (bnb48_expire (bt_blocks idle_bot) (block_num (bt_blocks idle_bot))) (Some (Inr (sr_raw_tx demo_signal))) demo_sender = (Inr (), s1)"
    by blast
  have l: "\<exists>b1. liquidate_and_send demo_env rs (Some demo_signal) idle_bot = (Inr [], b1) \<and> bt_states b1 = bt_states idle_bot"
    unfolding liquidate_and_send_def by (simp add: bindE_apply eff_apply on_other_apply sim [simplified] snd s1)
  then obtain b1 where b1: "liquidate_and_send demo_env rs (Some demo_signal) idle_bot = (Inr [], b1)" "bt_states b1 = bt_states idle_bot"
    by blast
  have "\<forall>(u, _) \<in> set rs. dget (users_states (bt_states idle_bot)) u \<noteq> None"
    by (simp add: rs_def idle_bot_def demo_states_def)
  then obtain s2 where "write_health_factor rs (bt_states idle_bot) = (Inr (), s2)"
    using write_health_factor_returns by blast
  then have w: "fst (write_results rs b1) = Inr ()" using b1(2) by (simp add: write_results_def py_simps)
  have "fst (pt_users demo_env (replicate 22 usr_1) demo_signal idle_bot) = Inr False"
    using c b1(1) w by (simp add: pt_users_def bindE_apply eff_apply)
  then obtain b' where b': "pt_users demo_env (replicate 22 usr_1) demo_signal idle_bot = (Inr False, b')"
    by (metis prod.collapse)
  from pt_users_pending [OF b'] have "users_pending b' = [[usr_1, usr_1]]"
    by (simp add: idle_bot_def demo_bot_def numeral_eq_Suc)
  with b' show ?thesis by blast
qed

theorem insert_pre_filtered_sorted_witness:
  "\<exists>pre'. insert_pre_filtered (\<lambda>u. Inr (of_int (int (length u)))) ''bb'' 2 [''a'', ''ccc''] = Inr pre' \<and> set pre' = {''a'', ''bb'', ''ccc''}"
proof -
  have "\<exists>pre'. insert_pre_filtered (\<lambda>u. Inr (of_int (int (length u)))) ''bb'' 2 [''a'', ''ccc''] = Inr pre' \<and>
      mset pre' = add_mset ''bb'' (mset [''a'', ''ccc'']) \<and> sorted (map (\<lambda>u. of_int (int (length u)) :: rat) pre')"
    by (rule insert_pre_filtered_sorted) auto
  then obtain pre' where p: "insert_pre_filtered (\<lambda>u. Inr (of_int (int (length u)))) ''bb'' 2 [''a'', ''ccc''] = Inr pre'"
    "mset pre' = add_mset ''bb'' (mset [''a'', ''ccc''])" by blast
  have "set pre' = set_mset (add_mset ''bb'' (mset [''a'', ''ccc'']))" unfolding p(2) [symmetric] by simp
  then have "set pre' = {''a'', ''bb'', ''ccc''}" by auto
  with p(1) show ?thesis by blast
qed

theorem insert_pre_filtered_front_witness:
  "insert_pre_filtered (\<lambda>u. Inr (of_int (int (length u)))) ''dddd'' 4 [''a'', ''ccc''] = Inr [''dddd'', ''a'', ''ccc'']"
  by (rule insert_pre_filtered_front [where H = "\<lambda>u. of_int (int (length u))"]) auto

end
