(* ===== verification/Rlp.thy ===== *)
theory Rlp
  imports PyStr
begin

text \<open>
  The RLP helpers of the bloXroute library (bxcommon/utils/blockchain_utils/eth/rlp_utils.py).
  A memoryview is the list of its bytes, a slice never raises, an index beyond the end does.
  The lemmas: a length prefix is read back as it was written, integers round-trip at any
  offset of a buffer, a concatenation of encoded strings splits into the strings, and
  the splitting loop always advances, whatever the bytes are.
\<close>

unbundle bit_operations_syntax

section \<open>Integers as bytes\<close>

fun bit_length :: "nat \<Rightarrow> nat" where
  "bit_length n = (if n = 0 then 0 else Suc (bit_length (n div 2)))"

declare bit_length.simps [simp del]

text \<open>The number of bytes is \<open>max(ceil(value.bit_length() / 8), 1)\<close>.\<close>

definition int_byte_length :: "nat \<Rightarrow> nat" where
  "int_byte_length n = max ((bit_length n + 7) div 8) 1"

text \<open>\<open>to_bytes\<close> is unsigned: a negative value raises an OverflowError.\<close>

definition int_to_big_endian :: "int \<Rightarrow> bytes res" where
  "int_to_big_endian v =
     (if v < 0 then Inl (Raised ''OverflowError'')
      else Inr (nat_be (int_byte_length (nat v)) (nat v)))"

definition big_endian_to_int :: "bytes \<Rightarrow> int" where
  "big_endian_to_int bs = int (be_nat bs)"

definition ascii_chr :: "nat \<Rightarrow> bytes res" where
  \<comment> \<open>\<open>bytes([value])\<close>\<close>
  "ascii_chr n = (if n < 256 then Inr [word_of_nat n] else Inl ValueError)"

section \<open>Length prefixes\<close>

definition get_length_prefix :: "nat \<Rightarrow> nat \<Rightarrow> bytes res" where
  "get_length_prefix n offset =
     (if n < 56 then ascii_chr (offset + n)
      else if n < 256 ^ 8 then
        bindR (int_to_big_endian (int n)) (\<lambda>length_string.
        bindR (ascii_chr (offset + 56 - 1 + length length_string)) (\<lambda>c.
        Inr (c @ length_string)))
      else Inl ValueError)"

definition get_length_prefix_str :: "nat \<Rightarrow> bytes res" where
  "get_length_prefix_str n = get_length_prefix n 128"

definition get_length_prefix_list :: "nat \<Rightarrow> bytes res" where
  "get_length_prefix_list n = get_length_prefix n 192"

definition encode_int :: "int \<Rightarrow> bytes res" where
  "encode_int v =
     bindR (if v = 0 then Inr [] else int_to_big_endian v) (\<lambda>s.
       if length s = 1 \<and> unat (s ! 0) < 128 then Inr s
       else bindR (get_length_prefix_str (length s)) (\<lambda>p. Inr (p @ s)))"

datatype rlp_kind = RStr | RList

definition byte_at :: "bytes \<Rightarrow> nat \<Rightarrow> nat res" where
  \<comment> \<open>\<open>safe_ord(rlp[i])\<close>\<close>
  "byte_at bs i = (if i < length bs then Inr (unat (bs ! i)) else Inl IndexError)"

definition long_length :: "bytes \<Rightarrow> nat \<Rightarrow> nat \<Rightarrow> nat res" where
  \<comment> \<open>the length of a long item, from the \<open>k\<close> bytes behind its first byte\<close>
  "long_length rlp start k =
     (if slice rlp (start + 1) (start + 2) = [0] then Inl (Raised ''ParseError'')
      else let n = be_nat (slice rlp (start + 1) (start + 1 + k))
           in if n < 56 then Inl (Raised ''ParseError'') else Inr n)"

definition consume_length_prefix :: "bytes \<Rightarrow> nat \<Rightarrow> (rlp_kind \<times> nat \<times> nat) res" where
  "consume_length_prefix rlp start =
     bindR (byte_at rlp start) (\<lambda>first_byte.
       if first_byte < 128 then Inr (RStr, 1, start)
       else if first_byte < 128 + 56 then
         bindR (if first_byte - 128 = 1
                then bindR (byte_at rlp (start + 1)) (\<lambda>b.
                       guardR (\<not> b < 128) (Raised ''ParseError''))
                else Inr ()) (\<lambda>_.
         Inr (RStr, first_byte - 128, start + 1))
       else if first_byte < 192 then
         let k = first_byte - 128 - 56 + 1
         in bindR (long_length rlp start k) (\<lambda>n. Inr (RStr, n, start + 1 + k))
       else if first_byte < 192 + 56 then Inr (RList, first_byte - 192, start + 1)
       else
         let k = first_byte - 192 - 56 + 1
         in bindR (long_length rlp start k) (\<lambda>n. Inr (RList, n, start + 1 + k)))"

definition decode_int :: "bytes \<Rightarrow> nat \<Rightarrow> (int \<times> nat) res" where
  "decode_int rlp start =
     bindR (consume_length_prefix rlp start) (\<lambda>(_, value_len, value_start).
       let value_bytes = slice rlp value_start (value_start + value_len);
           v = (if value_bytes = [] then 0 else big_endian_to_int value_bytes)
       in Inr (v, (value_start - start) + value_len))"

section \<open>Lists of items\<close>

definition remove_length_prefix :: "bytes \<Rightarrow> bytes res" where
  "remove_length_prefix item =
     bindR (consume_length_prefix item 0) (\<lambda>(_, _, start). Inr (drop start item))"

lemma consume_progress:
  assumes "consume_length_prefix rlp start = Inr (k, n, st)"
  shows "start < length rlp" and "start < st + n"
  using assms
  by (auto simp: consume_length_prefix_def byte_at_def long_length_def Let_def split: if_splits)

text \<open>
  The loop of \<open>get_list_items_bytes\<close>. Once one item is a string, the flag stays set and
  the prefixes of all later items are removed, whatever they are.
\<close>

function items_loop :: "bytes \<Rightarrow> bool \<Rightarrow> nat \<Rightarrow> bytes list \<Rightarrow> bytes list res" where
  "items_loop bs rm offset acc =
     (if offset < length bs then
        (case consume_length_prefix bs offset of
           Inl e \<Rightarrow> Inl e
         | Inr (kind, n, st) \<Rightarrow>
             let rm' = (rm \<or> kind = RStr);
                 item = slice bs offset (st + n)
             in bindR (if rm' then remove_length_prefix item else Inr item) (\<lambda>it.
                  items_loop bs rm' (st + n) (acc @ [it])))
      else if offset = length bs then Inr acc else Inl AssertionError)"
  by pat_completeness auto
termination
  by (relation "measure (\<lambda>(bs, _, offset, _). length bs - offset)")
     (auto dest: consume_progress)

declare items_loop.simps [simp del]

definition get_list_items_bytes :: "bytes \<Rightarrow> bool \<Rightarrow> bytes list res" where
  "get_list_items_bytes bs rm = items_loop bs rm 0 []"

definition get_first_list_field_items_bytes :: "bytes \<Rightarrow> bool \<Rightarrow> bytes list res" where
  "get_first_list_field_items_bytes bs rm =
     bindR (remove_length_prefix bs) (\<lambda>l. get_list_items_bytes l rm)"

section \<open>The prefix of a length\<close>

lemma bit_length_0 [simp]: "bit_length 0 = 0"
  by (simp add: bit_length.simps)

lemma bit_length_pos: "0 < n \<Longrightarrow> bit_length n = Suc (bit_length (n div 2))"
  by (simp add: bit_length.simps [of n])

lemma bit_length_bounds: "n < 2 ^ bit_length n \<and> (0 < n \<longrightarrow> 2 ^ (bit_length n - 1) \<le> n)"
proof (induction n rule: less_induct)
  case (less n)
  show ?case
  proof (cases "n < 2")
    case True
    then have "n = 0 \<or> n = 1" by auto
    then show ?thesis by (auto simp: bit_length_pos)
  next
    case False
    let ?m = "n div 2"
    have m: "?m < 2 ^ bit_length ?m" "2 ^ (bit_length ?m - 1) \<le> ?m"
      using less [of ?m] False by auto
    have "bit_length ?m \<noteq> 0" using False by (auto simp: bit_length_pos)
    then have "2 * 2 ^ (bit_length ?m - 1) = (2 :: nat) ^ bit_length ?m"
      by (metis power_eq_if)
    then show ?thesis using m False by (simp add: bit_length_pos) linarith
  qed
qed

lemma int_byte_length_pos [simp]: "0 < int_byte_length n"
  by (simp add: int_byte_length_def)

lemma pow256: "(256 :: nat) ^ k = 2 ^ (8 * k)"
  by (simp add: power_mult)

lemma int_byte_length_upper: "n < 256 ^ int_byte_length n"
proof -
  have "n < 2 ^ bit_length n" using bit_length_bounds by blast
  also have "(2 :: nat) ^ bit_length n \<le> 2 ^ (8 * int_byte_length n)"
    by (rule power_increasing) (auto simp: int_byte_length_def)
  finally show ?thesis by (simp add: pow256)
qed

lemma int_byte_length_lower:
  assumes "0 < n"
  shows "256 ^ (int_byte_length n - 1) \<le> n"
proof -
  have "(2 :: nat) ^ (8 * (int_byte_length n - 1)) \<le> 2 ^ (bit_length n - 1)"
    by (rule power_increasing) (auto simp: int_byte_length_def bit_length_pos [OF assms])
  also have "\<dots> \<le> n" using bit_length_bounds [of n] assms by blast
  finally show ?thesis by (simp add: pow256)
qed

lemma int_byte_length_le:
  assumes "n < 256 ^ k" and "0 < k"
  shows "int_byte_length n \<le> k"
proof (cases "n = 0")
  case False
  then have "(256 :: nat) ^ (int_byte_length n - 1) < 256 ^ k"
    using int_byte_length_lower [of n] assms by linarith
  then have "int_byte_length n - 1 < k" by (simp add: power_less_imp_less_exp)
  then show ?thesis by linarith
qed (use assms in \<open>simp add: int_byte_length_def\<close>)

lemma nat_be_hd:
  "n < 256 ^ Suc k \<Longrightarrow> \<exists>bs. nat_be (Suc k) n = word_of_nat (n div 256 ^ k) # bs"
proof (induction k arbitrary: n)
  case (Suc k)
  then have "n div 256 < 256 ^ Suc k" by (simp add: less_mult_imp_div_less mult.commute)
  from Suc.IH [OF this] obtain bs where "nat_be (Suc k) (n div 256) = word_of_nat (n div 256 div 256 ^ k) # bs"
    by blast
  then show ?case by (simp only: nat_be.simps(2) [of "Suc k"]) (simp add: div_mult2_eq)
qed simp

lemma unat_byte_of_nat: "n < 256 \<Longrightarrow> unat (word_of_nat n :: byte) = n"
  by (simp add: unat_of_nat)

definition kind_offset :: "rlp_kind \<Rightarrow> nat" where
  "kind_offset k = (case k of RStr \<Rightarrow> 128 | RList \<Rightarrow> 192)"

lemma get_length_prefix_short:
  "n < 56 \<Longrightarrow> get_length_prefix n (kind_offset k) = Inr [word_of_nat (kind_offset k + n)]"
  by (simp add: get_length_prefix_def ascii_chr_def kind_offset_def split: rlp_kind.splits)

lemma get_length_prefix_long:
  assumes "56 \<le> n" and "n < 256 ^ 8"
  shows "get_length_prefix n (kind_offset k) =
    Inr (word_of_nat (kind_offset k + 55 + int_byte_length n) # nat_be (int_byte_length n) n)"
  using assms int_byte_length_le [of n 8]
  by (simp add: get_length_prefix_def int_to_big_endian_def ascii_chr_def kind_offset_def split: rlp_kind.splits)

lemma get_length_prefix_Inr_iff:
  "(\<exists>p. get_length_prefix n (kind_offset k) = Inr p) \<longleftrightarrow> n < 256 ^ 8"
proof (cases "n < 56")
  case True
  then show ?thesis by (simp add: get_length_prefix_short)
next
  case False
  show ?thesis
  proof (cases "n < 256 ^ 8")
    case True
    then show ?thesis using False get_length_prefix_long [of n k] by simp
  next
    case big: False
    then show ?thesis using False by (simp add: get_length_prefix_def)
  qed
qed

lemma slice_mid: "i = length xs \<Longrightarrow> j = length xs + length ys \<Longrightarrow> slice (xs @ ys @ zs) i j = ys"
  by (simp add: slice_def)

text \<open>What follows a prefix in a buffer: one byte below 128 would have been written alone.\<close>

theorem consume_prefix:
  assumes p: "get_length_prefix n (kind_offset k) = Inr p"
    and one: "k = RStr \<Longrightarrow> n = 1 \<Longrightarrow> \<exists>b r. rest = b # r \<and> 128 \<le> unat b"
  shows "consume_length_prefix (pre @ p @ rest) (length pre) = Inr (k, n, length pre + length p)"
proof (cases "n < 56")
  case True
  then have "p = [word_of_nat (kind_offset k + n)]" using p by (simp add: get_length_prefix_short)
  moreover have "unat (word_of_nat (kind_offset k + n) :: byte) = kind_offset k + n"
    by (rule unat_byte_of_nat) (use True in \<open>simp add: kind_offset_def split: rlp_kind.splits\<close>)
  ultimately show ?thesis
    using True one
    by (cases k) (auto simp: consume_length_prefix_def byte_at_def kind_offset_def nth_append Let_def)
next
  case False
  define m where "m = int_byte_length n"
  have n8: "n < 256 ^ 8" using p get_length_prefix_Inr_iff [of n k] by auto
  have p_eq: "p = word_of_nat (kind_offset k + 55 + m) # nat_be m n"
    using p False n8 get_length_prefix_long [of n k] by (simp add: m_def)
  have m: "0 < m" "m \<le> 8" using int_byte_length_le [OF n8] by (simp_all add: m_def)
  have up: "n < 256 ^ m" and lo: "256 ^ (m - 1) \<le> n"
    using int_byte_length_upper int_byte_length_lower False by (auto simp: m_def)
  obtain bs where bs: "nat_be m n = word_of_nat (n div 256 ^ (m - 1)) # bs"
    using nat_be_hd [of n "m - 1"] up m by auto
  have q: "0 < n div 256 ^ (m - 1)" using lo by (simp add: div_greater_zero_iff)
  have "n div 256 ^ (m - 1) < 256"
    using up m by (metis less_mult_imp_div_less power_eq_if mult.commute neq0_conv)
  then have nz: "word_of_nat (n div 256 ^ (m - 1)) \<noteq> (0 :: byte)"
    using q unat_byte_of_nat by (metis nat_neq_iff unat_0)
  have fb: "unat (word_of_nat (kind_offset k + 55 + m) :: byte) = kind_offset k + 55 + m"
    by (rule unat_byte_of_nat) (use m in \<open>simp add: kind_offset_def split: rlp_kind.splits\<close>)
  have len: "be_nat (nat_be m n) = n" using up by (simp add: be_nat_nat_be)
  have "long_length (pre @ p @ rest) (length pre) m = Inr n"
  proof -
    have s1: "slice (pre @ p @ rest) (length pre + 1) (length pre + 2) \<noteq> [0]"
      using nz bs by (simp add: p_eq slice_def)
    have s2: "slice (pre @ p @ rest) (length pre + 1) (length pre + 1 + m) = nat_be m n"
      by (simp add: p_eq slice_def)
    show ?thesis using s1 s2 len False by (simp add: long_length_def)
  qed
  moreover have "byte_at (pre @ p @ rest) (length pre) = Inr (kind_offset k + 55 + m)"
    using fb by (simp add: byte_at_def p_eq nth_append)
  ultimately show ?thesis
    using m by (cases k) (auto simp: consume_length_prefix_def kind_offset_def p_eq Let_def)
qed

section \<open>Round trips\<close>

text \<open>The encoding of a byte string, as \<open>encode_int\<close> builds it from the bytes of its number.\<close>

definition rlp_string :: "bytes \<Rightarrow> bytes res" where
  "rlp_string s =
     (if length s = 1 \<and> unat (s ! 0) < 128 then Inr s
      else bindR (get_length_prefix_str (length s)) (\<lambda>p. Inr (p @ s)))"

lemma encode_int_rlp_string:
  "encode_int v = bindR (if v = 0 then Inr [] else int_to_big_endian v) rlp_string"
  by (simp add: encode_int_def rlp_string_def [abs_def])

lemma get_length_prefix_str_kind: "get_length_prefix_str n = get_length_prefix n (kind_offset RStr)"
  by (simp add: get_length_prefix_str_def kind_offset_def)

lemma rlp_string_consume:
  assumes "rlp_string s = Inr e"
  obtains p where "e = p @ s"
    and "\<And>pre post. consume_length_prefix (pre @ e @ post) (length pre) =
      Inr (RStr, length s, length pre + length p)"
proof (cases "length s = 1 \<and> unat (s ! 0) < 128")
  case True
  then obtain b where "s = [b]" "unat b < 128" by (auto simp: length_Suc_conv)
  then have "consume_length_prefix (pre @ s @ post) (length pre) = Inr (RStr, length s, length pre + length [])"
    for pre post
    by (simp add: consume_length_prefix_def byte_at_def nth_append)
  then show ?thesis using True assms that [of "[]"] by (simp add: rlp_string_def)
next
  case False
  then obtain p where p: "get_length_prefix (length s) (kind_offset RStr) = Inr p" and e: "e = p @ s"
    using assms by (auto simp: rlp_string_def get_length_prefix_str_kind)
  have "\<exists>b r. s @ post = b # r \<and> 128 \<le> unat b" if "length s = 1" for post
    using that False by (cases s) auto
  then have "consume_length_prefix (pre @ p @ (s @ post)) (length pre) = Inr (RStr, length s, length pre + length p)"
    for pre post
    using consume_prefix [OF p, of "s @ post" pre] by blast
  then show ?thesis using that [of p] e by simp
qed

lemma be_nat_int_to_big_endian:
  assumes "int_to_big_endian v = Inr s"
  shows "big_endian_to_int s = v"
  using assms int_byte_length_upper [of "nat v"]
  by (auto simp: int_to_big_endian_def big_endian_to_int_def be_nat_nat_be split: if_splits)

text \<open>An integer written by \<open>encode_int\<close> is read back by \<open>decode_int\<close> at its place in any
  buffer, and the reported length is the number of bytes it took.\<close>

theorem decode_encode_int:
  assumes "encode_int v = Inr e"
  shows "decode_int (pre @ e @ post) (length pre) = Inr (v, length e)"
proof -
  obtain s where s: "(if v = 0 then Inr [] else int_to_big_endian v) = Inr s" and e: "rlp_string s = Inr e"
    using assms by (auto simp: encode_int_rlp_string)
  have v: "(if s = [] then 0 else big_endian_to_int s) = v"
    using s be_nat_int_to_big_endian [of v s] by (auto simp: big_endian_to_int_def split: if_splits)
  obtain p where p: "e = p @ s"
    and c: "consume_length_prefix (pre @ e @ post) (length pre) = Inr (RStr, length s, length pre + length p)"
    using rlp_string_consume [OF e] by blast
  show ?thesis
    unfolding decode_int_def c using v by (simp add: p slice_def split: if_splits)
qed

theorem decode_encode_int_witness:
  "encode_int 1024 = Inr [130, 4, 0] \<and> decode_int ([192] @ [130, 4, 0] @ [7]) 1 = Inr (1024, 3)"
proof -
  have e: "encode_int 1024 = Inr [130, 4, 0]" by code_simp
  from decode_encode_int [OF e, of "[192]" "[7]"] e show ?thesis by simp
qed

lemma encode_int_shortest:
  assumes "0 \<le> v" and "v < 256 ^ 55"
  shows "\<exists>e. encode_int v = Inr e \<and> length e \<le> 56"
proof -
  have "nat v < 256 ^ 55" using assms by (simp add: nat_less_iff)
  then have "int_byte_length (nat v) \<le> 55" by (intro int_byte_length_le) simp_all
  then show ?thesis using assms
    by (auto simp: encode_int_def int_to_big_endian_def get_length_prefix_str_def get_length_prefix_def ascii_chr_def)
qed

text \<open>A concatenation of encoded strings is split into the strings, with or without the flag.\<close>

lemma items_loop_strings:
  assumes "mapR rlp_string ss = Inr es"
  shows "items_loop (pre @ concat es) rm (length pre) acc = Inr (acc @ ss)"
  using assms
proof (induction ss arbitrary: es pre rm acc)
  case Nil
  then show ?case by (simp add: items_loop.simps)
next
  case (Cons s ss)
  then obtain e es' where e: "rlp_string s = Inr e" and es: "mapR rlp_string ss = Inr es'" "es = e # es'"
    by auto
  obtain p where p: "e = p @ s"
    and c: "\<And>pre post. consume_length_prefix (pre @ e @ post) (length pre) =
      Inr (RStr, length s, length pre + length p)"
    using rlp_string_consume [OF e] by blast
  have c0: "consume_length_prefix (p @ s) 0 = Inr (RStr, length s, length p)"
    using c [of "[]" "[]"] p by simp
  have c1: "consume_length_prefix (pre @ p @ s @ concat es') (length pre) =
      Inr (RStr, length s, length pre + length p)"
    using c [of pre "concat es'"] p by simp
  have "length pre < length (pre @ p @ s @ concat es')" by (rule consume_progress(1) [OF c1])
  moreover have "slice (pre @ p @ s @ concat es') (length pre) (length pre + length p + length s) = p @ s"
    by (simp add: slice_def)
  ultimately have "items_loop (pre @ concat es) rm (length pre) acc =
      items_loop ((pre @ e) @ concat es') True (length (pre @ e)) (acc @ [s])"
    by (subst items_loop.simps) (simp add: es p c1 c0 remove_length_prefix_def algebra_simps)
  then show ?case using Cons.IH [OF es(1), of "pre @ e" True "acc @ [s]"] by simp
qed

lemma get_list_items_bytes_strings:
  "mapR rlp_string ss = Inr es \<Longrightarrow> get_list_items_bytes (concat es) rm = Inr ss"
  using items_loop_strings [of ss es "[]" rm "[]"] by (simp add: get_list_items_bytes_def)

text \<open>The first field of an object, a list prefix followed by the encoded strings, is split into
  exactly the strings, whether the caller asks to remove the prefixes or not.\<close>

theorem get_first_list_field_strings:
  assumes "mapR rlp_string ss = Inr es"
    and "get_length_prefix_list (length (concat es)) = Inr p"
  shows "get_first_list_field_items_bytes (p @ concat es) rm = Inr ss"
proof -
  have "get_length_prefix (length (concat es)) (kind_offset RList) = Inr p"
    using assms(2) by (simp add: get_length_prefix_list_def kind_offset_def)
  from consume_prefix [OF this, of "concat es" "[]"]
  have "remove_length_prefix (p @ concat es) = Inr (concat es)"
    by (simp add: remove_length_prefix_def)
  then show ?thesis
    using get_list_items_bytes_strings [OF assms(1)] by (simp add: get_first_list_field_items_bytes_def)
qed

theorem get_first_list_field_strings_witness:
  "mapR rlp_string [[200, 1], [7]] = Inr [[130, 200, 1], [7]] \<and>
   get_first_list_field_items_bytes [196, 130, 200, 1, 7] False = Inr [[200, 1], [7]]"
proof -
  have s: "mapR rlp_string [[200, 1], [7]] = Inr [[130, 200, 1], [7]]" by code_simp
  have p: "get_length_prefix_list (length (concat [[130, 200, 1], [7 :: byte]])) = Inr [196]" by code_simp
  from get_first_list_field_strings [OF s p, of False] s show ?thesis by simp
qed

end
