(* ===== verification/Buffers.thy ===== *)
theory Buffers
  imports PyStr
begin

text \<open>
  The byte buffers of a relay connection (bxcommon/utils/buffers/input_buffer.py and output_buffer.py).
  A piece is its bytes with the class of the object that holds them, because the code converts and
  tests classes. The time is an argument where the code reads the clock.
  The lemmas: what each operation does to the pending bytes and to the length, on every branch; the
  contract \<open>byte_queue\<close> states that bytes leave in the order in which they came, and both
  buffers satisfy it.
\<close>

section \<open>Pieces\<close>

datatype buf_class = ByteArray | PyBytes | MemView

type_synonym piece = "buf_class \<times> bytes"

text \<open>\<open>xs[i:j]\<close> for bounds of any sign: a negative bound counts from the end, and both are cut to the list.\<close>

definition clip_bound :: "nat \<Rightarrow> int \<Rightarrow> nat" where
  "clip_bound n i = (if i < 0 then nat (max 0 (i + int n)) else min n (nat i))"

definition py_slice :: "'a list \<Rightarrow> int \<Rightarrow> int \<Rightarrow> 'a list" where
  "py_slice xs i j = slice xs (clip_bound (length xs) i) (clip_bound (length xs) j)"

lemma py_slice_pos: "0 \<le> i \<Longrightarrow> 0 \<le> j \<Longrightarrow> py_slice xs i j = slice xs (nat i) (nat j)"
  by (cases "nat i \<le> length xs"; cases "nat j \<le> length xs") (auto simp: py_slice_def clip_bound_def slice_def min_def)

section \<open>The contract of a byte queue\<close>

text \<open>
  What the connections rely on: putting bytes in appends them to the pending ones, and what comes out
  is a prefix of the pending ones. A run of such operations that raises nothing delivers
  the bytes in the order in which they were put in.
\<close>

datatype ('p, 'q) queue_op = Put 'p | Get 'q

fun run_ops :: "('p \<Rightarrow> ('s, unit) eff) \<Rightarrow> ('q \<Rightarrow> ('s, bytes) eff) \<Rightarrow> ('p, 'q) queue_op list \<Rightarrow> ('s, bytes) eff" where
  "run_ops put get [] = returnE []"
| "run_ops put get (Put p # ops) = thenE (put p) (run_ops put get ops)"
| "run_ops put get (Get q # ops) =
     bindE (get q) (\<lambda>xs. bindE (run_ops put get ops) (\<lambda>ys. returnE (xs @ ys)))"

fun put_bytes :: "('p \<Rightarrow> bytes) \<Rightarrow> ('p, 'q) queue_op list \<Rightarrow> bytes" where
  "put_bytes payload [] = []"
| "put_bytes payload (Put p # ops) = payload p @ put_bytes payload ops"
| "put_bytes payload (Get q # ops) = put_bytes payload ops"

locale byte_queue =
  fixes inv :: "'s \<Rightarrow> bool" and pending :: "'s \<Rightarrow> bytes"
    and put :: "'p \<Rightarrow> ('s, unit) eff" and payload :: "'p \<Rightarrow> bytes"
    and get :: "'q \<Rightarrow> ('s, bytes) eff"
  assumes put_appends: "inv s \<Longrightarrow> put p s = (Inr u, s') \<Longrightarrow> inv s' \<and> pending s' = pending s @ payload p"
    and get_prefix: "inv s \<Longrightarrow> get q s = (Inr xs, s') \<Longrightarrow> inv s' \<and> pending s = xs @ pending s'"
begin

lemma fifo:
  "inv s \<Longrightarrow> run_ops put get ops s = (Inr out, s') \<Longrightarrow> inv s' \<and> pending s @ put_bytes payload ops = out @ pending s'"
proof (induction ops arbitrary: s out)
  case (Cons op ops)
  show ?case
  proof (cases op)
    case (Put p)
    then obtain s1 where s1: "put p s = (Inr (), s1)" "run_ops put get ops s1 = (Inr out, s')"
      using Cons.prems(2) by (auto simp: thenE_Inr_iff)
    with put_appends [OF Cons.prems(1) s1(1)] Cons.IH [OF _ s1(2)] Put show ?thesis by auto
  next
    case (Get q)
    then obtain xs ys s1 where s1: "get q s = (Inr xs, s1)" "run_ops put get ops s1 = (Inr ys, s')" "out = xs @ ys"
      using Cons.prems(2) by (auto simp: bindE_Inr_iff eff_apply)
    with get_prefix [OF Cons.prems(1) s1(1)] Cons.IH [OF _ s1(2)] Get show ?thesis by auto
  qed
qed (simp add: eff_apply)

end

section \<open>The input buffer\<close>

record input_buffer =
  input_list :: "piece list"
  in_length :: int

definition InputBuffer :: input_buffer where
  "InputBuffer = \<lparr>input_list = [], in_length = 0\<rparr>"

text \<open>The loop of \<open>_shrink_if_needed\<close>: pieces are moved to the head until it is long enough.\<close>

fun extend_head :: "int \<Rightarrow> bytes \<Rightarrow> piece list \<Rightarrow> bytes \<times> piece list" where
  "extend_head e h [] = (h, [])"
| "extend_head e h ((k, x) # rest) =
     (if int (length h) < e then extend_head e (h @ x) rest else (h, (k, x) # rest))"

definition shrink_if_needed :: "int \<Rightarrow> bool \<Rightarrow> (input_buffer, unit) eff" where
  "shrink_if_needed e ensure_byte_array = modE (\<lambda>b.
     case input_list b of
       [] \<Rightarrow> b
     | (k, h) # rest \<Rightarrow>
         if int (length h) < e \<or> ensure_byte_array
         then b\<lparr>input_list := (let (h', rest') = extend_head e h rest in (ByteArray, h') # rest')\<rparr>
         else b)"

definition head_piece :: "input_buffer \<Rightarrow> piece res" where
  "head_piece b = (case input_list b of [] \<Rightarrow> Inl IndexError | p # _ \<Rightarrow> Inr p)"

definition add_bytes :: "piece \<Rightarrow> (input_buffer, unit) eff" where
  "add_bytes p = modE (\<lambda>b. b\<lparr>input_list := input_list b @ [p], in_length := in_length b + int (length (snd p))\<rparr>)"

definition remove_bytes :: "int \<Rightarrow> (input_buffer, bytes) eff" where
  "remove_bytes num_bytes =
     thenE (liftR (guardR (0 \<le> num_bytes) ValueError))
    (thenE (shrink_if_needed num_bytes True)
    (bindE (getE input_list) (\<lambda>l.
     thenE (liftR (guardR (l \<noteq> [] \<or> num_bytes = 0) AssertionError))
       (case l of
          (k, h) # rest \<Rightarrow>
            if 0 < num_bytes
            then thenE (modE (\<lambda>b. b\<lparr>input_list := (k, drop (nat num_bytes) h) # rest, in_length := in_length b - num_bytes\<rparr>))
                   (returnE (take (nat num_bytes) h))
            else returnE []
        | [] \<Rightarrow> returnE []))))"

definition peek_message :: "int \<Rightarrow> (input_buffer, bytes) eff" where
  "peek_message bytes_to_peek =
     bindE (getE in_length) (\<lambda>len.
     let bytes_to_peek = (if len < bytes_to_peek then len else bytes_to_peek)
     in if bytes_to_peek = 0 then returnE []
        else thenE (shrink_if_needed bytes_to_peek False) (bindE (getR head_piece) (\<lambda>p. returnE (snd p))))"

definition get_slice :: "int option \<Rightarrow> int option \<Rightarrow> (input_buffer, piece) eff" where
  "get_slice start stop =
     bindE (getE in_length) (\<lambda>len.
     case (start, stop) of
       (Some i, Some j) \<Rightarrow>
         thenE (liftR (guardR (\<not> len < i) ValueError))
        (thenE (shrink_if_needed j False)
        (bindE (getR head_piece) (\<lambda>(k, h). returnE (k, py_slice h i j))))
     | _ \<Rightarrow> raiseE ValueError)"

text \<open>\<open>input_buffer[start:stop]\<close>\<close>

definition get_item :: "int option \<Rightarrow> int option \<Rightarrow> (input_buffer, piece) eff" where
  "get_item start stop =
     bindE (getE in_length) (\<lambda>len.
       get_slice (Some (case start of None \<Rightarrow> 0 | Some i \<Rightarrow> i)) (Some (case stop of None \<Rightarrow> len | Some j \<Rightarrow> j)))"

definition ends_with :: "'a list \<Rightarrow> 'a list \<Rightarrow> bool" where
  "ends_with xs suffix \<longleftrightarrow> length suffix \<le> length xs \<and> drop (length xs - length suffix) xs = suffix"

text \<open>
  The last piece, or the end of the joined pieces when that is too short, is stored back over the
  last piece whenever it is not a bytearray.
\<close>

definition buffer_endswith :: "bytes \<Rightarrow> (input_buffer, bool) eff" where
  "buffer_endswith suffix =
     bindE (getE (\<lambda>b. (input_list b, in_length b))) (\<lambda>(l, len).
     if l = [] then returnE False
     else
       bindE (if length (snd (last l)) < length suffix
              then get_slice (Some (len - int (length suffix))) (Some len)
              else returnE (last l)) (\<lambda>(k, end_slice).
       thenE (whenE (k \<noteq> ByteArray) (modE (\<lambda>b. b\<lparr>input_list := butlast (input_list b) @ [(ByteArray, end_slice)]\<rparr>)))
         (returnE (ends_with end_slice suffix))))"

subsection \<open>What the operations do to the bytes\<close>

definition in_content :: "input_buffer \<Rightarrow> bytes" where
  "in_content b = concat (map snd (input_list b))"

definition in_ok :: "input_buffer \<Rightarrow> bool" where
  "in_ok b \<longleftrightarrow> in_length b = int (length (in_content b))"

lemma InputBuffer_ok: "in_ok InputBuffer" "in_content InputBuffer = []"
  by (simp_all add: InputBuffer_def in_ok_def in_content_def)

lemma extend_head_content:
  assumes "extend_head e h rest = (h', rest')"
  shows "h' @ concat (map snd rest') = h @ concat (map snd rest)" and "e \<le> int (length h') \<or> rest' = []"
    and "\<exists>x. h' = h @ x"
  using assms by (induction e h rest rule: extend_head.induct) (auto split: if_splits)

text \<open>Joining pieces changes nothing but their boundaries, and brings the first \<open>e\<close> bytes to the head.\<close>

lemma shrink_run:
  assumes "in_ok b"
  obtains b' where "shrink_if_needed e f b = (Inr (), b')" "in_content b' = in_content b" "in_length b' = in_length b"
    "in_ok b'" "input_list b \<noteq> [] \<Longrightarrow> \<exists>k h rest. input_list b' = (k, h) # rest \<and> (e \<le> int (length h) \<or> rest = []) \<and>
        h @ concat (map snd rest) = in_content b \<and> (f \<or> int (length (snd (hd (input_list b)))) < e \<longrightarrow> k = ByteArray)"
    "input_list b = [] \<Longrightarrow> input_list b' = []"
proof (cases "input_list b")
  case Nil
  then have "shrink_if_needed e f b = (Inr (), b)" by (simp add: shrink_if_needed_def py_simps)
  then show ?thesis using that Nil assms by auto
next
  case (Cons p rest)
  obtain k h where p: "p = (k, h)" by (cases p)
  show ?thesis
  proof (cases "int (length h) < e \<or> f")
    case True
    obtain h' r' where e: "extend_head e h rest = (h', r')" by (cases "extend_head e h rest")
    define b' where "b' = b\<lparr>input_list := (ByteArray, h') # r'\<rparr>"
    have s: "shrink_if_needed e f b = (Inr (), b')"
      using True Cons p e by (simp add: shrink_if_needed_def py_simps b'_def)
    have c: "in_content b' = in_content b" "in_content b = h' @ concat (map snd r')"
      using extend_head_content(1) [OF e] Cons p by (simp_all add: in_content_def b'_def)
    show ?thesis
    proof (rule that [OF s c(1)])
      show "in_length b' = in_length b" by (simp add: b'_def)
      show "in_ok b'" using assms c(1) by (simp add: in_ok_def b'_def)
      show "\<exists>k h rest. input_list b' = (k, h) # rest \<and> (e \<le> int (length h) \<or> rest = []) \<and>
          h @ concat (map snd rest) = in_content b \<and> (f \<or> int (length (snd (hd (input_list b)))) < e \<longrightarrow> k = ByteArray)"
        using extend_head_content(2) [OF e] c(2) by (simp add: b'_def)
    qed (use Cons in auto)
  next
    case False
    then have "shrink_if_needed e f b = (Inr (), b)" using Cons p by (simp add: shrink_if_needed_def py_simps)
    then show ?thesis using that False Cons p assms by (auto simp: in_content_def)
  qed
qed

lemma add_bytes_run:
  assumes "in_ok b" "add_bytes p b = (r, b')"
  shows "r = Inr ()" "in_ok b'" "in_content b' = in_content b @ snd p"
  using assms by (auto simp: add_bytes_def py_simps in_ok_def in_content_def)

lemma prefix_take:
  assumes "h @ t = xs" "n \<le> length h"
  shows "take n h = take n xs" "drop n h @ t = drop n xs"
  using assms by auto

lemma remove_bytes_run:
  assumes "in_ok b" "0 \<le> n" "n \<le> in_length b"
  obtains b' where "remove_bytes n b = (Inr (take (nat n) (in_content b)), b')" "in_ok b'"
    "in_content b' = drop (nat n) (in_content b)"
proof -
  obtain b1 where b1: "shrink_if_needed n True b = (Inr (), b1)" "in_content b1 = in_content b" "in_ok b1"
    "input_list b \<noteq> [] \<Longrightarrow> \<exists>k h rest. input_list b1 = (k, h) # rest \<and> (n \<le> int (length h) \<or> rest = []) \<and>
        h @ concat (map snd rest) = in_content b \<and> (True \<or> int (length (snd (hd (input_list b)))) < n \<longrightarrow> k = ByteArray)" "input_list b = [] \<Longrightarrow> input_list b1 = []"
    using shrink_run [OF assms(1), of n True] by metis
  show ?thesis
  proof (cases "n = 0")
    case True
    have "remove_bytes n b = (Inr (take (nat n) (in_content b)), b1)"
      using True b1(1) by (auto simp: remove_bytes_def py_simps guardR_def split: list.splits)
    then show ?thesis using that True b1(2,3) by simp
  next
    case False
    then have ne: "input_list b \<noteq> []" using assms by (auto simp: in_ok_def in_content_def)
    from b1(4) [OF ne] obtain k h rest where l: "input_list b1 = (k, h) # rest" "n \<le> int (length h) \<or> rest = []"
      "h @ concat (map snd rest) = in_content b" by blast
    have n: "nat n \<le> length h" using l(2,3) assms by (auto simp: in_ok_def)
    define b' where "b' = b1\<lparr>input_list := (k, drop (nat n) h) # rest, in_length := in_length b1 - n\<rparr>"
    have r: "remove_bytes n b = (Inr (take (nat n) h), b')"
      using False assms b1(1) l(1) by (simp add: remove_bytes_def py_simps guardR_def b'_def)
    have c: "in_content b' = drop (nat n) (in_content b)"
      using prefix_take(2) [OF l(3) n] by (simp add: b'_def in_content_def)
    have "in_ok b'" using b1(2,3) assms by (simp add: in_ok_def c of_nat_diff nat_le_iff) (simp add: b'_def in_ok_def)
    then show ?thesis using that r c prefix_take(1) [OF l(3) n] by simp
  qed
qed

text \<open>What \<open>remove_bytes\<close> returns is a prefix of the pending bytes even when it is asked for too many.\<close>

lemma remove_bytes_prefix:
  assumes "remove_bytes n b = (Inr xs, b')"
  shows "in_content b = xs @ in_content b'"
proof -
  have n: "0 \<le> n" using assms by (auto simp: remove_bytes_def py_simps guardR_def split: if_splits)
  show ?thesis
  proof (cases "input_list b")
    case Nil
    with assms n show ?thesis
      by (auto simp: remove_bytes_def shrink_if_needed_def py_simps guardR_def in_content_def split: if_splits)
  next
    case (Cons p rest)
    obtain k h where p: "p = (k, h)" by (cases p)
    obtain h' r' where e: "extend_head n h rest = (h', r')" by (cases "extend_head n h rest")
    have "in_content b = h' @ concat (map snd r')"
      using extend_head_content(1) [OF e] Cons p by (simp add: in_content_def)
    with assms n Cons p e show ?thesis
      by (auto simp: remove_bytes_def shrink_if_needed_def py_simps guardR_def in_content_def split: if_splits)
  qed
qed

interpretation input_queue: byte_queue "\<lambda>_. True" in_content add_bytes snd remove_bytes
proof
  fix b b' p u assume "add_bytes p b = (Inr u, b')"
  then show "True \<and> in_content b' = in_content b @ snd p" by (auto simp: add_bytes_def py_simps in_content_def)
qed (auto dest: remove_bytes_prefix)

lemma peek_message_run:
  assumes "in_ok b" "0 \<le> n"
  obtains h b' t where "peek_message n b = (Inr h, b')" "in_ok b'" "in_content b' = in_content b"
    "in_content b = h @ t" "take (nat n) h = take (nat n) (in_content b)"
proof (cases "min n (in_length b) = 0")
  case True
  then have "(if in_length b < n then in_length b else n) = 0" using assms(2) by auto
  then have "peek_message n b = (Inr [], b)" unfolding peek_message_def by (simp add: py_simps Let_def)
  moreover have "take (nat n) (in_content b) = []" using True assms by (auto simp: in_ok_def min_def split: if_splits)
  ultimately show ?thesis using that assms by simp
next
  case False
  define m where "m = (if in_length b < n then in_length b else n)"
  have m: "m \<noteq> 0" "m \<le> in_length b" "m \<le> n" "m = min n (in_length b)" using False by (auto simp: m_def)
  have pos: "0 < m" using m assms by (auto simp: in_ok_def)
  then have ne: "input_list b \<noteq> []" using m assms(1) by (auto simp: in_ok_def in_content_def)
  obtain b1 where b1: "shrink_if_needed m False b = (Inr (), b1)" "in_content b1 = in_content b" "in_ok b1"
    "\<exists>k h rest. input_list b1 = (k, h) # rest \<and> (m \<le> int (length h) \<or> rest = []) \<and> h @ concat (map snd rest) = in_content b"
    using shrink_run [OF assms(1), of m False] ne by metis
  from b1(4) obtain k h rest where l: "input_list b1 = (k, h) # rest" "m \<le> int (length h) \<or> rest = []"
    "h @ concat (map snd rest) = in_content b" by blast
  have p: "peek_message n b = (Inr h, b1)"
    unfolding peek_message_def using m(1) b1(1) l(1)
    by (simp add: py_simps Let_def m_def [symmetric] head_piece_def)
  have h: "nat m \<le> length h" using l(2,3) m assms(1) by (auto simp: in_ok_def)
  have "take (nat n) h = take (nat n) (in_content b)"
  proof (cases "n \<le> in_length b")
    case True
    with h m(4) show ?thesis by (simp add: l(3) [symmetric])
  next
    case False
    then have "length (in_content b) \<le> length h" using h m(4) assms(1) by (simp add: in_ok_def)
    with l(3) have "in_content b = h" by (metis append_eq_conv_conj take_all)
    then show ?thesis by simp
  qed
  then show ?thesis using that [OF p b1(3,2)] l(3) by metis
qed

lemma get_slice_run:
  assumes "in_ok b" "0 \<le> i" "i \<le> in_length b" "0 \<le> j" "input_list b \<noteq> []"
  obtains k b' where "get_slice (Some i) (Some j) b = (Inr (k, take (nat j - nat i) (drop (nat i) (in_content b))), b')" "in_ok b'"
    "in_content b' = in_content b" "int (length (snd (hd (input_list b)))) < j \<Longrightarrow> k = ByteArray"
proof -
  obtain b1 where b1: "shrink_if_needed j False b = (Inr (), b1)" "in_content b1 = in_content b" "in_ok b1"
    "\<exists>k h rest. input_list b1 = (k, h) # rest \<and> (j \<le> int (length h) \<or> rest = []) \<and> h @ concat (map snd rest) = in_content b \<and>
       (False \<or> int (length (snd (hd (input_list b)))) < j \<longrightarrow> k = ByteArray)"
    using shrink_run [OF assms(1), of j False] assms(5) by metis
  from b1(4) obtain k h rest where l: "input_list b1 = (k, h) # rest" "j \<le> int (length h) \<or> rest = []"
    "h @ concat (map snd rest) = in_content b" "int (length (snd (hd (input_list b)))) < j \<longrightarrow> k = ByteArray" by blast
  have "take (nat j) (in_content b) = take (nat j) h" using l(2) by (auto simp: l(3) [symmetric])
  then have "take (nat j - nat i) (drop (nat i) (in_content b)) = slice h (nat i) (nat j)"
    by (simp only: slice_def drop_take [symmetric])
  then have "get_slice (Some i) (Some j) b = (Inr (k, take (nat j - nat i) (drop (nat i) (in_content b))), b1)"
    using assms(2-4) b1(1) l(1)
    by (simp add: get_slice_def py_simps guardR_def head_piece_def py_slice_pos)
  then show ?thesis using that b1(2,3) l(4) by blast
qed

lemma ends_with_append: "length suffix \<le> length ys \<Longrightarrow> ends_with (xs @ ys) suffix = ends_with ys suffix"
  by (simp add: ends_with_def)

lemma ends_with_drop: "length suffix \<le> length xs \<Longrightarrow> ends_with (drop (length xs - length suffix) xs) suffix = ends_with xs suffix"
  by (simp add: ends_with_def)

lemma bind_getE: "bindE (getE f) k b = k (f b) b"
  by (simp add: py_simps)

lemma in_content_snoc: "input_list b = ini @ [(k, x)] \<Longrightarrow> in_content b = concat (map snd ini) @ x"
  by (simp add: in_content_def)

text \<open>When no piece is empty and the buffer holds at least as many bytes as the suffix, \<open>endswith\<close>
  tells whether the buffered bytes end with the suffix, and leaves them as they were.\<close>

theorem endswith_run:
  assumes "in_ok b" "\<forall>p \<in> set (input_list b). snd p \<noteq> []" "length suffix \<le> length (in_content b)" "suffix \<noteq> []"
  shows "\<exists>b'. buffer_endswith suffix b = (Inr (ends_with (in_content b) suffix), b') \<and> in_ok b' \<and> in_content b' = in_content b"
proof (cases "input_list b" rule: rev_cases)
  case Nil
  with assms(3,4) show ?thesis by (simp add: in_content_def)
next
  case (snoc ini p)
  obtain k x where p: "p = (k, x)" by (cases p)
  note l = snoc [unfolded p]
  have c: "in_content b = concat (map snd ini) @ x" by (rule in_content_snoc [OF l])
  show ?thesis
  proof (cases "length x < length suffix")
    case True
    have ne: "ini \<noteq> []" using True assms(3) c by auto
    have i: "0 \<le> in_length b - int (length suffix)" "in_length b - int (length suffix) \<le> in_length b" "0 \<le> in_length b"
      using assms(1,3) by (simp_all add: in_ok_def)
    obtain b' k' where g: "get_slice (Some (in_length b - int (length suffix))) (Some (in_length b)) b =
        (Inr (k', take (nat (in_length b) - nat (in_length b - int (length suffix)))
           (drop (nat (in_length b - int (length suffix))) (in_content b))), b')"
      "in_ok b'" "in_content b' = in_content b" "int (length (snd (hd (input_list b)))) < in_length b \<Longrightarrow> k' = ByteArray"
      using get_slice_run [OF assms(1) i] l by (metis append_is_Nil_conv not_Cons_self2)
    have "x \<noteq> []" using assms(2) l by auto
    moreover obtain q ini' where ini: "ini = q # ini'" using ne by (cases ini) auto
    ultimately have "int (length (snd (hd (input_list b)))) < in_length b"
      using assms(1) c l by (cases q) (auto simp: in_ok_def intro: add_nonneg_pos)
    then have k': "k' = ByteArray" by (rule g(4))
    have n: "nat (in_length b) = length (in_content b)" "nat (in_length b - int (length suffix)) = length (in_content b) - length suffix"
      using assms(1) by (simp_all add: in_ok_def nat_diff_distrib)
    have e: "take (nat (in_length b) - nat (in_length b - int (length suffix)))
        (drop (nat (in_length b - int (length suffix))) (in_content b)) = drop (length (in_content b) - length suffix) (in_content b)"
      unfolding n using assms(3) by simp
    have "buffer_endswith suffix b = (Inr (ends_with (in_content b) suffix), b')"
      unfolding buffer_endswith_def bind_getE using True l g(1) k'
      by (simp add: py_simps e ends_with_drop [OF assms(3)])
    then show ?thesis using g(2,3) by blast
  next
    case False
    have e: "ends_with x suffix = ends_with (in_content b) suffix" using False unfolding c by (simp add: ends_with_append)
    define b' where "b' = (if k = ByteArray then b else b\<lparr>input_list := ini @ [(ByteArray, x)]\<rparr>)"
    have "buffer_endswith suffix b = (Inr (ends_with (in_content b) suffix), b')"
      unfolding buffer_endswith_def bind_getE using False l by (simp add: py_simps e b'_def)
    moreover have "in_content b' = in_content b" "in_length b' = in_length b" using l by (auto simp: b'_def in_content_def)
    ultimately show ?thesis using assms(1) by (auto simp: in_ok_def)
  qed
qed

text \<open>Asked for a suffix longer than its only piece, of class bytes, \<open>endswith\<close> overwrites the piece
  with a part of it: bytes are lost, and the recorded length is no longer the number of bytes.\<close>

theorem endswith_loses_bytes:
  assumes "length x < length suffix" "length suffix < 2 * length x"
  shows "\<exists>b'. buffer_endswith suffix (snd (add_bytes (PyBytes, x) InputBuffer)) = (Inr False, b') \<and>
    in_content b' = drop (2 * length x - length suffix) x \<and> in_length b' = int (length x)"
proof -
  have "clip_bound (length x) (int (length x) - int (length suffix)) = 2 * length x - length suffix"
    "clip_bound (length x) (int (length x)) = length x"
    using assms by (simp_all add: clip_bound_def)
  then have "py_slice x (int (length x) - int (length suffix)) (int (length x)) = drop (2 * length x - length suffix) x"
    using assms by (simp add: py_slice_def slice_def)
  then show ?thesis
    using assms
    by (auto simp add: buffer_endswith_def add_bytes_def InputBuffer_def get_slice_def shrink_if_needed_def head_piece_def
        guardR_def in_content_def ends_with_def py_simps)
qed

end
