(* ===== verification/OutBuffer.thy ===== *)
theory OutBuffer
  imports Buffers
begin

text \<open>
  The output buffer of a relay connection (bxcommon/utils/buffers/output_buffer.py) and the tracker of the
  messages on it (message_tracker.py). The clock is an argument of the operations that read it.
  \<open>out_ok\<close> is the invariant that the operations keep: the recorded length is the number of bytes still to
  be sent, the index lies in the first message, and the write buffer is consistent.
\<close>

section \<open>The output buffer\<close>

record output_buffer =
  enable_buffering :: bool
  output_msgs :: "piece list"
  ob_index :: nat
  ob_length :: int
  min_size :: nat
  max_hold_time :: pyfloat
  last_bytearray :: "bytes option"
  valid_len :: nat
  create_time :: "pyfloat option"

definition OUTPUT_BUFFER_MIN_SIZE :: nat where
  "OUTPUT_BUFFER_MIN_SIZE = 65535"

definition OUTPUT_BUFFER_BATCH_MAX_HOLD_TIME :: pyfloat where
  "OUTPUT_BUFFER_BATCH_MAX_HOLD_TIME = rnd (5/100)"

definition OutputBuffer :: "nat option \<Rightarrow> pyfloat option \<Rightarrow> bool \<Rightarrow> output_buffer" where
  "OutputBuffer n hold buffering =
     \<lparr>enable_buffering = buffering, output_msgs = [], ob_index = 0, ob_length = 0,
      min_size = (case n of None \<Rightarrow> OUTPUT_BUFFER_MIN_SIZE | Some m \<Rightarrow> m),
      max_hold_time = (case hold of None \<Rightarrow> OUTPUT_BUFFER_BATCH_MAX_HOLD_TIME | Some t \<Rightarrow> t),
      last_bytearray = None, valid_len = 0, create_time = None\<rparr>"

definition flush :: "(output_buffer, unit) eff" where
  "flush = modE (\<lambda>b. case last_bytearray b of
       None \<Rightarrow> b
     | Some ba \<Rightarrow> b\<lparr>output_msgs := output_msgs b @ [(MemView, take (valid_len b) ba)],
         create_time := None, last_bytearray := None, valid_len := 0\<rparr>)"

definition held_for :: "pyfloat \<Rightarrow> output_buffer \<Rightarrow> pyfloat res" where
  \<comment> \<open>\<open>now - last_bytearray_create_time\<close>\<close>
  "held_for now b = (case create_time b of None \<Rightarrow> Inl TypeError | Some t \<Rightarrow> Inr (fsub now t))"

definition get_buffer :: "pyfloat \<Rightarrow> (output_buffer, bytes) eff" where
  "get_buffer now =
     bindE (getE (\<lambda>b. enable_buffering b \<and> last_bytearray b \<noteq> None)) (\<lambda>batching.
     bindE (if batching then bindE (getR (held_for now)) (\<lambda>t. getE (\<lambda>b. max_hold_time b \<le> t)) else returnE False) (\<lambda>due.
     thenE (whenE due flush)
       (getE (\<lambda>b. case output_msgs b of [] \<Rightarrow> [] | (_, m) # _ \<Rightarrow> drop (ob_index b) m))))"

text \<open>The message of the error needs \<open>tobytes\<close>, which a bytearray does not have.\<close>

definition advance_buffer :: "int \<Rightarrow> (output_buffer, unit) eff" where
  "advance_buffer num_bytes =
     thenE (liftR (guardR (0 \<le> num_bytes) ValueError))
    (bindE (getE (\<lambda>b. (output_msgs b, int (ob_index b) + num_bytes))) (\<lambda>(msgs, pos).
     case msgs of
       [] \<Rightarrow> raiseE (if 0 < num_bytes then ValueError else IndexError)
     | (k, m) # rest \<Rightarrow>
         if int (length m) < pos then raiseE (if k = MemView then ValueError else AttributeError)
         else thenE (modE (\<lambda>b. b\<lparr>ob_index := nat pos, ob_length := ob_length b - num_bytes\<rparr>))
                (whenE (pos = int (length m)) (modE (\<lambda>b. b\<lparr>output_msgs := rest, ob_index := 0\<rparr>)))))"

definition at_msg_boundary :: "output_buffer \<Rightarrow> bool" where
  "at_msg_boundary b \<longleftrightarrow> ob_index b = 0"

text \<open>\<open>ba[off:off + len(x)] = x\<close>\<close>

definition splice :: "nat \<Rightarrow> bytes \<Rightarrow> bytes \<Rightarrow> bytes" where
  "splice off x ba = take off ba @ x @ drop (off + length x) ba"

text \<open>Where the message goes: on the queue, or into the write buffer.\<close>

definition append_msg :: "piece \<Rightarrow> (output_buffer, unit) eff" where
  "append_msg p = modE (\<lambda>b. b\<lparr>output_msgs := output_msgs b @ [p]\<rparr>)"

definition batch_msg :: "pyfloat \<Rightarrow> bytes \<Rightarrow> (output_buffer, unit) eff" where
  "batch_msg now x =
     bindE (getE (\<lambda>b. b)) (\<lambda>b. case last_bytearray b of
         None \<Rightarrow> modE (\<lambda>b. b\<lparr>last_bytearray := Some (splice 0 x (replicate (min_size b) 0)),
           valid_len := length x, create_time := Some now\<rparr>)
       | Some ba \<Rightarrow>
           thenE (liftR (guardR (create_time b \<noteq> None) ValueError))
          (thenE (modE (\<lambda>b. b\<lparr>last_bytearray := Some (splice (valid_len b) x ba), valid_len := valid_len b + length x\<rparr>))
          (bindE (getR (held_for now)) (\<lambda>t.
           bindE (getE (\<lambda>b. max_hold_time b < t)) (\<lambda>due. whenE due flush)))))"

definition store_msg :: "pyfloat \<Rightarrow> piece \<Rightarrow> (output_buffer, unit) eff" where
  "store_msg now p =
     bindE (getE (\<lambda>b. b)) (\<lambda>b.
       if \<not> enable_buffering b then append_msg p
       else if min_size b < length (snd p) + valid_len b then thenE flush (append_msg p)
       else batch_msg now (snd p))"

definition enqueue_msgbytes :: "pyfloat \<Rightarrow> piece \<Rightarrow> (output_buffer, unit) eff" where
  "enqueue_msgbytes now p =
     thenE (liftR (guardR (fst p \<noteq> PyBytes) ValueError))
    (thenE (store_msg now p)
       (modE (\<lambda>b. b\<lparr>ob_length := ob_length b + int (length (snd p))\<rparr>)))"

definition prepend_msgbytes :: "piece \<Rightarrow> (output_buffer, unit) eff" where
  "prepend_msgbytes p =
     thenE (liftR (guardR (fst p \<noteq> PyBytes) ValueError))
    (bindE (getE (\<lambda>b. b)) (\<lambda>b.
     thenE
       (if ob_index b = 0 then modE (\<lambda>b. b\<lparr>output_msgs := p # output_msgs b\<rparr>)
        else (case output_msgs b of
            [] \<Rightarrow> raiseE IndexError
          | prev # rest \<Rightarrow> modE (\<lambda>b. b\<lparr>output_msgs := prev # p # rest\<rparr>)))
       (modE (\<lambda>b. b\<lparr>ob_length := ob_length b + int (length (snd p))\<rparr>))))"

definition has_more_bytes :: "output_buffer \<Rightarrow> bool" where
  "has_more_bytes b \<longleftrightarrow> ob_length b \<noteq> 0"

definition safe_empty :: "(output_buffer, unit) eff" where
  "safe_empty =
     thenE flush (modE (\<lambda>b. case output_msgs b of
         first # _ \<Rightarrow>
           if ob_index b \<noteq> 0 then b\<lparr>output_msgs := [first], ob_length := int (length (snd first)) - int (ob_index b)\<rparr>
           else b\<lparr>output_msgs := [], ob_length := 0\<rparr>
       | [] \<Rightarrow> b\<lparr>ob_length := 0\<rparr>))"

subsection \<open>The invariant\<close>

definition queued :: "output_buffer \<Rightarrow> bytes" where
  "queued b = drop (ob_index b) (concat (map snd (output_msgs b)))"

definition batched :: "output_buffer \<Rightarrow> bytes" where
  "batched b = (case last_bytearray b of None \<Rightarrow> [] | Some ba \<Rightarrow> take (valid_len b) ba)"

definition out_pending :: "output_buffer \<Rightarrow> bytes" where
  "out_pending b = queued b @ batched b"

definition batch_ok :: "output_buffer \<Rightarrow> bool" where
  "batch_ok b = (case last_bytearray b of
       None \<Rightarrow> valid_len b = 0 \<and> create_time b = None
     | Some ba \<Rightarrow> enable_buffering b \<and> length ba = min_size b \<and> valid_len b \<le> min_size b \<and> create_time b \<noteq> None)"

definition index_ok :: "output_buffer \<Rightarrow> bool" where
  "index_ok b = (case output_msgs b of [] \<Rightarrow> ob_index b = 0 | p # _ \<Rightarrow> ob_index b = 0 \<or> ob_index b < length (snd p))"

definition out_ok :: "output_buffer \<Rightarrow> bool" where
  "out_ok b \<longleftrightarrow> ob_length b = int (length (out_pending b)) \<and> batch_ok b \<and> index_ok b"

text \<open>The scrutinee and the branches of a case are both simplified.\<close>

declare option.case_cong [cong] list.case_cong [cong]

lemma OutputBuffer_ok: "out_ok (OutputBuffer n t f)" "out_pending (OutputBuffer n t f) = []"
  by (simp_all add: OutputBuffer_def out_ok_def out_pending_def queued_def batched_def batch_ok_def index_ok_def)

lemma index_in_msgs: "index_ok b \<Longrightarrow> ob_index b \<le> length (concat (map snd (output_msgs b)))"
  by (auto simp: index_ok_def split: list.splits)

lemma splice_prefix:
  "off \<le> length ba \<Longrightarrow> take (off + length x) (splice off x ba) = take off ba @ x"
  by (simp add: splice_def)

lemma length_splice: "off + length x \<le> length ba \<Longrightarrow> length (splice off x ba) = length ba"
  by (simp add: splice_def)

text \<open>Flushing moves the batched bytes behind the queued ones.\<close>

lemma flush_run:
  assumes "batch_ok b" "index_ok b"
  obtains b' where "flush b = (Inr (), b')" "batch_ok b'" "index_ok b'" "out_pending b' = out_pending b" "ob_length b' = ob_length b"
    "batched b' = []" "last_bytearray b' = None" "valid_len b' = 0" "enable_buffering b' = enable_buffering b"
    "min_size b' = min_size b" "ob_index b' = ob_index b" "\<exists>ps. output_msgs b' = output_msgs b @ ps"
proof (cases "last_bytearray b")
  case None
  have f: "flush b = (Inr (), b)" using None by (simp add: flush_def py_simps)
  show ?thesis
    by (rule that [OF f assms]) (use None assms in \<open>simp_all add: batched_def batch_ok_def\<close>)
next
  case (Some ba)
  define b' where "b' = b\<lparr>output_msgs := output_msgs b @ [(MemView, take (valid_len b) ba)],
         create_time := None, last_bytearray := None, valid_len := 0\<rparr>"
  have f: "flush b = (Inr (), b')" using Some by (simp add: flush_def py_simps b'_def)
  show ?thesis
  proof (rule that [OF f])
    show "out_pending b' = out_pending b"
      using index_in_msgs [OF assms(2)] Some by (simp add: out_pending_def queued_def batched_def b'_def)
    show "index_ok b'" using assms(2) by (auto simp: index_ok_def b'_def split: list.splits)
  qed (simp_all add: batch_ok_def batched_def b'_def)
qed

subsection \<open>What the operations do to the bytes\<close>

text \<open>The state between storing a message and counting it.\<close>

definition mid_ok :: "output_buffer \<Rightarrow> bytes \<Rightarrow> output_buffer \<Rightarrow> bool" where
  "mid_ok b x b' \<longleftrightarrow> batch_ok b' \<and> index_ok b' \<and> out_pending b' = out_pending b @ x \<and> ob_length b' = ob_length b"

lemma append_msg_run:
  assumes "batch_ok b" "index_ok b" "last_bytearray b = None"
  shows "\<exists>b'. append_msg p b = (Inr (), b') \<and> mid_ok b (snd p) b'"
proof -
  define b' where "b' = b\<lparr>output_msgs := output_msgs b @ [p]\<rparr>"
  have "out_pending b' = out_pending b @ snd p"
    using index_in_msgs [OF assms(2)] assms(3) by (simp add: out_pending_def queued_def batched_def b'_def)
  moreover have "index_ok b'" using assms(2) by (auto simp: index_ok_def b'_def split: list.splits)
  moreover have "batch_ok b'" using assms(1,3) by (simp add: batch_ok_def b'_def)
  ultimately show ?thesis by (simp add: append_msg_def eff_apply mid_ok_def b'_def)
qed

lemma batch_msg_run:
  assumes "batch_ok b" "index_ok b" "enable_buffering b" "length x + valid_len b \<le> min_size b"
  shows "\<exists>b'. batch_msg now x b = (Inr (), b') \<and> mid_ok b x b'"
proof (cases "last_bytearray b")
  case None
  have "take (length x) (splice 0 x (replicate (min_size b) 0)) = x"
    using splice_prefix [of 0 "replicate (min_size b) 0" x] by simp
  moreover have "length (splice 0 x (replicate (min_size b) (0 :: byte))) = min_size b"
    using assms(4) by (simp add: length_splice)
  ultimately show ?thesis using assms None
    by (simp add: batch_msg_def eff_apply bindE_apply mid_ok_def out_pending_def queued_def batched_def batch_ok_def index_ok_def)
next
  case (Some ba)
  define b2 where "b2 = b\<lparr>last_bytearray := Some (splice (valid_len b) x ba), valid_len := valid_len b + length x\<rparr>"
  have v: "length ba = min_size b" "valid_len b \<le> min_size b" "create_time b \<noteq> None"
    using assms(1) Some by (simp_all add: batch_ok_def)
  then obtain t where t: "create_time b = Some t" by auto
  have p2: "out_pending b2 = out_pending b @ x"
    using Some v splice_prefix [of "valid_len b" ba x] by (simp add: out_pending_def queued_def batched_def b2_def)
  have k2: "batch_ok b2" "index_ok b2"
    using assms Some v length_splice [of "valid_len b" x ba] by (auto simp: batch_ok_def index_ok_def b2_def add.commute)
  obtain b3 where f: "flush b2 = (Inr (), b3)" "batch_ok b3" "index_ok b3" "out_pending b3 = out_pending b2"
    "ob_length b3 = ob_length b2"
    using flush_run [OF k2] by metis
  have "batch_msg now x b = (if max_hold_time b2 < fsub now t then flush b2 else (Inr (), b2))"
    using Some v(3) t by (simp add: batch_msg_def eff_apply bindE_apply whenE_apply guardR_def held_for_def b2_def)
  moreover have "ob_length b2 = ob_length b" by (simp add: b2_def)
  ultimately show ?thesis using p2 k2 f by (auto simp: mid_ok_def)
qed

lemma store_msg_run:
  assumes "batch_ok b" "index_ok b"
  shows "\<exists>b'. store_msg now p b = (Inr (), b') \<and> mid_ok b (snd p) b'"
proof -
  consider (plain) "\<not> enable_buffering b" | (big) "enable_buffering b" "min_size b < length (snd p) + valid_len b"
    | (batch) "enable_buffering b" "length (snd p) + valid_len b \<le> min_size b"
    by linarith
  then show ?thesis
  proof cases
    case plain
    then have "last_bytearray b = None" using assms(1) by (auto simp: batch_ok_def split: option.splits)
    with append_msg_run [OF assms, of p] plain show ?thesis by (simp add: store_msg_def eff_apply bindE_apply)
  next
    case big
    obtain b2 where f: "flush b = (Inr (), b2)" "batch_ok b2" "index_ok b2" "out_pending b2 = out_pending b"
      "ob_length b2 = ob_length b" "last_bytearray b2 = None"
      using flush_run [OF assms] by metis
    have "store_msg now p b = append_msg p b2" using big f(1) by (simp add: store_msg_def eff_apply bindE_apply)
    with append_msg_run [OF f(2,3,6), of p] f(4,5) show ?thesis by (simp add: mid_ok_def)
  next
    case batch
    with batch_msg_run [OF assms, of "snd p" now] show ?thesis by (simp add: store_msg_def eff_apply bindE_apply)
  qed
qed

text \<open>Queueing a message appends it to the bytes still to be sent, whether it is batched, flushed or queued.\<close>

lemma enqueue_run:
  assumes "out_ok b" "fst p \<noteq> PyBytes"
  shows "\<exists>b'. enqueue_msgbytes now p b = (Inr (), b') \<and> out_ok b' \<and> out_pending b' = out_pending b @ snd p"
proof -
  obtain b1 where b1: "store_msg now p b = (Inr (), b1)" "mid_ok b (snd p) b1"
    using store_msg_run [of b now p] assms(1) by (auto simp: out_ok_def)
  define b' where "b' = b1\<lparr>ob_length := ob_length b1 + int (length (snd p))\<rparr>"
  have "out_pending b' = out_pending b1" "batch_ok b' = batch_ok b1" "index_ok b' = index_ok b1"
    by (simp_all add: b'_def out_pending_def queued_def batched_def batch_ok_def index_ok_def)
  moreover have "ob_length b' = ob_length b + int (length (snd p))" using b1(2) by (simp add: b'_def mid_ok_def)
  moreover have "enqueue_msgbytes now p b = (Inr (), b')"
    using assms(2) b1(1) by (simp add: enqueue_msgbytes_def eff_apply bindE_apply guardR_def b'_def)
  ultimately show ?thesis using b1(2) assms(1) by (simp add: out_ok_def mid_ok_def)
qed

text \<open>The returned bytes are the first ones still to be sent.\<close>

lemma get_buffer_run:
  assumes "out_ok b"
  shows "\<exists>xs b'. get_buffer now b = (Inr xs, b') \<and> out_ok b' \<and> out_pending b' = out_pending b \<and>
    xs = (case output_msgs b' of [] \<Rightarrow> [] | (_, m) # _ \<Rightarrow> drop (ob_index b') m) \<and> (\<exists>t. out_pending b' = xs @ t)"
proof -
  have ok: "batch_ok b" "index_ok b" using assms by (simp_all add: out_ok_def)
  obtain b2 where f: "flush b = (Inr (), b2)" "batch_ok b2" "index_ok b2" "out_pending b2 = out_pending b" "ob_length b2 = ob_length b"
    using flush_run [OF ok] by metis
  have o2: "out_ok b2" using f assms by (simp add: out_ok_def)
  define hd_of where "hd_of = (\<lambda>b :: output_buffer. case output_msgs b of [] \<Rightarrow> [] | (_, m) # _ \<Rightarrow> drop (ob_index b) m)"
  have pre: "\<exists>t. out_pending b = hd_of b @ t" if "out_ok b" for b :: output_buffer
    using that index_in_msgs [of b]
    by (auto simp: out_pending_def queued_def hd_of_def out_ok_def index_ok_def split: list.splits)
  have "\<exists>b'. (b' = b \<or> b' = b2) \<and> get_buffer now b = (Inr (hd_of b'), b')"
  proof (cases "enable_buffering b \<and> last_bytearray b \<noteq> None")
    case True
    then obtain t where "create_time b = Some t" using ok(1) by (auto simp: batch_ok_def)
    with True f(1) show ?thesis
      by (simp add: get_buffer_def eff_apply bindE_apply whenE_apply held_for_def hd_of_def)
  next
    case False
    then show ?thesis by (auto simp: get_buffer_def eff_apply bindE_apply whenE_apply hd_of_def)
  qed
  then obtain b' where b': "b' = b \<or> b' = b2" "get_buffer now b = (Inr (hd_of b'), b')" by blast
  have o: "out_ok b'" "out_pending b' = out_pending b" using b'(1) assms o2 f(4) by auto
  with pre [OF o(1)] b'(2) show ?thesis by (auto simp: hd_of_def)
qed

lemma advance_run:
  assumes "out_ok b" "output_msgs b = (k, m) # rest" "0 \<le> n" "int (ob_index b) + n \<le> int (length m)"
  shows "\<exists>b'. advance_buffer n b = (Inr (), b') \<and> out_ok b' \<and> out_pending b' = drop (nat n) (out_pending b)"
proof -
  have ok: "batch_ok b" "index_ok b" "ob_length b = int (length (out_pending b))" using assms by (simp_all add: out_ok_def)
  obtain j where j: "n = int j" using assms(3) by (metis nonneg_int_cases)
  define b1 where "b1 = b\<lparr>ob_index := ob_index b + j, ob_length := ob_length b - n\<rparr>"
  define b' where "b' = (if ob_index b + j = length m then b1\<lparr>output_msgs := rest, ob_index := 0\<rparr> else b1)"
  have a: "advance_buffer n b = (Inr (), b')"
    using assms(2-4) unfolding j
    by (auto simp: advance_buffer_def eff_apply bindE_apply guardR_def whenE_apply b'_def b1_def j nat_add_distrib nat_int_add
        simp flip: of_nat_add)
  have l: "ob_index b + j \<le> length m" using assms(4) j by linarith
  have q: "queued b' = drop j (queued b)"
    using assms(2) l by (simp add: queued_def b'_def b1_def add.commute)
  have lj: "j \<le> length (queued b)" using assms(2) l by (simp add: queued_def)
  have p: "out_pending b' = drop j (out_pending b)"
    using q lj by (simp add: out_pending_def batched_def b'_def b1_def)
  have "batch_ok b'" using ok(1) by (auto simp: batch_ok_def b'_def b1_def)
  moreover have "index_ok b'" using l assms(2) by (auto simp: index_ok_def b'_def b1_def split: list.splits)
  moreover have "ob_length b' = int (length (out_pending b'))"
  proof -
    have "j \<le> length (out_pending b)" using lj by (simp add: out_pending_def)
    then show ?thesis unfolding p using ok(3) j by (simp add: b'_def b1_def of_nat_diff)
  qed
  ultimately show ?thesis using a p j by (auto simp: out_ok_def)
qed

text \<open>A prepended message goes in front, or behind the rest of a message that is already being sent.\<close>

lemma prepend_run:
  assumes "out_ok b" "fst p \<noteq> PyBytes"
  shows "\<exists>b' c d. prepend_msgbytes p b = (Inr (), b') \<and> out_ok b' \<and> out_pending b = c @ d \<and> out_pending b' = c @ snd p @ d \<and>
    c = (if ob_index b = 0 then [] else drop (ob_index b) (snd (hd (output_msgs b))))"
proof (cases "ob_index b = 0")
  case True
  define b' where "b' = b\<lparr>output_msgs := p # output_msgs b, ob_length := ob_length b + int (length (snd p))\<rparr>"
  have "prepend_msgbytes p b = (Inr (), b')"
    using True assms(2) by (simp add: prepend_msgbytes_def eff_apply bindE_apply guardR_def b'_def)
  moreover have "out_pending b' = snd p @ out_pending b"
    using True by (simp add: out_pending_def queued_def batched_def b'_def)
  moreover from this have "out_ok b'"
    using assms(1) True unfolding out_ok_def
    by (simp add: batch_ok_def index_ok_def) (simp add: b'_def True)
  ultimately show ?thesis using True by auto
next
  case False
  then obtain prev rest where m: "output_msgs b = prev # rest" "ob_index b < length (snd prev)"
    using assms(1) by (auto simp: out_ok_def index_ok_def split: list.splits)
  define b' where "b' = b\<lparr>output_msgs := prev # p # rest, ob_length := ob_length b + int (length (snd p))\<rparr>"
  define c where "c = drop (ob_index b) (snd prev)"
  define d where "d = concat (map snd rest) @ batched b"
  have "prepend_msgbytes p b = (Inr (), b')"
    using False assms(2) m by (simp add: prepend_msgbytes_def eff_apply bindE_apply guardR_def b'_def)
  moreover have e: "out_pending b = c @ d" "out_pending b' = c @ snd p @ d"
    using m by (simp_all add: out_pending_def queued_def batched_def b'_def c_def d_def)
  moreover have "out_ok b'"
    using assms(1) m e unfolding out_ok_def by (simp add: batch_ok_def index_ok_def b'_def)
  ultimately show ?thesis using False m by (auto simp: c_def)
qed

text \<open>Emptying keeps exactly the rest of a message that is already being sent.\<close>

lemma safe_empty_run:
  assumes "out_ok b"
  shows "\<exists>b'. safe_empty b = (Inr (), b') \<and> out_ok b' \<and>
    out_pending b' = (if ob_index b = 0 then [] else drop (ob_index b) (snd (hd (output_msgs b))))"
proof -
  obtain b2 where f: "flush b = (Inr (), b2)" "batch_ok b2" "index_ok b2" "batched b2 = []" "last_bytearray b2 = None"
    "ob_index b2 = ob_index b" "\<exists>ps. output_msgs b2 = output_msgs b @ ps"
    using flush_run [of b] assms unfolding out_ok_def by metis
  show ?thesis
  proof (cases "ob_index b = 0")
    case True
    define b' where "b' = b2\<lparr>output_msgs := [], ob_length := 0\<rparr>"
    have "safe_empty b = (Inr (), b')"
      using f(1,6) True by (cases "output_msgs b2") (simp_all add: safe_empty_def eff_apply bindE_apply b'_def)
    then show ?thesis using True f
      by (simp add: out_ok_def out_pending_def queued_def batched_def batch_ok_def index_ok_def b'_def)
  next
    case False
    then obtain k m rest where m: "output_msgs b = (k, m) # rest" "ob_index b < length m"
      using assms by (auto simp: out_ok_def index_ok_def split: list.splits)
    then obtain rest' where m2: "output_msgs b2 = (k, m) # rest'" using f(7) by auto
    define b' where "b' = b2\<lparr>output_msgs := [(k, m)], ob_length := int (length m) - int (ob_index b)\<rparr>"
    have "safe_empty b = (Inr (), b')"
      using f(1,6) False m2 by (simp add: safe_empty_def eff_apply bindE_apply b'_def)
    then show ?thesis using False f m
      by (simp add: out_ok_def out_pending_def queued_def batched_def batch_ok_def index_ok_def b'_def of_nat_diff)
  qed
qed

section \<open>Sending\<close>

text \<open>\<open>advance_sent_bytes\<close> of a connection turns the ValueError of the buffer into a RuntimeError.\<close>

definition advance_sent_bytes :: "int \<Rightarrow> (output_buffer, unit) eff" where
  "advance_sent_bytes n =
     tryE (advance_buffer n) (\<lambda>e. raiseE (if e = ValueError then Raised ''RuntimeError'' else e))"

text \<open>One round of \<open>send\<close>: the transport takes all bytes that it is given.\<close>

definition send_round :: "pyfloat \<Rightarrow> (output_buffer, bytes) eff" where
  "send_round now =
     bindE (get_buffer now) (\<lambda>data.
       if data = [] then returnE []
       else thenE (advance_sent_bytes (int (length data))) (returnE data))"

text \<open>
  The loop of \<open>send\<close>: \<open>sendable i\<close> and \<open>clock i\<close> are what \<open>is_sendable()\<close> and the clock answer in the
  \<open>i\<close>-th round, \<open>written\<close> is what the transport has received so far.
\<close>

partial_function (option) send_loop ::
    "(nat \<Rightarrow> bool) \<Rightarrow> (nat \<Rightarrow> pyfloat) \<Rightarrow> nat \<Rightarrow> bytes \<Rightarrow> output_buffer \<Rightarrow> (bytes res \<times> output_buffer) option" where
  "send_loop sendable clock i written b =
     (if \<not> sendable i then Some (Inr written, b)
      else (case send_round (clock i) b of
          (Inl e, b') \<Rightarrow> Some (Inl e, b')
        | (Inr data, b') \<Rightarrow>
            if data = [] then Some (Inr written, b')
            else send_loop sendable clock (Suc i) (written @ data) b'))"

lemma send_round_run:
  assumes "out_ok b"
  shows "\<exists>data b'. send_round now b = (Inr data, b') \<and> out_ok b' \<and> out_pending b = data @ out_pending b'"
proof -
  obtain xs b1 t where g: "get_buffer now b = (Inr xs, b1)" "out_ok b1" "out_pending b1 = out_pending b"
    "xs = (case output_msgs b1 of [] \<Rightarrow> [] | (_, m) # _ \<Rightarrow> drop (ob_index b1) m)" "out_pending b1 = xs @ t"
    using get_buffer_run [OF assms, of now] by blast
  show ?thesis
  proof (cases "xs = []")
    case True
    with g show ?thesis by (simp add: send_round_def eff_apply bindE_apply)
  next
    case False
    then obtain k m rest where m: "output_msgs b1 = (k, m) # rest" "xs = drop (ob_index b1) m" using g(4) by (auto split: list.splits)
    have "int (ob_index b1) + int (length xs) \<le> int (length m)" using m False by simp
    with advance_run [OF g(2) m(1), of "int (length xs)"] obtain b2 where
      b2: "advance_buffer (int (length xs)) b1 = (Inr (), b2)" "out_ok b2" "out_pending b2 = drop (length xs) (out_pending b1)"
      by auto
    then have "send_round now b = (Inr xs, b2)"
      using g(1) False by (simp add: send_round_def advance_sent_bytes_def eff_apply bindE_apply tryE_apply)
    moreover have "out_pending b = xs @ drop (length xs) (out_pending b)" using g(3,5) by (metis append_eq_conv_conj)
    ultimately show ?thesis using b2 g(3) by auto
  qed
qed

text \<open>(C35) Whatever the transport and the clock do, the sending loop of a connection returns without an
  exception: what it has written and what is still pending are the bytes that were pending before, in order.\<close>

theorem send_loop_returns:
  assumes "out_ok b"
  shows "\<exists>data b'. send_loop sendable clock i written b = Some (Inr (written @ data), b') \<and> out_ok b' \<and>
    out_pending b = data @ out_pending b'"
  using assms
proof (induction "length (out_pending b)" arbitrary: i written b rule: less_induct)
  case less
  obtain d b1 where r: "send_round (clock i) b = (Inr d, b1)" "out_ok b1" "out_pending b = d @ out_pending b1"
    using send_round_run [OF less.prems] by blast
  show ?case
  proof (cases "sendable i \<and> d \<noteq> []")
    case True
    then have "length (out_pending b1) < length (out_pending b)" using r(3) by simp
    with less.hyps [of b1 "Suc i" "written @ d"] r(2) obtain data b' where
      "send_loop sendable clock (Suc i) (written @ d) b1 = Some (Inr (written @ d @ data), b')" "out_ok b'"
      "out_pending b1 = data @ out_pending b'" by auto
    with True r show ?thesis by (subst send_loop.simps) auto
  next
    case False
    with r less.prems show ?thesis by (subst send_loop.simps) auto
  qed
qed

text \<open>The output buffer as a byte queue: messages are enqueued, and rounds of \<open>send\<close> take bytes out.\<close>

interpretation output_queue: byte_queue out_ok out_pending "\<lambda>(now, p). enqueue_msgbytes now p" "\<lambda>(now, p). snd p" send_round
proof
  fix b b' u and q :: "pyfloat \<times> piece"
  assume ok: "out_ok b" and e: "(case q of (now, p) \<Rightarrow> enqueue_msgbytes now p) b = (Inr u, b')"
  obtain now p where q: "q = (now, p)" by (cases q)
  have "fst p \<noteq> PyBytes" using e q by (auto simp: enqueue_msgbytes_def eff_apply bindE_apply guardR_def split: if_splits)
  from enqueue_run [OF ok this, of now] e q
  show "out_ok b' \<and> out_pending b' = out_pending b @ (case q of (now, p) \<Rightarrow> snd p)" by auto
next
  fix b b' xs now assume "out_ok b" "send_round now b = (Inr xs, b')"
  with send_round_run [of b now] show "out_ok b' \<and> out_pending b = xs @ out_pending b'" by auto
qed

text \<open>(C34) Over any run of enqueued messages and sending rounds on a new output buffer, batching or not, the
  bytes given to the transport followed by the bytes still pending are the messages in the order of their enqueueing.\<close>

theorem output_fifo:
  assumes "run_ops (\<lambda>(now, p). enqueue_msgbytes now p) send_round ops (OutputBuffer n t f) = (Inr out, b)"
  shows "put_bytes (\<lambda>(now, p). snd p) ops = out @ out_pending b \<and> ob_length b = int (length (out_pending b))"
  using output_queue.fifo [OF OutputBuffer_ok(1) assms] by (simp add: OutputBuffer_ok out_ok_def)

declare option.case_cong [cong del] list.case_cong [cong del]

end
