(* ===== verification/Tracker.thy ===== *)
theory Tracker
  imports OutBuffer
begin

text \<open>
  The tracker of the messages on an output buffer (bxcommon/utils/buffers/message_tracker.py): which
  messages the sent bytes belong to. What it writes to the log is left out; the readings of the clock
  that it stores are arguments.
  The lemmas relate it to the buffer: the entries stand for the queued pieces as long as messages are
  appended, sent and dropped together on both, and \<open>prepend_message\<close> breaks this.
\<close>

section \<open>Entries and the tracker\<close>

record 'm tracker_entry =
  te_message :: "'m option"
  te_length :: int
  te_label :: "string option"
  sent_bytes :: int
  queued_time :: pyfloat
  last_operation_time :: pyfloat

definition MessageTrackerEntry :: "'m option \<Rightarrow> int \<Rightarrow> string option \<Rightarrow> pyfloat \<Rightarrow> 'm tracker_entry" where
  "MessageTrackerEntry m n label now =
     \<lparr>te_message = m, te_length = n, te_label = label, sent_bytes = 0, queued_time = now, last_operation_time = 0\<rparr>"

text \<open>The name of an entry in the log, with \<open>str\<close> of a message as an argument.\<close>

definition entry_as_str :: "('m \<Rightarrow> string) \<Rightarrow> 'm tracker_entry \<Rightarrow> string" where
  "entry_as_str show_msg e =
     (case (te_message e, te_label e) of
        (None, None) \<Rightarrow> ''Message''
      | (None, Some l) \<Rightarrow> l
      | (Some m, None) \<Rightarrow> show_msg m
      | (Some m, Some l) \<Rightarrow> show_msg m @ ''('' @ l @ '')'') @ ''(len: '' @ py_str (te_length e) @ '')''"

record 'm tracker =
  tr_messages :: "'m tracker_entry list"
  is_working :: bool
  bytes_remaining :: int

definition MessageTracker :: "'m tracker" where
  "MessageTracker = \<lparr>tr_messages = [], is_working = True, bytes_remaining = 0\<rparr>"

definition left_of :: "'m tracker_entry \<Rightarrow> int" where
  "left_of e = te_length e - sent_bytes e"

definition is_sending_block_message :: "('m \<Rightarrow> bool) \<Rightarrow> 'm tracker \<Rightarrow> bool" where
  "is_sending_block_message is_block t =
     (case tr_messages t of [] \<Rightarrow> False | e # _ \<Rightarrow> (case te_message e of None \<Rightarrow> False | Some m \<Rightarrow> is_block m))"

text \<open>The loop of \<open>advance_bytes\<close>: the bytes that no entry takes, and the entries left.\<close>

fun advance_entries :: "pyfloat \<Rightarrow> int \<Rightarrow> 'm tracker_entry list \<Rightarrow> int \<times> 'm tracker_entry list" where
  "advance_entries now n [] = (n, [])"
| "advance_entries now n (e # es) =
     (if n \<le> 0 then (n, e # es)
      else if left_of e \<le> n then advance_entries now (n - left_of e) es
      else (0, e\<lparr>sent_bytes := sent_bytes e + n, last_operation_time := now\<rparr> # es))"

definition advance_bytes :: "pyfloat \<Rightarrow> int \<Rightarrow> 'm tracker \<Rightarrow> 'm tracker" where
  "advance_bytes now num_bytes t =
     (if \<not> is_working t then t
      else (case advance_entries now num_bytes (tr_messages t) of
          (n, es) \<Rightarrow>
            if 0 < n then t\<lparr>tr_messages := [], bytes_remaining := 0\<rparr>
            else t\<lparr>tr_messages := es, bytes_remaining := bytes_remaining t - num_bytes\<rparr>))"

definition append_message :: "pyfloat \<Rightarrow> int \<Rightarrow> 'm option \<Rightarrow> string option \<Rightarrow> 'm tracker \<Rightarrow> 'm tracker" where
  "append_message now num_bytes m label t =
     (if \<not> is_working t then t
      else t\<lparr>tr_messages := tr_messages t @ [MessageTrackerEntry m num_bytes label now],
             bytes_remaining := bytes_remaining t + num_bytes\<rparr>)"

definition prepend_message :: "pyfloat \<Rightarrow> int \<Rightarrow> 'm option \<Rightarrow> string option \<Rightarrow> 'm tracker \<Rightarrow> 'm tracker" where
  "prepend_message now num_bytes m label t =
     (if \<not> is_working t then t
      else t\<lparr>tr_messages :=
               (case tr_messages t of
                  e # es \<Rightarrow> if sent_bytes e \<noteq> 0 then e # MessageTrackerEntry m num_bytes label now # es
                            else (e # es) @ [MessageTrackerEntry m num_bytes label now]
                | [] \<Rightarrow> [MessageTrackerEntry m num_bytes label now]),
             bytes_remaining := bytes_remaining t + num_bytes\<rparr>)"

text \<open>The first loop of \<open>empty_bytes\<close> finds how many entries stay; it indexes past the last one when
  all together are shorter than \<open>skip_bytes\<close>.\<close>

fun entries_kept :: "int \<Rightarrow> int \<Rightarrow> 'm tracker_entry list \<Rightarrow> nat res" where
  "entries_kept skip skipped [] = Inl IndexError"
| "entries_kept skip skipped (e # es) =
     (let skipped = skipped + left_of e
      in if skipped = skip then Inr 1
         else if skip < skipped then Inr 0
         else bindR (entries_kept skip skipped es) (\<lambda>k. Inr (Suc k)))"

definition empty_bytes :: "int \<Rightarrow> ('m tracker, unit) eff" where
  "empty_bytes skip_bytes =
     bindE (getR (\<lambda>t. if tr_messages t = [] then Inr 0 else entries_kept skip_bytes 0 (tr_messages t))) (\<lambda>k.
       modE (\<lambda>t. t\<lparr>tr_messages := take k (tr_messages t),
         bytes_remaining := bytes_remaining t - sum_list (map left_of (drop k (tr_messages t)))\<rparr>))"

section \<open>The tracker and the buffer\<close>

text \<open>The bytes left of each piece on the queue.\<close>

definition piece_rests :: "output_buffer \<Rightarrow> int list" where
  "piece_rests b = (case map (int \<circ> length \<circ> snd) (output_msgs b) of [] \<Rightarrow> [] | n # ns \<Rightarrow> (n - int (ob_index b)) # ns)"

text \<open>A tracker follows an unbatched buffer when its entries are the pieces, one by one.\<close>

definition follows :: "'m tracker \<Rightarrow> output_buffer \<Rightarrow> bool" where
  "follows t b \<longleftrightarrow> is_working t \<and> map left_of (tr_messages t) = piece_rests b \<and>
     (case tr_messages t of [] \<Rightarrow> True | e # es \<Rightarrow> sent_bytes e = int (ob_index b) \<and> (\<forall>x \<in> set es. sent_bytes x = 0)) \<and>
     bytes_remaining t = ob_length b \<and> \<not> enable_buffering b \<and> out_ok b"

lemma unbatched: "out_ok b \<Longrightarrow> \<not> enable_buffering b \<Longrightarrow> last_bytearray b = None"
  by (auto simp: out_ok_def batch_ok_def split: option.splits)

lemma unbatched_enqueue:
  assumes "\<not> enable_buffering b" "fst p \<noteq> PyBytes"
  shows "enqueue_msgbytes now p b =
    (Inr (), b\<lparr>output_msgs := output_msgs b @ [p], ob_length := ob_length b + int (length (snd p))\<rparr>)"
  using assms by (simp add: enqueue_msgbytes_def store_msg_def append_msg_def eff_apply bindE_apply guardR_def)

text \<open>A message queued on the buffer and appended to the tracker.\<close>

lemma follows_append:
  assumes "follows t b" "fst p \<noteq> PyBytes"
  shows "\<exists>b'. enqueue_msgbytes now p b = (Inr (), b') \<and> follows (append_message now' (int (length (snd p))) m l t) b'"
proof -
  note f = assms(1) [unfolded follows_def]
  define b' where "b' = b\<lparr>output_msgs := output_msgs b @ [p], ob_length := ob_length b + int (length (snd p))\<rparr>"
  have e: "enqueue_msgbytes now p b = (Inr (), b')"
    unfolding b'_def using f assms(2) by (intro unbatched_enqueue) auto
  have "out_ok b'" using enqueue_run [of b p now] e f assms(2) by auto
  moreover have "index_ok b" using f by (simp add: out_ok_def)
  ultimately have "follows (append_message now' (int (length (snd p))) m l t) b'"
    using f by (auto simp: follows_def append_message_def MessageTrackerEntry_def left_of_def piece_rests_def b'_def index_ok_def
        split: list.splits)
  with e show ?thesis by blast
qed

lemma advance_entries_0 [simp]: "advance_entries now 0 es = (0, es)"
  by (cases es) auto

text \<open>Bytes of the first message sent from the buffer and counted by the tracker.\<close>

lemma follows_advance:
  assumes "follows t b" "output_msgs b = (k, m) # rest" "0 < n" "int (ob_index b) + n \<le> int (length m)"
  shows "\<exists>b'. advance_buffer n b = (Inr (), b') \<and> follows (advance_bytes now n t) b'"
proof -
  note f = assms(1) [unfolded follows_def]
  obtain j where j: "n = int j" "0 < j" using assms(3) by (metis zero_less_imp_eq_int)
  define b1 where "b1 = b\<lparr>ob_index := ob_index b + j, ob_length := ob_length b - n\<rparr>"
  define b' where "b' = (if ob_index b + j = length m then b1\<lparr>output_msgs := rest, ob_index := 0\<rparr> else b1)"
  have a: "advance_buffer n b = (Inr (), b')"
    using assms(2,4) unfolding j
    by (auto simp: advance_buffer_def eff_apply bindE_apply guardR_def whenE_apply b'_def b1_def j nat_int_add
        simp flip: of_nat_add)
  have "out_ok b'" using advance_run [of b k m rest n] assms a f by auto
  moreover obtain e es where t: "tr_messages t = e # es" "left_of e = int (length m) - int (ob_index b)"
    "map left_of es = map (int \<circ> length \<circ> snd) rest" "sent_bytes e = int (ob_index b)" "\<forall>x \<in> set es. sent_bytes x = 0"
    using f assms(2) by (cases "tr_messages t") (auto simp: piece_rests_def)
  ultimately have "follows (advance_bytes now n t) b'"
    using f assms(2,4) j
    by (auto simp: follows_def advance_bytes_def left_of_def piece_rests_def b'_def b1_def split: list.splits)
  with a show ?thesis by blast
qed

text \<open>Everything behind the message being sent is dropped from both.\<close>

lemma follows_empty:
  assumes "follows t b" "ob_index b \<noteq> 0"
  shows "\<exists>b' t'. safe_empty b = (Inr (), b') \<and> empty_bytes (ob_length b') t = (Inr (), t') \<and> follows t' b'"
proof -
  note f = assms(1) [unfolded follows_def]
  obtain k m rest where m: "output_msgs b = (k, m) # rest" "ob_index b < length m"
    using f assms(2) by (auto simp: out_ok_def index_ok_def split: list.splits)
  have u: "last_bytearray b = None" using f by (auto intro: unbatched)
  define b' where "b' = b\<lparr>output_msgs := [(k, m)], ob_length := int (length m) - int (ob_index b)\<rparr>"
  have s: "safe_empty b = (Inr (), b')"
    using m assms(2) u by (simp add: safe_empty_def flush_def eff_apply bindE_apply b'_def)
  have ok: "out_ok b'" using safe_empty_run [of b] s f by auto
  obtain e es where t: "tr_messages t = e # es" "left_of e = int (length m) - int (ob_index b)"
    "map left_of es = map (int \<circ> length \<circ> snd) rest" "sent_bytes e = int (ob_index b)" "\<forall>x \<in> set es. sent_bytes x = 0"
    using f m by (cases "tr_messages t") (auto simp: piece_rests_def)
  define t' where "t' = t\<lparr>tr_messages := [e], bytes_remaining := bytes_remaining t - sum_list (map left_of es)\<rparr>"
  have e: "empty_bytes (ob_length b') t = (Inr (), t')"
    using t by (simp add: empty_bytes_def eff_apply bindE_apply t'_def b'_def)
  have "ob_length b = int (length m) - int (ob_index b) + sum_list (map (int \<circ> length \<circ> snd) rest)"
    using f m u by (simp add: out_ok_def out_pending_def queued_def batched_def length_concat of_nat_diff
        sum_list_of_nat [symmetric] comp_def)
  then have "bytes_remaining t' = ob_length b'" using f t by (simp add: t'_def b'_def)
  then have "follows t' b'" using f t ok by (simp add: follows_def piece_rests_def t'_def b'_def)
  with s e show ?thesis by blast
qed

text \<open>A message that is prepended while none is half sent goes to the front of the buffer, but to the end
  of the tracker: from then on the tracker reports other messages than those that are sent.\<close>

theorem prepend_diverges:
  assumes "follows t b" "ob_index b = 0" "fst p \<noteq> PyBytes"
  shows "\<exists>b'. prepend_msgbytes p b = (Inr (), b') \<and> piece_rests b' = int (length (snd p)) # piece_rests b \<and>
    map left_of (tr_messages (prepend_message now (int (length (snd p))) m l t)) = piece_rests b @ [int (length (snd p))]"
proof -
  note f = assms(1) [unfolded follows_def]
  define b' where "b' = b\<lparr>output_msgs := p # output_msgs b, ob_length := ob_length b + int (length (snd p))\<rparr>"
  have p: "prepend_msgbytes p b = (Inr (), b')"
    using assms(2,3) by (simp add: prepend_msgbytes_def eff_apply bindE_apply guardR_def b'_def)
  have "piece_rests b' = int (length (snd p)) # piece_rests b"
    using assms(2) by (simp add: piece_rests_def b'_def split: list.splits)
  moreover have "left_of (MessageTrackerEntry m (int (length (snd p))) l now) = int (length (snd p))"
    by (simp add: left_of_def MessageTrackerEntry_def)
  ultimately show ?thesis
    using f assms(2) p by (auto simp: prepend_message_def split: list.splits)
qed

text \<open>While a message is half sent, the prepended one goes behind it in both.\<close>

lemma follows_prepend:
  assumes "follows t b" "ob_index b \<noteq> 0" "fst p \<noteq> PyBytes"
  shows "\<exists>b'. prepend_msgbytes p b = (Inr (), b') \<and> follows (prepend_message now (int (length (snd p))) m l t) b'"
proof -
  note f = assms(1) [unfolded follows_def]
  obtain q rest where m: "output_msgs b = q # rest"
    using f assms(2) by (auto simp: out_ok_def index_ok_def split: list.splits)
  define b' where "b' = b\<lparr>output_msgs := q # p # rest, ob_length := ob_length b + int (length (snd p))\<rparr>"
  have p: "prepend_msgbytes p b = (Inr (), b')"
    using assms(2,3) m by (simp add: prepend_msgbytes_def eff_apply bindE_apply guardR_def b'_def)
  have "out_ok b'" using prepend_run [of b p] p f assms(3) by auto
  moreover obtain e es where t: "tr_messages t = e # es" using f m by (cases "tr_messages t") (auto simp: piece_rests_def)
  ultimately have "follows (prepend_message now (int (length (snd p))) m l t) b'"
    using f assms(2) m
    by (auto simp: follows_def prepend_message_def MessageTrackerEntry_def left_of_def piece_rests_def b'_def)
  with p show ?thesis by blast
qed

section \<open>Runs of a connection\<close>

text \<open>What a connection does to both: queue a message, have the socket take the rest of the first one, put a
  message behind a half sent one, or drop what is behind a half sent one.\<close>

inductive conn_step :: "'m tracker \<times> output_buffer \<Rightarrow> 'm tracker \<times> output_buffer \<Rightarrow> bool" where
  queue: "enqueue_msgbytes now p b = (Inr (), b') \<Longrightarrow>
    conn_step (t, b) (append_message now' (int (length (snd p))) m l t, b')"
| sent: "send_round now b = (Inr d, b') \<Longrightarrow> conn_step (t, b) (advance_bytes now' (int (length d)) t, b')"
| half_sent: "ob_index b \<noteq> 0 \<Longrightarrow> prepend_msgbytes p b = (Inr (), b') \<Longrightarrow>
    conn_step (t, b) (prepend_message now' (int (length (snd p))) m l t, b')"
| emptied: "ob_index b \<noteq> 0 \<Longrightarrow> safe_empty b = (Inr (), b') \<Longrightarrow> empty_bytes (ob_length b') t = (Inr (), t') \<Longrightarrow>
    conn_step (t, b) (t', b')"

lemma follows_send_round:
  assumes "follows t b" "send_round now b = (Inr d, b')"
  shows "follows (advance_bytes now' (int (length d)) t) b'"
proof -
  note f = assms(1) [unfolded follows_def]
  have u: "last_bytearray b = None" using f by (auto intro: unbatched)
  have g: "get_buffer now b = (Inr (case output_msgs b of [] \<Rightarrow> [] | (_, m) # _ \<Rightarrow> drop (ob_index b) m), b)"
    using f by (simp add: get_buffer_def eff_apply bindE_apply whenE_apply)
  show ?thesis
  proof (cases "d = []")
    case True
    then have "b' = b"
      using assms(2) g by (auto simp: send_round_def eff_apply bindE_apply advance_sent_bytes_def tryE_apply
          split: if_splits sum.splits)
    with True assms(1) show ?thesis by (simp add: advance_bytes_def)
  next
    case False
    then obtain k m rest where m: "output_msgs b = (k, m) # rest" "d = drop (ob_index b) m"
      using assms(2) g by (auto simp: send_round_def eff_apply bindE_apply advance_sent_bytes_def tryE_apply
          split: if_splits sum.splits list.splits)
    with False have "0 < int (length d)" "int (ob_index b) + int (length d) \<le> int (length m)" by auto
    from follows_advance [OF assms(1) m(1) this, of now'] obtain b2 where
      b2: "advance_buffer (int (length d)) b = (Inr (), b2)" "follows (advance_bytes now' (int (length d)) t) b2" by blast
    have "b' = b2"
      using assms(2) g m False b2(1)
      by (simp add: send_round_def eff_apply bindE_apply advance_sent_bytes_def tryE_apply)
    with b2(2) show ?thesis by simp
  qed
qed


end
