(* ===== verification/Heapq.thy ===== *)
theory Heapq
  imports PyBase
begin

text \<open>
  Python's \<open>heapq\<close>, as far as the alarm queue of the bloXroute library uses it: \<open>heappush\<close> and
  \<open>heappop\<close> on a list, with the sifting loops of the standard library. The order is given by a key.
  The lemmas: both keep the heap order and the multiset of the items, and \<open>heappop\<close> returns a smallest item.
  The contract \<open>min_queue\<close> says what a user of a heap relies on.
\<close>

section \<open>Sifting\<close>

definition parent :: "nat \<Rightarrow> nat" where
  "parent i = (i - 1) div 2"

lemma parent_less: "0 < i \<Longrightarrow> parent i < i"
  by (auto simp: parent_def)

lemma parent_child: "0 < i \<Longrightarrow> parent i = j \<longleftrightarrow> i = 2 * j + 1 \<or> i = 2 * j + 2"
  by (auto simp: parent_def)

text \<open>\<open>_siftdown(heap, 0, pos)\<close>: the new item moves towards the root past larger parents.\<close>

function siftdown :: "('a \<Rightarrow> 'k::linorder) \<Rightarrow> 'a \<Rightarrow> 'a list \<Rightarrow> nat \<Rightarrow> 'a list" where
  "siftdown key new xs pos =
     (if 0 < pos \<and> key new < key (xs ! parent pos)
      then siftdown key new (xs[pos := xs ! parent pos]) (parent pos)
      else xs[pos := new])"
  by pat_completeness auto
termination
  by (relation "measure (\<lambda>(_, _, _, pos). pos)") (auto simp: parent_less)

declare siftdown.simps [simp del]

text \<open>\<open>_siftup(heap, 0)\<close>: the hole at \<open>pos\<close> moves to a leaf, always to the smaller child.\<close>

definition smaller_child :: "('a \<Rightarrow> 'k::linorder) \<Rightarrow> 'a list \<Rightarrow> nat \<Rightarrow> nat" where
  "smaller_child key xs pos =
     (let c = 2 * pos + 1
      in if c + 1 < length xs \<and> \<not> key (xs ! c) < key (xs ! (c + 1)) then c + 1 else c)"

function siftup :: "('a \<Rightarrow> 'k::linorder) \<Rightarrow> 'a \<Rightarrow> 'a list \<Rightarrow> nat \<Rightarrow> 'a list" where
  "siftup key new xs pos =
     (if 2 * pos + 1 < length xs
      then (let c = smaller_child key xs pos in siftup key new (xs[pos := xs ! c]) c)
      else siftdown key new xs pos)"
  by pat_completeness auto
termination
  by (relation "measure (\<lambda>(_, _, xs, pos). length xs - pos)") (auto simp: smaller_child_def Let_def)

declare siftup.simps [simp del]

definition heappush :: "('a \<Rightarrow> 'k::linorder) \<Rightarrow> 'a \<Rightarrow> 'a list \<Rightarrow> 'a list" where
  "heappush key x xs = siftdown key x (xs @ [x]) (length xs)"

definition heappop :: "('a \<Rightarrow> 'k::linorder) \<Rightarrow> 'a list \<Rightarrow> ('a \<times> 'a list) res" where
  "heappop key xs =
     (if xs = [] then Inl IndexError
      else (case butlast xs of
          [] \<Rightarrow> Inr (last xs, [])
        | x # rest \<Rightarrow> Inr (x, siftup key (last xs) (x # rest) 0)))"

section \<open>The heap order\<close>

definition is_heap :: "('a \<Rightarrow> 'k::linorder) \<Rightarrow> 'a list \<Rightarrow> bool" where
  "is_heap key xs \<longleftrightarrow> (\<forall>i < length xs. 0 < i \<longrightarrow> key (xs ! parent i) \<le> key (xs ! i))"

lemma is_heap_Nil [simp]: "is_heap key []"
  by (simp add: is_heap_def)

lemma is_heap_cong: "(\<And>x. x \<in> set xs \<Longrightarrow> key x = key' x) \<Longrightarrow> is_heap key xs = is_heap key' xs"
proof -
  assume k: "\<And>x. x \<in> set xs \<Longrightarrow> key x = key' x"
  have "key (xs ! i) = key' (xs ! i)" "key (xs ! parent i) = key' (xs ! parent i)" if "i < length xs" "0 < i" for i
    using that parent_less [of i] k by auto
  then show ?thesis unfolding is_heap_def by auto
qed

lemma heap_min:
  assumes "is_heap key xs" "i < length xs"
  shows "key (xs ! 0) \<le> key (xs ! i)"
  using assms(2)
proof (induction i rule: less_induct)
  case (less i)
  show ?case
  proof (cases "i = 0")
    case False
    then have "parent i < i" by (simp add: parent_less)
    with less have "key (xs ! 0) \<le> key (xs ! parent i)" by simp
    also have "\<dots> \<le> key (xs ! i)" using assms(1) less.prems False by (simp add: is_heap_def)
    finally show ?thesis .
  qed simp
qed

lemma is_heap_butlast: "is_heap key xs \<Longrightarrow> is_heap key (butlast xs)"
  unfolding is_heap_def
proof (intro allI impI)
  fix i assume h: "\<forall>i < length xs. 0 < i \<longrightarrow> key (xs ! parent i) \<le> key (xs ! i)" and i: "i < length (butlast xs)" "0 < i"
  then have "parent i < length (butlast xs)" using parent_less [of i] by linarith
  then show "key (butlast xs ! parent i) \<le> key (butlast xs ! i)" using h i by (simp add: nth_butlast)
qed

lemma length_siftdown [simp]: "length (siftdown key new xs pos) = length xs"
  by (induction key new xs pos rule: siftdown.induct) (subst siftdown.simps, auto)

lemma length_siftup [simp]: "length (siftup key new xs pos) = length xs"
  by (induction key new xs pos rule: siftup.induct) (subst siftup.simps, auto simp: Let_def)

lemma mset_siftdown: "pos < length xs \<Longrightarrow> mset (siftdown key new xs pos) = mset (xs[pos := new])"
proof (induction key new xs pos rule: siftdown.induct)
  case (1 key new xs pos)
  show ?case
  proof (cases "0 < pos \<and> key new < key (xs ! parent pos)")
    case True
    then have p: "parent pos < pos" by (simp add: parent_less)
    have "mset (siftdown key new xs pos) = mset ((xs[pos := xs ! parent pos])[parent pos := new])"
      using 1 True p by (subst siftdown.simps) simp
    also have "(xs[pos := xs ! parent pos])[parent pos := new] =
        (xs[pos := new])[pos := (xs[pos := new]) ! parent pos, parent pos := (xs[pos := new]) ! pos]"
      using 1(2) p by simp
    also have "mset \<dots> = mset (xs[pos := new])"
      using 1(2) p by (intro mset_swap) auto
    finally show ?thesis .
  qed (subst siftdown.simps, auto)
qed

text \<open>Heap order everywhere but between the new item at \<open>pos\<close> and its parent.\<close>

definition heap_above :: "('a \<Rightarrow> 'k::linorder) \<Rightarrow> nat \<Rightarrow> 'a list \<Rightarrow> bool" where
  "heap_above key pos ys \<longleftrightarrow>
     (\<forall>i < length ys. 0 < i \<longrightarrow> i \<noteq> pos \<longrightarrow> key (ys ! parent i) \<le> key (ys ! i)) \<and>
     (\<forall>i < length ys. 0 < i \<longrightarrow> 0 < pos \<longrightarrow> parent i = pos \<longrightarrow> key (ys ! parent pos) \<le> key (ys ! i))"

lemma siftdown_heap:
  "pos < length xs \<Longrightarrow> heap_above key pos (xs[pos := new]) \<Longrightarrow> is_heap key (siftdown key new xs pos)"
proof (induction key new xs pos rule: siftdown.induct)
  case (1 key new xs pos)
  define pp where "pp = parent pos"
  note above = 1(3) [unfolded heap_above_def]
  show ?case
  proof (cases "0 < pos \<and> key new < key (xs ! pp)")
    case True
    then have p: "pp < pos" unfolding pp_def by (simp add: parent_less)
    define zs where "zs = (xs[pos := xs ! pp])[pp := new]"
    have z: "zs ! pp = new" "zs ! pos = xs ! pp" "\<And>i. i \<noteq> pp \<Longrightarrow> i \<noteq> pos \<Longrightarrow> zs ! i = xs[pos := new] ! i" "length zs = length xs"
      using 1(2) p by (simp_all add: zs_def)
    have y: "xs[pos := new] ! pp = xs ! pp" using p by simp
    have le: "key (xs[pos := new] ! parent i) \<le> key (xs[pos := new] ! i)" if "i < length xs" "0 < i" "i \<noteq> pos" for i
      using above that by simp
    have ch: "key (xs ! pp) \<le> key (xs[pos := new] ! i)" if "i < length xs" "0 < i" "parent i = pos" for i
      using above that True y by (simp add: pp_def)
    have sib: "key (xs ! pp) \<le> key (xs[pos := new] ! i)" if "i < length xs" "0 < i" "parent i = pp" "i \<noteq> pos" for i
      using le [of i] that y by simp
    have "heap_above key pp zs"
      unfolding heap_above_def z(4)
    proof (intro conjI allI impI)
      fix i assume i: "i < length xs" "0 < i" "i \<noteq> pp"
      consider "i = pos" | "i \<noteq> pos" "parent i = pos" | "i \<noteq> pos" "parent i = pp" | "i \<noteq> pos" "parent i \<noteq> pos" "parent i \<noteq> pp" by blast
      then show "key (zs ! parent i) \<le> key (zs ! i)"
      proof cases
        case 1
        then show ?thesis using z True by (auto simp: pp_def [symmetric])
      next
        case 2
        then show ?thesis using z ch [of i] i by simp
      next
        case 3
        then have "key new \<le> key (xs[pos := new] ! i)" using sib [of i] i True by (meson less_imp_le order_trans)
        then show ?thesis using z i 3 by simp
      next
        case 4
        then show ?thesis using z i le [of i] by simp
      qed
    next
      fix i assume i: "i < length xs" "0 < i" "0 < pp" "parent i = pp"
      have q: "parent pp \<noteq> pp" "parent pp \<noteq> pos" using i(3) p parent_less [of pp] by linarith+
      have "key (zs ! parent pp) \<le> key (xs ! pp)"
        using le [of pp] z(3) [OF q] i 1(2) p y by simp
      moreover have "key (xs ! pp) \<le> key (zs ! i)"
      proof (cases "i = pos")
        case False
        moreover have "i \<noteq> pp" using i parent_less [of i] by linarith
        ultimately show ?thesis using sib [of i] i z by simp
      qed (simp add: z)
      ultimately show "key (zs ! parent pp) \<le> key (zs ! i)" by simp
    qed
    then have "is_heap key (siftdown key new (xs[pos := xs ! pp]) pp)"
      using 1(1) 1(2) True p by (simp add: pp_def zs_def)
    then show ?thesis using True by (subst siftdown.simps) (simp add: pp_def)
  next
    case False
    have "is_heap key (xs[pos := new])"
      unfolding is_heap_def
    proof (intro allI impI)
      fix i assume i: "i < length (xs[pos := new])" "0 < i"
      show "key (xs[pos := new] ! parent i) \<le> key (xs[pos := new] ! i)"
      proof (cases "i = pos")
        case True
        then have "parent i \<noteq> pos" using i parent_less [of i] by linarith
        then show ?thesis using False True i by (simp add: pp_def not_less)
      qed (use above i in simp)
    qed
    then show ?thesis using False by (subst siftdown.simps) (auto simp: pp_def)
  qed
qed

text \<open>Heap order everywhere but around the hole at \<open>pos\<close>.\<close>

definition heap_around :: "('a \<Rightarrow> 'k::linorder) \<Rightarrow> nat \<Rightarrow> 'a list \<Rightarrow> bool" where
  "heap_around key pos xs \<longleftrightarrow>
     (\<forall>i < length xs. 0 < i \<longrightarrow> i \<noteq> pos \<longrightarrow> parent i \<noteq> pos \<longrightarrow> key (xs ! parent i) \<le> key (xs ! i)) \<and>
     (\<forall>i < length xs. 0 < i \<longrightarrow> 0 < pos \<longrightarrow> parent i = pos \<longrightarrow> key (xs ! parent pos) \<le> key (xs ! i))"

lemma smaller_child:
  assumes "2 * pos + 1 < length xs"
  shows "smaller_child key xs pos < length xs" "parent (smaller_child key xs pos) = pos" "pos < smaller_child key xs pos"
    "\<And>i. i < length xs \<Longrightarrow> 0 < i \<Longrightarrow> parent i = pos \<Longrightarrow> key (xs ! smaller_child key xs pos) \<le> key (xs ! i)"
proof -
  have c: "smaller_child key xs pos \<in> {2 * pos + 1, 2 * pos + 2}" by (simp add: smaller_child_def Let_def)
  then show "pos < smaller_child key xs pos" by auto
  with c parent_child [of "smaller_child key xs pos" pos] show "parent (smaller_child key xs pos) = pos" by auto
  show "smaller_child key xs pos < length xs" using assms by (simp add: smaller_child_def Let_def)
  fix i assume "i < length xs" "0 < i" "parent i = pos"
  then have "i = 2 * pos + 1 \<or> i = 2 * pos + 2" "i < length xs" by (simp_all add: parent_child)
  then show "key (xs ! smaller_child key xs pos) \<le> key (xs ! i)"
    by (auto simp: smaller_child_def Let_def not_less)
qed

lemma mset_hole:
  assumes "pos < length xs" "c < length xs" "pos \<noteq> c"
  shows "mset ((xs[pos := xs ! c])[c := new]) = mset (xs[pos := new])"
proof -
  have "(xs[pos := xs ! c])[c := new] = (xs[pos := new])[pos := (xs[pos := new]) ! c, c := (xs[pos := new]) ! pos]"
    using assms by simp
  also have "mset \<dots> = mset (xs[pos := new])" using assms by (intro mset_swap) auto
  finally show ?thesis .
qed

lemma mset_siftup: "pos < length xs \<Longrightarrow> mset (siftup key new xs pos) = mset (xs[pos := new])"
proof (induction key new xs pos rule: siftup.induct)
  case (1 key new xs pos)
  show ?case
  proof (cases "2 * pos + 1 < length xs")
    case True
    note c = smaller_child [OF True, where key = key]
    have "mset (siftup key new xs pos) = mset ((xs[pos := xs ! smaller_child key xs pos])[smaller_child key xs pos := new])"
      using 1(1) [OF True refl] True c by (subst siftup.simps) (simp add: Let_def)
    also have "\<dots> = mset (xs[pos := new])" using 1(2) c by (intro mset_hole) auto
    finally show ?thesis .
  next
    case False
    then have "siftup key new xs pos = siftdown key new xs pos" by (subst siftup.simps) simp
    with 1(2) show ?thesis by (simp add: mset_siftdown)
  qed
qed

lemma siftup_heap: "pos < length xs \<Longrightarrow> heap_around key pos xs \<Longrightarrow> is_heap key (siftup key new xs pos)"
proof (induction key new xs pos rule: siftup.induct)
  case (1 key new xs pos)
  note around = 1(3) [unfolded heap_around_def]
  show ?case
  proof (cases "2 * pos + 1 < length xs")
    case True
    define c where "c = smaller_child key xs pos"
    note c = smaller_child [OF True, where key = key, folded c_def]
    define ys where "ys = xs[pos := xs ! c]"
    have y: "ys ! pos = xs ! c" "\<And>i. i \<noteq> pos \<Longrightarrow> ys ! i = xs ! i" "length ys = length xs"
      using 1(2) by (simp_all add: ys_def)
    have "heap_around key c ys"
      unfolding heap_around_def y(3)
    proof (intro conjI allI impI)
      fix i assume i: "i < length xs" "0 < i" "i \<noteq> c" "parent i \<noteq> c"
      consider "i = pos" | "i \<noteq> pos" "parent i = pos" | "i \<noteq> pos" "parent i \<noteq> pos" by blast
      then show "key (ys ! parent i) \<le> key (ys ! i)"
      proof cases
        case 1
        then have "parent pos \<noteq> pos" using i parent_less [of i] by simp
        moreover have "key (xs ! parent pos) \<le> key (xs ! c)" using around c 1 i by auto
        ultimately show ?thesis using 1 y by simp
      next
        case 2
        then show ?thesis using c(4) [OF i(1,2)] y by simp
      next
        case 3
        then show ?thesis using around i y by simp
      qed
    next
      fix i assume i: "i < length xs" "0 < i" "0 < c" "parent i = c"
      have "i \<noteq> pos" "parent i \<noteq> pos" using i c(3) parent_less [of i] by auto
      then show "key (ys ! parent c) \<le> key (ys ! i)" using around i y c by auto
    qed
    then have "is_heap key (siftup key new ys c)"
      using 1(1) [OF True refl] c by (simp add: c_def ys_def)
    then show ?thesis using True by (subst siftup.simps) (simp add: Let_def c_def ys_def)
  next
    case False
    have leaf: "parent i \<noteq> pos" if "0 < i" "i < length xs" for i
      using parent_child [OF that(1), of pos] that False by auto
    have "heap_above key pos (xs[pos := new])"
      unfolding heap_above_def
    proof (intro conjI allI impI)
      fix i assume i: "i < length (xs[pos := new])" "0 < i"
      have "parent i \<noteq> pos" using leaf i by simp
      moreover from this have "xs[pos := new] ! parent i = xs ! parent i" by simp
      moreover assume "i \<noteq> pos"
      ultimately show "key (xs[pos := new] ! parent i) \<le> key (xs[pos := new] ! i)" using around i by simp
    qed (use leaf in auto)
    with 1(2) have "is_heap key (siftdown key new xs pos)" by (rule siftdown_heap)
    then show ?thesis using False by (subst siftup.simps) simp
  qed
qed

lemma heap_around_root: "is_heap key xs \<Longrightarrow> heap_around key 0 xs"
  by (simp add: heap_around_def is_heap_def)

section \<open>Push and pop\<close>

lemma heappush_mset: "mset (heappush key x xs) = add_mset x (mset xs)"
  by (simp add: heappush_def mset_siftdown)

lemma heappush_set [simp]: "set (heappush key x xs) = insert x (set xs)"
proof -
  have "set_mset (mset (heappush key x xs)) = set_mset (add_mset x (mset xs))" by (simp only: heappush_mset)
  then show ?thesis by simp
qed

lemma heappush_heap:
  assumes "is_heap key xs"
  shows "is_heap key (heappush key x xs)"
  unfolding heappush_def
proof (rule siftdown_heap)
  have "parent i < length xs" if "i < length xs" "0 < i" for i using that parent_less [of i] by simp
  moreover have "parent i \<noteq> length xs" if "i < Suc (length xs)" "0 < i" for i using that parent_less [of i] by simp
  ultimately show "heap_above key (length xs) ((xs @ [x])[length xs := x])"
    using assms by (auto simp: heap_above_def is_heap_def nth_append less_Suc_eq)
qed simp

lemma heappop_Nil [simp]: "heappop key [] = Inl IndexError"
  by (simp add: heappop_def)

text \<open>Popping returns the item at the root, a smallest one, and keeps the others.\<close>

lemma heappop_run:
  assumes "is_heap key xs" "xs \<noteq> []"
  shows "\<exists>ys. heappop key xs = Inr (hd xs, ys) \<and> is_heap key ys \<and> mset xs = add_mset (hd xs) (mset ys)"
    and "\<forall>y \<in> set xs. key (hd xs) \<le> key y"
proof -
  show "\<forall>y \<in> set xs. key (hd xs) \<le> key y"
  proof
    fix y assume "y \<in> set xs"
    then obtain i where "i < length xs" "xs ! i = y" by (auto simp: in_set_conv_nth)
    with heap_min [OF assms(1)] assms(2) show "key (hd xs) \<le> key y" by (force simp: hd_conv_nth)
  qed
  show "\<exists>ys. heappop key xs = Inr (hd xs, ys) \<and> is_heap key ys \<and> mset xs = add_mset (hd xs) (mset ys)"
  proof (cases "butlast xs")
    case Nil
    then have "xs = [last xs]" using assms(2) by (metis append_Nil append_butlast_last_id)
    then obtain x where "xs = [x]" by metis
    then show ?thesis by (simp add: heappop_def)
  next
    case (Cons x rest)
    have xs: "xs = x # rest @ [last xs]" using assms(2) Cons by (metis append_Cons append_butlast_last_id)
    have h: "is_heap key (x # rest)" using is_heap_butlast [OF assms(1)] Cons by simp
    define ys where "ys = siftup key (last xs) (x # rest) 0"
    have "heap_around key 0 (x # rest)" by (rule heap_around_root [OF h])
    then have "is_heap key ys" unfolding ys_def by (intro siftup_heap) auto
    moreover have "mset ys = add_mset (last xs) (mset rest)" by (simp add: ys_def mset_siftup)
    moreover have "heappop key xs = Inr (x, ys)" using assms(2) Cons by (simp add: heappop_def ys_def)
    moreover have "hd xs = x" "mset xs = add_mset x (add_mset (last xs) (mset rest))"
      using arg_cong [OF xs, of hd] arg_cong [OF xs, of mset] by simp_all
    ultimately show ?thesis by simp
  qed
qed

text \<open>Whatever the order of the list, \<open>heappop\<close> takes its first item out.\<close>

lemma heappop_mset: "heappop key xs = Inr (x, ys) \<Longrightarrow> mset xs = add_mset x (mset ys) \<and> x = hd xs"
proof (cases "butlast xs")
  case Nil
  assume "heappop key xs = Inr (x, ys)"
  then show ?thesis using Nil by (cases xs) (auto simp: heappop_def split: if_splits)
next
  case (Cons y rest)
  assume h: "heappop key xs = Inr (x, ys)"
  then have ne: "xs \<noteq> []" by auto
  then have xs: "xs = y # rest @ [last xs]" using Cons by (metis append_Cons append_butlast_last_id)
  have "x = y" "ys = siftup key (last xs) (y # rest) 0" using h ne Cons by (auto simp: heappop_def)
  then have "mset ys = add_mset (last xs) (mset rest)" "x = y" by (simp_all add: mset_siftup)
  then show ?thesis using arg_cong [OF xs, of hd] arg_cong [OF xs, of mset] by simp
qed

lemma heappop_set: "heappop key xs = Inr (x, ys) \<Longrightarrow> set xs = insert x (set ys)"
  using heappop_mset [of key xs x ys] by (metis set_mset_add_mset_insert set_mset_mset)

section \<open>The contract of a queue that gives its least item first\<close>

fun drain :: "('q \<Rightarrow> ('a \<times> 'q) res) \<Rightarrow> nat \<Rightarrow> 'q \<Rightarrow> 'a list res" where
  "drain pop 0 q = Inr []"
| "drain pop (Suc n) q = bindR (pop q) (\<lambda>(x, q'). bindR (drain pop n q') (\<lambda>xs. Inr (x # xs)))"

locale min_queue =
  fixes ok :: "'q \<Rightarrow> bool" and items :: "'q \<Rightarrow> 'a multiset" and key :: "'a \<Rightarrow> 'k::linorder"
    and push :: "'a \<Rightarrow> 'q \<Rightarrow> 'q" and pop :: "'q \<Rightarrow> ('a \<times> 'q) res"
  assumes push_ok: "ok q \<Longrightarrow> ok (push x q) \<and> items (push x q) = add_mset x (items q)"
    and pop_ok: "ok q \<Longrightarrow> items q \<noteq> {#} \<Longrightarrow> \<exists>x q'. pop q = Inr (x, q') \<and> ok q' \<and> items q = add_mset x (items q') \<and>
      (\<forall>y \<in># items q'. key x \<le> key y)"
begin

lemma fold_push: "ok q \<Longrightarrow> ok (fold push xs q) \<and> items (fold push xs q) = items q + mset xs"
  by (induction xs arbitrary: q) (simp_all add: push_ok)

lemma drain_sorted:
  "ok q \<Longrightarrow> n = size (items q) \<Longrightarrow> \<exists>xs. drain pop n q = Inr xs \<and> mset xs = items q \<and> sorted (map key xs)"
proof (induction n arbitrary: q)
  case (Suc n)
  then have "items q \<noteq> {#}" by auto
  with pop_ok [OF Suc.prems(1)] obtain x q' where x: "pop q = Inr (x, q')" "ok q'" "items q = add_mset x (items q')"
    "\<forall>y \<in># items q'. key x \<le> key y" by blast
  with Suc obtain xs where "drain pop n q' = Inr xs" "mset xs = items q'" "sorted (map key xs)" by fastforce
  moreover from this x(4) have "\<forall>y \<in> set xs. key x \<le> key y" by (metis set_mset_mset)
  ultimately show ?case using x by auto
qed simp

end

interpretation heapq: min_queue "is_heap key" mset key "heappush key" "heappop key"
  for key :: "'a \<Rightarrow> 'k::linorder"
proof
  fix q and x :: 'a assume "is_heap key q"
  then show "is_heap key (heappush key x q) \<and> mset (heappush key x q) = add_mset x (mset q)"
    by (simp add: heappush_heap heappush_mset)
next
  fix q :: "'a list" assume q: "is_heap key q" "mset q \<noteq> {#}"
  then have ne: "q \<noteq> []" by auto
  from heappop_run [OF q(1) this] obtain ys where
    ys: "heappop key q = Inr (hd q, ys)" "is_heap key ys" "mset q = add_mset (hd q) (mset ys)" "\<forall>y \<in> set q. key (hd q) \<le> key y"
    by blast
  have "set q = insert (hd q) (set ys)" using arg_cong [OF ys(3), of set_mset] by simp
  with ys show "\<exists>x q'. heappop key q = Inr (x, q') \<and> is_heap key q' \<and> mset q = add_mset x (mset q') \<and>
      (\<forall>y \<in># mset q'. key x \<le> key y)" by auto
qed

end
