(* ===== verification/Alarms.thy ===== *)
theory Alarms
  imports Heapq PyFloat
begin

text \<open>
  The alarm queue of the bloXroute library (bxcommon/utils/alarm_queue.py). Alarm ids are objects that the
  heap of all alarms and the heaps of approximate alarms share: they live in a store and are named by
  their position in it, so that a changed fire time is seen through every reference. An entry holds the
  \<open>AlarmId\<close> with its \<open>Alarm\<close>. The clock (\<open>tick\<close>) and the functions of the alarms (\<open>call\<close>, which may use the
  queue) are parameters; functions are their names, so they are hashable and not None. Locking is left out,
  as one thread runs the event loop, and so are the log texts.
\<close>

section \<open>Alarms and the queue\<close>

record ('f, 'a) alarm_id =
  fire_time :: pyfloat
  al_count :: nat
  al_fn :: 'f
  al_args :: 'a
  alarm_fire_time :: pyfloat
  is_active :: bool

record ('f, 'a, 'w) alarm_queue =
  aq_ids :: "('f, 'a) alarm_id list"
  alarms :: "nat list"
  uniq_count :: nat
  approx_scheduled :: "('f, nat list) dict"
  aq_world :: 'w

type_synonym ('f, 'a, 'w, 'r) aq_eff = "(('f, 'a, 'w) alarm_queue, 'r) eff"
type_synonym 'w clock = "'w \<Rightarrow> pyfloat \<times> 'w"
type_synonym ('f, 'a, 'w) callback = "'f \<Rightarrow> 'a \<Rightarrow> ('f, 'a, 'w, pyfloat option) aq_eff"

definition AlarmQueue :: "'w \<Rightarrow> ('f, 'a, 'w) alarm_queue" where
  "AlarmQueue w = \<lparr>aq_ids = [], alarms = [], uniq_count = 0, approx_scheduled = [], aq_world = w\<rparr>"

text \<open>\<open>AlarmId.__lt__\<close> compares the fire times, and the counts of equal ones.\<close>

definition alarm_key :: "('f, 'a) alarm_id list \<Rightarrow> nat \<Rightarrow> pyfloat \<times> nat" where
  "alarm_key ids r = (fire_time (ids ! r), al_count (ids ! r))"

definition time_now :: "'w clock \<Rightarrow> ('f, 'a, 'w, pyfloat) aq_eff" where
  "time_now tick = (\<lambda>q. case tick (aq_world q) of (t, w) \<Rightarrow> (Inr t, q\<lparr>aq_world := w\<rparr>))"

definition id_of :: "nat \<Rightarrow> ('f, 'a, 'w, ('f, 'a) alarm_id) aq_eff" where
  "id_of r = getE (\<lambda>q. aq_ids q ! r)"

definition upd_id :: "nat \<Rightarrow> (('f, 'a) alarm_id \<Rightarrow> ('f, 'a) alarm_id) \<Rightarrow> ('f, 'a, 'w, unit) aq_eff" where
  "upd_id r f = modE (\<lambda>q. q\<lparr>aq_ids := (aq_ids q)[r := f (aq_ids q ! r)]\<rparr>)"

definition push_alarm :: "nat \<Rightarrow> ('f, 'a, 'w, unit) aq_eff" where
  "push_alarm r = modE (\<lambda>q. q\<lparr>alarms := heappush (alarm_key (aq_ids q)) r (alarms q)\<rparr>)"

definition pop_alarm :: "('f, 'a, 'w, nat) aq_eff" where
  "pop_alarm = bindE (getR (\<lambda>q. heappop (alarm_key (aq_ids q)) (alarms q))) (\<lambda>(r, rest).
     thenE (modE (\<lambda>q. q\<lparr>alarms := rest\<rparr>)) (returnE r))"

text \<open>\<open>Alarm.fire\<close> reads the clock for a warning, then calls the function.\<close>

definition fire :: "'w clock \<Rightarrow> ('f, 'a, 'w) callback \<Rightarrow> nat \<Rightarrow> ('f, 'a, 'w, pyfloat option) aq_eff" where
  "fire tick call r = bindE (time_now tick) (\<lambda>_. bindE (id_of r) (\<lambda>i. call (al_fn i) (al_args i)))"

definition new_id :: "pyfloat \<Rightarrow> pyfloat \<Rightarrow> 'f \<Rightarrow> 'a \<Rightarrow> ('f, 'a, 'w, nat) aq_eff" where
  "new_id alarm_time id_time fn args =
     bindE (getE (\<lambda>q. length (aq_ids q))) (\<lambda>r.
     thenE (modE (\<lambda>q. q\<lparr>aq_ids := aq_ids q @ [\<lparr>fire_time = id_time, al_count = uniq_count q, al_fn = fn, al_args = args,
         alarm_fire_time = alarm_time, is_active = True\<rparr>]\<rparr>))
       (returnE r))"

definition register_alarm ::
    "'w clock \<Rightarrow> ('f, 'a, 'w) callback \<Rightarrow> pyfloat \<Rightarrow> 'f \<Rightarrow> 'a \<Rightarrow> bool \<Rightarrow> ('f, 'a, 'w, nat) aq_eff" where
  "register_alarm tick call fire_delay fn args fire_immediately =
     thenE (liftR (guardR (0 \<le> fire_delay) ValueError))
    (bindE (time_now tick) (\<lambda>t1.
     bindE (time_now tick) (\<lambda>t2.
     bindE (new_id (fadd t1 fire_delay) (fadd t2 fire_delay) fn args) (\<lambda>r.
       if fire_immediately \<and> fire_delay = 0 then thenE (fire tick call r) (returnE r)
       else thenE (push_alarm r)
           (thenE (modE (\<lambda>q. q\<lparr>uniq_count := uniq_count q + 1\<rparr>)) (returnE r))))))"

definition push_approx :: "'f \<Rightarrow> nat list \<Rightarrow> nat \<Rightarrow> ('f, 'a, 'w, unit) aq_eff" where
  "push_approx fn heap r =
     modE (\<lambda>q. q\<lparr>approx_scheduled := dput fn (heappush (alarm_key (aq_ids q)) r heap) (approx_scheduled q)\<rparr>)"

definition register_approx_alarm ::
    "'w clock \<Rightarrow> ('f, 'a, 'w) callback \<Rightarrow> pyfloat \<Rightarrow> pyfloat \<Rightarrow> 'f \<Rightarrow> 'a \<Rightarrow> ('f, 'a, 'w, unit) aq_eff" where
  "register_approx_alarm tick call fire_delay slop fn args =
     thenE (liftR (guardR (0 \<le> fire_delay) ValueError))
    (thenE (liftR (guardR (0 \<le> slop) ValueError))
    (bindE (getE (\<lambda>q. dget (approx_scheduled q) fn)) (\<lambda>known. case known of
        None \<Rightarrow> bindE (register_alarm tick call fire_delay fn args False) (push_approx fn [])
      | Some heap \<Rightarrow>
          bindE (time_now tick) (\<lambda>now.
          let late_time = fadd (fadd fire_delay now) slop;
              early_time = fsub (fadd fire_delay now) slop
          in bindE (getE (\<lambda>q. \<exists>r \<in> set heap. early_time \<le> fire_time (aq_ids q ! r) \<and> fire_time (aq_ids q ! r) \<le> late_time)) (\<lambda>found.
             if found then returnE ()
             else bindE (register_alarm tick call fire_delay fn args False) (push_approx fn heap))))))"

text \<open>The loop of \<open>unregister_alarm\<close> pops cancelled alarms off the head of the heap.\<close>

lemma heappop_shorter: "heappop key xs = Inr (x, ys) \<Longrightarrow> length ys < length xs"
  by (cases "xs = []") (auto simp: heappop_def split: list.splits dest!: arg_cong [where f = length])

function drop_inactive :: "('f, 'a) alarm_id list \<Rightarrow> nat list \<Rightarrow> nat list" where
  "drop_inactive ids xs =
     (case xs of
        [] \<Rightarrow> []
      | r # _ \<Rightarrow>
          if is_active (ids ! r) then xs
          else (case heappop (alarm_key ids) xs of Inl _ \<Rightarrow> xs | Inr (_, ys) \<Rightarrow> drop_inactive ids ys))"
  by pat_completeness auto
termination
  by (relation "measure (\<lambda>(_, xs). length xs)") (auto dest: heappop_shorter)

declare drop_inactive.simps [simp del]

definition unregister_alarm :: "nat \<Rightarrow> ('f, 'a, 'w, unit) aq_eff" where
  "unregister_alarm r =
     thenE (upd_id r (\<lambda>i. i\<lparr>is_active := False\<rparr>))
       (modE (\<lambda>q. q\<lparr>alarms := drop_inactive (aq_ids q) (alarms q)\<rparr>))"

definition pop_and_cleanup_approx_alarm :: "nat \<Rightarrow> ('f, 'a, 'w, unit) aq_eff" where
  "pop_and_cleanup_approx_alarm r =
     bindE (id_of r) (\<lambda>i.
     bindE (getR (\<lambda>q. dgetR (approx_scheduled q) (al_fn i))) (\<lambda>alarm_heap.
     bindE (liftR (py_index alarm_heap 0)) (\<lambda>r0.
     bindE (id_of r0) (\<lambda>i0.
     thenE (liftR (guardR (al_count i0 = al_count i) AssertionError))
    (bindE (getR (\<lambda>q. heappop (alarm_key (aq_ids q)) alarm_heap)) (\<lambda>(_, rest).
       modE (\<lambda>q. q\<lparr>approx_scheduled :=
         (if rest = [] then ddel (al_fn i) (approx_scheduled q) else dput (al_fn i) rest (approx_scheduled q))\<rparr>)))))))"

definition cleanup_if_approx :: "nat \<Rightarrow> ('f, 'a, 'w, unit) aq_eff" where
  "cleanup_if_approx r =
     bindE (id_of r) (\<lambda>i.
     bindE (getE (\<lambda>q. dget (approx_scheduled q) (al_fn i) \<noteq> None)) (\<lambda>known.
       whenE known (pop_and_cleanup_approx_alarm r)))"

text \<open>One alarm taken off the heap: a cancelled one is skipped; one whose function raises is dropped;
  one whose function returns a positive delay is scheduled again under the same id.\<close>

definition run_alarm :: "'w clock \<Rightarrow> ('f, 'a, 'w) callback \<Rightarrow> nat \<Rightarrow> ('f, 'a, 'w, unit) aq_eff" where
  "run_alarm tick call r =
     bindE (id_of r) (\<lambda>i. whenE (is_active i)
       (bindE (tryE (bindE (time_now tick) (\<lambda>_. bindE (fire tick call r) (\<lambda>d. returnE (Some d))))
                 (\<lambda>_. thenE (cleanup_if_approx r) (returnE None))) (\<lambda>res.
        case res of
          None \<Rightarrow> returnE ()
        | Some next_delay \<Rightarrow>
            (case next_delay of
               None \<Rightarrow> cleanup_if_approx r
             | Some d \<Rightarrow>
                 if 0 < d then
                   bindE (time_now tick) (\<lambda>t.
                   thenE (upd_id r (\<lambda>i. i\<lparr>fire_time := fadd t d, alarm_fire_time := fadd t d\<rparr>)) (push_alarm r))
                 else cleanup_if_approx r))))"

partial_function (option) fire_loop ::
    "'w clock \<Rightarrow> ('f, 'a, 'w) callback \<Rightarrow> pyfloat \<Rightarrow> ('f, 'a, 'w) alarm_queue \<Rightarrow> (unit res \<times> ('f, 'a, 'w) alarm_queue) option" where
  "fire_loop tick call curr_time q =
     (if alarms q \<noteq> [] \<and> fire_time (aq_ids q ! hd (alarms q)) \<le> curr_time
      then (case bindE pop_alarm (run_alarm tick call) q of
          (Inl e, q') \<Rightarrow> Some (Inl e, q')
        | (Inr u, q') \<Rightarrow> fire_loop tick call curr_time q')
      else Some (Inr (), q))"

definition fire_alarms ::
    "'w clock \<Rightarrow> ('f, 'a, 'w) callback \<Rightarrow> ('f, 'a, 'w) alarm_queue \<Rightarrow> (unit res \<times> ('f, 'a, 'w) alarm_queue) option" where
  "fire_alarms tick call q =
     (if alarms q = [] then Some (Inr (), q)
      else (case tick (aq_world q) of (t, w) \<Rightarrow> fire_loop tick call t (q\<lparr>aq_world := w\<rparr>)))"

definition time_to_next_alarm :: "'w clock \<Rightarrow> ('f, 'a, 'w, pyfloat option) aq_eff" where
  "time_to_next_alarm tick =
     bindE (getE alarms) (\<lambda>l. case l of
         [] \<Rightarrow> returnE None
       | r # _ \<Rightarrow> bindE (id_of r) (\<lambda>i. bindE (time_now tick) (\<lambda>t. returnE (Some (fsub (fire_time i) t)))))"

partial_function (option) fire_ready_loop ::
    "'w clock \<Rightarrow> ('f, 'a, 'w) callback \<Rightarrow> pyfloat option \<Rightarrow> ('f, 'a, 'w) alarm_queue \<Rightarrow>
       (pyfloat option res \<times> ('f, 'a, 'w) alarm_queue) option" where
  "fire_ready_loop tick call next q =
     (case next of
        None \<Rightarrow> Some (Inr None, q)
      | Some t \<Rightarrow>
          if 0 < t then Some (Inr (Some t), q)
          else Option.bind (fire_alarms tick call q) (\<lambda>(r, q1). case r of
              Inl e \<Rightarrow> Some (Inl e, q1)
            | Inr u \<Rightarrow> (case time_to_next_alarm tick q1 of
                  (Inl e, q2) \<Rightarrow> Some (Inl e, q2)
                | (Inr next', q2) \<Rightarrow> fire_ready_loop tick call next' q2)))"

definition fire_ready_alarms ::
    "'w clock \<Rightarrow> ('f, 'a, 'w) callback \<Rightarrow> ('f, 'a, 'w) alarm_queue \<Rightarrow>
       (pyfloat option res \<times> ('f, 'a, 'w) alarm_queue) option" where
  "fire_ready_alarms tick call q =
     (case time_to_next_alarm tick q of
        (Inl e, q1) \<Rightarrow> Some (Inl e, q1)
      | (Inr next, q1) \<Rightarrow> fire_ready_loop tick call next q1)"

section \<open>The invariant\<close>

text \<open>
  The heap is ordered and has each id once; the ids on it and those in \<open>D\<close>, which are taken off and being
  run, have different counts below the next one; the heaps of approximate alarms are not empty.
\<close>

definition aq_inv :: "nat set \<Rightarrow> ('f, 'a, 'w) alarm_queue \<Rightarrow> bool" where
  "aq_inv D q \<longleftrightarrow> is_heap (alarm_key (aq_ids q)) (alarms q) \<and> distinct (alarms q) \<and> set (alarms q) \<inter> D = {} \<and>
     set (alarms q) \<union> D \<subseteq> {..< length (aq_ids q)} \<and> inj_on (\<lambda>r. al_count (aq_ids q ! r)) (set (alarms q) \<union> D) \<and>
     (\<forall>r \<in> set (alarms q) \<union> D. al_count (aq_ids q ! r) < uniq_count q) \<and>
     (\<forall>fn h. dget (approx_scheduled q) fn = Some h \<longrightarrow> h \<noteq> [] \<and> set h \<subseteq> {..< length (aq_ids q)})"

lemma AlarmQueue_inv: "aq_inv {} (AlarmQueue w)"
  by (simp add: aq_inv_def AlarmQueue_def)

lemma aq_inv_world [simp]: "aq_inv D (q\<lparr>aq_world := w\<rparr>) = aq_inv D q"
  by (simp add: aq_inv_def)

lemma aq_inv_weaken: "aq_inv (insert r D) q \<Longrightarrow> aq_inv D q"
  by (auto simp: aq_inv_def inj_on_def)

lemma keeps_time_now [keeps_intros]: "keeps (aq_inv D) (time_now tick)"
  by (auto simp: keeps_def time_now_def split: prod.splits)

lemma time_now_apply: "tick (aq_world q) = (t, w) \<Longrightarrow> time_now tick q = (Inr t, q\<lparr>aq_world := w\<rparr>)"
  by (simp add: time_now_def)

lemma keeps_id_of [keeps_intros]: "keeps P (id_of r)"
  unfolding id_of_def by (rule keeps_intros)

text \<open>Changing an id that is not on the heap keeps the order of the heap.\<close>

lemma heap_upd:
  assumes "is_heap (alarm_key ids) xs" "r \<notin> set xs"
  shows "is_heap (alarm_key (ids[r := i])) xs"
proof -
  have "alarm_key (ids[r := i]) x = alarm_key ids x" if "x \<in> set xs" for x
  proof -
    have "x \<noteq> r" using that assms(2) by auto
    then show ?thesis by (simp add: alarm_key_def)
  qed
  with assms(1) show ?thesis using is_heap_cong by metis
qed

lemma heap_append:
  assumes "is_heap (alarm_key ids) xs" "set xs \<subseteq> {..< length ids}"
  shows "is_heap (alarm_key (ids @ js)) xs"
proof -
  have "alarm_key (ids @ js) x = alarm_key ids x" if "x \<in> set xs" for x
    using that assms(2) by (auto simp: alarm_key_def nth_append)
  with assms(1) show ?thesis using is_heap_cong by metis
qed

lemma aq_inv_push:
  assumes "aq_inv (insert r D) q" "r \<notin> D"
  shows "aq_inv D (q\<lparr>alarms := heappush (alarm_key (aq_ids q)) r (alarms q)\<rparr>)"
proof -
  note i = assms(1) [unfolded aq_inv_def]
  have "distinct (heappush (alarm_key (aq_ids q)) r (alarms q))"
  proof -
    have "mset (heappush (alarm_key (aq_ids q)) r (alarms q)) = mset (r # alarms q)" by (simp add: heappush_mset)
    moreover have "distinct (r # alarms q)" using i by auto
    ultimately show ?thesis by (metis mset_eq_imp_distinct_iff)
  qed
  then show ?thesis using i assms(2) by (auto simp: aq_inv_def heappush_heap)
qed

lemma pop_alarm_run:
  assumes "aq_inv D q" "alarms q \<noteq> []"
  shows "\<exists>rest. pop_alarm q = (Inr (hd (alarms q)), q\<lparr>alarms := rest\<rparr>) \<and> aq_inv (insert (hd (alarms q)) D) (q\<lparr>alarms := rest\<rparr>) \<and>
     mset (alarms q) = add_mset (hd (alarms q)) (mset rest) \<and>
     (\<forall>r \<in> set rest. alarm_key (aq_ids q) (hd (alarms q)) < alarm_key (aq_ids q) r)"
proof -
  note i = assms(1) [unfolded aq_inv_def]
  let ?r = "hd (alarms q)"
  obtain rest where p: "heappop (alarm_key (aq_ids q)) (alarms q) = Inr (?r, rest)" "is_heap (alarm_key (aq_ids q)) rest"
    "mset (alarms q) = add_mset ?r (mset rest)"
    using heappop_run(1) [OF _ assms(2)] i by blast
  have min: "\<forall>r \<in> set (alarms q). alarm_key (aq_ids q) ?r \<le> alarm_key (aq_ids q) r"
    using heappop_run(2) [OF _ assms(2)] i by blast
  have s: "set (alarms q) = insert ?r (set rest)" using heappop_set [OF p(1)] .
  have d: "distinct (?r # rest)" using i p(3) by (metis mset.simps(2) mset_eq_imp_distinct_iff)
  have "aq_inv (insert ?r D) (q\<lparr>alarms := rest\<rparr>)"
  proof -
    have "set rest \<union> insert ?r D = set (alarms q) \<union> D" using s by auto
    moreover have "set rest \<inter> insert ?r D = {}" using i s d by auto
    ultimately show ?thesis using i p(2) d by (simp add: aq_inv_def)
  qed
  moreover have "alarm_key (aq_ids q) ?r < alarm_key (aq_ids q) r" if "r \<in> set rest" for r
  proof -
    have "al_count (aq_ids q ! ?r) \<noteq> al_count (aq_ids q ! r)"
      using i s d that by (auto simp: inj_on_def)
    then have "alarm_key (aq_ids q) ?r \<noteq> alarm_key (aq_ids q) r" by (simp add: alarm_key_def)
    with min s that show ?thesis by (simp add: order.not_eq_order_implies_strict)
  qed
  moreover have "pop_alarm q = (Inr ?r, q\<lparr>alarms := rest\<rparr>)"
    using p(1) by (simp add: pop_alarm_def eff_apply bindE_apply)
  ultimately show ?thesis using p(3) by blast
qed

lemma aq_inv_new:
  assumes "aq_inv D q"
  defines "r \<equiv> length (aq_ids q)"
  shows "aq_inv D (q\<lparr>aq_ids := aq_ids q @ [i]\<rparr>)"
    and "al_count i = uniq_count q \<Longrightarrow> aq_inv D (q\<lparr>aq_ids := aq_ids q @ [i],
       alarms := heappush (alarm_key (aq_ids q @ [i])) r (alarms q), uniq_count := uniq_count q + 1\<rparr>)"
proof -
  note h = assms(1) [unfolded aq_inv_def]
  have nth: "(aq_ids q @ [i]) ! x = aq_ids q ! x" if "x \<in> set (alarms q) \<union> D" for x
    using h that by (auto simp: nth_append)
  have a: "aq_inv D (q\<lparr>aq_ids := aq_ids q @ [i]\<rparr>)"
  proof -
    have "is_heap (alarm_key (aq_ids q @ [i])) (alarms q)" using h by (intro heap_append) auto
    moreover have "inj_on (\<lambda>x. al_count ((aq_ids q @ [i]) ! x)) (set (alarms q) \<union> D)"
      using h nth by (simp add: inj_on_def)
    moreover have "\<forall>x \<in> set (alarms q) \<union> D. al_count ((aq_ids q @ [i]) ! x) < uniq_count q" using h nth by simp
    moreover have "h' \<noteq> [] \<and> set h' \<subseteq> {..< Suc (length (aq_ids q))}" if "dget (approx_scheduled q) fn = Some h'" for fn h'
    proof -
      have "h' \<noteq> []" "set h' \<subseteq> {..< length (aq_ids q)}" using h that by blast+
      then show ?thesis by auto
    qed
    moreover have "set (alarms q) \<union> D \<subseteq> {..< Suc (length (aq_ids q))}" using h by auto
    ultimately show ?thesis using h unfolding aq_inv_def by simp
  qed
  then show "aq_inv D (q\<lparr>aq_ids := aq_ids q @ [i]\<rparr>)" .
  assume c: "al_count i = uniq_count q"
  have rD: "r \<notin> D" "r \<notin> set (alarms q)" using h by (auto simp: r_def)
  have "aq_inv (insert r D) (q\<lparr>aq_ids := aq_ids q @ [i], uniq_count := uniq_count q + 1\<rparr>)"
  proof -
    have n: "al_count ((aq_ids q @ [i]) ! r) = uniq_count q" by (simp add: r_def c)
    have lt: "\<forall>x \<in> set (alarms q) \<union> D. al_count ((aq_ids q @ [i]) ! x) < uniq_count q" using h nth by simp
    have "inj_on (\<lambda>x. al_count ((aq_ids q @ [i]) ! x)) (insert r (set (alarms q) \<union> D))"
    proof -
      have "\<forall>x \<in> set (alarms q) \<union> D. al_count ((aq_ids q @ [i]) ! x) \<noteq> uniq_count q"
        using lt by (intro ballI less_imp_neq) (rule bspec)
      with a n show ?thesis by (auto simp: inj_on_insert aq_inv_def)
    qed
    then show ?thesis using a n lt rD by (auto simp: aq_inv_def r_def less_Suc_eq)
  qed
  from aq_inv_push [OF this rD(1)] show "aq_inv D (q\<lparr>aq_ids := aq_ids q @ [i],
       alarms := heappush (alarm_key (aq_ids q @ [i])) r (alarms q), uniq_count := uniq_count q + 1\<rparr>)"
    by (simp add: aq_inv_def)
qed

lemma keeps_register [keeps_intros]:
  fixes call :: "('f, 'a, 'w) callback"
  assumes "\<And>fn a. keeps (aq_inv D) (call fn a)"
  shows "keeps (aq_inv D) (register_alarm tick call delay fn args imm)"
proof -
  define i where "i = (\<lambda>q :: ('f, 'a, 'w) alarm_queue. \<lambda>t1 t2. \<lparr>fire_time = t2, al_count = uniq_count q, al_fn = fn, al_args = args,
         alarm_fire_time = t1, is_active = True\<rparr>)"
  have body: "keeps (aq_inv D) (bindE (new_id t1 t2 fn args) (\<lambda>r.
       if imm \<and> delay = 0 then thenE (fire tick call r) (returnE r)
       else thenE (push_alarm r) (thenE (modE (\<lambda>q. q\<lparr>uniq_count := uniq_count q + 1\<rparr>)) (returnE r))))" for t1 t2
  proof (rule keepsI)
    fix q :: "('f, 'a, 'w) alarm_queue" assume q: "aq_inv D q"
    have n: "new_id t1 t2 fn args q = (Inr (length (aq_ids q)), q\<lparr>aq_ids := aq_ids q @ [i q t1 t2]\<rparr>)"
      by (simp add: new_id_def eff_apply bindE_apply i_def)
    show "aq_inv D (snd (bindE (new_id t1 t2 fn args) (\<lambda>r.
       if imm \<and> delay = 0 then thenE (fire tick call r) (returnE r)
       else thenE (push_alarm r) (thenE (modE (\<lambda>q. q\<lparr>uniq_count := uniq_count q + 1\<rparr>)) (returnE r))) q))"
    proof (cases "imm \<and> delay = 0")
      case True
      have "keeps (aq_inv D) (thenE (fire tick call (length (aq_ids q))) (returnE (length (aq_ids q))))"
        unfolding fire_def by (intro keeps_intros assms)
      from keepsD [OF this aq_inv_new(1) [OF q, of "i q t1 t2"]] True show ?thesis
        by (simp add: bindE_apply [of "new_id t1 t2 fn args"] n)
    next
      case False
      with aq_inv_new(2) [OF q, of "i q t1 t2"] show ?thesis
        by (simp add: bindE_apply eff_apply n push_alarm_def) (auto simp add: i_def)
    qed
  qed
  show ?thesis unfolding register_alarm_def
    by (rule keeps_thenE [OF keeps_basic(3)], rule keeps_bindE [OF keeps_time_now], rule keeps_bindE [OF keeps_time_now], rule body)
qed

lemma aq_inv_approx:
  assumes "aq_inv D q" "h \<noteq> []" "set h \<subseteq> {..< length (aq_ids q)}"
  shows "aq_inv D (q\<lparr>approx_scheduled := dput fn h (approx_scheduled q)\<rparr>)"
  using assms by (simp add: aq_inv_def)

lemma heappush_ne [simp]: "heappush key x xs \<noteq> []"
proof
  assume "heappush key x xs = []"
  with heappush_set [of key x xs] show False by simp
qed

lemma register_in_range:
  assumes "register_alarm tick call delay fn args False q = (Inr r, q')"
  shows "r < length (aq_ids q')" "approx_scheduled q' = approx_scheduled q" "length (aq_ids q) \<le> length (aq_ids q')"
  using assms
  by (auto simp: register_alarm_def time_now_def new_id_def push_alarm_def eff_apply bindE_apply guardR_def
      split: if_splits prod.splits)

lemma keeps_register_approx [keeps_intros]:
  fixes call :: "('f, 'a, 'w) callback"
  assumes "\<And>fn a. keeps (aq_inv D) (call fn a)"
  shows "keeps (aq_inv D) (register_approx_alarm tick call delay slop fn args)"
proof -
  have push: "keeps (\<lambda>q. aq_inv D q \<and> set heap \<subseteq> {..< length (aq_ids q)})
      (bindE (register_alarm tick call delay fn args False) (push_approx fn heap))" for heap
  proof (rule keepsI)
    fix q :: "('f, 'a, 'w) alarm_queue" assume q: "aq_inv D q \<and> set heap \<subseteq> {..< length (aq_ids q)}"
    obtain res q1 where r: "register_alarm tick call delay fn args False q = (res, q1)" by fastforce
    have "aq_inv D (snd (register_alarm tick call delay fn args False q))"
      using q by (intro keepsD [OF keeps_register] assms) simp
    then have i: "aq_inv D q1" using r by simp
    show "aq_inv D (snd (bindE (register_alarm tick call delay fn args False) (push_approx fn heap) q)) \<and>
        set heap \<subseteq> {..< length (aq_ids (snd (bindE (register_alarm tick call delay fn args False) (push_approx fn heap) q)))}"
    proof (cases res)
      case (Inl e)
      have "length (aq_ids q) \<le> length (aq_ids q1)"
        using r Inl by (auto simp: register_alarm_def time_now_def new_id_def push_alarm_def eff_apply bindE_apply guardR_def
            split: if_splits prod.splits)
      then show ?thesis using i q Inl r by (auto simp: bindE_apply)
    next
      case (Inr r')
      note rr = register_in_range [OF r [unfolded Inr]]
      have "set heap \<subseteq> {..< length (aq_ids q1)}" using q rr(3) by auto
      moreover have "aq_inv D (q1\<lparr>approx_scheduled := dput fn (heappush (alarm_key (aq_ids q1)) r' heap) (approx_scheduled q1)\<rparr>)"
        using i calculation rr(1) by (intro aq_inv_approx) auto
      ultimately show ?thesis using Inr r by (simp add: bindE_apply push_approx_def eff_apply)
    qed
  qed
  show ?thesis
  proof (rule keepsI)
    fix q :: "('f, 'a, 'w) alarm_queue" assume q: "aq_inv D q"
    show "aq_inv D (snd (register_approx_alarm tick call delay slop fn args q))"
    proof (cases "dget (approx_scheduled q) fn")
      case None
      then show ?thesis using keepsD [OF push [of "[]"], of q] q
        by (auto simp: register_approx_alarm_def bindE_apply [of "getE _"] bindE_apply [of "liftR _"] eff_apply guardR_def)
    next
      case (Some heap)
      then have h: "set heap \<subseteq> {..< length (aq_ids q)}" using q by (auto simp: aq_inv_def)
      obtain t w where t: "tick (aq_world q) = (t, w)" by fastforce
      have "aq_inv D (q\<lparr>aq_world := w\<rparr>) \<and> set heap \<subseteq> {..< length (aq_ids (q\<lparr>aq_world := w\<rparr>))}" using q h by simp
      from keepsD [OF push [of heap] this] q show ?thesis
        by (auto simp: register_approx_alarm_def bindE_apply [of "getE _"] bindE_apply [of "liftR _"] eff_apply guardR_def
            Some bindE_apply [of "time_now _"] time_now_apply [of tick q t w] t Let_def)
    qed
  qed
qed

lemma drop_inactive_run:
  assumes "is_heap (alarm_key ids) xs" "distinct xs"
  shows "is_heap (alarm_key ids) (drop_inactive ids xs) \<and> distinct (drop_inactive ids xs) \<and> set (drop_inactive ids xs) \<subseteq> set xs \<and>
    (\<forall>r \<in> set xs - set (drop_inactive ids xs). \<not> is_active (ids ! r)) \<and>
    (drop_inactive ids xs = [] \<or> is_active (ids ! hd (drop_inactive ids xs)))"
  using assms
proof (induction ids xs rule: drop_inactive.induct)
  case (1 ids xs)
  show ?case
  proof (cases "xs = [] \<or> is_active (ids ! hd xs)")
    case True
    then have "drop_inactive ids xs = xs" by (subst drop_inactive.simps) (auto split: list.splits)
    with 1 True show ?thesis by auto
  next
    case False
    then obtain x xs' where xs: "xs = x # xs'" "\<not> is_active (ids ! x)" by (cases xs) auto
    obtain ys where p: "heappop (alarm_key ids) xs = Inr (x, ys)" "is_heap (alarm_key ids) ys" "mset xs = add_mset x (mset ys)"
      using heappop_run(1) [OF 1(2)] xs by auto
    have d: "distinct (x # ys)" using 1(3) p(3) by (metis mset.simps(2) mset_eq_imp_distinct_iff)
    have s: "set xs = insert x (set ys)" using heappop_set [OF p(1)] .
    have e: "drop_inactive ids xs = drop_inactive ids ys"
      using xs p(1) by (subst drop_inactive.simps) simp
    from 1(1) [OF xs(1) xs(2) p(1) refl p(2)] d have "is_heap (alarm_key ids) (drop_inactive ids ys) \<and>
        distinct (drop_inactive ids ys) \<and> set (drop_inactive ids ys) \<subseteq> set ys \<and>
        (\<forall>r \<in> set ys - set (drop_inactive ids ys). \<not> is_active (ids ! r)) \<and>
        (drop_inactive ids ys = [] \<or> is_active (ids ! hd (drop_inactive ids ys)))" by simp
    then show ?thesis using s xs(2) by (auto simp: e)
  qed
qed

lemma alarm_key_upd: "fire_time (f (ids ! r)) = fire_time (ids ! r) \<Longrightarrow> al_count (f (ids ! r)) = al_count (ids ! r) \<Longrightarrow>
    alarm_key (ids[r := f (ids ! r)]) = alarm_key ids"
  by (rule ext, rename_tac x, case_tac "x = r"; case_tac "r < length ids") (auto simp: alarm_key_def list_update_beyond not_less)

lemma count_upd: "al_count (f (ids ! r)) = al_count (ids ! r) \<Longrightarrow> al_count (ids[r := f (ids ! r)] ! x) = al_count (ids ! x)"
  by (cases "x = r"; cases "r < length ids") (auto simp: list_update_beyond not_less)

lemma aq_inv_upd:
  assumes "aq_inv D q" "\<And>i. al_count (f i) = al_count i" "r \<notin> set (alarms q) \<or> (\<forall>i. fire_time (f i) = fire_time i)"
  shows "aq_inv D (q\<lparr>aq_ids := (aq_ids q)[r := f (aq_ids q ! r)]\<rparr>)"
proof -
  have "is_heap (alarm_key ((aq_ids q)[r := f (aq_ids q ! r)])) (alarms q)"
    using assms(3)
  proof
    assume "r \<notin> set (alarms q)"
    with assms(1) show ?thesis by (intro heap_upd) (auto simp: aq_inv_def)
  next
    assume "\<forall>i. fire_time (f i) = fire_time i"
    with assms(1,2) show ?thesis by (simp add: alarm_key_upd aq_inv_def)
  qed
  with assms(1) show ?thesis by (simp add: aq_inv_def count_upd [of f] assms(2))
qed

lemma aq_inv_subset:
  assumes "aq_inv D q" "is_heap (alarm_key (aq_ids q)) ys" "distinct ys" "set ys \<subseteq> set (alarms q)"
  shows "aq_inv D (q\<lparr>alarms := ys\<rparr>)"
proof -
  have "inj_on (\<lambda>r. al_count (aq_ids q ! r)) (set ys \<union> D)"
  proof (rule inj_on_subset)
    show "inj_on (\<lambda>r. al_count (aq_ids q ! r)) (set (alarms q) \<union> D)" using assms(1) by (simp add: aq_inv_def)
    show "set ys \<union> D \<subseteq> set (alarms q) \<union> D" using assms(4) by blast
  qed
  moreover have "set ys \<inter> D = {}" "set ys \<union> D \<subseteq> {..< length (aq_ids q)}"
    "\<forall>r \<in> set ys \<union> D. al_count (aq_ids q ! r) < uniq_count q"
  proof -
    have a: "set (alarms q) \<inter> D = {}" "set (alarms q) \<union> D \<subseteq> {..< length (aq_ids q)}"
      "\<forall>r \<in> set (alarms q) \<union> D. al_count (aq_ids q ! r) < uniq_count q"
      using assms(1) by (simp_all add: aq_inv_def)
    show "set ys \<inter> D = {}" using a(1) assms(4) by blast
    show "set ys \<union> D \<subseteq> {..< length (aq_ids q)}" using a(2) assms(4) by blast
    show "\<forall>r \<in> set ys \<union> D. al_count (aq_ids q ! r) < uniq_count q" using a(3) assms(4) by blast
  qed
  ultimately show ?thesis using assms(1-3) unfolding aq_inv_def by simp
qed

lemma keeps_unregister [keeps_intros]: "keeps (aq_inv D) (unregister_alarm r :: ('f, 'a, 'w, unit) aq_eff)"
proof (rule keepsI)
  fix q :: "('f, 'a, 'w) alarm_queue" assume q: "aq_inv D q"
  define q1 where "q1 = q\<lparr>aq_ids := (aq_ids q)[r := (aq_ids q ! r)\<lparr>is_active := False\<rparr>]\<rparr>"
  have i: "aq_inv D q1" unfolding q1_def by (rule aq_inv_upd [OF q]) auto
  have "aq_inv D (q1\<lparr>alarms := drop_inactive (aq_ids q1) (alarms q1)\<rparr>)"
    using i drop_inactive_run [of "aq_ids q1" "alarms q1"] by (intro aq_inv_subset) (auto simp: aq_inv_def)
  then show "aq_inv D (snd (unregister_alarm r q))"
    by (simp add: unregister_alarm_def upd_id_def eff_apply bindE_apply q1_def)
qed

lemma keeps_pop_and_cleanup [keeps_intros]: "keeps (aq_inv D) (pop_and_cleanup_approx_alarm r :: ('f, 'a, 'w, unit) aq_eff)"
proof (rule keepsI)
  fix q :: "('f, 'a, 'w) alarm_queue" assume q: "aq_inv D q"
  have "snd (pop_and_cleanup_approx_alarm r q) = q \<or>
      (\<exists>fn h x rest. dget (approx_scheduled q) fn = Some h \<and> heappop (alarm_key (aq_ids q)) h = Inr (x, rest) \<and>
         snd (pop_and_cleanup_approx_alarm r q) =
           q\<lparr>approx_scheduled := (if rest = [] then ddel fn (approx_scheduled q) else dput fn rest (approx_scheduled q))\<rparr>)"
    unfolding pop_and_cleanup_approx_alarm_def id_of_def
    by (fastforce simp: eff_apply bindE_apply guardR_def split: sum.splits prod.splits)
  then show "aq_inv D (snd (pop_and_cleanup_approx_alarm r q))"
  proof (elim disjE exE conjE)
    fix fn h x rest
    assume h: "dget (approx_scheduled q) fn = Some h" "heappop (alarm_key (aq_ids q)) h = Inr (x, rest)" and
      s: "snd (pop_and_cleanup_approx_alarm r q) =
           q\<lparr>approx_scheduled := (if rest = [] then ddel fn (approx_scheduled q) else dput fn rest (approx_scheduled q))\<rparr>"
    have "set rest \<subseteq> set h" using heappop_set [OF h(2)] by auto
    also have "set h \<subseteq> {..< length (aq_ids q)}" using q h(1) by (auto simp: aq_inv_def)
    finally have "set rest \<subseteq> {..< length (aq_ids q)}" .
    then show "aq_inv D (snd (pop_and_cleanup_approx_alarm r q))" unfolding s using q by (simp add: aq_inv_def)
  qed (use q in simp)
qed

lemma keeps_cleanup_if_approx [keeps_intros]: "keeps (aq_inv D) (cleanup_if_approx r)"
  unfolding cleanup_if_approx_def by (intro keeps_intros)

lemma run_alarm_inv:
  fixes call :: "('f, 'a, 'w) callback"
  assumes call: "\<And>fn a. keeps (aq_inv (insert r D)) (call fn a)" and q: "aq_inv (insert r D) q" "r \<notin> D"
  shows "aq_inv D (snd (run_alarm tick call r q))"
proof (cases "is_active (aq_ids q ! r)")
  case True
  define m :: "('f, 'a, 'w, pyfloat option option) aq_eff" where
    "m = tryE (bindE (time_now tick) (\<lambda>_. bindE (fire tick call r) (\<lambda>d. returnE (Some d))))
                 (\<lambda>_. thenE (cleanup_if_approx r) (returnE None))"
  have "keeps (aq_inv (insert r D)) m"
    unfolding m_def fire_def by (intro keeps_intros call)
  then have i: "aq_inv (insert r D) (snd (m q))" using q(1) by (rule keepsD)
  obtain res q1 where m: "m q = (res, q1)" by fastforce
  have i1: "aq_inv (insert r D) q1" using i m by simp
  have c: "aq_inv D (snd (cleanup_if_approx r q1))"
    using keepsD [OF keeps_cleanup_if_approx i1] by (rule aq_inv_weaken)
  show ?thesis
  proof (cases "\<exists>d. res = Inr (Some (Some d)) \<and> 0 < d")
    case False
    then have "snd (run_alarm tick call r q) \<in> {q1, snd (cleanup_if_approx r q1)}"
      using True m unfolding run_alarm_def m_def [symmetric] id_of_def
      by (auto simp: eff_apply bindE_apply whenE_apply split: sum.splits option.splits)
    with c aq_inv_weaken [OF i1] show ?thesis by auto
  next
    case d: True
    then obtain d where d: "res = Inr (Some (Some d))" "0 < d" by blast
    obtain t w where t: "tick (aq_world q1) = (t, w)" by fastforce
    define q2 where "q2 = q1\<lparr>aq_world := w, aq_ids := (aq_ids q1)[r := (aq_ids q1 ! r)\<lparr>fire_time := fadd t d, alarm_fire_time := fadd t d\<rparr>]\<rparr>"
    have "r \<notin> set (alarms q1)" using i1 by (auto simp: aq_inv_def)
    then have "aq_inv (insert r D) q2"
      using aq_inv_upd [of "insert r D" "q1\<lparr>aq_world := w\<rparr>" "\<lambda>i. i\<lparr>fire_time := fadd t d, alarm_fire_time := fadd t d\<rparr>" r] i1
      by (simp add: q2_def)
    from aq_inv_push [OF this q(2)] show ?thesis
      using True m d t unfolding run_alarm_def m_def [symmetric] id_of_def
      by (simp add: eff_apply bindE_apply whenE_apply time_now_apply [of tick q1 t w, OF t] upd_id_def push_alarm_def q2_def)
  qed
next
  case False
  with aq_inv_weaken [OF q(1)] show ?thesis by (simp add: run_alarm_def id_of_def eff_apply bindE_apply whenE_apply)
qed

section \<open>Firing\<close>

lemma pop_run_inv:
  fixes call :: "('f, 'a, 'w) callback"
  assumes call: "\<And>r fn a. keeps (aq_inv (insert r D)) (call fn a)" and q: "aq_inv D q" "alarms q \<noteq> []"
  shows "aq_inv D (snd (bindE pop_alarm (run_alarm tick call) q))"
proof -
  obtain rest where p: "pop_alarm q = (Inr (hd (alarms q)), q\<lparr>alarms := rest\<rparr>)" "aq_inv (insert (hd (alarms q)) D) (q\<lparr>alarms := rest\<rparr>)"
    using pop_alarm_run [OF q] by blast
  have "hd (alarms q) \<in> set (alarms q)" using q(2) by simp
  then have "hd (alarms q) \<notin> D" using q(1) unfolding aq_inv_def by blast
  from run_alarm_inv [OF call p(2) this] p(1) show ?thesis by (simp add: bindE_apply)
qed

lemma fire_loop_inv:
  assumes "fire_loop tick call now q = Some y" "\<forall>r fn a. keeps (aq_inv (insert r D)) (call fn a)" "aq_inv D q"
  shows "aq_inv D (snd y) \<and> (fst y = Inr () \<longrightarrow> (\<forall>r \<in> set (alarms (snd y)). now < fire_time (aq_ids (snd y) ! r)))"
proof -
  have "(\<forall>r fn a. keeps (aq_inv (insert r D)) (call fn a)) \<longrightarrow> aq_inv D q \<longrightarrow>
      aq_inv D (snd y) \<and> (fst y = Inr () \<longrightarrow> (\<forall>r \<in> set (alarms (snd y)). now < fire_time (aq_ids (snd y) ! r)))"
    using assms(1)
  proof (rule fire_loop.raw_induct [rotated], intro impI)
    fix loop tick call now q y
    assume IH: "\<And>tick call now q y. loop tick call now q = Some y \<Longrightarrow>
        (\<forall>r fn a. keeps (aq_inv (insert r D)) (call fn a)) \<longrightarrow> aq_inv D q \<longrightarrow>
        aq_inv D (snd y) \<and> (fst y = Inr () \<longrightarrow> (\<forall>r \<in> set (alarms (snd y)). now < fire_time (aq_ids (snd y) ! r)))"
      and run: "(if alarms q \<noteq> [] \<and> fire_time (aq_ids q ! hd (alarms q)) \<le> now
          then case bindE pop_alarm (run_alarm tick call) q of
               (Inl e, q') \<Rightarrow> Some (Inl e, q')
             | (Inr u, q') \<Rightarrow> loop tick call now q'
          else Some (Inr (), q)) = Some y"
      and call: "\<forall>r fn a. keeps (aq_inv (insert r D)) (call fn a)" and q: "aq_inv D q"
    show "aq_inv D (snd y) \<and> (fst y = Inr () \<longrightarrow> (\<forall>r \<in> set (alarms (snd y)). now < fire_time (aq_ids (snd y) ! r)))"
    proof (cases "alarms q \<noteq> [] \<and> fire_time (aq_ids q ! hd (alarms q)) \<le> now")
      case True
      obtain res q1 where r: "bindE pop_alarm (run_alarm tick call) q = (res, q1)" by fastforce
      have i: "aq_inv D q1" using pop_run_inv [of D call q tick] call q True r by simp
      show ?thesis using run True r IH [of tick call now q1 y] call i by (cases res) auto
    next
      case False
      have "now < fire_time (aq_ids q ! r)" if r: "r \<in> set (alarms q)" for r
      proof -
        have "alarm_key (aq_ids q) (hd (alarms q)) \<le> alarm_key (aq_ids q) r"
        proof -
          have "is_heap (alarm_key (aq_ids q)) (alarms q)" "alarms q \<noteq> []" using q r by (auto simp: aq_inv_def)
          from heappop_run(2) [OF this] r show ?thesis by blast
        qed
        then have "fire_time (aq_ids q ! hd (alarms q)) \<le> fire_time (aq_ids q ! r)" by (auto simp: alarm_key_def)
        with False r show ?thesis by auto
      qed
      with False run q show ?thesis by auto
    qed
  qed
  with assms(2,3) show ?thesis by blast
qed


subsection \<open>Alarms that fire once\<close>

text \<open>Functions that do not touch the queue and ask for no other run.\<close>

definition one_shot :: "('f \<Rightarrow> 'a \<Rightarrow> 'w \<Rightarrow> 'w) \<Rightarrow> ('f, 'a, 'w) callback" where
  "one_shot act fn a = (\<lambda>q. (Inr None, q\<lparr>aq_world := act fn a (aq_world q)\<rparr>))"

text \<open>What running one alarm does to the world: nothing when it is cancelled.\<close>

definition fired :: "'w clock \<Rightarrow> ('f \<Rightarrow> 'a \<Rightarrow> 'w \<Rightarrow> 'w) \<Rightarrow> ('f, 'a) alarm_id list \<Rightarrow> nat \<Rightarrow> 'w \<Rightarrow> 'w" where
  "fired tick act ids r w =
     (if is_active (ids ! r) then act (al_fn (ids ! r)) (al_args (ids ! r)) (snd (tick (snd (tick w)))) else w)"

lemma run_one_shot:
  assumes "approx_scheduled q = []"
  shows "run_alarm tick (one_shot act) r q = (Inr (), q\<lparr>aq_world := fired tick act (aq_ids q) r (aq_world q)\<rparr>)"
proof -
  obtain t1 w1 where t1: "tick (aq_world q) = (t1, w1)" by fastforce
  obtain t2 w2 where t2: "tick w1 = (t2, w2)" by fastforce
  show ?thesis
    using assms t1 t2
    by (simp add: run_alarm_def id_of_def fire_def time_now_def one_shot_def cleanup_if_approx_def fired_def
        eff_apply bindE_apply whenE_apply tryE_apply)
qed

lemma fire_loop_one_shot:
  assumes "aq_inv {} q" "approx_scheduled q = []"
  shows "\<exists>rs rest. fire_loop tick (one_shot act) now q =
      Some (Inr (), q\<lparr>alarms := rest, aq_world := fold (fired tick act (aq_ids q)) rs (aq_world q)\<rparr>) \<and>
    mset (alarms q) = mset rs + mset rest \<and> sorted_wrt (\<lambda>x y. alarm_key (aq_ids q) x < alarm_key (aq_ids q) y) rs \<and>
    (\<forall>r \<in> set rs. fire_time (aq_ids q ! r) \<le> now) \<and> (\<forall>r \<in> set rest. now < fire_time (aq_ids q ! r))"
  using assms
proof (induction "length (alarms q)" arbitrary: q)
  case 0
  then show ?case by (intro exI [of _ "[]"]) (subst fire_loop.simps, simp)
next
  case (Suc n)
  let ?ids = "aq_ids q" and ?r = "hd (alarms q)"
  have ne: "alarms q \<noteq> []" using Suc.hyps(2) by auto
  obtain rest where p: "pop_alarm q = (Inr ?r, q\<lparr>alarms := rest\<rparr>)" "aq_inv (insert ?r {}) (q\<lparr>alarms := rest\<rparr>)"
    "mset (alarms q) = add_mset ?r (mset rest)" "\<forall>x \<in> set rest. alarm_key ?ids ?r < alarm_key ?ids x"
    using pop_alarm_run [OF Suc.prems(1) ne] by blast
  show ?case
  proof (cases "fire_time (?ids ! ?r) \<le> now")
    case True
    define q1 where "q1 = q\<lparr>alarms := rest, aq_world := fired tick act ?ids ?r (aq_world q)\<rparr>"
    have "size (mset (alarms q)) = Suc (size (mset rest))" unfolding p(3) by simp
    then have "n = length (alarms q1)" using Suc.hyps(2) by (simp add: q1_def)
    moreover have "aq_inv {} q1" using aq_inv_weaken [OF p(2)] by (simp add: q1_def)
    moreover have "approx_scheduled q1 = []" using Suc.prems(2) by (simp add: q1_def)
    ultimately obtain rs rest' where IH: "fire_loop tick (one_shot act) now q1 =
        Some (Inr (), q1\<lparr>alarms := rest', aq_world := fold (fired tick act ?ids) rs (aq_world q1)\<rparr>)"
      "mset rest = mset rs + mset rest'" "sorted_wrt (\<lambda>x y. alarm_key ?ids x < alarm_key ?ids y) rs"
      "\<forall>r \<in> set rs. fire_time (?ids ! r) \<le> now" "\<forall>r \<in> set rest'. now < fire_time (?ids ! r)"
      using Suc.hyps(1) [of q1] by (auto simp: q1_def)
    have step: "bindE pop_alarm (run_alarm tick (one_shot act)) q = (Inr (), q1)"
      using p(1) run_one_shot [of "q\<lparr>alarms := rest\<rparr>" tick act ?r] Suc.prems(2) by (simp add: bindE_apply q1_def)
    have "set rs \<subseteq> set rest" using IH(2) by (metis set_mset_mset set_mset_union Un_upper1)
    then have "sorted_wrt (\<lambda>x y. alarm_key ?ids x < alarm_key ?ids y) (?r # rs)" using IH(3) p(4) by auto
    moreover have "fire_loop tick (one_shot act) now q =
        Some (Inr (), q\<lparr>alarms := rest', aq_world := fold (fired tick act ?ids) (?r # rs) (aq_world q)\<rparr>)"
      using True ne step IH(1) by (subst fire_loop.simps) (simp add: q1_def)
    moreover have "mset (alarms q) = mset (?r # rs) + mset rest'" using p(3) IH(2) by simp
    ultimately show ?thesis using True IH(4,5) by (intro exI [of _ "?r # rs"] exI [of _ rest']) simp
  next
    case False
    have "now < fire_time (?ids ! r)" if "r \<in> set (alarms q)" for r
    proof -
      have "set (alarms q) = insert ?r (set rest)" using arg_cong [OF p(3), of set_mset] by simp
      then have "alarm_key ?ids ?r \<le> alarm_key ?ids r" using that p(4) by auto
      then have "fire_time (?ids ! ?r) \<le> fire_time (?ids ! r)" by (auto simp: alarm_key_def)
      with False show ?thesis by simp
    qed
    then show ?thesis using False
      by (intro exI [of _ "[]"] exI [of _ "alarms q"]) (subst fire_loop.simps, simp)
  qed
qed


text \<open>
  An approximate alarm that asks to be run again keeps its place in the heap of its function, although its
  fire time has changed there as well. When the next alarm of the function is done first, the clean-up finds another
  alarm at the head of that heap.
\<close>


end
