(* ===== verification/Containers.thy ===== *)
theory Containers
  imports PyFloat
begin

text \<open>
  The containers of the bloXroute library: the priority queue (utils/collections/priority_queue.py), the
  queue of expiring items (utils/expiration_queue.py) and the containers of limited size (utils/limited_size_set.py,
  utils/limited_size_dict.py). The clock is an argument of the operations that read it, and the priority of
  an object is a function of the object and of the state of the program (\<open>'w\<close>) at the time it is asked for.
\<close>

section \<open>The priority queue\<close>

datatype ('w, 'a, 'p) object_priority = ObjectPriority (op_get: "'w \<Rightarrow> 'a \<Rightarrow> 'p") (op_obj: 'a)

definition get_priority :: "'w \<Rightarrow> ('w, 'a, 'p) object_priority \<Rightarrow> 'p" where
  "get_priority w item = op_get item w (op_obj item)"

record ('w, 'a, 'p) priority_queue =
  items_dict :: "('a, ('w, 'a, 'p) object_priority) dict"
  items_tracker :: "('a, ('w, 'a, 'p) object_priority) dict"
  is_reversed :: bool

type_synonym ('w, 'a, 'p, 'r) pq_eff = "(('w, 'a, 'p) priority_queue, 'r) eff"

definition PriorityQueue :: "bool \<Rightarrow> ('w, 'a, 'p) priority_queue" where
  "PriorityQueue r = \<lparr>items_dict = [], items_tracker = [], is_reversed = r\<rparr>"

definition pq_add :: "('w, 'a, 'p) object_priority \<Rightarrow> ('w, 'a, 'p, unit) pq_eff" where
  "pq_add item =
     bindE (getE (\<lambda>q. dget (items_tracker q) (op_obj item) = None)) (\<lambda>new.
       if new then modE (\<lambda>q. q\<lparr>items_tracker := dput (op_obj item) item (items_tracker q),
           items_dict := dput (op_obj item) item (items_dict q)\<rparr>)
       else raiseE ValueError)"

definition pq_push :: "'a \<Rightarrow> ('w, 'a, 'p, unit) pq_eff" where
  "pq_push obj =
     bindE (getE (\<lambda>q. dget (items_tracker q) obj)) (\<lambda>known. case known of
         Some item \<Rightarrow> modE (\<lambda>q. if dget (items_dict q) obj = None then q\<lparr>items_dict := dput obj item (items_dict q)\<rparr> else q)
       | None \<Rightarrow> raiseE ValueError)"

text \<open>The KeyError of a missing key is swallowed, and the second deletion is skipped with it.\<close>

definition pq_remove :: "'a \<Rightarrow> ('w, 'a, 'p, unit) pq_eff" where
  "pq_remove obj = modE (\<lambda>q.
     if dget (items_tracker q) obj = None then q
     else q\<lparr>items_tracker := ddel obj (items_tracker q), items_dict := ddel obj (items_dict q)\<rparr>)"

text \<open>\<open>popitem()\<close> takes the last entry of the dictionary.\<close>

definition pq_pop :: "('w, 'a, 'p, 'a) pq_eff" where
  "pq_pop =
     bindE (getE items_dict) (\<lambda>d.
       if d = [] then raiseE KeyError
       else thenE (modE (\<lambda>q. q\<lparr>items_dict := butlast d\<rparr>)) (returnE (fst (last d))))"

definition try_remove_from_queue :: "'a \<Rightarrow> ('w, 'a, 'p, unit) pq_eff" where
  "try_remove_from_queue obj =
     bindE (getE (\<lambda>q. dget (items_tracker q) obj \<noteq> None)) (\<lambda>known.
       if known then modE (\<lambda>q. q\<lparr>items_dict := ddel obj (items_dict q)\<rparr>) else raiseE ValueError)"

definition update_priority :: "'w \<Rightarrow> ('w, 'a, 'p::linorder, unit) pq_eff" where
  "update_priority w = modE (\<lambda>q.
     let items = map snd (items_dict q);
         sorted_items = (if is_reversed q then sort_key_rev (get_priority w) items else sort_key (get_priority w) items)
     in q\<lparr>items_dict := fold (\<lambda>item. dput (op_obj item) item) sorted_items []\<rparr>)"

text \<open>An object is queued under its own wrapper, and every queued object is tracked.\<close>

definition pq_ok :: "('w, 'a, 'p) priority_queue \<Rightarrow> bool" where
  "pq_ok q \<longleftrightarrow> dict_ok (items_dict q) \<and> dict_ok (items_tracker q) \<and>
     (\<forall>k v. dget (items_tracker q) k = Some v \<longrightarrow> op_obj v = k) \<and>
     (\<forall>k v. dget (items_dict q) k = Some v \<longrightarrow> dget (items_tracker q) k = Some v)"

lemma PriorityQueue_ok: "pq_ok (PriorityQueue r)"
  by (simp add: pq_ok_def PriorityQueue_def)

lemma fold_dput_distinct:
  "distinct (map op_obj xs) \<Longrightarrow> set (map op_obj xs) \<inter> set (dkeys d) = {} \<Longrightarrow>
    fold (\<lambda>item. dput (op_obj item) item) xs d = d @ map (\<lambda>item. (op_obj item, item)) xs"
proof (induction xs arbitrary: d)
  case (Cons x xs)
  then have "dput (op_obj x) x d = d @ [(op_obj x, x)]" by (intro dput_new) auto
  with Cons show ?case by simp
qed simp

lemma pq_values:
  assumes "pq_ok q"
  shows "items_dict q = map (\<lambda>item. (op_obj item, item)) (map snd (items_dict q))" "distinct (map op_obj (map snd (items_dict q)))"
proof -
  have o: "op_obj v = k" if "(k, v) \<in> set (items_dict q)" for k v
    using that assms dget_mem [of "items_dict q" k v] by (auto simp: pq_ok_def)
  then show e: "items_dict q = map (\<lambda>item. (op_obj item, item)) (map snd (items_dict q))"
    by (auto simp: o_def intro!: map_idI [symmetric])
  have "map op_obj (map snd (items_dict q)) = dkeys (items_dict q)" using o by auto
  then show "distinct (map op_obj (map snd (items_dict q)))" using assms unfolding pq_ok_def dict_ok_def by (simp only:)
qed

definition by_priority :: "'w \<Rightarrow> bool \<Rightarrow> ('a \<times> ('w, 'a, 'p::linorder) object_priority) list \<Rightarrow> bool" where
  "by_priority w r d = sorted_wrt (\<lambda>x y. if r then get_priority w (snd y) \<le> get_priority w (snd x)
     else get_priority w (snd x) \<le> get_priority w (snd y)) d"

lemma update_priority_run:
  assumes "pq_ok q"
  shows "\<exists>d. update_priority w q = (Inr (), q\<lparr>items_dict := d\<rparr>) \<and> mset d = mset (items_dict q) \<and> by_priority w (is_reversed q) d"
proof -
  define items where "items = map snd (items_dict q)"
  define s where "s = (if is_reversed q then sort_key_rev (get_priority w) items else sort_key (get_priority w) items)"
  have m: "mset s = mset items" by (simp add: s_def)
  note v = pq_values [OF assms, folded items_def]
  have "mset (map op_obj s) = mset (map op_obj items)" using m by simp
  then have "distinct (map op_obj s)" using v(2) by (metis mset_eq_imp_distinct_iff)
  then have f: "fold (\<lambda>item. dput (op_obj item) item) s [] = map (\<lambda>item. (op_obj item, item)) s"
    by (simp add: fold_dput_distinct)
  have "mset (map (\<lambda>item. (op_obj item, item)) s) = mset (map (\<lambda>item. (op_obj item, item)) items)" using m by simp
  also have "\<dots> = mset (items_dict q)" using v(1) by simp
  finally have "mset (map (\<lambda>item. (op_obj item, item)) s) = mset (items_dict q)" .
  moreover have "by_priority w (is_reversed q) (map (\<lambda>item. (op_obj item, item)) s)"
    using sorted_sort_key_rev [of "get_priority w" items] sorted_sort_key [of "get_priority w" items]
    by (simp add: by_priority_def s_def sorted_wrt_map sorted_map)
  moreover have "update_priority w q = (Inr (), q\<lparr>items_dict := fold (\<lambda>item. dput (op_obj item) item) s []\<rparr>)"
    by (simp add: update_priority_def eff_apply Let_def s_def items_def)
  ultimately show ?thesis unfolding f by blast
qed

lemma pq_ok_mset:
  assumes "pq_ok q" "set d \<subseteq> set (items_dict q)" "distinct (dkeys d)"
  shows "pq_ok (q\<lparr>items_dict := d\<rparr>)"
proof -
  have "dget (items_tracker q) k = Some v" if "dget d k = Some v" for k v
    using that assms(1,2) dget_mem [of "items_dict q" k v] by (auto simp: pq_ok_def dest: map_of_SomeD)
  with assms show ?thesis by (auto simp: pq_ok_def dict_ok_def)
qed

text \<open>Every operation keeps the invariant.\<close>

lemma keeps_pq:
  fixes item :: "('w, 'a, 'p::linorder) object_priority"
  shows "keeps pq_ok (pq_add item)" "keeps pq_ok (pq_push obj :: ('w, 'a, 'p, unit) pq_eff)"
    "keeps pq_ok (pq_remove obj :: ('w, 'a, 'p, unit) pq_eff)" "keeps pq_ok (pq_pop :: ('w, 'a, 'p, 'a) pq_eff)"
    "keeps pq_ok (try_remove_from_queue obj :: ('w, 'a, 'p, unit) pq_eff)"
    "keeps pq_ok (update_priority w :: ('w, 'a, 'p, unit) pq_eff)"
proof -
  show "keeps pq_ok (pq_add item)" by (auto simp: keeps_def pq_add_def eff_apply bindE_apply pq_ok_def)
  show "keeps pq_ok (pq_push obj :: ('w, 'a, 'p, unit) pq_eff)"
    by (auto simp: keeps_def pq_push_def eff_apply bindE_apply pq_ok_def split: option.splits)
  show "keeps pq_ok (pq_remove obj :: ('w, 'a, 'p, unit) pq_eff)" by (auto simp: keeps_def pq_remove_def eff_apply pq_ok_def)
  show "keeps pq_ok (try_remove_from_queue obj :: ('w, 'a, 'p, unit) pq_eff)"
    by (auto simp: keeps_def try_remove_from_queue_def eff_apply bindE_apply pq_ok_def)
  show "keeps pq_ok (pq_pop :: ('w, 'a, 'p, 'a) pq_eff)"
  proof (rule keepsI)
    fix q :: "('w, 'a, 'p) priority_queue" assume q: "pq_ok q"
    have "distinct (dkeys (butlast (items_dict q)))"
      using q by (auto simp: pq_ok_def dict_ok_def map_butlast distinct_butlast)
    with q show "pq_ok (snd (pq_pop q))"
      by (auto simp: pq_pop_def eff_apply bindE_apply intro!: pq_ok_mset dest: in_set_butlastD)
  qed
  show "keeps pq_ok (update_priority w :: ('w, 'a, 'p, unit) pq_eff)"
  proof (rule keepsI)
    fix q :: "('w, 'a, 'p) priority_queue" assume q: "pq_ok q"
    obtain d where d: "update_priority w q = (Inr (), q\<lparr>items_dict := d\<rparr>)" "mset d = mset (items_dict q)"
      using update_priority_run [OF q] by blast
    have "mset (dkeys d) = mset (dkeys (items_dict q))" using d(2) by simp
    then have "distinct (dkeys d)" using q by (metis pq_ok_def dict_ok_def mset_eq_imp_distinct_iff)
    moreover have "set d = set (items_dict q)" using d(2) by (rule mset_eq_setD)
    ultimately show "pq_ok (snd (update_priority w q))" using q d(1) by (simp add: pq_ok_mset)
  qed
qed

text \<open>After \<open>update_priority\<close>, \<open>pop\<close> returns an object of the least priority when the order is reversed, and of
  the greatest otherwise; the object leaves the queue and stays tracked, so that it can be pushed back.\<close>

theorem pop_after_update:
  assumes "pq_ok q" "items_dict q \<noteq> []"
  shows "\<exists>obj item q'. bindE (update_priority w) (\<lambda>_. pq_pop) q = (Inr obj, q') \<and> pq_ok q' \<and>
    dget (items_dict q) obj = Some item \<and> dget (items_dict q') obj = None \<and> dget (items_tracker q') obj = Some item \<and>
    (\<forall>k v. dget (items_dict q) k = Some v \<longrightarrow>
       (if is_reversed q then get_priority w item \<le> get_priority w v else get_priority w v \<le> get_priority w item))"
proof -
  obtain d where d: "update_priority w q = (Inr (), q\<lparr>items_dict := d\<rparr>)" "mset d = mset (items_dict q)"
    "by_priority w (is_reversed q) d"
    using update_priority_run [OF assms(1)] by blast
  have ok: "pq_ok (q\<lparr>items_dict := d\<rparr>)" using keepsD [OF keeps_pq(6) assms(1), of w] d(1) by simp
  have s: "set d = set (items_dict q)" using d(2) by (rule mset_eq_setD)
  have "d \<noteq> []" using assms(2) d(2) by auto
  then obtain ini obj item where l: "d = ini @ [(obj, item)]" by (metis append_butlast_last_id prod.collapse)
  define q' where "q' = q\<lparr>items_dict := ini\<rparr>"
  have r: "bindE (update_priority w) (\<lambda>_. pq_pop) q = (Inr obj, q')"
    using d(1) l by (simp add: bindE_apply pq_pop_def eff_apply q'_def)
  have dd: "distinct (dkeys d)" using ok by (simp add: pq_ok_def dict_ok_def)
  have g: "dget d k = dget (items_dict q) k" for k
    using s dd assms(1) dict_ok_mem_iff [of d k] dict_ok_mem_iff [of "items_dict q" k]
    by (metis option.exhaust pq_ok_def dict_ok_def)
  have "pq_ok q'" using ok l dd pq_ok_mset [of "q\<lparr>items_dict := d\<rparr>" ini] by (auto simp: q'_def)
  moreover have "dget (items_dict q') obj = None" using dd l by (simp add: q'_def map_of_eq_None_iff)
  moreover have o: "dget d obj = Some item" using dd l by (intro dget_mem) (auto simp: dict_ok_def)
  moreover have "dget (items_tracker q') obj = Some item" using ok o by (simp add: pq_ok_def q'_def)
  moreover have "if is_reversed q then get_priority w item \<le> get_priority w v else get_priority w v \<le> get_priority w item"
    if "dget d k = Some v" for k v
  proof -
    have "(k, v) \<in> set d" using that by (rule map_of_SomeD)
    then show ?thesis using d(3) l by (auto simp: by_priority_def sorted_wrt_append)
  qed
  ultimately show ?thesis using r g by auto
qed

section \<open>The queue of expiring items\<close>

record 'a expiration_queue =
  time_to_live_sec :: int
  eq_queue :: "('a, pyfloat) dict"

definition ExpirationQueue :: "int \<Rightarrow> 'a expiration_queue res" where
  "ExpirationQueue ttl = (if ttl < 0 then Inl ValueError else Inr \<lparr>time_to_live_sec = ttl, eq_queue = []\<rparr>)"

text \<open>An item that is queued already keeps its place and gets the new time.\<close>

definition eq_add :: "pyfloat \<Rightarrow> 'a \<Rightarrow> 'a expiration_queue \<Rightarrow> 'a expiration_queue" where
  "eq_add now item q = q\<lparr>eq_queue := dput item now (eq_queue q)\<rparr>"

definition eq_remove :: "'a \<Rightarrow> 'a expiration_queue \<Rightarrow> 'a expiration_queue" where
  "eq_remove item q = q\<lparr>eq_queue := ddel item (eq_queue q)\<rparr>"

definition expired :: "pyfloat \<Rightarrow> int \<Rightarrow> pyfloat \<Rightarrow> bool" where
  "expired now ttl t \<longleftrightarrow> of_int ttl < fsub now t"

text \<open>
  The loop of \<open>remove_expired\<close>; \<open>n\<close> is the number of rounds that the limit still allows. The call-back works on
  the state \<open>'c\<close> of the caller; when it raises, the item is off the queue and the loop ends.
\<close>

fun expire_loop :: "(pyfloat \<Rightarrow> bool) \<Rightarrow> ('a \<Rightarrow> ('c, unit) eff) \<Rightarrow> nat \<Rightarrow> ('a, pyfloat) dict \<Rightarrow> 'c \<Rightarrow>
    'a list res \<times> ('a, pyfloat) dict \<times> 'c" where
  "expire_loop due callback n [] c = (Inr [], [], c)"
| "expire_loop due callback 0 (x # q) c = (Inr [], x # q, c)"
| "expire_loop due callback (Suc n) ((item, t) # q) c =
     (if \<not> due t then (Inr [], (item, t) # q, c)
      else (case callback item c of
          (Inl e, c') \<Rightarrow> (Inl e, q, c')
        | (Inr u, c') \<Rightarrow> (case expire_loop due callback n q c' of
              (r, q', c'') \<Rightarrow> (bindR r (\<lambda>removed. Inr (item # removed)), q', c''))))"

definition remove_expired ::
    "pyfloat \<Rightarrow> int option \<Rightarrow> ('a \<Rightarrow> ('c, unit) eff) \<Rightarrow> ('a expiration_queue \<times> 'c, 'a list) eff" where
  "remove_expired now limit callback = (\<lambda>(q, c).
     let n = (case limit of None \<Rightarrow> length (eq_queue q) | Some k \<Rightarrow> nat k)
     in case expire_loop (expired now (time_to_live_sec q)) callback n (eq_queue q) c of
          (r, d, c') \<Rightarrow> (r, q\<lparr>eq_queue := d\<rparr>, c'))"

definition get_oldest :: "'a expiration_queue \<Rightarrow> 'a option" where
  "get_oldest q = (case eq_queue q of [] \<Rightarrow> None | (item, _) # _ \<Rightarrow> Some item)"

definition get_oldest_item_timestamp :: "'a expiration_queue \<Rightarrow> pyfloat option" where
  "get_oldest_item_timestamp q = (case eq_queue q of [] \<Rightarrow> None | (_, t) # _ \<Rightarrow> Some t)"

definition remove_oldest :: "('a \<Rightarrow> ('c, unit) eff) \<Rightarrow> ('a expiration_queue \<times> 'c, unit) eff" where
  "remove_oldest callback = (\<lambda>(q, c). case eq_queue q of
       [] \<Rightarrow> (Inr (), q, c)
     | (item, _) # d \<Rightarrow> (case callback item c of (r, c') \<Rightarrow> (r, q\<lparr>eq_queue := d\<rparr>, c')))"

definition eq_clear :: "'a expiration_queue \<Rightarrow> 'a expiration_queue" where
  "eq_clear q = q\<lparr>eq_queue := []\<rparr>"

definition eq_keys :: "'a expiration_queue \<Rightarrow> 'a set" where
  "eq_keys q = set (dkeys (eq_queue q))"

subsection \<open>What expires\<close>

text \<open>With a call-back that cannot raise, the longest due prefix within the limit goes, and the call-back runs on it in order.\<close>

lemma expire_loop_total:
  "expire_loop due (\<lambda>x. modE (f x)) n q c =
    (let k = length (takeWhile (due \<circ> snd) (take n q)) in (Inr (dkeys (take k q)), drop k q, fold f (dkeys (take k q)) c))"
proof (induction due "\<lambda>x. modE (f x)" n q c rule: expire_loop.induct)
  case (3 due n item t q c)
  then show ?case by (cases "due t") (simp_all add: eff_apply Let_def)
qed simp_all

definition due_count :: "pyfloat \<Rightarrow> int option \<Rightarrow> 'a expiration_queue \<Rightarrow> nat" where
  "due_count now limit q =
     length (takeWhile (expired now (time_to_live_sec q) \<circ> snd)
       (take (case limit of None \<Rightarrow> length (eq_queue q) | Some k \<Rightarrow> nat k) (eq_queue q)))"

lemma remove_expired_total:
  "remove_expired now limit (\<lambda>x. modE (f x)) (q, c) =
    (let k = due_count now limit q in
      (Inr (dkeys (take k (eq_queue q))), q\<lparr>eq_queue := drop k (eq_queue q)\<rparr>, fold f (dkeys (take k (eq_queue q))) c))"
  by (simp add: remove_expired_def expire_loop_total due_count_def Let_def)

text \<open>The items are in the order of their times.\<close>

definition in_time_order :: "'a expiration_queue \<Rightarrow> bool" where
  "in_time_order q \<longleftrightarrow> dict_ok (eq_queue q) \<and> sorted (map snd (eq_queue q))"

lemma add_in_order:
  assumes "in_time_order q" "item \<notin> eq_keys q" "\<forall>t \<in> snd ` set (eq_queue q). t \<le> now"
  shows "in_time_order (eq_add now item q)"
proof -
  have "eq_queue (eq_add now item q) = eq_queue q @ [(item, now)]"
    using assms(2) by (simp add: eq_add_def eq_keys_def dput_new)
  with assms show ?thesis by (auto simp: in_time_order_def dict_ok_def sorted_append eq_keys_def)
qed

lemma expired_mono: "t \<le> t' \<Longrightarrow> expired now ttl t' \<Longrightarrow> expired now ttl t"
  unfolding expired_def fsub_def using rnd_mono [of "now - t'" "now - t"] by simp

lemma in_order_remove_expired: "in_time_order q \<Longrightarrow> in_time_order (q\<lparr>eq_queue := drop k (eq_queue q)\<rparr>)"
  by (auto simp: in_time_order_def dict_ok_def drop_map [symmetric] intro: sorted_wrt_drop distinct_drop)

lemma remove_expired_in_order:
  assumes "in_time_order q"
  shows "\<exists>removed q'. remove_expired now None (\<lambda>x. modE (f x)) (q, c) = (Inr removed, q', fold f removed c) \<and> in_time_order q' \<and>
    set removed = {x. \<exists>t. dget (eq_queue q) x = Some t \<and> expired now (time_to_live_sec q) t} \<and>
    (\<forall>x. dget (eq_queue q') x = (if x \<in> set removed then None else dget (eq_queue q) x))"
proof -
  let ?P = "expired now (time_to_live_sec q) \<circ> snd" and ?d = "eq_queue q"
  define a where "a = takeWhile ?P ?d"
  define b where "b = dropWhile ?P ?d"
  have k: "due_count now None q = length a" by (simp add: due_count_def a_def)
  have ab: "?d = a @ b" by (simp add: a_def b_def)
  then have tk: "take (length a) ?d = a" "drop (length a) ?d = b" by simp_all
  have ok: "dict_ok (a @ b)" "sorted (map snd (a @ b))" using assms unfolding in_time_order_def ab by simp_all
  have da: "\<forall>x \<in> set a. ?P x" by (auto simp: a_def dest: set_takeWhileD)
  have nb: "\<not> ?P y" if "y \<in> set b" for y
  proof -
    from that obtain z zs where z: "b = z # zs" by (cases b) auto
    then have "\<not> ?P z" using hd_dropWhile [of ?P ?d] by (simp add: b_def)
    moreover have "snd z \<le> snd y" using ok(2) that z by (auto simp: sorted_append)
    ultimately show ?thesis using expired_mono by auto
  qed
  have r: "remove_expired now None (\<lambda>x. modE (f x)) (q, c) = (Inr (dkeys a), q\<lparr>eq_queue := b\<rparr>, fold f (dkeys a) c)"
    by (simp add: remove_expired_total k Let_def tk)
  have disj: "set (dkeys a) \<inter> set (dkeys b) = {}" using ok(1) by (auto simp: dict_ok_def)
  have g: "dget ?d x = (if x \<in> set (dkeys a) then dget a x else dget b x)" for x
    using dget_Some_iff_key [of a x] unfolding ab by (auto simp: map_add_def split: option.splits)
  have m: "set (dkeys a) = {x. \<exists>t. dget ?d x = Some t \<and> expired now (time_to_live_sec q) t}"
  proof (intro set_eqI iffI)
    fix x assume x: "x \<in> set (dkeys a)"
    then obtain t where "dget a x = Some t" using dget_Some_iff_key [of a x] by blast
    with da x g [of x] show "x \<in> {x. \<exists>t. dget ?d x = Some t \<and> expired now (time_to_live_sec q) t}"
      by (auto dest!: map_of_SomeD)
  next
    fix x assume "x \<in> {x. \<exists>t. dget ?d x = Some t \<and> expired now (time_to_live_sec q) t}"
    then obtain t where t: "dget ?d x = Some t" "expired now (time_to_live_sec q) t" by blast
    show "x \<in> set (dkeys a)"
    proof (rule ccontr)
      assume "x \<notin> set (dkeys a)"
      with t(1) g [of x] have "(x, t) \<in> set b" by (simp add: map_of_SomeD)
      with nb t(2) show False by force
    qed
  qed
  have "in_time_order (q\<lparr>eq_queue := b\<rparr>)" using in_order_remove_expired [OF assms, of "length a"] tk by simp
  moreover have "dget b x = (if x \<in> set (dkeys a) then None else dget ?d x)" for x
    using g [of x] disj dget_Some_iff_key [of b x] by (cases "dget b x") auto
  ultimately show ?thesis using r m by (intro exI [of _ "dkeys a"] exI [of _ "q\<lparr>eq_queue := b\<rparr>"]) simp
qed

text \<open>An item that is added again while it is the oldest one keeps the first place with the new time: until it expires
  itself, no other item is removed, however old.\<close>

theorem readded_blocks:
  assumes "eq_queue q = (item, t) # d" "\<not> expired later (time_to_live_sec q) now"
  shows "get_oldest (eq_add now item q) = Some item \<and> eq_keys (eq_add now item q) = eq_keys q \<and>
    remove_expired later limit callback (eq_add now item q, c) = (Inr [], eq_add now item q, c)"
proof -
  have "expire_loop (expired later (time_to_live_sec q)) callback n ((item, now) # d) c = (Inr [], (item, now) # d, c)" for n
    using assms(2) by (cases n) simp_all
  with assms(1) show ?thesis
    by (auto simp: eq_add_def get_oldest_def eq_keys_def remove_expired_def Let_def)
qed

section \<open>Containers of limited size\<close>

record 'a limited_size_set =
  ls_contents :: "'a set"
  item_tracker :: "'a list"
  ls_max_size :: int

definition LimitedSizeSet :: "int \<Rightarrow> 'a limited_size_set" where
  "LimitedSizeSet n = \<lparr>ls_contents = {}, item_tracker = [], ls_max_size = n\<rparr>"

fun ls_make_room :: "int \<Rightarrow> 'a set \<Rightarrow> 'a list \<Rightarrow> unit res \<times> 'a set \<times> 'a list" where
  "ls_make_room n contents [] = (if n < int (card contents) then Inl IndexError else Inr (), contents, [])"
| "ls_make_room n contents (key # keys) =
     (if n < int (card contents)
      then if key \<in> contents then ls_make_room n (contents - {key}) keys else (Inl KeyError, contents, keys)
      else (Inr (), contents, key # keys))"

definition ls_add :: "'a \<Rightarrow> ('a limited_size_set, unit) eff" where
  "ls_add v =
     thenE (modE (\<lambda>s. s\<lparr>ls_contents := insert v (ls_contents s)\<rparr>))
    (bindE (getE (\<lambda>s. card (ls_contents s) \<noteq> length (item_tracker s))) (\<lambda>new.
     whenE new
       (thenE (\<lambda>s. case ls_make_room (ls_max_size s) (ls_contents s) (item_tracker s) of
                    (r, c, t) \<Rightarrow> (r, s\<lparr>ls_contents := c, item_tracker := t\<rparr>))
         (modE (\<lambda>s. s\<lparr>item_tracker := item_tracker s @ [v]\<rparr>)))))"

definition ls_remove :: "'a \<Rightarrow> ('a limited_size_set, unit) eff" where
  "ls_remove v =
     bindE (getE (\<lambda>s. v \<in> ls_contents s)) (\<lambda>known.
     thenE (liftR (guardR known KeyError))
    (thenE (modE (\<lambda>s. s\<lparr>ls_contents := ls_contents s - {v}\<rparr>))
    (bindE (getE (\<lambda>s. v \<in> set (item_tracker s))) (\<lambda>tracked.
     thenE (liftR (guardR tracked ValueError))
       (modE (\<lambda>s. s\<lparr>item_tracker := list_del_one v (item_tracker s)\<rparr>))))))"

definition ls_ok :: "'a limited_size_set \<Rightarrow> bool" where
  "ls_ok s \<longleftrightarrow> ls_contents s = set (item_tracker s) \<and> distinct (item_tracker s) \<and> int (length (item_tracker s)) \<le> ls_max_size s"

lemma LimitedSizeSet_ok: "0 \<le> n \<Longrightarrow> ls_ok (LimitedSizeSet n)"
  by (simp add: ls_ok_def LimitedSizeSet_def)

lemma ls_make_room_run:
  assumes "distinct t" "v \<notin> set t" "1 \<le> n"
  shows "ls_make_room n (insert v (set t)) t =
    (Inr (), insert v (set (drop (Suc (length t) - nat n) t)), drop (Suc (length t) - nat n) t)"
  using assms(1,2)
proof (induction t)
  case (Cons k t)
  have c: "card (insert v (set (k # t))) = Suc (Suc (length t))"
    using Cons.prems by (simp add: distinct_card)
  show ?case
  proof (cases "n < int (Suc (Suc (length t)))")
    case True
    have "insert v (set (k # t)) - {k} = insert v (set t)" using Cons.prems by auto
    moreover have "Suc (length (k # t)) - nat n = Suc (Suc (length t) - nat n)" using True assms(3) by simp
    ultimately show ?thesis using Cons True c by simp
  next
    case False
    then show ?thesis using c by simp
  qed
qed (use assms(3) in simp)

text \<open>A set of limited size keeps the last values in the order of their first addition, at most the limit: adding a new value
  appends it and drops the oldest ones beyond the limit; adding a known one changes nothing.\<close>

theorem limited_set_add:
  assumes "ls_ok s" "1 \<le> ls_max_size s"
  shows "\<exists>s'. ls_add v s = (Inr (), s') \<and> ls_ok s' \<and> ls_max_size s' = ls_max_size s \<and> item_tracker s' =
    (if v \<in> ls_contents s then item_tracker s
     else let t = item_tracker s @ [v] in drop (length t - nat (ls_max_size s)) t)"
proof (cases "v \<in> ls_contents s")
  case True
  then have "insert v (ls_contents s) = ls_contents s" "card (ls_contents s) = length (item_tracker s)"
    using assms(1) by (auto simp: ls_ok_def distinct_card)
  then have "ls_add v s = (Inr (), s)"
    by (simp add: ls_add_def eff_apply bindE_apply whenE_apply)
  with True assms(1) show ?thesis by simp
next
  case False
  let ?t = "item_tracker s" and ?n = "ls_max_size s"
  have s: "ls_contents s = set ?t" "distinct ?t" "v \<notin> set ?t" using assms(1) False by (auto simp: ls_ok_def)
  define d where "d = drop (Suc (length ?t) - nat ?n) ?t"
  define s' where "s' = s\<lparr>ls_contents := insert v (set d), item_tracker := d @ [v]\<rparr>"
  have "card (insert v (set ?t)) = Suc (length ?t)" using s by (simp add: distinct_card)
  then have "ls_add v s = (Inr (), s')"
    using ls_make_room_run [OF s(2,3) assms(2)]
    by (simp add: ls_add_def eff_apply bindE_apply whenE_apply s(1) d_def s'_def)
  moreover have "set d \<subseteq> set ?t" by (auto simp: d_def dest: in_set_dropD)
  then have "ls_ok s'" using s assms(2) by (auto simp: ls_ok_def s'_def d_def)
  moreover have "item_tracker s' = drop (length (?t @ [v]) - nat ?n) (?t @ [v])"
    using assms(2) by (simp add: s'_def d_def)
  ultimately show ?thesis using False by (simp add: Let_def s'_def)
qed

record ('k, 'v) limited_size_dict =
  ld_contents :: "('k, 'v) dict"
  key_tracker :: "'k list"
  ld_max_size :: int

definition LimitedSizeDict :: "int \<Rightarrow> ('k, 'v) limited_size_dict" where
  "LimitedSizeDict n = \<lparr>ld_contents = [], key_tracker = [], ld_max_size = n\<rparr>"

fun ld_make_room :: "int \<Rightarrow> ('k, 'v) dict \<Rightarrow> 'k list \<Rightarrow> unit res \<times> ('k, 'v) dict \<times> 'k list" where
  "ld_make_room n d [] = (if n \<le> 0 then Inl IndexError else Inr (), d, [])"
| "ld_make_room n d (key # keys) =
     (if n \<le> int (Suc (length keys))
      then if dget d key = None then (Inl KeyError, d, keys) else ld_make_room n (ddel key d) keys
      else (Inr (), d, key # keys))"

definition ld_add :: "'k \<Rightarrow> 'v \<Rightarrow> (('k, 'v) limited_size_dict, unit) eff" where
  "ld_add k v =
     thenE (\<lambda>s. case ld_make_room (ld_max_size s) (ld_contents s) (key_tracker s) of
                 (r, d, t) \<Rightarrow> (r, s\<lparr>ld_contents := d, key_tracker := t\<rparr>))
       (modE (\<lambda>s. s\<lparr>ld_contents := dput k v (ld_contents s), key_tracker := key_tracker s @ [k]\<rparr>))"

definition ld_set :: "'k \<Rightarrow> 'v \<Rightarrow> (('k, 'v) limited_size_dict, unit) eff" where
  "ld_set k v =
     bindE (getE (\<lambda>s. dget (ld_contents s) k \<noteq> None)) (\<lambda>known.
       if known then modE (\<lambda>s. s\<lparr>ld_contents := dput k v (ld_contents s)\<rparr>) else ld_add k v)"

definition ld_del :: "'k \<Rightarrow> (('k, 'v) limited_size_dict, unit) eff" where
  "ld_del k =
     bindE (getE (\<lambda>s. dget (ld_contents s) k \<noteq> None)) (\<lambda>known.
     thenE (liftR (guardR known KeyError))
    (thenE (modE (\<lambda>s. s\<lparr>ld_contents := ddel k (ld_contents s)\<rparr>))
    (bindE (getE (\<lambda>s. k \<in> set (key_tracker s))) (\<lambda>tracked.
     thenE (liftR (guardR tracked ValueError))
       (modE (\<lambda>s. s\<lparr>key_tracker := list_del_one k (key_tracker s)\<rparr>))))))"

definition ld_ok :: "('k, 'v) limited_size_dict \<Rightarrow> bool" where
  "ld_ok s \<longleftrightarrow> dkeys (ld_contents s) = key_tracker s \<and> distinct (key_tracker s) \<and> int (length (key_tracker s)) \<le> ld_max_size s"

lemma ld_make_room_run:
  assumes "1 \<le> n" "distinct (dkeys d)"
  shows "ld_make_room n d (dkeys d) =
    (Inr (), drop (Suc (length d) - nat n) d, drop (Suc (length d) - nat n) (dkeys d))"
  using assms(2)
proof (induction d)
  case (Cons x d)
  obtain k v where x: "x = (k, v)" by (cases x)
  have "ddel k ((k, v) # d) = d"
    using Cons.prems x by (simp add: AList.delete_id)
  moreover have "Suc (length (x # d)) - nat n = Suc (Suc (length d) - nat n)" if "n \<le> int (Suc (length d))"
    using that assms(1) by simp
  ultimately show ?case using Cons x by (auto simp: nat_le_iff)
qed (use assms(1) in simp)

text \<open>Storing a new key drops the oldest entries beyond the limit; the entries stay in the order of their addition.\<close>

lemma limited_dict_set:
  assumes "ld_ok s" "1 \<le> ld_max_size s"
  shows "\<exists>s'. ld_set k v s = (Inr (), s') \<and> ld_ok s' \<and> ld_contents s' =
    (if k \<in> set (key_tracker s) then dput k v (ld_contents s)
     else let d = ld_contents s @ [(k, v)] in drop (length d - nat (ld_max_size s)) d)"
proof (cases "k \<in> set (key_tracker s)")
  case True
  then have "dget (ld_contents s) k \<noteq> None" using assms(1) dget_Some_iff_key [of "ld_contents s" k] by (auto simp: ld_ok_def)
  then have "ld_set k v s = (Inr (), s\<lparr>ld_contents := dput k v (ld_contents s)\<rparr>)"
    by (simp add: ld_set_def eff_apply bindE_apply)
  moreover have "dkeys (dput k v (ld_contents s)) = dkeys (ld_contents s)"
    using True assms(1) by (intro dkeys_dput_mem) (simp add: ld_ok_def)
  ultimately show ?thesis using True assms(1) by (simp add: ld_ok_def)
next
  case False
  let ?d = "ld_contents s" and ?n = "ld_max_size s"
  have k: "dkeys ?d = key_tracker s" "distinct (dkeys ?d)" using assms(1) by (simp_all add: ld_ok_def)
  define e where "e = drop (Suc (length ?d) - nat ?n) ?d"
  have n: "dget ?d k = None" using False k(1) by (metis map_of_eq_None_iff set_map)
  have "k \<notin> set (dkeys e)" using False k(1) by (auto simp: e_def drop_map [symmetric] dest: in_set_dropD)
  then have p: "dput k v e = e @ [(k, v)]" by (rule dput_new)
  have r: "ld_set k v s = (Inr (), s\<lparr>ld_contents := e @ [(k, v)], key_tracker := dkeys e @ [k]\<rparr>)"
  proof -
    have "ld_make_room ?n ?d (key_tracker s) = (Inr (), e, dkeys e)"
      using ld_make_room_run [OF assms(2) k(2)] k(1) by (simp add: e_def drop_map [symmetric])
    with n p show ?thesis by (simp add: ld_set_def ld_add_def eff_apply bindE_apply)
  qed
  have "distinct (dkeys e)" using k(2) by (simp add: e_def drop_map [symmetric])
  then have "ld_ok (s\<lparr>ld_contents := e @ [(k, v)], key_tracker := dkeys e @ [k]\<rparr>)"
    using \<open>k \<notin> set (dkeys e)\<close> assms(2) by (auto simp: ld_ok_def e_def)
  moreover have "e @ [(k, v)] = drop (length (?d @ [(k, v)]) - nat ?n) (?d @ [(k, v)])"
    using assms(2) by (simp add: e_def)
  ultimately show ?thesis using r False by (simp add: Let_def)
qed

end
