(* ===== verification/Expiring.thy ===== *)
theory Expiring
  imports Alarms Containers
begin

text \<open>
  The containers whose items expire (bxcommon/utils/expiring_set.py, expiring_dict.py): a set or dictionary, the
  queue of the times of its items, and an approximate alarm on the node's alarm queue that cleans up. The contract
  \<open>expiry\<close> says what they rely on in the queue: every item that is held has an entry there until it is removed.
\<close>

section \<open>The contract of the expiry queue\<close>

definition expire_now :: "pyfloat \<Rightarrow> 'a expiration_queue \<Rightarrow> 'a list \<times> 'a expiration_queue" where
  "expire_now now q = (let k = due_count now None q in (dkeys (take k (eq_queue q)), q\<lparr>eq_queue := drop k (eq_queue q)\<rparr>))"

lemma keys_dput: "set (dkeys (dput k v d)) = insert k (set (dkeys d))"
  by (induction d) auto

lemma eq_keys_mem: "x \<in> eq_keys q \<longleftrightarrow> dget (eq_queue q) x \<noteq> None"
  using dget_Some_iff_key [of "eq_queue q" x] by (auto simp: eq_keys_def)

lemma keys_ddel: "set (dkeys (ddel k d)) = set (dkeys d) - {k}"
  by (induction d) auto

locale expiry =
  fixes entries :: "'q \<Rightarrow> 'a set" and add_entry :: "pyfloat \<Rightarrow> 'a \<Rightarrow> 'q \<Rightarrow> 'q" and del_entry :: "'a \<Rightarrow> 'q \<Rightarrow> 'q"
    and expire :: "pyfloat \<Rightarrow> 'q \<Rightarrow> 'a list \<times> 'q" and ok :: "'q \<Rightarrow> bool"
  assumes add_entries: "ok q \<Longrightarrow> ok (add_entry now x q) \<and> entries (add_entry now x q) = insert x (entries q)"
    and del_entries: "ok q \<Longrightarrow> ok (del_entry x q) \<and> entries (del_entry x q) = entries q - {x}"
    and expire_entries: "ok q \<Longrightarrow> expire now q = (xs, q') \<Longrightarrow> ok q' \<and> entries q = set xs \<union> entries q' \<and> set xs \<inter> entries q' = {}"
begin

lemma held_add: "ok q \<Longrightarrow> C \<subseteq> entries q \<Longrightarrow> insert x C \<subseteq> entries (add_entry now x q)"
  using add_entries by blast

lemma held_expire: "ok q \<Longrightarrow> C \<subseteq> entries q \<Longrightarrow> expire now q = (xs, q') \<Longrightarrow> C - set xs \<subseteq> entries q'"
  using expire_entries by blast

lemma exact_expire: "ok q \<Longrightarrow> expire now q = (xs, q') \<Longrightarrow> entries q' = entries q - set xs"
  using expire_entries by blast

end

interpretation expiration: expiry eq_keys eq_add eq_remove expire_now "\<lambda>q. dict_ok (eq_queue q)"
proof
  fix q :: "'a expiration_queue" and now x xs q' assume ok: "dict_ok (eq_queue q)"
  show "dict_ok (eq_queue (eq_add now x q)) \<and> eq_keys (eq_add now x q) = insert x (eq_keys q)"
    using ok by (simp add: eq_add_def eq_keys_def keys_dput [simplified])
  show "dict_ok (eq_queue (eq_remove x q)) \<and> eq_keys (eq_remove x q) = eq_keys q - {x}"
    using ok by (simp add: eq_remove_def eq_keys_def keys_ddel [simplified])
  assume e: "expire_now now q = (xs, q')"
  define k where "k = due_count now None q"
  have q': "xs = dkeys (take k (eq_queue q))" "eq_queue q' = drop k (eq_queue q)" using e by (auto simp: expire_now_def k_def Let_def)
  have "dkeys (eq_queue q) = xs @ dkeys (eq_queue q')" unfolding q' by (simp add: map_append [symmetric] del: map_append)
  moreover have "distinct (dkeys (eq_queue q))" using ok by (simp add: dict_ok_def)
  ultimately show "dict_ok (eq_queue q') \<and> eq_keys q = set xs \<union> eq_keys q' \<and> set xs \<inter> eq_keys q' = {}"
    by (simp add: dict_ok_def eq_keys_def)
qed

section \<open>Effects on one of two objects\<close>

definition on_fst :: "('s, 'r) eff \<Rightarrow> ('s \<times> 't, 'r) eff" where
  "on_fst m = (\<lambda>(s, t). case m s of (r, s') \<Rightarrow> (r, s', t))"

definition on_snd :: "('t, 'r) eff \<Rightarrow> ('s \<times> 't, 'r) eff" where
  "on_snd m = (\<lambda>(s, t). case m t of (r, t') \<Rightarrow> (r, s, t'))"

lemma on_fst_apply: "on_fst m (s, t) = (fst (m s), snd (m s), t)"
  by (simp add: on_fst_def split: prod.splits)

lemma on_snd_apply: "on_snd m (s, t) = (fst (m t), s, snd (m t))"
  by (simp add: on_snd_def split: prod.splits)

lemma keeps_on_fst: "keeps P m \<Longrightarrow> keeps (\<lambda>(s, _). P s) (on_fst m)"
  by (auto simp: keeps_def on_fst_apply)

lemma keeps_on_snd [keeps_intros]: "keeps (\<lambda>(s, _). P s) (on_snd m)"
  by (auto simp: keeps_def on_snd_apply)

section \<open>The expiring set\<close>

record 'a expiring_set =
  es_contents :: "'a set"
  es_queue :: "'a expiration_queue"
  es_time :: int

type_synonym ('a, 'f, 'b, 'w, 'r) es_eff = "('a expiring_set \<times> ('f, 'b, 'w) alarm_queue, 'r) eff"

definition ExpiringSet :: "int \<Rightarrow> 'a expiring_set res" where
  "ExpiringSet n = bindR (ExpirationQueue n) (\<lambda>q. Inr \<lparr>es_contents = {}, es_queue = q, es_time = n\<rparr>)"

text \<open>\<open>cleanup\<close> and \<open>args\<close> name the clean-up method of this set for the alarm queue.\<close>

definition es_add :: "'w clock \<Rightarrow> ('f, 'b, 'w) callback \<Rightarrow> 'f \<Rightarrow> 'b \<Rightarrow> 'a \<Rightarrow> ('a, 'f, 'b, 'w, unit) es_eff" where
  "es_add tick call cleanup args item =
     thenE (on_fst (modE (\<lambda>s. s\<lparr>es_contents := insert item (es_contents s)\<rparr>)))
    (bindE (on_snd (time_now tick)) (\<lambda>t.
     thenE (on_fst (modE (\<lambda>s. s\<lparr>es_queue := eq_add t item (es_queue s)\<rparr>)))
    (bindE (on_fst (getE es_time)) (\<lambda>n.
     on_snd (register_approx_alarm tick call (fl_int (n * 2)) (fl_int n) cleanup args)))))"

text \<open>Removing an item leaves its entry in the queue.\<close>

definition es_remove :: "'a \<Rightarrow> ('a expiring_set, unit) eff" where
  "es_remove item =
     bindE (getE (\<lambda>s. item \<in> es_contents s)) (\<lambda>known.
     thenE (liftR (guardR known KeyError))
       (modE (\<lambda>s. s\<lparr>es_contents := es_contents s - {item}\<rparr>)))"

definition get_recent_items :: "int \<Rightarrow> 'a expiring_set \<Rightarrow> 'a list" where
  "get_recent_items n s = take (nat n) (rev (dkeys (eq_queue (es_queue s))))"

definition safe_remove_item :: "'a \<Rightarrow> ('a set, unit) eff" where
  "safe_remove_item item = modE (\<lambda>c. if item \<in> c then c - {item} else c)"

definition es_cleanup :: "pyfloat \<Rightarrow> ('a expiring_set, pyfloat option) eff" where
  "es_cleanup now =
     bindE (\<lambda>s. case remove_expired now None safe_remove_item (es_queue s, es_contents s) of
              (r, q, c) \<Rightarrow> (r, s\<lparr>es_queue := q, es_contents := c\<rparr>)) (\<lambda>_. returnE (Some 0))"

definition es_ok :: "'a expiring_set \<Rightarrow> bool" where
  "es_ok s \<longleftrightarrow> dict_ok (eq_queue (es_queue s)) \<and> es_contents s \<subseteq> eq_keys (es_queue s)"

lemma fold_remove: "fold (\<lambda>x c. if x \<in> c then c - {x} else c) xs c = c - set xs"
  by (induction xs arbitrary: c) auto

lemma es_cleanup_run:
  "es_cleanup now s = (Inr (Some 0), s\<lparr>es_queue := snd (expire_now now (es_queue s)),
     es_contents := es_contents s - set (fst (expire_now now (es_queue s)))\<rparr>)"
  by (simp add: es_cleanup_def safe_remove_item_def [abs_def] remove_expired_total expire_now_def Let_def fold_remove bindE_apply eff_apply)

lemma keeps_es_add:
  "keeps (\<lambda>(s, _). es_ok s) (es_add tick call cleanup args item :: ('a, 'f, 'b, 'w, unit) es_eff)"
proof -
  show ?thesis
  proof (rule keepsI)
    fix sq :: "'a expiring_set \<times> ('f, 'b, 'w) alarm_queue" assume ok: "case sq of (s, _) \<Rightarrow> es_ok s"
    obtain s q where sq: "sq = (s, q)" by (cases sq)
    obtain t w where t: "tick (aq_world q) = (t, w)" by fastforce
    define s' where "s' = s\<lparr>es_contents := insert item (es_contents s), es_queue := eq_add t item (es_queue s)\<rparr>"
    have "fst (snd (es_add tick call cleanup args item sq)) = s'"
      by (simp add: es_add_def sq bindE_apply eff_apply on_fst_apply on_snd_apply time_now_apply [of tick q t w] t s'_def)
    moreover have "es_ok s'"
      using ok sq expiration.held_add [of "es_queue s" "es_contents s" item t] expiration.add_entries [of "es_queue s" t item]
      by (simp add: es_ok_def s'_def)
    ultimately show "case snd (es_add tick call cleanup args item sq) of (s, _) \<Rightarrow> es_ok s"
      by (simp add: case_prod_beta)
  qed
qed

text \<open>What a node does with a set and its clock.\<close>

inductive es_step :: "'a expiring_set \<times> ('f, 'b, 'w) alarm_queue \<Rightarrow> 'a expiring_set \<times> ('f, 'b, 'w) alarm_queue \<Rightarrow> bool" where
  added: "es_add tick call cleanup args item s = (r, s') \<Longrightarrow> es_step s s'"
| removed: "es_remove item s = (r, s') \<Longrightarrow> es_step (s, q) (s', q)"
| cleaned: "es_cleanup now s = (r, s') \<Longrightarrow> es_step (s, q) (s', q')"

text \<open>Over any sequence of additions, removals and clean-ups, whatever the clock, the alarm queue and its functions do, every item
  of an expiring set has an entry in its expiry queue; and a clean-up drops from the set exactly what the queue gives up.\<close>

theorem expiring_set_tracked:
  assumes "ExpiringSet n = Inr s0" "es_step\<^sup>*\<^sup>* (s0, q0) (s, q)"
  shows "es_contents s \<subseteq> eq_keys (es_queue s) \<and>
    (\<exists>s'. es_cleanup now s = (Inr (Some 0), s') \<and>
       es_contents s' = es_contents s - (eq_keys (es_queue s) - eq_keys (es_queue s')))"
proof -
  have "es_ok s"
    using assms(2)
  proof (induction "(s, q)" arbitrary: s q rule: rtranclp_induct)
    case base
    then show ?case using assms(1) by (auto simp: ExpiringSet_def ExpirationQueue_def es_ok_def eq_keys_def split: if_splits)
  next
    case (step y)
    obtain s1 q1 where y: "y = (s1, q1)" by (cases y)
    have ok: "es_ok s1" by (rule step(3) [OF y])
    from step(2) show ?case unfolding y
    proof (cases rule: es_step.cases)
      case (added tick call cleanup args item r)
      then show ?thesis using keepsD [OF keeps_es_add, of "(s1, q1)" tick call cleanup args item] ok by simp
    next
      case (removed item r)
      then show ?thesis using ok by (auto simp: es_remove_def eff_apply bindE_apply guardR_def es_ok_def split: if_splits)
    next
      case (cleaned now r)
      obtain xs q2 where e: "expire_now now (es_queue s1) = (xs, q2)" by fastforce
      then have "s = s1\<lparr>es_queue := q2, es_contents := es_contents s1 - set xs\<rparr>" using cleaned by (simp add: es_cleanup_run)
      with ok e expiration.expire_entries [of "es_queue s1" now xs q2] show ?thesis by (auto simp: es_ok_def)
    qed
  qed
  moreover obtain xs q' where e: "expire_now now (es_queue s) = (xs, q')" by fastforce
  ultimately have "es_contents s - set xs = es_contents s - (eq_keys (es_queue s) - eq_keys q')"
    using expiration.expire_entries [of "es_queue s" now xs q'] by (auto simp: es_ok_def)
  with e \<open>es_ok s\<close> show ?thesis by (simp add: es_cleanup_run es_ok_def)
qed

text \<open>An item that was removed and added again keeps its old place in the queue, so it counts as an old one among the recent items.\<close>

lemma readded_not_recent:
  assumes "eq_queue (es_queue s) = (item, t) # d" "item \<in> es_contents s" "item \<notin> fst ` set d"
  shows "get_recent_items (int (length d)) (fst (snd (es_add tick call cleanup args item (snd (es_remove item s), q)))) = rev (dkeys d)"
proof -
  obtain u w where "tick (aq_world q) = (u, w)" by fastforce
  then show ?thesis using assms
    by (simp add: es_add_def es_remove_def bindE_apply eff_apply guardR_def on_fst_apply on_snd_apply time_now_def
        get_recent_items_def eq_add_def)
qed

section \<open>The expiring dictionary\<close>

record ('k, 'v) expiring_dict =
  ed_contents :: "('k, 'v) dict"
  ed_queue :: "'k expiration_queue"
  ed_time :: int

type_synonym ('k, 'v, 'f, 'b, 'w, 'r) ed_eff = "(('k, 'v) expiring_dict \<times> ('f, 'b, 'w) alarm_queue, 'r) eff"

definition ExpiringDict :: "int \<Rightarrow> ('k, 'v) expiring_dict res" where
  "ExpiringDict n = bindR (ExpirationQueue n) (\<lambda>q. Inr \<lparr>ed_contents = [], ed_queue = q, ed_time = n\<rparr>)"

definition ed_add :: "'w clock \<Rightarrow> ('f, 'b, 'w) callback \<Rightarrow> 'f \<Rightarrow> 'b \<Rightarrow> 'k \<Rightarrow> 'v \<Rightarrow> ('k, 'v, 'f, 'b, 'w, unit) ed_eff" where
  "ed_add tick call cleanup args key v =
     thenE (on_fst (modE (\<lambda>s. s\<lparr>ed_contents := dput key v (ed_contents s)\<rparr>)))
    (bindE (on_snd (time_now tick)) (\<lambda>t.
     thenE (on_fst (modE (\<lambda>s. s\<lparr>ed_queue := eq_add t key (ed_queue s)\<rparr>)))
    (bindE (on_fst (getE ed_time)) (\<lambda>n.
     on_snd (register_approx_alarm tick call (fl_int (n * 2)) (fl_int n) cleanup args)))))"

definition ed_setitem :: "'w clock \<Rightarrow> ('f, 'b, 'w) callback \<Rightarrow> 'f \<Rightarrow> 'b \<Rightarrow> 'k \<Rightarrow> 'v \<Rightarrow> ('k, 'v, 'f, 'b, 'w, unit) ed_eff" where
  "ed_setitem tick call cleanup args key v =
     bindE (on_fst (getE (\<lambda>s. dget (ed_contents s) key \<noteq> None))) (\<lambda>known.
       if known then on_fst (modE (\<lambda>s. s\<lparr>ed_contents := dput key v (ed_contents s)\<rparr>))
       else ed_add tick call cleanup args key v)"

definition ed_delitem :: "'k \<Rightarrow> (('k, 'v) expiring_dict, unit) eff" where
  "ed_delitem key =
     bindE (getE (\<lambda>s. dget (ed_contents s) key \<noteq> None)) (\<lambda>known.
     thenE (liftR (guardR known KeyError))
    (thenE (modE (\<lambda>s. s\<lparr>ed_contents := ddel key (ed_contents s)\<rparr>))
       (modE (\<lambda>s. s\<lparr>ed_queue := eq_remove key (ed_queue s)\<rparr>))))"

definition ed_getitem :: "'k \<Rightarrow> ('k, 'v) expiring_dict \<Rightarrow> 'v res" where
  "ed_getitem key s = dgetR (ed_contents s) key"

text \<open>The call-back of the clean-up; what it returns is not used.\<close>

definition ed_remove_item :: "'k \<Rightarrow> (('k, 'v) dict, unit) eff" where
  "ed_remove_item key = modE (\<lambda>d. if dget d key \<noteq> None then ddel key d else d)"

definition ed_cleanup :: "pyfloat \<Rightarrow> (('k, 'v) expiring_dict, pyfloat option) eff" where
  "ed_cleanup now =
     bindE (\<lambda>s. case remove_expired now None ed_remove_item (ed_queue s, ed_contents s) of
              (r, q, d) \<Rightarrow> (r, s\<lparr>ed_queue := q, ed_contents := d\<rparr>)) (\<lambda>_. returnE (Some 0))"

text \<open>The keys are those of the expiry queue, which is in the order of times not after \<open>now\<close>.\<close>

definition ed_ok :: "pyfloat \<Rightarrow> ('k, 'v) expiring_dict \<Rightarrow> bool" where
  "ed_ok now s \<longleftrightarrow> dict_ok (ed_contents s) \<and> in_time_order (ed_queue s) \<and> set (dkeys (ed_contents s)) = eq_keys (ed_queue s) \<and>
     (\<forall>t \<in> snd ` set (eq_queue (ed_queue s)). t \<le> now)"

lemma ed_ok_later: "ed_ok now s \<Longrightarrow> now \<le> later \<Longrightarrow> ed_ok later s"
  by (force simp: ed_ok_def)

lemma ed_setitem_ok:
  assumes "ed_ok now s" "tick (aq_world q) = (t, w)" "now \<le> t"
  shows "\<exists>s'. fst (snd (ed_setitem tick call cleanup args key v (s, q))) = s' \<and> ed_ok t s' \<and>
    (\<forall>k. dget (ed_contents s') k = (if k = key then Some v else dget (ed_contents s) k)) \<and> ed_time s' = ed_time s"
proof (cases "dget (ed_contents s) key")
  case None
  define s' where "s' = s\<lparr>ed_contents := dput key v (ed_contents s), ed_queue := eq_add t key (ed_queue s)\<rparr>"
  have r: "fst (snd (ed_setitem tick call cleanup args key v (s, q))) = s'"
    using None assms(2)
    by (simp add: ed_setitem_def ed_add_def bindE_apply eff_apply on_fst_apply on_snd_apply time_now_def s'_def)
  have n: "key \<notin> eq_keys (ed_queue s)"
    using None assms(1) dget_Some_iff_key [of "ed_contents s" key] by (auto simp: ed_ok_def)
  have t: "\<forall>u \<in> snd ` set (eq_queue (ed_queue s)). u \<le> t" using assms(1,3) by (force simp: ed_ok_def)
  have "in_time_order (eq_add t key (ed_queue s))" using assms(1) n t by (intro add_in_order) (auto simp: ed_ok_def)
  moreover have "eq_queue (eq_add t key (ed_queue s)) = eq_queue (ed_queue s) @ [(key, t)]"
    using n by (simp add: eq_add_def eq_keys_def dput_new)
  moreover have "eq_keys (eq_add t key (ed_queue s)) = insert key (eq_keys (ed_queue s))"
    by (simp add: eq_add_def eq_keys_def keys_dput [simplified])
  moreover have "set (dkeys (ed_contents s)) = eq_keys (ed_queue s)" using assms(1) by (simp add: ed_ok_def)
  ultimately have "ed_ok t s'"
    using assms(1) t by (auto simp: ed_ok_def s'_def keys_dput [simplified])
  then show ?thesis using r by (simp add: s'_def)
next
  case (Some u)
  define s' where "s' = s\<lparr>ed_contents := dput key v (ed_contents s)\<rparr>"
  have r: "fst (snd (ed_setitem tick call cleanup args key v (s, q))) = s'"
    using Some by (simp add: ed_setitem_def bindE_apply eff_apply on_fst_apply s'_def)
  have "key \<in> set (dkeys (ed_contents s))" using Some by (rule dget_in_keys)
  then have "set (dkeys (dput key v (ed_contents s))) = set (dkeys (ed_contents s))" by (auto simp: keys_dput [simplified])
  then have "ed_ok now s'" using assms(1) by (simp add: ed_ok_def s'_def)
  then show ?thesis using r ed_ok_later [OF _ assms(3)] by (simp add: s'_def)
qed

lemma ed_delitem_ok:
  assumes "ed_ok now s"
  shows "ed_ok now (snd (ed_delitem key s))"
proof (cases "dget (ed_contents s) key")
  case None
  then show ?thesis using assms by (simp add: ed_delitem_def bindE_apply eff_apply guardR_def)
next
  case (Some u)
  have "set (eq_queue (eq_remove key (ed_queue s))) \<subseteq> set (eq_queue (ed_queue s))"
    by (auto simp: eq_remove_def AList.delete_eq)
  moreover have "sorted (map snd (eq_queue (eq_remove key (ed_queue s))))"
    using assms by (auto simp: ed_ok_def in_time_order_def eq_remove_def AList.delete_eq intro!: sorted_filter)
  ultimately show ?thesis using assms Some
    by (auto simp: ed_delitem_def bindE_apply eff_apply guardR_def ed_ok_def in_time_order_def eq_remove_def eq_keys_def
        keys_ddel [simplified])
qed

lemma fold_ddel: "fold (\<lambda>k d. if dget d k \<noteq> None then ddel k d else d) xs d = filter (\<lambda>(k, _). k \<notin> set xs) d"
proof (induction xs arbitrary: d)
  case (Cons x xs)
  have "(if dget d x \<noteq> None then ddel x d else d) = filter (\<lambda>(k, _). k \<noteq> x) d"
  proof (cases "dget d x")
    case None
    then have "x \<notin> set (dkeys d)" using dget_Some_iff_key [of d x] by auto
    then have "\<forall>p \<in> set d. fst p \<noteq> x" by force
    then show ?thesis using None by (simp add: case_prod_beta)
  next
    case (Some u)
    then show ?thesis by (auto simp: AList.delete_eq intro: filter_cong)
  qed
  then show ?case using Cons by (auto simp: conj_commute intro: filter_cong)
qed (auto simp: case_prod_beta)

text \<open>What a node does with a dictionary; the clock goes forward.\<close>

inductive ed_step :: "'w clock \<Rightarrow> pyfloat \<times> ('k, 'v) expiring_dict \<times> ('f, 'b, 'w) alarm_queue \<Rightarrow>
    pyfloat \<times> ('k, 'v) expiring_dict \<times> ('f, 'b, 'w) alarm_queue \<Rightarrow> bool" for tick where
  stored: "ed_setitem tick call cleanup args key v (s, q) = (r, s', q') \<Longrightarrow> t = fst (tick (aq_world q)) \<Longrightarrow> now \<le> t \<Longrightarrow>
    ed_step tick (now, s, q) (t, s', q')"
| deleted: "ed_delitem key s = (r, s') \<Longrightarrow> ed_step tick (now, s, q) (now, s', q)"
| cleaned: "ed_cleanup t s = (r, s') \<Longrightarrow> now \<le> t \<Longrightarrow> ed_step tick (now, s, q) (t, s', q')"

lemma ed_cleanup_ok:
  assumes "ed_ok now s" "now \<le> t"
  shows "\<exists>s'. ed_cleanup t s = (Inr (Some 0), s') \<and> ed_ok t s' \<and> ed_contents s' = filter (\<lambda>(k, _).
    \<forall>u. dget (eq_queue (ed_queue s)) k = Some u \<longrightarrow> \<not> expired t (time_to_live_sec (ed_queue s)) u) (ed_contents s)"
proof -
  have ord: "in_time_order (ed_queue s)" using assms(1) by (simp add: ed_ok_def)
  obtain xs q' where r: "remove_expired t None ed_remove_item (ed_queue s, ed_contents s) =
      (Inr xs, q', filter (\<lambda>(k, _). k \<notin> set xs) (ed_contents s))" "in_time_order q'"
    "set xs = {x. \<exists>u. dget (eq_queue (ed_queue s)) x = Some u \<and> expired t (time_to_live_sec (ed_queue s)) u}"
    "\<forall>x. dget (eq_queue q') x = (if x \<in> set xs then None else dget (eq_queue (ed_queue s)) x)"
    using remove_expired_in_order [OF ord, of t "\<lambda>k d. if dget d k \<noteq> None then ddel k d else d" "ed_contents s"]
    unfolding fold_ddel ed_remove_item_def [abs_def] by blast
  define s' where "s' = s\<lparr>ed_queue := q', ed_contents := filter (\<lambda>(k, _). k \<notin> set xs) (ed_contents s)\<rparr>"
  have c: "ed_cleanup t s = (Inr (Some 0), s')" using r(1) by (simp add: ed_cleanup_def bindE_apply eff_apply s'_def)
  have keys: "eq_keys q' = eq_keys (ed_queue s) - set xs"
  proof (rule set_eqI)
    fix x
    have "dget (eq_queue q') x = (if x \<in> set xs then None else dget (eq_queue (ed_queue s)) x)" using r(4) by blast
    then show "x \<in> eq_keys q' \<longleftrightarrow> x \<in> eq_keys (ed_queue s) - set xs" by (simp add: eq_keys_mem)
  qed
  have "\<forall>u \<in> snd ` set (eq_queue q'). u \<le> t"
  proof
    fix u assume "u \<in> snd ` set (eq_queue q')"
    then obtain x where "(x, u) \<in> set (eq_queue q')" by auto
    then have "dget (eq_queue q') x = Some u" using r(2) by (auto simp: in_time_order_def intro: dget_mem)
    with r(4) have "dget (eq_queue (ed_queue s)) x = Some u" by (metis option.distinct(1))
    then have "(x, u) \<in> set (eq_queue (ed_queue s))" by (rule map_of_SomeD)
    then show "u \<le> t" using assms by (force simp: ed_ok_def)
  qed
  moreover have "dict_ok (filter (\<lambda>(k, _). k \<notin> set xs) (ed_contents s))"
    using assms(1) by (auto simp: ed_ok_def dict_ok_def distinct_map intro: inj_on_subset)
  moreover have "set (dkeys (filter (\<lambda>(k, _). k \<notin> set xs) (ed_contents s))) = set (dkeys (ed_contents s)) - set xs"
    by force
  ultimately have "ed_ok t s'" using assms(1) r(2) keys by (simp add: ed_ok_def s'_def)
  moreover have "ed_contents s' = filter (\<lambda>(k, _).
    \<forall>u. dget (eq_queue (ed_queue s)) k = Some u \<longrightarrow> \<not> expired t (time_to_live_sec (ed_queue s)) u) (ed_contents s)"
    using r(3) by (auto simp: s'_def intro: filter_cong)
  ultimately show ?thesis using c by blast
qed


end
