(* ===== verification/LibExamples.thy ===== *)
theory LibExamples
  imports Tracker Expiring
begin

text \<open>
  The properties of the buffers, the tracker, the alarm queue and the containers of the bloXroute library at concrete
  inputs: each theorem applies one of them with its hypotheses evaluated.
\<close>

section \<open>Buffers\<close>

definition demo_in :: input_buffer where
  "demo_in = \<lparr>input_list = [(PyBytes, [1, 2, 3]), (ByteArray, [4, 5])], in_length = 5\<rparr>"

theorem endswith_run_witness:
  "\<exists>b'. buffer_endswith [3, 4, 5] demo_in = (Inr True, b') \<and> in_content b' = [1, 2, 3, 4, 5]"
  using endswith_run [of demo_in "[3, 4, 5]"]
  by (auto simp: demo_in_def in_ok_def in_content_def ends_with_def)

theorem endswith_loses_bytes_witness:
  "\<exists>b'. buffer_endswith [7, 8, 9] (snd (add_bytes (PyBytes, [1, 2]) InputBuffer)) = (Inr False, b') \<and> in_content b' = [2] \<and> in_length b' = 2"
  using endswith_loses_bytes [of "[1, 2]" "[7, 8, 9]"] by simp

theorem send_loop_returns_witness:
  "\<exists>data b'. send_loop (\<lambda>i. i < 2) (\<lambda>i. of_nat i) 0 [] (OutputBuffer (Some 4) (Some 0) True) = Some (Inr data, b') \<and> [] = data @ out_pending b'"
  using send_loop_returns [OF OutputBuffer_ok(1) [of "Some 4" "Some 0" True], of "\<lambda>i. i < 2" "\<lambda>i. of_nat i" 0 "[]"] OutputBuffer_ok [of "Some 4" "Some 0" True] by auto

definition demo_ops :: "(pyfloat \<times> piece, pyfloat) queue_op list" where
  "demo_ops = [Put (0, ByteArray, [1, 2]), Put (0, ByteArray, [3, 4, 5]), Get 1, Put (1, MemView, [6])]"

theorem output_fifo_witness:
  "\<exists>out b. run_ops (\<lambda>(now, p). enqueue_msgbytes now p) send_round demo_ops (OutputBuffer (Some 4) (Some 1) False) = (Inr out, b) \<and>
     [1, 2, 3, 4, 5, 6] = out @ out_pending b \<and> out = [1, 2]"
proof -
  have "fst (run_ops (\<lambda>(now, p). enqueue_msgbytes now p) send_round demo_ops (OutputBuffer (Some 4) (Some 1) False)) = Inr [1, 2]"
    by code_simp
  then obtain b where "run_ops (\<lambda>(now, p). enqueue_msgbytes now p) send_round demo_ops (OutputBuffer (Some 4) (Some 1) False) = (Inr [1, 2], b)"
    by (metis prod.collapse)
  from output_fifo [OF this] this show ?thesis by (auto simp: demo_ops_def)
qed

definition demo_out :: output_buffer where
  "demo_out = snd (enqueue_msgbytes 0 (ByteArray, [1, 2]) (OutputBuffer (Some 4) (Some 0) False))"

definition demo_tracker :: "nat tracker" where
  "demo_tracker = append_message 0 2 (Some 7) None MessageTracker"

lemma demo_queued: "enqueue_msgbytes 0 (ByteArray, [1, 2]) (OutputBuffer (Some 4) (Some 0) False) = (Inr (), demo_out)"
  "ob_index demo_out = 0" "piece_rests demo_out = [2]"
  by code_simp+

theorem prepend_diverges_witness:
  "\<exists>b'. prepend_msgbytes (ByteArray, [9, 9, 9]) demo_out = (Inr (), b') \<and> piece_rests b' = [3, 2] \<and>
     map left_of (tr_messages (prepend_message 0 3 (Some 8) None demo_tracker)) = [2, 3]"
proof -
  have "follows MessageTracker (OutputBuffer (Some 4) (Some 0) False)"
    using OutputBuffer_ok(1) [of "Some 4" "Some 0" False] by (simp add: follows_def MessageTracker_def OutputBuffer_def piece_rests_def)
  from follows_append [OF this, of "(ByteArray, [1, 2])" 0 0 "Some (7 :: nat)" None] demo_queued(1)
  have "follows demo_tracker demo_out"
    by (auto simp: demo_tracker_def)
  from prepend_diverges [OF this demo_queued(2), of "(ByteArray, [9, 9, 9])"] show ?thesis by (auto simp: demo_queued)
qed


section \<open>The alarm queue\<close>

text \<open>The world is the clock; an alarm with argument True asks to be run again after five seconds.\<close>

definition demo_clock :: "pyfloat clock" where
  "demo_clock w = (w, w)"

definition demo_call :: "(nat, bool, pyfloat) callback" where
  "demo_call fn again = (if again then returnE (Some 5) else one_shot (\<lambda>_ _ w. w) fn again)"

definition at_time :: "pyfloat \<Rightarrow> (nat, bool, pyfloat) alarm_queue \<Rightarrow> (nat, bool, pyfloat) alarm_queue" where
  "at_time t q = q\<lparr>aq_world := t\<rparr>"

text \<open>Two approximate alarms of one function, due after one and after two seconds.\<close>

definition two_alarms :: "(nat, bool, pyfloat) alarm_queue" where
  "two_alarms = snd (thenE (register_approx_alarm demo_clock demo_call 1 0 7 True)
     (register_approx_alarm demo_clock demo_call 2 0 7 False) (AlarmQueue 0))"

definition rescheduled :: "(nat, bool, pyfloat) alarm_queue" where
  "rescheduled = snd (bindE pop_alarm (run_alarm demo_clock demo_call) (at_time 1 two_alarms))"

lemma two_alarms_eq: "two_alarms = \<lparr>aq_ids =
   [\<lparr>fire_time = 1, al_count = 0, al_fn = 7, al_args = True, alarm_fire_time = 1, is_active = True\<rparr>,
    \<lparr>fire_time = 2, al_count = 1, al_fn = 7, al_args = False, alarm_fire_time = 2, is_active = True\<rparr>],
   alarms = [0, 1], uniq_count = 2, approx_scheduled = [(7, [0, 1])], aq_world = 0\<rparr>"
  by code_simp

lemma rescheduled_run: "bindE pop_alarm (run_alarm demo_clock demo_call) (at_time 1 two_alarms) = (Inr (), rescheduled)"
   "rescheduled = \<lparr>aq_ids =
   [\<lparr>fire_time = 6, al_count = 0, al_fn = 7, al_args = True, alarm_fire_time = 6, is_active = True\<rparr>,
    \<lparr>fire_time = 2, al_count = 1, al_fn = 7, al_args = False, alarm_fire_time = 2, is_active = True\<rparr>],
   alarms = [1, 0], uniq_count = 2, approx_scheduled = [(7, [0, 1])], aq_world = 1\<rparr>"
  unfolding rescheduled_def two_alarms_eq by code_simp+

lemma rescheduled_pop: "heappop (alarm_key (aq_ids rescheduled)) (alarms rescheduled) = Inr (1, [0])"
  unfolding rescheduled_run(2) by code_simp

text \<open>The state in which the clean-up fails is the one that firing the alarms after one second leaves.\<close>

lemma rescheduled_by_firing: "fire_alarms demo_clock demo_call (at_time 1 two_alarms) = Some (Inr (), rescheduled)"
proof -
  let ?q = "at_time 1 two_alarms"
  have "fire_loop demo_clock demo_call 1 rescheduled = Some (Inr (), rescheduled)"
    by (subst fire_loop.simps) (simp add: rescheduled_run(2))
  moreover have "alarms ?q = [0, 1]" "fire_time (aq_ids ?q ! 0) = 1" by (simp_all add: two_alarms_eq at_time_def)
  ultimately have "fire_loop demo_clock demo_call 1 ?q = Some (Inr (), rescheduled)"
    by (subst fire_loop.simps) (simp add: rescheduled_run(1))
  then show ?thesis by (simp add: fire_alarms_def two_alarms_eq at_time_def demo_clock_def)
qed


lemma keeps_demo_call: "keeps (aq_inv D) (demo_call fn a)"
  by (auto simp: keeps_def demo_call_def one_shot_def eff_apply)

lemma two_alarms_inv: "aq_inv {} (at_time t two_alarms)"
proof -
  have "keeps (aq_inv {}) (thenE (register_approx_alarm demo_clock demo_call 1 0 7 True)
     (register_approx_alarm demo_clock demo_call 2 0 7 False))"
    by (intro keeps_intros keeps_demo_call)
  from keepsD [OF this AlarmQueue_inv] show ?thesis by (simp add: at_time_def two_alarms_def)
qed


definition plain_alarms :: "(nat, bool, pyfloat) alarm_queue" where
  "plain_alarms = two_alarms\<lparr>approx_scheduled := [], aq_world := 3\<rparr>"


section \<open>The containers\<close>

text \<open>The world gives the priority of every object.\<close>

definition demo_item :: "nat \<Rightarrow> (nat \<Rightarrow> int, nat, int) object_priority" where
  "demo_item n = ObjectPriority (\<lambda>w x. w x) n"

definition demo_pq :: "(nat \<Rightarrow> int, nat, int) priority_queue" where
  "demo_pq = snd (thenE (pq_add (demo_item 1)) (pq_add (demo_item 2)) (PriorityQueue True))"

theorem pop_after_update_witness:
  "\<exists>q'. bindE (update_priority (\<lambda>n. if n = 1 then 9 else 4)) (\<lambda>_. pq_pop) demo_pq = (Inr 2, q') \<and> dget (items_dict q') 2 = None"
proof -
  have d: "items_dict demo_pq = [(1, demo_item 1), (2, demo_item 2)]" "is_reversed demo_pq"
    by (simp_all add: demo_pq_def pq_add_def PriorityQueue_def eff_apply bindE_apply demo_item_def)
  have "keeps pq_ok (thenE (pq_add (demo_item 1)) (pq_add (demo_item 2)))" by (intro keeps_intros keeps_pq)
  from keepsD [OF this PriorityQueue_ok] have "pq_ok demo_pq" by (simp add: demo_pq_def)
  from pop_after_update [OF this, of "\<lambda>n. if n = 1 then 9 else 4"] obtain obj item q' where
    r: "bindE (update_priority (\<lambda>n. if n = 1 then 9 else 4)) (\<lambda>_. pq_pop) demo_pq = (Inr obj, q')"
    "dget (items_dict demo_pq) obj = Some item" "dget (items_dict q') obj = None"
    "\<And>k v. dget (items_dict demo_pq) k = Some v \<Longrightarrow>
       get_priority (\<lambda>n. if n = 1 then 9 else 4) item \<le> get_priority (\<lambda>n. if n = 1 then 9 else 4) v"
    using d by auto
  from r(2) r(4) [of 2 "demo_item 2"] have "obj = 2"
    by (auto simp: d demo_item_def get_priority_def split: if_splits)
  with r show ?thesis by blast
qed

definition demo_expiry :: "nat expiration_queue" where
  "demo_expiry = eq_add 9 2 (eq_add 3 1 \<lparr>time_to_live_sec = 5, eq_queue = []\<rparr>)"

theorem remove_expired_in_order_witness:
  "\<exists>removed q'. remove_expired 9 None (\<lambda>x. modE (Cons x)) (demo_expiry, []) = (Inr removed, q', fold Cons removed []) \<and> set removed = {1}"
proof -
  have "in_time_order demo_expiry" "eq_queue demo_expiry = [(1, 3), (2, 9)]" "time_to_live_sec demo_expiry = 5"
     by code_simp+
  moreover have "expired 9 5 3" "\<not> expired 9 5 9" by code_simp+
  ultimately show ?thesis using remove_expired_in_order [of demo_expiry 9 Cons "[]"] by (fastforce split: if_splits)
qed

theorem readded_blocks_witness:
  "get_oldest (eq_add 9 1 demo_expiry) = Some 1 \<and>
     remove_expired 12 None (\<lambda>x. modE (Cons x)) (eq_add 9 1 demo_expiry, []) = (Inr [], eq_add 9 1 demo_expiry, [])"
proof -
  have "eq_queue demo_expiry = [(1, 3), (2, 9)]" "\<not> expired 12 (time_to_live_sec demo_expiry) 9" by code_simp+
  from readded_blocks [OF this, of None "\<lambda>x. modE (Cons x)" "[]"] show ?thesis by blast
qed

definition demo_limited :: "nat limited_size_set" where
  "demo_limited = \<lparr>ls_contents = {1, 2}, item_tracker = [2, 1], ls_max_size = 2\<rparr>"

theorem limited_set_add_witness:
  "\<exists>s'. ls_add 3 demo_limited = (Inr (), s') \<and> item_tracker s' = [1, 3]"
proof -
  have "ls_ok demo_limited" "1 \<le> ls_max_size demo_limited" by (auto simp: demo_limited_def ls_ok_def)
  from limited_set_add [OF this, of 3] show ?thesis by (auto simp: demo_limited_def)
qed

definition demo_expiring :: "nat expiring_set" where
  "demo_expiring = \<lparr>es_contents = {}, es_queue = \<lparr>time_to_live_sec = 5, eq_queue = []\<rparr>, es_time = 5\<rparr>"

theorem expiring_set_tracked_witness:
  "\<exists>r s q. es_add demo_clock demo_call 7 False 4 (demo_expiring, AlarmQueue 0) = (r, s, q) \<and> es_contents s = {4} \<and> {4} \<subseteq> eq_keys (es_queue s)"
proof -
  obtain r s q where e: "es_add demo_clock demo_call 7 False 4 (demo_expiring, AlarmQueue 0) = (r, s, q)"
    by (metis prod.collapse)
  have "es_contents (fst (snd (es_add demo_clock demo_call 7 False 4 (demo_expiring, AlarmQueue 0)))) = {4}"
    by (simp add: es_add_def on_fst_apply on_snd_apply eff_apply bindE_apply time_now_def demo_clock_def AlarmQueue_def demo_expiring_def)
  moreover have "ExpiringSet 5 = Inr demo_expiring" by (simp add: ExpiringSet_def ExpirationQueue_def demo_expiring_def)
  from expiring_set_tracked [OF this r_into_rtranclp [of es_step, OF es_step.added [OF e]]] have "es_contents s \<subseteq> eq_keys (es_queue s)" ..
  ultimately show ?thesis using e by simp
qed

definition demo_dict :: "(nat, string) expiring_dict" where
  "demo_dict = \<lparr>ed_contents = [], ed_queue = \<lparr>time_to_live_sec = 5, eq_queue = []\<rparr>, ed_time = 5\<rparr>"


end
