(* ===== verification/TxService.thy ===== *)
theory TxService
  imports Expiring PyStr
begin

text \<open>
  The transaction service of the bloXroute library (bxcommon/services/transaction_service.py): which short ids
  stand for which transaction, and the contents of the transactions. The state here is the service with the world that the
  clock belongs to; the alarms of the service are in theory \<open>TxNode\<close>. A transaction hash is its 32 bytes, a cache key the hexadecimal
  text of it. A Python set of short ids is the list of its members in the order of its iteration; \<open>set_add\<close>, a parameter, says where a
  new member goes. Flags are integers with one bit per flag. Logs and the statistics of transactions are left out.
\<close>

unbundle bit_operations_syntax

section \<open>Hashes and keys\<close>

fun unhexlify :: "string \<Rightarrow> bytes res" where
  "unhexlify [] = Inr []"
| "unhexlify [c] = Inl ValueError"
| "unhexlify (c # d # s) =
     (case (char_digit c, char_digit d) of
        (Some h, Some l) \<Rightarrow> bindR (unhexlify s) (\<lambda>bs. Inr (word_of_nat (16 * h + l) # bs))
      | _ \<Rightarrow> Inl ValueError)"

lemma unhexlify_hex_bytes [simp]: "unhexlify (hex_bytes bs) = Inr bs"
proof (induction bs)
  case (Cons b bs)
  have u: "unat b div 16 < 16" "unat b mod 16 < 16" using unat_byte [of b] by auto
  have "word_of_nat (16 * (unat b div 16) + unat b mod 16) = b"
    by (metis mult_div_mod_eq word_of_nat_unat_byte)
  then show ?case using u Cons by (simp add: byte_hex_def)
qed simp

definition SHA256_HASH_LEN :: nat where
  "SHA256_HASH_LEN = 32"

definition Sha256Hash :: "bytes \<Rightarrow> bytes res" where
  "Sha256Hash b = (if length b \<noteq> SHA256_HASH_LEN then Inl ValueError else Inr b)"

definition tx_cache_key_to_hash :: "string \<Rightarrow> bytes res" where
  "tx_cache_key_to_hash key = bindR (unhexlify key) Sha256Hash"

definition tx_hash_to_cache_key :: "bytes \<Rightarrow> string" where
  "tx_hash_to_cache_key h = hex_bytes h"

record tx_key =
  tk_hash :: bytes
  tk_cache :: string

text \<open>The cache key of a \<open>TransactionKey\<close> is computed from the hash unless it was given.\<close>

definition get_transaction_key :: "bytes option \<Rightarrow> string option \<Rightarrow> tx_key res" where
  "get_transaction_key hash key =
     bindR (case hash of
        Some h \<Rightarrow> Inr h
      | None \<Rightarrow> bindR (opt_res AssertionError key) tx_cache_key_to_hash) (\<lambda>h.
     Inr \<lparr>tk_hash = h, tk_cache = (case key of Some k \<Rightarrow> k | None \<Rightarrow> tx_hash_to_cache_key h)\<rparr>)"

definition key_ok :: "tx_key \<Rightarrow> bool" where
  "key_ok k \<longleftrightarrow> tx_cache_key_to_hash (tk_cache k) = Inr (tk_hash k)"

lemma key_of_hash: "length h = 32 \<Longrightarrow> \<exists>k. get_transaction_key (Some h) None = Inr k \<and> key_ok k \<and> tk_hash k = h"
  by (simp add: get_transaction_key_def key_ok_def tx_cache_key_to_hash_def tx_hash_to_cache_key_def Sha256Hash_def SHA256_HASH_LEN_def)

section \<open>The state of the service\<close>

definition NULL_TX_SID :: int where
  "NULL_TX_SID = 0"

definition PAID_TX :: int where
  "PAID_TX = 2"

record tx_service =
  key_to_short_ids :: "(string, int list) dict"
  short_id_to_key :: "(int, string) dict"
  short_id_to_flag :: "(int, int) dict"
  key_to_contents :: "(string, bytes) dict"
  assignment_queue :: "int expiration_queue"
  without_short_id :: "bytes expiration_queue"
  without_content :: "bytes expiration_queue"
  hash_time_removed :: "(string, pyfloat) dict"
  sid_time_removed :: "(int, pyfloat) dict"
  seen_in_block :: "(bytes, int list) dict"
  total_contents_size :: int
  removed_by_memory_limit :: int
  removed_short_ids :: "int set"
  assign_alarm_scheduled :: bool
  no_sid_alarm_scheduled :: bool
  no_content_alarm_scheduled :: bool
  confirmations_count :: int
  memory_limit :: int
  history_expiration :: int
  sid_expire_time :: int
  dump_removed :: bool

type_synonym ('w, 'r) sv_eff = "(tx_service \<times> 'w, 'r) eff"

definition sv :: "(tx_service \<Rightarrow> 'r) \<Rightarrow> ('w, 'r) sv_eff" where
  "sv f = getE (\<lambda>(s, _). f s)"

definition mod_sv :: "(tx_service \<Rightarrow> tx_service) \<Rightarrow> ('w, unit) sv_eff" where
  "mod_sv f = modE (\<lambda>(s, w). (f s, w))"

definition clock_now :: "('w \<Rightarrow> pyfloat \<times> 'w) \<Rightarrow> ('w, pyfloat) sv_eff" where
  "clock_now tick = (\<lambda>(s, w). case tick w of (t, w') \<Rightarrow> (Inr t, s, w'))"

text \<open>The configuration: the network of the service, when the node knows it, and the options of the node.\<close>

record network_config =
  final_tx_confirmations_count :: int
  removed_transactions_history_expiration_s :: int
  tx_contents_memory_limit_bytes :: "int option"

definition get_final_tx_confirmations_count :: "network_config option \<Rightarrow> int" where
  "get_final_tx_confirmations_count network = (case network of Some n \<Rightarrow> final_tx_confirmations_count n | None \<Rightarrow> 24)"

definition get_removed_history_expiration :: "network_config option \<Rightarrow> int" where
  "get_removed_history_expiration network =
     (case network of Some n \<Rightarrow> removed_transactions_history_expiration_s n | None \<Rightarrow> 6 * 60 * 60)"

definition get_tx_contents_memory_limit :: "int option \<Rightarrow> network_config option \<Rightarrow> int" where
  "get_tx_contents_memory_limit pool_limit network =
     (case pool_limit of
        Some mb \<Rightarrow> mb * 1024 * 1024
      | None \<Rightarrow> (case network of
          Some n \<Rightarrow> (case tx_contents_memory_limit_bytes n of None \<Rightarrow> 250 * 1024 * 1024 | Some b \<Rightarrow> b)
        | None \<Rightarrow> 250 * 1024 * 1024))"

definition TX_CONTENT_NO_SID_EXPIRE_S :: int where
  "TX_CONTENT_NO_SID_EXPIRE_S = 60 * 15"

text \<open>The state that \<open>__init__\<close> builds; its two alarms are registered in \<open>TxNode\<close>.\<close>

definition new_tx_service :: "int \<Rightarrow> int option \<Rightarrow> bool \<Rightarrow> network_config option \<Rightarrow> tx_service res" where
  "new_tx_service expire pool_limit dump network =
     bindR (ExpirationQueue expire) (\<lambda>q.
     bindR (ExpirationQueue TX_CONTENT_NO_SID_EXPIRE_S) (\<lambda>q1.
     Inr \<lparr>key_to_short_ids = [], short_id_to_key = [], short_id_to_flag = [], key_to_contents = [], assignment_queue = q,
       without_short_id = q1, without_content = q1, hash_time_removed = [], sid_time_removed = [], seen_in_block = [],
       total_contents_size = 0, removed_by_memory_limit = 0, removed_short_ids = {}, assign_alarm_scheduled = False,
       no_sid_alarm_scheduled = False, no_content_alarm_scheduled = False,
       confirmations_count = get_final_tx_confirmations_count network,
       memory_limit = get_tx_contents_memory_limit pool_limit network,
       history_expiration = get_removed_history_expiration network, sid_expire_time = expire, dump_removed = dump\<rparr>))"

section \<open>Reading\<close>

definition get_short_id_transaction_type :: "tx_service \<Rightarrow> int \<Rightarrow> int" where
  "get_short_id_transaction_type s sid = (case dget (short_id_to_flag s) sid of Some f \<Rightarrow> f | None \<Rightarrow> 0)"

definition is_paid :: "int \<Rightarrow> bool" where
  "is_paid f \<longleftrightarrow> PAID_TX AND f \<noteq> 0"

definition set_short_id_transaction_type :: "int \<Rightarrow> int \<Rightarrow> tx_service \<Rightarrow> tx_service" where
  "set_short_id_transaction_type sid f s =
     (if is_paid f then s\<lparr>short_id_to_flag := dput sid f (short_id_to_flag s)\<rparr> else s)"

definition get_short_ids_by_key :: "tx_service \<Rightarrow> tx_key \<Rightarrow> int list" where
  "get_short_ids_by_key s k = (case dget (key_to_short_ids s) (tk_cache k) of Some l \<Rightarrow> l | None \<Rightarrow> [NULL_TX_SID])"

definition get_short_id_by_key :: "tx_service \<Rightarrow> tx_key \<Rightarrow> int res" where
  "get_short_id_by_key s k = (case get_short_ids_by_key s k of [] \<Rightarrow> Inl (Raised ''StopIteration'') | sid # _ \<Rightarrow> Inr sid)"

record tx_info =
  ti_hash :: "bytes option"
  ti_contents :: "bytes option"
  ti_short_id :: int

definition get_transaction :: "tx_service \<Rightarrow> int \<Rightarrow> tx_info res" where
  "get_transaction s sid =
     (case dget (short_id_to_key s) sid of
        None \<Rightarrow> Inr \<lparr>ti_hash = None, ti_contents = None, ti_short_id = sid\<rparr>
      | Some key \<Rightarrow> bindR (tx_cache_key_to_hash key) (\<lambda>h.
          Inr \<lparr>ti_hash = Some h, ti_contents = dget (key_to_contents s) key, ti_short_id = sid\<rparr>))"

text \<open>\<open>get_transactions\<close> sorts the asked short ids into found and missing ones.\<close>

definition search_step :: "tx_service \<Rightarrow> int \<Rightarrow> tx_info list \<times> tx_info list \<Rightarrow> (tx_info list \<times> tx_info list) res" where
  "search_step s sid = (\<lambda>(found, missing).
     bindR (get_transaction s sid) (\<lambda>i.
       Inr (if ti_contents i \<noteq> None then (found @ [i], missing) else (found, missing @ [i]))))"

definition get_transactions :: "tx_service \<Rightarrow> int list \<Rightarrow> (tx_info list \<times> tx_info list) res" where
  "get_transactions s sids = foldR (search_step s) sids ([], [])"

definition missing_step ::
    "tx_service \<Rightarrow> int \<Rightarrow> bool \<times> int list \<times> bytes list \<Rightarrow> (bool \<times> int list \<times> bytes list) res" where
  "missing_step s sid = (\<lambda>(has_missing, sids, hashes).
     case dget (short_id_to_key s) sid of
       None \<Rightarrow> Inr (True, sids @ [sid], hashes)
     | Some key \<Rightarrow> bindR (get_transaction_key None (Some key)) (\<lambda>k.
         Inr (if dget (key_to_contents s) (tk_cache k) = None then (True, sids, hashes @ [tk_hash k])
              else (has_missing, sids, hashes))))"

definition get_missing_transactions :: "tx_service \<Rightarrow> int list \<Rightarrow> (bool \<times> int list \<times> bytes list) res" where
  "get_missing_transactions s sids = foldR (missing_step s) sids (False, [], [])"

definition get_transaction_by_key :: "tx_service \<Rightarrow> tx_key \<Rightarrow> bytes option" where
  "get_transaction_by_key s k = dget (key_to_contents s) (tk_cache k)"

definition removed_transaction_by_key :: "tx_service \<Rightarrow> tx_key \<Rightarrow> bool" where
  "removed_transaction_by_key s k \<longleftrightarrow> dget (hash_time_removed s) (tk_cache k) \<noteq> None"

definition get_short_id_assign_time :: "tx_service \<Rightarrow> int \<Rightarrow> pyfloat" where
  "get_short_id_assign_time s sid = (case dget (eq_queue (assignment_queue s)) sid of Some t \<Rightarrow> t | None \<Rightarrow> 0)"

text \<open>\<open>_iter_block_seen_by_time\<close>: the last block is included when none is skipped at the end, and so is the first of the skipped ones.\<close>

definition iter_block_seen_by_time :: "tx_service \<Rightarrow> int \<Rightarrow> int \<Rightarrow> bytes list" where
  "iter_block_seen_by_time s skip_start skip_end =
     (let e = int (length (seen_in_block s)) - skip_end
      in map snd (filter (\<lambda>(i, _). skip_start \<le> int i \<and> int i \<le> e) (enumerate 0 (dkeys (seen_in_block s)))))"

definition get_oldest_tracked_block :: "tx_service \<Rightarrow> int \<Rightarrow> bytes list" where
  "get_oldest_tracked_block s n = iter_block_seen_by_time s 0 n"

definition get_tracked_blocks :: "tx_service \<Rightarrow> int \<Rightarrow> int \<Rightarrow> (bytes, nat) dict" where
  "get_tracked_blocks s skip_start skip_end =
     fold (\<lambda>(i, b). dput b i) (enumerate 0 (iter_block_seen_by_time s skip_start skip_end)) []"

definition on_block_cleaned_up :: "bytes \<Rightarrow> tx_service \<Rightarrow> tx_service" where
  "on_block_cleaned_up h s = s\<lparr>seen_in_block := ddel h (seen_in_block s)\<rparr>"

section \<open>Removing\<close>

definition paid_flags :: "int list \<Rightarrow> tx_service \<Rightarrow> bool res" where
  \<comment> \<open>\<open>reduce\<close> over no flags raises\<close>
  "paid_flags sids s =
     (case map (get_short_id_transaction_type s) sids of
        [] \<Rightarrow> Inl TypeError
      | f # fs \<Rightarrow> Inr (is_paid (fold (\<lambda>y x. x OR y) fs f)))"

definition note_removed :: "pyfloat \<Rightarrow> int \<Rightarrow> tx_service \<Rightarrow> tx_service" where
  "note_removed t sid s = s\<lparr>sid_time_removed := dput sid t (sid_time_removed s)\<rparr>"

definition note_dumped :: "int \<Rightarrow> tx_service \<Rightarrow> tx_service" where
  "note_dumped sid s = (if dump_removed s then s\<lparr>removed_short_ids := insert sid (removed_short_ids s)\<rparr> else s)"

definition unmap_short_id :: "int \<Rightarrow> tx_service \<Rightarrow> tx_service" where
  "unmap_short_id sid s = s\<lparr>short_id_to_key := ddel sid (short_id_to_key s)\<rparr>"

definition unqueue_short_id :: "int \<Rightarrow> tx_service \<Rightarrow> tx_service" where
  "unqueue_short_id sid s = s\<lparr>assignment_queue := eq_remove sid (assignment_queue s)\<rparr>"

definition drop_contents :: "string \<Rightarrow> pyfloat \<Rightarrow> tx_service \<Rightarrow> tx_service" where
  "drop_contents key t s =
     (case dget (key_to_contents s) key of
        None \<Rightarrow> s
      | Some c \<Rightarrow> s\<lparr>total_contents_size := total_contents_size s - int (length c),
          key_to_contents := ddel key (key_to_contents s), hash_time_removed := dput key t (hash_time_removed s)\<rparr>)"

text \<open>\<open>del self._tx_cache_key_to_short_ids[key]\<close>.\<close>

definition del_key :: "string \<Rightarrow> ('w, unit) sv_eff" where
  "del_key key =
     bindE (sv (\<lambda>s. dget (key_to_short_ids s) key \<noteq> None)) (\<lambda>known.
     thenE (liftR (guardR known KeyError))
       (mod_sv (\<lambda>s. s\<lparr>key_to_short_ids := ddel key (key_to_short_ids s)\<rparr>)))"

definition remove_related :: "pyfloat \<Rightarrow> int \<Rightarrow> int list \<Rightarrow> tx_service \<Rightarrow> tx_service" where
  "remove_related t sid sids s =
     fold (\<lambda>dup s. if dup = sid then s else note_dumped dup (unqueue_short_id dup (unmap_short_id dup (note_removed t dup s)))) sids s"

text \<open>The body of \<open>remove_transaction_by_short_id\<close> for a known short id; the flags of the removed short ids stay.\<close>

definition remove_known :: "('w \<Rightarrow> pyfloat \<times> 'w) \<Rightarrow> int \<Rightarrow> string \<Rightarrow> bool \<Rightarrow> bool \<Rightarrow> ('w, unit) sv_eff" where
  "remove_known tick sid key related force =
     bindE (clock_now tick) (\<lambda>t.
     bindE (sv (\<lambda>s. dget (key_to_short_ids s) key)) (\<lambda>known.
     bindE (case known of None \<Rightarrow> returnE False | Some l \<Rightarrow> bindE (sv (paid_flags l)) liftR) (\<lambda>paid.
     let short_ids = (case known of None \<Rightarrow> [sid] | Some l \<Rightarrow> l)
     in if paid \<and> \<not> force then returnE ()
        else
          thenE (mod_sv (\<lambda>s. note_removed t sid (unmap_short_id sid (note_dumped sid s))))
         (thenE (liftR (tx_cache_key_to_hash key))
         (thenE (if length short_ids = 1 \<or> related
                 then thenE (mod_sv (\<lambda>s. drop_contents key t (remove_related t sid short_ids s))) (del_key key)
                 else thenE (liftR (guardR (sid \<in> set short_ids) KeyError))
                        (mod_sv (\<lambda>s. s\<lparr>key_to_short_ids := dput key (remove1 sid short_ids) (key_to_short_ids s)\<rparr>)))
           (mod_sv (unqueue_short_id sid)))))))"

definition remove_transaction_by_short_id ::
    "('w \<Rightarrow> pyfloat \<times> 'w) \<Rightarrow> bool \<Rightarrow> bool \<Rightarrow> int \<Rightarrow> ('w, unit) sv_eff" where
  "remove_transaction_by_short_id tick related force sid =
     bindE (sv (\<lambda>s. dget (short_id_to_key s) sid)) (\<lambda>known.
       case known of
         None \<Rightarrow> mod_sv (unqueue_short_id sid)
       | Some key \<Rightarrow> remove_known tick sid key related force)"

definition forget_short_id :: "pyfloat \<Rightarrow> int \<Rightarrow> tx_service \<Rightarrow> tx_service" where
  "forget_short_id t sid s =
     (let s1 = note_removed t sid s;
          s2 = (if dget (short_id_to_key s1) sid = None then s1
                else (unmap_short_id sid s1)\<lparr>short_id_to_flag := ddel sid (short_id_to_flag s1)\<rparr>)
      in note_dumped sid (unqueue_short_id sid s2))"

definition remove_contents_by_key :: "('w \<Rightarrow> pyfloat \<times> 'w) \<Rightarrow> string \<Rightarrow> ('w, unit) sv_eff" where
  "remove_contents_by_key tick key =
     bindE (sv (\<lambda>s. dget (key_to_contents s) key \<noteq> None)) (\<lambda>known.
       whenE known (bindE (clock_now tick) (\<lambda>t. mod_sv (drop_contents key t))))"

definition remove_transaction_by_key ::
    "('w \<Rightarrow> pyfloat \<times> 'w) \<Rightarrow> bool \<Rightarrow> bool \<Rightarrow> tx_key \<Rightarrow> ('w, int list option) sv_eff" where
  "remove_transaction_by_key tick force assume_no_sid k =
     bindE (sv (\<lambda>s. dget (key_to_short_ids s) (tk_cache k))) (\<lambda>known.
       case known of
         None \<Rightarrow> thenE (remove_contents_by_key tick (tk_cache k)) (returnE None)
       | Some sids \<Rightarrow>
           bindE (clock_now tick) (\<lambda>t.
           if assume_no_sid \<and> sids \<noteq> [] then returnE None
           else
             bindE (bindE (sv (paid_flags sids)) liftR) (\<lambda>paid.
             if paid \<and> \<not> force then returnE None
             else
               thenE (mod_sv (\<lambda>s. fold (forget_short_id t) sids (s\<lparr>key_to_short_ids := ddel (tk_cache k) (key_to_short_ids s)\<rparr>)))
              (thenE (remove_contents_by_key tick (tk_cache k)) (returnE (Some sids))))))"

definition remove_transaction_by_tx_hash ::
    "('w \<Rightarrow> pyfloat \<times> 'w) \<Rightarrow> bool \<Rightarrow> bool \<Rightarrow> bytes \<Rightarrow> ('w, int list option) sv_eff" where
  "remove_transaction_by_tx_hash tick force assume_no_sid h =
     bindE (liftR (get_transaction_key (Some h) None)) (remove_transaction_by_key tick force assume_no_sid)"

text \<open>\<open>remove_sid_by_key\<close> deletes the short ids of a transaction without contents; it raises at the first one that is not mapped.\<close>

definition unassign_short_id :: "int \<Rightarrow> ('w, unit) sv_eff" where
  "unassign_short_id sid =
     bindE (sv (\<lambda>s. dget (short_id_to_key s) sid \<noteq> None)) (\<lambda>known.
     thenE (liftR (guardR known KeyError))
    (thenE (mod_sv (unmap_short_id sid)) (mod_sv (unqueue_short_id sid))))"

definition remove_sid_by_key :: "tx_key \<Rightarrow> ('w, unit) sv_eff" where
  "remove_sid_by_key k =
     bindE (sv (\<lambda>s. dget (key_to_contents s) (tk_cache k) \<noteq> None)) (\<lambda>has_contents.
     bindE (sv (\<lambda>s. dget (key_to_short_ids s) (tk_cache k))) (\<lambda>known.
       if has_contents then returnE ()
       else (case known of
           None \<Rightarrow> returnE ()
         | Some sids \<Rightarrow> thenE (del_key (tk_cache k)) (forE unassign_short_id sids))))"

definition remove_sid_by_tx_hash :: "bytes \<Rightarrow> ('w, unit) sv_eff" where
  "remove_sid_by_tx_hash h = bindE (liftR (get_transaction_key (Some h) None)) remove_sid_by_key"

definition clear_service :: "tx_service \<Rightarrow> tx_service" where
  "clear_service s = s\<lparr>key_to_contents := [], key_to_short_ids := [], short_id_to_key := [], seen_in_block := [],
     short_id_to_flag := [], without_content := eq_clear (without_content s), without_short_id := eq_clear (without_short_id s),
     assignment_queue := eq_clear (assignment_queue s), total_contents_size := 0\<rparr>"

section \<open>The history of removed transactions\<close>

definition REMOVED_TRANSACTIONS_HISTORY_LENGTH_LIMIT :: nat where
  "REMOVED_TRANSACTIONS_HISTORY_LENGTH_LIMIT = 500000"

fun drop_history :: "pyfloat \<Rightarrow> int \<Rightarrow> ('k, pyfloat) dict \<Rightarrow> ('k, pyfloat) dict" where
  "drop_history now expire [] = []"
| "drop_history now expire ((k, t) # d) =
     (if of_int expire < fsub now t \<or> REMOVED_TRANSACTIONS_HISTORY_LENGTH_LIMIT < length ((k, t) # d)
      then drop_history now expire d else (k, t) # d)"

definition cleanup_removed_history :: "('w \<Rightarrow> pyfloat \<times> 'w) \<Rightarrow> ('w, int) sv_eff" where
  "cleanup_removed_history tick =
     bindE (clock_now tick) (\<lambda>t.
     thenE (mod_sv (\<lambda>s. s\<lparr>hash_time_removed := drop_history t (history_expiration s) (hash_time_removed s),
         sid_time_removed := drop_history t (history_expiration s) (sid_time_removed s)\<rparr>))
       (returnE 10))"

text \<open>What \<open>remove_expired\<close> does when the queue belongs to the state that the call-back changes: the queue is read again in
  each round; \<open>n\<close> is the number of rounds that the limit allows.\<close>

fun expire_in :: "('s \<Rightarrow> 'a expiration_queue) \<Rightarrow> (('a, pyfloat) dict \<Rightarrow> 's \<Rightarrow> 's) \<Rightarrow> pyfloat \<Rightarrow> ('a \<Rightarrow> ('s, 'r) eff) \<Rightarrow> nat \<Rightarrow>
    ('s, 'a list) eff" where
  "expire_in queue put now callback 0 = returnE []"
| "expire_in queue put now callback (Suc n) =
     bindE (getE queue) (\<lambda>q. case eq_queue q of
         [] \<Rightarrow> returnE []
       | (x, t) # d \<Rightarrow>
           if expired now (time_to_live_sec q) t
           then thenE (modE (put d)) (bindE (callback x) (\<lambda>_.
                  bindE (expire_in queue put now callback n) (\<lambda>xs. returnE (x # xs))))
           else returnE [])"

definition put_assignments :: "(int, pyfloat) dict \<Rightarrow> tx_service \<times> 'w \<Rightarrow> tx_service \<times> 'w" where
  "put_assignments d = (\<lambda>(s, w). (s\<lparr>assignment_queue := (assignment_queue s)\<lparr>eq_queue := d\<rparr>\<rparr>, w))"

definition put_without_short_id :: "(bytes, pyfloat) dict \<Rightarrow> tx_service \<times> 'w \<Rightarrow> tx_service \<times> 'w" where
  "put_without_short_id d = (\<lambda>(s, w). (s\<lparr>without_short_id := (without_short_id s)\<lparr>eq_queue := d\<rparr>\<rparr>, w))"

definition put_without_content :: "(bytes, pyfloat) dict \<Rightarrow> tx_service \<times> 'w \<Rightarrow> tx_service \<times> 'w" where
  "put_without_content d = (\<lambda>(s, w). (s\<lparr>without_content := (without_content s)\<lparr>eq_queue := d\<rparr>\<rparr>, w))"

definition MAX_EXPIRED_TXS_TO_REMOVE :: nat where
  "MAX_EXPIRED_TXS_TO_REMOVE = 500"

definition MIN_CLEAN_UP_INTERVAL_S :: int where
  "MIN_CLEAN_UP_INTERVAL_S = 15"

text \<open>The delay until the oldest entry expires, or 0 when none is left; then the alarm is no longer scheduled.\<close>

definition next_cleanup :: "('w \<Rightarrow> pyfloat \<times> 'w) \<Rightarrow> (tx_service \<Rightarrow> 'a expiration_queue) \<Rightarrow> (tx_service \<Rightarrow> int) \<Rightarrow>
    (tx_service \<Rightarrow> tx_service) \<Rightarrow> ('w, pyfloat) sv_eff" where
  "next_cleanup tick queue ttl unschedule =
     bindE (sv (\<lambda>s. get_oldest_item_timestamp (queue s))) (\<lambda>oldest.
       case oldest of
         None \<Rightarrow> thenE (mod_sv unschedule) (returnE 0)
       | Some t0 \<Rightarrow> bindE (sv ttl) (\<lambda>n. bindE (clock_now tick) (\<lambda>t.
           returnE (max (fsub (fadd t0 (fl_int n)) t) (fl_int MIN_CLEAN_UP_INTERVAL_S)))))"

definition expire_old_assignments :: "('w \<Rightarrow> pyfloat \<times> 'w) \<Rightarrow> ('w, pyfloat) sv_eff" where
  "expire_old_assignments tick =
     bindE (clock_now tick) (\<lambda>t.
     thenE (expire_in (\<lambda>(s, _). assignment_queue s) put_assignments t (remove_transaction_by_short_id tick False True)
         MAX_EXPIRED_TXS_TO_REMOVE)
       (next_cleanup tick assignment_queue sid_expire_time (\<lambda>s. s\<lparr>assign_alarm_scheduled := False\<rparr>)))"

definition expire_content_without_sid :: "('w \<Rightarrow> pyfloat \<times> 'w) \<Rightarrow> ('w, pyfloat) sv_eff" where
  "expire_content_without_sid tick =
     bindE (clock_now tick) (\<lambda>t.
     thenE (expire_in (\<lambda>(s, _). without_short_id s) put_without_short_id t (remove_transaction_by_tx_hash tick True True)
         MAX_EXPIRED_TXS_TO_REMOVE)
       (next_cleanup tick without_short_id (\<lambda>_. TX_CONTENT_NO_SID_EXPIRE_S) (\<lambda>s. s\<lparr>no_sid_alarm_scheduled := False\<rparr>)))"

definition expire_sid_without_content :: "('w \<Rightarrow> pyfloat \<times> 'w) \<Rightarrow> ('w, pyfloat) sv_eff" where
  "expire_sid_without_content tick =
     bindE (clock_now tick) (\<lambda>t.
     thenE (expire_in (\<lambda>(s, _). without_content s) put_without_content t remove_sid_by_tx_hash MAX_EXPIRED_TXS_TO_REMOVE)
       (next_cleanup tick without_content (\<lambda>_. TX_CONTENT_NO_SID_EXPIRE_S) (\<lambda>s. s\<lparr>no_content_alarm_scheduled := False\<rparr>)))"

text \<open>A block counts its short ids as seen; the block that is then old enough has its transactions removed.\<close>

definition track_seen_short_ids :: "('w \<Rightarrow> pyfloat \<times> 'w) \<Rightarrow> bytes \<Rightarrow> int list \<Rightarrow> ('w, unit) sv_eff" where
  "track_seen_short_ids tick block_hash sids =
     thenE (mod_sv (\<lambda>s. s\<lparr>seen_in_block := dput block_hash sids (seen_in_block s)\<rparr>))
    (bindE (sv (\<lambda>s. (int (length (seen_in_block s)) \<ge> confirmations_count s, seen_in_block s))) (\<lambda>(final, seen).
       if \<not> final then returnE ()
       else (case seen of
           [] \<Rightarrow> liftR (Inl KeyError)
         | (_, final_sids) # rest \<Rightarrow>
             thenE (mod_sv (\<lambda>s. s\<lparr>seen_in_block := rest\<rparr>))
               (forE (remove_transaction_by_short_id tick True True) final_sids))))"

section \<open>Snapshots and iterators\<close>

text \<open>\<open>get_snapshot\<close> collects the cache keys of the recent assignments in a set; \<open>set_add\<close> says where a new one goes. Short ids that
  are queued and not mapped are taken off the queue.\<close>

definition snapshot_step :: "(string \<Rightarrow> string list \<Rightarrow> string list) \<Rightarrow> tx_service \<Rightarrow> pyfloat \<Rightarrow> int \<times> pyfloat \<Rightarrow>
    string list \<times> int list \<Rightarrow> string list \<times> int list" where
  "snapshot_step set_add s start = (\<lambda>(sid, t) (keys, unknown).
     if start < t then (case dget (short_id_to_key s) sid of
         Some key \<Rightarrow> (set_add key keys, unknown)
       | None \<Rightarrow> (keys, unknown @ [sid]))
     else (keys, unknown))"

definition get_snapshot ::
    "('w \<Rightarrow> pyfloat \<times> 'w) \<Rightarrow> (string \<Rightarrow> string list \<Rightarrow> string list) \<Rightarrow> pyfloat \<Rightarrow> ('w, bytes list) sv_eff" where
  "get_snapshot tick set_add duration =
     (if 0 < duration then
        bindE (clock_now tick) (\<lambda>t.
        bindE (sv (\<lambda>s. fold (snapshot_step set_add s (fsub t duration)) (eq_queue (assignment_queue s)) ([], []))) (\<lambda>(keys, unknown).
        thenE (mod_sv (\<lambda>s. fold unqueue_short_id unknown s))
          (liftR (mapR tx_cache_key_to_hash keys))))
      else bindE (sv (\<lambda>s. mapR tx_cache_key_to_hash (dkeys (key_to_contents s)))) liftR)"

definition iter_transaction_hashes :: "tx_service \<Rightarrow> bytes list res" where
  "iter_transaction_hashes s = mapR tx_cache_key_to_hash (dkeys (key_to_contents s))"

text \<open>The generator over the oldest assignments, up to a time; it asserts that every queued short id has a hash.\<close>

fun hashes_from_oldest :: "tx_service \<Rightarrow> pyfloat \<Rightarrow> (int, pyfloat) dict \<Rightarrow> (bytes \<times> pyfloat) list res" where
  "hashes_from_oldest s newest [] = Inr []"
| "hashes_from_oldest s newest ((sid, t) # d) =
     (if newest < t then Inr []
      else bindR (get_transaction s sid) (\<lambda>i. bindR (opt_res AssertionError (ti_hash i)) (\<lambda>h.
           bindR (hashes_from_oldest s newest d) (\<lambda>l. Inr ((h, t) # l)))))"

definition iter_transaction_hashes_from_oldest :: "tx_service \<Rightarrow> pyfloat \<Rightarrow> (bytes \<times> pyfloat) list res" where
  "iter_transaction_hashes_from_oldest s newest = hashes_from_oldest s newest (eq_queue (assignment_queue s))"

definition get_removed_short_id_time_and_count :: "tx_service \<Rightarrow> int list \<Rightarrow> pyfloat \<times> int" where
  "get_removed_short_id_time_and_count s sids =
     fold (\<lambda>sid (oldest, n). case dget (sid_time_removed s) sid of
         None \<Rightarrow> (oldest, n)
       | Some t \<Rightarrow> (if oldest < t then t else oldest, n + 1)) sids (0, 0)"

end
