(* ===== verification/TxRemoval.thy ===== *)
theory TxRemoval
  imports TxService
begin

text \<open>
  The invariant of the transaction service: the two maps of the short ids are inverse of each other, the queue of the assignments
  holds exactly the mapped short ids, and the recorded size is that of the contents. Every removal keeps it and raises nothing; so do
  the expiry loops and the clean-up that re-establishes the memory limit, which is modelled here because its termination
  rests on what a removal does to the queue.
\<close>

section \<open>The invariant\<close>

subsection \<open>Dictionaries without some keys\<close>

definition without :: "'k set \<Rightarrow> ('k, 'v) dict \<Rightarrow> ('k, 'v) dict" where
  "without X d = filter (\<lambda>(k, _). k \<notin> X) d"

lemma ddel_without: "ddel k d = without {k} d"
  by (auto simp: without_def AList.delete_eq intro: filter_cong)

lemma without_without [simp]: "without X (without Y d) = without (X \<union> Y) d"
  by (auto simp: without_def intro: filter_cong)

lemma without_empty [simp]: "without {} d = d"
  by (simp add: without_def case_prod_beta)

lemma without_Nil [simp]: "without X [] = []"
  by (simp add: without_def)

lemma dget_without [simp]: "dget (without X d) k = (if k \<in> X then None else dget d k)"
  by (induction d) (auto simp: without_def)

lemma dkeys_without: "dkeys (without X d) = filter (\<lambda>k. k \<notin> X) (dkeys d)"
  by (induction d) (auto simp: without_def)

lemma dict_ok_without [simp]: "dict_ok d \<Longrightarrow> dict_ok (without X d)"
  by (simp add: dict_ok_def dkeys_without)

lemma set_dkeys_without: "set (dkeys (without X d)) = set (dkeys d) - X"
  unfolding dkeys_without by auto

lemma in_dkeys: "x \<in> set (dkeys d) \<longleftrightarrow> dget d x \<noteq> None"
  using dget_Some_iff_key [of d x] by auto

subsection \<open>The two maps of short ids\<close>

text \<open>Each is the inverse of the other.\<close>

definition maps_ok :: "(string, int list) dict \<Rightarrow> (int, string) dict \<Rightarrow> bool" where
  "maps_ok K S \<longleftrightarrow> dict_ok K \<and> dict_ok S \<and>
     (\<forall>k l. dget K k = Some l \<longrightarrow> l \<noteq> [] \<and> distinct l \<and> (\<exists>h. tx_cache_key_to_hash k = Inr h)) \<and>
     (\<forall>k x. dget S x = Some k \<longleftrightarrow> (\<exists>l. dget K k = Some l \<and> x \<in> set l))"

lemma maps_okD:
  assumes "maps_ok K S"
  shows "dget K k = Some l \<Longrightarrow> l \<noteq> []" "dget K k = Some l \<Longrightarrow> distinct l" "dget K k = Some l \<Longrightarrow> \<exists>h. tx_cache_key_to_hash k = Inr h"
    "dget K k = Some l \<Longrightarrow> x \<in> set l \<Longrightarrow> dget S x = Some k" "dget S x = Some k \<Longrightarrow> \<exists>l. dget K k = Some l \<and> x \<in> set l"
  using assms unfolding maps_ok_def by blast+

lemma maps_ok_unique:
  assumes "maps_ok K S" "dget S x = None \<or> dget S x = Some key" "dget K k = Some l" "x \<in> set l"
  shows "k = key"
  using maps_okD(4) [OF assms(1,3,4)] assms(2) by auto

lemma maps_okI:
  assumes "dict_ok K" "dict_ok S"
    and "\<And>k l. dget K k = Some l \<Longrightarrow> l \<noteq> [] \<and> distinct l \<and> (\<exists>h. tx_cache_key_to_hash k = Inr h)"
    and "\<And>k x. dget S x = Some k \<Longrightarrow> \<exists>l. dget K k = Some l \<and> x \<in> set l"
    and "\<And>k l x. dget K k = Some l \<Longrightarrow> x \<in> set l \<Longrightarrow> dget S x = Some k"
  shows "maps_ok K S"
  using assms unfolding maps_ok_def by blast

lemma maps_ok_dicts: "maps_ok K S \<Longrightarrow> dict_ok K \<and> dict_ok S"
  by (simp add: maps_ok_def)

lemma maps_ok_ddel:
  assumes "maps_ok K S" "dget K key = Some l"
  shows "maps_ok (ddel key K) (without (set l) S)"
proof (rule maps_okI)
  fix k x assume "dget (without (set l) S) x = Some k"
  then have x: "x \<notin> set l" "dget S x = Some k" by (auto split: if_splits)
  from maps_okD(5) [OF assms(1) x(2)] obtain m where "dget K k = Some m" "x \<in> set m" by blast
  with x(1) assms(2) show "\<exists>m. dget (ddel key K) k = Some m \<and> x \<in> set m" by auto
next
  fix k m x assume "dget (ddel key K) k = Some m" and x: "x \<in> set m"
  then have m: "dget K k = Some m" "k \<noteq> key" by (auto split: if_splits)
  have "x \<notin> set l" using maps_okD(4) [OF assms(1,2)] maps_okD(4) [OF assms(1) m(1) x] m(2) by auto
  with maps_okD(4) [OF assms(1) m(1) x] show "dget (without (set l) S) x = Some k" by simp
qed (use maps_ok_dicts [OF assms(1)] maps_okD(1-3) [OF assms(1)] in \<open>auto split: if_splits\<close>)

lemma maps_ok_remove1:
  assumes "maps_ok K S" "dget K key = Some l" "x \<in> set l" "length l \<noteq> 1"
  shows "maps_ok (dput key (remove1 x l) K) (without {x} S)"
proof (rule maps_okI)
  have d: "distinct l" by (rule maps_okD(2) [OF assms(1,2)])
  have "length (remove1 x l) = length l - 1" using assms(3) by (simp add: length_remove1)
  moreover have "0 < length l" using assms(3) by (cases l) auto
  ultimately have n: "remove1 x l \<noteq> []" using assms(4) by (cases "remove1 x l") auto
  have s: "set (remove1 x l) = set l - {x}" "distinct (remove1 x l)" using d by auto
  have x: "dget S x = Some key" by (rule maps_okD(4) [OF assms(1-3)])
  show "m \<noteq> [] \<and> distinct m \<and> (\<exists>h. tx_cache_key_to_hash k = Inr h)" if "dget (dput key (remove1 x l) K) k = Some m" for k m
    using that n s maps_okD(1-3) [OF assms(1)] assms(2) by (auto split: if_splits)
  show "\<exists>m. dget (dput key (remove1 x l) K) k = Some m \<and> y \<in> set m" if "dget (without {x} S) y = Some k" for k y
  proof -
    have y: "y \<noteq> x" "dget S y = Some k" using that by (auto split: if_splits)
    from maps_okD(5) [OF assms(1) y(2)] obtain m where m: "dget K k = Some m" "y \<in> set m" by blast
    show ?thesis
    proof (cases "k = key")
      case True
      with m assms(2) have "y \<in> set (remove1 x l)" using y(1) unfolding s(1) by simp
      with True show ?thesis by simp
    next
      case False
      with m show ?thesis by simp
    qed
  qed
  show "dget (without {x} S) y = Some k" if "dget (dput key (remove1 x l) K) k = Some m" "y \<in> set m" for k m y
  proof (cases "k = key")
    case True
    with that s(1) have "y \<in> set l" "y \<noteq> x" by auto
    with maps_okD(4) [OF assms(1,2)] True show ?thesis by simp
  next
    case False
    with that have "dget S y = Some k" using maps_okD(4) [OF assms(1)] by simp
    with x False show ?thesis by auto
  qed
qed (use maps_ok_dicts [OF assms(1)] in simp_all)

lemma maps_ok_assign:
  assumes "maps_ok K S" "dget S x = None \<or> dget S x = Some key" "tx_cache_key_to_hash key = Inr h"
    and "set l' = insert x (case dget K key of None \<Rightarrow> {} | Some l \<Rightarrow> set l)" "distinct l'"
  shows "maps_ok (dput key l' K) (dput x key S)"
proof (rule maps_okI)
  have n: "l' \<noteq> []" using assms(4) by auto
  show "m \<noteq> [] \<and> distinct m \<and> (\<exists>h. tx_cache_key_to_hash k = Inr h)" if "dget (dput key l' K) k = Some m" for k m
    using that n assms(3,5) maps_okD(1-3) [OF assms(1)] by (auto split: if_splits)
  show "\<exists>m. dget (dput key l' K) k = Some m \<and> y \<in> set m" if "dget (dput x key S) y = Some k" for k y
  proof (cases "y = x")
    case True
    with that assms(4) show ?thesis by auto
  next
    case False
    with that obtain m where m: "dget K k = Some m" "y \<in> set m" using maps_okD(5) [OF assms(1), of y k] by auto
    show ?thesis
    proof (cases "k = key")
      case True
      with m have "y \<in> set l'" unfolding assms(4) by simp
      with True show ?thesis by simp
    next
      case False
      with m show ?thesis by simp
    qed
  qed
  show "dget (dput x key S) y = Some k" if "dget (dput key l' K) k = Some m" "y \<in> set m" for k m y
  proof (cases "k = key")
    case True
    with that assms(4) show ?thesis using maps_okD(4) [OF assms(1)] by (auto split: option.splits)
  next
    case False
    with that have m: "dget K k = Some m" by simp
    with False that(2) maps_ok_unique [OF assms(1,2) m] maps_okD(4) [OF assms(1) m] show ?thesis by auto
  qed
qed (use maps_ok_dicts [OF assms(1)] in simp_all)

definition queue_ok :: "int expiration_queue \<Rightarrow> (int, string) dict \<Rightarrow> bool" where
  "queue_ok q S \<longleftrightarrow> dict_ok (eq_queue q) \<and> eq_keys q = set (dkeys S)"

text \<open>As \<open>queue_ok\<close>, but for the short ids in \<open>X\<close>, which may be missing from the queue or be left over in it.\<close>

definition queue_but :: "int set \<Rightarrow> int expiration_queue \<Rightarrow> (int, string) dict \<Rightarrow> bool" where
  "queue_but X q S \<longleftrightarrow> dict_ok (eq_queue q) \<and> eq_keys q - X = set (dkeys S) - X"

lemma queue_ok_but: "queue_ok q S \<Longrightarrow> queue_but X q S"
  by (simp add: queue_ok_def queue_but_def)

lemma eq_keys_without: "eq_keys (q\<lparr>eq_queue := without X (eq_queue q)\<rparr>) = eq_keys q - X"
  by (simp add: eq_keys_def set_dkeys_without [simplified])

lemma queue_ok_without:
  "queue_but X q S \<Longrightarrow> X \<subseteq> Y \<Longrightarrow> queue_ok (q\<lparr>eq_queue := without Y (eq_queue q)\<rparr>) (without Y S)"
  by (auto simp: queue_ok_def queue_but_def eq_keys_without set_dkeys_without [simplified])

subsection \<open>The size of the contents\<close>

definition contents_size :: "(string, bytes) dict \<Rightarrow> int" where
  "contents_size C = sum_list (map (\<lambda>(_, c). int (length c)) C)"

definition size_of :: "(string, bytes) dict \<Rightarrow> string \<Rightarrow> int" where
  "size_of C k = (case dget C k of None \<Rightarrow> 0 | Some c \<Rightarrow> int (length c))"

lemma contents_size_dput: "contents_size (dput k c C) = contents_size C - size_of C k + int (length c)"
  by (induction C) (auto simp: contents_size_def size_of_def)

lemma contents_size_ddel: "dict_ok C \<Longrightarrow> contents_size (ddel k C) = contents_size C - size_of C k"
proof (induction C)
  case (Cons p C)
  then show ?case
    by (cases p) (auto simp: contents_size_def size_of_def dict_ok_def delete_idem)
qed (simp add: contents_size_def size_of_def)

lemma contents_size_nonneg: "0 \<le> contents_size C"
  unfolding contents_size_def by (intro sum_list_nonneg) auto

lemma size_of_le: "dict_ok C \<Longrightarrow> size_of C k \<le> contents_size C"
  using contents_size_ddel [of C k] contents_size_nonneg [of "ddel k C"] by simp

definition size_ok :: "(string, bytes) dict \<Rightarrow> int \<Rightarrow> bool" where
  "size_ok C n \<longleftrightarrow> dict_ok C \<and> n = contents_size C"

definition sv_inv :: "tx_service \<Rightarrow> bool" where
  "sv_inv s \<longleftrightarrow> maps_ok (key_to_short_ids s) (short_id_to_key s) \<and> queue_ok (assignment_queue s) (short_id_to_key s) \<and>
     size_ok (key_to_contents s) (total_contents_size s)"

text \<open>The invariant while the short ids in \<open>X\<close> are being removed, already taken off the queue.\<close>

definition sv_inv_but :: "int set \<Rightarrow> tx_service \<Rightarrow> bool" where
  "sv_inv_but X s \<longleftrightarrow> maps_ok (key_to_short_ids s) (short_id_to_key s) \<and> queue_but X (assignment_queue s) (short_id_to_key s) \<and>
     size_ok (key_to_contents s) (total_contents_size s)"

lemma sv_inv_but: "sv_inv s \<Longrightarrow> sv_inv_but X s"
  by (simp add: sv_inv_def sv_inv_but_def queue_ok_but)

lemma new_tx_service_inv: "new_tx_service e p d n = Inr s \<Longrightarrow> sv_inv s"
  by (auto simp: new_tx_service_def ExpirationQueue_def sv_inv_def maps_ok_def queue_ok_def size_ok_def contents_size_def eq_keys_def
      split: if_splits)

lemma clear_service_inv: "sv_inv (clear_service s)"
  by (simp add: clear_service_def sv_inv_def maps_ok_def queue_ok_def size_ok_def contents_size_def eq_keys_def eq_clear_def)

section \<open>Removing keeps the invariant\<close>

text \<open>What removing leaves alone.\<close>

definition kept :: "tx_service \<Rightarrow> bytes expiration_queue \<times> bytes expiration_queue \<times> bool \<times> bool \<times> bool \<times> int \<times> int \<times> int" where
  "kept s = (without_short_id s, without_content s, assign_alarm_scheduled s, no_sid_alarm_scheduled s, no_content_alarm_scheduled s,
     confirmations_count s, memory_limit s, sid_expire_time s)"

lemma sv_apply [py_simps]:
  "sv f (s, w) = (Inr (f s), s, w)"
  "mod_sv g (s, w) = (Inr (), g s, w)"
  "clock_now tick (s, w) = (Inr (fst (tick w)), s, snd (tick w))"
  by (simp_all add: sv_def mod_sv_def clock_now_def eff_apply split: prod.splits)

lemma unqueue_eq: "unqueue_short_id x s = s\<lparr>assignment_queue := (assignment_queue s)\<lparr>eq_queue := without {x} (eq_queue (assignment_queue s))\<rparr>\<rparr>"
  by (simp add: unqueue_short_id_def eq_remove_def ddel_without)

lemma unmap_eq: "unmap_short_id x s = s\<lparr>short_id_to_key := without {x} (short_id_to_key s)\<rparr>"
  by (simp add: unmap_short_id_def ddel_without)

lemma note_dumped_eq: "\<exists>D. note_dumped x s = s\<lparr>removed_short_ids := D\<rparr>"
  by (cases "dump_removed s") (auto simp: note_dumped_def intro: exI [of _ "removed_short_ids s"])

lemma remove_related_eq:
  "\<exists>A D. remove_related t x l s = s\<lparr>sid_time_removed := A, short_id_to_key := without (set l - {x}) (short_id_to_key s),
     assignment_queue := (assignment_queue s)\<lparr>eq_queue := without (set l - {x}) (eq_queue (assignment_queue s))\<rparr>,
     removed_short_ids := D\<rparr>"
proof (induction l arbitrary: s)
  case Nil
  show ?case by (intro exI [of _ "sid_time_removed s"] exI [of _ "removed_short_ids s"]) (simp add: remove_related_def)
next
  case (Cons y l)
  show ?case
  proof (cases "y = x")
    case True
    then show ?thesis using Cons [of s] by (simp add: remove_related_def)
  next
    case False
    define s1 where "s1 = note_dumped y (unqueue_short_id y (unmap_short_id y (note_removed t y s)))"
    obtain D where D: "s1 = s\<lparr>sid_time_removed := dput y t (sid_time_removed s), short_id_to_key := without {y} (short_id_to_key s),
        assignment_queue := (assignment_queue s)\<lparr>eq_queue := without {y} (eq_queue (assignment_queue s))\<rparr>, removed_short_ids := D\<rparr>"
      using note_dumped_eq [of y "unqueue_short_id y (unmap_short_id y (note_removed t y s))"]
      unfolding s1_def by (auto simp: unqueue_eq unmap_eq note_removed_def)
    have u: "set l - {x} \<union> {y} = set (y # l) - {x}" using False by auto
    have "remove_related t x (y # l) s = remove_related t x l s1" using False by (simp add: remove_related_def s1_def)
    moreover obtain A D' where "remove_related t x l s1 = s1\<lparr>sid_time_removed := A,
        short_id_to_key := without (set l - {x}) (short_id_to_key s1),
        assignment_queue := (assignment_queue s1)\<lparr>eq_queue := without (set l - {x}) (eq_queue (assignment_queue s1))\<rparr>,
        removed_short_ids := D'\<rparr>" using Cons by blast
    ultimately show ?thesis unfolding D u [symmetric] by (intro exI [of _ A] exI [of _ D']) simp
  qed
qed

lemma forget_all_eq:
  "\<exists>A F D. fold (forget_short_id t) l s = s\<lparr>sid_time_removed := A, short_id_to_key := without (set l) (short_id_to_key s),
     short_id_to_flag := F, assignment_queue := (assignment_queue s)\<lparr>eq_queue := without (set l) (eq_queue (assignment_queue s))\<rparr>,
     removed_short_ids := D\<rparr>"
proof (induction l arbitrary: s)
  case Nil
  show ?case
    by (intro exI [of _ "sid_time_removed s"] exI [of _ "short_id_to_flag s"] exI [of _ "removed_short_ids s"]) simp
next
  case (Cons y l)
  have "\<exists>A F D. forget_short_id t y s = s\<lparr>sid_time_removed := A, short_id_to_key := without {y} (short_id_to_key s),
     short_id_to_flag := F, assignment_queue := (assignment_queue s)\<lparr>eq_queue := without {y} (eq_queue (assignment_queue s))\<rparr>,
     removed_short_ids := D\<rparr>"
  proof -
    have "dget (short_id_to_key s) y = None \<Longrightarrow> without {y} (short_id_to_key s) = short_id_to_key s"
      using in_dkeys [of y "short_id_to_key s"] by (force simp: without_def filter_id_conv)
    moreover define F where "F = (if dget (short_id_to_key s) y = None then short_id_to_flag s else ddel y (short_id_to_flag s))"
    ultimately have "forget_short_id t y s = note_dumped y (s\<lparr>sid_time_removed := dput y t (sid_time_removed s),
        short_id_to_key := without {y} (short_id_to_key s), short_id_to_flag := F,
        assignment_queue := (assignment_queue s)\<lparr>eq_queue := without {y} (eq_queue (assignment_queue s))\<rparr>\<rparr>)"
      by (simp add: forget_short_id_def Let_def unqueue_eq unmap_eq note_removed_def)
    moreover obtain D where "note_dumped y (s\<lparr>sid_time_removed := dput y t (sid_time_removed s),
        short_id_to_key := without {y} (short_id_to_key s), short_id_to_flag := F,
        assignment_queue := (assignment_queue s)\<lparr>eq_queue := without {y} (eq_queue (assignment_queue s))\<rparr>\<rparr>) =
        s\<lparr>sid_time_removed := dput y t (sid_time_removed s),
        short_id_to_key := without {y} (short_id_to_key s), short_id_to_flag := F,
        assignment_queue := (assignment_queue s)\<lparr>eq_queue := without {y} (eq_queue (assignment_queue s))\<rparr>, removed_short_ids := D\<rparr>"
      using note_dumped_eq by blast
    ultimately show ?thesis by auto
  qed
  then obtain A F D where f: "forget_short_id t y s = s\<lparr>sid_time_removed := A, short_id_to_key := without {y} (short_id_to_key s),
     short_id_to_flag := F, assignment_queue := (assignment_queue s)\<lparr>eq_queue := without {y} (eq_queue (assignment_queue s))\<rparr>,
     removed_short_ids := D\<rparr>" by blast
  have u: "set l \<union> {y} = insert y (set l)" by auto
  show ?case using Cons [of "forget_short_id t y s"] by (auto simp: f u)
qed

lemma drop_contents_ok:
  assumes "size_ok (key_to_contents s) (total_contents_size s)"
  shows "size_ok (key_to_contents (drop_contents key t s)) (total_contents_size (drop_contents key t s))"
    "total_contents_size (drop_contents key t s) \<le> total_contents_size s"
    "dget (key_to_contents (drop_contents key t s)) k = (if k = key then None else dget (key_to_contents s) k)"
  using assms contents_size_ddel [of "key_to_contents s" key]
  by (auto simp: drop_contents_def size_ok_def size_of_def split: option.splits)

lemma drop_contents_fields [simp]:
  "short_id_to_key (drop_contents key t s) = short_id_to_key s" "key_to_short_ids (drop_contents key t s) = key_to_short_ids s"
  "assignment_queue (drop_contents key t s) = assignment_queue s" "kept (drop_contents key t s) = kept s"
  by (simp_all add: drop_contents_def kept_def split: option.splits)

lemma sv_inv_cong:
  "short_id_to_key s' = short_id_to_key s \<Longrightarrow> key_to_short_ids s' = key_to_short_ids s \<Longrightarrow> assignment_queue s' = assignment_queue s \<Longrightarrow>
   key_to_contents s' = key_to_contents s \<Longrightarrow> total_contents_size s' = total_contents_size s \<Longrightarrow> sv_inv s' = sv_inv s"
  by (simp add: sv_inv_def)

lemma paid_flags_total: "l \<noteq> [] \<Longrightarrow> \<exists>b. paid_flags l s = Inr b"
  by (cases l) (simp_all add: paid_flags_def)

text \<open>What a removal does: it establishes the invariant, keeps the configuration and the marks of the scheduled alarms, and adds nothing.\<close>

definition fixed :: "tx_service \<Rightarrow> bool \<times> bool \<times> bool \<times> int \<times> int \<times> int" where
  "fixed s = (assign_alarm_scheduled s, no_sid_alarm_scheduled s, no_content_alarm_scheduled s, confirmations_count s, memory_limit s, sid_expire_time s)"

definition removal_ok :: "tx_service \<Rightarrow> tx_service \<Rightarrow> bool" where
  "removal_ok s s' \<longleftrightarrow> sv_inv s' \<and> fixed s' = fixed s \<and>
     (eq_queue (assignment_queue s) = [] \<longrightarrow> eq_queue (assignment_queue s') = []) \<and>
     (eq_queue (without_short_id s) = [] \<longrightarrow> eq_queue (without_short_id s') = []) \<and>
     (eq_queue (without_content s) = [] \<longrightarrow> eq_queue (without_content s') = []) \<and> total_contents_size s' \<le> total_contents_size s \<and>
     (\<forall>x k. dget (short_id_to_key s') x = Some k \<longrightarrow> dget (short_id_to_key s) x = Some k) \<and>
     (\<forall>k c. dget (key_to_contents s') k = Some c \<longrightarrow> dget (key_to_contents s) k = Some c)"

lemma removal_ok_refl: "sv_inv s \<Longrightarrow> removal_ok s s"
  by (simp add: removal_ok_def)

lemma removal_ok_trans: "removal_ok s s' \<Longrightarrow> removal_ok s' s'' \<Longrightarrow> removal_ok s s''"
  unfolding removal_ok_def by force

lemma removal_okI:
  assumes "sv_inv_but X s" "X \<subseteq> Y" "short_id_to_key s' = without Y (short_id_to_key s)"
    and "assignment_queue s' = (assignment_queue s)\<lparr>eq_queue := without Y (eq_queue (assignment_queue s))\<rparr>"
    and "maps_ok (key_to_short_ids s') (short_id_to_key s')" "kept s' = kept s"
    and "size_ok (key_to_contents s') (total_contents_size s')" "total_contents_size s' \<le> total_contents_size s"
    and "\<And>k. dget (key_to_contents s') k = None \<or> dget (key_to_contents s') k = dget (key_to_contents s) k"
  shows "removal_ok s s'"
proof -
  have "queue_ok (assignment_queue s') (short_id_to_key s')"
    using assms(1) queue_ok_without [OF _ assms(2), of "assignment_queue s" "short_id_to_key s"]
    unfolding assms(3,4) by (simp add: sv_inv_but_def)
  moreover have "dget (key_to_contents s) k = Some c" if "dget (key_to_contents s') k = Some c" for k c
    using assms(9) [of k] that by simp
  ultimately show ?thesis using assms(3-8) by (simp add: removal_ok_def sv_inv_def kept_def fixed_def)
qed

lemma remove_known_run:
  assumes inv: "sv_inv_but {x} s" and key: "dget (short_id_to_key s) x = Some key"
  shows "\<exists>s' w'. remove_known tick x key related True (s, w) = (Inr (), s', w') \<and> removal_ok s s' \<and> dget (short_id_to_key s') x = None \<and>
    (related \<longrightarrow> dget (key_to_short_ids s') key = None \<and> dget (key_to_contents s') key = None)"
proof -
  obtain t w' where t: "tick w = (t, w')" by fastforce
  have maps: "maps_ok (key_to_short_ids s) (short_id_to_key s)" and size: "size_ok (key_to_contents s) (total_contents_size s)"
    using inv by (simp_all add: sv_inv_but_def)
  obtain l where l: "dget (key_to_short_ids s) key = Some l" "x \<in> set l" using maps_okD(5) [OF maps key] by blast
  obtain h b where h: "tx_cache_key_to_hash key = Inr h" "paid_flags l s = Inr b"
    using maps_okD(3) [OF maps l(1)] paid_flags_total [OF maps_okD(1) [OF maps l(1)]] by blast
  obtain D where D: "note_dumped x s = s\<lparr>removed_short_ids := D\<rparr>" using note_dumped_eq by blast
  define s1 where "s1 = note_removed t x (unmap_short_id x (note_dumped x s))"
  note s1 = s1_def [unfolded D unmap_eq note_removed_def]
  show ?thesis
  proof (cases "length l = 1 \<or> related")
    case True
    define s2 where "s2 = drop_contents key t (remove_related t x l s1)"
    define s' where "s' = unqueue_short_id x (s2\<lparr>key_to_short_ids := ddel key (key_to_short_ids s2)\<rparr>)"
    obtain A D' where rr0: "remove_related t x l s1 = s1\<lparr>sid_time_removed := A, short_id_to_key := without (set l - {x}) (short_id_to_key s1),
        assignment_queue := (assignment_queue s1)\<lparr>eq_queue := without (set l - {x}) (eq_queue (assignment_queue s1))\<rparr>,
        removed_short_ids := D'\<rparr>" using remove_related_eq by blast
    have u: "insert x (set l) = set l" "{x} \<union> (set l - {x}) = set l" using l(2) by auto
    have rr: "remove_related t x l s1 = s\<lparr>removed_short_ids := D', short_id_to_key := without (set l) (short_id_to_key s),
        sid_time_removed := A, assignment_queue := (assignment_queue s)\<lparr>eq_queue := without (set l - {x}) (eq_queue (assignment_queue s))\<rparr>\<rparr>"
      unfolding rr0 using l(2) by (simp add: s1 insert_absorb)
    have z: "size_ok (key_to_contents (remove_related t x l s1)) (total_contents_size (remove_related t x l s1))"
      using size by (simp add: rr)
    have K: "key_to_short_ids s2 = key_to_short_ids s" by (simp add: s2_def rr)
    have f: "short_id_to_key s' = without (set l) (short_id_to_key s)" "key_to_short_ids s' = ddel key (key_to_short_ids s)"
      "assignment_queue s' = (assignment_queue s)\<lparr>eq_queue := without (set l) (eq_queue (assignment_queue s))\<rparr>"
      "key_to_contents s' = key_to_contents s2" "total_contents_size s' = total_contents_size s2" "kept s' = kept s2"
      by (simp_all add: s'_def s2_def rr unqueue_eq u kept_def)
    have "remove_known tick x key related True (s, w) = (Inr (), s', w')"
      using True l h t K by (simp add: remove_known_def bindE_apply eff_apply sv_apply del_key_def guardR_def s1_def s2_def s'_def)
    moreover have "removal_ok s s'"
    proof (rule removal_okI [OF inv, of "set l"])
      show "maps_ok (key_to_short_ids s') (short_id_to_key s')" unfolding f by (rule maps_ok_ddel [OF maps l(1)])
      show "kept s' = kept s" unfolding f by (simp add: s2_def) (simp add: rr kept_def)
      show "size_ok (key_to_contents s') (total_contents_size s')" unfolding f s2_def by (rule drop_contents_ok(1) [OF z])
      show "total_contents_size s' \<le> total_contents_size s"
        unfolding f s2_def using drop_contents_ok(2) [OF z] by (simp add: rr)
      show "dget (key_to_contents s') k = None \<or> dget (key_to_contents s') k = dget (key_to_contents s) k" for k
        unfolding f s2_def using drop_contents_ok(3) [OF z, of key t k] by (simp add: rr)
    qed (use l(2) f in simp_all)
    moreover have "dget (key_to_contents s') key = None" unfolding f s2_def using drop_contents_ok(3) [OF z] by simp
    ultimately show ?thesis using l(2) f by auto
  next
    case False
    define s' where "s' = unqueue_short_id x (s1\<lparr>key_to_short_ids := dput key (remove1 x l) (key_to_short_ids s1)\<rparr>)"
    have f: "short_id_to_key s' = without {x} (short_id_to_key s)" "key_to_short_ids s' = dput key (remove1 x l) (key_to_short_ids s)"
      "assignment_queue s' = (assignment_queue s)\<lparr>eq_queue := without {x} (eq_queue (assignment_queue s))\<rparr>"
      "key_to_contents s' = key_to_contents s" "total_contents_size s' = total_contents_size s" "kept s' = kept s"
      by (simp_all add: s'_def s1 unqueue_eq kept_def)
    have "key_to_short_ids s1 = key_to_short_ids s" by (simp add: s1)
    then have "remove_known tick x key related True (s, w) = (Inr (), s', w')"
      using False l h t by (simp add: remove_known_def bindE_apply eff_apply sv_apply guardR_def s1_def s'_def)
    moreover have "removal_ok s s'"
    proof (rule removal_okI [OF inv, of "{x}"])
      show "maps_ok (key_to_short_ids s') (short_id_to_key s')"
        unfolding f by (rule maps_ok_remove1 [OF maps l]) (use False in simp)
    qed (use size f in simp_all)
    ultimately show ?thesis using False f by auto
  qed
qed

lemma remove_by_short_id_run:
  assumes inv: "sv_inv_but {x} s"
  shows "\<exists>s' w'. remove_transaction_by_short_id tick related True x (s, w) = (Inr (), s', w') \<and> removal_ok s s' \<and>
    dget (short_id_to_key s') x = None"
proof (cases "dget (short_id_to_key s) x")
  case None
  have "x \<notin> set (dkeys (short_id_to_key s))" using None in_dkeys [of x "short_id_to_key s"] by metis
  then have w: "without {x} (short_id_to_key s) = short_id_to_key s" by (force simp: without_def filter_id_conv)
  have "removal_ok s (unqueue_short_id x s)"
    by (rule removal_okI [OF inv, of "{x}"]) (use inv w in \<open>simp_all add: unqueue_eq sv_inv_but_def kept_def\<close>)
  with None show ?thesis by (simp add: remove_transaction_by_short_id_def bindE_apply sv_apply) (simp add: unqueue_eq)
next
  case (Some key)
  from remove_known_run [OF inv Some, of tick related w] Some show ?thesis
    by (auto simp: remove_transaction_by_short_id_def bindE_apply sv_apply)
qed

lemma remove_contents_run:
  assumes "sv_inv s"
  shows "\<exists>s' w'. remove_contents_by_key tick key (s, w) = (Inr (), s', w') \<and> removal_ok s s' \<and> dget (key_to_contents s') key = None \<and>
    key_to_short_ids s' = key_to_short_ids s"
proof (cases "dget (key_to_contents s) key")
  case None
  with assms show ?thesis by (simp add: remove_contents_by_key_def bindE_apply sv_apply whenE_apply removal_ok_refl)
next
  case (Some c)
  obtain t w' where t: "tick w = (t, w')" by fastforce
  have z: "size_ok (key_to_contents s) (total_contents_size s)" using assms by (simp add: sv_inv_def)
  have "removal_ok s (drop_contents key t s)"
    by (rule removal_okI [OF sv_inv_but [OF assms, of "{}"], of "{}"])
      (use assms drop_contents_ok [OF z, of key t] in \<open>simp_all add: sv_inv_def\<close>)
  with Some t drop_contents_ok(3) [OF z, of key t key] show ?thesis
    by (simp add: remove_contents_by_key_def bindE_apply sv_apply whenE_apply)
qed

lemma remove_by_key_run:
  assumes "sv_inv s"
  shows "\<exists>r s' w'. remove_transaction_by_key tick force assume_no_sid k (s, w) = (Inr r, s', w') \<and> removal_ok s s' \<and>
    (force \<and> \<not> assume_no_sid \<longrightarrow> dget (key_to_short_ids s') (tk_cache k) = None \<and> dget (key_to_contents s') (tk_cache k) = None)"
proof (cases "dget (key_to_short_ids s) (tk_cache k)")
  case None
  from remove_contents_run [OF assms, of tick "tk_cache k" w] None show ?thesis
    by (auto simp: remove_transaction_by_key_def bindE_apply sv_apply eff_apply)
next
  case (Some l)
  obtain t w1 where t: "tick w = (t, w1)" by fastforce
  have maps: "maps_ok (key_to_short_ids s) (short_id_to_key s)" using assms by (simp add: sv_inv_def)
  obtain b where b: "paid_flags l s = Inr b" using paid_flags_total maps_okD(1) [OF maps Some] by blast
  show ?thesis
  proof (cases "assume_no_sid \<or> b \<and> \<not> force")
    case True
    then show ?thesis using assms Some b t maps_okD(1) [OF maps Some]
      by (auto simp: remove_transaction_by_key_def bindE_apply sv_apply eff_apply removal_ok_refl)
  next
    case False
    define s1 where "s1 = fold (forget_short_id t) l (s\<lparr>key_to_short_ids := ddel (tk_cache k) (key_to_short_ids s)\<rparr>)"
    obtain A F D where s1: "s1 = s\<lparr>key_to_short_ids := ddel (tk_cache k) (key_to_short_ids s), sid_time_removed := A,
        short_id_to_key := without (set l) (short_id_to_key s), short_id_to_flag := F,
        assignment_queue := (assignment_queue s)\<lparr>eq_queue := without (set l) (eq_queue (assignment_queue s))\<rparr>, removed_short_ids := D\<rparr>"
      using forget_all_eq [of t l "s\<lparr>key_to_short_ids := ddel (tk_cache k) (key_to_short_ids s)\<rparr>"] by (auto simp: s1_def)
    have r1: "removal_ok s s1"
      by (rule removal_okI [OF sv_inv_but [OF assms, of "{}"], of "set l"])
        (use assms maps_ok_ddel [OF maps Some] in \<open>simp_all add: s1 sv_inv_def kept_def\<close>)
    then have i1: "sv_inv s1" by (simp add: removal_ok_def)
    obtain s' w' where s': "remove_contents_by_key tick (tk_cache k) (s1, w1) = (Inr (), s', w')" "removal_ok s1 s'"
      "dget (key_to_contents s') (tk_cache k) = None" "key_to_short_ids s' = key_to_short_ids s1"
      using remove_contents_run [OF i1, of tick "tk_cache k" w1] by blast
    have "remove_transaction_by_key tick force assume_no_sid k (s, w) = (Inr (Some l), s', w')"
      using False Some b t s'(1) maps_okD(1) [OF maps Some]
      by (auto simp: remove_transaction_by_key_def bindE_apply sv_apply eff_apply s1_def)
    moreover have "dget (key_to_short_ids s') (tk_cache k) = None" unfolding s'(4) by (simp add: s1)
    ultimately show ?thesis using s'(3) removal_ok_trans [OF r1 s'(2)] by blast
  qed
qed

lemma remove_by_hash_run:
  assumes "sv_inv s"
  shows "\<exists>r s' w'. remove_transaction_by_tx_hash tick force assume_no_sid h (s, w) = (Inr r, s', w') \<and> removal_ok s s'"
  using remove_by_key_run [OF assms, of tick force assume_no_sid "\<lparr>tk_hash = h, tk_cache = tx_hash_to_cache_key h\<rparr>" w]
  by (auto simp: remove_transaction_by_tx_hash_def get_transaction_key_def bindE_apply eff_apply)

lemma unassign_run:
  assumes "\<forall>x \<in> set l. dget (short_id_to_key s) x \<noteq> None" "distinct l"
  shows "forE unassign_short_id l (s, w) = (Inr (), s\<lparr>short_id_to_key := without (set l) (short_id_to_key s),
    assignment_queue := (assignment_queue s)\<lparr>eq_queue := without (set l) (eq_queue (assignment_queue s))\<rparr>\<rparr>, w)"
  using assms
proof (induction l arbitrary: s)
  case (Cons x l)
  define s1 where "s1 = unqueue_short_id x (unmap_short_id x s)"
  have s1: "s1 = s\<lparr>short_id_to_key := without {x} (short_id_to_key s),
      assignment_queue := (assignment_queue s)\<lparr>eq_queue := without {x} (eq_queue (assignment_queue s))\<rparr>\<rparr>"
    by (simp add: s1_def unqueue_eq unmap_eq)
  have "unassign_short_id x (s, w) = (Inr (), s1, w)"
    using Cons.prems(1) by (simp add: unassign_short_id_def bindE_apply sv_apply eff_apply guardR_def s1_def)
  moreover have "forE unassign_short_id l (s1, w) = (Inr (), s1\<lparr>short_id_to_key := without (set l) (short_id_to_key s1),
    assignment_queue := (assignment_queue s1)\<lparr>eq_queue := without (set l) (eq_queue (assignment_queue s1))\<rparr>\<rparr>, w)"
    by (rule Cons.IH) (use Cons.prems in \<open>auto simp: s1\<close>)
  ultimately show ?case by (simp add: bindE_apply s1)
qed (simp add: eff_apply)

lemma remove_sid_run:
  assumes "sv_inv s"
  shows "\<exists>s' w'. remove_sid_by_key k (s, w) = (Inr (), s', w') \<and> removal_ok s s'"
proof (cases "dget (key_to_contents s) (tk_cache k) \<noteq> None \<or> dget (key_to_short_ids s) (tk_cache k) = None")
  case True
  then have "remove_sid_by_key k (s, w) = (Inr (), s, w)"
    by (auto simp: remove_sid_by_key_def bindE_apply sv_apply eff_apply split: option.splits)
  with removal_ok_refl [OF assms] show ?thesis by blast
next
  case False
  then obtain l where l: "dget (key_to_short_ids s) (tk_cache k) = Some l" and c: "dget (key_to_contents s) (tk_cache k) = None" by auto
  have maps: "maps_ok (key_to_short_ids s) (short_id_to_key s)" using assms by (simp add: sv_inv_def)
  define s1 where "s1 = s\<lparr>key_to_short_ids := ddel (tk_cache k) (key_to_short_ids s)\<rparr>"
  define s' where "s' = s1\<lparr>short_id_to_key := without (set l) (short_id_to_key s1),
    assignment_queue := (assignment_queue s1)\<lparr>eq_queue := without (set l) (eq_queue (assignment_queue s1))\<rparr>\<rparr>"
  have "forE unassign_short_id l (s1, w) = (Inr (), s', w)"
    unfolding s'_def by (rule unassign_run) (use maps_okD(2,4) [OF maps l] in \<open>auto simp: s1_def\<close>)
  then have "remove_sid_by_key k (s, w) = (Inr (), s', w)"
    using l c by (simp add: remove_sid_by_key_def del_key_def bindE_apply sv_apply eff_apply guardR_def s1_def)
  moreover have "removal_ok s s'"
    by (rule removal_okI [OF sv_inv_but [OF assms, of "{}"], of "set l"])
      (use assms maps_ok_ddel [OF maps l] in \<open>simp_all add: s'_def s1_def sv_inv_def kept_def\<close>)
  ultimately show ?thesis by blast
qed

section \<open>Expiry\<close>

text \<open>A loop of removals, each on the state from which the oldest entry of the queue has been taken.\<close>

lemma expire_in_run:
  assumes step: "\<And>x t d s w. sv_inv s \<Longrightarrow> eq_queue (queue s) = (x, t) # d \<Longrightarrow>
      \<exists>r s' w'. callback x (put d (s, w)) = (Inr r, s', w') \<and> removal_ok s s'"
    and inv: "sv_inv s"
  shows "\<exists>xs s' w'. expire_in (\<lambda>(s, _). queue s) put now callback n (s, w) = (Inr xs, s', w') \<and> removal_ok s s'"
  using inv
proof (induction n arbitrary: s w)
  case 0
  then show ?case by (simp add: eff_apply removal_ok_refl)
next
  case (Suc n)
  show ?case
  proof (cases "eq_queue (queue s)")
    case Nil
    then show ?thesis using Suc.prems by (simp add: eff_apply bindE_apply removal_ok_refl)
  next
    case (Cons p d)
    obtain x t where p: "p = (x, t)" by (cases p)
    note q = Cons [unfolded p]
    show ?thesis
    proof (cases "expired now (time_to_live_sec (queue s)) t")
      case False
      then show ?thesis using q Suc.prems by (simp add: eff_apply bindE_apply removal_ok_refl)
    next
      case True
      obtain r s1 w1 where c: "callback x (put d (s, w)) = (Inr r, s1, w1)" "removal_ok s s1"
        using step [OF Suc.prems q, of w] by blast
      then have "sv_inv s1" by (simp add: removal_ok_def)
      from Suc.IH [OF this, of w1] obtain xs s' w' where
        "expire_in (\<lambda>(s, _). queue s) put now callback n (s1, w1) = (Inr xs, s', w')" "removal_ok s1 s'" by blast
      with c True q removal_ok_trans [OF c(2)] show ?thesis by (auto simp: eff_apply bindE_apply)
    qed
  qed
qed

lemma pop_assignment:
  assumes "sv_inv s" "eq_queue (assignment_queue s) = (x, t) # d"
  shows "sv_inv_but {x} (s\<lparr>assignment_queue := (assignment_queue s)\<lparr>eq_queue := d\<rparr>\<rparr>)"
    "removal_ok (s\<lparr>assignment_queue := (assignment_queue s)\<lparr>eq_queue := d\<rparr>\<rparr>) s' \<Longrightarrow> removal_ok s s'"
  using assms by (auto simp: sv_inv_def sv_inv_but_def queue_ok_def queue_but_def eq_keys_def dict_ok_def removal_ok_def fixed_def)

lemma expire_assignments_run:
  assumes "sv_inv s"
  shows "\<exists>xs s' w'. expire_in (\<lambda>(s, _). assignment_queue s) put_assignments now (remove_transaction_by_short_id tick False True) n (s, w) =
    (Inr xs, s', w') \<and> removal_ok s s'"
proof (rule expire_in_run [OF _ assms])
  fix x t d s and w :: 'a assume a: "sv_inv s" "eq_queue (assignment_queue s) = (x, t) # d"
  show "\<exists>r s' w'. remove_transaction_by_short_id tick False True x (put_assignments d (s, w)) = (Inr r, s', w') \<and> removal_ok s s'"
    using remove_by_short_id_run [OF pop_assignment(1) [OF a], of tick False w] pop_assignment(2) [OF a]
    by (auto simp: put_assignments_def)
qed

lemma expire_contents_run:
  assumes "sv_inv s"
  shows "\<exists>xs s' w'. expire_in (\<lambda>(s, _). without_short_id s) put_without_short_id now (remove_transaction_by_tx_hash tick True True) n (s, w) =
    (Inr xs, s', w') \<and> removal_ok s s'"
proof (rule expire_in_run [OF _ assms])
  fix x t d s and w :: 'a assume a: "sv_inv s" "eq_queue (without_short_id s) = (x, t) # d"
  define s0 where "s0 = s\<lparr>without_short_id := (without_short_id s)\<lparr>eq_queue := d\<rparr>\<rparr>"
  have i: "sv_inv s0" using a(1) by (simp add: sv_inv_def s0_def)
  obtain r s' w' where "remove_transaction_by_tx_hash tick True True x (s0, w) = (Inr r, s', w')" "removal_ok s0 s'"
    using remove_by_hash_run [OF i, of tick True True x w] by blast
  then show "\<exists>r s' w'. remove_transaction_by_tx_hash tick True True x (put_without_short_id d (s, w)) = (Inr r, s', w') \<and> removal_ok s s'"
    using a by (simp add: put_without_short_id_def s0_def [symmetric]) (auto simp: s0_def removal_ok_def fixed_def)
qed

lemma expire_sids_run:
  assumes "sv_inv s"
  shows "\<exists>xs s' w'. expire_in (\<lambda>(s, _). without_content s) put_without_content now remove_sid_by_tx_hash n (s, w) =
    (Inr xs, s', w') \<and> removal_ok s s'"
proof (rule expire_in_run [OF _ assms])
  fix x t d s and w :: 'a assume a: "sv_inv s" "eq_queue (without_content s) = (x, t) # d"
  define s0 where "s0 = s\<lparr>without_content := (without_content s)\<lparr>eq_queue := d\<rparr>\<rparr>"
  have i: "sv_inv s0" using a(1) by (simp add: sv_inv_def s0_def)
  obtain s' w' where "remove_sid_by_tx_hash x (s0, w) = (Inr (), s', w')" "removal_ok s0 s'"
    using remove_sid_run [OF i, of "\<lparr>tk_hash = x, tk_cache = tx_hash_to_cache_key x\<rparr>" w]
    by (auto simp: remove_sid_by_tx_hash_def get_transaction_key_def bindE_apply eff_apply)
  then show "\<exists>r s' w'. remove_sid_by_tx_hash x (put_without_content d (s, w)) = (Inr r, s', w') \<and> removal_ok s s'"
    using a by (simp add: put_without_content_def s0_def [symmetric]) (auto simp: s0_def removal_ok_def fixed_def)
qed

section \<open>The memory limit\<close>

lemma length_without: "length (without X d) \<le> length d"
  by (simp add: without_def)

definition queued_at_most :: "nat \<Rightarrow> tx_service \<times> 'w \<Rightarrow> bool" where
  "queued_at_most n = (\<lambda>(s, _). length (eq_queue (assignment_queue s)) \<le> n)"

lemma keeps_case_option: "keeps P a \<Longrightarrow> (\<And>x. keeps P (f x)) \<Longrightarrow> keeps P (case_option a f x)"
  by (cases x) simp_all

lemma keeps_queued_at_most:
  "(\<And>s. length (eq_queue (assignment_queue (f s))) \<le> length (eq_queue (assignment_queue s))) \<Longrightarrow> keeps (queued_at_most n) (mod_sv f)"
  "keeps (queued_at_most n) (sv g)" "keeps (queued_at_most n) (clock_now tick)"
  by (auto simp: keeps_def queued_at_most_def sv_apply intro: order_trans)

lemma removal_shrinks:
  "length (eq_queue (assignment_queue (fst (snd (remove_transaction_by_short_id tick related force x (s, w)))))) \<le> length (eq_queue (assignment_queue s))"
proof -
  have a: "length (eq_queue (assignment_queue (remove_related t x l s))) \<le> length (eq_queue (assignment_queue s))" for t x l s
    using remove_related_eq [of t x l s] length_without by auto
  have b: "length (eq_queue (assignment_queue (note_removed t x (unmap_short_id x (note_dumped x s))))) \<le> length (eq_queue (assignment_queue s))" for t x s
    using note_dumped_eq [of x s] by (auto simp: note_removed_def unmap_eq)
  have c: "length (eq_queue (assignment_queue (unqueue_short_id x s))) \<le> length (eq_queue (assignment_queue s))" for x s
    using length_without by (simp add: unqueue_eq)
  have "keeps (queued_at_most (length (eq_queue (assignment_queue s)))) (remove_transaction_by_short_id tick related force x)"
    unfolding remove_transaction_by_short_id_def remove_known_def del_key_def Let_def
    by (intro keeps_intros keeps_case_option keeps_queued_at_most) (simp_all add: a b c)
  from keepsD [OF this, of "(s, w)"] show ?thesis by (simp add: queued_at_most_def case_prod_beta)
qed

function limit_loop :: "('w \<Rightarrow> pyfloat \<times> 'w) \<Rightarrow> int \<Rightarrow> tx_service \<Rightarrow> 'w \<Rightarrow> int res \<times> tx_service \<times> 'w" where
  "limit_loop tick n s w =
     (if total_contents_size s \<le> memory_limit s then (Inr n, s, w)
      else (case eq_queue (assignment_queue s) of
          [] \<Rightarrow> (Inr n, s, w)
        | (x, _) # d \<Rightarrow> (case remove_transaction_by_short_id tick False True x (put_assignments d (s, w)) of
              (Inl e, s', w') \<Rightarrow> (Inl e, s', w')
            | (Inr _, s', w') \<Rightarrow> limit_loop tick (n + 1) s' w')))"
  by pat_completeness auto
termination
proof (relation "measure (\<lambda>(_, _, s, _). length (eq_queue (assignment_queue s)))")
  fix tick :: "'w \<Rightarrow> pyfloat \<times> 'w" and n w p d x t r sw u w' and s s' :: tx_service
  assume "\<not> total_contents_size s \<le> memory_limit s"
  assume q: "eq_queue (assignment_queue s) = p # d" "(x, t) = p"
    and r: "(r, sw) = remove_transaction_by_short_id tick False True x (put_assignments d (s, w))" "r = Inr u" "(s', w') = sw"
  have "put_assignments d (s, w) = (s\<lparr>assignment_queue := (assignment_queue s)\<lparr>eq_queue := d\<rparr>\<rparr>, w)" by (simp add: put_assignments_def)
  with r(1) [symmetric] r(2) r(3) [symmetric]
  have "remove_transaction_by_short_id tick False True x (s\<lparr>assignment_queue := (assignment_queue s)\<lparr>eq_queue := d\<rparr>\<rparr>, w) = (Inr u, s', w')"
    by simp
  then have "length (eq_queue (assignment_queue s')) \<le> length d"
    using removal_shrinks [of tick False True x "s\<lparr>assignment_queue := (assignment_queue s)\<lparr>eq_queue := d\<rparr>\<rparr>" w] by simp
  then show "((tick, n + 1, s', w'), tick, n, s, w) \<in> measure (\<lambda>(_, _, s, _). length (eq_queue (assignment_queue s)))"
    using q by simp
qed simp

declare limit_loop.simps [simp del]

definition memory_limit_clean_up :: "('w \<Rightarrow> pyfloat \<times> 'w) \<Rightarrow> ('w, unit) sv_eff" where
  "memory_limit_clean_up tick =
     bindE (sv (\<lambda>s. memory_limit s < total_contents_size s)) (\<lambda>exceeding.
     if \<not> exceeding then returnE ()
     else
       bindE (\<lambda>(s, w). limit_loop tick 0 s w) (\<lambda>n.
       bindE (sv (\<lambda>s. memory_limit s < total_contents_size s \<and> eq_queue (assignment_queue s) = [])) (\<lambda>failed.
       bindE (if failed
              then bindE (sv (\<lambda>s. int (length (key_to_contents s)))) (\<lambda>m. thenE (mod_sv clear_service) (returnE (n + m)))
              else returnE n) (\<lambda>removed.
         mod_sv (\<lambda>s. s\<lparr>removed_by_memory_limit := removed_by_memory_limit s + removed\<rparr>)))))"

lemma limit_loop_run:
  assumes "sv_inv s"
  shows "\<exists>m s' w'. limit_loop tick n s w = (Inr m, s', w') \<and> removal_ok s s' \<and>
    (total_contents_size s' \<le> memory_limit s \<or> eq_queue (assignment_queue s') = [])"
  using assms
proof (induction tick n s w rule: limit_loop.induct)
  case (1 tick n s w)
  show ?case
  proof (cases "total_contents_size s \<le> memory_limit s \<or> eq_queue (assignment_queue s) = []")
    case True
    then have "limit_loop tick n s w = (Inr n, s, w)" by (subst limit_loop.simps) auto
    with True removal_ok_refl [OF 1(2)] show ?thesis by auto
  next
    case False
    then obtain x t d where q: "eq_queue (assignment_queue s) = (x, t) # d" by (metis list.exhaust surj_pair)
    define s0 where "s0 = s\<lparr>assignment_queue := (assignment_queue s)\<lparr>eq_queue := d\<rparr>\<rparr>"
    obtain s1 w1 where s1: "remove_transaction_by_short_id tick False True x (s0, w) = (Inr (), s1, w1)" "removal_ok s0 s1"
      using remove_by_short_id_run [OF pop_assignment(1) [OF 1(2) q], of tick False w] unfolding s0_def by blast
    have r: "removal_ok s s1" using pop_assignment(2) [OF 1(2) q] s1(2) by (simp add: s0_def)
    have p: "put_assignments d (s, w) = (s0, w)" by (simp add: put_assignments_def s0_def)
    have "sv_inv s1" using r by (simp add: removal_ok_def)
    then obtain m s' w' where m: "limit_loop tick (n + 1) s1 w1 = (Inr m, s', w')" "removal_ok s1 s'"
      "total_contents_size s' \<le> memory_limit s1 \<or> eq_queue (assignment_queue s') = []"
      using 1(1) [OF _ q refl _ refl refl, of "()" s1 w1] False s1(1) p by auto
    have "limit_loop tick n s w = (Inr m, s', w')"
      using False q m(1) s1(1) p by (subst limit_loop.simps) simp
    moreover have "memory_limit s1 = memory_limit s" using r by (simp add: removal_ok_def fixed_def)
    ultimately show ?thesis using m(2,3) removal_ok_trans [OF r m(2)] by auto
  qed
qed

text \<open>The clean-up re-establishes the limit: by removing the oldest short ids, or by clearing the service.\<close>

lemma memory_limit_run:
  assumes "sv_inv s"
  shows "\<exists>s' w'. memory_limit_clean_up tick (s, w) = (Inr (), s', w') \<and> sv_inv s' \<and> fixed s' = fixed s \<and>
    (eq_queue (assignment_queue s) = [] \<longrightarrow> eq_queue (assignment_queue s') = []) \<and>
    (eq_queue (without_short_id s) = [] \<longrightarrow> eq_queue (without_short_id s') = []) \<and>
    (eq_queue (without_content s) = [] \<longrightarrow> eq_queue (without_content s') = []) \<and>
    (0 \<le> memory_limit s \<longrightarrow> total_contents_size s' \<le> memory_limit s) \<and>
    (total_contents_size s \<le> memory_limit s \<longrightarrow> s' = s)"
proof (cases "total_contents_size s \<le> memory_limit s")
  case True
  with assms show ?thesis by (simp add: memory_limit_clean_up_def bindE_apply sv_apply eff_apply)
next
  case False
  obtain m s1 w1 where m: "limit_loop tick 0 s w = (Inr m, s1, w1)" "removal_ok s s1"
    "total_contents_size s1 \<le> memory_limit s \<or> eq_queue (assignment_queue s1) = []"
    using limit_loop_run [OF assms, of tick 0 w] by blast
  have l: "memory_limit s1 = memory_limit s" using m(2) by (simp add: removal_ok_def fixed_def)
  show ?thesis
  proof (cases "total_contents_size s1 \<le> memory_limit s")
    case True
    define s' where "s' = s1\<lparr>removed_by_memory_limit := removed_by_memory_limit s1 + m\<rparr>"
    have "memory_limit_clean_up tick (s, w) = (Inr (), s', w1)"
      using True False m(1) l by (simp add: memory_limit_clean_up_def bindE_apply sv_apply eff_apply s'_def)
    with m(2) True False l show ?thesis by (auto simp: removal_ok_def s'_def sv_inv_def fixed_def)
  next
    case f: False
    define s' where "s' = (clear_service s1)\<lparr>removed_by_memory_limit := removed_by_memory_limit s1 + (m + int (length (key_to_contents s1)))\<rparr>"
    have "memory_limit_clean_up tick (s, w) = (Inr (), s', w1)"
      using f False m(1,3) l by (simp add: memory_limit_clean_up_def bindE_apply sv_apply eff_apply s'_def clear_service_def)
    moreover have "sv_inv s'" using clear_service_inv [of s1] by (simp add: s'_def sv_inv_def)
    ultimately show ?thesis using m(2) False
      by (auto simp: s'_def clear_service_def fixed_def removal_ok_def eq_clear_def)
  qed
qed

end
