(* ===== verification/TxNode.thy ===== *)
theory TxNode
  imports TxRemoval Alarms
begin

text \<open>
  The transaction service on the alarm queue of its node: adding short ids and contents, which schedule the
  alarms of the service, and what the alarms do when they fire. The world of the alarm queue is the service
  with the world of the clock, so that one state holds everything; \<open>ts_fn\<close> names the functions of the alarms.
\<close>

section \<open>The functions of the alarms\<close>

datatype ts_fn = ExpireOld | ExpireNoSid | ExpireNoContent | CleanHistory | DumpRemoved | TrackSeen

type_synonym ts_args = "(bytes \<times> int list) option"
type_synonym 'w node = "(ts_fn, ts_args, tx_service \<times> 'w) alarm_queue"
type_synonym ('w, 'r) node_eff = "('w node, 'r) eff"

definition on_sv :: "('w, 'r) sv_eff \<Rightarrow> ('w, 'r) node_eff" where
  "on_sv m = (\<lambda>q. case m (aq_world q) of (r, sw) \<Rightarrow> (r, q\<lparr>aq_world := sw\<rparr>))"

definition sv_clock :: "'w clock \<Rightarrow> (tx_service \<times> 'w) clock" where
  "sv_clock tick = (\<lambda>(s, w). case tick w of (t, w') \<Rightarrow> (t, s, w'))"

text \<open>\<open>_dump_removed_short_ids\<close> writes the set to a file, which is left out, and clears it.\<close>

definition ts_call :: "'w clock \<Rightarrow> (ts_fn, ts_args, tx_service \<times> 'w) callback" where
  "ts_call tick fn args = (case fn of
       ExpireOld \<Rightarrow> bindE (on_sv (expire_old_assignments tick)) (\<lambda>d. returnE (Some d))
     | ExpireNoSid \<Rightarrow> bindE (on_sv (expire_content_without_sid tick)) (\<lambda>d. returnE (Some d))
     | ExpireNoContent \<Rightarrow> bindE (on_sv (expire_sid_without_content tick)) (\<lambda>d. returnE (Some d))
     | CleanHistory \<Rightarrow> bindE (on_sv (cleanup_removed_history tick)) (\<lambda>d. returnE (Some (fl_int d)))
     | DumpRemoved \<Rightarrow> thenE (on_sv (mod_sv (\<lambda>s. s\<lparr>removed_short_ids := {}\<rparr>))) (returnE (Some (fl_int 300)))
     | TrackSeen \<Rightarrow> (case args of
           None \<Rightarrow> raiseE TypeError
         | Some (h, sids) \<Rightarrow> thenE (on_sv (track_seen_short_ids tick h sids)) (returnE None)))"

definition register :: "'w clock \<Rightarrow> int \<Rightarrow> ts_fn \<Rightarrow> ts_args \<Rightarrow> ('w, unit) node_eff" where
  "register tick delay fn args =
     bindE (register_alarm (sv_clock tick) (ts_call tick) (fl_int delay) fn args False) (\<lambda>_. returnE ())"

text \<open>An alarm that is registered unless it is marked as scheduled.\<close>

definition schedule :: "'w clock \<Rightarrow> (tx_service \<Rightarrow> int) \<Rightarrow> ts_fn \<Rightarrow> (tx_service \<Rightarrow> bool) \<Rightarrow> (tx_service \<Rightarrow> tx_service) \<Rightarrow> ('w, unit) node_eff" where
  "schedule tick delay fn marked set_mark =
     bindE (on_sv (sv marked)) (\<lambda>m.
     if m then returnE ()
     else bindE (on_sv (sv delay)) (\<lambda>n. thenE (register tick n fn None) (on_sv (mod_sv set_mark))))"

definition schedule_expire_old :: "'w clock \<Rightarrow> ('w, unit) node_eff" where
  "schedule_expire_old tick =
     schedule tick sid_expire_time ExpireOld assign_alarm_scheduled (\<lambda>s. s\<lparr>assign_alarm_scheduled := True\<rparr>)"

definition schedule_no_sid :: "'w clock \<Rightarrow> ('w, unit) node_eff" where
  "schedule_no_sid tick =
     schedule tick (\<lambda>_. TX_CONTENT_NO_SID_EXPIRE_S) ExpireNoSid no_sid_alarm_scheduled (\<lambda>s. s\<lparr>no_sid_alarm_scheduled := True\<rparr>)"

definition schedule_no_content :: "'w clock \<Rightarrow> ('w, unit) node_eff" where
  "schedule_no_content tick =
     schedule tick (\<lambda>_. TX_CONTENT_NO_SID_EXPIRE_S) ExpireNoContent no_content_alarm_scheduled
       (\<lambda>s. s\<lparr>no_content_alarm_scheduled := True\<rparr>)"

text \<open>\<open>__init__\<close> on a node; the alarm of the dump only when it is asked for.\<close>

definition TransactionService ::
    "'w clock \<Rightarrow> int \<Rightarrow> int option \<Rightarrow> bool \<Rightarrow> network_config option \<Rightarrow> 'w \<Rightarrow> (unit res \<times> 'w node) option" where
  "TransactionService tick expire pool_limit dump network w =
     (case new_tx_service expire pool_limit dump network of
        Inl _ \<Rightarrow> None
      | Inr s \<Rightarrow> Some (thenE (whenE dump (register tick 300 DumpRemoved None)) (register tick 10 CleanHistory None)
          (AlarmQueue (s, w))))"

section \<open>Adding\<close>

definition add_short_id :: "(int \<Rightarrow> int list \<Rightarrow> int list) \<Rightarrow> tx_key \<Rightarrow> int \<Rightarrow> tx_service \<Rightarrow> tx_service" where
  "add_short_id set_add k sid s =
     s\<lparr>key_to_short_ids := dput (tk_cache k) (set_add sid (case dget (key_to_short_ids s) (tk_cache k) of None \<Rightarrow> [] | Some l \<Rightarrow> l))
         (key_to_short_ids s),
       short_id_to_key := dput sid (tk_cache k) (short_id_to_key s)\<rparr>"

definition assign_short_id_base_by_key ::
    "'w clock \<Rightarrow> (int \<Rightarrow> int list \<Rightarrow> int list) \<Rightarrow> tx_key \<Rightarrow> int \<Rightarrow> bool \<Rightarrow> bool \<Rightarrow> ('w, unit) node_eff" where
  "assign_short_id_base_by_key tick set_add k sid has_contents call_to_assign =
     (if sid = NULL_TX_SID then returnE ()
      else
        thenE (if has_contents then returnE ()
               else thenE (on_sv (bindE (clock_now tick) (\<lambda>t.
                        mod_sv (\<lambda>s. s\<lparr>without_content := eq_add t (tk_hash k) (without_content s)\<rparr>))))
                      (schedule_no_content tick))
       (thenE (if call_to_assign then on_sv (mod_sv (add_short_id set_add k sid)) else returnE ())
       (thenE (on_sv (bindE (clock_now tick) (\<lambda>t. mod_sv (\<lambda>s. s\<lparr>assignment_queue := eq_add t sid (assignment_queue s)\<rparr>))))
       (thenE (on_sv (mod_sv (\<lambda>s. s\<lparr>without_short_id := eq_remove (tk_hash k) (without_short_id s)\<rparr>)))
         (schedule_expire_old tick)))))"

definition assign_short_id_by_key ::
    "'w clock \<Rightarrow> (int \<Rightarrow> int list \<Rightarrow> int list) \<Rightarrow> tx_key \<Rightarrow> int \<Rightarrow> ('w, unit) node_eff" where
  "assign_short_id_by_key tick set_add k sid =
     bindE (on_sv (sv (\<lambda>s. dget (key_to_contents s) (tk_cache k) \<noteq> None))) (\<lambda>has_contents.
       assign_short_id_base_by_key tick set_add k sid has_contents True)"

definition set_transaction_contents_base_by_key ::
    "'w clock \<Rightarrow> tx_key \<Rightarrow> bool \<Rightarrow> int \<Rightarrow> bool \<Rightarrow> bytes option \<Rightarrow> int option \<Rightarrow> ('w, unit) node_eff" where
  "set_transaction_contents_base_by_key tick k has_short_id previous_size call_set contents contents_length =
     thenE (if has_short_id then returnE ()
            else thenE (on_sv (bindE (clock_now tick) (\<lambda>t.
                     mod_sv (\<lambda>s. s\<lparr>without_short_id := eq_add t (tk_hash k) (without_short_id s)\<rparr>))))
                   (schedule_no_sid tick))
    (thenE (on_sv (mod_sv (\<lambda>s. s\<lparr>without_content := eq_remove (tk_hash k) (without_content s)\<rparr>)))
    (thenE (on_sv (mod_sv (\<lambda>s. case contents of
          Some c \<Rightarrow> s\<lparr>total_contents_size := total_contents_size s + (int (length c) - previous_size),
              key_to_contents := (if call_set then dput (tk_cache k) c (key_to_contents s) else key_to_contents s)\<rparr>
        | None \<Rightarrow> (case contents_length of
              Some n \<Rightarrow> s\<lparr>total_contents_size := total_contents_size s + (n - previous_size)\<rparr>
            | None \<Rightarrow> s))))
       (on_sv (memory_limit_clean_up tick))))"

definition set_transaction_contents_by_key :: "'w clock \<Rightarrow> tx_key \<Rightarrow> bytes \<Rightarrow> ('w, unit) node_eff" where
  "set_transaction_contents_by_key tick k contents =
     bindE (on_sv (sv (\<lambda>s. (size_of (key_to_contents s) (tk_cache k), dget (key_to_short_ids s) (tk_cache k) \<noteq> None)))) (\<lambda>(previous_size, has_short_id).
       set_transaction_contents_base_by_key tick k has_short_id previous_size True (Some contents) None)"

definition track_seen_short_ids_delayed :: "'w clock \<Rightarrow> bytes \<Rightarrow> int list \<Rightarrow> ('w, unit) node_eff" where
  "track_seen_short_ids_delayed tick block_hash sids = register tick 10 TrackSeen (Some (block_hash, sids))"

text \<open>The parsed items of a synchronisation message, and what the service keeps of each.\<close>

record tx_content_short_ids =
  tc_hash :: bytes
  tc_content :: "bytes option"
  tc_short_ids :: "int list"
  tc_flags :: "int list"

definition process_sync_item ::
    "'w clock \<Rightarrow> (int \<Rightarrow> int list \<Rightarrow> int list) \<Rightarrow> tx_content_short_ids \<Rightarrow> ('w, bytes \<times> int \<times> int list \<times> int list) node_eff" where
  "process_sync_item tick set_add i =
     bindE (liftR (get_transaction_key (Some (tc_hash i)) None)) (\<lambda>k.
     let content = (case tc_content i of Some c \<Rightarrow> c | None \<Rightarrow> [])
     in thenE (if content \<noteq> [] then set_transaction_contents_by_key tick k content else returnE ())
       (thenE (forE (\<lambda>(sid, _). assign_short_id_by_key tick set_add k sid) (zip (tc_short_ids i) (tc_flags i)))
         (returnE (tk_hash k, int (length content), tc_short_ids i, tc_flags i))))"

definition process_tx_sync_message ::
    "'w clock \<Rightarrow> (int \<Rightarrow> int list \<Rightarrow> int list) \<Rightarrow> tx_content_short_ids list \<Rightarrow>
       ('w, (bytes \<times> int \<times> int list \<times> int list) list) node_eff" where
  "process_tx_sync_message tick set_add items = mapE (process_sync_item tick set_add) items"

section \<open>The invariant of the node\<close>

fun marked :: "ts_fn \<Rightarrow> tx_service \<Rightarrow> bool" where
  "marked ExpireOld s = assign_alarm_scheduled s"
| "marked ExpireNoSid s = no_sid_alarm_scheduled s"
| "marked ExpireNoContent s = no_content_alarm_scheduled s"
| "marked _ s = False"

fun pending :: "ts_fn \<Rightarrow> tx_service \<Rightarrow> bool" where
  "pending ExpireOld s = (eq_queue (assignment_queue s) \<noteq> [])"
| "pending ExpireNoSid s = (eq_queue (without_short_id s) \<noteq> [])"
| "pending ExpireNoContent s = (eq_queue (without_content s) \<noteq> [])"
| "pending _ s = False"

definition service_ok :: "tx_service \<Rightarrow> bool" where
  "service_ok s \<longleftrightarrow> sv_inv s \<and> 0 \<le> sid_expire_time s \<and> (\<forall>fn. pending fn s \<longrightarrow> marked fn s)"

definition scheduled :: "ts_fn \<Rightarrow> 'w node \<Rightarrow> bool" where
  "scheduled fn q \<longleftrightarrow> (\<exists>r \<in> set (alarms q). al_fn (aq_ids q ! r) = fn \<and> is_active (aq_ids q ! r))"

abbreviation service :: "'w node \<Rightarrow> tx_service" where
  "service q \<equiv> fst (aq_world q)"

definition node_ok :: "'w node \<Rightarrow> bool" where
  "node_ok q \<longleftrightarrow> aq_inv {} q \<and> approx_scheduled q = [] \<and> service_ok (service q) \<and> (\<forall>fn. marked fn (service q) \<longrightarrow> scheduled fn q)"

lemma on_sv_apply [py_simps]: "on_sv m q = (fst (m (aq_world q)), q\<lparr>aq_world := snd (m (aq_world q))\<rparr>)"
  by (simp add: on_sv_def split: prod.splits)

lemma world_same: "aq_world q = sw \<Longrightarrow> q\<lparr>aq_world := sw\<rparr> = q"
  by (cases q) simp

subsection \<open>Firing\<close>

lemma removal_pending: "removal_ok s s' \<Longrightarrow> pending fn s' \<Longrightarrow> pending fn s"
  by (cases fn) (auto simp: removal_ok_def)

lemma fixed_marked: "fixed s' = fixed s \<Longrightarrow> marked fn s' = marked fn s"
  by (cases fn) (auto simp: fixed_def)

lemma removal_service_ok: "removal_ok s s' \<Longrightarrow> service_ok s \<Longrightarrow> service_ok s'"
  using removal_pending [of s s'] fixed_marked [of s' s]
  by (auto simp: service_ok_def removal_ok_def fixed_def)

lemma min_delay_pos: "0 < fl_int MIN_CLEAN_UP_INTERVAL_S" "0 < fl_int 10" "0 < fl_int 300"
  by code_simp+

text \<open>What a function of the service returns: a positive delay as long as its alarm is marked.\<close>

definition call_ok :: "ts_fn \<Rightarrow> tx_service \<Rightarrow> tx_service \<Rightarrow> pyfloat option res \<Rightarrow> bool" where
  "call_ok fn s s' res \<longleftrightarrow> service_ok s' \<and> (\<forall>fn'. fn' \<noteq> fn \<longrightarrow> marked fn' s' = marked fn' s) \<and>
     (marked fn s' \<longrightarrow> (\<exists>d. res = Inr (Some d) \<and> 0 < d))"

lemma removal_call_ok: "removal_ok s s' \<Longrightarrow> service_ok s \<Longrightarrow> (\<And>s. \<not> marked fn s) \<Longrightarrow> call_ok fn s s' res"
  using removal_service_ok [of s s'] fixed_marked [of s' s] by (auto simp: call_ok_def removal_ok_def)

lemma next_cleanup_run:
  assumes s: "service_ok s" and queue: "pending fn s \<longleftrightarrow> eq_queue (queue s) \<noteq> []" and un: "marked fn s \<Longrightarrow> \<not> pending fn s \<Longrightarrow> service_ok (un s)"
    "\<And>fn'. marked fn' (un s) = (if fn' = fn then False else marked fn' s)" "service_ok s \<Longrightarrow> \<not> pending fn s \<Longrightarrow> service_ok (un s)"
  shows "\<exists>d s' w'. next_cleanup tick queue ttl un (s, w) = (Inr d, s', w') \<and> call_ok fn s s' (Inr (Some d))"
proof (cases "eq_queue (queue s)")
  case Nil
  with s queue un show ?thesis
    by (simp add: next_cleanup_def get_oldest_item_timestamp_def bindE_apply eff_apply sv_apply call_ok_def)
next
  case (Cons p d)
  obtain x t0 where p: "p = (x, t0)" by (cases p)
  have "0 < max d (fl_int MIN_CLEAN_UP_INTERVAL_S)" for d using min_delay_pos(1) by (simp add: less_max_iff_disj)
  with Cons p s show ?thesis
    by (simp add: next_cleanup_def get_oldest_item_timestamp_def bindE_apply eff_apply sv_apply call_ok_def)
qed

lemma unmarked_service_ok:
  assumes "service_ok s" "\<not> pending fn s" "sv_inv s' = sv_inv s" "sid_expire_time s' = sid_expire_time s" "\<And>fn. pending fn s' = pending fn s"
    "\<And>fn'. marked fn' s' = (if fn' = fn then False else marked fn' s)"
  shows "service_ok s'"
  using assms by (auto simp: service_ok_def)

lemma call_ok_after:
  assumes "removal_ok s s1" "service_ok s" "call_ok fn s1 s' res"
  shows "call_ok fn s s' res"
proof -
  have "fixed s1 = fixed s" using assms(1) by (simp add: removal_ok_def)
  then have "marked fn' s1 = marked fn' s" for fn' by (rule fixed_marked)
  with assms(3) show ?thesis by (auto simp: call_ok_def)
qed

lemma expire_call:
  assumes s: "service_ok s" and f: "f = bindE (clock_now tick) (\<lambda>t. thenE (loop t) (next_cleanup tick queue ttl un))"
    and loop: "\<exists>xs s1 w1. loop (fst (tick w)) (s, snd (tick w)) = (Inr xs, s1, w1) \<and> removal_ok s s1"
    and queue: "\<And>s. pending fn s \<longleftrightarrow> eq_queue (queue s) \<noteq> []"
    and un: "\<And>s. sv_inv (un s) = sv_inv s" "\<And>s. sid_expire_time (un s) = sid_expire_time s" "\<And>fn s. pending fn (un s) = pending fn s"
      "\<And>fn' s. marked fn' (un s) = (if fn' = fn then False else marked fn' s)"
  shows "\<exists>d s' w'. f (s, w) = (Inr d, s', w') \<and> call_ok fn s s' (Inr (Some d))"
proof -
  obtain xs s1 w1 where l: "loop (fst (tick w)) (s, snd (tick w)) = (Inr xs, s1, w1)" "removal_ok s s1" using loop by blast
  have s1: "service_ok s1" by (rule removal_service_ok [OF l(2) s])
  have o: "service_ok (un s1)" if "\<not> pending fn s1" by (rule unmarked_service_ok [OF s1 that un])
  obtain d s' w' where n: "next_cleanup tick queue ttl un (s1, w1) = (Inr d, s', w')" "call_ok fn s1 s' (Inr (Some d))"
    using next_cleanup_run [where s = s1 and fn = fn and queue = queue and un = un and tick = tick and ttl = ttl and w = w1,
        OF s1 queue o un(4) o] by blast
  show ?thesis using l n call_ok_after [OF l(2) s] by (auto simp: f bindE_apply eff_apply sv_apply)
qed

lemma expire_old_call:
  "service_ok s \<Longrightarrow> \<exists>d s' w'. expire_old_assignments tick (s, w) = (Inr d, s', w') \<and> call_ok ExpireOld s s' (Inr (Some d))"
  by (rule expire_call [OF _ expire_old_assignments_def expire_assignments_run])
    (auto simp: service_ok_def sv_inv_def elim: pending.elims marked.elims)

lemma expire_no_sid_call:
  "service_ok s \<Longrightarrow> \<exists>d s' w'. expire_content_without_sid tick (s, w) = (Inr d, s', w') \<and> call_ok ExpireNoSid s s' (Inr (Some d))"
  by (rule expire_call [OF _ expire_content_without_sid_def expire_contents_run])
    (auto simp: service_ok_def sv_inv_def elim: pending.elims marked.elims)

lemma expire_no_content_call:
  "service_ok s \<Longrightarrow> \<exists>d s' w'. expire_sid_without_content tick (s, w) = (Inr d, s', w') \<and> call_ok ExpireNoContent s s' (Inr (Some d))"
  by (rule expire_call [OF _ expire_sid_without_content_def expire_sids_run])
    (auto simp: service_ok_def sv_inv_def elim: pending.elims marked.elims)

lemma remove_all_run:
  assumes "sv_inv s"
  shows "\<exists>s' w'. forE (remove_transaction_by_short_id tick related True) sids (s, w) = (Inr (), s', w') \<and> removal_ok s s'"
  using assms
proof (induction sids arbitrary: s w)
  case Nil
  then show ?case by (simp add: eff_apply removal_ok_refl)
next
  case (Cons x sids)
  obtain s1 w1 where r: "remove_transaction_by_short_id tick related True x (s, w) = (Inr (), s1, w1)" "removal_ok s s1"
    using remove_by_short_id_run [OF sv_inv_but [OF Cons.prems, of "{x}"], of tick related w] by blast
  then have "sv_inv s1" by (simp add: removal_ok_def)
  from Cons.IH [OF this, of w1] obtain s' w' where
    "forE (remove_transaction_by_short_id tick related True) sids (s1, w1) = (Inr (), s', w')" "removal_ok s1 s'" by blast
  with r removal_ok_trans [OF r(2)] show ?case by (auto simp: bindE_apply)
qed

lemma removal_ok_seen: "sv_inv s \<Longrightarrow> removal_ok (s\<lparr>seen_in_block := x\<rparr>) s' \<Longrightarrow> removal_ok s s'"
  by (auto simp: removal_ok_def fixed_def)

lemma track_seen_run:
  assumes "sv_inv s"
  shows "\<exists>s' w'. track_seen_short_ids tick h sids (s, w) = (Inr (), s', w') \<and> removal_ok s s'"
proof -
  define seen where "seen = dput h sids (seen_in_block s)"
  have n: "seen \<noteq> []" using in_dkeys [of h seen] by (auto simp: seen_def)
  have k: "removal_ok s (s\<lparr>seen_in_block := seen\<rparr>)" using assms by (simp add: removal_ok_def fixed_def sv_inv_def)
  show ?thesis
  proof (cases "int (length seen) \<ge> confirmations_count s")
    case False
    with k show ?thesis by (simp add: track_seen_short_ids_def bindE_apply eff_apply sv_apply seen_def [symmetric])
  next
    case True
    obtain b final rest where seen: "seen = (b, final) # rest" using n by (cases seen) auto
    have "sv_inv (s\<lparr>seen_in_block := rest\<rparr>)" using assms by (simp add: sv_inv_def)
    from remove_all_run [OF this, of tick True final w] obtain s' w' where
      r: "forE (remove_transaction_by_short_id tick True True) final (s\<lparr>seen_in_block := rest\<rparr>, w) = (Inr (), s', w')"
      "removal_ok (s\<lparr>seen_in_block := rest\<rparr>) s'" by blast
    have "track_seen_short_ids tick h sids (s, w) = (Inr (), s', w')"
      using True r(1) by (simp add: track_seen_short_ids_def bindE_apply eff_apply sv_apply seen_def [symmetric]) (simp add: seen bindE_apply eff_apply sv_apply)
    with removal_ok_seen [OF assms r(2)] show ?thesis by blast
  qed
qed

lemma removal_ok_history: "sv_inv s \<Longrightarrow> removal_ok s (s\<lparr>hash_time_removed := x, sid_time_removed := y\<rparr>)"
  "sv_inv s \<Longrightarrow> removal_ok s (s\<lparr>removed_short_ids := z\<rparr>)"
  by (simp_all add: removal_ok_def fixed_def sv_inv_def)

lemma ts_call_run:
  assumes s: "service_ok (service q)"
  shows "\<exists>res s' w'. ts_call tick fn a q = (res, q\<lparr>aq_world := (s', w')\<rparr>) \<and> call_ok fn (service q) s' res"
proof -
  obtain sv0 w where w: "aq_world q = (sv0, w)" by fastforce
  have s0: "service_ok sv0" "sv_inv sv0" using s by (simp_all add: w service_ok_def)
  show ?thesis
  proof (cases fn)
    case ExpireOld
    obtain d s' w' where "expire_old_assignments tick (sv0, w) = (Inr d, s', w')" "call_ok ExpireOld sv0 s' (Inr (Some d))"
      using expire_old_call [OF s0(1), of tick w] by blast
    with ExpireOld w show ?thesis
      by (intro exI [of _ "Inr (Some d)"] exI [of _ s'] exI [of _ w']) (simp add: ts_call_def bindE_apply eff_apply on_sv_apply)
  next
    case ExpireNoSid
    obtain d s' w' where "expire_content_without_sid tick (sv0, w) = (Inr d, s', w')" "call_ok ExpireNoSid sv0 s' (Inr (Some d))"
      using expire_no_sid_call [OF s0(1), of tick w] by blast
    with ExpireNoSid w show ?thesis
      by (intro exI [of _ "Inr (Some d)"] exI [of _ s'] exI [of _ w']) (simp add: ts_call_def bindE_apply eff_apply on_sv_apply)
  next
    case ExpireNoContent
    obtain d s' w' where "expire_sid_without_content tick (sv0, w) = (Inr d, s', w')" "call_ok ExpireNoContent sv0 s' (Inr (Some d))"
      using expire_no_content_call [OF s0(1), of tick w] by blast
    with ExpireNoContent w show ?thesis
      by (intro exI [of _ "Inr (Some d)"] exI [of _ s'] exI [of _ w']) (simp add: ts_call_def bindE_apply eff_apply on_sv_apply)
  next
    case CleanHistory
    show ?thesis using removal_call_ok [OF removal_ok_history(1) [OF s0(2)] s0(1), of CleanHistory] w
      by (simp add: CleanHistory ts_call_def cleanup_removed_history_def bindE_apply eff_apply on_sv_apply sv_apply) blast
  next
    case DumpRemoved
    show ?thesis using removal_call_ok [OF removal_ok_history(2) [OF s0(2)] s0(1), of DumpRemoved] w
      by (simp add: DumpRemoved ts_call_def bindE_apply eff_apply on_sv_apply sv_apply) blast
  next
    case TrackSeen
    show ?thesis
    proof (cases a)
      case None
      have "call_ok TrackSeen sv0 sv0 (Inl TypeError)" using s0(1) by (simp add: call_ok_def)
      then show ?thesis using None TrackSeen w by (auto simp: ts_call_def eff_apply intro!: exI [of _ sv0] exI [of _ w])
    next
      case (Some p)
      obtain h sids where p: "p = (h, sids)" by (cases p)
      obtain s' w' where t: "track_seen_short_ids tick h sids (sv0, w) = (Inr (), s', w')" "removal_ok sv0 s'"
        using track_seen_run [OF s0(2), of tick h sids w] by blast
      show ?thesis using removal_call_ok [OF t(2) s0(1), of TrackSeen] t(1) w
        by (simp add: TrackSeen Some p ts_call_def bindE_apply eff_apply on_sv_apply) blast
    qed
  qed
qed

text \<open>A function of the service changes the world only, so it keeps the well-formedness of the alarm queue.\<close>

lemma keeps_on_sv [keeps_intros]: "keeps (aq_inv D) (on_sv m)"
  by (simp add: keeps_def on_sv_apply)

lemma keeps_ts_call [keeps_intros]: "keeps (aq_inv D) (ts_call tick fn a)"
  unfolding ts_call_def by (cases fn; cases a) (auto intro!: keeps_intros split: prod.splits)

text \<open>One alarm taken off the queue and run: it goes back on the queue as long as its function is marked.\<close>

lemma fire_one_ok:
  assumes q: "node_ok q" "alarms q \<noteq> []"
  shows "\<exists>q'. bindE pop_alarm (run_alarm (sv_clock tick) (ts_call tick)) q = (Inr (), q') \<and> node_ok q'"
proof -
  let ?r = "hd (alarms q)"
  obtain sv0 w where w: "aq_world q = (sv0, w)" by fastforce
  have a: "aq_inv {} q" "approx_scheduled q = []" "service_ok sv0" and sch: "\<And>fn. marked fn sv0 \<Longrightarrow> scheduled fn q"
    using q(1) by (simp_all add: node_ok_def w)
  obtain rest where p: "pop_alarm q = (Inr ?r, q\<lparr>alarms := rest\<rparr>)" "mset (alarms q) = add_mset ?r (mset rest)"
    using pop_alarm_run [OF a(1) q(2)] by blast
  have rest: "set (alarms q) = insert ?r (set rest)" using arg_cong [OF p(2), of set_mset] by simp
  have inv: "aq_inv {} (snd (bindE pop_alarm (run_alarm (sv_clock tick) (ts_call tick)) q))"
    by (rule pop_run_inv [OF keeps_ts_call a(1) q(2)])
  define i where "i = aq_ids q ! ?r"
  show ?thesis
  proof (cases "is_active i")
    case False
    then have "bindE pop_alarm (run_alarm (sv_clock tick) (ts_call tick)) q = (Inr (), q\<lparr>alarms := rest\<rparr>)"
      using p(1) by (simp add: bindE_apply run_alarm_def id_of_def eff_apply whenE_apply i_def)
    moreover have "scheduled fn (q\<lparr>alarms := rest\<rparr>)" if "marked fn sv0" for fn
      using sch [OF that] rest False by (auto simp: scheduled_def i_def)
    ultimately show ?thesis using inv a w by (auto simp: node_ok_def)
  next
    case True
    obtain t1 w1 where t1: "tick w = (t1, w1)" by fastforce
    obtain t2 w2 where t2: "tick w1 = (t2, w2)" by fastforce
    define q1 where "q1 = q\<lparr>alarms := rest, aq_world := (sv0, w2)\<rparr>"
    obtain res s' w' where c: "ts_call tick (al_fn i) (al_args i) q1 = (res, q1\<lparr>aq_world := (s', w')\<rparr>)" "call_ok (al_fn i) sv0 s' res"
      using ts_call_run [of q1 tick "al_fn i" "al_args i"] a(3) by (auto simp: q1_def)
    define q2 where "q2 = q1\<lparr>aq_world := (s', w')\<rparr>"
    have clock: "time_now (sv_clock tick) (q\<lparr>alarms := rest\<rparr>) = (Inr t1, q\<lparr>alarms := rest, aq_world := (sv0, w1)\<rparr>)"
      "time_now (sv_clock tick) (q\<lparr>alarms := rest, aq_world := (sv0, w1)\<rparr>) = (Inr t2, q1)"
      using w t1 t2 by (simp_all add: time_now_def sv_clock_def q1_def)
    have run: "bindE pop_alarm (run_alarm (sv_clock tick) (ts_call tick)) q =
        (case res of Inl e \<Rightarrow> (Inr (), q2) | Inr None \<Rightarrow> (Inr (), q2)
         | Inr (Some d) \<Rightarrow> if 0 < d then bindE (time_now (sv_clock tick)) (\<lambda>t.
               thenE (upd_id ?r (\<lambda>i. i\<lparr>fire_time := fadd t d, alarm_fire_time := fadd t d\<rparr>)) (push_alarm ?r)) q2 else (Inr (), q2))"
      using True p(1) a(2) clock c(1)
      by (cases res) (auto simp: bindE_apply run_alarm_def id_of_def eff_apply whenE_apply tryE_apply fire_def cleanup_if_approx_def
          i_def [symmetric] q1_def q2_def split: option.splits)
    have ids: "alarms q2 = rest" "aq_ids q2 = aq_ids q" "approx_scheduled q2 = []" "service q2 = s'"
      using a(2) by (simp_all add: q2_def q1_def)
    have ok: "service_ok s'" using c(2) by (simp add: call_ok_def)
    have other: "scheduled fn q2" if "marked fn s'" "fn \<noteq> al_fn i" for fn
    proof -
      have "marked fn sv0" using c(2) that by (simp add: call_ok_def)
      from sch [OF this] show ?thesis using rest that(2) by (auto simp: scheduled_def ids i_def)
    qed
    show ?thesis
    proof (cases "\<exists>d. res = Inr (Some d) \<and> 0 < d")
      case False
      then have "bindE pop_alarm (run_alarm (sv_clock tick) (ts_call tick)) q = (Inr (), q2)"
        unfolding run by (auto split: sum.splits option.splits)
      moreover have "\<not> marked (al_fn i) s'" using c(2) False by (auto simp: call_ok_def)
      then have "scheduled fn q2" if "marked fn s'" for fn using other that by blast
      ultimately show ?thesis using inv ok ids by (auto simp: node_ok_def)
    next
      case d: True
      then obtain d where d: "res = Inr (Some d)" "0 < d" by blast
      obtain t w3 where t: "tick w' = (t, w3)" by fastforce
      let ?i = "i\<lparr>fire_time := fadd t d, alarm_fire_time := fadd t d\<rparr>"
      define q3 where "q3 = q2\<lparr>aq_world := (s', w3), aq_ids := (aq_ids q)[?r := ?i],
          alarms := heappush (alarm_key ((aq_ids q)[?r := ?i])) ?r rest\<rparr>"
      have "bindE pop_alarm (run_alarm (sv_clock tick) (ts_call tick)) q = (Inr (), q3)"
        unfolding run using d t ids
        by (simp add: bindE_apply time_now_def sv_clock_def upd_id_def push_alarm_def eff_apply q3_def q2_def i_def [symmetric])
      moreover have "scheduled fn q3" if "marked fn s'" for fn
      proof -
        have "?r < length (aq_ids q)" using a(1) hd_in_set [OF q(2)] by (auto simp: aq_inv_def subset_iff)
        then have n: "(aq_ids q)[?r := ?i] ! x = (if x = ?r then ?i else aq_ids q ! x)" for x by simp
        show ?thesis
        proof (cases "fn = al_fn i")
          case True
          with n \<open>is_active i\<close> show ?thesis by (auto simp: scheduled_def q3_def)
        next
          case False
          from other [OF that this] obtain x where x: "x \<in> set rest" "al_fn (aq_ids q ! x) = fn" "is_active (aq_ids q ! x)"
            by (auto simp: scheduled_def ids)
          then have "x \<in> set (alarms q3) \<and> al_fn (aq_ids q3 ! x) = fn \<and> is_active (aq_ids q3 ! x)"
            using n False by (auto simp: q3_def i_def)
          then show ?thesis by (auto simp: scheduled_def)
        qed
      qed
      ultimately show ?thesis using inv ok ids by (auto simp: node_ok_def q3_def)
    qed
  qed
qed

lemma fire_loop_ok:
  assumes "fire_loop (sv_clock tick) (ts_call tick) now q = Some y" "node_ok q"
  shows "node_ok (snd y) \<and> fst y = Inr ()"
proof -
  have "call = ts_call tick \<longrightarrow> clk = sv_clock tick \<longrightarrow> node_ok q \<longrightarrow> node_ok (snd y) \<and> fst y = Inr ()"
    if "fire_loop clk call now q = Some y" for call clk
    using that
  proof (rule fire_loop.raw_induct [rotated], intro impI)
    fix loop clk call now q y
    assume IH: "\<And>clk call now q y. loop clk call now q = Some y \<Longrightarrow>
        call = ts_call tick \<longrightarrow> clk = sv_clock tick \<longrightarrow> node_ok q \<longrightarrow> node_ok (snd y) \<and> fst y = Inr ()"
      and run: "(if alarms q \<noteq> [] \<and> fire_time (aq_ids q ! hd (alarms q)) \<le> now
          then case bindE pop_alarm (run_alarm clk call) q of
               (Inl e, q') \<Rightarrow> Some (Inl e, q')
             | (Inr u, q') \<Rightarrow> loop clk call now q'
          else Some (Inr (), q)) = Some y"
      and h: "call = ts_call tick" "clk = sv_clock tick" "node_ok q"
    show "node_ok (snd y) \<and> fst y = Inr ()"
    proof (cases "alarms q \<noteq> [] \<and> fire_time (aq_ids q ! hd (alarms q)) \<le> now")
      case True
      then obtain q' where "bindE pop_alarm (run_alarm clk call) q = (Inr (), q')" "node_ok q'"
        using fire_one_ok [OF h(3), of tick] h(1,2) by blast
      with run True IH [of clk call now q' y] h show ?thesis by simp
    next
      case False
      with run h show ?thesis by auto
    qed
  qed
  with assms show ?thesis by blast
qed

lemma fire_alarms_ok:
  assumes "fire_alarms (sv_clock tick) (ts_call tick) q = Some (res, q')" "node_ok q"
  shows "node_ok q' \<and> res = Inr ()"
proof (cases "alarms q = []")
  case True
  with assms show ?thesis by (simp add: fire_alarms_def)
next
  case False
  obtain t w where t: "sv_clock tick (aq_world q) = (t, (service q, w))" by (cases "aq_world q"; cases "tick (snd (aq_world q))") (auto simp: sv_clock_def)
  have "node_ok (q\<lparr>aq_world := (service q, w)\<rparr>)" using assms(2) by (simp add: node_ok_def scheduled_def)
  with fire_loop_ok [of tick t _ "(res, q')"] False t assms(1) show ?thesis by (auto simp: fire_alarms_def)
qed

subsection \<open>Adding\<close>

definition alarms_ok :: "'w node \<Rightarrow> bool" where
  "alarms_ok q \<longleftrightarrow> aq_inv {} q \<and> approx_scheduled q = [] \<and> (\<forall>fn. marked fn (service q) \<longrightarrow> scheduled fn q)"

lemma node_ok_alarms: "node_ok q \<longleftrightarrow> alarms_ok q \<and> service_ok (service q)"
  by (auto simp: node_ok_def alarms_ok_def)

lemma alarms_ok_world:
  "alarms_ok q \<Longrightarrow> (\<And>fn. marked fn (fst sw) \<Longrightarrow> marked fn (service q)) \<Longrightarrow> alarms_ok (q\<lparr>aq_world := sw\<rparr>)"
  by (auto simp: alarms_ok_def scheduled_def)

lemma fl_int_nonneg: "0 \<le> n \<Longrightarrow> 0 \<le> fl_int n"
proof -
  have "fl_int 0 = 0" by code_simp
  then show "0 \<le> n \<Longrightarrow> 0 \<le> fl_int n" using fl_int_mono [of 0 n] by simp
qed

lemma register_run:
  assumes "aq_inv {} q" "0 \<le> delay"
  shows "\<exists>q'. register tick delay fn args q = (Inr (), q') \<and> aq_inv {} q' \<and> approx_scheduled q' = approx_scheduled q \<and>
    service q' = service q \<and> scheduled fn q' \<and> (\<forall>fn'. scheduled fn' q \<longrightarrow> scheduled fn' q')"
proof -
  obtain s w where w: "aq_world q = (s, w)" by fastforce
  obtain t1 w1 where t1: "tick w = (t1, w1)" by fastforce
  obtain t2 w2 where t2: "tick w1 = (t2, w2)" by fastforce
  let ?i = "\<lparr>fire_time = fadd t2 (fl_int delay), al_count = uniq_count q, al_fn = fn, al_args = args,
         alarm_fire_time = fadd t1 (fl_int delay), is_active = True\<rparr>"
  define q' where "q' = q\<lparr>aq_world := (s, w2), aq_ids := aq_ids q @ [?i],
     alarms := heappush (alarm_key (aq_ids q @ [?i])) (length (aq_ids q)) (alarms q), uniq_count := uniq_count q + 1\<rparr>"
  have r: "register_alarm (sv_clock tick) (ts_call tick) (fl_int delay) fn args False q = (Inr (length (aq_ids q)), q')"
    using fl_int_nonneg [OF assms(2)] w t1 t2
    by (simp add: register_alarm_def guardR_def bindE_apply eff_apply time_now_def sv_clock_def new_id_def push_alarm_def q'_def)
  have "keeps (aq_inv {}) (register_alarm (sv_clock tick) (ts_call tick) (fl_int delay) fn args False)" by (intro keeps_intros)
  from keepsD [OF this assms(1)] have i: "aq_inv {} q'" by (simp add: r)
  have old: "aq_ids q' ! x = aq_ids q ! x" if "x \<in> set (alarms q)" for x
    using that assms(1) by (auto simp: q'_def aq_inv_def nth_append)
  have "scheduled fn' q'" if "scheduled fn' q" for fn'
  proof -
    from that obtain x where x: "x \<in> set (alarms q)" "al_fn (aq_ids q ! x) = fn'" "is_active (aq_ids q ! x)" by (auto simp: scheduled_def)
    with old [OF x(1)] show ?thesis unfolding scheduled_def by (intro bexI [of _ x]) (auto simp: q'_def)
  qed
  moreover have "scheduled fn q'" by (simp add: scheduled_def q'_def)
  ultimately show ?thesis using r i w by (simp add: register_def bindE_apply eff_apply q'_def)
qed

lemma schedule_run:
  assumes q: "alarms_ok q" and d: "0 \<le> delay (service q)" and m: "is_marked (service q) = marked fn (service q)"
    and set_mark: "\<And>fn'. marked fn' (set_mark (service q)) = (fn' = fn \<or> marked fn' (service q))"
  shows "\<exists>q'. schedule tick delay fn is_marked set_mark q = (Inr (), q') \<and> alarms_ok q' \<and>
    service q' = (if marked fn (service q) then service q else set_mark (service q))"
proof (cases "marked fn (service q)")
  case True
  obtain s w where w: "aq_world q = (s, w)" by fastforce
  with q m True w show ?thesis by (simp add: schedule_def bindE_apply eff_apply on_sv_apply sv_apply world_same)
next
  case False
  obtain s w where w: "aq_world q = (s, w)" by fastforce
  have "aq_inv {} q" using q by (simp add: alarms_ok_def)
  from register_run [OF this d, of tick fn None] obtain q1 where q1: "register tick (delay (service q)) fn None q = (Inr (), q1)"
    "aq_inv {} q1" "approx_scheduled q1 = approx_scheduled q" "service q1 = service q" "scheduled fn q1"
    "\<forall>fn'. scheduled fn' q \<longrightarrow> scheduled fn' q1" by blast
  obtain w1 where w1: "aq_world q1 = (s, w1)" using q1(4) w by (cases "aq_world q1") simp
  define q' where "q' = q1\<lparr>aq_world := (set_mark s, w1)\<rparr>"
  have "schedule tick delay fn is_marked set_mark q = (Inr (), q')"
    using False m q1(1) w w1 by (simp add: schedule_def bindE_apply eff_apply on_sv_apply sv_apply world_same q'_def)
  moreover have "alarms_ok q'"
    using q q1(2,3,5,6) set_mark w by (auto simp: alarms_ok_def q'_def scheduled_def)
  ultimately show ?thesis using False w by (simp add: q'_def)
qed

text \<open>What the service promises of a Python set: adding adds one member.\<close>

definition set_add_ok :: "(int \<Rightarrow> int list \<Rightarrow> int list) \<Rightarrow> bool" where
  "set_add_ok set_add \<longleftrightarrow> (\<forall>x l. set (set_add x l) = insert x (set l)) \<and> (\<forall>x l. distinct l \<longrightarrow> distinct (set_add x l))"

lemma assigned_inv:
  assumes "sv_inv s" "set_add_ok set_add" "key_ok k" "dget (short_id_to_key s) sid = None \<or> dget (short_id_to_key s) sid = Some (tk_cache k)"
  shows "sv_inv ((add_short_id set_add k sid s)\<lparr>assignment_queue := eq_add t sid (assignment_queue s)\<rparr>)"
proof -
  define l where "l = (case dget (key_to_short_ids s) (tk_cache k) of None \<Rightarrow> [] | Some l \<Rightarrow> l)"
  have maps: "maps_ok (key_to_short_ids s) (short_id_to_key s)" using assms(1) by (simp add: sv_inv_def)
  have l: "set l = (case dget (key_to_short_ids s) (tk_cache k) of None \<Rightarrow> {} | Some l \<Rightarrow> set l)" "distinct l"
    using maps_okD(2) [OF maps, of "tk_cache k"] by (auto simp: l_def split: option.splits)
  have "maps_ok (dput (tk_cache k) (set_add sid l) (key_to_short_ids s)) (dput sid (tk_cache k) (short_id_to_key s))"
    using maps_ok_assign [OF maps assms(4), of "tk_hash k" "set_add sid l"] assms(2,3) l by (simp add: set_add_ok_def key_ok_def)
  moreover have "queue_ok (eq_add t sid (assignment_queue s)) (dput sid (tk_cache k) (short_id_to_key s))"
    using assms(1) by (simp add: sv_inv_def queue_ok_def eq_add_def eq_keys_def keys_dput [simplified])
  ultimately show ?thesis using assms(1) by (simp add: sv_inv_def add_short_id_def l_def)
qed

end
