(* ===== verification/TxRun.thy ===== *)
theory TxRun
  imports TxNode
begin

text \<open>
  Runs of a node with a transaction service: additions, removals and the firing of the alarms in any order. From a new
  service on, as long as no short id is given to a second transaction while the first one has it, nothing raises, the maps stay
  inverse of each other, the size stays within the limit, and whatever waits for expiry has its alarm. The last part shows what
  happens when a short id is given to a second transaction.
\<close>

section \<open>Adding keeps the invariant\<close>

lemma marked_simps [simp]:
  "marked fn (s\<lparr>without_content := x\<rparr>) = marked fn s" "marked fn (s\<lparr>without_short_id := x\<rparr>) = marked fn s"
  "marked fn (s\<lparr>assignment_queue := y\<rparr>) = marked fn s" "marked fn (add_short_id f k sid s) = marked fn s"
  "marked fn (s\<lparr>total_contents_size := z, key_to_contents := c\<rparr>) = marked fn s"
  by (cases fn; simp add: add_short_id_def)+

lemma add_short_id_fields [simp]:
  "assignment_queue (add_short_id f k sid s) = assignment_queue s" "without_short_id (add_short_id f k sid s) = without_short_id s"
  by (simp_all add: add_short_id_def)

lemma schedule_marks:
  assumes "alarms_ok q"
  shows "0 \<le> sid_expire_time (service q) \<Longrightarrow> \<exists>q'. schedule_expire_old tick q = (Inr (), q') \<and> alarms_ok q' \<and>
      service q' = (service q)\<lparr>assign_alarm_scheduled := True\<rparr>"
    "\<exists>q'. schedule_no_sid tick q = (Inr (), q') \<and> alarms_ok q' \<and> service q' = (service q)\<lparr>no_sid_alarm_scheduled := True\<rparr>"
    "\<exists>q'. schedule_no_content tick q = (Inr (), q') \<and> alarms_ok q' \<and> service q' = (service q)\<lparr>no_content_alarm_scheduled := True\<rparr>"
proof -
  have m: "marked fn' (s\<lparr>assign_alarm_scheduled := True\<rparr>) = (fn' = ExpireOld \<or> marked fn' s)"
    "marked fn' (s\<lparr>no_sid_alarm_scheduled := True\<rparr>) = (fn' = ExpireNoSid \<or> marked fn' s)"
    "marked fn' (s\<lparr>no_content_alarm_scheduled := True\<rparr>) = (fn' = ExpireNoContent \<or> marked fn' s)" for fn' s
    by (cases fn'; simp)+
  show "0 \<le> sid_expire_time (service q) \<Longrightarrow> \<exists>q'. schedule_expire_old tick q = (Inr (), q') \<and> alarms_ok q' \<and>
      service q' = (service q)\<lparr>assign_alarm_scheduled := True\<rparr>"
    using schedule_run [OF assms, where fn = ExpireOld and tick = tick and set_mark = "\<lambda>s. s\<lparr>assign_alarm_scheduled := True\<rparr>"
        and delay = sid_expire_time and is_marked = assign_alarm_scheduled] m(1)
    by (auto simp: schedule_expire_old_def split: if_splits)
  show "\<exists>q'. schedule_no_sid tick q = (Inr (), q') \<and> alarms_ok q' \<and> service q' = (service q)\<lparr>no_sid_alarm_scheduled := True\<rparr>"
    using schedule_run [OF assms, where fn = ExpireNoSid and tick = tick and set_mark = "\<lambda>s. s\<lparr>no_sid_alarm_scheduled := True\<rparr>"
        and delay = "\<lambda>_. TX_CONTENT_NO_SID_EXPIRE_S" and is_marked = no_sid_alarm_scheduled] m(2)
    by (auto simp: schedule_no_sid_def TX_CONTENT_NO_SID_EXPIRE_S_def split: if_splits)
  show "\<exists>q'. schedule_no_content tick q = (Inr (), q') \<and> alarms_ok q' \<and> service q' = (service q)\<lparr>no_content_alarm_scheduled := True\<rparr>"
    using schedule_run [OF assms, where fn = ExpireNoContent and tick = tick and set_mark = "\<lambda>s. s\<lparr>no_content_alarm_scheduled := True\<rparr>"
        and delay = "\<lambda>_. TX_CONTENT_NO_SID_EXPIRE_S" and is_marked = no_content_alarm_scheduled] m(3)
    by (auto simp: schedule_no_content_def TX_CONTENT_NO_SID_EXPIRE_S_def split: if_splits)
qed

text \<open>The state after an assignment; the contents are as before.\<close>

lemma assign_run:
  assumes q: "node_ok q" and k: "key_ok k" "set_add_ok set_add" and sid: "sid \<noteq> NULL_TX_SID"
    and free: "dget (short_id_to_key (service q)) sid = None \<or> dget (short_id_to_key (service q)) sid = Some (tk_cache k)"
  shows "\<exists>q'. assign_short_id_by_key tick set_add k sid q = (Inr (), q') \<and> node_ok q' \<and>
    dget (short_id_to_key (service q')) = (dget (short_id_to_key (service q)))(sid \<mapsto> tk_cache k) \<and>
    key_to_contents (service q') = key_to_contents (service q) \<and> memory_limit (service q') = memory_limit (service q)"
proof -
  define has where "has = (dget (key_to_contents (service q)) (tk_cache k) \<noteq> None)"
  have a0: "alarms_ok q" "service_ok (service q)" using q by (simp_all add: node_ok_alarms)
  define P where "P = (\<lambda>s. sv_inv s \<and> 0 \<le> sid_expire_time s \<and> (\<forall>fn. pending fn s \<longrightarrow> marked fn s) \<and> key_to_short_ids s = key_to_short_ids (service q) \<and>
      short_id_to_key s = short_id_to_key (service q) \<and> key_to_contents s = key_to_contents (service q) \<and> memory_limit s = memory_limit (service q))"
  have "\<exists>q1. (if has then returnE () else thenE (on_sv (bindE (clock_now tick) (\<lambda>t.
        mod_sv (\<lambda>s. s\<lparr>without_content := eq_add t (tk_hash k) (without_content s)\<rparr>)))) (schedule_no_content tick)) q =
      (Inr (), q1) \<and> alarms_ok q1 \<and> P (service q1)"
  proof (cases has)
    case True
    with a0 show ?thesis by (simp add: eff_apply P_def service_ok_def)
  next
    case False
    obtain s w where w: "aq_world q = (s, w)" by fastforce
    obtain t w1 where t: "tick w = (t, w1)" by fastforce
    define q0 where "q0 = q\<lparr>aq_world := (s\<lparr>without_content := eq_add t (tk_hash k) (without_content s)\<rparr>, w1)\<rparr>"
    have "alarms_ok q0" unfolding q0_def by (rule alarms_ok_world [OF a0(1)]) (simp add: w)
    from schedule_marks(3) [OF this, of tick] obtain q1 where q1: "schedule_no_content tick q0 = (Inr (), q1)" "alarms_ok q1"
      "service q1 = (service q0)\<lparr>no_content_alarm_scheduled := True\<rparr>" by blast
    have "pending fn (service q1) \<longrightarrow> marked fn (service q1)" for fn
      using a0(2) by (cases fn) (auto simp: q1(3) q0_def w service_ok_def dest: spec [of _ fn])
    then have "P (service q1)" using a0(2) by (simp add: P_def q1(3) q0_def w service_ok_def sv_inv_def)
    with False q1 w t show ?thesis by (simp add: thenE_def bindE_apply on_sv_apply sv_apply q0_def)
  qed
  then obtain q1 where q1: "(if has then returnE () else thenE (on_sv (bindE (clock_now tick) (\<lambda>t.
        mod_sv (\<lambda>s. s\<lparr>without_content := eq_add t (tk_hash k) (without_content s)\<rparr>)))) (schedule_no_content tick)) q = (Inr (), q1)"
    "alarms_ok q1" "P (service q1)" by blast
  obtain s1 w1 where w1: "aq_world q1 = (s1, w1)" by fastforce
  obtain t w2 where t: "tick w1 = (t, w2)" by fastforce
  define s2 where "s2 = (add_short_id set_add k sid s1)\<lparr>assignment_queue := eq_add t sid (assignment_queue s1),
     without_short_id := eq_remove (tk_hash k) (without_short_id s1)\<rparr>"
  define q2 where "q2 = q1\<lparr>aq_world := (s2, w2)\<rparr>"
  have P1: "P s1" using q1(3) by (simp add: w1)
  have a2: "alarms_ok q2" unfolding q2_def by (rule alarms_ok_world [OF q1(2)]) (simp add: w1 s2_def)
  have "sv_inv s1" "dget (short_id_to_key s1) sid = None \<or> dget (short_id_to_key s1) sid = Some (tk_cache k)"
    using P1 free by (simp_all add: P_def)
  from assigned_inv [OF this(1) k(2,1) this(2), of t] have "sv_inv s2" by (simp add: s2_def sv_inv_def)
  have e: "0 \<le> sid_expire_time (service q2)" using P1 by (simp add: q2_def s2_def P_def add_short_id_def)
  from schedule_marks(1) [OF a2 e, of tick] obtain q' where q': "schedule_expire_old tick q2 = (Inr (), q')" "alarms_ok q'"
    "service q' = s2\<lparr>assign_alarm_scheduled := True\<rparr>" by (auto simp: q2_def)
  have pend: "pending fn (service q') \<longrightarrow> marked fn (service q')" for fn
  proof -
    have "pending fn s1 \<longrightarrow> marked fn s1" using P1 by (simp add: P_def)
    moreover have "eq_queue (without_short_id s1) = [] \<Longrightarrow> eq_queue (eq_remove (tk_hash k) (without_short_id s1)) = []" by (simp add: eq_remove_def)
    ultimately show ?thesis by (cases fn) (auto simp: q'(3) s2_def add_short_id_def)
  qed
  have "assign_short_id_by_key tick set_add k sid q = (Inr (), q')"
    using sid q1(1) q'(1) w1 t
    by (cases "aq_world q") (simp add: assign_short_id_by_key_def assign_short_id_base_by_key_def thenE_def on_sv_apply sv_apply has_def bindE_apply world_same
        q2_def s2_def)
  moreover have "service_ok (service q')"
    using \<open>sv_inv s2\<close> e pend by (simp add: service_ok_def q'(3) q2_def sv_inv_def)
  ultimately show ?thesis using q'(2,3) P1 by (auto simp: node_ok_alarms s2_def add_short_id_def P_def fun_eq_iff)
qed

text \<open>The state after setting contents: within the memory limit, and with the new contents if they fit.\<close>

lemma set_contents_run:
  fixes c :: bytes and k :: tx_key
  assumes q: "node_ok q"
  defines "C \<equiv> dput (tk_cache k) c (key_to_contents (service q))"
  shows "\<exists>q'. set_transaction_contents_by_key tick k c q = (Inr (), q') \<and> node_ok q' \<and> memory_limit (service q') = memory_limit (service q) \<and>
    (0 \<le> memory_limit (service q) \<longrightarrow> total_contents_size (service q') \<le> memory_limit (service q)) \<and>
    (contents_size C \<le> memory_limit (service q) \<longrightarrow> key_to_contents (service q') = C \<and> short_id_to_key (service q') = short_id_to_key (service q))"
proof -
  define has where "has = (dget (key_to_short_ids (service q)) (tk_cache k) \<noteq> None)"
  define n where "n = size_of (key_to_contents (service q)) (tk_cache k)"
  have a0: "alarms_ok q" "service_ok (service q)" using q by (simp_all add: node_ok_alarms)
  define P where "P = (\<lambda>s. service_ok s \<and> short_id_to_key s = short_id_to_key (service q) \<and> key_to_contents s = key_to_contents (service q) \<and>
      memory_limit s = memory_limit (service q) \<and> total_contents_size s = total_contents_size (service q))"
  have "\<exists>q1. (if has then returnE () else thenE (on_sv (bindE (clock_now tick) (\<lambda>t.
        mod_sv (\<lambda>s. s\<lparr>without_short_id := eq_add t (tk_hash k) (without_short_id s)\<rparr>)))) (schedule_no_sid tick)) q =
      (Inr (), q1) \<and> alarms_ok q1 \<and> P (service q1)"
  proof (cases has)
    case True
    with a0 show ?thesis by (simp add: eff_apply P_def)
  next
    case False
    obtain s w where w: "aq_world q = (s, w)" by fastforce
    obtain t w1 where t: "tick w = (t, w1)" by fastforce
    define q0 where "q0 = q\<lparr>aq_world := (s\<lparr>without_short_id := eq_add t (tk_hash k) (without_short_id s)\<rparr>, w1)\<rparr>"
    have "alarms_ok q0" unfolding q0_def by (rule alarms_ok_world [OF a0(1)]) (simp add: w)
    from schedule_marks(2) [OF this, of tick] obtain q1 where q1: "schedule_no_sid tick q0 = (Inr (), q1)" "alarms_ok q1"
      "service q1 = (service q0)\<lparr>no_sid_alarm_scheduled := True\<rparr>" by blast
    have "pending fn (service q1) \<longrightarrow> marked fn (service q1)" for fn
      using a0(2) by (cases fn) (auto simp: q1(3) q0_def w service_ok_def dest: spec [of _ fn])
    then have "P (service q1)" using a0(2) by (simp add: P_def q1(3) q0_def w service_ok_def sv_inv_def)
    with False q1 w t show ?thesis by (simp add: thenE_def bindE_apply on_sv_apply sv_apply q0_def)
  qed
  then obtain q1 where q1: "(if has then returnE () else thenE (on_sv (bindE (clock_now tick) (\<lambda>t.
        mod_sv (\<lambda>s. s\<lparr>without_short_id := eq_add t (tk_hash k) (without_short_id s)\<rparr>)))) (schedule_no_sid tick)) q = (Inr (), q1)"
    "alarms_ok q1" "P (service q1)" by blast
  obtain s1 w1 where w1: "aq_world q1 = (s1, w1)" by fastforce
  have P1: "P s1" using q1(3) by (simp add: w1)
  define s2 where "s2 = s1\<lparr>without_content := eq_remove (tk_hash k) (without_content s1),
      total_contents_size := total_contents_size s1 + (int (length c) - n), key_to_contents := C\<rparr>"
  have size: "size_ok (key_to_contents (service q)) (total_contents_size (service q))" using a0(2) by (simp add: service_ok_def sv_inv_def)
  have i2: "sv_inv s2" "total_contents_size s2 = contents_size C"
    using P1 size contents_size_dput [of "tk_cache k" c "key_to_contents (service q)"]
    by (auto simp: s2_def P_def service_ok_def sv_inv_def size_ok_def n_def C_def)
  obtain s' w' where m: "memory_limit_clean_up tick (s2, w1) = (Inr (), s', w')" "sv_inv s'" "fixed s' = fixed s2"
    "eq_queue (assignment_queue s2) = [] \<longrightarrow> eq_queue (assignment_queue s') = []"
    "eq_queue (without_short_id s2) = [] \<longrightarrow> eq_queue (without_short_id s') = []"
    "eq_queue (without_content s2) = [] \<longrightarrow> eq_queue (without_content s') = []"
    "0 \<le> memory_limit s2 \<longrightarrow> total_contents_size s' \<le> memory_limit s2" "total_contents_size s2 \<le> memory_limit s2 \<longrightarrow> s' = s2"
    using memory_limit_run [OF i2(1), of tick w1] by blast
  define q' where "q' = q1\<lparr>aq_world := (s', w')\<rparr>"
  have mk: "marked fn s' = marked fn s1" for fn
    using fixed_marked [OF m(3), of fn] by (cases fn) (simp_all add: s2_def)
  have "pending fn s' \<longrightarrow> marked fn s'" for fn
  proof -
    have "pending fn s1 \<longrightarrow> marked fn s1" using P1 by (simp add: P_def service_ok_def)
    moreover have "pending fn s' \<longrightarrow> pending fn s1" using m(4-6) by (cases fn) (auto simp: s2_def eq_remove_def)
    ultimately show ?thesis by (simp add: mk)
  qed
  moreover have "0 \<le> sid_expire_time s'" "memory_limit s' = memory_limit (service q)"
    using m(3) P1 by (simp_all add: fixed_def s2_def P_def service_ok_def)
  ultimately have "service_ok s'" "memory_limit s' = memory_limit (service q)" using m(2) by (simp_all add: service_ok_def)
  moreover have "alarms_ok q'" unfolding q'_def by (rule alarms_ok_world [OF q1(2)]) (simp add: w1 mk)
  moreover have "set_transaction_contents_by_key tick k c q = (Inr (), q')"
    using q1(1) m(1) w1 P1 by (cases "aq_world q") (simp add: set_transaction_contents_by_key_def set_transaction_contents_base_by_key_def
        thenE_def on_sv_apply sv_apply bindE_apply world_same has_def n_def q'_def s2_def C_def P_def)
  ultimately show ?thesis using m(7,8) i2(2) P1 by (auto simp: node_ok_alarms q'_def s2_def P_def)
qed

section \<open>Runs\<close>

inductive tx_step :: "'w clock \<Rightarrow> (int \<Rightarrow> int list \<Rightarrow> int list) \<Rightarrow> 'w node \<Rightarrow> 'w node \<Rightarrow> bool" for tick set_add where
  assigned: "key_ok k \<Longrightarrow> dget (short_id_to_key (service q)) sid \<in> {None, Some (tk_cache k)} \<Longrightarrow>
    assign_short_id_by_key tick set_add k sid q = (r, q') \<Longrightarrow> tx_step tick set_add q q'"
| stored: "set_transaction_contents_by_key tick k c q = (r, q') \<Longrightarrow> tx_step tick set_add q q'"
| removed: "on_sv (remove_transaction_by_key tick force assume_no_sid k) q = (v, q') \<Longrightarrow> tx_step tick set_add q q'"
| removed_sid: "on_sv (remove_transaction_by_short_id tick related force x) q = (r, q') \<Longrightarrow> tx_step tick set_add q q'"
| unassigned: "on_sv (remove_sid_by_key k) q = (r, q') \<Longrightarrow> tx_step tick set_add q q'"
| flagged: "on_sv (mod_sv (set_short_id_transaction_type sid f)) q = (r, q') \<Longrightarrow> tx_step tick set_add q q'"
| cleaned_up: "on_sv (mod_sv (on_block_cleaned_up h)) q = (r, q') \<Longrightarrow> tx_step tick set_add q q'"
| block_seen: "track_seen_short_ids_delayed tick h sids q = (r, q') \<Longrightarrow> tx_step tick set_add q q'"
| fired: "fire_alarms (sv_clock tick) (ts_call tick) q = Some (r, q') \<Longrightarrow> tx_step tick set_add q q'"

lemma removal_node_ok:
  assumes "node_ok q" "m (aq_world q) = (r, s', w')" "removal_ok (service q) s'"
  shows "node_ok (snd (on_sv m q))"
proof -
  have "fixed s' = fixed (service q)" using assms(3) by (simp add: removal_ok_def)
  then have "marked fn s' = marked fn (service q)" for fn by (rule fixed_marked)
  with assms removal_service_ok [OF assms(3)] alarms_ok_world [of q "(s', w')"] show ?thesis
    by (simp add: node_ok_alarms on_sv_apply)
qed

text \<open>Without \<open>force\<close>, a paid transaction is left alone.\<close>

lemma remove_by_short_id_any:
  assumes "sv_inv s"
  shows "\<exists>s' w'. remove_transaction_by_short_id tick related force x (s, w) = (Inr (), s', w') \<and> removal_ok s s'"
proof (cases "force \<or> dget (short_id_to_key s) x = None")
  case True
  then have "remove_transaction_by_short_id tick related force x (s, w) = remove_transaction_by_short_id tick related True x (s, w)"
    by (cases force) (auto simp: remove_transaction_by_short_id_def bindE_apply sv_apply)
  with remove_by_short_id_run [OF sv_inv_but [OF assms, of "{x}"], of tick related w] show ?thesis by auto
next
  case False
  then obtain key where key: "dget (short_id_to_key s) x = Some key" by auto
  have maps: "maps_ok (key_to_short_ids s) (short_id_to_key s)" using assms by (simp add: sv_inv_def)
  obtain l b where l: "dget (key_to_short_ids s) key = Some l" "paid_flags l s = Inr b"
    using maps_okD(5) [OF maps key] maps_okD(1) [OF maps] paid_flags_total by blast
  show ?thesis
  proof (cases b)
    case True
    with False key l removal_ok_refl [OF assms] show ?thesis
      by (simp add: remove_transaction_by_short_id_def remove_known_def bindE_apply eff_apply sv_apply)
  next
    case nb: False
    with False key l have "remove_transaction_by_short_id tick related force x (s, w) = remove_transaction_by_short_id tick related True x (s, w)"
      by (simp add: remove_transaction_by_short_id_def remove_known_def bindE_apply eff_apply sv_apply)
    with remove_by_short_id_run [OF sv_inv_but [OF assms, of "{x}"], of tick related w] show ?thesis by auto
  qed
qed

lemma tx_step_ok:
  assumes "tx_step tick set_add q q'" "node_ok q" "set_add_ok set_add"
  shows "node_ok q'"
proof -
  obtain s w where w: "aq_world q = (s, w)" by fastforce
  have i: "sv_inv s" "node_ok q" using assms(2) w by (simp_all add: node_ok_alarms service_ok_def)
  from assms(1) show ?thesis
  proof cases
    case (assigned k sid r)
    show ?thesis
    proof (cases "sid = NULL_TX_SID")
      case True
      with assigned(3) w have "q' = q" by (auto simp: assign_short_id_by_key_def assign_short_id_base_by_key_def bindE_apply on_sv_apply sv_apply eff_apply world_same)
      with i(2) show ?thesis by simp
    next
      case False
      with assign_run [OF i(2) assigned(1) assms(3) False, of tick] assigned(2,3) show ?thesis by auto
    qed
  next
    case (stored k c r)
    with set_contents_run [OF i(2), of tick k c] show ?thesis by auto
  next
    case (removed force assume_no_sid k v)
    obtain r s' w' where r: "remove_transaction_by_key tick force assume_no_sid k (s, w) = (Inr r, s', w')" "removal_ok s s'"
      using remove_by_key_run [OF i(1), of tick force assume_no_sid k w] by blast
    with removal_node_ok [OF i(2), of "remove_transaction_by_key tick force assume_no_sid k"] removed w show ?thesis
      by (auto simp: on_sv_apply)
  next
    case (removed_sid related force x r)
    obtain s' w' where r: "remove_transaction_by_short_id tick related force x (s, w) = (Inr (), s', w')" "removal_ok s s'"
      using remove_by_short_id_any [OF i(1), of tick related force x w] by blast
    with removal_node_ok [OF i(2), of "remove_transaction_by_short_id tick related force x"] removed_sid w show ?thesis
      by (auto simp: on_sv_apply)
  next
    case (unassigned k r)
    obtain s' w' where r: "remove_sid_by_key k (s, w) = (Inr (), s', w')" "removal_ok s s'"
      using remove_sid_run [OF i(1), of k w] by blast
    with removal_node_ok [OF i(2), of "remove_sid_by_key k"] unassigned w show ?thesis by (auto simp: on_sv_apply)
  next
    case (flagged sid f r)
    have "removal_ok s (set_short_id_transaction_type sid f s)"
      using i(1) by (simp add: set_short_id_transaction_type_def removal_ok_def fixed_def sv_inv_def)
    with removal_node_ok [OF i(2), of "mod_sv (set_short_id_transaction_type sid f)"] flagged w show ?thesis
      by (auto simp: on_sv_apply sv_apply)
  next
    case (cleaned_up h r)
    have "removal_ok s (on_block_cleaned_up h s)"
      using i(1) by (simp add: on_block_cleaned_up_def removal_ok_def fixed_def sv_inv_def)
    with removal_node_ok [OF i(2), of "mod_sv (on_block_cleaned_up h)"] cleaned_up w show ?thesis
      by (auto simp: on_sv_apply sv_apply)
  next
    case (block_seen h sids r)
    with register_run [of q 10 tick TrackSeen "Some (h, sids)"] i(2) show ?thesis
      by (auto simp: track_seen_short_ids_delayed_def node_ok_def)
  next
    case (fired r)
    show ?thesis using fire_alarms_ok [OF fired i(2)] ..
  qed
qed

lemma new_service_ok:
  assumes "TransactionService tick expire pool_limit dump network w = Some (Inr (), q)"
  shows "node_ok q"
proof -
  obtain s where s: "new_tx_service expire pool_limit dump network = Inr s"
    "thenE (whenE dump (register tick 300 DumpRemoved None)) (register tick 10 CleanHistory None) (AlarmQueue (s, w)) = (Inr (), q)"
    using assms by (auto simp: TransactionService_def split: sum.splits)
  have s0: "service_ok s" "\<And>fn. \<not> marked fn s"
  proof -
    have m: "\<not> marked fn s" for fn using s(1) by (cases fn) (auto simp: new_tx_service_def ExpirationQueue_def split: if_splits)
    moreover have "\<not> pending fn s" for fn using s(1) by (cases fn) (auto simp: new_tx_service_def ExpirationQueue_def split: if_splits)
    moreover have "0 \<le> sid_expire_time s" using s(1) by (auto simp: new_tx_service_def ExpirationQueue_def split: if_splits)
    ultimately show "service_ok s" using new_tx_service_inv [OF s(1)] by (simp add: service_ok_def)
    show "\<not> marked fn s" for fn by (rule m)
  qed
  have base: "aq_inv {} (AlarmQueue (s, w))" "approx_scheduled (AlarmQueue (s, w)) = []" "service (AlarmQueue (s, w)) = s"
    by (simp_all add: AlarmQueue_inv) (simp_all add: AlarmQueue_def)
  obtain q1 where q1: "whenE dump (register tick 300 DumpRemoved None) (AlarmQueue (s, w)) = (Inr (), q1)" "aq_inv {} q1"
    "approx_scheduled q1 = []" "service q1 = s"
    using register_run [OF base(1), of 300 tick DumpRemoved None] base by (cases dump) (auto simp: whenE_apply)
  have "aq_inv {} q \<and> approx_scheduled q = [] \<and> service q = s"
    using register_run [OF q1(2), of 10 tick CleanHistory None] s(2) q1 by (auto simp: thenE_def bindE_apply)
  with s0 show ?thesis by (simp add: node_ok_def)
qed

definition tx_reachable :: "'w clock \<Rightarrow> (int \<Rightarrow> int list \<Rightarrow> int list) \<Rightarrow> 'w node \<Rightarrow> bool" where
  "tx_reachable tick set_add q \<longleftrightarrow> (\<exists>expire pool_limit dump network w q0.
     TransactionService tick expire pool_limit dump network w = Some (Inr (), q0) \<and> (tx_step tick set_add)\<^sup>*\<^sup>* q0 q)"

lemma reachable_ok:
  assumes "tx_reachable tick set_add q" "set_add_ok set_add"
  shows "node_ok q"
proof -
  from assms(1) obtain expire pool_limit dump network w q0 where
    q0: "TransactionService tick expire pool_limit dump network w = Some (Inr (), q0)" and r: "(tx_step tick set_add)\<^sup>*\<^sup>* q0 q"
    unfolding tx_reachable_def by blast
  from r show ?thesis
    by (induction rule: rtranclp_induct) (auto intro: new_service_ok [OF q0] tx_step_ok assms(2))
qed

section \<open>What a node can rely on\<close>

text \<open>(C14) From a new service on, over any sequence of assignments, contents, removals and fired alarms in which no short id is
  given to a second transaction while the first has it: a short id stands for a transaction exactly when it is listed for it, the queue of the
  assignments holds exactly the assigned short ids, and the recorded size is that of the contents.\<close>

theorem short_ids_consistent:
  assumes "tx_reachable tick set_add q" "set_add_ok set_add"
  shows "(dget (short_id_to_key (service q)) x = Some k \<longleftrightarrow> (\<exists>l. dget (key_to_short_ids (service q)) k = Some l \<and> x \<in> set l)) \<and>
    eq_keys (assignment_queue (service q)) = set (dkeys (short_id_to_key (service q))) \<and>
    total_contents_size (service q) = contents_size (key_to_contents (service q))"
  using reachable_ok [OF assms] by (auto simp: node_ok_def service_ok_def sv_inv_def maps_ok_def queue_ok_def size_ok_def)



text \<open>(C17) A free short id that is assigned to a transaction whose contents fit is found with its hash and contents, and is no longer missing.\<close>

theorem assigned_found:
  assumes "tx_reachable tick set_add q" "set_add_ok set_add" "key_ok k" "sid \<noteq> NULL_TX_SID"
    and "dget (short_id_to_key (service q)) sid = None"
    and "contents_size (dput (tk_cache k) c (key_to_contents (service q))) \<le> memory_limit (service q)"
  shows "\<exists>q'. thenE (set_transaction_contents_by_key tick k c) (assign_short_id_by_key tick set_add k sid) q = (Inr (), q') \<and>
    get_transaction (service q') sid = Inr \<lparr>ti_hash = Some (tk_hash k), ti_contents = Some c, ti_short_id = sid\<rparr> \<and>
    get_missing_transactions (service q') [sid] = Inr (False, [], [])"
proof -
  obtain q1 where q1: "set_transaction_contents_by_key tick k c q = (Inr (), q1)" "node_ok q1"
    "key_to_contents (service q1) = dput (tk_cache k) c (key_to_contents (service q))" "short_id_to_key (service q1) = short_id_to_key (service q)"
    using set_contents_run [OF reachable_ok [OF assms(1,2)], of tick k c] assms(6) by blast
  obtain q' where q': "assign_short_id_by_key tick set_add k sid q1 = (Inr (), q')"
    "dget (short_id_to_key (service q')) = (dget (short_id_to_key (service q1)))(sid \<mapsto> tk_cache k)"
    "key_to_contents (service q') = key_to_contents (service q1)"
    using assign_run [OF q1(2) assms(3,2,4), of tick] assms(5) q1(4) by auto
  have "dget (short_id_to_key (service q')) sid = Some (tk_cache k)" by (simp add: q'(2))
  then show ?thesis using q1(1,3) q'(1,3) assms(3)
    by (simp add: thenE_def bindE_apply get_transaction_def get_missing_transactions_def missing_step_def get_transaction_key_def key_ok_def)
      (rule exI [of _ False], simp)
qed

text \<open>In every such state the hashes of all queued assignments can be listed, oldest first, without a failing assertion.\<close>

lemma hashes_from_oldest_run:
  assumes "tx_reachable tick set_add q" "set_add_ok set_add"
  shows "\<exists>l. iter_transaction_hashes_from_oldest (service q) newest = Inr l \<and>
    map snd l = takeWhile (\<lambda>t. t \<le> newest) (map snd (eq_queue (assignment_queue (service q))))"
proof -
  let ?s = "service q"
  have inv: "sv_inv ?s" using reachable_ok [OF assms] by (simp add: node_ok_def service_ok_def)
  then have maps: "maps_ok (key_to_short_ids ?s) (short_id_to_key ?s)" by (simp add: sv_inv_def)
  have "\<exists>i h. get_transaction ?s x = Inr i \<and> ti_hash i = Some h" if "x \<in> set (dkeys (eq_queue (assignment_queue ?s)))" for x
  proof -
    have "x \<in> set (dkeys (short_id_to_key ?s))" using that inv by (simp add: sv_inv_def queue_ok_def eq_keys_def)
    then obtain k where k: "dget (short_id_to_key ?s) x = Some k" unfolding in_dkeys by blast
    then obtain h where "tx_cache_key_to_hash k = Inr h" using maps_okD(3,5) [OF maps] by blast
    with k show ?thesis by (simp add: get_transaction_def)
  qed
  then have "\<exists>l. hashes_from_oldest ?s newest d = Inr l \<and> map snd l = takeWhile (\<lambda>t. t \<le> newest) (map snd d)"
    if "set d \<subseteq> set (eq_queue (assignment_queue ?s))" for d
    using that
  proof (induction d)
    case (Cons p d)
    obtain x t where p: "p = (x, t)" by (cases p)
    have "x \<in> set (dkeys (eq_queue (assignment_queue ?s)))" using Cons.prems(2) p by force
    from Cons.prems(1) [OF this] obtain i h where "get_transaction ?s x = Inr i" "ti_hash i = Some h" by blast
    with Cons p show ?case by (auto simp: not_le not_less)
  qed simp
  from this [OF subset_refl] show ?thesis by (simp add: iter_transaction_hashes_from_oldest_def)
qed

section \<open>A short id with two transactions\<close>

text \<open>
  Nothing stops a short id from being assigned to a second transaction: then it stays listed for the first one as well. When the
  first is removed, the short id is unmapped, and the second lists a short id that is not mapped.
\<close>

text \<open>(C40) If the first short id listed for a transaction without contents is not mapped, dropping its short ids raises a KeyError after
  the transaction has been forgotten: the other short ids stay mapped to it, and removing one of them raises a KeyError as well.\<close>

theorem unmapped_short_id_raises:
  assumes "dget (key_to_short_ids s) (tk_cache k) = Some (x # l)" "dget (short_id_to_key s) x = None"
    and "dget (key_to_contents s) (tk_cache k) = None" "dget (short_id_to_key s) y = Some (tk_cache k)" "key_ok k"
  shows "\<exists>s' w'. remove_sid_by_key k (s, w) = (Inl KeyError, s', w') \<and> dget (short_id_to_key s') y = Some (tk_cache k) \<and>
    dget (key_to_short_ids s') (tk_cache k) = None \<and>
    fst (remove_transaction_by_short_id tick related force y (s', w')) = Inl KeyError"
proof -
  define s' where "s' = s\<lparr>key_to_short_ids := ddel (tk_cache k) (key_to_short_ids s)\<rparr>"
  have "remove_sid_by_key k (s, w) = (Inl KeyError, s', w)"
    using assms(1-3) by (simp add: remove_sid_by_key_def del_key_def unassign_short_id_def bindE_apply eff_apply sv_apply guardR_def s'_def)
  moreover have "fst (remove_transaction_by_short_id tick related force y (s', w)) = Inl KeyError"
  proof -
    obtain D where D: "note_dumped y s' = s'\<lparr>removed_short_ids := D\<rparr>" using note_dumped_eq by blast
    have k: "key_to_short_ids (remove_related t y [y] s1) = key_to_short_ids s1" for t s1 by (simp add: remove_related_def)
    show ?thesis using assms(4,5) D k
      by (simp add: remove_transaction_by_short_id_def remove_known_def del_key_def bindE_apply eff_apply sv_apply guardR_def s'_def key_ok_def
          note_removed_def unmap_eq)
  qed
  ultimately show ?thesis using assms(4) by (simp add: s'_def)
qed

text \<open>Removing a transaction by its short id keeps the flags of all short ids: a removed short id of a paid transaction makes
  the next transaction that gets it a paid one.\<close>

theorem paid_flag_stays:
  "get_short_id_transaction_type (fst (snd (remove_transaction_by_short_id tick related force x (s, w)))) sid = get_short_id_transaction_type s sid"
proof -
  define P where "P = (\<lambda>(s' :: tx_service, _ :: 'a). short_id_to_flag s' = short_id_to_flag s)"
  have k: "(\<And>s. short_id_to_flag (f s) = short_id_to_flag s) \<Longrightarrow> keeps P (mod_sv f)" "keeps P (sv g)" "keeps P (clock_now tick)"
    for f and g :: "tx_service \<Rightarrow> 'b"
    by (auto simp: keeps_def P_def sv_apply)
  have g: "keeps P (sv g)" for g :: "tx_service \<Rightarrow> 'c" by (auto simp: keeps_def P_def sv_apply)
  have a: "short_id_to_flag (drop_contents key t (remove_related t x l s)) = short_id_to_flag s" for key t l s
    using remove_related_eq [of t x l s] by (auto simp: drop_contents_def split: option.splits)
  have b: "short_id_to_flag (note_removed t x (unmap_short_id x (note_dumped x s))) = short_id_to_flag s" for t s
    by (simp add: note_removed_def unmap_eq note_dumped_def)
  have "keeps P (remove_transaction_by_short_id tick related force x)"
    unfolding remove_transaction_by_short_id_def remove_known_def del_key_def Let_def
    by (intro keeps_intros keeps_case_option k g) (simp_all add: a b unqueue_eq)
  from keepsD [OF this, of "(s, w)"] show ?thesis by (simp add: P_def case_prod_beta get_short_id_transaction_type_def)
qed

text \<open>\<open>get_oldest_tracked_block\<close> is to skip \<open>n\<close> blocks at the end, but skips one less.\<close>

lemma oldest_tracked_skips:
  assumes "1 \<le> n" "n \<le> length (seen_in_block s)"
  shows "get_oldest_tracked_block s (int n) = take (length (seen_in_block s) - n + 1) (dkeys (seen_in_block s))"
proof -
  have t: "map snd (filter (\<lambda>(i, _). i \<le> m) (enumerate j ks)) = take (Suc m - j) ks" for m j and ks :: "bytes list"
  proof (induction ks arbitrary: j)
    case (Cons b ks)
    show ?case
    proof (cases "j \<le> m")
      case True
      then have "Suc m - j = Suc (Suc m - Suc j)" by simp
      with True Cons [of "Suc j"] show ?thesis by simp
    next
      case False
      then show ?thesis using Cons [of "Suc j"] by simp
    qed
  qed simp
  have "(\<lambda>(i, _ :: bytes). 0 \<le> int i \<and> int i \<le> int (length (seen_in_block s)) - int n) = (\<lambda>(i, _). i \<le> length (seen_in_block s) - n)"
    using assms by auto
  then show ?thesis using t [of "length (seen_in_block s) - n" 0 "dkeys (seen_in_block s)"] assms
    by (simp add: get_oldest_tracked_block_def iter_block_seen_by_time_def Let_def Suc_diff_le)
qed

end
