(* ===== verification/TxExamples.thy ===== *)
theory TxExamples
  imports TxRun LibExamples
begin

text \<open>
  The properties of the transaction service at concrete inputs, on states that runs of a new service reach.
\<close>

definition demo_add :: "int \<Rightarrow> int list \<Rightarrow> int list" where
  "demo_add x l = (if x \<in> set l then l else l @ [x])"

lemma demo_add_ok: "set_add_ok demo_add"
  by (auto simp: set_add_ok_def demo_add_def)

text \<open>Two transactions, whose hashes are the byte 77 or 88 repeated.\<close>

definition demo_key :: tx_key where
  "demo_key = \<lparr>tk_hash = replicate 32 119, tk_cache = replicate 64 (CHR ''7'')\<rparr>"

definition other_key :: tx_key where
  "other_key = \<lparr>tk_hash = replicate 32 136, tk_cache = replicate 64 (CHR ''8'')\<rparr>"

lemma demo_key_ok: "key_ok demo_key" "key_ok other_key"
  by code_simp+

text \<open>A new service with a memory limit of one mebibyte, then with a transaction that has contents and a short id.\<close>

definition demo_node :: "pyfloat node" where
  "demo_node = (case TransactionService demo_clock 100 (Some 1) False None 0 of Some (_, q) \<Rightarrow> q | None \<Rightarrow> AlarmQueue undefined)"

lemma demo_node_new: "TransactionService demo_clock 100 (Some 1) False None 0 = Some (Inr (), demo_node)"
proof -
  obtain s where s: "new_tx_service 100 (Some 1) False None = Inr s"
    by (simp add: new_tx_service_def ExpirationQueue_def TX_CONTENT_NO_SID_EXPIRE_S_def)
  have "aq_inv {} (AlarmQueue (s, 0 :: pyfloat))" by (rule AlarmQueue_inv)
  from register_run [OF this, of 10 demo_clock CleanHistory None] show ?thesis
    by (auto simp: demo_node_def TransactionService_def s thenE_def bindE_apply whenE_apply)
qed

lemma demo_reachable: "(tx_step demo_clock demo_add)\<^sup>*\<^sup>* demo_node q \<Longrightarrow> tx_reachable demo_clock demo_add q"
  unfolding tx_reachable_def using demo_node_new by blast

definition demo_stored :: "pyfloat node" where
  "demo_stored = snd (set_transaction_contents_by_key demo_clock demo_key [1, 2, 3] demo_node)"

definition demo_assigned :: "pyfloat node" where
  "demo_assigned = snd (assign_short_id_by_key demo_clock demo_add demo_key 5 demo_stored)"

lemma demo_node_service:
  "memory_limit (service demo_node) = 1048576" "key_to_contents (service demo_node) = []" "short_id_to_key (service demo_node) = []"
  "key_to_short_ids (service demo_node) = []"
  by code_simp+

lemma demo_node_reachable: "tx_reachable demo_clock demo_add demo_node"
  by (rule demo_reachable) simp

lemma demo_stored_service: "short_id_to_key (service demo_stored) = []" "key_to_contents (service demo_stored) = [(tk_cache demo_key, [1, 2, 3])]"
  "node_ok demo_stored"
  using set_contents_run [OF reachable_ok [OF demo_node_reachable demo_add_ok], of demo_clock demo_key "[1, 2, 3]"]
  by (auto simp: demo_stored_def demo_node_service contents_size_def)

lemma demo_assigned_service:
  "dget (short_id_to_key (service demo_assigned)) 5 = Some (tk_cache demo_key)" "contents_size (key_to_contents (service demo_assigned)) = 3"
  "eq_queue (assignment_queue (service demo_assigned)) \<noteq> []"
proof -
  have a: "dget (short_id_to_key (service demo_assigned)) 5 = Some (tk_cache demo_key)" "node_ok demo_assigned"
    "key_to_contents (service demo_assigned) = [(tk_cache demo_key, [1, 2, 3])]"
    using assign_run [OF demo_stored_service(3) demo_key_ok(1) demo_add_ok, of 5 demo_clock] demo_stored_service
    by (auto simp: demo_assigned_def NULL_TX_SID_def)
  show "dget (short_id_to_key (service demo_assigned)) 5 = Some (tk_cache demo_key)" by (rule a(1))
  show "contents_size (key_to_contents (service demo_assigned)) = 3" by (simp add: a(3) contents_size_def)
  have "5 \<in> eq_keys (assignment_queue (service demo_assigned))"
    using a(1,2) dget_in_keys [OF a(1)] by (simp add: node_ok_def service_ok_def sv_inv_def queue_ok_def)
  then show "eq_queue (assignment_queue (service demo_assigned)) \<noteq> []" by (auto simp: eq_keys_def)
qed

lemma demo_assigned_reachable: "tx_reachable demo_clock demo_add demo_assigned"
proof -
  have "tx_step demo_clock demo_add demo_node demo_stored"
    unfolding demo_stored_def by (rule tx_step.stored [OF prod.collapse [symmetric]])
  moreover have "tx_step demo_clock demo_add demo_stored demo_assigned"
    unfolding demo_assigned_def by (rule tx_step.assigned [OF demo_key_ok(1) _ prod.collapse [symmetric]]) (simp add: demo_stored_service)
  ultimately show ?thesis by (intro demo_reachable) (meson converse_rtranclp_into_rtranclp rtranclp.rtrancl_refl)
qed

theorem short_ids_consistent_witness:
  "(\<exists>l. dget (key_to_short_ids (service demo_assigned)) (tk_cache demo_key) = Some l \<and> 5 \<in> set l) \<and>
     5 \<in> set (dkeys (short_id_to_key (service demo_assigned))) \<and> contents_size (key_to_contents (service demo_assigned)) = 3"
  using short_ids_consistent [OF demo_assigned_reachable demo_add_ok, of 5 "tk_cache demo_key"] demo_assigned_service(1,2)
    dget_in_keys [OF demo_assigned_service(1)] by blast



theorem assigned_found_witness:
  "\<exists>q'. thenE (set_transaction_contents_by_key demo_clock demo_key [1, 2, 3]) (assign_short_id_by_key demo_clock demo_add demo_key 5)
       demo_node = (Inr (), q') \<and>
     get_transaction (service q') 5 = Inr \<lparr>ti_hash = Some (replicate 32 119), ti_contents = Some [1, 2, 3], ti_short_id = 5\<rparr>"
proof -
  have "tk_hash demo_key = replicate 32 119" by (simp add: demo_key_def)
  with assigned_found [OF demo_node_reachable demo_add_ok demo_key_ok(1), of 5 "[1, 2, 3]"] show ?thesis
    by (auto simp: demo_node_service contents_size_def NULL_TX_SID_def)
qed

text \<open>What the assignments of short id 1 to two transactions and of short id 2 to the second leave in the maps; then the
  first transaction is removed.\<close>

definition demo_twice :: tx_service where
  "demo_twice = add_short_id demo_add other_key 2 (add_short_id demo_add other_key 1 (add_short_id demo_add demo_key 1 (service demo_node)))"

definition demo_shared :: tx_service where
  "demo_shared = fst (snd (remove_transaction_by_key demo_clock True False demo_key (demo_twice, 0)))"

lemma keys_differ: "tk_cache other_key \<noteq> tk_cache demo_key" "tk_cache demo_key \<noteq> tk_cache other_key"
  by code_simp+

lemma demo_twice_maps:
  "key_to_short_ids demo_twice = [(tk_cache demo_key, [1]), (tk_cache other_key, [1, 2])]"
  "short_id_to_key demo_twice = [(1, tk_cache other_key), (2, tk_cache other_key)]" "key_to_contents demo_twice = []"
  using keys_differ by (simp_all add: demo_twice_def add_short_id_def demo_add_def demo_node_service)

lemma demo_shared_maps:
  "key_to_short_ids demo_shared = [(tk_cache other_key, [1, 2])]" "short_id_to_key demo_shared = [(2, tk_cache other_key)]"
  "key_to_contents demo_shared = []"
proof -
  obtain b where b: "paid_flags [1] demo_twice = Inr b" by (simp add: paid_flags_def)
  obtain A F D where f: "fold (forget_short_id 0) [1] (demo_twice\<lparr>key_to_short_ids := [(tk_cache other_key, [1, 2])]\<rparr>) =
      demo_twice\<lparr>key_to_short_ids := [(tk_cache other_key, [1, 2])], sid_time_removed := A,
        short_id_to_key := without {1} (short_id_to_key demo_twice), short_id_to_flag := F,
        assignment_queue := (assignment_queue demo_twice)\<lparr>eq_queue := without {1} (eq_queue (assignment_queue demo_twice))\<rparr>, removed_short_ids := D\<rparr>"
    using forget_all_eq [of 0 "[1]" "demo_twice\<lparr>key_to_short_ids := [(tk_cache other_key, [1, 2])]\<rparr>"] by auto
  have r: "demo_shared = fold (forget_short_id 0) [1] (demo_twice\<lparr>key_to_short_ids := [(tk_cache other_key, [1, 2])]\<rparr>)"
    using b keys_differ f
    by (simp add: demo_shared_def remove_transaction_by_key_def remove_contents_by_key_def bindE_apply eff_apply sv_apply whenE_apply
        demo_clock_def demo_twice_maps)
  show "key_to_short_ids demo_shared = [(tk_cache other_key, [1, 2])]" "short_id_to_key demo_shared = [(2, tk_cache other_key)]"
    "key_to_contents demo_shared = []"
    unfolding r f by (simp_all add: demo_twice_maps without_def)
qed

theorem unmapped_short_id_raises_witness:
  "\<exists>s' w'. remove_sid_by_key other_key (demo_shared, 0 :: pyfloat) = (Inl KeyError, s', w') \<and>
     fst (remove_transaction_by_short_id demo_clock False True 2 (s', w')) = Inl KeyError"
  using unmapped_short_id_raises [of demo_shared other_key 1 "[2]" 2 0 demo_clock False True] demo_key_ok(2)
  by (auto simp: demo_shared_maps)

end
