(* ===== verification/Wire.thy ===== *)
theory Wire
  imports PyStr
begin

text \<open>
  Reading and writing fields of a byte buffer, as the message formats of the bloXroute library do with \<open>struct.pack_into\<close>,
  \<open>struct.unpack_from\<close> and slices. A writer takes the buffer with the offset of the next field, a reader the buffer and the offset;
  both return the offset behind the field. The contract \<open>field_codec\<close> says that a reader gives back what the
  writer wrote, wherever the field stands, and lists of fields satisfy it when their elements do.
\<close>

section \<open>Fields\<close>

definition struct_error :: py_error where
  "struct_error = Raised ''struct.error''"

definition le_nat :: "bytes \<Rightarrow> nat" where
  "le_nat bs = be_nat (rev bs)"

definition nat_le :: "nat \<Rightarrow> nat \<Rightarrow> bytes" where
  "nat_le k n = rev (nat_be k n)"

type_synonym cursor = "bytes \<times> nat"

text \<open>\<open>pack_into\<close> of an unsigned integer of \<open>k\<close> bytes, and the slice assignment of bytes, which may lengthen the buffer.\<close>

definition pack_uint :: "nat \<Rightarrow> int \<Rightarrow> cursor \<Rightarrow> cursor res" where
  "pack_uint k v = (\<lambda>(buf, off).
     if 0 \<le> v \<and> v < 256 ^ k \<and> off + k \<le> length buf
     then Inr (take off buf @ nat_le k (nat v) @ drop (off + k) buf, off + k)
     else Inl struct_error)"

definition unpack_uint :: "nat \<Rightarrow> bytes \<Rightarrow> nat \<Rightarrow> (int \<times> nat) res" where
  "unpack_uint k buf off =
     (if off + k \<le> length buf then Inr (int (le_nat (slice buf off (off + k))), off + k) else Inl struct_error)"

definition put_slice :: "nat \<Rightarrow> bytes \<Rightarrow> cursor \<Rightarrow> cursor res" where
  "put_slice n x = (\<lambda>(buf, off). Inr (take off buf @ x @ drop (off + n) buf, off + n))"

definition get_slice_at :: "nat \<Rightarrow> bytes \<Rightarrow> nat \<Rightarrow> (bytes \<times> nat) res" where
  "get_slice_at n buf off = Inr (slice buf off (off + n), off + n)"

fun read_n :: "(bytes \<Rightarrow> nat \<Rightarrow> ('a \<times> nat) res) \<Rightarrow> bytes \<Rightarrow> nat \<Rightarrow> nat \<Rightarrow> ('a list \<times> nat) res" where
  "read_n rd buf 0 off = Inr ([], off)"
| "read_n rd buf (Suc n) off =
     bindR (rd buf off) (\<lambda>(x, off). bindR (read_n rd buf n off) (\<lambda>(xs, off). Inr (x # xs, off)))"

definition zeros :: "nat \<Rightarrow> bytes" where
  \<comment> \<open>\<open>bytearray(n)\<close>\<close>
  "zeros n = replicate n 0"

lemma length_zeros [simp]: "length (zeros n) = n"
  by (simp add: zeros_def)

lemma drop_zeros [simp]: "drop k (zeros n) = zeros (n - k)"
  by (simp add: zeros_def)

lemma length_nat_le [simp]: "length (nat_le k n) = k"
  by (simp add: nat_le_def)

lemma le_nat_nat_le: "n < 256 ^ k \<Longrightarrow> le_nat (nat_le k n) = n"
  by (simp add: le_nat_def nat_le_def be_nat_nat_be)

lemma le_nat_less: "le_nat bs < 256 ^ length bs"
  using be_nat_less [of "rev bs"] by (simp add: le_nat_def)

lemma le_nat_zeros [simp]: "le_nat (zeros k) = 0"
proof (induction k)
  case (Suc k)
  have "be_nat (replicate k 0 @ [0 :: byte]) = 256 * be_nat (replicate k (0 :: byte))" by simp
  with Suc show ?case by (simp add: le_nat_def zeros_def replicate_append_same)
qed (simp add: le_nat_def zeros_def)

lemma slice_behind [simp]: "slice (pre @ x @ post) (length pre) (length pre + length x) = x"
  by (simp add: slice_def)

text \<open>A cursor behind the bytes \<open>pre\<close> and in front of \<open>rest\<close>, and what a reader has ahead of it.\<close>

definition cursor_at :: "bytes \<Rightarrow> bytes \<Rightarrow> cursor" where
  "cursor_at pre rest = (pre @ rest, length pre)"

definition ahead :: "bytes \<Rightarrow> nat \<Rightarrow> bytes \<Rightarrow> bool" where
  "ahead buf off rest \<longleftrightarrow> off \<le> length buf \<and> drop off buf = rest"

lemma ahead_split: "ahead buf off rest \<longleftrightarrow> (\<exists>pre. buf = pre @ rest \<and> off = length pre)"
proof
  assume "ahead buf off rest"
  then have "buf = take off buf @ rest \<and> off = length (take off buf)" by (auto simp: ahead_def)
  then show "\<exists>pre. buf = pre @ rest \<and> off = length pre" by blast
qed (auto simp: ahead_def)

lemma ahead_behind: "ahead (pre @ rest) (length pre) rest"
  by (simp add: ahead_def)

lemma ahead_step: "ahead buf off (x @ rest) \<Longrightarrow> ahead buf (off + length x) rest"
  by (auto simp: ahead_split)

section \<open>The contract of a field\<close>

text \<open>\<open>enc\<close> is the representation of a value that satisfies \<open>ok\<close>.\<close>

locale field_codec =
  fixes ok :: "'a \<Rightarrow> bool" and enc :: "'a \<Rightarrow> bytes"
    and wr :: "'a \<Rightarrow> cursor \<Rightarrow> cursor res" and rd :: "bytes \<Rightarrow> nat \<Rightarrow> ('a \<times> nat) res"
  assumes write_enc: "ok x \<Longrightarrow> length (enc x) \<le> length rest \<Longrightarrow>
      wr x (pre @ rest, length pre) = Inr (pre @ enc x @ drop (length (enc x)) rest, length pre + length (enc x))"
    and read_enc: "ok x \<Longrightarrow> rd (pre @ enc x @ post) (length pre) = Inr (x, length pre + length (enc x))"
begin

lemma write_list:
  assumes "list_all ok xs" "length (concat (map enc xs)) \<le> length rest"
  shows "foldR wr xs (pre @ rest, length pre) =
    Inr (pre @ concat (map enc xs) @ drop (length (concat (map enc xs))) rest, length pre + length (concat (map enc xs)))"
  using assms
proof (induction xs arbitrary: pre rest)
  case (Cons x xs)
  have w: "wr x (pre @ rest, length pre) = Inr (pre @ enc x @ drop (length (enc x)) rest, length pre + length (enc x))"
    using Cons.prems by (intro write_enc) auto
  have "foldR wr xs ((pre @ enc x) @ drop (length (enc x)) rest, length (pre @ enc x)) =
    Inr ((pre @ enc x) @ concat (map enc xs) @ drop (length (concat (map enc xs))) (drop (length (enc x)) rest),
      length (pre @ enc x) + length (concat (map enc xs)))"
    using Cons.prems by (intro Cons.IH) auto
  then show ?case by (simp add: w add.assoc add.commute)
qed simp

lemma read_list:
  assumes "list_all ok xs"
  shows "read_n rd (pre @ concat (map enc xs) @ post) (length xs) (length pre) =
    Inr (xs, length pre + length (concat (map enc xs)))"
  using assms
proof (induction xs arbitrary: pre)
  case (Cons x xs)
  have r: "rd (pre @ enc x @ concat (map enc xs) @ post) (length pre) = Inr (x, length pre + length (enc x))"
    using Cons.prems by (intro read_enc) auto
  have "read_n rd ((pre @ enc x) @ concat (map enc xs) @ post) (length xs) (length (pre @ enc x)) =
    Inr (xs, length (pre @ enc x) + length (concat (map enc xs)))"
    using Cons.prems by (intro Cons.IH) auto
  then show ?case by (simp add: r add.assoc)
qed simp

text \<open>The same with cursors, in the form in which the steps of a writer or of a reader follow each other.\<close>

lemma write_at:
  "ok x \<Longrightarrow> length (enc x) \<le> length rest \<Longrightarrow> wr x (cursor_at pre rest) = Inr (cursor_at (pre @ enc x) (drop (length (enc x)) rest))"
  using write_enc [of x rest pre] by (simp add: cursor_at_def)

lemma write_list_at:
  "list_all ok xs \<Longrightarrow> length (concat (map enc xs)) \<le> length rest \<Longrightarrow>
    foldR wr xs (cursor_at pre rest) = Inr (cursor_at (pre @ concat (map enc xs)) (drop (length (concat (map enc xs))) rest))"
  using write_list [of xs rest pre] by (simp add: cursor_at_def)

lemma read_ahead:
  assumes "ahead buf off (enc x @ rest)" "ok x"
  shows "rd buf off = Inr (x, off + length (enc x))" and "ahead buf (off + length (enc x)) rest"
  using assms read_enc [of x _ rest] ahead_step [of buf off "enc x" rest] by (auto simp: ahead_split)

lemma read_list_ahead:
  assumes "ahead buf off (concat (map enc xs) @ rest)" "list_all ok xs" "n = length xs"
  shows "read_n rd buf n off = Inr (xs, off + length (concat (map enc xs)))" and "ahead buf (off + length (concat (map enc xs))) rest"
  using assms read_list [of xs _ rest] ahead_step [of buf off "concat (map enc xs)" rest] by (auto simp: ahead_split)

text \<open>A list with its length in front, as all the formats write it.\<close>

lemma counted:
  "field_codec (\<lambda>xs. list_all ok xs \<and> length xs < 256 ^ k) (\<lambda>xs. nat_le k (length xs) @ concat (map enc xs))
     (\<lambda>xs c. bindR (pack_uint k (int (length xs)) c) (foldR wr xs))
     (\<lambda>buf off. bindR (unpack_uint k buf off) (\<lambda>(n, off). read_n rd buf (nat n) off))"
proof
  fix xs and pre rest :: bytes
  let ?e = "nat_le k (length xs) @ concat (map enc xs)"
  assume xs: "list_all ok xs \<and> length xs < 256 ^ k" and l: "length ?e \<le> length rest"
  have "int (length xs) < 256 ^ k" using xs by (metis of_nat_less_iff of_nat_numeral of_nat_power)
  then have "pack_uint k (int (length xs)) (pre @ rest, length pre) =
      Inr ((pre @ nat_le k (length xs)) @ drop k rest, length (pre @ nat_le k (length xs)))"
    using l by (simp add: pack_uint_def)
  moreover have "foldR wr xs ((pre @ nat_le k (length xs)) @ drop k rest, length (pre @ nat_le k (length xs))) =
      Inr ((pre @ nat_le k (length xs)) @ concat (map enc xs) @ drop (length (concat (map enc xs))) (drop k rest),
        length (pre @ nat_le k (length xs)) + length (concat (map enc xs)))"
    using xs l by (intro write_list) auto
  ultimately show "bindR (pack_uint k (int (length xs)) (pre @ rest, length pre)) (foldR wr xs) =
      Inr (pre @ ?e @ drop (length ?e) rest, length pre + length ?e)"
    by (simp add: add.assoc add.commute)
next
  fix xs and pre post :: bytes
  let ?e = "nat_le k (length xs) @ concat (map enc xs)"
  assume xs: "list_all ok xs \<and> length xs < 256 ^ k"
  have "slice (pre @ ?e @ post) (length pre) (length pre + k) = nat_le k (length xs)"
    using slice_behind [of pre "nat_le k (length xs)" "concat (map enc xs) @ post"] by simp
  then have "unpack_uint k (pre @ ?e @ post) (length pre) = Inr (int (length xs), length (pre @ nat_le k (length xs)))"
    using xs by (simp add: unpack_uint_def le_nat_nat_le)
  moreover have "read_n rd ((pre @ nat_le k (length xs)) @ concat (map enc xs) @ post) (length xs) (length (pre @ nat_le k (length xs))) =
      Inr (xs, length (pre @ nat_le k (length xs)) + length (concat (map enc xs)))"
    using xs by (intro read_list) auto
  ultimately show "bindR (unpack_uint k (pre @ ?e @ post) (length pre)) (\<lambda>(n, off). read_n rd (pre @ ?e @ post) (nat n) off) =
      Inr (xs, length pre + length ?e)"
    by (simp add: add.assoc)
qed

text \<open>A buffer of zeros of the right length is filled exactly.\<close>

lemma write_list_zeros:
  assumes "list_all ok xs" "n = length (concat (map enc xs)) + k"
  shows "foldR wr xs (pre @ zeros n, length pre) =
    Inr (pre @ concat (map enc xs) @ zeros k, length pre + length (concat (map enc xs)))"
  using write_list [of xs "zeros n" pre] assms by simp

end

text \<open>Unsigned integers and bytes of a fixed length.\<close>

lemma uint_field:
  "field_codec (\<lambda>v. 0 \<le> v \<and> v < 256 ^ k) (\<lambda>v. nat_le k (nat v)) (pack_uint k) (unpack_uint k)"
proof
  fix v :: int and pre rest :: bytes
  assume v: "0 \<le> v \<and> v < 256 ^ k" and "length (nat_le k (nat v)) \<le> length rest"
  then show "pack_uint k v (pre @ rest, length pre) =
      Inr (pre @ nat_le k (nat v) @ drop (length (nat_le k (nat v))) rest, length pre + length (nat_le k (nat v)))"
    by (simp add: pack_uint_def)
next
  fix v :: int and pre post :: bytes
  assume v: "0 \<le> v \<and> v < 256 ^ k"
  have "nat v < 256 ^ k" using v by (simp add: nat_less_iff)
  moreover have "slice (pre @ nat_le k (nat v) @ post) (length pre) (length pre + k) = nat_le k (nat v)"
    using slice_behind [of pre "nat_le k (nat v)" post] by simp
  ultimately show "unpack_uint k (pre @ nat_le k (nat v) @ post) (length pre) = Inr (v, length pre + length (nat_le k (nat v)))"
    using v by (simp add: unpack_uint_def le_nat_nat_le)
qed

lemma bytes_field: "field_codec (\<lambda>x. length x = n) (\<lambda>x. x) (put_slice n) (get_slice_at n)"
proof
  fix x pre post :: bytes assume "length x = n"
  then show "get_slice_at n (pre @ x @ post) (length pre) = Inr (x, length pre + length x)"
    using slice_behind [of pre x post] by (simp add: get_slice_at_def)
qed (simp add: put_slice_def)

interpretation uint: field_codec "\<lambda>v. 0 \<le> v \<and> v < 256 ^ k" "\<lambda>v. nat_le k (nat v)" "pack_uint k" "unpack_uint k" for k
  by (rule uint_field)

interpretation raw: field_codec "\<lambda>x. length x = n" "\<lambda>x. x" "put_slice n" "get_slice_at n" for n
  by (rule bytes_field)

section \<open>Fields one after the other\<close>

definition pair_wr :: "('a \<Rightarrow> cursor \<Rightarrow> cursor res) \<Rightarrow> ('b \<Rightarrow> cursor \<Rightarrow> cursor res) \<Rightarrow> 'a \<times> 'b \<Rightarrow> cursor \<Rightarrow> cursor res" where
  "pair_wr wr1 wr2 = (\<lambda>(x, y) c. bindR (wr1 x c) (wr2 y))"

definition pair_rd :: "(bytes \<Rightarrow> nat \<Rightarrow> ('a \<times> nat) res) \<Rightarrow> (bytes \<Rightarrow> nat \<Rightarrow> ('b \<times> nat) res) \<Rightarrow> bytes \<Rightarrow> nat \<Rightarrow> (('a \<times> 'b) \<times> nat) res" where
  "pair_rd rd1 rd2 buf off = bindR (rd1 buf off) (\<lambda>(x, off). bindR (rd2 buf off) (\<lambda>(y, off). Inr ((x, y), off)))"

lemma pair_codec:
  assumes "field_codec ok1 enc1 wr1 rd1" "field_codec ok2 enc2 wr2 rd2"
  shows "field_codec (\<lambda>(x, y). ok1 x \<and> ok2 y) (\<lambda>(x, y). enc1 x @ enc2 y) (pair_wr wr1 wr2) (pair_rd rd1 rd2)"
proof
  fix p :: "'a \<times> 'b" and pre rest :: bytes
  obtain x y where p: "p = (x, y)" by (cases p)
  assume "case p of (x, y) \<Rightarrow> ok1 x \<and> ok2 y"
  then have ok: "ok1 x" "ok2 y" by (simp_all add: p)
  have a: "ahead (pre @ (enc1 x @ enc2 y) @ rest) (length pre) (enc1 x @ enc2 y @ rest)"
    using ahead_behind [of pre "enc1 x @ enc2 y @ rest"] by simp
  note r1 = field_codec.read_ahead [OF assms(1) a ok(1)]
  note r2 = field_codec.read_ahead [OF assms(2) r1(2) ok(2)]
  show "pair_rd rd1 rd2 (pre @ (case p of (x, y) \<Rightarrow> enc1 x @ enc2 y) @ rest) (length pre) =
      Inr (p, length pre + length (case p of (x, y) \<Rightarrow> enc1 x @ enc2 y))"
    using r1(1) r2(1) by (simp add: pair_rd_def p)
  assume "length (case p of (x, y) \<Rightarrow> enc1 x @ enc2 y) \<le> length rest"
  then have l: "length (enc1 x) \<le> length rest" "length (enc2 y) \<le> length (drop (length (enc1 x)) rest)" by (simp_all add: p)
  show "pair_wr wr1 wr2 p (pre @ rest, length pre) =
      Inr (pre @ (case p of (x, y) \<Rightarrow> enc1 x @ enc2 y) @ drop (length (case p of (x, y) \<Rightarrow> enc1 x @ enc2 y)) rest,
        length pre + length (case p of (x, y) \<Rightarrow> enc1 x @ enc2 y))"
    using field_codec.write_at [OF assms(1) ok(1) l(1), of pre] field_codec.write_at [OF assms(2) ok(2) l(2), of "pre @ enc1 x"]
    by (simp add: pair_wr_def p cursor_at_def add.commute)
qed

end
