(* ===== verification/Serializers.thy ===== *)
theory Serializers
  imports Wire TxNode
begin

text \<open>
  The serializers of the bloXroute messages (bxcommon/messages/bloxroute): short ids (short_ids_serializer.py,
  compact_block_short_ids_serializer.py), the short ids of blocks (blocks_short_ids_serializer.py), transactions
  (transactions_info_serializer.py) and the state of a transaction service (txs_serializer.py). Each kind of item is a
  \<open>field_codec\<close>, so that what was written is read back.
\<close>

section \<open>Short ids\<close>

definition short_ids_length :: "nat \<Rightarrow> nat" where
  \<comment> \<open>\<open>get_serialized_length\<close>\<close>
  "short_ids_length n = 4 + n * 4"

definition serialize_short_ids_to_buffer :: "int list \<Rightarrow> cursor \<Rightarrow> cursor res" where
  "serialize_short_ids_to_buffer sids c = bindR (pack_uint 4 (int (length sids)) c) (foldR (pack_uint 4) sids)"

definition serialize_short_ids :: "int list \<Rightarrow> bytes res" where
  "serialize_short_ids sids =
     bindR (serialize_short_ids_to_buffer sids (zeros (short_ids_length (length sids)), 0)) (\<lambda>(buf, _). Inr buf)"

definition deserialize_short_ids_from_buffer :: "bytes \<Rightarrow> nat \<Rightarrow> (int list \<times> nat) res" where
  "deserialize_short_ids_from_buffer buf off = bindR (unpack_uint 4 buf off) (\<lambda>(n, off). read_n (unpack_uint 4) buf (nat n) off)"

definition deserialize_short_ids :: "bytes \<Rightarrow> int list res" where
  "deserialize_short_ids buf = bindR (deserialize_short_ids_from_buffer buf 0) (\<lambda>(sids, _). Inr sids)"

definition sids_ok :: "int list \<Rightarrow> bool" where
  "sids_ok sids \<longleftrightarrow> list_all (\<lambda>v. 0 \<le> v \<and> v < 256 ^ 4) sids \<and> length sids < 256 ^ 4"

definition sids_enc :: "int list \<Rightarrow> bytes" where
  "sids_enc sids = nat_le 4 (length sids) @ concat (map (\<lambda>v. nat_le 4 (nat v)) sids)"

lemma length_concat_const: "(\<And>x. length (f x) = n) \<Longrightarrow> length (concat (map f xs)) = length xs * n"
  by (induction xs) auto

lemma length_sids_enc [simp]: "length (sids_enc sids) = short_ids_length (length sids)"
  by (simp add: sids_enc_def short_ids_length_def length_concat_const)

interpretation short_ids: field_codec sids_ok sids_enc serialize_short_ids_to_buffer deserialize_short_ids_from_buffer
  using uint.counted [of 4 4]
  unfolding sids_ok_def [abs_def] sids_enc_def [abs_def] serialize_short_ids_to_buffer_def [abs_def] deserialize_short_ids_from_buffer_def [abs_def] .

lemma serialize_short_ids_run: "sids_ok sids \<Longrightarrow> serialize_short_ids sids = Inr (sids_enc sids)"
  using short_ids.write_enc [of sids "zeros (short_ids_length (length sids))" "[]"]
  by (simp add: serialize_short_ids_def zeros_def)

text \<open>The second serializer has the same format, and its reader returns a length and not an offset.\<close>

definition compact_length :: "'a list \<Rightarrow> nat" where
  "compact_length sids = 4 + length sids * 4"

definition serialize_short_ids_into_bytes :: "int list \<Rightarrow> bytes res" where
  "serialize_short_ids_into_bytes sids =
     bindR (pack_uint 4 (int (length sids)) (zeros (compact_length sids), 0)) (\<lambda>c.
     bindR (foldR (pack_uint 4) sids c) (\<lambda>(buf, _). Inr buf))"

definition compact_short_ids_from_buffer :: "bytes \<Rightarrow> nat \<Rightarrow> (int list \<times> nat) res" where
  "compact_short_ids_from_buffer buf off =
     bindR (unpack_uint 4 buf off) (\<lambda>(n, start).
     bindR (read_n (unpack_uint 4) buf (nat n) start) (\<lambda>(sids, end_off). Inr (sids, end_off - off)))"

definition get_bx_block_offsets :: "bytes \<Rightarrow> (int \<times> nat) res" where
  "get_bx_block_offsets bx_block = bindR (unpack_uint 8 bx_block 0) (\<lambda>(short_id_offset, _). Inr (short_id_offset, 8))"

lemma compact_same: "serialize_short_ids_into_bytes sids = serialize_short_ids sids"
  by (cases "pack_uint 4 (int (length sids)) (zeros (compact_length sids), 0)")
     (simp_all add: serialize_short_ids_into_bytes_def serialize_short_ids_def serialize_short_ids_to_buffer_def
        compact_length_def short_ids_length_def)

lemma compact_reads:
  assumes "sids_ok sids"
  shows "compact_short_ids_from_buffer (pre @ sids_enc sids @ post) (length pre) = Inr (sids, compact_length sids)"
  using short_ids.read_enc [OF assms, of pre post]
  by (auto simp: compact_short_ids_from_buffer_def deserialize_short_ids_from_buffer_def compact_length_def short_ids_length_def)

section \<open>Short ids of blocks\<close>

record block_short_ids =
  bs_hash :: bytes
  bs_short_ids :: "int list"

definition blocks_length :: "block_short_ids list \<Rightarrow> nat" where
  "blocks_length bs = length bs * SHA256_HASH_LEN + length bs * 4 + sum_list (map (length \<circ> bs_short_ids) bs) * 4"

definition write_block :: "block_short_ids \<Rightarrow> cursor \<Rightarrow> cursor res" where
  "write_block b c =
     bindR (put_slice SHA256_HASH_LEN (bs_hash b) c) (\<lambda>c.
     bindR (pack_uint 4 (int (length (bs_short_ids b))) c) (foldR (pack_uint 4) (bs_short_ids b)))"

definition serialize_blocks_short_ids_into_bytes :: "block_short_ids list \<Rightarrow> bytes res" where
  "serialize_blocks_short_ids_into_bytes bs = bindR (foldR write_block bs (zeros (blocks_length bs), 0)) (\<lambda>(buf, _). Inr buf)"

definition read_hash :: "bytes \<Rightarrow> nat \<Rightarrow> (bytes \<times> nat) res" where
  "read_hash buf off = bindR (get_slice_at SHA256_HASH_LEN buf off) (\<lambda>(h, off). bindR (Sha256Hash h) (\<lambda>h. Inr (h, off)))"

definition read_block :: "bytes \<Rightarrow> nat \<Rightarrow> (block_short_ids \<times> nat) res" where
  "read_block buf off =
     bindR (read_hash buf off) (\<lambda>(h, off).
     bindR (unpack_uint 4 buf off) (\<lambda>(n, off).
     bindR (read_n (unpack_uint 4) buf (nat n) off) (\<lambda>(sids, off). Inr (\<lparr>bs_hash = h, bs_short_ids = sids\<rparr>, off))))"

definition deserialize_blocks_short_ids_from_buffer :: "bytes \<Rightarrow> nat \<Rightarrow> nat \<Rightarrow> block_short_ids list res" where
  "deserialize_blocks_short_ids_from_buffer buf off n = bindR (read_n read_block buf n off) (\<lambda>(bs, _). Inr bs)"

interpretation hash: field_codec "\<lambda>h. length h = SHA256_HASH_LEN" "\<lambda>h. h" "put_slice SHA256_HASH_LEN" read_hash
proof
  fix h pre rest :: bytes assume h: "length h = SHA256_HASH_LEN"
  show "read_hash (pre @ h @ rest) (length pre) = Inr (h, length pre + length h)"
    using raw.read_enc [OF h, of pre rest] h by (simp add: read_hash_def Sha256Hash_def)
qed (simp add: put_slice_def)

definition block_enc :: "block_short_ids \<Rightarrow> bytes" where
  "block_enc b = bs_hash b @ sids_enc (bs_short_ids b)"

definition block_ok :: "block_short_ids \<Rightarrow> bool" where
  "block_ok b \<longleftrightarrow> length (bs_hash b) = SHA256_HASH_LEN \<and> sids_ok (bs_short_ids b)"

interpretation block: field_codec block_ok block_enc write_block read_block
proof
  fix b and pre rest :: bytes
  assume b: "block_ok b" and l: "length (block_enc b) \<le> length rest"
  have "write_block b c = bindR (put_slice SHA256_HASH_LEN (bs_hash b) c) (serialize_short_ids_to_buffer (bs_short_ids b))" for c
    by (simp add: write_block_def serialize_short_ids_to_buffer_def [abs_def])
  then show "write_block b (pre @ rest, length pre) =
      Inr (pre @ block_enc b @ drop (length (block_enc b)) rest, length pre + length (block_enc b))"
    using b l hash.write_at [of "bs_hash b" rest pre] short_ids.write_at [of "bs_short_ids b" "drop SHA256_HASH_LEN rest" "pre @ bs_hash b"]
    by (simp add: block_ok_def block_enc_def cursor_at_def add.commute add.left_commute)
next
  fix b and pre post :: bytes
  assume b: "block_ok b"
  have a: "ahead (pre @ block_enc b @ post) (length pre) (bs_hash b @ sids_enc (bs_short_ids b) @ post)"
    using ahead_behind [of pre "block_enc b @ post"] by (simp add: block_enc_def)
  have "read_block buf off = bindR (read_hash buf off) (\<lambda>(h, off).
      bindR (deserialize_short_ids_from_buffer buf off) (\<lambda>(sids, off). Inr (\<lparr>bs_hash = h, bs_short_ids = sids\<rparr>, off)))" for buf off
    unfolding read_block_def deserialize_short_ids_from_buffer_def bindR_def by (auto split: sum.splits)
  then show "read_block (pre @ block_enc b @ post) (length pre) = Inr (b, length pre + length (block_enc b))"
    using b hash.read_ahead [OF a] short_ids.read_ahead [OF hash.read_ahead(2) [OF a]]
    by (simp add: block_ok_def block_enc_def)
qed

section \<open>Transactions\<close>

definition transactions_info_length :: "tx_info list \<Rightarrow> nat res" where
  "transactions_info_length txs =
     foldR (\<lambda>tx n. bindR (opt_res AssertionError (ti_contents tx)) (\<lambda>c. Inr (n + length c))) txs
       (4 + length txs * (4 + SHA256_HASH_LEN + 4))"

definition write_tx_info :: "tx_info \<Rightarrow> cursor \<Rightarrow> cursor res" where
  "write_tx_info tx c =
     bindR (pack_uint 4 (ti_short_id tx) c) (\<lambda>c.
     bindR (opt_res AssertionError (ti_hash tx)) (\<lambda>h.
     bindR (put_slice SHA256_HASH_LEN h c) (\<lambda>c.
     bindR (opt_res AssertionError (ti_contents tx)) (\<lambda>contents.
     bindR (pack_uint 4 (int (length contents)) c) (put_slice (length contents) contents)))))"

definition serialize_transactions_info_to_buffer :: "tx_info list \<Rightarrow> cursor \<Rightarrow> cursor res" where
  "serialize_transactions_info_to_buffer txs c = bindR (pack_uint 4 (int (length txs)) c) (foldR write_tx_info txs)"

definition serialize_transactions_info :: "tx_info list \<Rightarrow> bytes res" where
  "serialize_transactions_info txs =
     bindR (transactions_info_length txs) (\<lambda>n.
     bindR (serialize_transactions_info_to_buffer txs (zeros n, 0)) (\<lambda>(buf, _). Inr buf))"

definition read_tx_info :: "bytes \<Rightarrow> nat \<Rightarrow> (tx_info \<times> nat) res" where
  "read_tx_info buf off =
     bindR (unpack_uint 4 buf off) (\<lambda>(sid, off).
     bindR (read_hash buf off) (\<lambda>(h, off).
     bindR (unpack_uint 4 buf off) (\<lambda>(tx_size, off).
     bindR (get_slice_at (nat tx_size) buf off) (\<lambda>(tx, off).
       Inr (\<lparr>ti_hash = Some h, ti_contents = Some tx, ti_short_id = sid\<rparr>, off)))))"

definition deserialize_transactions_info_from_buffer :: "bytes \<Rightarrow> nat \<Rightarrow> (tx_info list \<times> nat) res" where
  "deserialize_transactions_info_from_buffer buf off = bindR (unpack_uint 4 buf off) (\<lambda>(n, off). read_n read_tx_info buf (nat n) off)"

definition deserialize_transactions_info :: "bytes \<Rightarrow> tx_info list res" where
  "deserialize_transactions_info buf = bindR (deserialize_transactions_info_from_buffer buf 0) (\<lambda>(txs, _). Inr txs)"

text \<open>Only a complete transaction can be written: one with a hash and contents.\<close>

definition tx_info_ok :: "tx_info \<Rightarrow> bool" where
  "tx_info_ok tx \<longleftrightarrow> 0 \<le> ti_short_id tx \<and> ti_short_id tx < 256 ^ 4 \<and>
     (\<exists>h c. ti_hash tx = Some h \<and> ti_contents tx = Some c \<and> length h = SHA256_HASH_LEN \<and> length c < 256 ^ 4)"

definition tx_info_enc :: "tx_info \<Rightarrow> bytes" where
  "tx_info_enc tx = nat_le 4 (nat (ti_short_id tx)) @ the (ti_hash tx) @ nat_le 4 (length (the (ti_contents tx))) @ the (ti_contents tx)"

lemma len_field: "length c < 256 ^ 4 \<Longrightarrow> 0 \<le> int (length c) \<and> int (length c) < 256 ^ 4" for c :: bytes
  by simp

interpretation tx_info: field_codec tx_info_ok tx_info_enc write_tx_info read_tx_info
proof
  fix tx and pre rest :: bytes
  assume tx: "tx_info_ok tx" and l: "length (tx_info_enc tx) \<le> length rest"
  then obtain h c where hc: "ti_hash tx = Some h" "ti_contents tx = Some c" "length h = SHA256_HASH_LEN" "length c < 256 ^ 4"
    and sid: "0 \<le> ti_short_id tx \<and> ti_short_id tx < 256 ^ 4"
    by (auto simp: tx_info_ok_def)
  let ?a = "nat_le 4 (nat (ti_short_id tx))" and ?n = "nat_le 4 (length c)"
  note e = tx_info_enc_def [of tx] hc
  have lens: "4 + (SHA256_HASH_LEN + (4 + length c)) \<le> length rest" using l hc by (simp add: tx_info_enc_def)
  have "write_tx_info tx (cursor_at pre rest) = Inr (cursor_at (pre @ ?a @ h @ ?n @ c) (drop (length (?a @ h @ ?n @ c)) rest))"
    using lens hc uint.write_at [OF sid, of rest pre] hash.write_at [OF hc(3), of "drop 4 rest" "pre @ ?a"]
      uint.write_at [OF len_field [OF hc(4)], of "drop (4 + SHA256_HASH_LEN) rest" "pre @ ?a @ h"]
      raw.write_at [of c "length c" "drop (8 + SHA256_HASH_LEN) rest" "pre @ ?a @ h @ ?n"]
    by (simp add: write_tx_info_def add.commute add.left_commute)
  then show "write_tx_info tx (pre @ rest, length pre) =
      Inr (pre @ tx_info_enc tx @ drop (length (tx_info_enc tx)) rest, length pre + length (tx_info_enc tx))"
    by (simp add: cursor_at_def e)
next
  fix tx and pre post :: bytes
  assume tx: "tx_info_ok tx"
  then obtain h c where hc: "ti_hash tx = Some h" "ti_contents tx = Some c" "length h = SHA256_HASH_LEN" "length c < 256 ^ 4"
    and sid: "0 \<le> ti_short_id tx \<and> ti_short_id tx < 256 ^ 4"
    by (auto simp: tx_info_ok_def)
  let ?buf = "pre @ tx_info_enc tx @ post"
  have a: "ahead ?buf (length pre) (nat_le 4 (nat (ti_short_id tx)) @ h @ nat_le 4 (nat (int (length c))) @ c @ post)"
    using ahead_behind [of pre "tx_info_enc tx @ post"] hc by (simp add: tx_info_enc_def)
  note r1 = uint.read_ahead [OF a sid] and r2 = hash.read_ahead [OF uint.read_ahead(2) [OF a sid] hc(3)]
  note r3 = uint.read_ahead [OF r2(2) len_field [OF hc(4)]]
  note r4 = raw.read_ahead(1) [OF r3(2) refl]
  show "read_tx_info ?buf (length pre) = Inr (tx, length pre + length (tx_info_enc tx))"
    using r1(1) r2(1) r3(1) r4 hc by (simp add: read_tx_info_def tx_info_enc_def add.assoc)
qed

interpretation txs_info: field_codec "\<lambda>txs. list_all tx_info_ok txs \<and> length txs < 256 ^ 4"
    "\<lambda>txs. nat_le 4 (length txs) @ concat (map tx_info_enc txs)"
    serialize_transactions_info_to_buffer deserialize_transactions_info_from_buffer
  using tx_info.counted [of 4]
  unfolding serialize_transactions_info_to_buffer_def [abs_def] deserialize_transactions_info_from_buffer_def [abs_def] .

lemma transactions_info_length_run:
  assumes "list_all tx_info_ok txs"
  shows "transactions_info_length txs = Inr (length (nat_le 4 (length txs) @ concat (map tx_info_enc txs)))"
proof -
  have "foldR (\<lambda>tx n. bindR (opt_res AssertionError (ti_contents tx)) (\<lambda>c. Inr (n + length c))) txs m =
    Inr (m + sum_list (map (length \<circ> the \<circ> ti_contents) txs))" for m
    using assms by (induction txs arbitrary: m) (auto simp: tx_info_ok_def add.assoc)
  moreover have "length (concat (map tx_info_enc txs)) = length txs * (4 + SHA256_HASH_LEN + 4) + sum_list (map (length \<circ> the \<circ> ti_contents) txs)"
    using assms by (induction txs) (auto simp: tx_info_ok_def tx_info_enc_def)
  ultimately show ?thesis by (simp add: transactions_info_length_def)
qed

lemma transactions_info_roundtrip:
  assumes "list_all tx_info_ok txs" "length txs < 256 ^ 4"
  shows "\<exists>buf. serialize_transactions_info txs = Inr buf \<and> deserialize_transactions_info (buf @ rest) = Inr txs"
proof -
  let ?e = "nat_le 4 (length txs) @ concat (map tx_info_enc txs)"
  have "serialize_transactions_info txs = Inr ?e"
    using txs_info.write_enc [of txs "zeros (length ?e)" "[]"] assms transactions_info_length_run [OF assms(1)]
    by (simp add: serialize_transactions_info_def zeros_def)
  then show ?thesis
    using txs_info.read_enc [of txs "[]" rest] assms by (simp add: deserialize_transactions_info_def)
qed

section \<open>The state of a transaction service\<close>

definition tx_content_length :: "tx_content_short_ids \<Rightarrow> nat" where
  "tx_content_length t =
     SHA256_HASH_LEN + 4 + (case tc_content t of None \<Rightarrow> 0 | Some c \<Rightarrow> length c) + 4 + 2 + (4 + 2) * length (tc_short_ids t)"

definition txs_content_length :: "tx_content_short_ids list \<Rightarrow> nat" where
  "txs_content_length ts = sum_list (map tx_content_length ts)"

text \<open>A transaction is written only when its contents are known and the null id is not among its short ids; the buffer has room for it anyway.\<close>

definition carried :: "tx_content_short_ids \<Rightarrow> bool" where
  "carried t \<longleftrightarrow> tc_content t \<noteq> None \<and> NULL_TX_SID \<notin> set (tc_short_ids t)"

definition write_tx :: "tx_content_short_ids \<Rightarrow> cursor \<Rightarrow> cursor res" where
  "write_tx t c =
     (if \<not> carried t then Inr c
      else
        let content = the (tc_content t) in
        bindR (put_slice SHA256_HASH_LEN (tc_hash t) c) (\<lambda>c.
        bindR (pack_uint 4 (int (length content)) c) (\<lambda>c.
        bindR (put_slice (length content) content c) (\<lambda>c.
        bindR (pack_uint 4 0 c) (\<lambda>c.
        bindR (pack_uint 2 (int (length (tc_short_ids t))) c) (\<lambda>c.
        bindR (foldR (pack_uint 4) (tc_short_ids t) c) (\<lambda>c.
        bindR (guardR (length (tc_flags t) = length (tc_short_ids t)) AssertionError) (\<lambda>_.
          foldR (pack_uint 2) (tc_flags t) c))))))))"

definition serialize_txs_content_short_ids_into_bytes :: "tx_content_short_ids list \<Rightarrow> bytes res" where
  "serialize_txs_content_short_ids_into_bytes ts =
     bindR (foldR write_tx ts (zeros (txs_content_length ts), 0)) (\<lambda>(buf, _). Inr buf)"

text \<open>\<open>TransactionFlag(value)\<close>: a value with a bit that no flag has raises a ValueError.\<close>

definition TransactionFlag :: "int \<Rightarrow> int res" where
  "TransactionFlag v = (if 0 \<le> v \<and> v < 2 ^ 13 then Inr v else Inl ValueError)"

definition read_flag :: "bytes \<Rightarrow> nat \<Rightarrow> (int \<times> nat) res" where
  "read_flag buf off = bindR (unpack_uint 2 buf off) (\<lambda>(v, off). bindR (TransactionFlag v) (\<lambda>f. Inr (f, off)))"

definition read_tx :: "bytes \<Rightarrow> nat \<Rightarrow> (tx_content_short_ids \<times> nat) res" where
  "read_tx buf off =
     bindR (read_hash buf off) (\<lambda>(h, off).
     bindR (unpack_uint 4 buf off) (\<lambda>(size, off).
     bindR (get_slice_at (nat size) buf off) (\<lambda>(content, off).
     bindR (unpack_uint 2 buf (off + 4)) (\<lambda>(n, off).
     bindR (read_n (unpack_uint 4) buf (nat n) off) (\<lambda>(sids, off).
     bindR (read_n read_flag buf (nat n) off) (\<lambda>(flags, off).
       Inr (\<lparr>tc_hash = h, tc_content = Some content, tc_short_ids = sids, tc_flags = flags\<rparr>, off)))))))"

definition deserialize_txs_content_short_ids_from_buffer :: "bytes \<Rightarrow> nat \<Rightarrow> nat \<Rightarrow> tx_content_short_ids list res" where
  "deserialize_txs_content_short_ids_from_buffer buf off tx_count = bindR (read_n read_tx buf tx_count off) (\<lambda>(ts, _). Inr ts)"

interpretation tx_flag: field_codec "\<lambda>v. 0 \<le> v \<and> v < 2 ^ 13" "\<lambda>v. nat_le 2 (nat v)" "pack_uint 2" read_flag
proof
  fix v :: int and pre rest :: bytes
  assume v: "0 \<le> v \<and> v < 2 ^ 13"
  then have v2: "0 \<le> v \<and> v < 256 ^ 2" by simp
  show "length (nat_le 2 (nat v)) \<le> length rest \<Longrightarrow> pack_uint 2 v (pre @ rest, length pre) =
      Inr (pre @ nat_le 2 (nat v) @ drop (length (nat_le 2 (nat v))) rest, length pre + length (nat_le 2 (nat v)))"
    by (rule uint.write_enc [OF v2])
  show "read_flag (pre @ nat_le 2 (nat v) @ rest) (length pre) = Inr (v, length pre + length (nat_le 2 (nat v)))"
    using v uint.read_enc [OF v2, of pre rest] by (simp add: read_flag_def TransactionFlag_def)
qed

definition tx_ok :: "tx_content_short_ids \<Rightarrow> bool" where
  "tx_ok t \<longleftrightarrow> carried t \<and> length (tc_hash t) = SHA256_HASH_LEN \<and> length (the (tc_content t)) < 256 ^ 4 \<and>
     list_all (\<lambda>v. 0 \<le> v \<and> v < 256 ^ 4) (tc_short_ids t) \<and> length (tc_short_ids t) < 256 ^ 2 \<and>
     length (tc_flags t) = length (tc_short_ids t) \<and> list_all (\<lambda>v. 0 \<le> v \<and> v < 2 ^ 13) (tc_flags t)"

definition tx_enc :: "tx_content_short_ids \<Rightarrow> bytes" where
  "tx_enc t = tc_hash t @ nat_le 4 (length (the (tc_content t))) @ the (tc_content t) @ nat_le 4 0 @ nat_le 2 (length (tc_short_ids t)) @
     concat (map (\<lambda>v. nat_le 4 (nat v)) (tc_short_ids t)) @ concat (map (\<lambda>v. nat_le 2 (nat v)) (tc_flags t))"

lemma length_tx_enc:
  assumes "tx_ok t"
  shows "length (tx_enc t) = tx_content_length t"
  using assms by (auto simp: tx_ok_def carried_def tx_enc_def tx_content_length_def length_concat_const)

lemma short_len_field: "length xs < 256 ^ 2 \<Longrightarrow> 0 \<le> int (length xs) \<and> int (length xs) < 256 ^ 2"
  by simp

interpretation tx_item: field_codec tx_ok tx_enc write_tx read_tx
proof
  fix t and pre rest :: bytes
  assume t: "tx_ok t" and l: "length (tx_enc t) \<le> length rest"
  then obtain content where c: "tc_content t = Some content" "carried t" "length (tc_hash t) = SHA256_HASH_LEN" "length content < 256 ^ 4"
    and sids: "list_all (\<lambda>v. 0 \<le> v \<and> v < 256 ^ 4) (tc_short_ids t)" "length (tc_short_ids t) < 256 ^ 2"
    and flags: "length (tc_flags t) = length (tc_short_ids t)" "list_all (\<lambda>v. 0 \<le> v \<and> v < 2 ^ 13) (tc_flags t)"
    by (auto simp: tx_ok_def carried_def)
  let ?n = "nat_le 4 (length content)" and ?k = "nat_le 2 (length (tc_short_ids t))"
  let ?s = "concat (map (\<lambda>v. nat_le 4 (nat v)) (tc_short_ids t))" and ?f = "concat (map (\<lambda>v. nat_le 2 (nat v)) (tc_flags t))"
  have ls: "length ?s = length (tc_short_ids t) * 4" "length ?f = length (tc_short_ids t) * 2"
    by (simp_all add: length_concat_const flags(1))
  let ?p1 = "pre @ tc_hash t" and ?r1 = "drop SHA256_HASH_LEN rest"
  let ?p2 = "?p1 @ ?n" and ?r2 = "drop 4 ?r1"
  let ?p3 = "?p2 @ content" and ?r3 = "drop (length content) ?r2"
  let ?p4 = "?p3 @ nat_le 4 0" and ?r4 = "drop 4 ?r3"
  let ?p5 = "?p4 @ ?k" and ?r5 = "drop 2 ?r4"
  let ?p6 = "?p5 @ ?s" and ?r6 = "drop (length ?s) ?r5"
  have lens: "SHA256_HASH_LEN + 4 + length content + 4 + 2 + length (tc_short_ids t) * 4 + length (tc_short_ids t) * 2 \<le> length rest"
    using l length_tx_enc [OF t] c(1) by (simp add: tx_content_length_def)
  have "write_tx t (cursor_at pre rest) = Inr (cursor_at (?p6 @ ?f) (drop (length ?f) ?r6))"
    using lens c(1-3) flags(1) ls hash.write_at [OF c(3), of rest pre]
      uint.write_at [OF len_field [OF c(4)], of ?r1 ?p1] raw.write_at [of content "length content" ?r2 ?p2]
      uint.write_at [of 0 4 ?r3 ?p3] uint.write_at [OF short_len_field [OF sids(2)], of ?r4 ?p4]
      uint.write_list_at [OF sids(1), of ?r5 ?p5] tx_flag.write_list_at [OF flags(2), of ?r6 ?p6]
    by (simp add: write_tx_def Let_def)
  then show "write_tx t (pre @ rest, length pre) =
      Inr (pre @ tx_enc t @ drop (length (tx_enc t)) rest, length pre + length (tx_enc t))"
    using c(1,3) flags(1) by (simp add: cursor_at_def tx_enc_def ls ac_simps)
next
  fix t and pre post :: bytes
  assume t: "tx_ok t"
  then obtain content where c: "tc_content t = Some content" "carried t" "length (tc_hash t) = SHA256_HASH_LEN" "length content < 256 ^ 4"
    and sids: "list_all (\<lambda>v. 0 \<le> v \<and> v < 256 ^ 4) (tc_short_ids t)" "length (tc_short_ids t) < 256 ^ 2"
    and flags: "length (tc_flags t) = length (tc_short_ids t)" "list_all (\<lambda>v. 0 \<le> v \<and> v < 2 ^ 13) (tc_flags t)"
    by (auto simp: tx_ok_def carried_def)
  let ?s = "concat (map (\<lambda>v. nat_le 4 (nat v)) (tc_short_ids t))" and ?f = "concat (map (\<lambda>v. nat_le 2 (nat v)) (tc_flags t))"
  let ?buf = "pre @ tx_enc t @ post"
  have a: "ahead ?buf (length pre) (tc_hash t @ nat_le 4 (nat (int (length content))) @ content @ nat_le 4 0 @
      nat_le 2 (nat (int (length (tc_short_ids t)))) @ ?s @ ?f @ post)"
    using ahead_behind [of pre "tx_enc t @ post"] c(1) by (simp add: tx_enc_def)
  note r1 = hash.read_ahead [OF a c(3)]
  note r2 = uint.read_ahead [OF r1(2) len_field [OF c(4)]]
  note r3 = raw.read_ahead [OF r2(2) refl]
  note e = ahead_step [OF r3(2)]
  note r4 = uint.read_ahead [OF e short_len_field [OF sids(2)]]
  note r5 = uint.read_list_ahead [OF r4(2) sids(1) refl]
  note r6 = tx_flag.read_list_ahead [OF r5(2) flags(2) flags(1) [symmetric]]
  show "read_tx ?buf (length pre) = Inr (t, length pre + length (tx_enc t))"
    using r1(1) r2(1) r3(1) r4(1) r5(1) r6(1) c(1) by (simp add: read_tx_def tx_enc_def add.assoc)
qed

text \<open>What is left of the buffer is read back as empty transactions with a null hash, one for each that was left out.\<close>

definition null_tx :: tx_content_short_ids where
  "null_tx = \<lparr>tc_hash = zeros SHA256_HASH_LEN, tc_content = Some [], tc_short_ids = [], tc_flags = []\<rparr>"

lemma nat_le_0: "nat_le k 0 = zeros k"
  by (induction k) (simp_all add: nat_le_def zeros_def)

lemma null_tx_ok: "tx_ok null_tx"
  by (simp add: tx_ok_def carried_def null_tx_def)

lemma null_tx_enc: "tx_enc null_tx = zeros (SHA256_HASH_LEN + 10)"
  by (simp add: tx_enc_def null_tx_def nat_le_0) (simp add: zeros_def flip: replicate_add)

definition left_out :: "tx_content_short_ids list \<Rightarrow> tx_content_short_ids list" where
  "left_out ts = replicate (length (filter (\<lambda>t. \<not> carried t) ts)) null_tx"

lemma uncarried_room: "\<not> carried t \<Longrightarrow> SHA256_HASH_LEN + 10 \<le> tx_content_length t"
  by (simp add: tx_content_length_def)

lemma write_txs:
  assumes "list_all tx_ok (filter carried ts)" "txs_content_length ts \<le> length rest"
  shows "foldR write_tx ts (cursor_at pre rest) =
    foldR write_tx (filter carried ts) (cursor_at pre rest)"
  using assms
proof (induction ts arbitrary: pre rest)
  case (Cons t ts)
  show ?case
  proof (cases "carried t")
    case True
    with Cons.prems have t: "tx_ok t" "length (tx_enc t) \<le> length rest" by (simp_all add: length_tx_enc txs_content_length_def)
    with True Cons tx_item.write_at [OF t(1), of rest pre] show ?thesis by (simp add: txs_content_length_def length_tx_enc)
  next
    case False
    with Cons show ?thesis by (simp add: write_tx_def txs_content_length_def)
  qed
qed simp

lemma txs_content_length_split:
  assumes "list_all tx_ok (filter carried ts)"
  shows "\<exists>m. txs_content_length ts = length (concat (map tx_enc (filter carried ts @ left_out ts))) + m"
  using assms
proof (induction ts)
  case (Cons t ts)
  show ?case
  proof (cases "carried t")
    case True
    with Cons show ?thesis by (auto simp: txs_content_length_def length_tx_enc left_out_def)
  next
    case False
    with Cons obtain m where m: "txs_content_length ts = length (concat (map tx_enc (filter carried ts @ left_out ts))) + m" by auto
    from uncarried_room [OF False] obtain k where "tx_content_length t = SHA256_HASH_LEN + 10 + k" by (auto simp: le_iff_add)
    with m False show ?thesis
      by (intro exI [of _ "m + k"]) (simp add: txs_content_length_def left_out_def null_tx_enc)
  qed
qed (simp add: txs_content_length_def left_out_def)

lemma zeros_add: "zeros (m + n) = zeros m @ zeros n"
  by (simp add: zeros_def replicate_add)

lemma concat_null_txs: "concat (map tx_enc (replicate k null_tx)) = zeros (k * (SHA256_HASH_LEN + 10))"
  by (induction k) (simp_all add: null_tx_enc zeros_add zeros_def flip: replicate_add)

text \<open>What is read from the serialized state of a service, wherever it stands, are the transactions that were written, followed by one
  empty transaction with a null hash for each that was left out.\<close>

lemma txs_content_written:
  fixes ts
  defines "x \<equiv> concat (map tx_enc (filter carried ts)) @ zeros (txs_content_length ts - length (concat (map tx_enc (filter carried ts))))"
  assumes "list_all tx_ok (filter carried ts)"
  shows "serialize_txs_content_short_ids_into_bytes ts = Inr x" "length x = txs_content_length ts"
    "deserialize_txs_content_short_ids_from_buffer (pre @ x @ post) (length pre) (length ts) = Inr (filter carried ts @ left_out ts)"
proof -
  let ?e = "concat (map tx_enc (filter carried ts))" and ?all = "filter carried ts @ left_out ts"
  obtain m where m: "txs_content_length ts = length (concat (map tx_enc ?all)) + m"
    using txs_content_length_split [OF assms(2)] by blast
  have l: "length ?e \<le> txs_content_length ts" using m by simp
  have ok: "list_all tx_ok ?all" using assms(2) null_tx_ok by (auto simp: left_out_def list_all_iff)
  have "foldR write_tx ts (cursor_at [] (zeros (txs_content_length ts))) =
      Inr (cursor_at ?e (zeros (txs_content_length ts - length ?e)))"
    using write_txs [OF assms(2), of "zeros (txs_content_length ts)" "[]"] tx_item.write_list_at [OF assms(2), of "zeros (txs_content_length ts)" "[]"] l
    by simp
  then show "serialize_txs_content_short_ids_into_bytes ts = Inr x"
    by (simp add: serialize_txs_content_short_ids_into_bytes_def cursor_at_def x_def)
  show "length x = txs_content_length ts" using l by (simp add: x_def)
  have "zeros (txs_content_length ts - length ?e) = concat (map tx_enc (left_out ts)) @ zeros m"
  proof -
    obtain k where k: "concat (map tx_enc (left_out ts)) = zeros k" unfolding left_out_def concat_null_txs by blast
    with m have "txs_content_length ts - length ?e = k + m" by simp
    with k show ?thesis by (simp add: zeros_add)
  qed
  then have e: "x = concat (map tx_enc ?all) @ zeros m" by (simp add: x_def)
  have "length ?all = length ts" using sum_length_filter_compl [of carried ts] by (simp add: left_out_def)
  then have "read_n read_tx (pre @ (concat (map tx_enc ?all) @ zeros m) @ post) (length ts) (length pre) =
      Inr (?all, length pre + length (concat (map tx_enc ?all)))"
    using tx_item.read_list [OF ok, of pre "zeros m @ post"] by simp
  then show "deserialize_txs_content_short_ids_from_buffer (pre @ x @ post) (length pre) (length ts) = Inr ?all"
    unfolding e by (simp add: deserialize_txs_content_short_ids_from_buffer_def)
qed

end
