(* ===== verification/Framing.thy ===== *)
theory Framing
  imports Serializers Buffers
begin

text \<open>
  The frames of the bloXroute messages and how a connection takes them from its input buffer: the header
  (messages/abstract_internal_message.py, messages/bloxroute/abstract_bloxroute_message.py), the message factory
  (messages/abstract_message_factory.py), the validator (messages/bloxroute/bloxroute_message_validator.py) and
  \<open>process_message\<close> of connections/abstract_connection.py. The classes of the messages and the handlers of the connection are parameters.
  Logs are left out, and with them the bytes that the log shows: reading them regroups the pieces of the input buffer only.
\<close>

unbundle bit_operations_syntax

section \<open>The header of a message\<close>

definition HEADER_LENGTH :: nat where
  "HEADER_LENGTH = 20"

definition STARTING_SEQUENCE_BYTES :: bytes where
  "STARTING_SEQUENCE_BYTES = [0xFF, 0xFE, 0xFD, 0xFC]"

definition VALID :: byte where
  "VALID = 1"

definition pack_text :: "nat \<Rightarrow> bytes \<Rightarrow> cursor \<Rightarrow> cursor res" where
  \<comment> \<open>\<open>pack_into("<ks")\<close>: cut or filled with zeros to \<open>k\<close> bytes\<close>
  "pack_text k x = (\<lambda>(buf, off).
     if off + k \<le> length buf then Inr (take off buf @ take k (x @ zeros k) @ drop (off + k) buf, off + k) else Inl struct_error)"

definition unpack_text :: "nat \<Rightarrow> bytes \<Rightarrow> nat \<Rightarrow> (bytes \<times> nat) res" where
  "unpack_text k buf off = (if off + k \<le> length buf then Inr (slice buf off (off + k), off + k) else Inl struct_error)"

definition rstrip_null :: "bytes \<Rightarrow> bytes" where
  "rstrip_null x = rev (dropWhile (\<lambda>b. b = 0) (rev x))"

definition get_control_flags :: "bytes \<Rightarrow> byte" where
  "get_control_flags buf = last buf"

definition set_control_flag :: "byte \<Rightarrow> bytes \<Rightarrow> bytes" where
  "set_control_flag f buf = butlast buf @ [last buf OR f]"

definition remove_control_flag :: "byte \<Rightarrow> bytes \<Rightarrow> bytes" where
  "remove_control_flag f buf = (if last buf AND f \<noteq> 0 then butlast buf @ [last buf XOR f] else buf)"

text \<open>\<open>AbstractBloxrouteMessage.__init__\<close>: what it makes of the buffer.\<close>

definition bloxroute_message :: "bytes \<Rightarrow> int \<Rightarrow> bytes \<Rightarrow> bytes res" where
  "bloxroute_message msg_type payload_len buf =
     bindR (guardR (HEADER_LENGTH \<le> length buf) ValueError) (\<lambda>_.
     bindR (guardR (0 \<le> payload_len) ValueError) (\<lambda>_.
     bindR (pack_text 12 msg_type (buf, 4)) (\<lambda>c.
     bindR (pack_uint 4 payload_len c) (\<lambda>(buf, _).
       Inr (set_control_flag VALID (STARTING_SEQUENCE_BYTES @ drop 4 buf))))))"

definition unpack_header :: "bytes \<Rightarrow> (bytes \<times> int) res" where
  "unpack_header buf =
     bindR (unpack_text 12 buf 4) (\<lambda>(cmd, off).
     bindR (unpack_uint 4 buf off) (\<lambda>(payload_length, _). Inr (rstrip_null cmd, payload_length)))"

definition PayloadLenError :: py_error where
  "PayloadLenError = Raised ''PayloadLenError''"

definition validate_payload :: "bytes \<Rightarrow> bytes \<times> int \<Rightarrow> unit res" where
  "validate_payload buf args = guardR (snd args = int (length buf) - int HEADER_LENGTH) PayloadLenError"

section \<open>The message factory\<close>

text \<open>The preview of the next message on an input buffer: whether it is complete, its command and the length of its payload.\<close>

definition get_message_header_preview_from_input_buffer :: "(input_buffer, bool \<times> bytes option \<times> int option) eff" where
  "get_message_header_preview_from_input_buffer =
     bindE (getE in_length) (\<lambda>n.
     if n < int HEADER_LENGTH then returnE (False, None, None)
     else
       bindE (get_item None (Some (int HEADER_LENGTH))) (\<lambda>(_, header).
       bindE (liftR (unpack_header header)) (\<lambda>(cmd, payload_length).
         getE (\<lambda>b. (in_length b \<ge> payload_length + int HEADER_LENGTH, Some cmd, Some payload_length)))))"

definition ParseError :: py_error where
  "ParseError = Raised ''ParseError''"

definition UnrecognizedCommandError :: py_error where
  "UnrecognizedCommandError = Raised ''UnrecognizedCommandError''"

type_synonym 'm message_mapping = "(bytes, bytes \<Rightarrow> 'm res) dict"

definition create_message_from_buffer :: "'m message_mapping \<Rightarrow> bytes \<Rightarrow> 'm res" where
  "create_message_from_buffer mapping buf =
     bindR (guardR (HEADER_LENGTH \<le> length buf) ParseError) (\<lambda>_.
     bindR (unpack_header buf) (\<lambda>args.
     bindR (validate_payload buf args) (\<lambda>_.
     bindR (opt_res UnrecognizedCommandError (dget mapping (fst args))) (\<lambda>message_cls. message_cls buf))))"

section \<open>The validator\<close>

definition ascii :: "string \<Rightarrow> bytes" where
  "ascii s = map of_char s"

definition MessageValidationError :: py_error where
  "MessageValidationError = Raised ''MessageValidationError''"

definition ControlFlagValidationError :: py_error where
  "ControlFlagValidationError = Raised ''ControlFlagValidationError''"

record size_settings =
  max_block_size_bytes :: int
  max_tx_size_bytes :: int

definition validate_starting_sequence :: "(input_buffer, unit) eff" where
  "validate_starting_sequence =
     bindE (getE in_length) (\<lambda>n.
     if n < 4 then returnE ()
     else bindE (get_item None (Some 4)) (\<lambda>(_, x). liftR (guardR (x = STARTING_SEQUENCE_BYTES) MessageValidationError)))"

definition block_sized :: "bytes set" where
  "block_sized = set [ascii ''broadcast'', ascii ''txs'', ascii ''txblock'', ascii ''txtxs'', ascii ''txclnup'', ascii ''blkcnfrm'']"

definition DEFAULT_MAX_PAYLOAD_LEN_BYTES :: int where
  "DEFAULT_MAX_PAYLOAD_LEN_BYTES = 1024 * 1024"

definition max_payload :: "size_settings \<Rightarrow> bytes \<Rightarrow> int" where
  "max_payload settings cmd =
     (if cmd = ascii ''tx'' then max_tx_size_bytes settings
      else if cmd \<in> block_sized then max_block_size_bytes settings
      else DEFAULT_MAX_PAYLOAD_LEN_BYTES)"

definition validate_payload_length :: "size_settings \<Rightarrow> bytes option \<Rightarrow> int option \<Rightarrow> unit res" where
  "validate_payload_length settings msg_type payload_len =
     (case (msg_type, payload_len) of
        (Some cmd, Some n) \<Rightarrow> guardR (n \<le> max_payload settings cmd) MessageValidationError
      | _ \<Rightarrow> Inr ())"

definition validate_control_flags :: "bool \<Rightarrow> int \<Rightarrow> int option \<Rightarrow> (input_buffer, unit) eff" where
  "validate_control_flags is_full header_len payload_len =
     (if \<not> is_full then returnE ()
      else
        bindE (liftR (opt_res AssertionError payload_len)) (\<lambda>n.
        bindE (getE in_length) (\<lambda>len.
        thenE (liftR (guardR (header_len + n \<le> len) MessageValidationError))
       (bindE (get_item (Some (header_len + n - 1)) (Some (header_len + n))) (\<lambda>(_, x).
        liftR (case x of
            [] \<Rightarrow> Inl IndexError
          | flags # _ \<Rightarrow> guardR (VALID AND flags \<noteq> 0) ControlFlagValidationError))))))"

definition FIRST_VALIDATING_VERSION :: int where
  "FIRST_VALIDATING_VERSION = 4"

definition validate :: "size_settings option \<Rightarrow> int \<Rightarrow> bool \<Rightarrow> bytes option \<Rightarrow> int \<Rightarrow> int option \<Rightarrow> (input_buffer, unit) eff" where
  "validate settings version is_full msg_type header_len payload_len =
     thenE (whenE (FIRST_VALIDATING_VERSION \<le> version) validate_starting_sequence)
    (thenE (case settings of None \<Rightarrow> returnE () | Some st \<Rightarrow> liftR (validate_payload_length st msg_type payload_len))
       (whenE (FIRST_VALIDATING_VERSION \<le> version) (validate_control_flags is_full header_len payload_len)))"

section \<open>The connection\<close>

record 'w connection =
  inputbuf :: input_buffer
  num_bad_messages :: nat
  conn_alive :: bool
  established :: bool
  hello_messages :: "bytes list"
  header_size :: int
  conn_world :: 'w

type_synonym ('w, 'r) conn_eff = "('w connection, 'r) eff"

text \<open>What the class of the connection and its handshake have set: the messages it knows, their handlers, the validator.\<close>

record ('m, 'w) conn_class =
  message_mapping :: "'m message_mapping"
  message_handlers :: "(bytes, 'm \<Rightarrow> ('w, unit) conn_eff) dict"
  size_validation :: "size_settings option"
  protocol_version :: int

definition on_input :: "(input_buffer, 'r) eff \<Rightarrow> ('w, 'r) conn_eff" where
  "on_input m = (\<lambda>c. case m (inputbuf c) of (r, b) \<Rightarrow> (r, c\<lparr>inputbuf := b\<rparr>))"

definition mark_for_close :: "('w, unit) conn_eff" where
  "mark_for_close = modE (\<lambda>c. c\<lparr>conn_alive := False\<rparr>)"

definition add_received_bytes :: "bytes \<Rightarrow> ('w, unit) conn_eff" where
  "add_received_bytes data =
     bindE (getE conn_alive) (\<lambda>alive. thenE (liftR (guardR alive AssertionError)) (on_input (add_bytes (PyBytes, data))))"

definition pop_next_bytes :: "int \<Rightarrow> ('w, bytes) conn_eff" where
  "pop_next_bytes payload_len = on_input (remove_bytes (int HEADER_LENGTH + payload_len))"

definition pop_next_message :: "('m, 'w) conn_class \<Rightarrow> int \<Rightarrow> ('w, 'm) conn_eff" where
  "pop_next_message cls payload_len =
     bindE (pop_next_bytes payload_len) (\<lambda>x. liftR (create_message_from_buffer (message_mapping cls) x))"

definition clean_up_current_msg :: "int \<Rightarrow> bool \<Rightarrow> ('w, unit) conn_eff" where
  "clean_up_current_msg payload_len in_buffer =
     whenE in_buffer (bindE (getE header_size) (\<lambda>h. bindE (on_input (remove_bytes (h + payload_len))) (\<lambda>_. returnE ())))"

definition MAX_BAD_MESSAGES :: nat where
  "MAX_BAD_MESSAGES = 3"

definition report_bad_message :: "('w, bool) conn_eff" where
  "report_bad_message =
     bindE (getE num_bad_messages) (\<lambda>n.
     if n = MAX_BAD_MESSAGES then thenE mark_for_close (returnE True)
     else thenE (modE (\<lambda>c. c\<lparr>num_bad_messages := n + 1\<rparr>)) (returnE False))"

text \<open>How one round of the loop of \<open>process_message\<close> ends.\<close>

datatype flow = Stop | Again | Done

definition handle_message :: "('m, 'w) conn_class \<Rightarrow> bytes option \<Rightarrow> 'm \<Rightarrow> ('w, flow) conn_eff" where
  "handle_message cls msg_type msg =
     bindE (getE (\<lambda>c. \<not> established c \<and> msg_type \<notin> Some ` set (hello_messages c))) (\<lambda>unexpected.
     if unexpected then thenE mark_for_close (returnE Stop)
     else
       thenE (case Option.bind msg_type (dget (message_handlers cls)) of None \<Rightarrow> returnE () | Some h \<Rightarrow> h msg)
         (returnE Done))"

definition take_message :: "('m, 'w) conn_class \<Rightarrow> bool \<Rightarrow> bytes option \<Rightarrow> int option \<Rightarrow> ('w, flow) conn_eff" where
  "take_message cls is_full msg_type payload_len =
     bindE (getE header_size) (\<lambda>h.
     thenE (on_input (validate (size_validation cls) (protocol_version cls) is_full msg_type h payload_len))
       (if \<not> is_full then returnE Stop
        else bindE (liftR (opt_res TypeError payload_len)) (\<lambda>n. bindE (pop_next_message cls n) (handle_message cls msg_type))))"

text \<open>The exception handlers of the loop. \<open>len_before\<close> is the length of the input buffer at the start of the round.\<close>

definition recover :: "bool \<Rightarrow> int option \<Rightarrow> int \<Rightarrow> py_error \<Rightarrow> ('w, flow) conn_eff" where
  "recover is_full payload_len len_before e =
     (if e = PayloadLenError \<or> e = Raised ''NonVersionMessageError'' then thenE mark_for_close (returnE Stop)
      else if e = Raised ''MemoryError'' then raiseE e
      else if is_full \<or> e = Raised ''UnauthorizedMessageError'' then
        bindE (getE (\<lambda>c. in_length (inputbuf c) = len_before)) (\<lambda>in_buffer.
        thenE (if in_buffer then bindE (liftR (opt_res TypeError payload_len)) (\<lambda>n. clean_up_current_msg n True) else returnE ())
       (bindE report_bad_message (\<lambda>close. returnE (if close then Stop else Again))))
      else thenE mark_for_close (returnE Stop))"

definition process_step :: "('m, 'w) conn_class \<Rightarrow> ('w, flow) conn_eff" where
  "process_step cls =
     bindE (getE (\<lambda>c. (in_length (inputbuf c), conn_alive c))) (\<lambda>(len_before, alive).
     if \<not> alive then returnE Stop
     else
       bindE (tryE (bindE (on_input get_message_header_preview_from_input_buffer) (\<lambda>p. returnE (Inr p)))
                (\<lambda>e. bindE (recover False None len_before e) (\<lambda>f. returnE (Inl f)))) (\<lambda>preview.
       case preview of
         Inl f \<Rightarrow> returnE f
       | Inr (is_full, msg_type, payload_len) \<Rightarrow>
           bindE (tryE (take_message cls is_full msg_type payload_len) (recover is_full payload_len len_before)) (\<lambda>f.
             if f = Done then thenE (modE (\<lambda>c. c\<lparr>num_bad_messages := 0\<rparr>)) (returnE Again) else returnE f)))"

partial_function (option) process_message :: "('m, 'w) conn_class \<Rightarrow> 'w connection \<Rightarrow> (unit res \<times> 'w connection) option" where
  "process_message cls c =
     (case process_step cls c of
        (Inl e, c') \<Rightarrow> Some (Inl e, c')
      | (Inr f, c') \<Rightarrow> if f = Again then process_message cls c' else Some (Inr (), c'))"

text \<open>\<open>on_bytes_received\<close> of the node, for a connection of its pool.\<close>

definition on_bytes_received :: "('m, 'w) conn_class \<Rightarrow> bytes \<Rightarrow> 'w connection \<Rightarrow> (unit res \<times> 'w connection) option" where
  "on_bytes_received cls data c =
     (if \<not> conn_alive c then Some (Inr (), c)
      else (case add_received_bytes data c of
          (Inl e, c') \<Rightarrow> Some (Inl e, c')
        | (Inr _, c') \<Rightarrow> process_message cls c'))"

end
