(* ===== verification/FrameRun.thy ===== *)
theory FrameRun
  imports Framing
begin

text \<open>
  What a connection makes of a stream of frames: each complete frame is taken from the input buffer in turn, whatever
  the pieces are in which the bytes arrive, and a frame that cannot be handled is dropped unless it is the fourth in a row.
\<close>

section \<open>Frames\<close>

definition frame :: "bytes \<Rightarrow> bytes \<Rightarrow> bytes" where
  "frame cmd payload = STARTING_SEQUENCE_BYTES @ cmd @ nat_le 4 (length payload) @ payload"

definition frame_command :: "bytes \<Rightarrow> bytes" where
  "frame_command fr = rstrip_null (slice fr 4 16)"

definition frame_payload :: "bytes \<Rightarrow> bytes" where
  "frame_payload fr = drop HEADER_LENGTH fr"

text \<open>A frame that the size limits allow; it has at least the byte of the control flags behind its header.\<close>

definition frame_ok :: "size_settings option \<Rightarrow> bytes \<Rightarrow> bool" where
  "frame_ok settings fr \<longleftrightarrow> (\<exists>cmd payload. fr = frame cmd payload \<and> length cmd = 12 \<and> payload \<noteq> [] \<and> length payload < 256 ^ 4 \<and>
     (case settings of None \<Rightarrow> True | Some st \<Rightarrow> int (length payload) \<le> max_payload st (rstrip_null cmd)))"

lemma length_start [simp]: "length STARTING_SEQUENCE_BYTES = 4"
  by (simp add: STARTING_SEQUENCE_BYTES_def)

lemma frame_parts:
  assumes "length cmd = 12"
  shows "frame_command (frame cmd payload) = rstrip_null cmd" "frame_payload (frame cmd payload) = payload"
    "length (frame cmd payload) = HEADER_LENGTH + length payload" "take HEADER_LENGTH (frame cmd payload) = frame cmd payload \<longleftrightarrow> payload = []"
    "slice (frame cmd payload @ x) 4 16 = cmd" "take 4 (frame cmd payload @ x) = STARTING_SEQUENCE_BYTES"
    "slice (frame cmd payload @ x) 16 20 = nat_le 4 (length payload)"
proof -
  have s: "slice (frame cmd payload @ x) 4 16 = cmd" for x
    using slice_behind [of STARTING_SEQUENCE_BYTES cmd "nat_le 4 (length payload) @ payload @ x"] assms by (simp add: frame_def)
  show "slice (frame cmd payload @ x) 4 16 = cmd" by (rule s)
  show "frame_command (frame cmd payload) = rstrip_null cmd" using s [of "[]"] by (simp add: frame_command_def)
  show "slice (frame cmd payload @ x) 16 20 = nat_le 4 (length payload)"
    using slice_behind [of "STARTING_SEQUENCE_BYTES @ cmd" "nat_le 4 (length payload)" "payload @ x"] assms by (simp add: frame_def)
  show "frame_payload (frame cmd payload) = payload" "length (frame cmd payload) = HEADER_LENGTH + length payload"
    "take HEADER_LENGTH (frame cmd payload) = frame cmd payload \<longleftrightarrow> payload = []" "take 4 (frame cmd payload @ x) = STARTING_SEQUENCE_BYTES"
    using assms by (auto simp: frame_payload_def frame_def HEADER_LENGTH_def)
qed

text \<open>The header is read from any buffer that starts with it.\<close>

lemma unpack_header_frame:
  assumes "length cmd = 12" "length payload < 256 ^ 4"
  shows "unpack_header (frame cmd payload @ x) = Inr (rstrip_null cmd, int (length payload))"
  using assms frame_parts(5,7) [OF assms(1), of payload x] frame_parts(3) [OF assms(1), of payload]
  by (simp add: unpack_header_def unpack_text_def unpack_uint_def le_nat_nat_le HEADER_LENGTH_def)

lemma slice_take: "j \<le> n \<Longrightarrow> slice (take n xs) i j = slice xs i j"
  by (cases "i \<le> j") (simp_all add: slice_def drop_take min_def)

lemma unpack_header_take:
  assumes "length cmd = 12" "length payload < 256 ^ 4"
  shows "unpack_header (take HEADER_LENGTH (frame cmd payload @ x)) = Inr (rstrip_null cmd, int (length payload))"
proof -
  let ?h = "take HEADER_LENGTH (frame cmd payload @ x)"
  have l: "length ?h = 20" using frame_parts(3) [OF assms(1), of payload] by (simp add: HEADER_LENGTH_def)
  have "slice ?h 4 16 = cmd" "slice ?h 16 20 = nat_le 4 (length payload)"
    using frame_parts(5,7) [OF assms(1), of payload x] by (simp_all only: slice_take HEADER_LENGTH_def)
  with l show ?thesis using assms(2) by (simp add: unpack_header_def unpack_text_def unpack_uint_def le_nat_nat_le)
qed

section \<open>The input buffer\<close>

lemma get_item_run:
  assumes "in_ok b" "in_content b \<noteq> []" "0 \<le> i" "i \<le> in_length b" "0 \<le> j"
  obtains k b' where "get_item (Some i) (Some j) b = (Inr (k, slice (in_content b) (nat i) (nat j)), b')" "in_ok b'" "in_content b' = in_content b"
proof -
  have "input_list b \<noteq> []" using assms(2) by (auto simp: in_content_def)
  from get_slice_run [OF assms(1,3-5) this] obtain k b' where
    "get_slice (Some i) (Some j) b = (Inr (k, take (nat j - nat i) (drop (nat i) (in_content b))), b')" "in_ok b'" "in_content b' = in_content b"
    by metis
  with that show ?thesis by (simp add: get_item_def bindE_apply eff_apply slice_def)
qed

lemma get_item_None: "get_item None j = get_item (Some 0) j"
  by (simp add: get_item_def)

text \<open>A buffer that holds the start of a frame, the whole frame, or more. \<open>z\<close> is what is still to come.\<close>

definition holds :: "input_buffer \<Rightarrow> bytes \<Rightarrow> bytes \<Rightarrow> bool" where
  "holds b fr z \<longleftrightarrow> in_ok b \<and> (\<exists>rest. in_content b @ z = fr @ rest)"

lemma holds_take:
  assumes "holds b fr z" "n \<le> length (in_content b)"
  shows "\<exists>rest. take n (in_content b) = take n (fr @ rest)"
proof -
  from assms obtain rest where "in_content b @ z = fr @ rest" unfolding holds_def by blast
  then have "take n (in_content b @ z) = take n (fr @ rest)" by simp
  with assms(2) show ?thesis by auto
qed

definition complete :: "input_buffer \<Rightarrow> bytes \<Rightarrow> bool" where
  "complete b fr \<longleftrightarrow> length fr \<le> length (in_content b)"

lemma holds_complete:
  assumes "holds b fr z" "complete b fr"
  shows "in_content b = fr @ drop (length fr) (in_content b)"
proof -
  from assms obtain rest where r: "in_content b @ z = fr @ rest" unfolding holds_def by blast
  then have "take (length fr) (in_content b @ z) = fr" by simp
  with assms(2) have "take (length fr) (in_content b) = fr" by (simp add: complete_def)
  then show ?thesis by (metis append_take_drop_id)
qed

lemma holds_content: "holds b fr z \<Longrightarrow> in_ok b' \<Longrightarrow> in_content b' = in_content b \<Longrightarrow> holds b' fr z"
  by (simp add: holds_def)

lemma preview_run:
  assumes "holds b (frame cmd payload) z" "length cmd = 12" "length payload < 256 ^ 4"
  shows "\<exists>b'. get_message_header_preview_from_input_buffer b =
    (Inr (if length (in_content b) < HEADER_LENGTH then (False, None, None)
       else (complete b (frame cmd payload), Some (rstrip_null cmd), Some (int (length payload)))), b') \<and> in_ok b' \<and> in_content b' = in_content b"
proof (cases "length (in_content b) < HEADER_LENGTH")
  case True
  then show ?thesis using assms(1)
    by (auto simp: get_message_header_preview_from_input_buffer_def bindE_apply eff_apply holds_def in_ok_def)
next
  case False
  have ok: "in_ok b" using assms(1) by (simp add: holds_def)
  have ne: "in_content b \<noteq> []" using False by (auto simp: HEADER_LENGTH_def)
  obtain k b' where b': "get_item (Some 0) (Some (int HEADER_LENGTH)) b = (Inr (k, slice (in_content b) 0 HEADER_LENGTH), b')"
    "in_ok b'" "in_content b' = in_content b"
    using get_item_run [OF ok ne, of 0 "int HEADER_LENGTH"] ok by (auto simp: in_ok_def)
  obtain rest where "take HEADER_LENGTH (in_content b) = take HEADER_LENGTH (frame cmd payload @ rest)"
    using holds_take [OF assms(1)] False by (auto simp: not_less)
  then have "unpack_header (slice (in_content b) 0 HEADER_LENGTH) = Inr (rstrip_null cmd, int (length payload))"
    using unpack_header_take [OF assms(2,3)] by (simp add: slice_def)
  with False ok b' frame_parts(3) [OF assms(2), of payload] show ?thesis
    by (auto simp: get_message_header_preview_from_input_buffer_def get_item_None bindE_apply eff_apply in_ok_def complete_def)
qed

text \<open>What the validator says about a complete frame, or about the start of one.\<close>

definition flag_ok :: "int \<Rightarrow> bytes \<Rightarrow> bool" where
  "flag_ok version fr \<longleftrightarrow> version < FIRST_VALIDATING_VERSION \<or> VALID AND last fr \<noteq> 0"

lemma start_run:
  assumes "holds b (frame cmd payload) z" "length cmd = 12"
  shows "\<exists>b'. validate_starting_sequence b = (Inr (), b') \<and> in_ok b' \<and> in_content b' = in_content b"
proof (cases "length (in_content b) < 4")
  case True
  then show ?thesis using assms(1) by (auto simp: validate_starting_sequence_def bindE_apply eff_apply holds_def in_ok_def)
next
  case False
  have ok: "in_ok b" using assms(1) by (simp add: holds_def)
  have ne: "in_content b \<noteq> []" using False by auto
  obtain k b' where b': "get_item (Some 0) (Some 4) b = (Inr (k, slice (in_content b) 0 4), b')" "in_ok b'" "in_content b' = in_content b"
    using get_item_run [OF ok ne, of 0 4] ok by (auto simp: in_ok_def)
  obtain rest where "take 4 (in_content b) = take 4 (frame cmd payload @ rest)"
    using holds_take [OF assms(1)] False by (auto simp: not_less)
  then have "slice (in_content b) 0 4 = STARTING_SEQUENCE_BYTES" using frame_parts(6) [OF assms(2)] by (simp add: slice_def)
  with False ok b' show ?thesis
    by (auto simp: validate_starting_sequence_def get_item_None bindE_apply eff_apply in_ok_def guardR_def)
qed

lemma control_flags_run:
  assumes "holds b (frame cmd payload) z" "length cmd = 12" "payload \<noteq> []" "complete b (frame cmd payload)"
  shows "\<exists>b'. validate_control_flags True (int HEADER_LENGTH) (Some (int (length payload))) b =
    (guardR (VALID AND last (frame cmd payload) \<noteq> 0) ControlFlagValidationError, b') \<and> in_ok b' \<and> in_content b' = in_content b"
proof -
  let ?fr = "frame cmd payload" and ?n = "int HEADER_LENGTH + int (length payload)"
  have ok: "in_ok b" using assms(1) by (simp add: holds_def)
  have len: "length ?fr = HEADER_LENGTH + length payload" by (rule frame_parts(3) [OF assms(2)])
  have ne: "in_content b \<noteq> []" and le: "?n \<le> in_length b"
    using assms(4) len ok by (auto simp: complete_def in_ok_def HEADER_LENGTH_def)
  obtain k b' where b': "get_item (Some (?n - 1)) (Some ?n) b = (Inr (k, slice (in_content b) (nat (?n - 1)) (nat ?n)), b')"
    "in_ok b'" "in_content b' = in_content b"
    using get_item_run [OF ok ne, of "?n - 1" ?n] le by (auto simp: HEADER_LENGTH_def)
  have nn: "nat ?n = length ?fr" "nat (?n - 1) = length (butlast ?fr)"
    using len assms(3) by (auto simp: nat_add_distrib nat_diff_distrib)
  have "?fr \<noteq> []" using assms(3) by (simp add: frame_def)
  then have fr: "?fr = butlast ?fr @ [last ?fr]" by (rule append_butlast_last_id [symmetric])
  have "slice (in_content b) (nat (?n - 1)) (nat ?n) = [last ?fr]"
    using holds_complete [OF assms(1,4)] slice_behind [of "butlast ?fr" "[last ?fr]" "drop (length ?fr) (in_content b)"] fr nn
    by (metis append.assoc length_append)
  with b' le show ?thesis by (simp add: validate_control_flags_def bindE_apply eff_apply guardR_def)
qed

lemma validate_run:
  assumes "holds b (frame cmd payload) z" "length cmd = 12" "payload \<noteq> []"
    and "case settings of None \<Rightarrow> True | Some st \<Rightarrow> int (length payload) \<le> max_payload st (rstrip_null cmd)"
    and "full = complete b (frame cmd payload)"
    and "(t, n) = (if length (in_content b) < HEADER_LENGTH then (None, None) else (Some (rstrip_null cmd), Some (int (length payload))))"
  shows "\<exists>b'. validate settings version full t (int HEADER_LENGTH) n b =
    (if full then guardR (flag_ok version (frame cmd payload)) ControlFlagValidationError else Inr (), b') \<and>
    in_ok b' \<and> in_content b' = in_content b"
proof -
  have ok: "in_ok b" using assms(1) by (simp add: holds_def)
  obtain b1 where b1: "whenE (FIRST_VALIDATING_VERSION \<le> version) validate_starting_sequence b = (Inr (), b1)" "in_ok b1" "in_content b1 = in_content b"
    using start_run [OF assms(1,2)] ok by (cases "FIRST_VALIDATING_VERSION \<le> version") (auto simp: whenE_apply)
  have p: "(case settings of None \<Rightarrow> returnE () | Some st \<Rightarrow> liftR (validate_payload_length st t n)) b1 = (Inr (), b1)"
    using assms(4,6) by (auto simp: validate_payload_length_def eff_apply guardR_def split: option.splits if_splits)
  have h1: "holds b1 (frame cmd payload) z" "complete b1 (frame cmd payload) = full"
    using holds_content [OF assms(1) b1(2,3)] b1(3) assms(5) by (simp_all add: complete_def)
  have "full \<Longrightarrow> n = Some (int (length payload))"
    using assms(5,6) frame_parts(3) [OF assms(2), of payload] by (auto simp: complete_def split: if_splits)
  then have "\<exists>b'. whenE (FIRST_VALIDATING_VERSION \<le> version) (validate_control_flags full (int HEADER_LENGTH) n) b1 =
      (if full then guardR (flag_ok version (frame cmd payload)) ControlFlagValidationError else Inr (), b') \<and> in_ok b' \<and> in_content b' = in_content b"
    using control_flags_run [OF h1(1) assms(2,3)] h1(2) b1(2,3)
    by (cases full; cases "FIRST_VALIDATING_VERSION \<le> version")
       (auto simp: whenE_apply flag_ok_def validate_control_flags_def eff_apply guardR_def)
  with b1(1) p show ?thesis by (simp add: validate_def thenE_def bindE_apply)
qed

section \<open>One frame\<close>

text \<open>Handlers that read and write the world of the connection only, as the handlers of the services do.\<close>

definition on_conn_world :: "('w, unit) eff \<Rightarrow> ('w, unit) conn_eff" where
  "on_conn_world m = (\<lambda>c. case m (conn_world c) of (r, w) \<Rightarrow> (r, c\<lparr>conn_world := w\<rparr>))"

definition conn_class_of :: "'m message_mapping \<Rightarrow> (bytes, 'm \<Rightarrow> ('w, unit) eff) dict \<Rightarrow> size_settings option \<Rightarrow> int \<Rightarrow> ('m, 'w) conn_class" where
  "conn_class_of mapping hs settings version =
     \<lparr>message_mapping = mapping, message_handlers = map (\<lambda>(t, h). (t, \<lambda>m. on_conn_world (h m))) hs,
       size_validation = settings, protocol_version = version\<rparr>"

lemma conn_class_simps [simp]:
  "message_mapping (conn_class_of mapping hs settings version) = mapping"
  "message_handlers (conn_class_of mapping hs settings version) = map (\<lambda>(t, h). (t, \<lambda>m. on_conn_world (h m))) hs"
  "size_validation (conn_class_of mapping hs settings version) = settings"
  "protocol_version (conn_class_of mapping hs settings version) = version"
  by (simp_all add: conn_class_of_def)

text \<open>What handling a complete frame comes to: the error that ends it, or none, and the new world.\<close>

definition dispatch :: "'m message_mapping \<Rightarrow> (bytes, 'm \<Rightarrow> ('w, unit) eff) dict \<Rightarrow> int \<Rightarrow> bytes \<Rightarrow> ('w, unit) eff" where
  "dispatch mapping hs version fr =
     thenE (liftR (guardR (flag_ok version fr) ControlFlagValidationError))
    (bindE (liftR (opt_res UnrecognizedCommandError (dget mapping (frame_command fr)))) (\<lambda>message_cls.
     bindE (liftR (message_cls fr)) (\<lambda>m.
       case dget hs (frame_command fr) of None \<Rightarrow> returnE () | Some h \<Rightarrow> h m)))"

lemma dget_map_snd: "dget (map (\<lambda>(t, h). (t, f h)) d) k = map_option f (dget d k)"
  by (induction d) auto

lemma create_frame:
  assumes "length cmd = 12" "length payload < 256 ^ 4"
  shows "create_message_from_buffer mapping (frame cmd payload) =
    bindR (opt_res UnrecognizedCommandError (dget mapping (rstrip_null cmd))) (\<lambda>message_cls. message_cls (frame cmd payload))"
  using unpack_header_frame [OF assms, of "[]"] frame_parts(3) [OF assms(1), of payload]
  by (simp add: create_message_from_buffer_def validate_payload_def guardR_def)

definition fits :: "'w connection \<Rightarrow> bytes \<Rightarrow> bytes \<Rightarrow> bool" where
  "fits c fr z \<longleftrightarrow> holds (inputbuf c) fr z \<and> conn_alive c \<and> established c \<and> header_size c = int HEADER_LENGTH"

lemma step_after_preview:
  assumes "conn_alive c" "get_message_header_preview_from_input_buffer (inputbuf c) = (Inr (full, t, n), b1)"
  shows "process_step cls c =
    bindE (tryE (take_message cls full t n) (recover full n (in_length (inputbuf c)))) (\<lambda>f.
      if f = Done then thenE (modE (\<lambda>c. c\<lparr>num_bad_messages := 0\<rparr>)) (returnE Again) else returnE f) (c\<lparr>inputbuf := b1\<rparr>)"
  using assms by (simp add: process_step_def on_input_def bindE_apply tryE_apply eff_apply)

text \<open>A frame that is not complete stays where it is.\<close>

lemma step_incomplete:
  assumes "fits c fr z" "frame_ok settings fr" "\<not> complete (inputbuf c) fr"
  shows "\<exists>b. process_step (conn_class_of mapping hs settings version) c = (Inr Stop, c\<lparr>inputbuf := b\<rparr>) \<and>
    in_ok b \<and> in_content b = in_content (inputbuf c)"
proof -
  obtain cmd payload where fr: "fr = frame cmd payload" "length cmd = 12" "payload \<noteq> []" "length payload < 256 ^ 4"
    "case settings of None \<Rightarrow> True | Some st \<Rightarrow> int (length payload) \<le> max_payload st (rstrip_null cmd)"
    using assms(2) unfolding frame_ok_def by blast
  define t where "t = (if length (in_content (inputbuf c)) < HEADER_LENGTH then None else Some (rstrip_null cmd))"
  define n where "n = (if length (in_content (inputbuf c)) < HEADER_LENGTH then None else Some (int (length payload)))"
  have h: "holds (inputbuf c) (frame cmd payload) z" and c: "conn_alive c" "header_size c = int HEADER_LENGTH"
    using assms(1) by (simp_all add: fits_def fr(1))
  obtain b1 where b1: "get_message_header_preview_from_input_buffer (inputbuf c) = (Inr (False, t, n), b1)" "in_ok b1"
    "in_content b1 = in_content (inputbuf c)"
    using preview_run [OF h fr(2,4)] assms(3) by (auto simp: t_def n_def fr(1))
  have h1: "holds b1 (frame cmd payload) z" "\<not> complete b1 (frame cmd payload)"
    using holds_content [OF h b1(2,3)] assms(3) b1(3) by (simp_all add: complete_def fr(1))
  have tn: "(t, n) = (if length (in_content b1) < HEADER_LENGTH then (None, None) else (Some (rstrip_null cmd), Some (int (length payload))))"
    by (simp add: t_def n_def b1(3))
  obtain b2 where b2: "validate settings version False t (int HEADER_LENGTH) n b1 = (Inr (), b2)" "in_ok b2" "in_content b2 = in_content b1"
    using validate_run [OF h1(1) fr(2,3,5) _ tn, of False version] h1(2) by auto
  have "process_step (conn_class_of mapping hs settings version) c = (Inr Stop, c\<lparr>inputbuf := b2\<rparr>)"
    using b2(1) c unfolding step_after_preview [OF c(1) b1(1)]
    by (simp add: take_message_def on_input_def bindE_apply tryE_apply thenE_def eff_apply)
  with b1(3) b2(2,3) show ?thesis by auto
qed

text \<open>The errors that close the connection, or leave the loop with an exception.\<close>

definition closing :: "py_error \<Rightarrow> bool" where
  "closing e \<longleftrightarrow> e = PayloadLenError \<or> e = Raised ''NonVersionMessageError''"

definition MemoryError :: py_error where
  "MemoryError = Raised ''MemoryError''"

lemma take_complete:
  assumes "fits c fr z" "frame_ok settings fr" "complete (inputbuf c) fr"
  shows "\<exists>b. in_ok b \<and>
    (case dispatch mapping hs version fr (conn_world c) of (r, w) \<Rightarrow>
       take_message (conn_class_of mapping hs settings version) True (Some (frame_command fr)) (Some (int (length fr - HEADER_LENGTH))) c =
         (case r of Inl e \<Rightarrow> Inl e | Inr _ \<Rightarrow> Inr Done, c\<lparr>inputbuf := b, conn_world := w\<rparr>) \<and>
       in_content b = (if flag_ok version fr then drop (length fr) (in_content (inputbuf c)) else in_content (inputbuf c)))"
proof -
  obtain cmd payload where fr: "fr = frame cmd payload" "length cmd = 12" "payload \<noteq> []" "length payload < 256 ^ 4"
    "case settings of None \<Rightarrow> True | Some st \<Rightarrow> int (length payload) \<le> max_payload st (rstrip_null cmd)"
    using assms(2) unfolding frame_ok_def by blast
  have len: "length fr = HEADER_LENGTH + length payload" and cmd: "frame_command fr = rstrip_null cmd"
    using frame_parts(1,3) [OF fr(2), of payload] fr(1) by simp_all
  have h: "holds (inputbuf c) (frame cmd payload) z" and c: "conn_alive c" "established c" "header_size c = int HEADER_LENGTH"
    and full: "complete (inputbuf c) (frame cmd payload)"
    using assms(1,3) by (simp_all add: fits_def fr(1))
  have long: "\<not> length (in_content (inputbuf c)) < HEADER_LENGTH" using assms(3) len by (simp add: complete_def)
  obtain b1 where b1: "validate settings version True (Some (rstrip_null cmd)) (int HEADER_LENGTH) (Some (int (length payload))) (inputbuf c) =
      (guardR (flag_ok version fr) ControlFlagValidationError, b1)" "in_ok b1" "in_content b1 = in_content (inputbuf c)"
    using validate_run [OF h fr(2,3,5) full [THEN eqTrueI, symmetric], of "Some (rstrip_null cmd)" "Some (int (length payload))" version] long
    by (auto simp: fr(1))
  let ?cls = "conn_class_of mapping hs settings version"
  note run = take_message_def on_input_def bindE_apply thenE_def eff_apply dispatch_def
  show ?thesis
  proof (cases "flag_ok version fr")
    case False
    then have "take_message ?cls True (Some (frame_command fr)) (Some (int (length fr - HEADER_LENGTH))) c =
        (Inl ControlFlagValidationError, c\<lparr>inputbuf := b1\<rparr>)"
      using b1(1) c(3) cmd len by (simp add: run guardR_def)
    moreover have "dispatch mapping hs version fr (conn_world c) = (Inl ControlFlagValidationError, conn_world c)"
      using False by (simp add: run guardR_def)
    ultimately show ?thesis using b1(2,3) False by (intro exI [of _ b1]) simp
  next
    case True
    have f: "in_content b1 = fr @ drop (length fr) (in_content b1)"
      using holds_complete [OF h full] b1(3) fr(1) by simp
    have le: "int HEADER_LENGTH + int (length payload) \<le> in_length b1"
      using b1(2,3) assms(3) len by (simp add: in_ok_def complete_def)
    obtain b2 where b2: "remove_bytes (int HEADER_LENGTH + int (length payload)) b1 = (Inr (take (length fr) (in_content b1)), b2)" "in_ok b2"
      "in_content b2 = drop (length fr) (in_content b1)"
      using remove_bytes_run [OF b1(2) _ le] len by (auto simp: nat_add_distrib)
    have tk: "take (length fr) (in_content b1) = fr" by (subst f) simp
    define m where "m = bindR (opt_res UnrecognizedCommandError (dget mapping (rstrip_null cmd))) (\<lambda>message_cls. message_cls fr)"
    have mk: "create_message_from_buffer mapping fr = m" using create_frame [OF fr(2,4), of mapping] fr(1) by (simp add: m_def)
    have d: "dispatch mapping hs version fr w =
        bindE (liftR m) (\<lambda>m. case dget hs (rstrip_null cmd) of None \<Rightarrow> returnE () | Some h \<Rightarrow> h m) w" for w
      using True by (cases "dget mapping (rstrip_null cmd)") (simp_all add: run guardR_def m_def cmd)
    have pop: "pop_next_message ?cls (int (length payload)) (c\<lparr>inputbuf := b1\<rparr>) = (m, c\<lparr>inputbuf := b2\<rparr>)"
      using b2(1) mk tk len by (simp add: pop_next_message_def pop_next_bytes_def on_input_def bindE_apply eff_apply)
    have t: "take_message ?cls True (Some (frame_command fr)) (Some (int (length fr - HEADER_LENGTH))) c =
        bindE (liftR m) (handle_message ?cls (Some (rstrip_null cmd))) (c\<lparr>inputbuf := b2\<rparr>)"
      using b1(1) c(3) cmd len True pop by (cases m) (simp_all add: take_message_def on_input_def bindE_apply thenE_def eff_apply guardR_def)
    have "take_message ?cls True (Some (frame_command fr)) (Some (int (length fr - HEADER_LENGTH))) c =
        (case dispatch mapping hs version fr (conn_world c) of (r, w) \<Rightarrow>
          (case r of Inl e \<Rightarrow> Inl e | Inr _ \<Rightarrow> Inr Done, c\<lparr>inputbuf := b2, conn_world := w\<rparr>))"
    proof (cases m)
      case (Inl e)
      then show ?thesis by (simp add: t d bindE_apply eff_apply)
    next
      case (Inr m')
      then show ?thesis
        by (cases "dget hs (rstrip_null cmd)")
          (auto simp: t d bindE_apply eff_apply handle_message_def c(2) dget_map_snd thenE_def on_conn_world_def split: prod.splits sum.splits)
    qed
    with b2(2,3) b1(3) True show ?thesis by (intro exI [of _ b2]) (simp add: split_beta)
  qed
qed

text \<open>After an error that is not fatal the frame is dropped, and the connection is closed when three bad ones came before.\<close>

definition after_bad :: "'w connection \<Rightarrow> flow \<times> 'w connection" where
  "after_bad c =
     (if num_bad_messages c = MAX_BAD_MESSAGES then (Stop, c\<lparr>conn_alive := False\<rparr>)
      else (Again, c\<lparr>num_bad_messages := num_bad_messages c + 1\<rparr>))"

lemma recover_bad:
  assumes "\<not> closing e" "e \<noteq> MemoryError" "in_ok (inputbuf c)" "header_size c = int HEADER_LENGTH"
    and "HEADER_LENGTH \<le> k" "int k \<le> len_before"
    and "in_content (inputbuf c) = (if bad_flag then x else drop k x)" "len_before = int (length x)"
  shows "\<exists>b. recover True (Some (int (k - HEADER_LENGTH))) len_before e c =
      (Inr (fst (after_bad (c\<lparr>inputbuf := b\<rparr>))), snd (after_bad (c\<lparr>inputbuf := b\<rparr>))) \<and> in_ok b \<and> in_content b = drop k x"
proof -
  note run = recover_def clean_up_current_msg_def report_bad_message_def after_bad_def mark_for_close_def on_input_def
    bindE_apply thenE_def eff_apply whenE_apply
  have e: "e \<noteq> PayloadLenError" "e \<noteq> Raised ''NonVersionMessageError''" "e \<noteq> Raised ''MemoryError''"
    using assms(1,2) by (auto simp: closing_def MemoryError_def)
  have k: "0 < k" using assms(5) by (simp add: HEADER_LENGTH_def)
  show ?thesis
  proof (cases bad_flag)
    case True
    then have same: "in_length (inputbuf c) = len_before" using assms(3,7,8) by (simp add: in_ok_def)
    obtain b where b: "remove_bytes (int k) (inputbuf c) = (Inr (take k (in_content (inputbuf c))), b)" "in_ok b"
      "in_content b = drop k (in_content (inputbuf c))"
      using remove_bytes_run [OF assms(3), of "int k"] assms(6) same by auto
    have n: "int HEADER_LENGTH + int (k - HEADER_LENGTH) = int k" using assms(5) by simp
    have "recover True (Some (int (k - HEADER_LENGTH))) len_before e c =
        (Inr (fst (after_bad (c\<lparr>inputbuf := b\<rparr>))), snd (after_bad (c\<lparr>inputbuf := b\<rparr>)))"
      using e same b(1) assms(4) n by (simp add: run)
    with b(2,3) assms(7) True show ?thesis by auto
  next
    case False
    then have "in_length (inputbuf c) \<noteq> len_before" using assms(3,6-8) k by (simp add: in_ok_def)
    then have "recover True (Some (int (k - HEADER_LENGTH))) len_before e c =
        (Inr (fst (after_bad (c\<lparr>inputbuf := inputbuf c\<rparr>))), snd (after_bad (c\<lparr>inputbuf := inputbuf c\<rparr>)))"
      using e by (simp add: run)
    with assms(3,7) False show ?thesis by (intro exI [of _ "inputbuf c"]) simp
  qed
qed

text \<open>The round for a complete frame: it is taken from the buffer, and the connection goes on unless it is closed.\<close>

definition after_frame :: "unit res \<Rightarrow> 'w connection \<Rightarrow> flow \<times> 'w connection" where
  "after_frame r c =
     (case r of
        Inr _ \<Rightarrow> (Again, c\<lparr>num_bad_messages := 0\<rparr>)
      | Inl e \<Rightarrow> if closing e then (Stop, c\<lparr>conn_alive := False\<rparr>) else after_bad c)"

lemma step_complete:
  assumes "fits c fr z" "frame_ok settings fr" "complete (inputbuf c) fr"
    and "dispatch mapping hs version fr (conn_world c) = (r, w)" "r \<noteq> Inl MemoryError"
  shows "\<exists>b. process_step (conn_class_of mapping hs settings version) c =
      (Inr (fst (after_frame r (c\<lparr>inputbuf := b, conn_world := w\<rparr>))), snd (after_frame r (c\<lparr>inputbuf := b, conn_world := w\<rparr>))) \<and>
      in_ok b \<and> (conn_alive (snd (after_frame r (c\<lparr>inputbuf := b, conn_world := w\<rparr>))) \<longrightarrow> in_content b = drop (length fr) (in_content (inputbuf c)))"
proof -
  let ?cls = "conn_class_of mapping hs settings version" and ?x = "in_content (inputbuf c)"
  obtain cmd payload where fr: "fr = frame cmd payload" "length cmd = 12" "length payload < 256 ^ 4"
    using assms(2) unfolding frame_ok_def by blast
  have len: "length fr = HEADER_LENGTH + length payload" and cmd: "frame_command fr = rstrip_null cmd"
    using frame_parts(1,3) [OF fr(2), of payload] fr(1) by simp_all
  have h: "holds (inputbuf c) (frame cmd payload) z" and alive: "conn_alive c" using assms(1) by (simp_all add: fits_def fr(1))
  have long: "\<not> length ?x < HEADER_LENGTH" using assms(3) len by (simp add: complete_def)
  obtain b1 where b1: "get_message_header_preview_from_input_buffer (inputbuf c) =
      (Inr (True, Some (frame_command fr), Some (int (length fr - HEADER_LENGTH))), b1)" "in_ok b1" "in_content b1 = ?x"
    using preview_run [OF h fr(2,3)] assms(3) long cmd len by (auto simp: fr(1))
  let ?c1 = "c\<lparr>inputbuf := b1\<rparr>"
  have f1: "fits ?c1 fr z" "complete (inputbuf ?c1) fr"
    using assms(1,3) holds_content [OF h b1(2,3)] b1(3) by (simp_all add: fits_def complete_def fr(1))
  obtain b2 where b2: "in_ok b2"
    "take_message ?cls True (Some (frame_command fr)) (Some (int (length fr - HEADER_LENGTH))) ?c1 =
       (case r of Inl e \<Rightarrow> Inl e | Inr _ \<Rightarrow> Inr Done, c\<lparr>inputbuf := b2, conn_world := w\<rparr>)"
    "in_content b2 = (if \<not> flag_ok version fr then ?x else drop (length fr) ?x)"
    using take_complete [OF f1(1) assms(2) f1(2), of mapping hs version] assms(4) b1(3) by auto
  note step = step_after_preview [OF alive b1(1), of ?cls]
  show ?thesis
  proof (cases r)
    case (Inr u)
    then have "flag_ok version fr" using assms(4) by (auto simp: dispatch_def thenE_def bindE_apply eff_apply guardR_def split: if_splits)
    with Inr b2 show ?thesis
      by (intro exI [of _ b2]) (simp add: step bindE_apply tryE_apply thenE_def eff_apply after_frame_def)
  next
    case (Inl e)
    show ?thesis
    proof (cases "closing e")
      case True
      with Inl b2(1,2) show ?thesis
        by (intro exI [of _ b2])
          (auto simp: step bindE_apply tryE_apply thenE_def eff_apply after_frame_def recover_def closing_def mark_for_close_def)
    next
      case False
      have e: "e \<noteq> MemoryError" using assms(5) Inl by simp
      have l: "in_length (inputbuf c) = int (length ?x)" using h by (simp add: holds_def in_ok_def)
      obtain b where b: "recover True (Some (int (length fr - HEADER_LENGTH))) (in_length (inputbuf c)) e (c\<lparr>inputbuf := b2, conn_world := w\<rparr>) =
          (Inr (fst (after_bad (c\<lparr>inputbuf := b2, conn_world := w, inputbuf := b\<rparr>))), snd (after_bad (c\<lparr>inputbuf := b2, conn_world := w, inputbuf := b\<rparr>)))"
        "in_ok b" "in_content b = drop (length fr) ?x"
        using recover_bad [OF False e, of "c\<lparr>inputbuf := b2, conn_world := w\<rparr>" "length fr" "in_length (inputbuf c)" "\<not> flag_ok version fr" ?x]
          assms(1,3) b2(1,3) len l by (auto simp: fits_def complete_def)
      have o: "c\<lparr>inputbuf := b2, conn_world := w, inputbuf := b\<rparr> = c\<lparr>inputbuf := b, conn_world := w\<rparr>" by simp
      have "fst (after_bad (c\<lparr>inputbuf := b, conn_world := w\<rparr>)) \<noteq> Done" by (simp add: after_bad_def)
      with False Inl b [unfolded o] b2(2) show ?thesis
        by (intro exI [of _ b]) (simp add: step bindE_apply tryE_apply thenE_def eff_apply after_frame_def)
    qed
  qed
qed

section \<open>A stream of frames\<close>

text \<open>What the frames come to when each is handled in turn: whether the connection is still alive, the bad messages in a row, the world.\<close>

fun consume :: "'m message_mapping \<Rightarrow> (bytes, 'm \<Rightarrow> ('w, unit) eff) dict \<Rightarrow> int \<Rightarrow> bytes list \<Rightarrow> nat \<Rightarrow> 'w \<Rightarrow> bool \<times> nat \<times> 'w" where
  "consume mapping hs version [] n w = (True, n, w)"
| "consume mapping hs version (fr # frs) n w =
     (case dispatch mapping hs version fr w of
        (Inr _, w') \<Rightarrow> consume mapping hs version frs 0 w'
      | (Inl e, w') \<Rightarrow> if closing e \<or> n = MAX_BAD_MESSAGES then (False, n, w') else consume mapping hs version frs (n + 1) w')"

lemma consume_append:
  "consume mapping hs version (frs @ frs') n w =
    (case consume mapping hs version frs n w of (alive, n', w') \<Rightarrow> if alive then consume mapping hs version frs' n' w' else (False, n', w'))"
  by (induction frs arbitrary: n w) (auto split: prod.splits sum.splits)

text \<open>The bytes of no frame, or of a frame of which something is still to come.\<close>

definition incomplete :: "size_settings option \<Rightarrow> bytes \<Rightarrow> bool" where
  "incomplete settings part \<longleftrightarrow> part = [] \<or> (\<exists>fr z. frame_ok settings fr \<and> part @ z = fr \<and> z \<noteq> [])"

definition open_conn :: "'w connection \<Rightarrow> bytes \<Rightarrow> bool" where
  "open_conn c x \<longleftrightarrow> in_ok (inputbuf c) \<and> in_content (inputbuf c) = x \<and> conn_alive c \<and> established c \<and> header_size c = int HEADER_LENGTH"

definition outcome :: "'w connection \<Rightarrow> bool \<times> nat \<times> 'w" where
  "outcome c = (conn_alive c, num_bad_messages c, conn_world c)"

lemma step_rest:
  assumes "open_conn c part" "incomplete settings part"
  shows "\<exists>b. process_step (conn_class_of mapping hs settings version) c = (Inr Stop, c\<lparr>inputbuf := b\<rparr>) \<and> in_ok b \<and> in_content b = part"
proof (cases "part = []")
  case True
  with assms(1) have n: "in_length (inputbuf c) = 0" "conn_alive c" by (simp_all add: open_conn_def in_ok_def)
  then have p: "get_message_header_preview_from_input_buffer (inputbuf c) = (Inr (False, None, None), inputbuf c)"
    by (simp add: get_message_header_preview_from_input_buffer_def bindE_apply eff_apply HEADER_LENGTH_def)
  have "validate settings version False None h None (inputbuf c) = (Inr (), inputbuf c)" for h
    using n by (simp add: validate_def validate_starting_sequence_def validate_control_flags_def validate_payload_length_def
        thenE_def bindE_apply whenE_apply eff_apply split: option.splits)
  then have "process_step (conn_class_of mapping hs settings version) c = (Inr Stop, c\<lparr>inputbuf := inputbuf c\<rparr>)"
    unfolding step_after_preview [OF n(2) p]
    by (simp add: take_message_def on_input_def bindE_apply tryE_apply thenE_def eff_apply)
  then show ?thesis using assms(1) by (intro exI [of _ "inputbuf c"]) (simp add: open_conn_def)
next
  case False
  with assms(2) obtain fr z where fr: "frame_ok settings fr" "part @ z = fr" "z \<noteq> []" by (auto simp: incomplete_def)
  have "fits c fr z" using assms(1) fr(2) by (auto simp: fits_def holds_def open_conn_def)
  moreover have "\<not> complete (inputbuf c) fr" using assms(1) fr(2,3) by (auto simp: complete_def open_conn_def)
  ultimately show ?thesis using step_incomplete [OF _ fr(1)] assms(1) by (auto simp: open_conn_def)
qed

lemma process_frames:
  assumes "open_conn c (concat frs @ part)" "list_all (frame_ok settings) frs" "incomplete settings part"
    and "\<forall>fr \<in> set frs. \<forall>w. fst (dispatch mapping hs version fr w) \<noteq> Inl MemoryError"
  shows "\<exists>c'. process_message (conn_class_of mapping hs settings version) c = Some (Inr (), c') \<and>
    outcome c' = consume mapping hs version frs (num_bad_messages c) (conn_world c) \<and> (conn_alive c' \<longrightarrow> open_conn c' part)"
  using assms(1,2,4)
proof (induction frs arbitrary: c)
  case Nil
  then obtain b where "process_step (conn_class_of mapping hs settings version) c = (Inr Stop, c\<lparr>inputbuf := b\<rparr>)" "in_ok b" "in_content b = part"
    using step_rest [of c part settings mapping hs version] assms(3) by auto
  with Nil show ?case by (subst process_message.simps) (simp add: outcome_def open_conn_def)
next
  case (Cons fr frs)
  let ?cls = "conn_class_of mapping hs settings version"
  obtain r w where d: "dispatch mapping hs version fr (conn_world c) = (r, w)" by fastforce
  have r: "r \<noteq> Inl MemoryError" using Cons.prems(3) d by (metis fst_conv list.set_intros(1))
  have f: "fits c fr []" "complete (inputbuf c) fr"
    using Cons.prems(1) by (auto simp: fits_def holds_def complete_def open_conn_def)
  let ?after = "\<lambda>b. after_frame r (c\<lparr>inputbuf := b, conn_world := w\<rparr>)"
  obtain b where b: "process_step ?cls c = (Inr (fst (?after b)), snd (?after b))" "in_ok b"
    "conn_alive (snd (?after b)) \<longrightarrow> in_content b = drop (length fr) (in_content (inputbuf c))"
    using step_complete [OF f(1) _ f(2) d r, of settings] Cons.prems(2) by auto
  show ?case
  proof (cases "fst (?after b) = Again")
    case True
    define c1 where "c1 = snd (?after b)"
    have c1: "conn_alive c1" "conn_world c1 = w" "inputbuf c1 = b" "established c1" "header_size c1 = int HEADER_LENGTH"
      "num_bad_messages c1 = (case r of Inr _ \<Rightarrow> 0 | Inl _ \<Rightarrow> num_bad_messages c + 1)"
      "\<And>e. r = Inl e \<Longrightarrow> \<not> closing e \<and> num_bad_messages c \<noteq> MAX_BAD_MESSAGES"
      using True Cons.prems(1) by (auto simp: c1_def after_frame_def after_bad_def open_conn_def split: sum.splits if_splits)
    have "open_conn c1 (concat frs @ part)" using c1 b(2,3) Cons.prems(1) by (simp add: open_conn_def c1_def [symmetric])
    from Cons.IH [OF this] Cons.prems(2,3) obtain c' where c': "process_message ?cls c1 = Some (Inr (), c')"
      "outcome c' = consume mapping hs version frs (num_bad_messages c1) (conn_world c1)" "conn_alive c' \<longrightarrow> open_conn c' part"
      by auto
    have "process_message ?cls c = process_message ?cls c1"
      using b(1) True by (subst process_message.simps) (simp add: c1_def)
    moreover have "consume mapping hs version (fr # frs) (num_bad_messages c) (conn_world c) = consume mapping hs version frs (num_bad_messages c1) w"
      using c1(6,7) by (cases r) (simp_all add: d)
    ultimately show ?thesis using c' c1(2) by simp
  next
    case False
    then have "\<exists>e. r = Inl e \<and> (closing e \<or> num_bad_messages c = MAX_BAD_MESSAGES) \<and> ?after b = (Stop, c\<lparr>inputbuf := b, conn_world := w, conn_alive := False\<rparr>)"
      by (auto simp: after_frame_def after_bad_def split: sum.splits if_splits)
    with b(1) d show ?thesis by (subst process_message.simps) (auto simp: outcome_def)
  qed
qed

text \<open>Any prefix of a stream is a number of complete frames and the start of the next one.\<close>

lemma split_stream:
  assumes "x @ y = concat frs @ tail" "list_all (frame_ok settings) frs" "incomplete settings tail"
  shows "\<exists>done todo part. frs = done @ todo \<and> x = concat done @ part \<and> incomplete settings part \<and> part @ y = concat todo @ tail"
  using assms(1,2)
proof (induction frs arbitrary: x)
  case Nil
  have "incomplete settings x"
  proof (cases "tail = []")
    case False
    with assms(3) obtain fr z where "frame_ok settings fr" "tail @ z = fr" "z \<noteq> []" by (auto simp: incomplete_def)
    moreover from this Nil have "x @ (y @ z) = fr" "y @ z \<noteq> []" by auto
    ultimately show ?thesis unfolding incomplete_def by blast
  qed (use Nil in \<open>simp add: incomplete_def\<close>)
  with Nil show ?case by (intro exI [of _ "[]"] exI [of _ x]) auto
next
  case (Cons fr frs)
  show ?case
  proof (cases "length x < length fr")
    case True
    have x: "x = take (length x) fr" using Cons.prems(1) True by (metis append_eq_append_conv_if concat.simps(2) append.assoc append_eq_conv_conj less_imp_le_nat not_le)
    then have "x @ drop (length x) fr = fr" "drop (length x) fr \<noteq> []" using True by (metis append_take_drop_id, simp)
    moreover have "frame_ok settings fr" using Cons.prems(2) by simp
    ultimately have "incomplete settings x" unfolding incomplete_def by blast
    with Cons.prems(1) show ?thesis by (intro exI [of _ "[]"] exI [of _ "fr # frs"] exI [of _ x]) auto
  next
    case False
    then have "take (length fr) (x @ y) = take (length fr) x" by simp
    moreover have "take (length fr) (x @ y) = fr" using Cons.prems(1) by simp
    ultimately obtain x' where x': "x = fr @ x'" by (metis append_take_drop_id)
    then have x2: "x' @ y = concat frs @ tail" using Cons.prems(1) by simp
    from Cons.IH [OF x2] Cons.prems(2) obtain dn td part where "frs = dn @ td" "x' = concat dn @ part" "incomplete settings part"
      "part @ y = concat td @ tail" by auto
    with x' show ?thesis by (intro exI [of _ "fr # dn"] exI [of _ td] exI [of _ part]) auto
  qed
qed

section \<open>Arrival in pieces\<close>

fun feed :: "('m, 'w) conn_class \<Rightarrow> bytes list \<Rightarrow> 'w connection \<Rightarrow> (unit res \<times> 'w connection) option" where
  "feed cls [] c = Some (Inr (), c)"
| "feed cls (d # ds) c =
     (case on_bytes_received cls d c of
        Some (Inr _, c') \<Rightarrow> feed cls ds c'
      | r \<Rightarrow> r)"

lemma feed_closed: "\<not> conn_alive c \<Longrightarrow> feed cls ds c = Some (Inr (), c)"
  by (induction ds) (simp_all add: on_bytes_received_def)

lemma add_received_run:
  assumes "open_conn c x"
  shows "\<exists>c'. add_received_bytes d c = (Inr (), c') \<and> open_conn c' (x @ d) \<and> num_bad_messages c' = num_bad_messages c \<and> conn_world c' = conn_world c"
proof -
  obtain b where b: "add_bytes (PyBytes, d) (inputbuf c) = (Inr (), b)" by (simp add: add_bytes_def eff_apply)
  then show ?thesis using assms add_bytes_run [of "inputbuf c" "(PyBytes, d)" "Inr ()" b]
    by (intro exI [of _ "c\<lparr>inputbuf := b\<rparr>"])
       (simp add: add_received_bytes_def open_conn_def on_input_def bindE_apply thenE_def eff_apply guardR_def)
qed

lemma feed_run:
  assumes "open_conn c part" "part @ concat ds = concat frs @ tail" "list_all (frame_ok settings) frs" "incomplete settings tail"
    and "incomplete settings part" "\<forall>fr \<in> set frs. \<forall>w. fst (dispatch mapping hs version fr w) \<noteq> Inl MemoryError"
    and "ds = [] \<longrightarrow> frs = []"
  shows "\<exists>c'. feed (conn_class_of mapping hs settings version) ds c = Some (Inr (), c') \<and>
    outcome c' = consume mapping hs version frs (num_bad_messages c) (conn_world c) \<and> (conn_alive c' \<longrightarrow> open_conn c' tail)"
  using assms(1,2,3,5-7)
proof (induction ds arbitrary: c part frs)
  case Nil
  then show ?case by (auto simp: outcome_def open_conn_def)
next
  case (Cons d ds)
  let ?cls = "conn_class_of mapping hs settings version"
  obtain c1 where c1: "add_received_bytes d c = (Inr (), c1)" "open_conn c1 (part @ d)"
    "num_bad_messages c1 = num_bad_messages c" "conn_world c1 = conn_world c"
    using add_received_run [OF Cons.prems(1)] by blast
  obtain dn td part' where s: "frs = dn @ td" "part @ d = concat dn @ part'" "incomplete settings part'"
    "part' @ concat ds = concat td @ tail" "ds = [] \<longrightarrow> td = []"
  proof (cases "ds = []")
    case True
    with Cons.prems(2) assms(4) that [of frs "[]" tail] show ?thesis by simp
  next
    case False
    with split_stream [of "part @ d" "concat ds" frs tail settings] Cons.prems(2,3) assms(4) that show ?thesis by auto
  qed
  have ok: "list_all (frame_ok settings) dn" "list_all (frame_ok settings) td"
    "\<forall>fr \<in> set dn. \<forall>w. fst (dispatch mapping hs version fr w) \<noteq> Inl MemoryError"
    "\<forall>fr \<in> set td. \<forall>w. fst (dispatch mapping hs version fr w) \<noteq> Inl MemoryError"
    using Cons.prems(3,5) s(1) by auto
  obtain c2 where c2: "process_message ?cls c1 = Some (Inr (), c2)"
    "outcome c2 = consume mapping hs version dn (num_bad_messages c) (conn_world c)" "conn_alive c2 \<longrightarrow> open_conn c2 part'"
    using process_frames [OF c1(2) [unfolded s(2)] ok(1) s(3) ok(3)] c1(3,4) by auto
  have r: "on_bytes_received ?cls d c = Some (Inr (), c2)"
    using c1(1) c2(1) Cons.prems(1) by (simp add: on_bytes_received_def open_conn_def)
  show ?case
  proof (cases "conn_alive c2")
    case True
    with c2(3) have o: "open_conn c2 part'" by simp
    from Cons.IH [OF o s(4) ok(2) s(3) ok(4) s(5)] r c2(2) True show ?thesis
      by (auto simp: s(1) consume_append outcome_def split: prod.splits)
  next
    case False
    with r c2(2) feed_closed [OF False, of ?cls ds] show ?thesis
      by (auto simp: s(1) consume_append outcome_def split: prod.splits)
  qed
qed

text \<open>(C18) However a stream of frames is cut into pieces, feeding the pieces to a connection comes to the same: the frames are handled one
  after the other, each handler seeing the world that the one before left, a frame that cannot be handled is dropped and the fourth in a
  row closes the connection; of an open connection exactly the start of the frame that is not complete yet stays in the input buffer.\<close>

theorem frames_in_any_pieces:
  assumes "open_conn c []" "list_all (frame_ok settings) frs" "incomplete settings tail" "concat ds = concat frs @ tail"
    and "\<forall>fr \<in> set frs. \<forall>w. fst (dispatch mapping hs version fr w) \<noteq> Inl MemoryError"
  shows "\<exists>c'. feed (conn_class_of mapping hs settings version) ds c = Some (Inr (), c') \<and>
    outcome c' = consume mapping hs version frs (num_bad_messages c) (conn_world c) \<and>
    (conn_alive c' \<longrightarrow> in_content (inputbuf c') = tail)"
proof -
  have "ds = [] \<longrightarrow> frs = []" using assms(2,4) by (cases frs) (auto simp: frame_ok_def frame_def STARTING_SEQUENCE_BYTES_def)
  from feed_run [OF assms(1) _ assms(2,3) _ assms(5) this] assms(4) show ?thesis by (auto simp: incomplete_def open_conn_def)
qed

end
