(* ===== verification/Messages.thy ===== *)
theory Messages
  imports FrameRun
begin

text \<open>
  The messages of bxcommon/messages/bloxroute that ask for transactions, answer such a request and synchronise two nodes. A message is its buffer:
  a constructor builds it from the fields, the accessors read the fields of any buffer. What an accessor caches in the message is left out.
\<close>

section \<open>Messages and frames\<close>

text \<open>Most constructors fill a buffer of zeros behind the header with fields of \<open>n\<close> bytes, leave a byte for the control flags, and
  then write the header.\<close>

definition new_message :: "bytes \<Rightarrow> nat \<Rightarrow> (cursor \<Rightarrow> cursor res) \<Rightarrow> bytes res" where
  "new_message msg_type n fill =
     bindR (fill (zeros (HEADER_LENGTH + n + 1), HEADER_LENGTH)) (\<lambda>(buf, _).
       bloxroute_message msg_type (int (length buf) - int HEADER_LENGTH) buf)"

definition pad12 :: "bytes \<Rightarrow> bytes" where
  "pad12 t = take 12 (t @ zeros 12)"

lemma length_pad12 [simp]: "length (pad12 t) = 12"
  by (simp add: pad12_def)

lemma bloxroute_message_run:
  assumes "length h = HEADER_LENGTH" "length e + 1 = n" "n < 256 ^ 4"
  shows "bloxroute_message t (int n) (h @ e @ [b]) = Inr (frame (pad12 t) (e @ [b OR VALID]))"
proof -
  let ?h1 = "take 4 h @ pad12 t @ drop 16 h"
  have l: "length h = 20" using assms(1) by (simp add: HEADER_LENGTH_def)
  have p: "pack_text 12 t (h @ e @ [b], 4) = Inr (?h1 @ e @ [b], 16)"
    using l by (simp add: pack_text_def pad12_def)
  have "int n < 256 ^ 4" using assms(3) by (metis of_nat_less_iff of_nat_numeral of_nat_power)
  then have u: "pack_uint 4 (int n) (?h1 @ e @ [b], 16) = Inr (take 4 h @ pad12 t @ nat_le 4 n @ e @ [b], 20)"
    using l by (simp add: pack_uint_def)
  have "length (e @ [b OR VALID]) = n" using assms(2) by simp
  then have "frame (pad12 t) (e @ [b OR VALID]) = STARTING_SEQUENCE_BYTES @ pad12 t @ nat_le 4 n @ e @ [b OR VALID]" by (simp only: frame_def)
  moreover have "drop 4 (take 4 h @ pad12 t @ nat_le 4 n @ e @ [b]) = pad12 t @ nat_le 4 n @ e @ [b]" using l by simp
  ultimately show ?thesis using l p u
    by (simp add: bloxroute_message_def guardR_def HEADER_LENGTH_def set_control_flag_def butlast_append)
qed

context field_codec
begin

lemma new_message_run:
  assumes "ok x" "length (enc x) = n" "n + 1 < 256 ^ 4"
  shows "new_message t n (wr x) = Inr (frame (pad12 t) (enc x @ [VALID]))"
proof -
  have "wr x (zeros HEADER_LENGTH @ zeros (n + 1), length (zeros HEADER_LENGTH)) =
      Inr (zeros HEADER_LENGTH @ enc x @ zeros 1, HEADER_LENGTH + n)"
    using write_enc [OF assms(1), of "zeros (n + 1)" "zeros HEADER_LENGTH"] assms(2) by simp
  moreover have "zeros (HEADER_LENGTH + n + 1) = zeros HEADER_LENGTH @ zeros (n + 1)" by (simp only: zeros_add add.assoc)
  moreover have "bloxroute_message t (int (n + 1)) (zeros HEADER_LENGTH @ enc x @ [0]) = Inr (frame (pad12 t) (enc x @ [VALID]))"
    using bloxroute_message_run [of "zeros HEADER_LENGTH" "enc x" "n + 1" t 0] assms by (simp add: VALID_def)
  ultimately show ?thesis using assms(2) by (simp add: new_message_def zeros_def)
qed

lemma read_message:
  assumes "ok x" "length cmd = 12"
  shows "rd (frame cmd (enc x @ post)) HEADER_LENGTH = Inr (x, HEADER_LENGTH + length (enc x))"
proof -
  have "frame cmd (enc x @ post) = (STARTING_SEQUENCE_BYTES @ cmd @ nat_le 4 (length (enc x @ post))) @ enc x @ post" by (simp add: frame_def)
  moreover have "length (STARTING_SEQUENCE_BYTES @ cmd @ nat_le 4 (length (enc x @ post))) = HEADER_LENGTH"
    using assms(2) by (simp add: HEADER_LENGTH_def)
  ultimately show ?thesis using read_enc [OF assms(1), of _ post] by metis
qed

end

text \<open>A message built from received bytes writes the header again and sets the flag.\<close>

definition message_from_buffer :: "bytes \<Rightarrow> bytes \<Rightarrow> bytes res" where
  "message_from_buffer msg_type buf = bloxroute_message msg_type (int (length buf) - int HEADER_LENGTH) buf"

lemma message_from_frame:
  assumes "length cmd = 12" "length e + 1 < 256 ^ 4"
  shows "message_from_buffer t (frame cmd (e @ [b])) = Inr (frame (pad12 t) (e @ [b OR VALID]))"
proof -
  let ?h = "STARTING_SEQUENCE_BYTES @ cmd @ nat_le 4 (length (e @ [b]))"
  have f: "frame cmd (e @ [b]) = ?h @ e @ [b]" by (simp add: frame_def)
  have l: "length ?h = HEADER_LENGTH" using assms(1) by (simp add: HEADER_LENGTH_def)
  have "int (length (?h @ e @ [b])) - int HEADER_LENGTH = int (length e + 1)" using l by simp
  then show ?thesis using bloxroute_message_run [OF l refl assms(2), of t b] by (simp only: message_from_buffer_def f)
qed

definition rawbytes :: "bytes \<Rightarrow> bytes res" where
  "rawbytes buf = bindR (unpack_uint 4 buf 16) (\<lambda>(n, _). Inr (take (nat n + HEADER_LENGTH) buf))"

lemma rawbytes_frame:
  assumes "length cmd = 12" "length payload < 256 ^ 4"
  shows "rawbytes (frame cmd payload) = Inr (frame cmd payload)"
  using assms frame_parts(7) [OF assms(1), of payload "[]"] frame_parts(3) [OF assms(1), of payload]
  by (simp add: rawbytes_def unpack_uint_def le_nat_nat_le HEADER_LENGTH_def)

text \<open>Frames that a constructor builds are accepted.\<close>

lemma new_frame_ok:
  assumes "length cmd = 12" "length e + 1 < 256 ^ 4"
  shows "frame_ok None (frame cmd (e @ [VALID]))" "flag_ok version (frame cmd (e @ [VALID]))"
proof -
  show "frame_ok None (frame cmd (e @ [VALID]))"
    unfolding frame_ok_def using assms by (intro exI [of _ cmd] exI [of _ "e @ [VALID]"]) simp
  have "last (frame cmd (e @ [VALID])) = VALID" by (simp add: frame_def)
  then show "flag_ok version (frame cmd (e @ [VALID]))" by (simp add: flag_ok_def VALID_def)
qed

section \<open>Asking for transactions\<close>

definition GetTxsMessage :: "int list \<Rightarrow> bytes res" where
  "GetTxsMessage sids = new_message (ascii ''gettxs'') (short_ids_length (length sids)) (serialize_short_ids_to_buffer sids)"

definition get_short_ids :: "bytes \<Rightarrow> int list res" where
  "get_short_ids buf = bindR (deserialize_short_ids_from_buffer buf HEADER_LENGTH) (\<lambda>(sids, _). Inr sids)"

definition get_serialized_short_ids :: "bytes \<Rightarrow> bytes res" where
  "get_serialized_short_ids buf = bindR (rawbytes buf) (\<lambda>x. Inr (slice x HEADER_LENGTH (length x - 1)))"

definition TxsMessage :: "tx_info list \<Rightarrow> bytes res" where
  "TxsMessage txs = bindR (transactions_info_length txs) (\<lambda>n. new_message (ascii ''txs'') n (serialize_transactions_info_to_buffer txs))"

definition get_txs :: "bytes \<Rightarrow> tx_info list res" where
  "get_txs buf = bindR (deserialize_transactions_info_from_buffer buf HEADER_LENGTH) (\<lambda>(txs, _). Inr txs)"

text \<open>The same for the transactions of a block.\<close>

definition compressed_wr :: "int \<times> bytes \<times> tx_info list \<Rightarrow> cursor \<Rightarrow> cursor res" where
  "compressed_wr = pair_wr (pack_uint 4) (pair_wr (put_slice SHA256_HASH_LEN) serialize_transactions_info_to_buffer)"

definition compressed_rd :: "bytes \<Rightarrow> nat \<Rightarrow> ((int \<times> bytes \<times> tx_info list) \<times> nat) res" where
  "compressed_rd = pair_rd (unpack_uint 4) (pair_rd read_hash deserialize_transactions_info_from_buffer)"

definition txs_info_offset :: nat where
  "txs_info_offset = HEADER_LENGTH + 4 + SHA256_HASH_LEN"

definition CompressedBlockTxsMessage :: "int \<Rightarrow> bytes \<Rightarrow> tx_info list \<Rightarrow> bytes res" where
  "CompressedBlockTxsMessage network_num block_hash txs =
     bindR (transactions_info_length txs) (\<lambda>n.
       new_message (ascii ''blocktxs'') (4 + (SHA256_HASH_LEN + n)) (compressed_wr (network_num, block_hash, txs)))"

definition compressed_fields :: "bytes \<Rightarrow> (int \<times> bytes \<times> tx_info list) res" where
  "compressed_fields buf = bindR (compressed_rd buf HEADER_LENGTH) (\<lambda>(f, _). Inr f)"

definition get_txs_count :: "bytes \<Rightarrow> int res" where
  "get_txs_count buf = bindR (unpack_uint 4 buf txs_info_offset) (\<lambda>(n, _). Inr n)"

definition to_txs_message :: "bytes \<Rightarrow> bytes res" where
  "to_txs_message buf =
     bindR (rawbytes buf) (\<lambda>x. message_from_buffer (ascii ''txs'') (zeros HEADER_LENGTH @ drop txs_info_offset x))"

definition get_compressed_wr :: "int \<times> bytes \<times> int list \<Rightarrow> cursor \<Rightarrow> cursor res" where
  "get_compressed_wr = pair_wr (pack_uint 4) (pair_wr (put_slice SHA256_HASH_LEN) serialize_short_ids_to_buffer)"

definition get_compressed_rd :: "bytes \<Rightarrow> nat \<Rightarrow> ((int \<times> bytes \<times> int list) \<times> nat) res" where
  "get_compressed_rd = pair_rd (unpack_uint 4) (pair_rd read_hash deserialize_short_ids_from_buffer)"

definition GetCompressedBlockTxsMessage :: "int \<Rightarrow> bytes \<Rightarrow> int list \<Rightarrow> bytes res" where
  "GetCompressedBlockTxsMessage network_num block_hash sids =
     new_message (ascii ''getblocktxs'') (4 + (SHA256_HASH_LEN + short_ids_length (length sids))) (get_compressed_wr (network_num, block_hash, sids))"

definition get_compressed_fields :: "bytes \<Rightarrow> (int \<times> bytes \<times> int list) res" where
  "get_compressed_fields buf = bindR (get_compressed_rd buf HEADER_LENGTH) (\<lambda>(f, _). Inr f)"

definition compressed_short_ids_bytes :: "bytes \<Rightarrow> bytes res" where
  "compressed_short_ids_bytes buf = bindR (rawbytes buf) (\<lambda>x. Inr (slice x txs_info_offset (length x - 1)))"

lemmas compressed_codec = pair_codec [OF uint_field [of 4] pair_codec [OF hash.field_codec_axioms txs_info.field_codec_axioms]]
lemmas get_compressed_codec = pair_codec [OF uint_field [of 4] pair_codec [OF hash.field_codec_axioms short_ids.field_codec_axioms]]

lemma get_txs_request:
  assumes "sids_ok sids" "short_ids_length (length sids) + 1 < 256 ^ 4"
  shows "\<exists>buf. GetTxsMessage sids = Inr buf \<and> get_short_ids buf = Inr sids \<and>
    bindR (get_serialized_short_ids buf) deserialize_short_ids = Inr sids \<and> frame_ok None buf \<and> flag_ok version buf"
proof -
  let ?cmd = "pad12 (ascii ''gettxs'')"
  let ?fr = "frame ?cmd (sids_enc sids @ [VALID])"
  have m: "GetTxsMessage sids = Inr ?fr"
    using short_ids.new_message_run [OF assms(1) length_sids_enc assms(2)] by (simp add: GetTxsMessage_def)
  have r: "get_short_ids ?fr = Inr sids"
    using short_ids.read_message [OF assms(1), of ?cmd "[VALID]"] by (simp add: get_short_ids_def)
  have raw: "rawbytes ?fr = Inr ?fr" using rawbytes_frame [of ?cmd "sids_enc sids @ [VALID]"] assms(2) by simp
  have "length (STARTING_SEQUENCE_BYTES @ ?cmd @ nat_le 4 (length (sids_enc sids @ [VALID]))) = HEADER_LENGTH" by (simp add: HEADER_LENGTH_def)
  then have "slice ?fr HEADER_LENGTH (length ?fr - 1) = sids_enc sids"
    using slice_behind [of "STARTING_SEQUENCE_BYTES @ ?cmd @ nat_le 4 (length (sids_enc sids @ [VALID]))" "sids_enc sids" "[VALID]"]
    by (simp add: frame_def)
  moreover have "deserialize_short_ids (sids_enc sids) = Inr sids"
    using short_ids.read_enc [OF assms(1), of "[]" "[]"] by (simp add: deserialize_short_ids_def)
  ultimately have "bindR (get_serialized_short_ids ?fr) deserialize_short_ids = Inr sids"
    by (simp add: get_serialized_short_ids_def raw)
  with m r new_frame_ok [of ?cmd "sids_enc sids"] assms(2) show ?thesis by simp
qed

definition txs_size :: "tx_info list \<Rightarrow> nat" where
  "txs_size txs = length (nat_le 4 (length txs) @ concat (map tx_info_enc txs))"

lemma txs_message_run:
  assumes "list_all tx_info_ok txs" "length txs < 256 ^ 4" "txs_size txs + 1 < 256 ^ 4"
  shows "TxsMessage txs = Inr (frame (pad12 (ascii ''txs'')) ((nat_le 4 (length txs) @ concat (map tx_info_enc txs)) @ [VALID]))"
  using txs_info.new_message_run [of txs "txs_size txs" "ascii ''txs''"] transactions_info_length_run [OF assms(1)] assms
  by (simp add: TxsMessage_def txs_size_def)

lemma txs_message_reads:
  assumes "list_all tx_info_ok txs" "length txs < 256 ^ 4" "txs_size txs + 1 < 256 ^ 4"
  shows "\<exists>buf. TxsMessage txs = Inr buf \<and> get_txs buf = Inr txs \<and> frame_ok None buf \<and> flag_ok version buf"
  using txs_message_run [OF assms] txs_info.read_message [of txs "pad12 (ascii ''txs'')" "[VALID]"] assms
    new_frame_ok [of "pad12 (ascii ''txs'')" "nat_le 4 (length txs) @ concat (map tx_info_enc txs)"]
  by (simp add: get_txs_def txs_size_def)

text \<open>Turning the message with the transactions of a block into one without the block gives what a message of the transactions alone would be.\<close>

lemma to_txs_message_same:
  assumes "list_all tx_info_ok txs" "length txs < 256 ^ 4" "4 + (SHA256_HASH_LEN + txs_size txs) + 1 < 256 ^ 4"
    and "0 \<le> network_num" "network_num < 256 ^ 4" "length block_hash = SHA256_HASH_LEN"
  shows "\<exists>buf. CompressedBlockTxsMessage network_num block_hash txs = Inr buf \<and>
    compressed_fields buf = Inr (network_num, block_hash, txs) \<and> to_txs_message buf = TxsMessage txs"
proof -
  let ?cmd = "pad12 (ascii ''blocktxs'')" and ?e = "nat_le 4 (length txs) @ concat (map tx_info_enc txs)"
  let ?p = "(network_num, block_hash, txs)" and ?pe = "nat_le 4 (nat network_num) @ block_hash @ ?e"
  let ?fr = "frame ?cmd (?pe @ [VALID])"
  have lp: "length ?pe = 4 + (SHA256_HASH_LEN + txs_size txs)" using assms(6) by (simp add: txs_size_def)
  have "new_message (ascii ''blocktxs'') (4 + (SHA256_HASH_LEN + txs_size txs)) (compressed_wr ?p) = Inr ?fr"
    using field_codec.new_message_run [OF compressed_codec, of ?p "4 + (SHA256_HASH_LEN + txs_size txs)" "ascii ''blocktxs''"] assms
    by (simp add: compressed_wr_def txs_size_def)
  then have m: "CompressedBlockTxsMessage network_num block_hash txs = Inr ?fr"
    using transactions_info_length_run [OF assms(1)] by (simp add: CompressedBlockTxsMessage_def txs_size_def)
  have f: "compressed_fields ?fr = Inr ?p"
    using field_codec.read_message [OF compressed_codec, of ?p ?cmd "[VALID]"] assms
    by (simp add: compressed_fields_def compressed_rd_def)
  have raw: "rawbytes ?fr = Inr ?fr" using rawbytes_frame [of ?cmd "?pe @ [VALID]"] lp assms(3) by simp
  have "?fr = (STARTING_SEQUENCE_BYTES @ ?cmd @ nat_le 4 (length (?pe @ [VALID])) @ nat_le 4 (nat network_num) @ block_hash) @ ?e @ [VALID]"
    by (simp add: frame_def)
  then have "drop txs_info_offset ?fr = ?e @ [VALID]"
    using assms(6) by (simp only: txs_info_offset_def append_eq_conv_conj) (simp add: HEADER_LENGTH_def)
  moreover have "message_from_buffer (ascii ''txs'') (zeros HEADER_LENGTH @ ?e @ [VALID]) = TxsMessage txs"
  proof -
    have lt: "txs_size txs + 1 < 256 ^ 4" using assms(3) by simp
    have "int (length (zeros HEADER_LENGTH @ ?e @ [VALID])) - int HEADER_LENGTH = int (txs_size txs + 1)" by (simp add: txs_size_def)
    then show ?thesis
      using txs_message_run [OF assms(1,2) lt] bloxroute_message_run [of "zeros HEADER_LENGTH" ?e "txs_size txs + 1" "ascii ''txs''" VALID] lt
      by (simp add: message_from_buffer_def txs_size_def)
  qed
  ultimately show ?thesis using m f raw by (simp add: to_txs_message_def)
qed

section \<open>A request answered from a transaction service\<close>

definition known :: "tx_service \<Rightarrow> int \<Rightarrow> bool" where
  "known s sid = (case dget (short_id_to_key s) sid of None \<Rightarrow> False | Some key \<Rightarrow> dget (key_to_contents s) key \<noteq> None)"

lemma get_transactions_run:
  assumes "get_transactions s sids = Inr (found, missing)"
  shows "map ti_short_id found = filter (known s) sids \<and> map ti_short_id missing = filter (\<lambda>sid. \<not> known s sid) sids \<and>
    list_all (\<lambda>i. get_transaction s (ti_short_id i) = Inr i \<and> ti_contents i \<noteq> None) found"
proof -
  have "map ti_short_id found = map ti_short_id f0 @ filter (known s) sids \<and>
      map ti_short_id missing = map ti_short_id m0 @ filter (\<lambda>sid. \<not> known s sid) sids \<and>
      (list_all (\<lambda>i. get_transaction s (ti_short_id i) = Inr i \<and> ti_contents i \<noteq> None) f0 \<longrightarrow>
       list_all (\<lambda>i. get_transaction s (ti_short_id i) = Inr i \<and> ti_contents i \<noteq> None) found)"
    if "foldR (search_step s) sids (f0, m0) = Inr (found, missing)" for f0 m0
    using that
  proof (induction sids arbitrary: f0 m0)
    case (Cons sid sids)
    obtain i where i: "get_transaction s sid = Inr i" using Cons.prems by (auto simp: search_step_def)
    have k: "ti_short_id i = sid" "ti_contents i \<noteq> None \<longleftrightarrow> known s sid"
      using i by (auto simp: get_transaction_def known_def split: option.splits)
    show ?case
    proof (cases "known s sid")
      case True
      with i k have "search_step s sid (f0, m0) = Inr (f0 @ [i], m0)" by (simp add: search_step_def)
      with Cons.prems have "foldR (search_step s) sids (f0 @ [i], m0) = Inr (found, missing)" by simp
      from Cons.IH [OF this] show ?thesis using True i k by simp
    next
      case False
      with i k have "search_step s sid (f0, m0) = Inr (f0, m0 @ [i])" by (simp add: search_step_def)
      with Cons.prems have "foldR (search_step s) sids (f0, m0 @ [i]) = Inr (found, missing)" by simp
      from Cons.IH [OF this] show ?thesis using False i k by simp
    qed
  qed simp
  from this [of "[]" "[]"] assms show ?thesis by (simp add: get_transactions_def)
qed

lemma found_ok:
  assumes "get_transaction s sid = Inr i" "ti_contents i = Some c" "length c < 256 ^ 4" "0 \<le> sid" "sid < 256 ^ 4"
  shows "tx_info_ok i"
  using assms by (auto simp: get_transaction_def tx_info_ok_def tx_cache_key_to_hash_def Sha256Hash_def split: option.splits if_splits)

lemma txs_size_member: "i \<in> set txs \<Longrightarrow> ti_contents i = Some c \<Longrightarrow> length c \<le> txs_size txs"
  by (induction txs) (auto simp: txs_size_def tx_info_enc_def)

lemma txs_size_length: "length txs \<le> txs_size txs"
  by (induction txs) (auto simp: txs_size_def tx_info_enc_def)

text \<open>(C31) A request for short ids arrives as it was sent, and the answer arrives as the transactions that the service has for them:
  exactly those of the asked short ids that it knows with contents, in order, each with the hash and contents that it stores.\<close>

theorem request_answered:
  assumes "sids_ok sids" "short_ids_length (length sids) + 1 < 256 ^ 4"
    and "get_transactions s sids = Inr (found, missing)" "txs_size found + 1 < 256 ^ 4"
  shows "\<exists>req ans. GetTxsMessage sids = Inr req \<and> bindR (get_serialized_short_ids req) deserialize_short_ids = Inr sids \<and>
    TxsMessage found = Inr ans \<and> get_txs ans = Inr found \<and>
    map ti_short_id found = filter (known s) sids \<and> list_all (\<lambda>i. get_transaction s (ti_short_id i) = Inr i) found \<and>
    list_all (frame_ok None) [req, ans]"
proof -
  note g = get_transactions_run [OF assms(3)]
  have "tx_info_ok i" if i: "i \<in> set found" for i
  proof -
    have t: "get_transaction s (ti_short_id i) = Inr i" and "ti_contents i \<noteq> None" using g i by (auto simp: list_all_iff)
    then obtain c where c: "ti_contents i = Some c" by blast
    have "ti_short_id i \<in> set (map ti_short_id found)" using i by simp
    then have "ti_short_id i \<in> set sids" using g by auto
    then have "0 \<le> ti_short_id i" "ti_short_id i < 256 ^ 4" using assms(1) by (auto simp: sids_ok_def list_all_iff)
    with found_ok [OF t c] txs_size_member [OF i c] assms(4) show ?thesis by simp
  qed
  then have ok: "list_all tx_info_ok found" by (simp add: list_all_iff)
  have l: "length found < 256 ^ 4" using txs_size_length [of found] assms(4) by simp
  have "list_all (\<lambda>i. get_transaction s (ti_short_id i) = Inr i) found" using g by (auto simp: list_all_iff)
  moreover obtain req where "GetTxsMessage sids = Inr req" "bindR (get_serialized_short_ids req) deserialize_short_ids = Inr sids"
      "frame_ok None req"
    using get_txs_request [OF assms(1,2), of 0] by blast
  moreover obtain ans where "TxsMessage found = Inr ans" "get_txs ans = Inr found" "frame_ok None ans"
    using txs_message_reads [OF ok l assms(4), of 0] by blast
  ultimately show ?thesis using g by (intro exI [of _ req] exI [of _ ans]) simp
qed

end
