(* ===== verification/Sync.thy ===== *)
theory Sync
  imports Messages
begin

text \<open>
  What two nodes exchange to bring one transaction service up to the state of another: the messages
  (messages/bloxroute/tx_service_sync_*.py) and how the transactions of one message are chosen
  (services/tx_sync_service_helpers.py), from a list of hashes, from the times of the assignments or from a buffer of
  serialized transactions. The sender that uses them is in theory \<open>SyncSend\<close>.
\<close>

section \<open>The messages\<close>

definition TxServiceSyncReqMessage :: "int \<Rightarrow> bytes res" where
  "TxServiceSyncReqMessage network_num = new_message (ascii ''txstart'') 4 (pack_uint 4 network_num)"

definition TxServiceSyncCompleteMessage :: "int option \<Rightarrow> bytes res" where
  "TxServiceSyncCompleteMessage network_num =
     new_message (ascii ''txdone'') 4 (\<lambda>c. case network_num of None \<Rightarrow> Inr c | Some n \<Rightarrow> pack_uint 4 n c)"

definition network_num :: "bytes \<Rightarrow> int res" where
  "network_num buf = bindR (unpack_uint 4 buf HEADER_LENGTH) (\<lambda>(n, _). Inr n)"

definition tx_count :: "bytes \<Rightarrow> int res" where
  "tx_count buf = bindR (unpack_uint 4 buf (HEADER_LENGTH + 4)) (\<lambda>(n, _). Inr n)"

text \<open>The state of a service, from a list or from bytes that are already serialized.\<close>

definition TxServiceSyncTxsMessage :: "int \<Rightarrow> tx_content_short_ids list \<Rightarrow> bytes res" where
  "TxServiceSyncTxsMessage net ts =
     bindR (pair_wr (pack_uint 4) (pack_uint 4) (net, int (length ts)) (zeros (HEADER_LENGTH + 8), HEADER_LENGTH)) (\<lambda>(buf, _).
     bindR (serialize_txs_content_short_ids_into_bytes ts) (\<lambda>x. message_from_buffer (ascii ''txtxs'') (buf @ x @ zeros 1)))"

definition sync_txs_from_buffer :: "int \<Rightarrow> bytes \<Rightarrow> int \<Rightarrow> bytes res" where
  "sync_txs_from_buffer net txs_buffer n =
     bindR (pair_wr (pack_uint 4) (pack_uint 4) (net, n) (zeros (HEADER_LENGTH + 8 + length txs_buffer + 1), HEADER_LENGTH)) (\<lambda>c.
     bindR (put_slice (length txs_buffer) txs_buffer c) (\<lambda>(buf, _). message_from_buffer (ascii ''txtxs'') buf))"

definition txs_content_short_ids :: "bytes \<Rightarrow> tx_content_short_ids list res" where
  "txs_content_short_ids buf =
     bindR (tx_count buf) (\<lambda>n. deserialize_txs_content_short_ids_from_buffer buf (HEADER_LENGTH + 8) (nat n))"

text \<open>The short ids of the blocks; the byte of the flags is added to a received buffer once more.\<close>

definition TxServiceSyncBlocksShortIdsMessage :: "int \<Rightarrow> block_short_ids list \<Rightarrow> bytes res" where
  "TxServiceSyncBlocksShortIdsMessage net bs =
     bindR (pair_wr (pack_uint 4) (pack_uint 4) (net, int (length bs)) (zeros (HEADER_LENGTH + 8), HEADER_LENGTH)) (\<lambda>(buf, _).
     bindR (serialize_blocks_short_ids_into_bytes bs) (\<lambda>x. message_from_buffer (ascii ''txblock'') (buf @ x @ zeros 1)))"

definition sync_blocks_from_buffer :: "bytes \<Rightarrow> bytes res" where
  "sync_blocks_from_buffer buf = message_from_buffer (ascii ''txblock'') (buf @ zeros 1)"

definition blocks_short_ids :: "bytes \<Rightarrow> block_short_ids list res" where
  "blocks_short_ids buf =
     bindR (tx_count buf) (\<lambda>n. deserialize_blocks_short_ids_from_buffer buf (HEADER_LENGTH + 8) (nat n))"

interpretation net_count: field_codec "\<lambda>(n, k). (0 \<le> n \<and> n < 256 ^ 4) \<and> 0 \<le> k \<and> k < 256 ^ 4" "\<lambda>(n, k). nat_le 4 (nat n) @ nat_le 4 (nat k)"
    "pair_wr (pack_uint 4) (pack_uint 4)" "pair_rd (unpack_uint 4) (unpack_uint 4)"
  by (rule pair_codec [OF uint_field [of 4] uint_field [of 4]])

definition net_ok :: "int \<Rightarrow> bool" where
  "net_ok net \<longleftrightarrow> 0 \<le> net \<and> net < 256 ^ 4"

definition count_frame :: "bytes \<Rightarrow> int \<Rightarrow> nat \<Rightarrow> bytes \<Rightarrow> bytes" where
  "count_frame cmd net n e = frame (pad12 cmd) ((nat_le 4 (nat net) @ nat_le 4 n @ e) @ [VALID])"

lemma count_head:
  assumes "net_ok net" "n < 256 ^ 4" "8 \<le> m"
  shows "pair_wr (pack_uint 4) (pack_uint 4) (net, int n) (zeros (HEADER_LENGTH + m), HEADER_LENGTH) =
    Inr ((zeros HEADER_LENGTH @ nat_le 4 (nat net) @ nat_le 4 n) @ zeros (m - 8), HEADER_LENGTH + 8)"
proof -
  have "int n < 256 ^ 4" using assms(2) by (metis of_nat_less_iff of_nat_numeral of_nat_power)
  then show ?thesis
    using net_count.write_enc [of "(net, int n)" "zeros m" "zeros HEADER_LENGTH"] assms by (simp add: net_ok_def zeros_add)
qed

text \<open>A message of a network number, a count and what is counted, from its parts and back.\<close>

lemma count_message_run:
  assumes "net_ok net" "n < 256 ^ 4" "length e + 9 < 256 ^ 4"
  shows "message_from_buffer cmd ((zeros HEADER_LENGTH @ nat_le 4 (nat net) @ nat_le 4 n) @ e @ zeros 1) = Inr (count_frame cmd net n e)"
proof -
  let ?e = "nat_le 4 (nat net) @ nat_le 4 n @ e"
  have "int (length (zeros HEADER_LENGTH @ ?e @ [0])) - int HEADER_LENGTH = int (length ?e + 1)" by simp
  then show ?thesis using bloxroute_message_run [of "zeros HEADER_LENGTH" ?e "length ?e + 1" cmd 0] assms(3)
    by (simp add: message_from_buffer_def count_frame_def zeros_def VALID_def)
qed

lemma count_message_reads:
  assumes "net_ok net" "n < 256 ^ 4"
  shows "network_num (count_frame cmd net n e) = Inr net" "tx_count (count_frame cmd net n e) = Inr (int n)"
    "ahead (count_frame cmd net n e) (HEADER_LENGTH + 8) (e @ [VALID])"
proof -
  have n: "int n < 256 ^ 4" using assms(2) by (metis of_nat_less_iff of_nat_numeral of_nat_power)
  let ?h = "STARTING_SEQUENCE_BYTES @ pad12 cmd @ nat_le 4 (length ((nat_le 4 (nat net) @ nat_le 4 n @ e) @ [VALID]))"
  have f: "count_frame cmd net n e = ?h @ nat_le 4 (nat net) @ nat_le 4 n @ e @ [VALID]" by (simp add: count_frame_def frame_def)
  have l: "length ?h = HEADER_LENGTH" by (simp add: HEADER_LENGTH_def)
  have a: "ahead (count_frame cmd net n e) HEADER_LENGTH (nat_le 4 (nat net) @ nat_le 4 n @ e @ [VALID])"
    using ahead_behind [of ?h "nat_le 4 (nat net) @ nat_le 4 n @ e @ [VALID]"] unfolding l f .
  have u: "unpack_uint 4 (count_frame cmd net n e) HEADER_LENGTH = Inr (net, HEADER_LENGTH + 4)"
    "ahead (count_frame cmd net n e) (HEADER_LENGTH + 4) (nat_le 4 n @ e @ [VALID])"
    using field_codec.read_ahead [OF uint_field a] assms(1) by (auto simp: net_ok_def)
  have v: "unpack_uint 4 (count_frame cmd net n e) (HEADER_LENGTH + 4) = Inr (int n, HEADER_LENGTH + 4 + 4)"
    "ahead (count_frame cmd net n e) (HEADER_LENGTH + 4 + 4) (e @ [VALID])"
    using field_codec.read_ahead [OF uint_field [of 4], of "count_frame cmd net n e" "HEADER_LENGTH + 4" "int n" "e @ [VALID]"] u(2) n by simp_all
  show "network_num (count_frame cmd net n e) = Inr net" "tx_count (count_frame cmd net n e) = Inr (int n)"
    using u(1) v(1) by (simp_all add: network_num_def tx_count_def)
  show "ahead (count_frame cmd net n e) (HEADER_LENGTH + 8) (e @ [VALID])" using v(2) by (simp add: add.assoc)
qed

lemma count_frame_ok:
  assumes "length e + 9 < 256 ^ 4"
  shows "frame_ok None (count_frame cmd net n e)" "flag_ok version (count_frame cmd net n e)"
  using new_frame_ok [of "pad12 cmd" "nat_le 4 (nat net) @ nat_le 4 n @ e"] assms by (simp_all add: count_frame_def)

text \<open>The transactions of a service arrive in the order they were sent in, and the message that the receiver makes of the bytes is the same one.\<close>

lemma txs_content_length_ge: "length ts * 42 \<le> txs_content_length ts"
  by (induction ts) (auto simp: txs_content_length_def tx_content_length_def SHA256_HASH_LEN_def split: option.splits)

definition sync_txs_frame :: "int \<Rightarrow> tx_content_short_ids list \<Rightarrow> bytes" where
  "sync_txs_frame net ts = count_frame (ascii ''txtxs'') net (length ts)
     (concat (map tx_enc (filter carried ts)) @ zeros (txs_content_length ts - length (concat (map tx_enc (filter carried ts)))))"

lemma sync_txs_run:
  assumes "net_ok net" "list_all tx_ok (filter carried ts)" "txs_content_length ts + 9 < 256 ^ 4"
  shows "TxServiceSyncTxsMessage net ts = Inr (sync_txs_frame net ts)"
    "txs_content_short_ids (sync_txs_frame net ts) = Inr (filter carried ts @ left_out ts)"
    "network_num (sync_txs_frame net ts) = Inr net" "tx_count (sync_txs_frame net ts) = Inr (int (length ts))"
    "frame_ok None (sync_txs_frame net ts)" "flag_ok version (sync_txs_frame net ts)"
proof -
  let ?e = "concat (map tx_enc (filter carried ts)) @ zeros (txs_content_length ts - length (concat (map tx_enc (filter carried ts))))"
  note w = txs_content_written [OF assms(2)]
  have l: "length ts < 256 ^ 4" using txs_content_length_ge [of ts] assms(3) by simp
  have e: "length ?e + 9 < 256 ^ 4" using w(2) assms(3) by simp
  have h: "pair_wr (pack_uint 4) (pack_uint 4) (net, int (length ts)) (zeros (HEADER_LENGTH + 8), HEADER_LENGTH) =
      Inr (zeros HEADER_LENGTH @ nat_le 4 (nat net) @ nat_le 4 (length ts), HEADER_LENGTH + 8)"
    using count_head [OF assms(1) l, of 8] by (simp add: zeros_def)
  then show "TxServiceSyncTxsMessage net ts = Inr (sync_txs_frame net ts)"
    using w(1) count_message_run [OF assms(1) l e] by (simp add: TxServiceSyncTxsMessage_def sync_txs_frame_def)
  note r = count_message_reads [OF assms(1) l, of "ascii ''txtxs''" ?e]
  obtain pre where pre: "length pre = HEADER_LENGTH + 8" "sync_txs_frame net ts = pre @ ?e @ [VALID]"
    using r(3) by (auto simp: ahead_split sync_txs_frame_def)
  show "txs_content_short_ids (sync_txs_frame net ts) = Inr (filter carried ts @ left_out ts)"
    using w(3) [of pre "[VALID]"] r(2) pre by (simp add: txs_content_short_ids_def sync_txs_frame_def)
  show "network_num (sync_txs_frame net ts) = Inr net" "tx_count (sync_txs_frame net ts) = Inr (int (length ts))"
    using r(1,2) by (simp_all add: sync_txs_frame_def)
  show "frame_ok None (sync_txs_frame net ts)" "flag_ok version (sync_txs_frame net ts)"
    using count_frame_ok [OF e] by (simp_all add: sync_txs_frame_def)
qed

text \<open>Each time a node makes a message of the bytes of the short ids of blocks, the bytes become one longer; what it reads stays the same.\<close>

definition sync_blocks_frame :: "int \<Rightarrow> block_short_ids list \<Rightarrow> bytes \<Rightarrow> bytes" where
  "sync_blocks_frame net bs pad = count_frame (ascii ''txblock'') net (length bs) (concat (map block_enc bs) @ pad)"

lemma length_blocks:
  assumes "list_all block_ok bs"
  shows "length (concat (map block_enc bs)) = blocks_length bs"
  using assms by (induction bs) (auto simp: blocks_length_def block_ok_def block_enc_def short_ids_length_def algebra_simps)

lemma sync_blocks_reads:
  assumes "net_ok net" "list_all block_ok bs" "length bs < 256 ^ 4"
  shows "blocks_short_ids (sync_blocks_frame net bs pad) = Inr bs"
proof -
  note r = count_message_reads [OF assms(1,3), of "ascii ''txblock''" "concat (map block_enc bs) @ pad"]
  have "ahead (sync_blocks_frame net bs pad) (HEADER_LENGTH + 8) (concat (map block_enc bs) @ pad @ [VALID])"
    using r(3) by (simp add: sync_blocks_frame_def)
  from block.read_list_ahead(1) [OF this assms(2) refl] r(2) show ?thesis
    by (simp add: blocks_short_ids_def sync_blocks_frame_def deserialize_blocks_short_ids_from_buffer_def)
qed

lemma sync_blocks_run:
  assumes "net_ok net" "list_all block_ok bs" "length bs < 256 ^ 4" "blocks_length bs + 9 < 256 ^ 4"
  shows "TxServiceSyncBlocksShortIdsMessage net bs = Inr (sync_blocks_frame net bs [])"
proof -
  have "serialize_blocks_short_ids_into_bytes bs = Inr (concat (map block_enc bs))"
    using block.write_list [OF assms(2), of "zeros (blocks_length bs)" "[]"] length_blocks [OF assms(2)]
    by (simp add: serialize_blocks_short_ids_into_bytes_def zeros_def)
  then show ?thesis
    using count_head [OF assms(1,3), of 8] count_message_run [OF assms(1,3), of "concat (map block_enc bs)"] length_blocks [OF assms(2)] assms(4)
    by (simp add: TxServiceSyncBlocksShortIdsMessage_def sync_blocks_frame_def zeros_def)
qed

lemma sync_blocks_received:
  assumes "length (concat (map block_enc bs)) + length pad + 10 < 256 ^ 4"
  shows "sync_blocks_from_buffer (sync_blocks_frame net bs pad) = Inr (sync_blocks_frame net bs (pad @ [VALID]))"
proof -
  let ?x = "nat_le 4 (nat net) @ nat_le 4 (length bs) @ concat (map block_enc bs) @ pad @ [VALID]"
  let ?h = "STARTING_SEQUENCE_BYTES @ pad12 (ascii ''txblock'') @ nat_le 4 (length ?x)"
  have f: "sync_blocks_frame net bs pad @ zeros 1 = ?h @ ?x @ [0]"
    by (simp add: sync_blocks_frame_def count_frame_def frame_def zeros_def)
  have l: "length ?h = HEADER_LENGTH" by (simp add: HEADER_LENGTH_def)
  have "int (length (?h @ ?x @ [0])) - int HEADER_LENGTH = int (length ?x + 1)" using l by simp
  moreover have "bloxroute_message (ascii ''txblock'') (int (length ?x + 1)) (?h @ ?x @ [0]) = Inr (frame (pad12 (ascii ''txblock'')) (?x @ [0 OR VALID]))"
    by (rule bloxroute_message_run [OF l refl]) (use assms in simp)
  ultimately have "sync_blocks_from_buffer (sync_blocks_frame net bs pad) = Inr (frame (pad12 (ascii ''txblock'')) (?x @ [VALID]))"
    by (simp only: sync_blocks_from_buffer_def message_from_buffer_def f) (simp add: VALID_def)
  then show ?thesis by (simp add: sync_blocks_frame_def count_frame_def)
qed

section \<open>Choosing the transactions of a message\<close>

definition TXS_MSG_SIZE :: int where
  "TXS_MSG_SIZE = 64000"

definition TXS_SYNC_TASK_DURATION :: pyfloat where
  "TXS_SYNC_TASK_DURATION = rnd (15 / 100)"

definition sync_item :: "tx_service \<Rightarrow> bytes \<Rightarrow> bytes option \<Rightarrow> int list \<Rightarrow> tx_content_short_ids" where
  "sync_item s h content sids =
     \<lparr>tc_hash = h, tc_content = content, tc_short_ids = sids, tc_flags = map (get_short_id_transaction_type s) sids\<rparr>"

text \<open>After an item: whether the message is large enough or the task has taken too long.\<close>

definition task_over :: "'w clock \<Rightarrow> pyfloat \<Rightarrow> int \<Rightarrow> ('w, bool) sv_eff" where
  "task_over tick task_start txs_msg_len =
     (if TXS_MSG_SIZE \<le> txs_msg_len then returnE True
      else bindE (clock_now tick) (\<lambda>t. returnE (TXS_SYNC_TASK_DURATION < fsub t task_start)))"

text \<open>The hashes are popped off the end of the snapshot: the loop has them in this order, the last one first.\<close>

definition snap_item :: "tx_service \<Rightarrow> bool \<Rightarrow> bytes \<Rightarrow> tx_content_short_ids res" where
  "snap_item s sync_tx_content h =
     bindR (get_transaction_key (Some h) None) (\<lambda>k.
       Inr (sync_item s (tk_hash k) (if sync_tx_content then get_transaction_by_key s k else Some []) (get_short_ids_by_key s k)))"

fun snap_loop :: "'w clock \<Rightarrow> bool \<Rightarrow> pyfloat \<Rightarrow> bytes list \<Rightarrow> tx_content_short_ids list \<Rightarrow> int \<Rightarrow>
    ('w, tx_content_short_ids list \<times> bytes list) sv_eff" where
  "snap_loop tick content task_start [] items txs_msg_len = returnE (items, [])"
| "snap_loop tick content task_start (h # snap) items txs_msg_len =
     bindE (bindE (sv (\<lambda>s. snap_item s content h)) liftR) (\<lambda>item.
     let n = txs_msg_len + int (tx_content_length item)
     in bindE (task_over tick task_start n) (\<lambda>over.
          if over then returnE (items @ [item], snap) else snap_loop tick content task_start snap (items @ [item]) n))"

definition create_txs_service_msg :: "'w clock \<Rightarrow> bytes list \<Rightarrow> bool \<Rightarrow> ('w, tx_content_short_ids list \<times> bytes list) sv_eff" where
  "create_txs_service_msg tick snap content =
     bindE (clock_now tick) (\<lambda>task_start.
     bindE (snap_loop tick content task_start (rev snap) [] 0) (\<lambda>(items, rest). returnE (items, rev rest)))"

text \<open>The transactions whose short ids were assigned after a time, in the order of the expiry queue. A cache key that was
  in an earlier message is skipped; short ids without a transaction are taken off the queue at the end.\<close>

definition assigned_item :: "tx_service \<Rightarrow> bool \<Rightarrow> tx_key \<Rightarrow> tx_content_short_ids res" where
  "assigned_item s sync_tx_content k =
     bindR (dgetR (key_to_short_ids s) (tk_cache k)) (\<lambda>sids.
       Inr (sync_item s (tk_hash k)
         (Some (case if sync_tx_content then dget (key_to_contents s) (tk_cache k) else None of Some c \<Rightarrow> c | None \<Rightarrow> [])) sids))"

record from_time =
  ft_items :: "tx_content_short_ids list"
  ft_len :: int
  ft_keys :: "string set"
  ft_expire :: "int list"
  ft_timestamp :: pyfloat
  ft_done :: bool

fun from_time_loop :: "'w clock \<Rightarrow> bool \<Rightarrow> pyfloat \<Rightarrow> pyfloat \<Rightarrow> (int \<times> pyfloat) list \<Rightarrow> from_time \<Rightarrow> ('w, from_time) sv_eff" where
  "from_time_loop tick content task_start start_time [] r = returnE (r\<lparr>ft_done := True\<rparr>)"
| "from_time_loop tick content task_start start_time ((sid, t) # queue) r0 =
     (let r = r0\<lparr>ft_timestamp := t\<rparr>
      in if \<not> start_time < t then from_time_loop tick content task_start start_time queue r
      else
        bindE (sv (\<lambda>s. dget (short_id_to_key s) sid)) (\<lambda>known. case known of
            None \<Rightarrow> from_time_loop tick content task_start start_time queue (r\<lparr>ft_expire := ft_expire r @ [sid]\<rparr>)
          | Some key \<Rightarrow>
              bindE (liftR (get_transaction_key None (Some key))) (\<lambda>k.
              if key \<in> ft_keys r then from_time_loop tick content task_start start_time queue r
              else
                bindE (bindE (sv (\<lambda>s. assigned_item s content k)) liftR) (\<lambda>item.
                let r' = r\<lparr>ft_keys := insert (tk_cache k) (ft_keys r), ft_items := ft_items r @ [item],
                           ft_len := ft_len r + int (tx_content_length item)\<rparr>
                in bindE (task_over tick task_start (ft_len r')) (\<lambda>over.
                     if over then returnE r' else from_time_loop tick content task_start start_time queue r')))))"

definition create_txs_service_msg_from_time ::
    "'w clock \<Rightarrow> pyfloat \<Rightarrow> bool \<Rightarrow> string set \<Rightarrow> ('w, tx_content_short_ids list \<times> pyfloat \<times> bool \<times> string set) sv_eff" where
  "create_txs_service_msg_from_time tick start_time content keys =
     bindE (clock_now tick) (\<lambda>task_start.
     bindE (sv (\<lambda>s. eq_queue (assignment_queue s))) (\<lambda>queue.
     bindE (from_time_loop tick content task_start start_time queue
         \<lparr>ft_items = [], ft_len = 0, ft_keys = keys, ft_expire = [], ft_timestamp = start_time, ft_done = False\<rparr>) (\<lambda>r.
     thenE (mod_sv (\<lambda>s. fold unqueue_short_id (ft_expire r) s))
       (returnE (ft_items r, ft_timestamp r, ft_done r, ft_keys r)))))"

text \<open>From a buffer of serialized transactions behind their number: a small buffer in one message, a larger one transaction by transaction.\<close>

definition GATEWAY_SYNC_MAX_MESSAGE_SIZE_BYTES :: nat where
  "GATEWAY_SYNC_MAX_MESSAGE_SIZE_BYTES = 500 * 1024"

definition GATEWAY_SYNC_BUILD_MESSAGE_THRESHOLD_S :: pyfloat where
  "GATEWAY_SYNC_BUILD_MESSAGE_THRESHOLD_S = rnd (15 / 100)"

definition skip_tx :: "bytes \<Rightarrow> nat \<Rightarrow> nat res" where
  "skip_tx txs_buffer pos =
     bindR (unpack_uint 4 txs_buffer (pos + SHA256_HASH_LEN)) (\<lambda>(content_len, _).
     let short_ids_offset = pos + SHA256_HASH_LEN + 4 + 4 + nat content_len
     in bindR (unpack_uint 2 txs_buffer short_ids_offset) (\<lambda>(short_ids, _). Inr (short_ids_offset + 2 + (4 + 2) * nat short_ids)))"

lemma skip_tx_forward: "skip_tx buf pos = Inr pos' \<Longrightarrow> pos < pos' \<and> pos < length buf"
  by (auto simp: skip_tx_def unpack_uint_def Let_def split: if_splits)

function walk_txs :: "'w clock \<Rightarrow> bytes \<Rightarrow> pyfloat \<Rightarrow> nat \<Rightarrow> nat \<Rightarrow> nat \<Rightarrow> 'w \<Rightarrow> (nat \<times> nat \<times> bool) res \<times> 'w" where
  "walk_txs tick txs_buffer max_time start pos n w =
     (case tick w of (now, w1) \<Rightarrow>
        if \<not> (now < max_time \<and> int pos - int start \<le> int GATEWAY_SYNC_MAX_MESSAGE_SIZE_BYTES) then (Inr (pos, n, False), w1)
        else (case skip_tx txs_buffer pos of
            Inl e \<Rightarrow> (Inl e, w1)
          | Inr pos' \<Rightarrow>
              if length txs_buffer \<le> pos' then (Inr (pos', n + 1, True), w1)
              else walk_txs tick txs_buffer max_time start pos' (n + 1) w1))"
  by pat_completeness auto
termination
  by (relation "measure (\<lambda>(_, buf, _, _, pos, _). length buf - pos)") (use skip_tx_forward in fastforce)+

declare walk_txs.simps [simp del]

definition create_txs_service_msg_from_buffer ::
    "'w clock \<Rightarrow> int \<Rightarrow> bytes \<Rightarrow> nat \<Rightarrow> ('w, bytes \<times> int \<times> nat \<times> bool) eff" where
  "create_txs_service_msg_from_buffer tick net txs_buffer start_offset = (\<lambda>w.
     case tick w of (now, w1) \<Rightarrow>
       bindE (if start_offset = 0 \<and> length txs_buffer \<le> GATEWAY_SYNC_MAX_MESSAGE_SIZE_BYTES
              then liftR (bindR (unpack_uint 4 txs_buffer 0) (\<lambda>(n, _). Inr (4, length txs_buffer, n, True)))
              else
                let start = (if start_offset = 0 then 4 else start_offset)
                in bindE (walk_txs tick txs_buffer (fadd now GATEWAY_SYNC_BUILD_MESSAGE_THRESHOLD_S) start start 0) (\<lambda>(pos, n, complete).
                     returnE (start, pos, int n, complete)))
         (\<lambda>(start, pos, n, complete).
            bindE (liftR (sync_txs_from_buffer net (slice txs_buffer start pos) n)) (\<lambda>msg. returnE (msg, n, pos, complete))) w1)"

subsection \<open>Every transaction of the buffer is sent once\<close>

lemma skip_tx_run:
  assumes "ahead buf pos (tx_enc t @ rest)" "tx_ok t"
  shows "skip_tx buf pos = Inr (pos + length (tx_enc t))"
proof -
  let ?c = "the (tc_content t)" and ?n = "length (tc_short_ids t)"
  have ok: "length (tc_hash t) = SHA256_HASH_LEN" "length ?c < 256 ^ 4" "?n < 256 ^ 2" using assms(2) by (simp_all add: tx_ok_def)
  have e: "ahead buf pos (tc_hash t @ nat_le 4 (length ?c) @ (?c @ nat_le 4 0) @ nat_le 2 ?n @
      concat (map (\<lambda>v. nat_le 4 (nat v)) (tc_short_ids t)) @ concat (map (\<lambda>v. nat_le 2 (nat v)) (tc_flags t)) @ rest)"
    using assms(1) by (simp add: tx_enc_def)
  note a = ahead_step [OF e]
  have u: "unpack_uint 4 buf (pos + SHA256_HASH_LEN) = Inr (int (length ?c), pos + SHA256_HASH_LEN + 4)"
    using field_codec.read_ahead(1) [OF uint_field [of 4], of buf "pos + SHA256_HASH_LEN" "int (length ?c)"] a ok(1) len_field [OF ok(2)] by simp
  have b: "ahead buf (pos + SHA256_HASH_LEN + 4 + (length ?c + 4)) (nat_le 2 ?n @
      concat (map (\<lambda>v. nat_le 4 (nat v)) (tc_short_ids t)) @ concat (map (\<lambda>v. nat_le 2 (nat v)) (tc_flags t)) @ rest)"
    using ahead_step [OF ahead_step [OF a]] ok(1) by simp
  have v: "unpack_uint 2 buf (pos + SHA256_HASH_LEN + 4 + (length ?c + 4)) = Inr (int ?n, pos + SHA256_HASH_LEN + 4 + (length ?c + 4) + 2)"
    using field_codec.read_ahead(1) [OF uint_field [of 2], of buf "pos + SHA256_HASH_LEN + 4 + (length ?c + 4)" "int ?n"] b short_len_field [OF ok(3)] by simp
  obtain c where "tc_content t = Some c" using assms(2) by (auto simp: tx_ok_def carried_def)
  then show ?thesis using u v length_tx_enc [OF assms(2)] by (simp add: skip_tx_def tx_content_length_def add.commute add.left_commute)
qed

lemma walk_txs_run:
  assumes "ahead buf pos (concat (map tx_enc ts))" "list_all tx_ok ts" "ts \<noteq> []"
  shows "\<exists>k w'. walk_txs tick buf max_time start pos n w = (Inr (pos + length (concat (map tx_enc (take k ts))), n + k, k = length ts), w') \<and> k \<le> length ts"
  using assms
proof (induction ts arbitrary: pos n w)
  case (Cons t ts)
  obtain now w1 where w: "tick w = (now, w1)" by fastforce
  have a: "ahead buf pos (tx_enc t @ concat (map tx_enc ts))" using Cons.prems(1) by simp
  have sk: "skip_tx buf pos = Inr (pos + length (tx_enc t))" using skip_tx_run [OF a] Cons.prems(2) by simp
  have b: "ahead buf (pos + length (tx_enc t)) (concat (map tx_enc ts))" by (rule ahead_step [OF a])
  show ?case
  proof (cases "now < max_time \<and> int pos - int start \<le> int GATEWAY_SYNC_MAX_MESSAGE_SIZE_BYTES")
    case False
    with w show ?thesis by (intro exI [of _ 0] exI [of _ w1]) (subst walk_txs.simps, auto)
  next
    case go: True
    have end_iff: "length buf \<le> pos + length (tx_enc t) \<longleftrightarrow> ts = []"
      using b Cons.prems(2) by (cases ts) (auto simp: ahead_split tx_enc_def tx_ok_def SHA256_HASH_LEN_def)
    show ?thesis
    proof (cases "ts = []")
      case True
      with go w sk end_iff show ?thesis by (intro exI [of _ 1] exI [of _ w1]) (subst walk_txs.simps, simp)
    next
      case False
      with Cons.IH [OF b _ False, of "n + 1" w1] Cons.prems(2) obtain k w' where
        "walk_txs tick buf max_time start (pos + length (tx_enc t)) (n + 1) w1 =
           (Inr (pos + length (tx_enc t) + length (concat (map tx_enc (take k ts))), n + 1 + k, k = length ts), w')" "k \<le> length ts" by auto
      with go w sk end_iff False show ?thesis by (intro exI [of _ "Suc k"] exI [of _ w']) (subst walk_txs.simps, simp)
    qed
  qed
qed simp

lemma sync_txs_frame_ok: "list_all tx_ok ts \<Longrightarrow> sync_txs_frame net ts = count_frame (ascii ''txtxs'') net (length ts) (concat (map tx_enc ts))"
proof -
  assume ok: "list_all tx_ok ts"
  have "filter carried ts = ts" using ok by (auto simp: filter_id_conv list_all_iff tx_ok_def)
  moreover have "txs_content_length ts = length (concat (map tx_enc ts))"
    using ok by (induction ts) (auto simp: txs_content_length_def length_tx_enc)
  ultimately show ?thesis by (simp add: sync_txs_frame_def zeros_def)
qed

lemma enc_count: "list_all tx_ok ts \<Longrightarrow> length ts * 42 \<le> length (concat (map tx_enc ts))"
  by (induction ts) (auto simp: tx_enc_def tx_ok_def SHA256_HASH_LEN_def)

lemma from_buffer_message:
  assumes "net_ok net" "list_all tx_ok ts" "length (concat (map tx_enc ts)) + 9 < 256 ^ 4"
  shows "sync_txs_from_buffer net (concat (map tx_enc ts)) (int (length ts)) = Inr (sync_txs_frame net ts)"
proof -
  let ?e = "concat (map tx_enc ts)"
  have l: "length ts < 256 ^ 4" using enc_count [OF assms(2)] assms(3) by simp
  have z: "HEADER_LENGTH + 8 + length ?e + 1 = HEADER_LENGTH + (8 + length ?e + 1)" by simp
  have h: "pair_wr (pack_uint 4) (pack_uint 4) (net, int (length ts)) (zeros (HEADER_LENGTH + 8 + length ?e + 1), HEADER_LENGTH) =
      Inr ((zeros HEADER_LENGTH @ nat_le 4 (nat net) @ nat_le 4 (length ts)) @ zeros (length ?e + 1), HEADER_LENGTH + 8)"
    unfolding z using count_head [OF assms(1) l, of "8 + length ?e + 1"] by simp
  show ?thesis
    unfolding sync_txs_from_buffer_def h using count_message_run [OF assms(1) l assms(3), of "ascii ''txtxs''"] sync_txs_frame_ok [OF assms(2)]
    by (simp add: put_slice_def) (simp add: zeros_def)
qed

lemma sent_part:
  assumes "net_ok net" "list_all tx_ok ts" "length (concat (map tx_enc ts)) + 9 < 256 ^ 4"
  shows "sync_txs_from_buffer net (concat (map tx_enc ts)) (int (length ts)) = Inr (sync_txs_frame net ts)"
    "txs_content_short_ids (sync_txs_frame net ts) = Inr ts" "network_num (sync_txs_frame net ts) = Inr net"
    "frame_ok None (sync_txs_frame net ts)"
proof -
  have c: "filter carried ts = ts" using assms(2) by (auto simp: filter_id_conv list_all_iff tx_ok_def)
  have l: "left_out ts = []" using assms(2) by (auto simp: left_out_def list_all_iff tx_ok_def filter_empty_conv)
  have "txs_content_length ts = length (concat (map tx_enc ts))"
    using assms(2) by (induction ts) (auto simp: txs_content_length_def length_tx_enc)
  with assms(3) have n: "txs_content_length ts + 9 < 256 ^ 4" by simp
  note r = sync_txs_run [OF assms(1) _ n, unfolded c, OF assms(2)]
  show "txs_content_short_ids (sync_txs_frame net ts) = Inr ts" "network_num (sync_txs_frame net ts) = Inr net"
    "frame_ok None (sync_txs_frame net ts)"
    using r(2,3,5) l by simp_all
  show "sync_txs_from_buffer net (concat (map tx_enc ts)) (int (length ts)) = Inr (sync_txs_frame net ts)"
    by (rule from_buffer_message [OF assms])
qed

definition offset_behind :: "tx_content_short_ids list \<Rightarrow> nat" where
  "offset_behind done = 4 + length (concat (map tx_enc done))"



subsection \<open>The snapshot is sent from its end\<close>

definition snapped :: "tx_service \<Rightarrow> bool \<Rightarrow> bytes \<Rightarrow> tx_content_short_ids" where
  "snapped s content h = (let k = \<lparr>tk_hash = h, tk_cache = tx_hash_to_cache_key h\<rparr>
     in sync_item s h (if content then get_transaction_by_key s k else Some []) (get_short_ids_by_key s k))"

lemma snap_item_run: "snap_item s content h = Inr (snapped s content h)"
  by (simp add: snap_item_def snapped_def get_transaction_key_def Let_def)

lemma snapped_hash [simp]: "tc_hash (snapped s content h) = h"
  by (simp add: snapped_def sync_item_def Let_def)

lemma snap_loop_run:
  assumes "list_all (\<lambda>h. int (tx_content_length (snapped s content h)) \<le> L) snap" "n < TXS_MSG_SIZE" "0 \<le> L"
  shows "\<exists>k w'. snap_loop tick content start snap items n (s, w) = (Inr (items @ map (snapped s content) (take k snap), drop k snap), s, w') \<and>
    k \<le> length snap \<and> (snap \<noteq> [] \<longrightarrow> 0 < k) \<and>
    n + int (txs_content_length (map (snapped s content) (take k snap))) \<le> TXS_MSG_SIZE + L"
  using assms(1,2)
proof (induction snap arbitrary: items n w)
  case Nil
  then show ?case using assms(3) by (auto simp: eff_apply txs_content_length_def)
next
  case (Cons h snap)
  define m where "m = n + int (tx_content_length (snapped s content h))"
  have m: "m \<le> TXS_MSG_SIZE + L" using Cons.prems by (simp add: m_def)
  obtain over w1 where t: "task_over tick start m (s, w) = (Inr over, s, w1)" "TXS_MSG_SIZE \<le> m \<longrightarrow> over"
    by (cases "TXS_MSG_SIZE \<le> m") (auto simp: task_over_def bindE_apply eff_apply sv_apply)
  have step: "snap_loop tick content start (h # snap) items n (s, w) =
      (if over then (Inr (items @ [snapped s content h], snap), s, w1)
       else snap_loop tick content start snap (items @ [snapped s content h]) m (s, w1))"
    using t(1) by (simp add: bindE_apply eff_apply sv_apply snap_item_run m_def Let_def)
  show ?case
  proof (cases over)
    case True
    with step m show ?thesis by (intro exI [of _ 1] exI [of _ w1]) (simp add: m_def txs_content_length_def)
  next
    case False
    then have "m < TXS_MSG_SIZE" using t(2) by auto
    with Cons.IH [of m "items @ [snapped s content h]" w1] Cons.prems(1) obtain k w' where
      k: "snap_loop tick content start snap (items @ [snapped s content h]) m (s, w1) =
        (Inr ((items @ [snapped s content h]) @ map (snapped s content) (take k snap), drop k snap), s, w')" "k \<le> length snap"
      "m + int (txs_content_length (map (snapped s content) (take k snap))) \<le> TXS_MSG_SIZE + L"
      by auto
    then have "n + int (txs_content_length (map (snapped s content) (take (Suc k) (h # snap)))) \<le> TXS_MSG_SIZE + L"
      by (simp add: m_def txs_content_length_def)
    with step False k show ?thesis by (intro exI [of _ "Suc k"] exI [of _ w']) simp
  qed
qed


lemma create_txs_service_msg_run:
  assumes "list_all (\<lambda>h. int (tx_content_length (snapped s content h)) \<le> L) snap" "0 \<le> L"
  shows "\<exists>k w'. create_txs_service_msg tick snap content (s, w) =
      (Inr (map (snapped s content) (take k (rev snap)), rev (drop k (rev snap))), s, w') \<and>
    k \<le> length snap \<and> (snap \<noteq> [] \<longrightarrow> 0 < k) \<and>
    int (txs_content_length (map (snapped s content) (take k (rev snap)))) \<le> TXS_MSG_SIZE + L"
proof -
  have "list_all (\<lambda>h. int (tx_content_length (snapped s content h)) \<le> L) (rev snap)" using assms(1) by (simp add: list_all_iff)
  from snap_loop_run [OF this _ assms(2), of 0 tick "fst (tick w)" "[]" "snd (tick w)"]
  show ?thesis by (auto simp: TXS_MSG_SIZE_def create_txs_service_msg_def bindE_apply eff_apply sv_apply)
qed


subsection \<open>From the times of the assignments\<close>

definition assigned_since :: "tx_service \<Rightarrow> pyfloat \<Rightarrow> (int \<times> pyfloat) list \<Rightarrow> string set" where
  "assigned_since s start queue = {k. \<exists>sid t. (sid, t) \<in> set queue \<and> start < t \<and> dget (short_id_to_key s) sid = Some k}"

lemma assigned_since_Nil [simp]: "assigned_since s start [] = {}"
  by (simp add: assigned_since_def)

lemma assigned_since_Cons:
  "dget (short_id_to_key s) sid = Some k \<Longrightarrow>
    assigned_since s start ((sid, t) # queue) = (if start < t then insert k (assigned_since s start queue) else assigned_since s start queue)"
  by (auto simp: assigned_since_def)

definition newly_picked :: "tx_service \<Rightarrow> pyfloat \<Rightarrow> (int \<times> pyfloat) list \<Rightarrow> string set \<Rightarrow> string list \<Rightarrow> tx_content_short_ids list \<Rightarrow> bool \<Rightarrow> bool" where
  "newly_picked s start queue keys ks items done \<longleftrightarrow> distinct ks \<and> set ks \<inter> keys = {} \<and>
     list_all2 (\<lambda>k i. tx_cache_key_to_hash k = Inr (tc_hash i) \<and> dget (key_to_short_ids s) k = Some (tc_short_ids i)) ks items \<and>
     set ks \<subseteq> assigned_since s start queue \<and> (done \<longrightarrow> assigned_since s start queue \<subseteq> keys \<union> set ks)"

lemma newly_picked_skip:
  assumes "newly_picked s start queue keys ks items done" "dget (short_id_to_key s) sid = Some k" "start < t \<Longrightarrow> k \<in> keys"
  shows "newly_picked s start ((sid, t) # queue) keys ks items done"
  using assms(1,3) by (auto simp: newly_picked_def assigned_since_Cons [OF assms(2)])

lemma newly_picked_take:
  assumes "newly_picked s start queue (insert k keys) ks items done" "start < t" "dget (short_id_to_key s) sid = Some k" "k \<notin> keys"
    and "tx_cache_key_to_hash k = Inr (tc_hash i)" "dget (key_to_short_ids s) k = Some (tc_short_ids i)"
  shows "newly_picked s start ((sid, t) # queue) keys (k # ks) (i # items) done"
  using assms(1,2,4-6) by (auto simp: newly_picked_def assigned_since_Cons [OF assms(3)])

lemma from_time_loop_run:
  assumes "maps_ok (key_to_short_ids s) (short_id_to_key s)"
    and "\<forall>(sid, t) \<in> set queue. dget (short_id_to_key s) sid \<noteq> None" "\<not> ft_done r"
  shows "\<exists>r' w' ks items. from_time_loop tick content task_start start queue r (s, w) = (Inr r', s, w') \<and>
    ft_items r' = ft_items r @ items \<and> ft_keys r' = ft_keys r \<union> set ks \<and> ft_expire r' = ft_expire r \<and>
    newly_picked s start queue (ft_keys r) ks items (ft_done r')"
  using assms(2,3)
proof (induction queue arbitrary: r w)
  case Nil
  show ?case
    by (rule exI [of _ "r\<lparr>ft_done := True\<rparr>"], rule exI [of _ w], rule exI [of _ "[]"], rule exI [of _ "[]"]) (simp add: eff_apply newly_picked_def)
next
  case (Cons p queue)
  obtain sid t where p: "p = (sid, t)" by (cases p)
  define r1 where "r1 = r\<lparr>ft_timestamp := t\<rparr>"
  have r1: "\<not> ft_done r1" "ft_items r1 = ft_items r" "ft_keys r1 = ft_keys r" "ft_expire r1 = ft_expire r"
    using Cons.prems(2) by (simp_all add: r1_def)
  have q: "\<forall>(sid, t) \<in> set queue. dget (short_id_to_key s) sid \<noteq> None" using Cons.prems(1) by simp
  obtain k where k: "dget (short_id_to_key s) sid = Some k" using Cons.prems(1) p by auto
  obtain l where l: "dget (key_to_short_ids s) k = Some l" using maps_okD(5) [OF assms(1) k] by blast
  obtain h where h: "tx_cache_key_to_hash k = Inr h" using maps_okD(3) [OF assms(1) l] by blast
  show ?case
  proof (cases "start < t \<and> k \<notin> ft_keys r")
    case False
    have "from_time_loop tick content task_start start (p # queue) r (s, w) = from_time_loop tick content task_start start queue r1 (s, w)"
      using False k h r1(3) by (auto simp: p bindE_apply eff_apply sv_apply get_transaction_key_def simp flip: r1_def)
    moreover have "newly_picked s start (p # queue) (ft_keys r) ks items d" if "newly_picked s start queue (ft_keys r) ks items d" for ks items d
      using newly_picked_skip [OF that k, of t] False p by auto
    ultimately show ?thesis using Cons.IH [OF q r1(1), of w] unfolding r1 by metis
  next
    case True
    define item where "item = sync_item s h (Some (case if content then dget (key_to_contents s) k else None of Some c \<Rightarrow> c | None \<Rightarrow> [])) l"
    have item: "tc_hash item = h" "tc_short_ids item = l" by (simp_all add: item_def sync_item_def)
    define r2 where "r2 = r1\<lparr>ft_keys := insert k (ft_keys r1), ft_items := ft_items r1 @ [item], ft_len := ft_len r1 + int (tx_content_length item)\<rparr>"
    have r2: "\<not> ft_done r2" "ft_items r2 = ft_items r @ [item]" "ft_keys r2 = insert k (ft_keys r)" "ft_expire r2 = ft_expire r"
      using r1 by (simp_all add: r2_def)
    have it: "assigned_item s content \<lparr>tk_hash = h, tk_cache = k\<rparr> = Inr item" using l by (simp add: assigned_item_def item_def)
    obtain over w1 where o: "task_over tick task_start (ft_len r2) (s, w) = (Inr over, s, w1)"
      by (cases "TXS_MSG_SIZE \<le> ft_len r2") (auto simp: task_over_def bindE_apply eff_apply sv_apply)
    have step: "from_time_loop tick content task_start start (p # queue) r (s, w) =
        (if over then (Inr r2, s, w1) else from_time_loop tick content task_start start queue r2 (s, w1))"
      using True k h it o [unfolded r2_def] r1(3) by (simp add: p bindE_apply eff_apply sv_apply get_transaction_key_def Let_def r2_def flip: r1_def)
    have take: "newly_picked s start (p # queue) (ft_keys r) (k # ks) (item # items) d"
      if "newly_picked s start queue (ft_keys r2) ks items d" for ks items d
      using newly_picked_take [OF that [unfolded r2(3)], of t sid item] True k l h item p by simp
    show ?thesis
    proof (cases over)
      case True
      have "newly_picked s start queue (ft_keys r2) [] [] (ft_done r2)" using r2(1) by (simp add: newly_picked_def)
      from take [OF this] step True r2 show ?thesis
        by (intro exI [of _ r2] exI [of _ w1] exI [of _ "[k]"] exI [of _ "[item]"]) simp
    next
      case False
      from Cons.IH [OF q r2(1), of w1] obtain r' w' ks items where
        "from_time_loop tick content task_start start queue r2 (s, w1) = (Inr r', s, w')" "ft_items r' = ft_items r2 @ items"
        "ft_keys r' = ft_keys r2 \<union> set ks" "ft_expire r' = ft_expire r2" "newly_picked s start queue (ft_keys r2) ks items (ft_done r')" by blast
      with take step False r2 show ?thesis
        by (intro exI [of _ r'] exI [of _ w'] exI [of _ "k # ks"] exI [of _ "item # items"]) simp
    qed
  qed
qed

text \<open>(C22) In a state that satisfies the invariant of the service a message made from the times of the assignments does not fail and leaves the service alone.
  It holds transactions whose cache keys were not in an earlier message, each once, with their hashes and all their short ids; each
  has a short id assigned after the given time, and when the message is the last one, every such transaction has been sent.\<close>

theorem from_time_once:
  assumes "sv_inv s"
  shows "\<exists>ks items last done w'. create_txs_service_msg_from_time tick start content keys (s, w) = (Inr (items, last, done, keys \<union> set ks), s, w') \<and>
    distinct ks \<and> set ks \<inter> keys = {} \<and>
    list_all2 (\<lambda>k i. tx_cache_key_to_hash k = Inr (tc_hash i) \<and> dget (key_to_short_ids s) k = Some (tc_short_ids i)) ks items \<and>
    set ks \<subseteq> assigned_since s start (eq_queue (assignment_queue s)) \<and>
    (done \<longrightarrow> assigned_since s start (eq_queue (assignment_queue s)) \<subseteq> keys \<union> set ks)"
proof -
  let ?r = "\<lparr>ft_items = [], ft_len = 0, ft_keys = keys, ft_expire = [], ft_timestamp = start, ft_done = False\<rparr>"
  have maps: "maps_ok (key_to_short_ids s) (short_id_to_key s)" and q: "queue_ok (assignment_queue s) (short_id_to_key s)"
    using assms by (simp_all add: sv_inv_def)
  have "dget (short_id_to_key s) sid \<noteq> None" if "(sid, t) \<in> set (eq_queue (assignment_queue s))" for sid t
  proof -
    have "sid \<in> set (dkeys (eq_queue (assignment_queue s)))" using that by force
    then have "sid \<in> set (dkeys (short_id_to_key s))" using q by (simp only: queue_ok_def eq_keys_def)
    then show ?thesis unfolding in_dkeys by blast
  qed
  then have "\<forall>(sid, t) \<in> set (eq_queue (assignment_queue s)). dget (short_id_to_key s) sid \<noteq> None" by blast
  from from_time_loop_run [OF maps this, of ?r tick content "fst (tick w)" start "snd (tick w)"] obtain r' w' ks items where
    r': "from_time_loop tick content (fst (tick w)) start (eq_queue (assignment_queue s)) ?r (s, snd (tick w)) = (Inr r', s, w')"
    "ft_items r' = items" "ft_keys r' = keys \<union> set ks" "ft_expire r' = []"
    "newly_picked s start (eq_queue (assignment_queue s)) keys ks items (ft_done r')" by auto
  then have "create_txs_service_msg_from_time tick start content keys (s, w) = (Inr (items, ft_timestamp r', ft_done r', keys \<union> set ks), s, w')"
    by (simp add: create_txs_service_msg_from_time_def bindE_apply eff_apply sv_apply)
  with r'(5) show ?thesis unfolding newly_picked_def by blast
qed

text \<open>(C24) A message of the state of a service, for every list of transactions with a hash and contents that fit into the fields: it is a valid frame of
  its network, and who reads it gets the transactions that can be carried, in order, and at the end one empty entry for each that was
  left out, since the count of the message includes them.\<close>

theorem sync_txs_arrive:
  assumes "net_ok net" "list_all tx_ok (filter carried ts)" "txs_content_length ts + 9 < 256 ^ 4"
  shows "\<exists>buf. TxServiceSyncTxsMessage net ts = Inr buf \<and> frame_ok None buf \<and> flag_ok version buf \<and> network_num buf = Inr net \<and>
    tx_count buf = Inr (int (length ts)) \<and> txs_content_short_ids buf = Inr (filter carried ts @ left_out ts)"
  using sync_txs_run [OF assms] by blast

text \<open>(C23) Two transactions assigned at the same time, the first of which fills a message: the next message starts behind that time, so it holds
  nothing, says that the synchronisation is done, and the second transaction is never sent.\<close>

theorem equal_times_lost:
  assumes "sv_inv s" "eq_queue (assignment_queue s) = [(x, t), (y, t)]" "start < t"
    and "dget (short_id_to_key s) x = Some kx" "dget (short_id_to_key s) y = Some ky" "kx \<noteq> ky"
    and "dget (key_to_contents s) kx = Some c" "TXS_MSG_SIZE \<le> int (length c)"
  shows "\<exists>item w1 w2. create_txs_service_msg_from_time tick start True {} (s, w) = (Inr ([item], t, False, {kx}), s, w1) \<and>
    create_txs_service_msg_from_time tick t True {kx} (s, w1) = (Inr ([], t, True, {kx}), s, w2) \<and>
    tx_cache_key_to_hash kx = Inr (tc_hash item) \<and> ky \<notin> {kx}"
proof -
  have maps: "maps_ok (key_to_short_ids s) (short_id_to_key s)" using assms(1) by (simp add: sv_inv_def)
  obtain l where l: "dget (key_to_short_ids s) kx = Some l" using maps_okD(5) [OF maps assms(4)] by blast
  obtain h where h: "tx_cache_key_to_hash kx = Inr h" using maps_okD(3) [OF maps l] by blast
  define item where "item = sync_item s h (Some c) l"
  have "int (tx_content_length item) \<ge> TXS_MSG_SIZE" using assms(8) by (simp add: item_def sync_item_def tx_content_length_def)
  moreover have "assigned_item s True \<lparr>tk_hash = h, tk_cache = kx\<rparr> = Inr item" using l assms(7) by (simp add: assigned_item_def item_def)
  ultimately have "create_txs_service_msg_from_time tick start True {} (s, w) = (Inr ([item], t, False, {kx}), s, snd (tick w))"
    using assms(2-4) h by (simp add: create_txs_service_msg_from_time_def task_over_def get_transaction_key_def bindE_apply eff_apply sv_apply Let_def)
  moreover have "create_txs_service_msg_from_time tick t True {kx} (s, snd (tick w)) = (Inr ([], t, True, {kx}), s, snd (tick (snd (tick w))))"
    using assms(2) by (simp add: create_txs_service_msg_from_time_def bindE_apply eff_apply sv_apply Let_def)
  moreover have "tc_hash item = h" by (simp add: item_def sync_item_def)
  ultimately show ?thesis using h assms(6) by (intro exI [of _ item] exI) auto
qed

end
