(* ===== verification/SyncSend.thy ===== *)
theory SyncSend
  imports Sync Expiring
begin

text \<open>
  How a node sends its transactions to another one (services/tx_sync_service.py) over an internal connection
  (connections/internal_node_connection.py): one message at a time, each followed by a ping, the next message only after the pong, and at the end
  a message that the synchronisation is complete. Between the messages an alarm of the node waits. The world of the alarm queue here is
  what the sender uses of the connection and of the node; connections speak the current version of the protocol. Logs are left out.
\<close>

section \<open>The connection\<close>

datatype sync_fn = SendTxs | SendFromTime | SendFromBuffer | CleanPings

datatype sync_args =
    TxsArgs int "bytes list" bool pyfloat nat nat pyfloat
  | TimeArgs int bool pyfloat nat nat pyfloat pyfloat "string set option"
  | BufferArgs int bytes pyfloat nat int pyfloat nat
  | NoArgs

record 'w sync_world =
  tx_services :: "int \<Rightarrow> tx_service"
  socket_alive :: bool
  is_established :: bool
  disposed :: bool
  sent_msgs :: "bytes list"
  ping_times :: "(int, pyfloat) expiring_dict"
  nonce_network :: "(int, int) dict"
  ping_latencies :: "(int, pyfloat option) dict"
  sync_alarms :: "(int, nat) dict"
  sync_rest :: 'w

type_synonym 'w sync_node = "(sync_fn, sync_args, 'w sync_world) alarm_queue"
type_synonym ('w, 'r) sync_eff = "('w sync_node, 'r) eff"
type_synonym 'w sync_callback = "(sync_fn, sync_args, 'w sync_world) callback"

definition sync_clock :: "'w clock \<Rightarrow> 'w sync_world clock" where
  "sync_clock tick = (\<lambda>W. case tick (sync_rest W) of (t, w) \<Rightarrow> (t, W\<lparr>sync_rest := w\<rparr>))"

definition conn_now :: "'w clock \<Rightarrow> ('w, pyfloat) sync_eff" where
  "conn_now tick = time_now (sync_clock tick)"

definition look_world :: "('w sync_world \<Rightarrow> 'r) \<Rightarrow> ('w, 'r) sync_eff" where
  "look_world f = getE (\<lambda>q. f (aq_world q))"

definition change_world :: "('w sync_world \<Rightarrow> 'w sync_world) \<Rightarrow> ('w, unit) sync_eff" where
  "change_world f = modE (\<lambda>q. q\<lparr>aq_world := f (aq_world q)\<rparr>)"

text \<open>The transaction service of a network, with the clock.\<close>

definition on_service :: "int \<Rightarrow> ('w, 'r) sv_eff \<Rightarrow> ('w, 'r) sync_eff" where
  "on_service net m = (\<lambda>q. let W = aq_world q in case m (tx_services W net, sync_rest W) of
     (r, s, w) \<Rightarrow> (r, q\<lparr>aq_world := W\<lparr>tx_services := (tx_services W)(net := s), sync_rest := w\<rparr>\<rparr>))"

definition on_pings :: "(int, pyfloat, sync_fn, sync_args, 'w sync_world, 'r) ed_eff \<Rightarrow> ('w, 'r) sync_eff" where
  "on_pings m = (\<lambda>q. case m (ping_times (aq_world q), q) of (r, d, q') \<Rightarrow> (r, q'\<lparr>aq_world := (aq_world q')\<lparr>ping_times := d\<rparr>\<rparr>))"

definition conn_is_active :: "'w sync_world \<Rightarrow> bool" where
  "conn_is_active W \<longleftrightarrow> is_established W \<and> socket_alive W"

definition enqueue_msg :: "bytes \<Rightarrow> ('w, unit) sync_eff" where
  "enqueue_msg msg = bindE (look_world socket_alive) (\<lambda>alive. whenE alive (change_world (\<lambda>W. W\<lparr>sent_msgs := sent_msgs W @ [msg]\<rparr>)))"

subsection \<open>Pings\<close>

text \<open>A keep-alive message carries a nonce; the builder of its payload does not write 0, and raises its own exception for a value out of range.\<close>

definition keep_alive_message :: "bytes \<Rightarrow> int \<Rightarrow> bytes res" where
  "keep_alive_message msg_type nonce =
     bindR (if nonce = 0 then Inr (zeros (HEADER_LENGTH + 9))
            else (case pack_uint 8 nonce (zeros (HEADER_LENGTH + 9), HEADER_LENGTH) of
                Inr (buf, _) \<Rightarrow> Inr buf
              | Inl _ \<Rightarrow> Inl (Raised ''Exception''))) (bloxroute_message msg_type 9)"

definition keep_alive_nonce :: "bytes \<Rightarrow> int res" where
  "keep_alive_nonce buf =
     (if HEADER_LENGTH + 8 \<le> length buf then bindR (unpack_uint 8 buf HEADER_LENGTH) (\<lambda>(n, _). Inr n) else Inr 0)"

definition NONCE_FACTOR :: int where
  "NONCE_FACTOR = 10 ^ 6"

definition get_nonce :: "'w clock \<Rightarrow> ('w, int) sync_eff" where
  "get_nonce tick = bindE (conn_now tick) (\<lambda>t. returnE (fl_trunc (fmul t (fl_int NONCE_FACTOR))))"

definition ping_message :: "'w clock \<Rightarrow> 'w sync_callback \<Rightarrow> ('w, bytes \<times> int) sync_eff" where
  "ping_message tick call =
     bindE (get_nonce tick) (\<lambda>nonce.
     bindE (conn_now tick) (\<lambda>t.
     thenE (on_pings (ed_add (sync_clock tick) call CleanPings NoArgs nonce t))
       (bindE (liftR (keep_alive_message (ascii ''ping'') nonce)) (\<lambda>msg. returnE (msg, nonce)))))"

definition check_ping_latency_for_network :: "'w clock \<Rightarrow> 'w sync_callback \<Rightarrow> int \<Rightarrow> ('w, unit) sync_eff" where
  "check_ping_latency_for_network tick call net =
     bindE (ping_message tick call) (\<lambda>(msg, _).
     thenE (enqueue_msg msg)
    (bindE (liftR (keep_alive_nonce msg)) (\<lambda>nonce.
       change_world (\<lambda>W. W\<lparr>nonce_network := dput nonce net (nonce_network W), ping_latencies := dput net None (ping_latencies W)\<rparr>))))"

text \<open>The part of \<open>msg_pong\<close> that concerns the synchronisation.\<close>

definition msg_pong :: "'w clock \<Rightarrow> bytes \<Rightarrow> ('w, unit) sync_eff" where
  "msg_pong tick msg =
     bindE (liftR (keep_alive_nonce msg)) (\<lambda>nonce.
     bindE (look_world (\<lambda>W. dget (ed_contents (ping_times W)) nonce)) (\<lambda>sent. case sent of
         None \<Rightarrow> returnE ()
       | Some request_time \<Rightarrow>
           bindE (conn_now tick) (\<lambda>t.
           bindE (look_world (\<lambda>W. dget (nonce_network W) nonce)) (\<lambda>known. case known of
               None \<Rightarrow> returnE ()
             | Some net \<Rightarrow> change_world (\<lambda>W. W\<lparr>ping_latencies := dput net (Some (fsub t request_time)) (ping_latencies W)\<rparr>)))))"

definition update_tx_sync_complete :: "int \<Rightarrow> 'w sync_world \<Rightarrow> 'w sync_world" where
  "update_tx_sync_complete net W =
     W\<lparr>ping_latencies := ddel net (ping_latencies W), nonce_network := filter (\<lambda>(_, n). n \<noteq> net) (nonce_network W)\<rparr>"

section \<open>The sender\<close>

definition TX_SERVICE_SYNC_TXS_S :: pyfloat where
  "TX_SERVICE_SYNC_TXS_S = rnd (1 / 100)"

definition SENDING_TX_MSGS_TIMEOUT_S :: pyfloat where
  "SENDING_TX_MSGS_TIMEOUT_S = 900"

definition send_tx_service_sync_complete :: "int \<Rightarrow> ('w, unit) sync_eff" where
  "send_tx_service_sync_complete net =
     thenE (change_world (update_tx_sync_complete net))
       (bindE (liftR (TxServiceSyncCompleteMessage (Some net))) enqueue_msg)"

definition send_tx_service_sync_blocks_short_ids :: "int \<Rightarrow> ('w, unit) sync_eff" where
  "send_tx_service_sync_blocks_short_ids net =
     bindE (look_world (\<lambda>W. map (\<lambda>(h, sids). \<lparr>bs_hash = h, bs_short_ids = sids\<rparr>) (seen_in_block (tx_services W net)))) (\<lambda>bs.
     bindE (liftR (TxServiceSyncBlocksShortIdsMessage net bs)) enqueue_msg)"

text \<open>Every sender starts in the same way: it forgets the alarm that has fired, and gives up when the connection is
  closed or the time is over. A network without an entry has the latency 0; \<open>None\<close> stands for a pong that has not come yet.\<close>

definition sync_latency :: "int \<Rightarrow> 'w sync_world \<Rightarrow> pyfloat option" where
  "sync_latency net W = (case dget (ping_latencies W) net of None \<Rightarrow> Some 0 | Some l \<Rightarrow> l)"

definition start_sync :: "'w clock \<Rightarrow> int \<Rightarrow> pyfloat \<Rightarrow> (pyfloat \<Rightarrow> pyfloat option \<Rightarrow> ('w, unit) sync_eff) \<Rightarrow> ('w, unit) sync_eff" where
  "start_sync tick net started continue =
     bindE (look_world conn_is_active) (\<lambda>active.
     if \<not> active then send_tx_service_sync_complete net
     else
       bindE (if started = 0 then conn_now tick else returnE started) (\<lambda>started.
       bindE (look_world (sync_latency net)) (\<lambda>latency.
       bindE (conn_now tick) (\<lambda>t.
         if fsub t started < SENDING_TX_MSGS_TIMEOUT_S then continue started latency else send_tx_service_sync_complete net))))"

definition next_interval :: "pyfloat option \<Rightarrow> pyfloat" where
  "next_interval latency = (case latency of None \<Rightarrow> TX_SERVICE_SYNC_TXS_S | Some l \<Rightarrow> max (fmul l (1 / 2)) TX_SERVICE_SYNC_TXS_S)"

definition resume_later :: "'w clock \<Rightarrow> 'w sync_callback \<Rightarrow> int \<Rightarrow> pyfloat option \<Rightarrow> sync_fn \<Rightarrow> sync_args \<Rightarrow> ('w, unit) sync_eff" where
  "resume_later tick call net latency fn args =
     bindE (register_alarm (sync_clock tick) call (next_interval latency) fn args False) (\<lambda>r.
       change_world (\<lambda>W. W\<lparr>sync_alarms := dput net r (sync_alarms W)\<rparr>))"

definition forget_alarm :: "int \<Rightarrow> ('w, unit) sync_eff" where
  "forget_alarm net = change_world (\<lambda>W. W\<lparr>sync_alarms := ddel net (sync_alarms W)\<rparr>)"

text \<open>A message of transactions, the ping behind it, and how long both took.\<close>

definition send_sync_msg :: "'w clock \<Rightarrow> 'w sync_callback \<Rightarrow> int \<Rightarrow> pyfloat \<Rightarrow> ('w, bytes \<times> 'r) sync_eff \<Rightarrow> ('w, 'r \<times> pyfloat) sync_eff" where
  "send_sync_msg tick call net duration build =
     bindE (conn_now tick) (\<lambda>start.
     bindE build (\<lambda>(msg, x).
     thenE (enqueue_msg msg)
    (thenE (check_ping_latency_for_network tick call net)
    (bindE (conn_now tick) (\<lambda>t. returnE (x, fadd duration (fsub t start)))))))"

definition need_conn :: "('w, unit) sync_eff" where
  \<comment> \<open>\<open>self.conn\<close> is \<open>None\<close> after \<open>dispose\<close>\<close>
  "need_conn = bindE (look_world disposed) (\<lambda>d. liftR (guardR (\<not> d) AttributeError))"

definition send_tx_service_sync_txs ::
    "'w clock \<Rightarrow> 'w sync_callback \<Rightarrow> int \<Rightarrow> bytes list \<Rightarrow> bool \<Rightarrow> pyfloat \<Rightarrow> nat \<Rightarrow> nat \<Rightarrow> pyfloat \<Rightarrow> ('w, unit) sync_eff" where
  "send_tx_service_sync_txs tick call net snap content duration msgs total_txs started =
     thenE (forget_alarm net) (thenE need_conn
    (start_sync tick net started (\<lambda>started latency.
       bindE (if snap \<noteq> [] \<and> latency \<noteq> None then
                bindE (send_sync_msg tick call net duration
                    (bindE (on_service net (create_txs_service_msg tick snap content)) (\<lambda>(items, rest).
                     bindE (liftR (TxServiceSyncTxsMessage net items)) (\<lambda>msg. returnE (msg, items, rest))))) (\<lambda>((items, rest), duration).
                  returnE (rest, duration, msgs + 1, total_txs + length items))
              else returnE (snap, duration, msgs, total_txs)) (\<lambda>(snap, duration, msgs, total_txs).
         if snap \<noteq> [] then resume_later tick call net latency SendTxs (TxsArgs net snap content duration msgs total_txs started)
         else send_tx_service_sync_complete net))))"

definition send_tx_service_sync_txs_from_time ::
    "'w clock \<Rightarrow> 'w sync_callback \<Rightarrow> int \<Rightarrow> bool \<Rightarrow> pyfloat \<Rightarrow> nat \<Rightarrow> nat \<Rightarrow> pyfloat \<Rightarrow> pyfloat \<Rightarrow> string set option \<Rightarrow> ('w, unit) sync_eff" where
  "send_tx_service_sync_txs_from_time tick call net content duration msgs total_txs started start_time keys =
     thenE (forget_alarm net) (thenE need_conn
    (start_sync tick net started (\<lambda>started latency.
       bindE (if latency \<noteq> None then
                bindE (send_sync_msg tick call net duration
                    (bindE (on_service net (create_txs_service_msg_from_time tick start_time content (case keys of None \<Rightarrow> {} | Some k \<Rightarrow> k)))
                       (\<lambda>(items, last_timestamp, done, keys).
                     bindE (liftR (TxServiceSyncTxsMessage net items)) (\<lambda>msg. returnE (msg, items, last_timestamp, done, keys)))))
                  (\<lambda>((items, last_timestamp, done, keys), duration).
                  returnE (last_timestamp, done, Some keys, duration, msgs + 1, total_txs + length items))
              else returnE (start_time, False, keys, duration, msgs, total_txs)) (\<lambda>(last_timestamp, done, keys, duration, msgs, total_txs).
         if \<not> done
         then resume_later tick call net latency SendFromTime (TimeArgs net content duration msgs total_txs started last_timestamp keys)
         else send_tx_service_sync_complete net))))"

definition send_tx_service_sync_txs_from_buffer ::
    "'w clock \<Rightarrow> 'w sync_callback \<Rightarrow> int \<Rightarrow> bytes \<Rightarrow> pyfloat \<Rightarrow> nat \<Rightarrow> int \<Rightarrow> pyfloat \<Rightarrow> nat \<Rightarrow> ('w, unit) sync_eff" where
  "send_tx_service_sync_txs_from_buffer tick call net txs_buffer duration msgs total_txs started start_offset =
     thenE (forget_alarm net) (bindE (look_world disposed) (\<lambda>gone. if gone then returnE () else
       start_sync tick net started (\<lambda>started latency.
       bindE (if latency \<noteq> None then
                bindE (send_sync_msg tick call net duration
                    (\<lambda>q. case create_txs_service_msg_from_buffer tick net txs_buffer start_offset (sync_rest (aq_world q)) of
                       (r, w) \<Rightarrow> (bindR r (\<lambda>(msg, n, end_offset, done). Inr (msg, n, end_offset, done)), q\<lparr>aq_world := (aq_world q)\<lparr>sync_rest := w\<rparr>\<rparr>)))
                  (\<lambda>((n, end_offset, done), duration). returnE (end_offset, done, duration, msgs + 1, total_txs + n))
              else returnE (start_offset, False, duration, msgs, total_txs)) (\<lambda>(end_offset, done, duration, msgs, total_txs).
         if \<not> done
         then resume_later tick call net latency SendFromBuffer (BufferArgs net txs_buffer duration msgs total_txs started end_offset)
         else send_tx_service_sync_complete net))))"

text \<open>What the alarms call; the senders are not scheduled again by what they return.\<close>

definition sync_call :: "'w clock \<Rightarrow> 'w sync_callback \<Rightarrow> 'w sync_callback" where
  "sync_call tick call fn args = (case (fn, args) of
       (SendTxs, TxsArgs net snap content duration msgs total_txs started) \<Rightarrow>
         thenE (send_tx_service_sync_txs tick call net snap content duration msgs total_txs started) (returnE None)
     | (SendFromTime, TimeArgs net content duration msgs total_txs started start_time keys) \<Rightarrow>
         thenE (send_tx_service_sync_txs_from_time tick call net content duration msgs total_txs started start_time keys) (returnE None)
     | (SendFromBuffer, BufferArgs net txs_buffer duration msgs total_txs started start_offset) \<Rightarrow>
         thenE (send_tx_service_sync_txs_from_buffer tick call net txs_buffer duration msgs total_txs started start_offset) (returnE None)
     | (CleanPings, _) \<Rightarrow>
         bindE (conn_now tick) (\<lambda>t. on_pings (on_fst (ed_cleanup t)))
     | _ \<Rightarrow> raiseE TypeError)"

end
