(* ===== verification/SyncRun.thy ===== *)
theory SyncRun
  imports SyncSend
begin

text \<open>
  What a round of the sender does, and what the rounds of one synchronisation do together: every transaction of the snapshot is sent
  once, in order, and the message of completion comes last.
\<close>

section \<open>Running the parts of a round\<close>

lemma conn_now_apply [py_simps]:
  "conn_now tick q = (Inr (fst (tick (sync_rest (aq_world q)))), q\<lparr>aq_world := (aq_world q)\<lparr>sync_rest := snd (tick (sync_rest (aq_world q)))\<rparr>\<rparr>)"
  by (simp add: conn_now_def time_now_def sync_clock_def split: prod.splits)

lemma look_world_apply [py_simps]: "look_world f q = (Inr (f (aq_world q)), q)"
  by (simp add: look_world_def eff_apply)

lemma change_world_apply [py_simps]: "change_world f q = (Inr (), q\<lparr>aq_world := f (aq_world q)\<rparr>)"
  by (simp add: change_world_def eff_apply)

lemma on_service_apply [py_simps]:
  "on_service net m q = (case m (tx_services (aq_world q) net, sync_rest (aq_world q)) of
     (r, s, w) \<Rightarrow> (r, q\<lparr>aq_world := (aq_world q)\<lparr>tx_services := (tx_services (aq_world q))(net := s), sync_rest := w\<rparr>\<rparr>))"
  by (simp add: on_service_def Let_def)

lemma same_services: "W\<lparr>tx_services := (tx_services W)(net := tx_services W net), sync_rest := w\<rparr> = W\<lparr>sync_rest := w\<rparr>"
  by (cases W) simp

text \<open>A step that only reads the clock, keeps pings or registers alarms.\<close>

definition quiet :: "'w sync_node \<Rightarrow> 'w sync_node \<Rightarrow> bool" where
  "quiet q q' \<longleftrightarrow> (\<exists>w d. aq_world q' = (aq_world q)\<lparr>sync_rest := w, ping_times := d\<rparr> \<and> ed_time d = ed_time (ping_times (aq_world q))) \<and>
     (\<exists>ids. aq_ids q' = aq_ids q @ ids)"

lemma quietI:
  "aq_world q' = (aq_world q)\<lparr>sync_rest := w, ping_times := d\<rparr> \<Longrightarrow> ed_time d = ed_time (ping_times (aq_world q)) \<Longrightarrow>
    aq_ids q' = aq_ids q @ ids \<Longrightarrow> quiet q q'"
  unfolding quiet_def by blast

lemma quietE:
  assumes "quiet q q'"
  obtains w d ids where "aq_world q' = (aq_world q)\<lparr>sync_rest := w, ping_times := d\<rparr>" "ed_time d = ed_time (ping_times (aq_world q))"
    "aq_ids q' = aq_ids q @ ids"
  using assms unfolding quiet_def by blast

lemma quiet_refl: "quiet q q"
  by (auto simp: quiet_def intro!: exI [of _ "sync_rest (aq_world q)"] exI [of _ "ping_times (aq_world q)"])

lemma quiet_trans: "quiet q q' \<Longrightarrow> quiet q' q'' \<Longrightarrow> quiet q q''"
  unfolding quiet_def by force

lemma quiet_now: "quiet q (snd (conn_now tick q))"
  by (auto simp: quiet_def conn_now_apply intro!: exI [of _ "ping_times (aq_world q)"])

lemma register_alarm_run:
  assumes "0 \<le> delay"
  shows "\<exists>q'. register_alarm (sync_clock tick) call delay fn args False q = (Inr (length (aq_ids q)), q') \<and> quiet q q' \<and>
    length (aq_ids q) < length (aq_ids q') \<and> al_fn (aq_ids q' ! length (aq_ids q)) = fn \<and> al_args (aq_ids q' ! length (aq_ids q)) = args"
proof -
  let ?r = "register_alarm (sync_clock tick) call delay fn args False q"
  have "fst ?r = Inr (length (aq_ids q))"
    using assms by (simp add: register_alarm_def bindE_apply eff_apply guardR_def time_now_def new_id_def push_alarm_def split: prod.splits)
  moreover have "\<exists>w i. aq_world (snd ?r) = (aq_world q)\<lparr>sync_rest := w\<rparr> \<and> aq_ids (snd ?r) = aq_ids q @ [i] \<and> al_fn i = fn \<and> al_args i = args"
    using assms by (auto simp: register_alarm_def bindE_apply eff_apply guardR_def time_now_def new_id_def push_alarm_def sync_clock_def split: prod.splits)
  ultimately show ?thesis
    by (intro exI [of _ "snd ?r"]) (auto simp: quiet_def prod_eq_iff intro!: exI [of _ "ping_times (aq_world q)"])
qed

lemma register_approx_run:
  assumes "0 \<le> delay" "0 \<le> slop"
  shows "\<exists>q'. register_approx_alarm (sync_clock tick) call delay slop fn args q = (Inr (), q') \<and> quiet q q'"
proof (cases "dget (approx_scheduled q) fn")
  case None
  obtain q' where "register_alarm (sync_clock tick) call delay fn args False q = (Inr (length (aq_ids q)), q')" "quiet q q'"
    using register_alarm_run [OF assms(1)] by blast
  with None assms show ?thesis
    by (auto simp: register_approx_alarm_def bindE_apply eff_apply guardR_def push_approx_def quiet_def)
next
  case (Some heap)
  define q1 where "q1 = snd (conn_now tick q)"
  obtain t where t: "time_now (sync_clock tick) q = (Inr t, q1)" by (simp add: q1_def flip: conn_now_def) (simp add: conn_now_apply)
  have q1: "quiet q q1" by (simp add: q1_def quiet_now)
  define found where "found = (\<exists>r \<in> set heap. fsub (fadd delay t) slop \<le> fire_time (aq_ids q1 ! r) \<and> fire_time (aq_ids q1 ! r) \<le> fadd (fadd delay t) slop)"
  obtain q2 where r: "register_alarm (sync_clock tick) call delay fn args False q1 = (Inr (length (aq_ids q1)), q2)" "quiet q1 q2"
    using register_alarm_run [OF assms(1)] by blast
  have "register_approx_alarm (sync_clock tick) call delay slop fn args q =
      (if found then (Inr (), q1) else push_approx fn heap (length (aq_ids q1)) q2)"
    using Some assms t r(1) by (auto simp: register_approx_alarm_def bindE_apply eff_apply guardR_def Let_def found_def)
  moreover have "\<exists>q3. push_approx fn heap r q2 = (Inr (), q3) \<and> quiet q1 q3" for r
    using r(2) by (auto simp: push_approx_def eff_apply quiet_def)
  ultimately show ?thesis using q1 quiet_trans [OF q1] by (cases found) auto
qed


subsection \<open>A ping\<close>

definition clock_sane :: "'w clock \<Rightarrow> bool" where
  "clock_sane tick \<longleftrightarrow> (\<forall>w. 0 \<le> fst (tick w) \<and> fst (tick w) \<le> 2 ^ 40)"

definition nonce_ok :: "int \<Rightarrow> bool" where
  "nonce_ok n \<longleftrightarrow> 0 \<le> n \<and> n < 256 ^ 8"

definition ping_frame :: "int \<Rightarrow> bytes" where
  "ping_frame n = frame (pad12 (ascii ''ping'')) (nat_le 8 (nat n) @ [VALID])"

lemma rnd_bound: "rnd (2 ^ 60) = 2 ^ 60" "fl_int NONCE_FACTOR = 10 ^ 6"
  by code_simp+

lemma nonce_range:
  assumes "0 \<le> t" "t \<le> 2 ^ 40"
  shows "nonce_ok (fl_trunc (fmul t (fl_int NONCE_FACTOR)))"
proof -
  have f: "fmul t (fl_int NONCE_FACTOR) = rnd (t * 10 ^ 6)" by (simp only: fmul_def rnd_bound)
  have "t * 10 ^ 6 \<le> 2 ^ 40 * 10 ^ 6" using assms(2) by simp
  then have "t * 10 ^ 6 \<le> 2 ^ 60" by simp
  then have "rnd (t * 10 ^ 6) \<le> 2 ^ 60" using rnd_mono [of "t * 10 ^ 6" "2 ^ 60"] rnd_bound(1) by simp
  moreover have "0 \<le> rnd (t * 10 ^ 6)" using rnd_mono [of 0 "t * 10 ^ 6"] assms(1) rnd_0 by simp
  ultimately show ?thesis by (auto simp: f nonce_ok_def fl_trunc_def floor_less_iff)
qed

lemma keep_alive_run:
  assumes "nonce_ok n"
  shows "keep_alive_message cmd n = Inr (frame (pad12 cmd) (nat_le 8 (nat n) @ [VALID]))"
proof -
  have "bloxroute_message cmd (int 9) (zeros HEADER_LENGTH @ nat_le 8 (nat n) @ [0]) = Inr (frame (pad12 cmd) (nat_le 8 (nat n) @ [0 OR VALID]))"
    by (rule bloxroute_message_run) simp_all
  moreover have "pack_uint 8 n (zeros HEADER_LENGTH @ zeros 9, HEADER_LENGTH) = Inr (zeros HEADER_LENGTH @ nat_le 8 (nat n) @ [0], HEADER_LENGTH + 8)"
    using field_codec.write_enc [OF uint_field [of 8], of n "zeros 9" "zeros HEADER_LENGTH"] assms by (simp add: nonce_ok_def zeros_def)
  moreover have "zeros (HEADER_LENGTH + 9) = zeros HEADER_LENGTH @ zeros 9" by (rule zeros_add)
  moreover have "zeros 9 = nat_le 8 (nat 0) @ [0]" using zeros_add [of 8 1] by (simp add: nat_le_0) (simp add: zeros_def)
  ultimately show ?thesis by (cases "n = 0") (simp_all add: keep_alive_message_def VALID_def)
qed

lemma keep_alive_nonce_run:
  assumes "nonce_ok n"
  shows "keep_alive_nonce (ping_frame n) = Inr n"
  using field_codec.read_message [OF uint_field [of 8], of n "pad12 (ascii ''ping'')" "[VALID]"] assms
  by (simp add: keep_alive_nonce_def ping_frame_def nonce_ok_def frame_def HEADER_LENGTH_def)

lemma on_pings_apply [py_simps]:
  "on_pings m q = (case m (ping_times (aq_world q), q) of (r, d, q') \<Rightarrow> (r, q'\<lparr>aq_world := (aq_world q')\<lparr>ping_times := d\<rparr>\<rparr>))"
  by (simp add: on_pings_def)

lemma ping_run:
  assumes "clock_sane tick" "0 \<le> ed_time (ping_times (aq_world q))"
  shows "\<exists>n q'. ping_message tick call q = (Inr (ping_frame n, n), q') \<and> nonce_ok n \<and> quiet q q'"
proof -
  define W where "W = aq_world q"
  define n where "n = fl_trunc (fmul (fst (tick (sync_rest W))) (fl_int NONCE_FACTOR))"
  have n: "nonce_ok n" unfolding n_def by (rule nonce_range) (use assms(1) in \<open>simp_all add: clock_sane_def\<close>)
  define q1 where "q1 = snd (conn_now tick q)"
  define q2 where "q2 = snd (conn_now tick q1)"
  define q3 where "q3 = snd (conn_now tick q2)"
  have q3: "quiet q q3" unfolding q3_def q2_def q1_def by (meson quiet_now quiet_trans)
  let ?t = "ed_time (ping_times W)"
  have "0 \<le> fl_int (?t * 2)" "0 \<le> fl_int ?t" using assms(2) by (simp_all add: fl_int_nonneg W_def)
  from register_approx_run [OF this, of tick call CleanPings NoArgs q3]
  obtain q4 where q4: "register_approx_alarm (sync_clock tick) call (fl_int (?t * 2)) (fl_int ?t) CleanPings NoArgs q3 = (Inr (), q4)" "quiet q3 q4" by blast
  define t where "t = fst (tick (sync_rest (aq_world q1)))"
  define d where "d = (ping_times W)\<lparr>ed_contents := dput n t (ed_contents (ping_times W)),
      ed_queue := eq_add (fst (tick (sync_rest (aq_world q2)))) n (ed_queue (ping_times W))\<rparr>"
  have add: "on_pings (ed_add (sync_clock tick) call CleanPings NoArgs n t) q2 = (Inr (), q4\<lparr>aq_world := (aq_world q4)\<lparr>ping_times := d\<rparr>\<rparr>)"
    using q4(1) by (simp add: on_pings_apply ed_add_def bindE_apply eff_apply on_fst_apply on_snd_apply d_def q3_def q2_def q1_def conn_now_apply W_def
        flip: conn_now_def)
  have "get_nonce tick q = (Inr n, q1)" "conn_now tick q1 = (Inr t, q2)"
    by (simp_all add: get_nonce_def bindE_apply eff_apply conn_now_apply n_def q1_def q2_def t_def W_def)
  then have "ping_message tick call q = (Inr (ping_frame n, n), q4\<lparr>aq_world := (aq_world q4)\<lparr>ping_times := d\<rparr>\<rparr>)"
    using add keep_alive_run [OF n, of "ascii ''ping''"] by (simp add: ping_message_def bindE_apply eff_apply ping_frame_def)
  moreover have "quiet q (q4\<lparr>aq_world := (aq_world q4)\<lparr>ping_times := d\<rparr>\<rparr>)"
  proof -
    have "ed_time d = ed_time (ping_times (aq_world q))" by (simp add: d_def W_def)
    moreover obtain w d' ids where "aq_world q4 = (aq_world q)\<lparr>sync_rest := w, ping_times := d'\<rparr>" "aq_ids q4 = aq_ids q @ ids"
      using quiet_trans [OF q3 q4(2)] by (rule quietE)
    ultimately show ?thesis by (intro quietI [where w = w and d = d and ids = ids]) simp_all
  qed
  ultimately show ?thesis using n by blast
qed

definition after_ping :: "int \<Rightarrow> int \<Rightarrow> 'w sync_world \<Rightarrow> 'w sync_world" where
  "after_ping net n W = W\<lparr>sent_msgs := (if socket_alive W then sent_msgs W @ [ping_frame n] else sent_msgs W),
     nonce_network := dput n net (nonce_network W), ping_latencies := dput net None (ping_latencies W)\<rparr>"

lemma check_ping_run:
  assumes "clock_sane tick" "0 \<le> ed_time (ping_times (aq_world q))"
  shows "\<exists>n q'. check_ping_latency_for_network tick call net q = (Inr (), q'\<lparr>aq_world := after_ping net n (aq_world q')\<rparr>) \<and>
    nonce_ok n \<and> quiet q q'"
proof -
  obtain n q' where "ping_message tick call q = (Inr (ping_frame n, n), q')" "nonce_ok n" "quiet q q'" using ping_run [OF assms] by blast
  then show ?thesis
    by (intro exI [of _ n] exI [of _ q'])
      (auto simp: check_ping_latency_for_network_def bindE_apply eff_apply enqueue_msg_def look_world_apply change_world_apply whenE_apply keep_alive_nonce_run after_ping_def)
qed


subsection \<open>The end of a round\<close>

definition complete_frame :: "int \<Rightarrow> bytes" where
  "complete_frame net = frame (pad12 (ascii ''txdone'')) (nat_le 4 (nat net) @ [VALID])"

definition completed :: "int \<Rightarrow> 'w sync_world \<Rightarrow> 'w sync_world" where
  "completed net W = (update_tx_sync_complete net W)\<lparr>sent_msgs := (if socket_alive W then sent_msgs W @ [complete_frame net] else sent_msgs W)\<rparr>"

lemma send_complete_run:
  assumes "net_ok net"
  shows "send_tx_service_sync_complete net q = (Inr (), q\<lparr>aq_world := completed net (aq_world q)\<rparr>)"
proof -
  have "TxServiceSyncCompleteMessage (Some net) = Inr (complete_frame net)"
    using field_codec.new_message_run [OF uint_field [of 4], of net 4 "ascii ''txdone''"] assms
    by (simp add: TxServiceSyncCompleteMessage_def complete_frame_def net_ok_def)
  then show ?thesis
    by (simp add: send_tx_service_sync_complete_def bindE_apply eff_apply change_world_apply enqueue_msg_def look_world_apply whenE_apply completed_def
        update_tx_sync_complete_def)
qed

lemma resume_run:
  "\<exists>q'. resume_later tick call net latency fn args q =
      (Inr (), q'\<lparr>aq_world := (aq_world q')\<lparr>sync_alarms := dput net (length (aq_ids q)) (sync_alarms (aq_world q'))\<rparr>\<rparr>) \<and>
    quiet q q' \<and> al_fn (aq_ids q' ! length (aq_ids q)) = fn \<and> al_args (aq_ids q' ! length (aq_ids q)) = args"
proof -
  have "0 \<le> TX_SERVICE_SYNC_TXS_S" by code_simp
  then have "0 \<le> next_interval latency" by (cases latency) (auto simp: next_interval_def le_max_iff_disj)
  from register_alarm_run [OF this, of tick call fn args q] show ?thesis
    by (auto simp: resume_later_def bindE_apply change_world_apply)
qed


section \<open>A round\<close>

definition sendable :: "tx_service \<Rightarrow> bool \<Rightarrow> bytes list \<Rightarrow> bool" where
  "sendable s content snap \<longleftrightarrow> list_all (\<lambda>h. tx_content_length (snapped s content h) \<le> 2 ^ 31 \<and>
     (carried (snapped s content h) \<longrightarrow> tx_ok (snapped s content h))) snap"

definition sender_ready :: "int \<Rightarrow> bool \<Rightarrow> bytes list \<Rightarrow> 'w sync_world \<Rightarrow> bool" where
  "sender_ready net content snap W \<longleftrightarrow> \<not> disposed W \<and> 0 \<le> ed_time (ping_times W) \<and> sendable (tx_services W net) content snap"

definition chunk :: "tx_service \<Rightarrow> bool \<Rightarrow> nat \<Rightarrow> bytes list \<Rightarrow> tx_content_short_ids list" where
  "chunk s content k snap = map (snapped s content) (take k (rev snap))"

definition left_over :: "nat \<Rightarrow> bytes list \<Rightarrow> bytes list" where
  "left_over k snap = rev (drop k (rev snap))"

definition decodes :: "int \<Rightarrow> tx_content_short_ids list \<Rightarrow> bool" where
  "decodes net c \<longleftrightarrow> txs_content_short_ids (sync_txs_frame net c) = Inr (filter carried c @ left_out c)"

lemma build_run:
  assumes "net_ok net" "sendable (tx_services (aq_world q) net) content snap"
  shows "\<exists>k w. bindE (on_service net (create_txs_service_msg tick snap content)) (\<lambda>(items, rest).
        bindE (liftR (TxServiceSyncTxsMessage net items)) (\<lambda>msg. returnE (msg, items, rest))) q =
      (Inr (sync_txs_frame net (chunk (tx_services (aq_world q) net) content k snap), chunk (tx_services (aq_world q) net) content k snap, left_over k snap),
       q\<lparr>aq_world := (aq_world q)\<lparr>sync_rest := w\<rparr>\<rparr>) \<and>
    k \<le> length snap \<and> (snap \<noteq> [] \<longrightarrow> 0 < k) \<and> decodes net (chunk (tx_services (aq_world q) net) content k snap)"
proof -
  define s where "s = tx_services (aq_world q) net"
  have "list_all (\<lambda>h. int (tx_content_length (snapped s content h)) \<le> 2 ^ 31) snap"
  proof -
    have "int x \<le> 2 ^ 31" if "x \<le> 2 ^ 31" for x :: nat using that by simp
    then show ?thesis using assms(2) by (simp add: sendable_def list_all_iff s_def)
  qed
  from create_txs_service_msg_run [OF this, of tick "sync_rest (aq_world q)"] obtain k w where
    k: "create_txs_service_msg tick snap content (s, sync_rest (aq_world q)) = (Inr (chunk s content k snap, left_over k snap), s, w)"
      "k \<le> length snap" "snap \<noteq> [] \<longrightarrow> 0 < k" "int (txs_content_length (chunk s content k snap)) \<le> TXS_MSG_SIZE + 2 ^ 31"
    by (auto simp: chunk_def left_over_def)
  have "list_all tx_ok (filter carried (chunk s content k snap))"
    using assms(2) by (auto simp: sendable_def list_all_iff chunk_def s_def dest: in_set_takeD)
  moreover have "txs_content_length (chunk s content k snap) + 9 < 256 ^ 4" using k(4) by (simp add: TXS_MSG_SIZE_def)
  ultimately have "TxServiceSyncTxsMessage net (chunk s content k snap) = Inr (sync_txs_frame net (chunk s content k snap))"
    "decodes net (chunk s content k snap)"
    using sync_txs_run(1,2) [OF assms(1)] unfolding decodes_def by blast+
  with k show ?thesis
    by (intro exI [of _ k] exI [of _ w]) (simp add: bindE_apply eff_apply on_service_apply same_services s_def del: fun_upd_triv)
qed


definition waits_for :: "int \<Rightarrow> bytes list \<Rightarrow> bool \<Rightarrow> 'w sync_node \<Rightarrow> bool" where
  "waits_for net snap content q \<longleftrightarrow> (\<exists>r duration msgs n started. dget (sync_alarms (aq_world q)) net = Some r \<and>
     al_fn (aq_ids q ! r) = SendTxs \<and> al_args (aq_ids q ! r) = TxsArgs net snap content duration msgs n started)"

definition sent_after :: "int \<Rightarrow> tx_content_short_ids list \<Rightarrow> int \<Rightarrow> 'w sync_world \<Rightarrow> 'w sync_world \<Rightarrow> bool" where
  "sent_after net items n W W' \<longleftrightarrow> (\<exists>w d. W' = W\<lparr>sent_msgs := sent_msgs W @ [sync_txs_frame net items, ping_frame n],
     nonce_network := dput n net (nonce_network W), ping_latencies := dput net None (ping_latencies W), ping_times := d, sync_rest := w\<rparr>)"

lemma send_run:
  assumes "clock_sane tick" "net_ok net" "sender_ready net content snap (aq_world q)" "socket_alive (aq_world q)" "snap \<noteq> []"
  defines "s \<equiv> tx_services (aq_world q) net"
  shows "\<exists>k n t q'. send_sync_msg tick call net duration
        (bindE (on_service net (create_txs_service_msg tick snap content)) (\<lambda>(items, rest).
         bindE (liftR (TxServiceSyncTxsMessage net items)) (\<lambda>msg. returnE (msg, items, rest)))) q =
      (Inr ((chunk s content k snap, left_over k snap), t), q') \<and> 0 < k \<and> k \<le> length snap \<and>
    decodes net (chunk s content k snap) \<and> sent_after net (chunk s content k snap) n (aq_world q) (aq_world q')"
proof -
  define q1 where "q1 = snd (conn_now tick q)"
  have q1: "conn_now tick q = (Inr (fst (tick (sync_rest (aq_world q)))), q1)" by (simp add: q1_def conn_now_apply)
  have s1: "tx_services (aq_world q1) net = s" by (simp add: q1_def conn_now_apply s_def)
  have "sendable (tx_services (aq_world q1) net) content snap" using assms(3) s1 by (simp add: sender_ready_def s_def)
  from build_run [OF assms(2) this, of tick] obtain k w where k: "k \<le> length snap" "0 < k" "decodes net (chunk s content k snap)" and
    b: "bindE (on_service net (create_txs_service_msg tick snap content)) (\<lambda>(items, rest).
        bindE (liftR (TxServiceSyncTxsMessage net items)) (\<lambda>msg. returnE (msg, items, rest))) q1 =
      (Inr (sync_txs_frame net (chunk s content k snap), chunk s content k snap, left_over k snap), q1\<lparr>aq_world := (aq_world q1)\<lparr>sync_rest := w\<rparr>\<rparr>)"
    using assms(5) s1 by auto
  define q2 where "q2 = q1\<lparr>aq_world := (aq_world q1)\<lparr>sync_rest := w, sent_msgs := sent_msgs (aq_world q1) @ [sync_txs_frame net (chunk s content k snap)]\<rparr>\<rparr>"
  have "0 \<le> ed_time (ping_times (aq_world q2))" using assms(3) by (simp add: q2_def q1_def conn_now_apply sender_ready_def)
  from check_ping_run [OF assms(1) this, of call net] obtain n q3 where
    p: "check_ping_latency_for_network tick call net q2 = (Inr (), q3\<lparr>aq_world := after_ping net n (aq_world q3)\<rparr>)" "quiet q2 q3" by blast
  define q4 where "q4 = q3\<lparr>aq_world := after_ping net n (aq_world q3)\<rparr>"
  have e: "enqueue_msg (sync_txs_frame net (chunk s content k snap)) (q1\<lparr>aq_world := (aq_world q1)\<lparr>sync_rest := w\<rparr>\<rparr>) = (Inr (), q2)"
    using assms(4) by (simp add: enqueue_msg_def bindE_apply look_world_apply whenE_apply change_world_apply q2_def q1_def conn_now_apply)
  obtain t q5 where q5: "conn_now tick q4 = (Inr t, q5)" "q5 = q4\<lparr>aq_world := (aq_world q4)\<lparr>sync_rest := sync_rest (aq_world q5)\<rparr>\<rparr>"
    by (simp add: conn_now_apply)
  have r: "send_sync_msg tick call net duration
        (bindE (on_service net (create_txs_service_msg tick snap content)) (\<lambda>(items, rest).
         bindE (liftR (TxServiceSyncTxsMessage net items)) (\<lambda>msg. returnE (msg, items, rest)))) q =
      (Inr ((chunk s content k snap, left_over k snap), fadd duration (fsub t (fst (tick (sync_rest (aq_world q)))))), q5)"
    unfolding send_sync_msg_def bindE_apply [of "conn_now tick"] q1 using b e p(1) q5(1) by (simp add: bindE_apply eff_apply q4_def)
  obtain w3 d where "aq_world q3 = (aq_world q2)\<lparr>sync_rest := w3, ping_times := d\<rparr>" using p(2) by (rule quietE)
  then have "sent_after net (chunk s content k snap) n (aq_world q) (aq_world q5)"
    unfolding sent_after_def using assms(4) by (intro exI [of _ "sync_rest (aq_world q5)"] exI [of _ d], subst q5(2)) (simp add: q4_def q2_def q1_def conn_now_apply after_ping_def)
  with r k show ?thesis by blast
qed


text \<open>What a round leaves: the messages \<open>ms\<close> were sent, and either an alarm waits for what is left over or the round was the last one.\<close>

definition time_over :: "'w clock \<Rightarrow> pyfloat \<Rightarrow> 'w \<Rightarrow> bool" where
  "time_over tick started w =
     (case (if started = 0 then tick w else (started, w)) of (t0, w1) \<Rightarrow> \<not> fsub (fst (tick w1)) t0 < SENDING_TX_MSGS_TIMEOUT_S)"

definition gives_up :: "'w clock \<Rightarrow> pyfloat \<Rightarrow> 'w sync_world \<Rightarrow> bool" where
  "gives_up tick started W \<longleftrightarrow> \<not> conn_is_active W \<or> time_over tick started (sync_rest W)"

definition round_done :: "bool \<Rightarrow> int \<Rightarrow> bool \<Rightarrow> bytes list \<Rightarrow> nat \<Rightarrow> bytes list \<Rightarrow> 'w sync_node \<Rightarrow> 'w sync_node \<Rightarrow> bool" where
  "round_done give_up net content snap k ms q q' \<longleftrightarrow> k \<le> length snap \<and>
     (if k = 0 then ms = [] \<and> (give_up \<or> snap = [] \<or> sync_latency net (aq_world q) = None) else conn_is_active (aq_world q) \<and> sync_latency net (aq_world q) \<noteq> None \<and>
        decodes net (chunk (tx_services (aq_world q) net) content k snap) \<and>
        (\<exists>n. ms = [sync_txs_frame net (chunk (tx_services (aq_world q) net) content k snap), ping_frame n])) \<and>
     (left_over k snap \<noteq> [] \<and> waits_for net (left_over k snap) content q' \<and> sent_msgs (aq_world q') = sent_msgs (aq_world q) @ ms \<and>
        sync_latency net (aq_world q') = None
      \<or> dget (sync_alarms (aq_world q')) net = None \<and> (k = 0 \<and> give_up \<or> left_over k snap = []) \<and>
        sent_msgs (aq_world q') = sent_msgs (aq_world q) @ ms @ (if socket_alive (aq_world q) then [complete_frame net] else []))"

lemma left_over_0 [simp]: "left_over 0 snap = snap"
  by (simp add: left_over_def)

lemma start_sync_cases:
  obtains "gives_up tick started (aq_world q)" "start_sync tick net started m q = send_tx_service_sync_complete net q"
  | w where "gives_up tick started (aq_world q)" "start_sync tick net started m q = send_tx_service_sync_complete net (q\<lparr>aq_world := (aq_world q)\<lparr>sync_rest := w\<rparr>\<rparr>)"
  | w started' where "conn_is_active (aq_world q)"
    "start_sync tick net started m q = m started' (sync_latency net (aq_world q)) (q\<lparr>aq_world := (aq_world q)\<lparr>sync_rest := w\<rparr>\<rparr>)"
proof (cases "conn_is_active (aq_world q)")
  case False
  then show thesis using that(1) by (simp add: start_sync_def bindE_apply look_world_apply gives_up_def)
next
  case True
  define q1 where "q1 = (if started = 0 then snd (conn_now tick q) else q)"
  obtain st where st: "(if started = 0 then conn_now tick else returnE started) q = (Inr st, q1)"
    by (cases "started = 0") (auto simp: q1_def conn_now_apply eff_apply)
  have l: "sync_latency net (aq_world q1) = sync_latency net (aq_world q)" by (simp add: q1_def conn_now_apply sync_latency_def)
  define w where "w = sync_rest (aq_world (snd (conn_now tick q1)))"
  have n: "snd (conn_now tick q1) = q\<lparr>aq_world := (aq_world q)\<lparr>sync_rest := w\<rparr>\<rparr>" by (simp add: w_def q1_def conn_now_apply)
  have "start_sync tick net started m q =
      (if fsub (fst (tick (sync_rest (aq_world q1)))) st < SENDING_TX_MSGS_TIMEOUT_S then m st (sync_latency net (aq_world q)) (snd (conn_now tick q1))
       else send_tx_service_sync_complete net (snd (conn_now tick q1)))"
    using True st l by (simp add: start_sync_def bindE_apply look_world_apply conn_now_apply)
  moreover have "time_over tick started (sync_rest (aq_world q)) \<longleftrightarrow> \<not> fsub (fst (tick (sync_rest (aq_world q1)))) st < SENDING_TX_MSGS_TIMEOUT_S"
    using st by (cases "started = 0") (auto simp: time_over_def q1_def conn_now_apply eff_apply split: prod.splits)
  ultimately show thesis using that(2,3) True n by (auto simp: gives_up_def split: if_splits)
qed


lemma complete_done:
  assumes "net_ok net" "dget (sync_alarms (aq_world q1)) net = None" "k \<le> length snap" "k = 0 \<and> give_up \<or> left_over k snap = []"
    and "if k = 0 then ms = [] \<and> (give_up \<or> snap = [] \<or> sync_latency net (aq_world q) = None) else conn_is_active (aq_world q) \<and> sync_latency net (aq_world q) \<noteq> None \<and>
        decodes net (chunk (tx_services (aq_world q) net) content k snap) \<and>
        (\<exists>n. ms = [sync_txs_frame net (chunk (tx_services (aq_world q) net) content k snap), ping_frame n])"
    and "sent_msgs (aq_world q1) = sent_msgs (aq_world q) @ ms" "socket_alive (aq_world q1) = socket_alive (aq_world q)"
  shows "\<exists>q'. send_tx_service_sync_complete net q1 = (Inr (), q') \<and> round_done give_up net content snap k ms q q'"
  using assms by (intro exI [of _ "q1\<lparr>aq_world := completed net (aq_world q1)\<rparr>"])
    (auto simp: send_complete_run round_done_def completed_def update_tx_sync_complete_def)

lemma resume_done:
  assumes "k \<le> length snap" "left_over k snap \<noteq> []" "sync_latency net (aq_world q1) = None"
    and "if k = 0 then ms = [] \<and> (give_up \<or> snap = [] \<or> sync_latency net (aq_world q) = None) else conn_is_active (aq_world q) \<and> sync_latency net (aq_world q) \<noteq> None \<and>
        decodes net (chunk (tx_services (aq_world q) net) content k snap) \<and>
        (\<exists>n. ms = [sync_txs_frame net (chunk (tx_services (aq_world q) net) content k snap), ping_frame n])"
    and "sent_msgs (aq_world q1) = sent_msgs (aq_world q) @ ms"
  shows "\<exists>q'. resume_later tick call net latency SendTxs (TxsArgs net (left_over k snap) content duration msgs n started) q1 = (Inr (), q') \<and>
    round_done give_up net content snap k ms q q'"
proof -
  obtain q2 where q2: "resume_later tick call net latency SendTxs (TxsArgs net (left_over k snap) content duration msgs n started) q1 =
      (Inr (), q2\<lparr>aq_world := (aq_world q2)\<lparr>sync_alarms := dput net (length (aq_ids q1)) (sync_alarms (aq_world q2))\<rparr>\<rparr>)"
    "quiet q1 q2" "al_fn (aq_ids q2 ! length (aq_ids q1)) = SendTxs"
    "al_args (aq_ids q2 ! length (aq_ids q1)) = TxsArgs net (left_over k snap) content duration msgs n started"
    using resume_run by blast
  obtain w d where "aq_world q2 = (aq_world q1)\<lparr>sync_rest := w, ping_times := d\<rparr>" using q2(2) by (rule quietE)
  then have "sent_msgs (aq_world q2) = sent_msgs (aq_world q1)" "sync_latency net (aq_world q2) = None"
    using assms(3) by (simp_all add: sync_latency_def)
  with q2 assms show ?thesis
    by (auto simp: round_done_def waits_for_def sync_latency_def)
qed

lemma txs_round:
  assumes "clock_sane tick" "net_ok net" "sender_ready net content snap (aq_world q)"
  shows "\<exists>q' k ms. send_tx_service_sync_txs tick call net snap content duration msgs n started q = (Inr (), q') \<and>
    round_done (gives_up tick started (aq_world q)) net content snap k ms q q'"
proof -
  let ?g = "gives_up tick started (aq_world q)"
  define q0 where "q0 = q\<lparr>aq_world := (aq_world q)\<lparr>sync_alarms := ddel net (sync_alarms (aq_world q))\<rparr>\<rparr>"
  let ?build = "bindE (on_service net (create_txs_service_msg tick snap content)) (\<lambda>(items, rest).
                     bindE (liftR (TxServiceSyncTxsMessage net items)) (\<lambda>msg. returnE (msg, items, rest)))"
  define m where "m = (\<lambda>started latency.
       bindE (if snap \<noteq> [] \<and> latency \<noteq> None then
                bindE (send_sync_msg tick call net duration ?build) (\<lambda>((items, rest), duration).
                  returnE (rest, duration, msgs + 1, n + length items))
              else returnE (snap, duration, msgs, n)) (\<lambda>(snap, duration, msgs, n).
         if snap \<noteq> [] then resume_later tick call net latency SendTxs (TxsArgs net snap content duration msgs n started)
         else send_tx_service_sync_complete net))"
  have run: "send_tx_service_sync_txs tick call net snap content duration msgs n started q = start_sync tick net started m q0"
    using assms(3) by (simp add: send_tx_service_sync_txs_def forget_alarm_def need_conn_def bindE_apply eff_apply look_world_apply change_world_apply guardR_def
        q0_def m_def sender_ready_def)
  have q0: "dget (sync_alarms (aq_world (q0\<lparr>aq_world := (aq_world q0)\<lparr>sync_rest := w\<rparr>\<rparr>))) net = None" for w by (simp add: q0_def)
  have g: "gives_up tick started (aq_world q0) = ?g" by (simp add: q0_def gives_up_def conn_is_active_def)
  show ?thesis
  proof (cases rule: start_sync_cases [of tick started q0 net m])
    case 1
    with complete_done [OF assms(2), of q0 0 snap ?g "[]" q content] g show ?thesis by (simp add: run q0_def) blast
  next
    case (2 w)
    with complete_done [OF assms(2), of "q0\<lparr>aq_world := (aq_world q0)\<lparr>sync_rest := w\<rparr>\<rparr>" 0 snap ?g "[]" q content] g
    show ?thesis by (simp add: run q0_def) blast
  next
    case (3 w started')
    define q1 where "q1 = q0\<lparr>aq_world := (aq_world q0)\<lparr>sync_rest := w\<rparr>\<rparr>"
    define l where "l = sync_latency net (aq_world q)"
    have l0: "sync_latency net (aq_world q0) = l" "sync_latency net (aq_world q1) = l" by (simp_all add: q0_def q1_def l_def sync_latency_def)
    have r: "send_tx_service_sync_txs tick call net snap content duration msgs n started q = m started' l q1"
      using 3(2) by (simp add: run q1_def l0)
    consider "snap = []" | "snap \<noteq> []" "l = None" | "snap \<noteq> []" "l \<noteq> None" by blast
    then show ?thesis
    proof cases
      case 1
      then have "m started' l q1 = send_tx_service_sync_complete net q1" by (simp add: m_def bindE_apply eff_apply)
      moreover obtain q' where "send_tx_service_sync_complete net q1 = (Inr (), q')" "round_done ?g net content snap 0 [] q q'"
        using complete_done [OF assms(2), of q1 0 snap ?g "[]" q content] 1 by (auto simp: q1_def q0_def)
      ultimately show ?thesis using r by auto
    next
      case 2
      then have "m started' l q1 = resume_later tick call net l SendTxs (TxsArgs net snap content duration msgs n started') q1"
        by (simp add: m_def bindE_apply eff_apply)
      moreover have "\<exists>q'. resume_later tick call net l SendTxs (TxsArgs net (left_over 0 snap) content duration msgs n started') q1 = (Inr (), q') \<and>
          round_done ?g net content snap 0 [] q q'"
        by (rule resume_done) (use 2 l0 in \<open>simp_all add: q1_def q0_def flip: l_def\<close>)
      ultimately show ?thesis using r by auto
    next
      case 3
      have rd: "sender_ready net content snap (aq_world q1)" "socket_alive (aq_world q1)"
        using assms(3) \<open>conn_is_active (aq_world q0)\<close> by (simp_all add: q1_def q0_def sender_ready_def conn_is_active_def)
      have s1: "tx_services (aq_world q1) = tx_services (aq_world q)" by (simp add: q1_def q0_def)
      obtain k p t q2 where
        k: "send_sync_msg tick call net duration ?build q1 =
          (Inr ((chunk (tx_services (aq_world q) net) content k snap, left_over k snap), t), q2)" "0 < k" "k \<le> length snap"
          "decodes net (chunk (tx_services (aq_world q) net) content k snap)"
        and q2: "sent_after net (chunk (tx_services (aq_world q) net) content k snap) p (aq_world q1) (aq_world q2)"
        using send_run [OF assms(1,2) rd 3(1), where call = call and duration = duration, unfolded s1] by (elim exE conjE) (rule that)
      define n' where "n' = n + length (chunk (tx_services (aq_world q) net) content k snap)"
      have m: "m started' l q1 = (if left_over k snap \<noteq> []
          then resume_later tick call net l SendTxs (TxsArgs net (left_over k snap) content t (msgs + 1) n' started') q2
          else send_tx_service_sync_complete net q2)"
        using 3 k(1) by (simp add: m_def bindE_apply eff_apply n'_def)
      have w: "dget (sync_alarms (aq_world q2)) net = None" "sync_latency net (aq_world q2) = None"
        "socket_alive (aq_world q2) = socket_alive (aq_world q)"
        "sent_msgs (aq_world q2) = sent_msgs (aq_world q) @ [sync_txs_frame net (chunk (tx_services (aq_world q) net) content k snap), ping_frame p]"
        using q2 by (auto simp: sent_after_def q1_def q0_def sync_latency_def)
      have a: "conn_is_active (aq_world q)" "sync_latency net (aq_world q) \<noteq> None"
        using \<open>conn_is_active (aq_world q0)\<close> 3(2) by (simp_all add: q0_def conn_is_active_def l_def)
      show ?thesis
      proof (cases "left_over k snap = []")
        case True
        from complete_done [OF assms(2) w(1) k(3) disjI2 [OF True] _ w(4,3)] a k(2,4)
        obtain q' where "send_tx_service_sync_complete net q2 = (Inr (), q')" "round_done ?g net content snap k
            [sync_txs_frame net (chunk (tx_services (aq_world q) net) content k snap), ping_frame p] q q'" by auto
        then show ?thesis using r m True by auto
      next
        case False
        from resume_done [OF k(3) False w(2) _ w(4), where content = content and tick = tick and call = call and latency = l and
            duration = t and msgs = "msgs + 1" and n = n' and started = started' and give_up = ?g] a k(2,4)
        obtain q' where "resume_later tick call net l SendTxs (TxsArgs net (left_over k snap) content t (msgs + 1) n' started') q2 = (Inr (), q')"
          "round_done ?g net content snap k [sync_txs_frame net (chunk (tx_services (aq_world q) net) content k snap), ping_frame p] q q'" by auto
        then show ?thesis using r m False by auto
      qed
    qed
  qed
qed


section \<open>All rounds of a synchronisation\<close>

text \<open>The rounds that the alarms of one synchronisation run, with the messages they send; between two of them the node may
  do anything, as long as the connection is not disposed of and its transactions can be sent. The last component says whether the
  synchronisation has ended, and then whether it was given up.\<close>

inductive sync_rounds ::
    "'w clock \<Rightarrow> 'w sync_callback \<Rightarrow> int \<Rightarrow> bool \<Rightarrow> bytes list \<Rightarrow> bytes list \<Rightarrow> bytes list \<Rightarrow> bool option \<Rightarrow> bool"
  for tick call net content snap0 where
  Start: "sync_rounds tick call net content snap0 snap0 [] None"
| Round: "sync_rounds tick call net content snap0 snap ms None \<Longrightarrow> sender_ready net content snap (aq_world q) \<Longrightarrow>
    send_tx_service_sync_txs tick call net snap content duration msgs n started q = (Inr (), q') \<Longrightarrow>
    sent_msgs (aq_world q') = sent_msgs (aq_world q) @ new \<Longrightarrow> waits_for net snap' content q' \<Longrightarrow>
    sync_rounds tick call net content snap0 snap' (ms @ new) None"
| Last: "sync_rounds tick call net content snap0 snap ms None \<Longrightarrow> sender_ready net content snap (aq_world q) \<Longrightarrow>
    send_tx_service_sync_txs tick call net snap content duration msgs n started q = (Inr (), q') \<Longrightarrow>
    sent_msgs (aq_world q') = sent_msgs (aq_world q) @ new \<Longrightarrow> dget (sync_alarms (aq_world q')) net = None \<Longrightarrow> socket_alive (aq_world q) \<Longrightarrow>
    sync_rounds tick call net content snap0 snap (ms @ new) (Some (gives_up tick started (aq_world q)))"

inductive_cases sync_roundsE: "sync_rounds tick call net content snap0 snap ms st"

definition is_txs :: "bytes \<Rightarrow> bool" where
  "is_txs m \<longleftrightarrow> frame_command m = ascii ''txtxs''"

lemma frame_command_frame: "length cmd = 12 \<Longrightarrow> frame_command (frame cmd payload) = rstrip_null cmd"
  by (simp add: frame_command_def frame_def slice_def)

lemma is_txs_frames [simp]:
  "is_txs (sync_txs_frame net items)" "\<not> is_txs (ping_frame n)" "\<not> is_txs (complete_frame net)"
proof -
  have "rstrip_null (pad12 (ascii ''txtxs'')) = ascii ''txtxs''" "rstrip_null (pad12 (ascii ''ping'')) \<noteq> ascii ''txtxs''"
    "rstrip_null (pad12 (ascii ''txdone'')) \<noteq> ascii ''txtxs''"
    by code_simp+
  then show "is_txs (sync_txs_frame net items)" "\<not> is_txs (ping_frame n)" "\<not> is_txs (complete_frame net)"
    by (simp_all add: is_txs_def sync_txs_frame_def count_frame_def ping_frame_def complete_frame_def frame_command_frame)
qed

lemma chunk_hashes: "k \<le> length snap \<Longrightarrow> map tc_hash (chunk s content k snap) @ rev (left_over k snap) = rev snap"
  by (simp add: chunk_def left_over_def comp_def)

lemma round_chunks:
  assumes "round_done give_up net content snap k ms q q'"
  shows "\<exists>c. filter is_txs ms = map (sync_txs_frame net) c \<and> [] \<notin> set c \<and> map tc_hash (concat c) @ rev (left_over k snap) = rev snap \<and>
    list_all (decodes net) c"
proof (cases "k = 0")
  case True
  with assms show ?thesis by (intro exI [of _ "[]"]) (simp add: round_done_def)
next
  case False
  let ?c = "chunk (tx_services (aq_world q) net) content k snap"
  have "filter is_txs ms = [sync_txs_frame net ?c]" "k \<le> length snap" "decodes net ?c" using assms False by (auto simp: round_done_def)
  moreover have "?c \<noteq> []" using False \<open>k \<le> length snap\<close> by (auto simp: chunk_def)
  ultimately show ?thesis using chunk_hashes [of k snap] by (intro exI [of _ "[?c]"]) simp
qed

lemma waits_for_unique: "waits_for net snap content q \<Longrightarrow> waits_for net snap' content q \<Longrightarrow> snap' = snap"
  by (auto simp: waits_for_def)

lemma waits_for_alarm: "waits_for net snap content q \<Longrightarrow> dget (sync_alarms (aq_world q)) net \<noteq> None"
  by (auto simp: waits_for_def)


end
