(* ===== verification/SyncReceive.thy ===== *)
theory SyncReceive
  imports Sync TxRun
begin

text \<open>
  The receiving side of a synchronisation (services/tx_sync_service.py, utils/transaction_short_id_buckets.py): what a node does with a
  message of transactions, and that a service that gets the messages of another one knows its transactions afterwards. The node has
  the service of the network of the messages; logs are left out.
\<close>

section \<open>Counting\<close>

definition TX_SID_INTERVAL :: int where
  "TX_SID_INTERVAL = 10000000"

record bucket_info =
  bi_count :: int
  bi_max :: int

definition incr_short_id :: "int \<Rightarrow> (int, bucket_info) dict \<Rightarrow> (int, bucket_info) dict" where
  "incr_short_id sid buckets =
     (let bucket = sid - sid mod TX_SID_INTERVAL;
          info = (case dget buckets bucket of Some i \<Rightarrow> i | None \<Rightarrow> \<lparr>bi_count = 0, bi_max = 0\<rparr>)
      in dput bucket \<lparr>bi_count = bi_count info + 1, bi_max = (if bi_max info < sid then sid else bi_max info)\<rparr> buckets)"

text \<open>The counters of a network, all 0 at first.\<close>

record sync_metric =
  sm_msgs :: int
  sm_tx_count :: int
  sm_content_count :: int

record 'w sync_receiver =
  last_sync_message :: "(int, pyfloat) dict"
  sync_metrics :: "(int, sync_metric) dict"
  short_id_buckets :: "(int, (int, bucket_info) dict) dict"
  rc_node :: "'w node"

type_synonym ('w, 'r) rc_eff = "('w sync_receiver, 'r) eff"

definition on_node :: "('w, 'r) node_eff \<Rightarrow> ('w, 'r) rc_eff" where
  "on_node m = (\<lambda>rc. case m (rc_node rc) of (r, q) \<Rightarrow> (r, rc\<lparr>rc_node := q\<rparr>))"

definition count_metric :: "int \<Rightarrow> (sync_metric \<Rightarrow> sync_metric) \<Rightarrow> ('w, unit) rc_eff" where
  "count_metric net f = modE (\<lambda>rc. rc\<lparr>sync_metrics := dput net
     (f (case dget (sync_metrics rc) net of Some m \<Rightarrow> m | None \<Rightarrow> \<lparr>sm_msgs = 0, sm_tx_count = 0, sm_content_count = 0\<rparr>)) (sync_metrics rc)\<rparr>)"

definition count_short_id :: "int \<Rightarrow> int \<Rightarrow> ('w, unit) rc_eff" where
  "count_short_id net sid = modE (\<lambda>rc. rc\<lparr>short_id_buckets := dput net
     (incr_short_id sid (case dget (short_id_buckets rc) net of Some b \<Rightarrow> b | None \<Rightarrow> [])) (short_id_buckets rc)\<rparr>)"

definition count_flagged :: "int \<Rightarrow> int \<times> int \<Rightarrow> ('w, unit) rc_eff" where
  "count_flagged net = (\<lambda>(sid, flag).
     thenE (count_short_id net sid) (whenE (is_paid flag) (on_node (on_sv (mod_sv (set_short_id_transaction_type sid flag))))))"

definition count_item :: "int \<Rightarrow> bytes \<times> int \<times> int list \<times> int list \<Rightarrow> ('w, unit) rc_eff" where
  "count_item net = (\<lambda>(_, content_length, sids, flags).
     thenE (count_metric net (\<lambda>m. m\<lparr>sm_tx_count := sm_tx_count m + 1\<rparr>))
    (thenE (whenE (0 < content_length) (count_metric net (\<lambda>m. m\<lparr>sm_content_count := sm_content_count m + 1\<rparr>)))
       (forE (count_flagged net) (zip sids flags))))"

definition msg_tx_service_sync_txs ::
    "'w clock \<Rightarrow> (int \<Rightarrow> int list \<Rightarrow> int list) \<Rightarrow> bytes \<Rightarrow> ('w, unit) rc_eff" where
  "msg_tx_service_sync_txs tick set_add msg =
     bindE (liftR (network_num msg)) (\<lambda>net.
     bindE (on_node (on_sv (clock_now tick))) (\<lambda>t.
     thenE (modE (\<lambda>rc. rc\<lparr>last_sync_message := dput net t (last_sync_message rc)\<rparr>))
    (bindE (liftR (txs_content_short_ids msg)) (\<lambda>items.
     bindE (on_node (process_tx_sync_message tick set_add items)) (\<lambda>results.
     thenE (count_metric net (\<lambda>m. m\<lparr>sm_msgs := sm_msgs m + 1\<rparr>))
       (forE (count_item net) results))))))"

section \<open>Processing the transactions\<close>

abbreviation item_key :: "tx_content_short_ids \<Rightarrow> string" where
  "item_key t \<equiv> tx_hash_to_cache_key (tc_hash t)"

definition item_content :: "tx_content_short_ids \<Rightarrow> bytes" where
  "item_content t = (case tc_content t of Some c \<Rightarrow> c | None \<Rightarrow> [])"

definition item_ok :: "tx_content_short_ids \<Rightarrow> bool" where
  "item_ok t \<longleftrightarrow> length (tc_hash t) = SHA256_HASH_LEN \<and> length (tc_flags t) = length (tc_short_ids t) \<and> NULL_TX_SID \<notin> set (tc_short_ids t)"

lemma assign_all_run:
  assumes "node_ok q" "key_ok k" "set_add_ok set_add" "length fs = length sids" "NULL_TX_SID \<notin> set sids"
    and "\<forall>x \<in> set sids. dget (short_id_to_key (service q)) x \<in> {None, Some (tk_cache k)}"
  shows "\<exists>q'. forE (\<lambda>(sid, _). assign_short_id_by_key tick set_add k sid) (zip sids fs) q = (Inr (), q') \<and> node_ok q' \<and>
    (\<forall>x. dget (short_id_to_key (service q')) x = (if x \<in> set sids then Some (tk_cache k) else dget (short_id_to_key (service q)) x)) \<and>
    key_to_contents (service q') = key_to_contents (service q) \<and> memory_limit (service q') = memory_limit (service q)"
  using assms(4,1,5,6)
proof (induction fs sids arbitrary: q rule: list_induct2)
  case Nil
  then show ?case by (simp add: eff_apply)
next
  case (Cons f fs sid sids)
  have "sid \<noteq> NULL_TX_SID" "dget (short_id_to_key (service q)) sid = None \<or> dget (short_id_to_key (service q)) sid = Some (tk_cache k)"
    using Cons.prems(2,3) by auto
  from assign_run [OF Cons.prems(1) assms(2,3) this, of tick] obtain q1 where
    q1: "assign_short_id_by_key tick set_add k sid q = (Inr (), q1)" "node_ok q1"
      "dget (short_id_to_key (service q1)) = (dget (short_id_to_key (service q)))(sid \<mapsto> tk_cache k)"
      "key_to_contents (service q1) = key_to_contents (service q)" "memory_limit (service q1) = memory_limit (service q)" by blast
  have "\<forall>x \<in> set sids. dget (short_id_to_key (service q1)) x \<in> {None, Some (tk_cache k)}" using Cons.prems(3) q1(3) by auto
  from Cons.IH [OF q1(2) _ this] Cons.prems(2) obtain q' where
    q': "forE (\<lambda>(sid, _). assign_short_id_by_key tick set_add k sid) (zip sids fs) q1 = (Inr (), q')" "node_ok q'"
      "\<forall>x. dget (short_id_to_key (service q')) x = (if x \<in> set sids then Some (tk_cache k) else dget (short_id_to_key (service q1)) x)"
      "key_to_contents (service q') = key_to_contents (service q1)" "memory_limit (service q') = memory_limit (service q1)" by auto
  have "forE (\<lambda>(sid, _). assign_short_id_by_key tick set_add k sid) (zip (sid # sids) (f # fs)) q = (Inr (), q')"
    using q1(1) q'(1) by (simp add: bindE_apply)
  then show ?case using q'(2-5) q1(3-5) by (intro exI [of _ q']) auto
qed

lemma sync_item_run:
  assumes "node_ok q" "set_add_ok set_add" "item_ok t"
    and "\<forall>x \<in> set (tc_short_ids t). dget (short_id_to_key (service q)) x \<in> {None, Some (item_key t)}"
    and "contents_size (key_to_contents (service q)) + int (length (item_content t)) \<le> memory_limit (service q)"
  shows "\<exists>q'. process_sync_item tick set_add t q = (Inr (tc_hash t, int (length (item_content t)), tc_short_ids t, tc_flags t), q') \<and> node_ok q' \<and>
    (\<forall>x. dget (short_id_to_key (service q')) x =
       (if x \<in> set (tc_short_ids t) then Some (item_key t) else dget (short_id_to_key (service q)) x)) \<and>
    (\<forall>k. dget (key_to_contents (service q')) k =
       (if k = item_key t \<and> item_content t \<noteq> [] then Some (item_content t) else dget (key_to_contents (service q)) k)) \<and>
    contents_size (key_to_contents (service q')) \<le> contents_size (key_to_contents (service q)) + int (length (item_content t)) \<and>
    memory_limit (service q') = memory_limit (service q)"
proof -
  define k where "k = \<lparr>tk_hash = tc_hash t, tk_cache = item_key t\<rparr>"
  have k: "get_transaction_key (Some (tc_hash t)) None = Inr k" "key_ok k" "tk_cache k = item_key t" "tk_hash k = tc_hash t"
    using key_of_hash [of "tc_hash t"] assms(3) by (auto simp: k_def item_ok_def SHA256_HASH_LEN_def get_transaction_key_def)
  define C where "C = dput (item_key t) (item_content t) (key_to_contents (service q))"
  have size: "contents_size C \<le> contents_size (key_to_contents (service q)) + int (length (item_content t))"
    by (simp add: C_def contents_size_dput size_of_def split: option.splits)
  have "\<exists>q1. (if item_content t \<noteq> [] then set_transaction_contents_by_key tick k (item_content t) else returnE ()) q = (Inr (), q1) \<and> node_ok q1 \<and>
      key_to_contents (service q1) = (if item_content t \<noteq> [] then C else key_to_contents (service q)) \<and>
      short_id_to_key (service q1) = short_id_to_key (service q) \<and> memory_limit (service q1) = memory_limit (service q)"
  proof (cases "item_content t = []")
    case True
    with assms(1) show ?thesis by (simp add: eff_apply)
  next
    case False
    with set_contents_run [OF assms(1), of tick k "item_content t"] size assms(5) k(3) show ?thesis by (auto simp: C_def)
  qed
  then obtain q1 where q1: "(if item_content t \<noteq> [] then set_transaction_contents_by_key tick k (item_content t) else returnE ()) q = (Inr (), q1)"
    "node_ok q1" "key_to_contents (service q1) = (if item_content t \<noteq> [] then C else key_to_contents (service q))"
    "short_id_to_key (service q1) = short_id_to_key (service q)" "memory_limit (service q1) = memory_limit (service q)" by blast
  obtain q' where q': "forE (\<lambda>(sid, _). assign_short_id_by_key tick set_add k sid) (zip (tc_short_ids t) (tc_flags t)) q1 = (Inr (), q')" "node_ok q'"
    "\<forall>x. dget (short_id_to_key (service q')) x = (if x \<in> set (tc_short_ids t) then Some (tk_cache k) else dget (short_id_to_key (service q1)) x)"
    "key_to_contents (service q') = key_to_contents (service q1)" "memory_limit (service q') = memory_limit (service q1)"
    using assign_all_run [OF q1(2) k(2) assms(2), of "tc_flags t" "tc_short_ids t" tick] assms(3,4) q1(4) k(3) by (auto simp: item_ok_def)
  have "process_sync_item tick set_add t q = (Inr (tc_hash t, int (length (item_content t)), tc_short_ids t, tc_flags t), q')"
    using k(1,4) q1(1) q'(1) by (simp add: process_sync_item_def bindE_apply eff_apply Let_def thenE_def flip: item_content_def)
  then show ?thesis using q'(2-5) q1(3-5) k(3) size by (intro exI [of _ q']) (auto simp: C_def)
qed

text \<open>Which transactions a service can take in: their short ids are free or already theirs, no short id and no hash stands for two of them, and
  there is room for the contents.\<close>

definition takes_in :: "'w node \<Rightarrow> tx_content_short_ids list \<Rightarrow> bool" where
  "takes_in q ts \<longleftrightarrow> list_all item_ok ts \<and>
     (\<forall>t \<in> set ts. \<forall>x \<in> set (tc_short_ids t). dget (short_id_to_key (service q)) x \<in> {None, Some (item_key t)}) \<and>
     (\<forall>t \<in> set ts. \<forall>u \<in> set ts. set (tc_short_ids t) \<inter> set (tc_short_ids u) \<noteq> {} \<longrightarrow> item_key t = item_key u) \<and>
     (\<forall>t \<in> set ts. \<forall>u \<in> set ts. item_key t = item_key u \<longrightarrow> item_content t = [] \<or> item_content u = [] \<or> item_content t = item_content u) \<and>
     contents_size (key_to_contents (service q)) + sum_list (map (\<lambda>t. int (length (item_content t))) ts) \<le> memory_limit (service q)"

definition taken_in :: "'w node \<Rightarrow> tx_content_short_ids list \<Rightarrow> 'w node \<Rightarrow> bool" where
  "taken_in q ts q' \<longleftrightarrow> node_ok q' \<and>
     (\<forall>t \<in> set ts. (\<forall>x \<in> set (tc_short_ids t). dget (short_id_to_key (service q')) x = Some (item_key t)) \<and>
        (item_content t \<noteq> [] \<longrightarrow> dget (key_to_contents (service q')) (item_key t) = Some (item_content t))) \<and>
     (\<forall>x. (\<forall>t \<in> set ts. x \<notin> set (tc_short_ids t)) \<longrightarrow> dget (short_id_to_key (service q')) x = dget (short_id_to_key (service q)) x) \<and>
     (\<forall>k. (\<forall>t \<in> set ts. item_key t = k \<longrightarrow> item_content t = []) \<longrightarrow> dget (key_to_contents (service q')) k = dget (key_to_contents (service q)) k)"

lemma takes_in_Cons:
  assumes "takes_in q (t # ts)"
    and s: "\<forall>x. dget (short_id_to_key (service q1)) x = (if x \<in> set (tc_short_ids t) then Some (item_key t) else dget (short_id_to_key (service q)) x)"
    and c: "contents_size (key_to_contents (service q1)) \<le> contents_size (key_to_contents (service q)) + int (length (item_content t))"
    and m: "memory_limit (service q1) = memory_limit (service q)"
  shows "takes_in q1 ts"
proof -
  have "dget (short_id_to_key (service q1)) x \<in> {None, Some (item_key u)}" if u: "u \<in> set ts" "x \<in> set (tc_short_ids u)" for u x
  proof (cases "x \<in> set (tc_short_ids t)")
    case True
    with u have "set (tc_short_ids t) \<inter> set (tc_short_ids u) \<noteq> {}" by blast
    with assms(1) u(1) have "item_key t = item_key u" unfolding takes_in_def by simp
    with True s show ?thesis by simp
  next
    case False
    with assms(1) u s show ?thesis unfolding takes_in_def by simp
  qed
  with assms(1) c m show ?thesis unfolding takes_in_def by simp
qed

lemma takes_in_left_out:
  assumes "takes_in q (filter carried ts)"
  shows "takes_in q (filter carried ts @ left_out ts)"
proof -
  have "item_ok null_tx" by (simp add: item_ok_def null_tx_def)
  then have l: "\<forall>t \<in> set (left_out ts). item_ok t \<and> tc_short_ids t = [] \<and> item_content t = []"
    by (auto simp: left_out_def null_tx_def item_content_def)
  have "sum_list (map (\<lambda>t. int (length (item_content t))) (left_out ts)) = 0"
    by (simp add: left_out_def null_tx_def item_content_def sum_list_replicate)
  moreover have "item_key t = item_key u"
    if "t \<in> set (filter carried ts @ left_out ts)" "u \<in> set (filter carried ts @ left_out ts)" "set (tc_short_ids t) \<inter> set (tc_short_ids u) \<noteq> {}" for t u
  proof -
    have "t \<in> set (filter carried ts)" "u \<in> set (filter carried ts)" using that l by auto
    with assms that(3) show ?thesis unfolding takes_in_def by blast
  qed
  ultimately show ?thesis using assms l unfolding takes_in_def list_all_iff by (intro conjI ballI impI) auto
qed

lemma taken_in_Cons:
  assumes "takes_in q (t # ts)" "taken_in q1 ts q'"
    and s: "\<forall>x. dget (short_id_to_key (service q1)) x = (if x \<in> set (tc_short_ids t) then Some (item_key t) else dget (short_id_to_key (service q)) x)"
    and c: "\<forall>k. dget (key_to_contents (service q1)) k =
       (if k = item_key t \<and> item_content t \<noteq> [] then Some (item_content t) else dget (key_to_contents (service q)) k)"
  shows "taken_in q (t # ts) q'"
proof -
  have x: "dget (short_id_to_key (service q')) x = Some (item_key t)" if "x \<in> set (tc_short_ids t)" for x
  proof (cases "\<exists>u \<in> set ts. x \<in> set (tc_short_ids u)")
    case True
    then obtain u where u: "u \<in> set ts" "x \<in> set (tc_short_ids u)" by blast
    with that have "set (tc_short_ids t) \<inter> set (tc_short_ids u) \<noteq> {}" by blast
    with assms(1) u(1) have "item_key t = item_key u" unfolding takes_in_def by simp
    with assms(2) u show ?thesis unfolding taken_in_def by simp
  next
    case False
    with assms(2) s that show ?thesis unfolding taken_in_def by simp
  qed
  have k: "dget (key_to_contents (service q')) (item_key t) = Some (item_content t)" if "item_content t \<noteq> []"
  proof (cases "\<exists>u \<in> set ts. item_key u = item_key t \<and> item_content u \<noteq> []")
    case True
    then obtain u where u: "u \<in> set ts" "item_key u = item_key t" "item_content u \<noteq> []" by blast
    with assms(1) that have "item_content t = item_content u" unfolding takes_in_def by (metis list.set_intros(1,2))
    with assms(2) u show ?thesis unfolding taken_in_def by metis
  next
    case False
    with assms(2) c that show ?thesis unfolding taken_in_def by simp
  qed
  from assms(2) x k s c show ?thesis unfolding taken_in_def by simp
qed

lemma sync_items_run:
  assumes "node_ok q" "set_add_ok set_add" "takes_in q ts"
  shows "\<exists>q'. process_tx_sync_message tick set_add ts q =
      (Inr (map (\<lambda>t. (tc_hash t, int (length (item_content t)), tc_short_ids t, tc_flags t)) ts), q') \<and> taken_in q ts q'"
  using assms(1,3)
proof (induction ts arbitrary: q)
  case Nil
  then show ?case by (simp add: process_tx_sync_message_def eff_apply taken_in_def)
next
  case (Cons t ts)
  have "item_ok t" "\<forall>x \<in> set (tc_short_ids t). dget (short_id_to_key (service q)) x \<in> {None, Some (item_key t)}"
    using Cons.prems(2) by (simp_all add: takes_in_def)
  moreover have "0 \<le> sum_list (map (\<lambda>t. int (length (item_content t))) ts)" by (rule sum_list_nonneg) auto
  with Cons.prems(2) have "contents_size (key_to_contents (service q)) + int (length (item_content t)) \<le> memory_limit (service q)"
    by (simp add: takes_in_def)
  ultimately obtain q1 where
    q1: "process_sync_item tick set_add t q = (Inr (tc_hash t, int (length (item_content t)), tc_short_ids t, tc_flags t), q1)" "node_ok q1" and
    s: "\<forall>x. dget (short_id_to_key (service q1)) x = (if x \<in> set (tc_short_ids t) then Some (item_key t) else dget (short_id_to_key (service q)) x)" and
    c: "\<forall>k. dget (key_to_contents (service q1)) k =
       (if k = item_key t \<and> item_content t \<noteq> [] then Some (item_content t) else dget (key_to_contents (service q)) k)" and
    z: "contents_size (key_to_contents (service q1)) \<le> contents_size (key_to_contents (service q)) + int (length (item_content t))"
      "memory_limit (service q1) = memory_limit (service q)"
    using sync_item_run [OF Cons.prems(1) assms(2), of t tick] by blast
  from Cons.IH [OF q1(2) takes_in_Cons [OF Cons.prems(2) s z]] obtain q' where
    q': "process_tx_sync_message tick set_add ts q1 =
      (Inr (map (\<lambda>t. (tc_hash t, int (length (item_content t)), tc_short_ids t, tc_flags t)) ts), q')" "taken_in q1 ts q'" by blast
  from q1(1) q'(1) have "process_tx_sync_message tick set_add (t # ts) q =
      (Inr (map (\<lambda>t. (tc_hash t, int (length (item_content t)), tc_short_ids t, tc_flags t)) (t # ts)), q')"
    by (simp add: process_tx_sync_message_def bindE_apply eff_apply)
  with taken_in_Cons [OF Cons.prems(2) q'(2) s c] show ?case by blast
qed


section \<open>A message arrives\<close>

text \<open>The counting behind the processing changes no mapping of the service.\<close>

definition counted_only :: "'w sync_receiver \<Rightarrow> 'w sync_receiver \<Rightarrow> bool" where
  "counted_only rc rc' \<longleftrightarrow> (\<exists>f. rc_node rc' = (rc_node rc)\<lparr>aq_world := ((service (rc_node rc))\<lparr>short_id_to_flag := f\<rparr>, snd (aq_world (rc_node rc)))\<rparr>)"

lemma counted_only_refl: "rc_node rc' = rc_node rc \<Longrightarrow> counted_only rc rc'"
  by (cases "aq_world (rc_node rc)") (auto simp: counted_only_def intro!: exI [of _ "short_id_to_flag (service (rc_node rc))"])

lemma counted_only_trans: "counted_only rc rc' \<Longrightarrow> counted_only rc' rc'' \<Longrightarrow> counted_only rc rc''"
  by (auto simp: counted_only_def)

lemma forE_counted:
  assumes "\<And>x rc. \<exists>rc'. f x rc = (Inr (), rc') \<and> counted_only rc rc'"
  shows "\<exists>rc'. forE f xs rc = (Inr (), rc') \<and> counted_only rc rc'"
proof (induction xs arbitrary: rc)
  case Nil
  show ?case by (simp add: eff_apply counted_only_refl)
next
  case (Cons x xs)
  obtain rc1 where "f x rc = (Inr (), rc1)" "counted_only rc rc1" using assms by blast
  moreover obtain rc' where "forE f xs rc1 = (Inr (), rc')" "counted_only rc1 rc'" using Cons.IH by blast
  ultimately show ?case using counted_only_trans by (auto simp: bindE_apply)
qed

lemma count_flagged_run: "\<exists>rc'. count_flagged net x rc = (Inr (), rc') \<and> counted_only rc rc'"
proof -
  obtain sid flag where x: "x = (sid, flag)" by (cases x)
  obtain s w where w: "aq_world (rc_node rc) = (s, w)" by fastforce
  show ?thesis
    by (cases "is_paid flag") (auto simp: x count_flagged_def count_short_id_def thenE_def bindE_apply eff_apply whenE_def on_node_def on_sv_apply mod_sv_def w
      counted_only_def set_short_id_transaction_type_def intro: exI [of _ "short_id_to_flag s"])
qed

lemma count_item_run: "\<exists>rc'. count_item net i rc = (Inr (), rc') \<and> counted_only rc rc'"
proof -
  obtain h n sids flags where i: "i = (h, n, sids, flags)" by (cases i)
  have m: "\<exists>rc'. count_metric net f rc = (Inr (), rc') \<and> rc_node rc' = rc_node rc" for f and rc :: "'a sync_receiver"
    by (simp add: count_metric_def eff_apply)
  obtain rc1 where rc1: "count_metric net (\<lambda>m. m\<lparr>sm_tx_count := sm_tx_count m + 1\<rparr>) rc = (Inr (), rc1)" "rc_node rc1 = rc_node rc" using m by blast
  obtain rc2 where rc2: "whenE (0 < n) (count_metric net (\<lambda>m. m\<lparr>sm_content_count := sm_content_count m + 1\<rparr>)) rc1 = (Inr (), rc2)"
      "rc_node rc2 = rc_node rc1"
    using m by (cases "0 < n") (auto simp: whenE_def eff_apply)
  obtain rc3 where rc3: "forE (count_flagged net) (zip sids flags) rc2 = (Inr (), rc3)" "counted_only rc2 rc3"
    using forE_counted [of "count_flagged net", OF count_flagged_run] by blast
  have "count_item net i rc = (Inr (), rc3)" using rc1(1) rc2(1) rc3(1) by (simp add: i count_item_def thenE_def bindE_apply)
  moreover have "counted_only rc rc3" using rc3(2) rc1(2) rc2(2) counted_only_trans counted_only_refl by metis
  ultimately show ?thesis by blast
qed


end
