(* ===== verification/WireExamples.thy ===== *)
theory WireExamples
  imports SyncRun SyncReceive TxExamples
begin

text \<open>
  The wire formats at concrete inputs: the state of a service with a transaction that is left out, a stream of frames in pieces, a
  request for short ids to the service of the examples.
\<close>

section \<open>The state of a service\<close>

definition demo_tx :: tx_content_short_ids where
  "demo_tx = \<lparr>tc_hash = replicate 32 119, tc_content = Some [1, 2, 3], tc_short_ids = [5, 6], tc_flags = [0, 1]\<rparr>"

definition demo_bare_tx :: tx_content_short_ids where
  "demo_bare_tx = \<lparr>tc_hash = replicate 32 136, tc_content = None, tc_short_ids = [7], tc_flags = [0]\<rparr>"

lemma demo_carried: "\<not> carried demo_bare_tx" "carried demo_tx"
  by (simp_all add: carried_def demo_tx_def demo_bare_tx_def NULL_TX_SID_def)

lemma demo_tx_ok: "tx_ok demo_tx"
  by (simp add: tx_ok_def carried_def demo_tx_def NULL_TX_SID_def SHA256_HASH_LEN_def)

lemma sync_txs_arrive_witness:
  "\<exists>buf. TxServiceSyncTxsMessage 5 [demo_bare_tx, demo_tx] = Inr buf \<and> network_num buf = Inr 5 \<and> tx_count buf = Inr 2 \<and>
    txs_content_short_ids buf = Inr [demo_tx, null_tx]"
proof -
  have "txs_content_length [demo_bare_tx, demo_tx] = 105" "left_out [demo_bare_tx, demo_tx] = [null_tx]"
    by (simp_all add: txs_content_length_def tx_content_length_def SHA256_HASH_LEN_def left_out_def carried_def demo_tx_def demo_bare_tx_def
      NULL_TX_SID_def)
  then show ?thesis using sync_txs_arrive [of 5 "[demo_bare_tx, demo_tx]" CURRENT_VERSION] demo_tx_ok
    by (auto simp: demo_carried net_ok_def)
qed

section \<open>A stream of frames\<close>

definition demo_ping :: bytes where
  "demo_ping = frame (pad12 (ascii ''ping'')) [7, VALID]"

definition demo_unknown :: bytes where
  "demo_unknown = frame (pad12 (ascii ''none'')) [VALID]"

definition demo_stream :: bytes where
  "demo_stream = demo_ping @ demo_unknown @ demo_ping @ take 9 demo_ping"

definition demo_mapping :: "bytes message_mapping" where
  "demo_mapping = [(ascii ''ping'', Inr)]"

definition demo_handlers :: "(bytes, bytes \<Rightarrow> (bytes list, unit) eff) dict" where
  "demo_handlers = [(ascii ''ping'', \<lambda>m. modE (\<lambda>w. w @ [m]))]"

definition demo_conn :: "bytes list connection" where
  "demo_conn = \<lparr>inputbuf = InputBuffer, num_bad_messages = 0, conn_alive = True, established = True, hello_messages = [],
     header_size = int HEADER_LENGTH, conn_world = []\<rparr>"

lemma demo_frames: "frame_ok None demo_ping" "frame_ok None demo_unknown"
  using new_frame_ok(1) [of "pad12 (ascii ''ping'')" "[7]"] new_frame_ok(1) [of "pad12 (ascii ''none'')" "[]"]
  by (simp_all add: demo_ping_def demo_unknown_def)

lemma demo_dispatch:
  "dispatch demo_mapping demo_handlers 5 demo_ping w = (Inr (), w @ [demo_ping])"
  "dispatch demo_mapping demo_handlers 5 demo_unknown w = (Inl UnrecognizedCommandError, w)"
proof -
  have "frame_command demo_ping = ascii ''ping''" "frame_command demo_unknown = ascii ''none''" "ascii ''ping'' \<noteq> ascii ''none''"
    "flag_ok 5 demo_ping" "flag_ok 5 demo_unknown"
    by code_simp+
  then show "dispatch demo_mapping demo_handlers 5 demo_ping w = (Inr (), w @ [demo_ping])"
    "dispatch demo_mapping demo_handlers 5 demo_unknown w = (Inl UnrecognizedCommandError, w)"
    by (auto simp: dispatch_def demo_mapping_def demo_handlers_def py_simps guardR_def)
qed

lemma frames_in_any_pieces_witness:
  "\<exists>c'. feed (conn_class_of demo_mapping demo_handlers None 5) [take 10 demo_stream, drop 10 demo_stream] demo_conn = Some (Inr (), c') \<and>
    conn_alive c' \<and> num_bad_messages c' = 0 \<and> conn_world c' = [demo_ping, demo_ping] \<and> in_content (inputbuf c') = take 9 demo_ping"
proof -
  have o: "open_conn demo_conn []" by (simp add: open_conn_def demo_conn_def InputBuffer_ok)
  have i: "incomplete None (take 9 demo_ping)"
    unfolding incomplete_def using demo_frames(1) by (intro disjI2 exI [of _ demo_ping] exI [of _ "drop 9 demo_ping"])
      (simp add: demo_ping_def frame_def)
  have m: "\<forall>fr \<in> set [demo_ping, demo_unknown, demo_ping]. \<forall>w. fst (dispatch demo_mapping demo_handlers 5 fr w) \<noteq> Inl MemoryError"
    by (simp add: demo_dispatch MemoryError_def UnrecognizedCommandError_def)
  have "consume demo_mapping demo_handlers 5 [demo_ping, demo_unknown, demo_ping] 0 [] = (True, 0, [demo_ping, demo_ping])"
    by (simp add: demo_dispatch closing_def PayloadLenError_def UnrecognizedCommandError_def MAX_BAD_MESSAGES_def)
  then have "consume demo_mapping demo_handlers 5 [demo_ping, demo_unknown, demo_ping] (num_bad_messages demo_conn) (conn_world demo_conn) =
      (True, 0, [demo_ping, demo_ping])" by (simp add: demo_conn_def)
  moreover have "concat [take 10 demo_stream, drop 10 demo_stream] = concat [demo_ping, demo_unknown, demo_ping] @ take 9 demo_ping"
    unfolding concat.simps append_Nil2 append_take_drop_id by (simp add: demo_stream_def)
  ultimately show ?thesis
    using frames_in_any_pieces [OF o _ i _ m, of "[take 10 demo_stream, drop 10 demo_stream]"] demo_frames
    by (auto simp: outcome_def simp del: feed.simps concat.simps)
qed

section \<open>A request for short ids\<close>

definition demo_found :: tx_info where
  "demo_found = \<lparr>ti_hash = Some (tk_hash demo_key), ti_contents = Some [1, 2, 3], ti_short_id = 5\<rparr>"

lemma demo_search:
  "get_transactions (service demo_assigned) [5, 6] =
     Inr ([demo_found], [\<lparr>ti_hash = None, ti_contents = None, ti_short_id = 6\<rparr>])"
proof -
  have "dget (short_id_to_key (service demo_assigned)) = [5 \<mapsto> tk_cache demo_key]"
    "key_to_contents (service demo_assigned) = [(tk_cache demo_key, [1, 2, 3])]"
    using assign_run [OF demo_stored_service(3) demo_key_ok(1) demo_add_ok, of 5 demo_clock] demo_stored_service
    by (auto simp: demo_assigned_def NULL_TX_SID_def)
  then show ?thesis using demo_key_ok(1)
    by (simp add: get_transactions_def search_step_def get_transaction_def demo_found_def key_ok_def)
qed

lemma request_answered_witness:
  "\<exists>req ans. GetTxsMessage [5, 6] = Inr req \<and> bindR (get_serialized_short_ids req) deserialize_short_ids = Inr [5, 6] \<and>
    TxsMessage [demo_found] = Inr ans \<and> get_txs ans = Inr [demo_found]"
  using request_answered [OF _ _ demo_search]
  by (auto simp: sids_ok_def short_ids_length_def txs_size_def tx_info_enc_def demo_found_def demo_key_def)

section \<open>A synchronisation\<close>


text \<open>A service with two transactions that were assigned at the same time, the first one as large as a message.\<close>

definition demo_twins :: tx_service where
  "demo_twins = (service demo_node)\<lparr>key_to_short_ids := [(tk_cache demo_key, [5]), (tk_cache other_key, [6])],
     short_id_to_key := [(5, tk_cache demo_key), (6, tk_cache other_key)], short_id_to_flag := [],
     key_to_contents := [(tk_cache demo_key, replicate 64000 1)], total_contents_size := 64000,
     assignment_queue := \<lparr>time_to_live_sec = 100, eq_queue = [(5, 10), (6, 10)]\<rparr>\<rparr>"

lemma demo_keys_differ: "tk_cache demo_key \<noteq> tk_cache other_key"
  by code_simp

lemma demo_twins_inv: "sv_inv demo_twins"
proof -
  have "maps_ok (key_to_short_ids demo_twins) (short_id_to_key demo_twins)"
    using demo_key_ok demo_keys_differ
    by (intro maps_okI) (auto simp: demo_twins_def key_ok_def dict_ok_def split: if_splits)
  then show ?thesis
    by (simp add: sv_inv_def demo_twins_def queue_ok_def eq_keys_def dict_ok_def size_ok_def contents_size_def)
qed

lemma from_time_once_witness:
  "\<exists>ks items last done w'. create_txs_service_msg_from_time demo_clock 5 True {} (demo_twins, 1000) = (Inr (items, last, done, set ks), demo_twins, w') \<and>
    distinct ks \<and> length items = length ks \<and> set ks \<subseteq> {tk_cache demo_key, tk_cache other_key}"
proof -
  have "assigned_since demo_twins 5 (eq_queue (assignment_queue demo_twins)) \<subseteq> {tk_cache demo_key, tk_cache other_key}"
    by (auto simp: assigned_since_def demo_twins_def split: if_splits)
  with from_time_once [OF demo_twins_inv, of demo_clock 5 True "{}" 1000] show ?thesis
    by (fastforce dest: list_all2_lengthD)
qed

lemma equal_times_lost_witness:
  "\<exists>item w1 w2. create_txs_service_msg_from_time demo_clock 5 True {} (demo_twins, 1000) = (Inr ([item], 10, False, {tk_cache demo_key}), demo_twins, w1) \<and>
    create_txs_service_msg_from_time demo_clock 10 True {tk_cache demo_key} (demo_twins, w1) = (Inr ([], 10, True, {tk_cache demo_key}), demo_twins, w2) \<and>
    tc_hash item = tk_hash demo_key \<and> tk_cache other_key \<notin> {tk_cache demo_key}"
  using equal_times_lost [OF demo_twins_inv, of 5 10 6 5 "tk_cache demo_key" "tk_cache other_key" "replicate 64000 1" demo_clock 1000]
    demo_key_ok demo_keys_differ
  by (auto simp: demo_twins_def key_ok_def TXS_MSG_SIZE_def)

text \<open>A connection whose node sends the first of them in one round.\<close>

definition demo_sender :: "pyfloat sync_node" where
  "demo_sender = AlarmQueue \<lparr>tx_services = (\<lambda>_. demo_twins), socket_alive = True, is_established = True, disposed = False, sent_msgs = [],
     ping_times = \<lparr>ed_contents = [], ed_queue = \<lparr>time_to_live_sec = 10, eq_queue = []\<rparr>, ed_time = 10\<rparr>, nonce_network = [], ping_latencies = [],
     sync_alarms = [], sync_rest = 1000\<rparr>"

definition steady_clock :: "pyfloat clock" where
  "steady_clock w = (1000, w)"

lemma demo_sender_world:
  "tx_services (aq_world demo_sender) 5 = demo_twins" "socket_alive (aq_world demo_sender)" "sync_latency 5 (aq_world demo_sender) \<noteq> None"
  "sent_msgs (aq_world demo_sender) = []" "\<not> gives_up steady_clock 0 (aq_world demo_sender)"
  by (simp_all add: demo_sender_def AlarmQueue_def sync_latency_def gives_up_def conn_is_active_def time_over_def steady_clock_def fsub_def rnd_0
    SENDING_TX_MSGS_TIMEOUT_S_def)

lemma demo_snapped: "snapped demo_twins True (tk_hash demo_key) = \<lparr>tc_hash = tk_hash demo_key, tc_content = Some (replicate 64000 1), tc_short_ids = [5], tc_flags = [0]\<rparr>"
proof -
  have "tx_hash_to_cache_key (tk_hash demo_key) = tk_cache demo_key" by code_simp
  then show ?thesis
    by (simp add: snapped_def Let_def sync_item_def get_transaction_by_key_def get_short_ids_by_key_def get_short_id_transaction_type_def demo_twins_def)
qed

lemma demo_sender_ready: "sender_ready 5 True [tk_hash demo_key] (aq_world demo_sender)"
proof -
  have "length (tk_hash demo_key) = 32" by code_simp
  then have "sendable demo_twins True [tk_hash demo_key]"
    by (simp add: sendable_def demo_snapped tx_ok_def carried_def tx_content_length_def NULL_TX_SID_def SHA256_HASH_LEN_def)
  then show ?thesis by (simp add: sender_ready_def demo_sender_def AlarmQueue_def)
qed


text \<open>A message with a transaction that is left out arrives at an empty service.\<close>

definition demo_receiver :: "pyfloat sync_receiver" where
  "demo_receiver = \<lparr>last_sync_message = [], sync_metrics = [], short_id_buckets = [], rc_node = demo_node\<rparr>"

lemma demo_takes_in: "takes_in (rc_node demo_receiver) [demo_tx]"
  by (simp add: takes_in_def demo_receiver_def item_ok_def item_content_def demo_node_service demo_tx_def contents_size_def NULL_TX_SID_def
    SHA256_HASH_LEN_def)


end
