(* ===== verification/ConnPool.thy ===== *)
theory ConnPool
  imports PyBase
begin

text \<open>
  The connection pool of a node (connections/connection_pool.py) and how a node adds and drops connections
  (connections/abstract_node.py, abstract_connection.py). Connections are objects that change while the pool refers to them: they live in
  a store, and the pool holds their places in it. Sockets, alarms and the retries of a closed connection are left out.
\<close>

unbundle bit_operations_syntax

section \<open>Connections\<close>

definition SDN :: int where "SDN = 1"
definition BLOCKCHAIN_NODE :: int where "BLOCKCHAIN_NODE = 2"
definition REMOTE_BLOCKCHAIN_NODE :: int where "REMOTE_BLOCKCHAIN_NODE = 4"
definition EXTERNAL_GATEWAY :: int where "EXTERNAL_GATEWAY = 8"
definition RELAY_TRANSACTION :: int where "RELAY_TRANSACTION = 16"
definition RELAY_BLOCK :: int where "RELAY_BLOCK = 32"
definition RELAY_ALL :: int where "RELAY_ALL = RELAY_TRANSACTION OR RELAY_BLOCK"
definition INTERNAL_GATEWAY :: int where "INTERNAL_GATEWAY = 64"
definition GATEWAY :: int where "GATEWAY = INTERNAL_GATEWAY OR EXTERNAL_GATEWAY"
definition RELAY_PROXY :: int where "RELAY_PROXY = 128"

record pool_conn =
  cn_file_no :: nat
  cn_ip :: string
  cn_port :: int
  cn_type :: int
  cn_peer_id :: "string option"
  cn_network_num :: int

record conn_pool =
  conns :: "pool_conn list"
  by_fileno :: "nat option list"
  by_ipport :: "(string \<times> int, nat) dict"
  by_connection_type :: "(int, nat list) dict"
  by_node_id :: "(string, nat) dict"
  len_fileno :: nat
  count_conn_by_ip :: "(string, int) dict"

type_synonym 'r pool_eff = "(conn_pool, 'r) eff"

abbreviation conn_at :: "conn_pool \<Rightarrow> nat \<Rightarrow> pool_conn" where
  "conn_at p c \<equiv> conns p ! c"

section \<open>The pool\<close>

definition INITIAL_FILENO :: nat where
  "INITIAL_FILENO = 100"

definition ConnectionPool :: conn_pool where
  "ConnectionPool = \<lparr>conns = [], by_fileno = replicate INITIAL_FILENO None, by_ipport = [], by_connection_type = [], by_node_id = [],
     len_fileno = INITIAL_FILENO, count_conn_by_ip = []\<rparr>"

function grow_fileno :: "nat \<Rightarrow> conn_pool \<Rightarrow> conn_pool" where
  "grow_fileno fileno p =
     (if len_fileno p \<le> fileno
      then grow_fileno fileno (p\<lparr>by_fileno := by_fileno p @ replicate INITIAL_FILENO None, len_fileno := len_fileno p + INITIAL_FILENO\<rparr>)
      else p)"
  by pat_completeness auto
termination
  by (relation "measure (\<lambda>(fileno, p). Suc fileno - len_fileno p)") (auto simp: INITIAL_FILENO_def)

declare grow_fileno.simps [simp del]

text \<open>A dictionary with a default: the value that a missing key stands for.\<close>

definition dget_or :: "'v \<Rightarrow> ('k, 'v) dict \<Rightarrow> 'k \<Rightarrow> 'v" where
  "dget_or v d k = (case dget d k of Some x \<Rightarrow> x | None \<Rightarrow> v)"

definition track :: "nat \<Rightarrow> string \<Rightarrow> int \<Rightarrow> nat \<Rightarrow> conn_pool \<Rightarrow> conn_pool" where
  "track fileno ip port c p0 =
     (let p = grow_fileno fileno p0; t = cn_type (conn_at p c)
      in p\<lparr>by_fileno := (by_fileno p)[fileno := Some c], by_ipport := dput (ip, port) c (by_ipport p),
           by_connection_type := dput t (dget_or [] (by_connection_type p) t @ [c]) (by_connection_type p),
           count_conn_by_ip := dput ip (dget_or 0 (count_conn_by_ip p) ip + 1) (count_conn_by_ip p)\<rparr>)"

definition pool_add :: "nat \<Rightarrow> string \<Rightarrow> int \<Rightarrow> nat \<Rightarrow> unit pool_eff" where
  "pool_add fileno ip port c =
     bindE (getE (\<lambda>p. dget (by_ipport p) (ip, port))) (\<lambda>old.
     thenE (liftR (guardR (old = None) AssertionError)) (modE (track fileno ip port c)))"

definition update_port :: "int \<Rightarrow> int \<Rightarrow> nat \<Rightarrow> conn_pool \<Rightarrow> conn_pool" where
  "update_port old_port new_port c p =
     p\<lparr>by_ipport := dput (cn_ip (conn_at p c), new_port) c (ddel (cn_ip (conn_at p c), old_port) (by_ipport p))\<rparr>"

definition index_conn_node_id :: "string \<Rightarrow> nat \<Rightarrow> conn_pool \<Rightarrow> conn_pool" where
  "index_conn_node_id node_id c p = p\<lparr>by_node_id := dput node_id c (by_node_id p)\<rparr>"

definition has_connection :: "conn_pool \<Rightarrow> string option \<Rightarrow> int option \<Rightarrow> string option \<Rightarrow> bool" where
  "has_connection p ip port node_id \<longleftrightarrow>
     (case node_id of Some i \<Rightarrow> dget (by_node_id p) i \<noteq> None | None \<Rightarrow> False) \<or>
     (case (ip, port) of (Some a, Some b) \<Rightarrow> dget (by_ipport p) (a, b) \<noteq> None | _ \<Rightarrow> False)"

definition get_by_connection_types :: "conn_pool \<Rightarrow> int list \<Rightarrow> nat list" where
  "get_by_connection_types p types =
     concat (map snd (filter (\<lambda>(t, _). list_ex (\<lambda>m. t AND m \<noteq> 0) types) (by_connection_type p)))"

definition get_connection_by_network_num :: "conn_pool \<Rightarrow> int \<Rightarrow> nat list" where
  "get_connection_by_network_num p net =
     filter (\<lambda>c. cn_network_num (conn_at p c) = net) (get_by_connection_types p [GATEWAY, RELAY_PROXY])"

definition get_by_ipport :: "conn_pool \<Rightarrow> string \<Rightarrow> int \<Rightarrow> string option \<Rightarrow> nat res" where
  "get_by_ipport p ip port node_id =
     (case dget (by_ipport p) (ip, port) of
        Some c \<Rightarrow> Inr c
      | None \<Rightarrow> (case node_id of Some i \<Rightarrow> dgetR (by_node_id p) i | None \<Rightarrow> Inl KeyError))"

definition get_by_fileno :: "conn_pool \<Rightarrow> nat \<Rightarrow> nat option" where
  "get_by_fileno p fileno = (if len_fileno p \<le> fileno then None else by_fileno p ! fileno)"

definition get_by_node_id :: "conn_pool \<Rightarrow> string \<Rightarrow> nat res" where
  "get_by_node_id p node_id = dgetR (by_node_id p) node_id"

text \<open>\<open>delete\<close>, statement by statement.\<close>

definition clear_fileno :: "nat \<Rightarrow> unit pool_eff" where
  "clear_fileno fileno =
     bindE (getE (\<lambda>p. fileno < length (by_fileno p))) (\<lambda>ok.
     thenE (liftR (guardR ok IndexError)) (modE (\<lambda>p. p\<lparr>by_fileno := (by_fileno p)[fileno := None]\<rparr>)))"

definition drop_ipport :: "pool_conn \<Rightarrow> conn_pool \<Rightarrow> conn_pool" where
  "drop_ipport x p =
     (case dget (by_ipport p) (cn_ip x, cn_port x) of
        Some d \<Rightarrow> if cn_file_no (conn_at p d) = cn_file_no x then p\<lparr>by_ipport := ddel (cn_ip x, cn_port x) (by_ipport p)\<rparr> else p
      | None \<Rightarrow> p)"

definition drop_type :: "pool_conn \<Rightarrow> nat \<Rightarrow> unit pool_eff" where
  "drop_type x c =
     bindE (getE (\<lambda>p. dget (by_connection_type p) (cn_type x))) (\<lambda>l. case l of
         None \<Rightarrow> returnE ()
       | Some l \<Rightarrow>
           if length l = 1 then modE (\<lambda>p. p\<lparr>by_connection_type := ddel (cn_type x) (by_connection_type p)\<rparr>)
           else thenE (liftR (guardR (c \<in> set l) ValueError))
                  (modE (\<lambda>p. p\<lparr>by_connection_type := dput (cn_type x) (remove1 c l) (by_connection_type p)\<rparr>)))"

definition drop_count :: "pool_conn \<Rightarrow> conn_pool \<Rightarrow> conn_pool" where
  "drop_count x p =
     (let n = dget_or 0 (count_conn_by_ip p) (cn_ip x)
      in p\<lparr>count_conn_by_ip := (if n = 1 then ddel (cn_ip x) (count_conn_by_ip p) else dput (cn_ip x) (n - 1) (count_conn_by_ip p))\<rparr>)"

definition drop_node_id :: "pool_conn \<Rightarrow> conn_pool \<Rightarrow> conn_pool" where
  "drop_node_id x p =
     (case cn_peer_id x of
        Some i \<Rightarrow> if i \<noteq> [] then p\<lparr>by_node_id := ddel i (by_node_id p)\<rparr> else p
      | None \<Rightarrow> p)"

definition pool_delete :: "nat \<Rightarrow> unit pool_eff" where
  "pool_delete c =
     bindE (getE (\<lambda>p. conn_at p c)) (\<lambda>x.
     thenE (clear_fileno (cn_file_no x))
    (thenE (modE (drop_ipport x))
    (thenE (drop_type x c)
    (thenE (modE (drop_count x))
       (modE (drop_node_id x))))))"

definition change_conn :: "nat \<Rightarrow> (pool_conn \<Rightarrow> pool_conn) \<Rightarrow> unit pool_eff" where
  "change_conn c f = modE (\<lambda>p. p\<lparr>conns := (conns p)[c := f (conn_at p c)]\<rparr>)"

definition update_connection_type :: "nat \<Rightarrow> int \<Rightarrow> unit pool_eff" where
  "update_connection_type c t =
     thenE (pool_delete c)
    (thenE (change_conn c (\<lambda>x. x\<lparr>cn_type := t\<rparr>))
    (bindE (getE (\<lambda>p. conn_at p c)) (\<lambda>x.
     thenE (pool_add (cn_file_no x) (cn_ip x) (cn_port x) c)
    (bindE (liftR (opt_res AssertionError (cn_peer_id x))) (\<lambda>i. modE (index_conn_node_id i c))))))"

definition pool_items :: "conn_pool \<Rightarrow> (nat \<times> nat) list" where
  "pool_items p = List.map_filter (\<lambda>(i, c). map_option (Pair i) c) (enumerate 0 (by_fileno p))"

definition pool_iter :: "conn_pool \<Rightarrow> nat list" where
  "pool_iter p = map snd (by_ipport p)"

definition pool_len :: "conn_pool \<Rightarrow> nat" where
  "pool_len p = length (by_ipport p)"

definition get_number_of_connections :: "conn_pool \<Rightarrow> int \<Rightarrow> nat" where
  "get_number_of_connections p t = length (get_by_connection_types p [t])"

section \<open>The node\<close>

definition on_connection_authenticated :: "nat \<Rightarrow> string \<times> int \<Rightarrow> unit pool_eff" where
  "on_connection_authenticated c = (\<lambda>(peer_id, connection_type).
     thenE (change_conn c (\<lambda>x. x\<lparr>cn_peer_id := Some peer_id\<rparr>))
    (bindE (getE (\<lambda>p. cn_type (conn_at p c))) (\<lambda>t. whenE (t \<noteq> connection_type) (update_connection_type c connection_type))))"

text \<open>\<open>build_connection\<close> is abstract: it returns a new connection or none. A socket without a connection is closed, and so is every socket
  for which the node returns \<open>None\<close>. The certificate of a socket with encryption gives the peer, or it is not valid.\<close>

definition initialize_connection :: "nat \<Rightarrow> string \<Rightarrow> int \<Rightarrow> pool_conn option \<Rightarrow> nat option pool_eff" where
  "initialize_connection fileno ip port built =
     (case built of
        None \<Rightarrow> returnE None
      | Some x \<Rightarrow>
          bindE (getE (\<lambda>p. length (conns p))) (\<lambda>c.
          thenE (modE (\<lambda>p. p\<lparr>conns := conns p @ [x]\<rparr>))
         (thenE (pool_add fileno ip port c) (returnE (Some c)))))"

definition on_connection_added ::
    "nat \<Rightarrow> string \<Rightarrow> int \<Rightarrow> (unit + string \<times> int) option \<Rightarrow> pool_conn option \<Rightarrow> nat option pool_eff" where
  "on_connection_added fileno ip port peer built =
     (case peer of
        None \<Rightarrow>
          bindE (getE (\<lambda>p. has_connection p (Some ip) (Some port) None)) (\<lambda>known.
            if known then returnE None else initialize_connection fileno ip port built)
      | Some (Inl _) \<Rightarrow> returnE None
      | Some (Inr (peer_id, t)) \<Rightarrow>
          bindE (getE (\<lambda>p. has_connection p (Some ip) (Some port) (Some peer_id))) (\<lambda>known.
            if known \<and> t \<noteq> RELAY_PROXY then returnE None
            else bindE (initialize_connection fileno ip port built) (\<lambda>c. case c of
                None \<Rightarrow> returnE None
              | Some c \<Rightarrow> thenE (on_connection_authenticated c (peer_id, t))
                  (thenE (modE (index_conn_node_id peer_id c)) (returnE (Some c))))))"

definition on_connection_closed :: "nat \<Rightarrow> unit pool_eff" where
  "on_connection_closed fileno =
     bindE (getE (\<lambda>p. get_by_fileno p fileno)) (\<lambda>c. case c of None \<Rightarrow> returnE () | Some c \<Rightarrow> pool_delete c)"

section \<open>What the indexes hold\<close>

text \<open>\<open>R\<close> are the connections of the pool and \<open>X\<close> what is known of them.\<close>

definition filenos_ok :: "nat option list \<Rightarrow> nat set \<Rightarrow> (nat \<Rightarrow> pool_conn) \<Rightarrow> bool" where
  "filenos_ok fs R X \<longleftrightarrow> finite R \<and> (\<forall>c \<in> R. cn_file_no (X c) < length fs) \<and>
     (\<forall>i < length fs. \<forall>c. fs ! i = Some c \<longleftrightarrow> c \<in> R \<and> cn_file_no (X c) = i)"

definition ipports_ok :: "(string \<times> int, nat) dict \<Rightarrow> nat set \<Rightarrow> (nat \<Rightarrow> pool_conn) \<Rightarrow> bool" where
  "ipports_ok d R X \<longleftrightarrow> dict_ok d \<and> (\<forall>k c. dget d k = Some c \<longleftrightarrow> c \<in> R \<and> k = (cn_ip (X c), cn_port (X c)))"

definition types_ok :: "(int, nat list) dict \<Rightarrow> nat set \<Rightarrow> (nat \<Rightarrow> pool_conn) \<Rightarrow> bool" where
  "types_ok d R X \<longleftrightarrow> dict_ok d \<and> (\<forall>t l. dget d t = Some l \<longrightarrow> l \<noteq> [] \<and> distinct l) \<and>
     (\<forall>t c. c \<in> set (dget_or [] d t) \<longleftrightarrow> c \<in> R \<and> cn_type (X c) = t)"

definition counts_ok :: "(string, int) dict \<Rightarrow> nat set \<Rightarrow> (nat \<Rightarrow> pool_conn) \<Rightarrow> bool" where
  "counts_ok d R X \<longleftrightarrow> (\<forall>a. dget d a = (if \<exists>c \<in> R. cn_ip (X c) = a then Some (int (card {c \<in> R. cn_ip (X c) = a})) else None))"

definition ids_ok :: "(string, nat) dict \<Rightarrow> nat set \<Rightarrow> (nat \<Rightarrow> pool_conn) \<Rightarrow> bool" where
  "ids_ok d R X \<longleftrightarrow> (\<forall>i c. dget d i = Some c \<longrightarrow> c \<in> R \<and> cn_peer_id (X c) = Some i \<and> i \<noteq> [])"

definition indexes :: "conn_pool \<Rightarrow> nat set \<Rightarrow> (nat \<Rightarrow> pool_conn) \<Rightarrow> bool" where
  "indexes p R X \<longleftrightarrow> len_fileno p = length (by_fileno p) \<and> filenos_ok (by_fileno p) R X \<and> ipports_ok (by_ipport p) R X \<and>
     types_ok (by_connection_type p) R X \<and> counts_ok (count_conn_by_ip p) R X \<and> ids_ok (by_node_id p) R X"

subsection \<open>A connection comes\<close>

lemma filenos_grow: "filenos_ok fs R X \<Longrightarrow> filenos_ok (fs @ replicate k None) R X"
  by (auto simp: filenos_ok_def nth_append)

lemma filenos_add:
  assumes "filenos_ok fs R X" "c \<notin> R" "i < length fs" "fs ! i = None" "cn_file_no (X c) = i"
  shows "filenos_ok (fs[i := Some c]) (insert c R) X"
proof -
  have "cn_file_no (X d) \<noteq> i" if "d \<in> R" for d using assms(1,3,4) that unfolding filenos_ok_def by fastforce
  with assms show ?thesis unfolding filenos_ok_def by (auto simp: nth_list_update)
qed

lemma ipports_add:
  assumes "ipports_ok d R X" "c \<notin> R" "dget d (cn_ip (X c), cn_port (X c)) = None"
  shows "ipports_ok (dput (cn_ip (X c), cn_port (X c)) c d) (insert c R) X"
  using assms unfolding ipports_ok_def by (auto split: if_splits) (metis option.distinct(1))+

lemma types_add:
  assumes "types_ok d R X" "c \<notin> R" "cn_type (X c) = t"
  shows "types_ok (dput t (dget_or [] d t @ [c]) d) (insert c R) X"
proof -
  have "c \<notin> set (dget_or [] d u)" for u using assms(1,2) unfolding types_ok_def by blast
  moreover have "distinct (dget_or [] d t)" using assms(1) by (auto simp: types_ok_def dget_or_def split: option.splits)
  moreover have "dget_or [] (dput t (dget_or [] d t @ [c]) d) u = (if u = t then dget_or [] d t @ [c] else dget_or [] d u)" for u
    by (simp add: dget_or_def)
  ultimately show ?thesis using assms unfolding types_ok_def by auto
qed

lemma counts_add:
  assumes "counts_ok d R X" "c \<notin> R" "finite R" "cn_ip (X c) = a"
  shows "counts_ok (dput a (dget_or 0 d a + 1) d) (insert c R) X"
proof -
  have "{x \<in> insert c R. cn_ip (X x) = a} = insert c {x \<in> R. cn_ip (X x) = a}" using assms(4) by auto
  then have "card {x \<in> insert c R. cn_ip (X x) = a} = Suc (card {x \<in> R. cn_ip (X x) = a})" using assms(2,3) by simp
  moreover have "dget_or 0 d a = int (card {x \<in> R. cn_ip (X x) = a})"
    using assms(1) by (auto simp: counts_ok_def dget_or_def card_eq_0_iff)
  moreover have "{x \<in> insert c R. cn_ip (X x) = b} = {x \<in> R. cn_ip (X x) = b}" if "b \<noteq> a" for b using assms(4) that by auto
  ultimately show ?thesis using assms(1,4) unfolding counts_ok_def by auto
qed

lemma ids_add: "ids_ok d R X \<Longrightarrow> ids_ok d (insert c R) X"
  by (auto simp: ids_ok_def)

lemma grow_run:
  "\<exists>k. grow_fileno fileno p = p\<lparr>by_fileno := by_fileno p @ replicate k None, len_fileno := len_fileno p + k\<rparr> \<and> fileno < len_fileno p + k"
proof (induction fileno p rule: grow_fileno.induct)
  case (1 fileno p)
  show ?case
  proof (cases "len_fileno p \<le> fileno")
    case True
    then have "grow_fileno fileno p = grow_fileno fileno (p\<lparr>by_fileno := by_fileno p @ replicate INITIAL_FILENO None,
        len_fileno := len_fileno p + INITIAL_FILENO\<rparr>)" by (subst grow_fileno.simps) simp
    moreover from 1 [OF True] obtain k where "grow_fileno fileno (p\<lparr>by_fileno := by_fileno p @ replicate INITIAL_FILENO None,
        len_fileno := len_fileno p + INITIAL_FILENO\<rparr>) = p\<lparr>by_fileno := by_fileno p @ replicate (INITIAL_FILENO + k) None,
        len_fileno := len_fileno p + (INITIAL_FILENO + k)\<rparr>" "fileno < len_fileno p + (INITIAL_FILENO + k)"
      by (elim exE) (simp add: replicate_add add.assoc)
    ultimately show ?thesis by (intro exI [of _ "INITIAL_FILENO + k"]) simp
  next
    case False
    then show ?thesis by (intro exI [of _ 0]) (subst grow_fileno.simps, simp)
  qed
qed

lemma pool_add_run:
  assumes "indexes p R X" "c \<notin> R" "conn_at p c = X c" "get_by_fileno p (cn_file_no (X c)) = None"
    and "dget (by_ipport p) (cn_ip (X c), cn_port (X c)) = None"
  shows "\<exists>p'. pool_add (cn_file_no (X c)) (cn_ip (X c)) (cn_port (X c)) c p = (Inr (), p') \<and> indexes p' (insert c R) X \<and> conns p' = conns p \<and>
    by_node_id p' = by_node_id p"
proof -
  let ?i = "cn_file_no (X c)"
  obtain k where k: "grow_fileno ?i p = p\<lparr>by_fileno := by_fileno p @ replicate k None, len_fileno := len_fileno p + k\<rparr>" "?i < len_fileno p + k"
    using grow_run by blast
  note ix = assms(1) [unfolded indexes_def]
  let ?fs = "by_fileno p @ replicate k None"
  have "?fs ! ?i = None" using assms(4) k(2) ix by (auto simp: get_by_fileno_def nth_append split: if_splits)
  then have f: "filenos_ok (?fs[?i := Some c]) (insert c R) X" using filenos_add [OF filenos_grow] ix assms(2) k(2) by auto
  have fin: "finite R" using ix by (simp add: filenos_ok_def)
  let ?p = "track ?i (cn_ip (X c)) (cn_port (X c)) c p"
  have "indexes ?p (insert c R) X" "conns ?p = conns p" "by_node_id ?p = by_node_id p"
    using f ix ipports_add [of "by_ipport p" R X c] types_add [OF _ assms(2)] counts_add [OF _ assms(2) fin] ids_add assms(2,3,5)
    by (auto simp: indexes_def track_def Let_def k(1))
  then show ?thesis using assms(5) by (simp add: pool_add_def bindE_apply eff_apply thenE_def guardR_def)
qed

subsection \<open>A connection goes\<close>

lemma filenos_remove:
  assumes "filenos_ok fs R X" "c \<in> R"
  shows "filenos_ok (fs[cn_file_no (X c) := None]) (R - {c}) X"
proof -
  have "d = c" if "d \<in> R" "cn_file_no (X d) = cn_file_no (X c)" for d
    using assms that unfolding filenos_ok_def by (metis option.inject)
  with assms show ?thesis unfolding filenos_ok_def by (auto simp: nth_list_update)
qed

lemma ipports_unique: "ipports_ok d R X \<Longrightarrow> c \<in> R \<Longrightarrow> dget d (cn_ip (X c), cn_port (X c)) = Some c"
  by (simp add: ipports_ok_def)

lemma ipports_remove:
  assumes "ipports_ok d R X" "c \<in> R"
  shows "ipports_ok (ddel (cn_ip (X c), cn_port (X c)) d) (R - {c}) X"
proof -
  let ?k = "(cn_ip (X c), cn_port (X c))"
  have u: "x = c" if "x \<in> R" "(cn_ip (X x), cn_port (X x)) = ?k" for x
    using trans [OF sym [OF ipports_unique [OF assms(1) that(1), unfolded that(2)]] ipports_unique [OF assms(1,2)]] by simp
  have "dget (ddel ?k d) k = Some x \<longleftrightarrow> x \<in> R - {c} \<and> k = (cn_ip (X x), cn_port (X x))" for k x
  proof (cases "k = ?k")
    case True
    with u [of x] show ?thesis by auto
  next
    case False
    have "dget d k = Some x \<longleftrightarrow> x \<in> R \<and> k = (cn_ip (X x), cn_port (X x))" using assms(1) unfolding ipports_ok_def by blast
    with False show ?thesis by (cases "x = c") simp_all
  qed
  moreover have "dict_ok (ddel ?k d)" using assms(1) by (simp add: ipports_ok_def)
  ultimately show ?thesis unfolding ipports_ok_def by blast
qed

lemma types_remove:
  assumes "types_ok d R X" "c \<in> R" "cn_type (X c) = t"
  obtains l where "dget d t = Some l" "c \<in> set l" "length l \<noteq> 1 \<Longrightarrow> types_ok (dput t (remove1 c l) d) (R - {c}) X"
    "length l = 1 \<Longrightarrow> types_ok (ddel t d) (R - {c}) X"
proof -
  have c: "c \<in> set (dget_or [] d t)" using assms unfolding types_ok_def by blast
  then obtain l where l: "dget d t = Some l" "c \<in> set l" by (cases "dget d t") (simp_all add: dget_or_def)
  have dl: "distinct l" using assms(1) l(1) unfolding types_ok_def by blast
  have m: "x \<in> set (dget_or [] d u) \<longleftrightarrow> x \<in> R \<and> cn_type (X x) = u" for u x using assms(1) unfolding types_ok_def by blast
  show ?thesis
  proof (rule that [OF l])
    assume n: "length l \<noteq> 1"
    have r: "remove1 c l \<noteq> []" using n l(2) by (metis length_remove1 length_0_conv diff_is_0_eq' le_less_linear length_pos_if_in_set less_one nat_neq_iff list.size(3) One_nat_def Suc_pred)
    have o: "dget_or [] (dput t (remove1 c l) d) u = (if u = t then remove1 c l else dget_or [] d u)" for u by (simp add: dget_or_def)
    have "set (remove1 c l) = set l - {c}" using dl by simp
    moreover have "set l = {x \<in> R. cn_type (X x) = t}" using m [of _ t] l(1) by (auto simp: dget_or_def)
    ultimately have "x \<in> set (dget_or [] (dput t (remove1 c l) d) u) \<longleftrightarrow> x \<in> R - {c} \<and> cn_type (X x) = u" for u x
      using m [of x u] assms(3) by (auto simp: o)
    then show "types_ok (dput t (remove1 c l) d) (R - {c}) X" using assms(1) r dl by (auto simp: types_ok_def)
  next
    assume "length l = 1"
    then have "l = [c]" using l(2) by (cases l) auto
    then have "{x \<in> R. cn_type (X x) = t} = {c}" using m [of _ t] l(1) by (auto simp: dget_or_def)
    moreover have "dget_or [] (ddel t d) u = (if u = t then [] else dget_or [] d u)" for u by (simp add: dget_or_def)
    ultimately have "x \<in> set (dget_or [] (ddel t d) u) \<longleftrightarrow> x \<in> R - {c} \<and> cn_type (X x) = u" for u x
      using m [of x u] by auto
    then show "types_ok (ddel t d) (R - {c}) X" using assms(1) by (auto simp: types_ok_def)
  qed
qed

lemma counts_remove:
  assumes "counts_ok d R X" "c \<in> R" "finite R" "cn_ip (X c) = a"
  defines "n \<equiv> dget_or 0 d a"
  shows "counts_ok (if n = 1 then ddel a d else dput a (n - 1) d) (R - {c}) X"
proof -
  let ?S = "\<lambda>R. {x \<in> R. cn_ip (X x) = a}"
  have c: "c \<in> ?S R" using assms(2,4) by simp
  then have n: "n = int (card (?S R))" using assms(1) by (auto simp: n_def dget_or_def counts_ok_def)
  have r: "?S (R - {c}) = ?S R - {c}" by auto
  have k: "card (?S (R - {c})) = card (?S R) - 1" "0 < card (?S R)" unfolding r using c assms(3) by (auto simp: card_gt_0_iff)
  have e: "(\<exists>x \<in> R - {c}. cn_ip (X x) = a) \<longleftrightarrow> n \<noteq> 1"
  proof -
    have "(\<exists>x \<in> R - {c}. cn_ip (X x) = a) \<longleftrightarrow> ?S (R - {c}) \<noteq> {}" by auto
    also have "\<dots> \<longleftrightarrow> card (?S (R - {c})) \<noteq> 0" using assms(3) by (simp add: card_eq_0_iff)
    finally show ?thesis using k n by auto
  qed
  have o: "{x \<in> R - {c}. cn_ip (X x) = b} = {x \<in> R. cn_ip (X x) = b}" "(\<exists>x \<in> R - {c}. cn_ip (X x) = b) \<longleftrightarrow> (\<exists>x \<in> R. cn_ip (X x) = b)"
    if "b \<noteq> a" for b using assms(4) that by auto
  have "dget (if n = 1 then ddel a d else dput a (n - 1) d) b =
      (if \<exists>x \<in> R - {c}. cn_ip (X x) = b then Some (int (card {x \<in> R - {c}. cn_ip (X x) = b})) else None)" for b
  proof (cases "b = a")
    case True
    have "int (card (?S (R - {c}))) = n - 1" using k n by simp
    with True e show ?thesis by simp
  next
    case False
    with o [OF False] assms(1) show ?thesis unfolding counts_ok_def by simp
  qed
  then show ?thesis unfolding counts_ok_def by blast
qed

lemma ids_remove:
  assumes "ids_ok d R X"
  shows "ids_ok (case cn_peer_id (X c) of Some i \<Rightarrow> if i \<noteq> [] then ddel i d else d | None \<Rightarrow> d) (R - {c}) X"
  using assms unfolding ids_ok_def by (cases "cn_peer_id (X c)") (fastforce split: if_splits)+

lemma pool_delete_run:
  assumes "indexes p R X" "c \<in> R" "\<forall>d \<in> R. conn_at p d = X d"
  shows "\<exists>p'. pool_delete c p = (Inr (), p') \<and> indexes p' (R - {c}) X \<and> conns p' = conns p \<and>
    by_node_id p' = (case cn_peer_id (X c) of Some i \<Rightarrow> if i \<noteq> [] then ddel i (by_node_id p) else by_node_id p | None \<Rightarrow> by_node_id p)"
proof -
  note ix = assms(1) [unfolded indexes_def]
  let ?x = "X c"
  have x: "conn_at p c = ?x" using assms(2,3) by simp
  have i: "cn_file_no ?x < length (by_fileno p)" "finite R" using ix assms(2) by (simp_all add: filenos_ok_def)
  obtain l where l: "dget (by_connection_type p) (cn_type ?x) = Some l" "c \<in> set l"
    "length l \<noteq> 1 \<Longrightarrow> types_ok (dput (cn_type ?x) (remove1 c l) (by_connection_type p)) (R - {c}) X"
    "length l = 1 \<Longrightarrow> types_ok (ddel (cn_type ?x) (by_connection_type p)) (R - {c}) X"
    using types_remove [OF _ assms(2) refl] ix by blast
  define T where "T = (if length l = 1 then ddel (cn_type ?x) (by_connection_type p) else dput (cn_type ?x) (remove1 c l) (by_connection_type p))"
  have T: "types_ok T (R - {c}) X" using l(3,4) by (simp add: T_def)
  define N where "N = (case cn_peer_id ?x of Some i \<Rightarrow> if i \<noteq> [] then ddel i (by_node_id p) else by_node_id p | None \<Rightarrow> by_node_id p)"
  define p1 where "p1 = p\<lparr>by_fileno := (by_fileno p)[cn_file_no ?x := None]\<rparr>"
  define p2 where "p2 = p1\<lparr>by_ipport := ddel (cn_ip ?x, cn_port ?x) (by_ipport p)\<rparr>"
  define p3 where "p3 = p2\<lparr>by_connection_type := T\<rparr>"
  define p4 where "p4 = drop_count ?x p3"
  define p' where "p' = p4\<lparr>by_node_id := N\<rparr>"
  have a: "dget (by_ipport p) (cn_ip ?x, cn_port ?x) = Some c" using ipports_unique ix assms(2) by blast
  have 1: "clear_fileno (cn_file_no ?x) p = (Inr (), p1)" using i by (simp add: clear_fileno_def bindE_apply eff_apply thenE_def guardR_def p1_def)
  have 2: "drop_ipport ?x p1 = p2" using a x by (simp add: drop_ipport_def p1_def p2_def)
  have 3: "drop_type ?x c p2 = (Inr (), p3)" using l(1,2)
    by (simp add: drop_type_def bindE_apply eff_apply thenE_def guardR_def p1_def p2_def p3_def T_def)
  have 4: "drop_node_id ?x p4 = p'"
    by (simp add: drop_node_id_def p'_def N_def p4_def drop_count_def Let_def p3_def p2_def p1_def split: option.splits)
  have "pool_delete c p = (Inr (), p')"
    by (simp add: pool_delete_def bindE_apply eff_apply thenE_def x 1 2 3 4 flip: p4_def)
  moreover define C where "C = (let n = dget_or 0 (count_conn_by_ip p) (cn_ip ?x)
      in if n = 1 then ddel (cn_ip ?x) (count_conn_by_ip p) else dput (cn_ip ?x) (n - 1) (count_conn_by_ip p))"
  have "counts_ok C (R - {c}) X" using counts_remove [OF _ assms(2) i(2) refl, of "count_conn_by_ip p"] ix unfolding C_def Let_def by blast
  moreover have "count_conn_by_ip p' = C" by (simp add: p'_def p4_def drop_count_def Let_def p3_def p2_def p1_def C_def)
  ultimately have "pool_delete c p = (Inr (), p')" "indexes p' (R - {c}) X"
    using ix T filenos_remove [OF _ assms(2)] ipports_remove [OF _ assms(2)] ids_remove
    by (simp_all add: indexes_def p'_def p4_def drop_count_def Let_def p3_def p2_def p1_def N_def)
  moreover have "conns p' = conns p" "by_node_id p' = N"
    by (simp_all add: p'_def p4_def drop_count_def Let_def p3_def p2_def p1_def)
  ultimately show ?thesis unfolding N_def by blast
qed

lemma indexes_other:
  assumes "indexes p R X" "\<forall>c \<in> R. X' c = X c"
  shows "indexes p R X'"
proof -
  have "{c \<in> R. cn_ip (X' c) = a} = {c \<in> R. cn_ip (X c) = a}" "(\<exists>c \<in> R. cn_ip (X' c) = a) = (\<exists>c \<in> R. cn_ip (X c) = a)" for a using assms(2) by auto
  then have "counts_ok d R X' = counts_ok d R X" for d by (simp add: counts_ok_def)
  moreover have "filenos_ok fs R X' = filenos_ok fs R X" for fs using assms(2) unfolding filenos_ok_def by auto
  moreover have "ipports_ok d R X' = ipports_ok d R X" for d using assms(2) unfolding ipports_ok_def by auto
  moreover have "types_ok d R X' = types_ok d R X" for d using assms(2) unfolding types_ok_def by auto
  moreover have "ids_ok d R X \<Longrightarrow> ids_ok d R X'" for d using assms(2) unfolding ids_ok_def by metis
  ultimately show ?thesis using assms(1) by (simp add: indexes_def)
qed

lemma indexes_file_iff: "indexes p R X \<Longrightarrow> get_by_fileno p i = Some c \<longleftrightarrow> c \<in> R \<and> cn_file_no (X c) = i"
  unfolding indexes_def filenos_ok_def get_by_fileno_def by (cases "i < length (by_fileno p)") auto

lemma indexes_file: "indexes p R X \<Longrightarrow> c \<in> R \<Longrightarrow> get_by_fileno p (cn_file_no (X c)) = Some c"
  by (simp add: indexes_file_iff)

lemma indexes_ipport: "indexes p R X \<Longrightarrow> dget (by_ipport p) k = Some c \<longleftrightarrow> c \<in> R \<and> k = (cn_ip (X c), cn_port (X c))"
  unfolding indexes_def ipports_ok_def by blast

text \<open>Where another connection has been, it can be put back.\<close>

lemma room_again:
  assumes "indexes p R X" "c \<in> R" "indexes p' (R - {c}) X"
  shows "get_by_fileno p' (cn_file_no (X c)) = None" "dget (by_ipport p') (cn_ip (X c), cn_port (X c)) = None"
proof -
  have "d = c" if "d \<in> R" "cn_file_no (X d) = cn_file_no (X c)" for d
    using indexes_file [OF assms(1)] assms(2) that by (metis option.inject)
  then show "get_by_fileno p' (cn_file_no (X c)) = None"
    using indexes_file_iff [OF assms(3), of "cn_file_no (X c)"] by (cases "get_by_fileno p' (cn_file_no (X c))") auto
  let ?k = "(cn_ip (X c), cn_port (X c))"
  have "d = c" if "d \<in> R" "?k = (cn_ip (X d), cn_port (X d))" for d
  proof -
    have "dget (by_ipport p) ?k = Some d" using indexes_ipport [OF assms(1)] that by blast
    moreover have "dget (by_ipport p) ?k = Some c" using indexes_ipport [OF assms(1)] assms(2) by blast
    ultimately show ?thesis by simp
  qed
  then show "dget (by_ipport p') ?k = None"
    using indexes_ipport [OF assms(3), of ?k] by (cases "dget (by_ipport p') ?k") auto
qed

lemma update_connection_type_run:
  fixes t :: int
  assumes "indexes p R X" "c \<in> R" "\<forall>d \<in> R. conn_at p d = X d" "R \<subseteq> {..<length (conns p)}" "cn_peer_id (X c) = Some i" "i \<noteq> []"
  defines "X' \<equiv> X(c := (X c)\<lparr>cn_type := t\<rparr>)"
  shows "\<exists>p'. update_connection_type c t p = (Inr (), p') \<and> indexes p' R X' \<and> conns p' = (conns p)[c := X' c]"
proof -
  obtain p1 where p1: "pool_delete c p = (Inr (), p1)" "indexes p1 (R - {c}) X" "conns p1 = conns p"
    using pool_delete_run [OF assms(1-3)] by blast
  have c: "c < length (conns p)" using assms(2,4) by auto
  define p2 where "p2 = p1\<lparr>conns := (conns p)[c := X' c]\<rparr>"
  have i2: "indexes p2 (R - {c}) X'"
  proof -
    have "indexes p1 (R - {c}) X'" by (rule indexes_other [OF p1(2)]) (simp add: X'_def)
    then show ?thesis by (simp add: p2_def indexes_def)
  qed
  have x2: "conn_at p2 c = X' c" using c by (simp add: p2_def)
  have same: "cn_file_no (X' c) = cn_file_no (X c)" "cn_ip (X' c) = cn_ip (X c)" "cn_port (X' c) = cn_port (X c)" "cn_peer_id (X' c) = Some i"
    using assms(5) by (simp_all add: X'_def)
  have free: "get_by_fileno p2 (cn_file_no (X' c)) = None" "dget (by_ipport p2) (cn_ip (X' c), cn_port (X' c)) = None"
    using room_again [OF assms(1,2) p1(2)] by (auto simp: p2_def same get_by_fileno_def split: if_splits)
  have "c \<notin> R - {c}" by simp
  from pool_add_run [OF i2 this x2 free] obtain p3 where
    p3: "pool_add (cn_file_no (X' c)) (cn_ip (X' c)) (cn_port (X' c)) c p2 = (Inr (), p3)" "indexes p3 (insert c (R - {c})) X'"
      "conns p3 = conns p2" by blast
  have r: "insert c (R - {c}) = R" using assms(2) by auto
  define p4 where "p4 = index_conn_node_id i c p3"
  have "change_conn c (\<lambda>x. x\<lparr>cn_type := t\<rparr>) p1 = (Inr (), p2)"
    using assms(2,3) p1(3) by (simp add: change_conn_def eff_apply p2_def X'_def)
  with p1(1) p3(1) have "update_connection_type c t p = (Inr (), p4)"
    by (simp add: update_connection_type_def bindE_apply eff_apply thenE_def x2 same(4) p4_def)
  moreover have "indexes p4 R X'" using p3(2) assms(2,6) same(4) unfolding r by (auto simp: indexes_def p4_def index_conn_node_id_def ids_ok_def)
  moreover have "conns p4 = (conns p)[c := X' c]" by (simp add: p4_def index_conn_node_id_def p3(3) p2_def)
  ultimately show ?thesis by blast
qed

text \<open>A pool and its connections: every index agrees with the connections that the table of the file numbers holds.\<close>

definition tracked :: "conn_pool \<Rightarrow> nat set" where
  "tracked p = {c. Some c \<in> set (by_fileno p)}"

definition pool_ok :: "conn_pool \<Rightarrow> bool" where
  "pool_ok p \<longleftrightarrow> indexes p (tracked p) (conn_at p) \<and> tracked p \<subseteq> {..<length (conns p)}"

lemma tracked_indexes: "indexes p R X \<Longrightarrow> tracked p = R"
  by (auto simp: tracked_def indexes_def filenos_ok_def in_set_conv_nth)

lemma pool_okI: "indexes p R (conn_at p) \<Longrightarrow> R \<subseteq> {..<length (conns p)} \<Longrightarrow> pool_ok p"
  using tracked_indexes by (simp add: pool_ok_def)

lemma new_pool_ok: "pool_ok ConnectionPool"
  by (rule pool_okI [of _ "{}"]) (auto simp: ConnectionPool_def indexes_def filenos_ok_def ipports_ok_def types_ok_def counts_ok_def ids_ok_def dget_or_def)

lemma more_conns_ok:
  assumes "pool_ok p"
  shows "indexes (p\<lparr>conns := conns p @ xs\<rparr>) (tracked p) (conn_at (p\<lparr>conns := conns p @ xs\<rparr>))" "pool_ok (p\<lparr>conns := conns p @ xs\<rparr>)"
proof -
  have "indexes p (tracked p) (conn_at (p\<lparr>conns := conns p @ xs\<rparr>))"
    by (rule indexes_other [of _ _ "conn_at p"]) (use assms in \<open>auto simp: pool_ok_def nth_append\<close>)
  then show "indexes (p\<lparr>conns := conns p @ xs\<rparr>) (tracked p) (conn_at (p\<lparr>conns := conns p @ xs\<rparr>))" by (simp add: indexes_def)
  then show "pool_ok (p\<lparr>conns := conns p @ xs\<rparr>)" by (rule pool_okI) (use assms in \<open>auto simp: pool_ok_def\<close>)
qed

lemma closed_run:
  assumes "pool_ok p"
  shows "\<exists>p'. on_connection_closed fileno p = (Inr (), p') \<and> pool_ok p' \<and> conns p' = conns p \<and>
    tracked p' = {c \<in> tracked p. cn_file_no (conn_at p c) \<noteq> fileno}"
proof (cases "get_by_fileno p fileno")
  case None
  then have "cn_file_no (conn_at p c) \<noteq> fileno" if "c \<in> tracked p" for c
    using indexes_file [OF conjunct1 [OF assms [unfolded pool_ok_def]] that] None by auto
  with None assms show ?thesis by (auto simp: on_connection_closed_def bindE_apply eff_apply)
next
  case (Some c)
  note ix = assms [unfolded pool_ok_def]
  have c: "c \<in> tracked p" "cn_file_no (conn_at p c) = fileno" using Some ix indexes_file_iff by blast+
  obtain p' where p': "pool_delete c p = (Inr (), p')" "indexes p' (tracked p - {c}) (conn_at p)" "conns p' = conns p"
    using pool_delete_run [OF conjunct1 [OF ix] c(1)] by blast
  have "d = c" if "d \<in> tracked p" "cn_file_no (conn_at p d) = fileno" for d
    using indexes_file_iff [OF conjunct1 [OF ix]] that Some by (metis option.inject)
  then have "{d \<in> tracked p. cn_file_no (conn_at p d) \<noteq> fileno} = tracked p - {c}" using c by blast
  moreover have "pool_ok p'" using p'(2) ix by (intro pool_okI [of _ "tracked p - {c}"]) (auto simp: p'(3))
  ultimately show ?thesis using Some p' tracked_indexes [OF p'(2)] by (simp add: on_connection_closed_def bindE_apply eff_apply)
qed

lemma initialize_run:
  assumes "pool_ok p" "get_by_fileno p (cn_file_no x) = None" "dget (by_ipport p) (cn_ip x, cn_port x) = None"
  shows "\<exists>p'. initialize_connection (cn_file_no x) (cn_ip x) (cn_port x) (Some x) p = (Inr (Some (length (conns p))), p') \<and> pool_ok p' \<and>
    conns p' = conns p @ [x] \<and> tracked p' = insert (length (conns p)) (tracked p) \<and> by_node_id p' = by_node_id p"
proof -
  let ?c = "length (conns p)" and ?p = "p\<lparr>conns := conns p @ [x]\<rparr>"
  have c: "?c \<notin> tracked p" using assms(1) by (auto simp: pool_ok_def)
  have x: "conn_at ?p ?c = x" by simp
  have "get_by_fileno ?p (cn_file_no (conn_at ?p ?c)) = None" using assms(2) by (auto simp: x get_by_fileno_def split: if_splits)
  moreover have "dget (by_ipport ?p) (cn_ip (conn_at ?p ?c), cn_port (conn_at ?p ?c)) = None" using assms(3) by (simp add: x)
  ultimately obtain p' where p': "pool_add (cn_file_no x) (cn_ip x) (cn_port x) ?c ?p = (Inr (), p')" "indexes p' (insert ?c (tracked p)) (conn_at ?p)"
    "conns p' = conns p @ [x]" "by_node_id p' = by_node_id p"
    using pool_add_run [OF more_conns_ok(1) [OF assms(1), of "[x]"] c refl] by auto
  have "pool_ok p'" by (rule pool_okI [of _ "insert ?c (tracked p)"]) (use p'(2,3) assms(1) in \<open>auto simp: pool_ok_def\<close>)
  then show ?thesis using p' tracked_indexes [OF p'(2)] by (simp add: initialize_connection_def bindE_apply eff_apply thenE_def)
qed

lemma authenticated_run:
  assumes "pool_ok p" "c \<in> tracked p" "cn_peer_id (conn_at p c) = None" "i \<noteq> []"
  shows "\<exists>p'. on_connection_authenticated c (i, t) p = (Inr (), p') \<and> pool_ok p' \<and> tracked p' = tracked p \<and>
    conns p' = (conns p)[c := (conn_at p c)\<lparr>cn_peer_id := Some i, cn_type := t\<rparr>]"
proof -
  note ix = assms(1) [unfolded pool_ok_def]
  have c: "c < length (conns p)" using ix assms(2) by auto
  define X where "X = (conn_at p)(c := (conn_at p c)\<lparr>cn_peer_id := Some i\<rparr>)"
  define p1 where "p1 = p\<lparr>conns := (conns p)[c := X c]\<rparr>"
  have same: "cn_file_no (X d) = cn_file_no (conn_at p d)" "cn_ip (X d) = cn_ip (conn_at p d)" "cn_port (X d) = cn_port (conn_at p d)"
    "cn_type (X d) = cn_type (conn_at p d)" for d
    by (simp_all add: X_def)
  have "ids_ok (by_node_id p) (tracked p) X" using ix assms(3) by (auto simp: indexes_def ids_ok_def X_def)
  then have i1: "indexes p1 (tracked p) X"
    using ix unfolding indexes_def p1_def filenos_ok_def ipports_ok_def types_ok_def counts_ok_def by (simp add: same)
  have X: "X = conn_at p1" using c by (auto simp: X_def p1_def fun_eq_iff)
  have t1: "tracked p1 = tracked p" by (rule tracked_indexes [OF i1])
  have l1: "tracked p \<subseteq> {..<length (conns p1)}" using ix by (simp add: p1_def)
  have ok1: "pool_ok p1" by (rule pool_okI [OF i1 [unfolded X] l1])
  have ch: "change_conn c (\<lambda>x. x\<lparr>cn_peer_id := Some i\<rparr>) p = (Inr (), p1)" by (simp add: change_conn_def eff_apply p1_def X_def)
  show ?thesis
  proof (cases "cn_type (conn_at p c) = t")
    case True
    then have "conns p1 = (conns p)[c := (conn_at p c)\<lparr>cn_peer_id := Some i, cn_type := t\<rparr>]"
      by (cases "conn_at p c") (simp add: p1_def X_def)
    with True ok1 t1 ch show ?thesis using c
      by (simp add: on_connection_authenticated_def bindE_apply eff_apply thenE_def whenE_def p1_def X_def)
  next
    case False
    have "cn_peer_id (X c) = Some i" by (simp add: X_def)
    from update_connection_type_run [OF i1 assms(2) _ l1 this assms(4), of t] obtain p' where
      p': "update_connection_type c t p1 = (Inr (), p')" "indexes p' (tracked p) (X(c := (X c)\<lparr>cn_type := t\<rparr>))" "conns p' = (conns p1)[c := (X c)\<lparr>cn_type := t\<rparr>]"
      using X by auto
    have cs: "conns p' = (conns p)[c := (conn_at p c)\<lparr>cn_peer_id := Some i, cn_type := t\<rparr>]" using p'(3) by (simp add: p1_def X_def)
    have "X(c := (X c)\<lparr>cn_type := t\<rparr>) = conn_at p'" using c by (auto simp: cs X_def fun_eq_iff)
    with p'(2) ix have "pool_ok p'" by (intro pool_okI [of _ "tracked p"]) (simp_all add: cs)
    moreover have "on_connection_authenticated c (i, t) p = (Inr (), p')"
      using False ch p'(1) c by (simp add: on_connection_authenticated_def bindE_apply eff_apply thenE_def whenE_def p1_def X_def)
    ultimately show ?thesis using cs tracked_indexes [OF p'(2)] by blast
  qed
qed

section \<open>Runs\<close>

lemma index_ok: "pool_ok p \<Longrightarrow> c \<in> tracked p \<Longrightarrow> cn_peer_id (conn_at p c) = Some i \<Longrightarrow> i \<noteq> [] \<Longrightarrow> pool_ok (index_conn_node_id i c p)"
  by (rule pool_okI [of _ "tracked p"]) (auto simp: pool_ok_def indexes_def index_conn_node_id_def ids_ok_def)

lemma address_taken:
  assumes "dget (by_ipport p) (ip, port) \<noteq> None"
  shows "initialize_connection fileno ip port (Some x) p = (Inl AssertionError, p\<lparr>conns := conns p @ [x]\<rparr>)"
proof -
  obtain c where "dget (by_ipport p) (ip, port) = Some c" using assms by blast
  then show ?thesis by (simp add: initialize_connection_def pool_add_def bindE_apply eff_apply thenE_def guardR_def)
qed

text \<open>What a node gets with a new connection: the file number is not in use, the new object belongs to the socket, and the certificate names a peer.\<close>

definition fits :: "nat \<Rightarrow> string \<Rightarrow> int \<Rightarrow> (unit + string \<times> int) option \<Rightarrow> pool_conn option \<Rightarrow> conn_pool \<Rightarrow> bool" where
  "fits fileno ip port peer built p \<longleftrightarrow> get_by_fileno p fileno = None \<and>
     (\<forall>x. built = Some x \<longrightarrow> cn_file_no x = fileno \<and> cn_ip x = ip \<and> cn_port x = port \<and> cn_peer_id x = None) \<and>
     (\<forall>i t. peer = Some (Inr (i, t)) \<longrightarrow> i \<noteq> [])"

lemma added_run:
  assumes "pool_ok p" "fits fileno ip port peer built p"
  shows "\<exists>r p'. on_connection_added fileno ip port peer built p = (r, p') \<and> pool_ok p' \<and>
    (case r of
       Inl e \<Rightarrow> e = AssertionError \<and> dget (by_ipport p) (ip, port) \<noteq> None \<and> (\<exists>i. peer = Some (Inr (i, RELAY_PROXY))) \<and> tracked p' = tracked p
     | Inr None \<Rightarrow> p' = p
     | Inr (Some c) \<Rightarrow> c \<notin> tracked p \<and> tracked p' = insert c (tracked p) \<and> dget (by_ipport p) (ip, port) = None \<and>
         (\<forall>i t. peer = Some (Inr (i, t)) \<longrightarrow> get_by_node_id p' i = Inr c \<and> cn_type (conn_at p' c) = t))"
proof -
  have fresh: "length (conns p) \<notin> tracked p" using assms(1) by (auto simp: pool_ok_def)
  show ?thesis
  proof (cases built)
    case None
    with assms(1) show ?thesis
      by (auto simp: on_connection_added_def initialize_connection_def bindE_apply eff_apply split: option.split sum.split)
  next
    case (Some x)
    have x: "cn_file_no x = fileno" "cn_ip x = ip" "cn_port x = port" "cn_peer_id x = None" "get_by_fileno p (cn_file_no x) = None"
      using assms(2) Some by (auto simp: fits_def)
    show ?thesis
    proof (cases "dget (by_ipport p) (ip, port)")
      case (Some old)
      have moved: "pool_ok (p\<lparr>conns := conns p @ [x]\<rparr>)" "tracked (p\<lparr>conns := conns p @ [x]\<rparr>) = tracked p"
        using more_conns_ok(2) [OF assms(1)] by (simp_all add: tracked_def)
      show ?thesis
        using Some assms(1) moved address_taken [of p ip port fileno x] \<open>built = Some x\<close>
        by (cases peer) (auto simp: on_connection_added_def has_connection_def bindE_apply eff_apply split: sum.split)
    next
      case None
      then have free: "dget (by_ipport p) (cn_ip x, cn_port x) = None" by (simp add: x)
      from initialize_run [OF assms(1) x(5) this] obtain p1 where
        p1: "initialize_connection fileno ip port (Some x) p = (Inr (Some (length (conns p))), p1)" "pool_ok p1" "conns p1 = conns p @ [x]"
          "tracked p1 = insert (length (conns p)) (tracked p)" by (auto simp: x)
      show ?thesis
      proof (cases "\<exists>i t. peer = Some (Inr (i, t))")
        case False
        then show ?thesis using None assms(1) p1 fresh \<open>built = Some x\<close>
          by (cases peer) (auto simp: on_connection_added_def has_connection_def bindE_apply eff_apply split: sum.split)
      next
        case True
        then obtain i t where peer: "peer = Some (Inr (i, t))" by blast
        have i: "i \<noteq> []" using assms(2) peer by (simp add: fits_def)
        have "length (conns p) \<in> tracked p1" "cn_peer_id (conn_at p1 (length (conns p))) = None" using p1(3,4) x(4) by simp_all
        from authenticated_run [OF p1(2) this i, of t] obtain p2 where
          p2: "on_connection_authenticated (length (conns p)) (i, t) p1 = (Inr (), p2)" "pool_ok p2" "tracked p2 = tracked p1"
            "conns p2 = (conns p1)[length (conns p) := (conn_at p1 (length (conns p)))\<lparr>cn_peer_id := Some i, cn_type := t\<rparr>]" by blast
        let ?p = "index_conn_node_id i (length (conns p)) p2"
        have "pool_ok ?p" using index_ok [OF p2(2) _ _ i] p2(3,4) p1(3,4) by simp
        moreover have "tracked ?p = tracked p1" using p2(3) by (simp add: tracked_def index_conn_node_id_def)
        moreover have "get_by_node_id ?p i = Inr (length (conns p))" "cn_type (conn_at ?p (length (conns p))) = t"
          using p2(4) p1(3) by (simp_all add: get_by_node_id_def index_conn_node_id_def)
        ultimately show ?thesis using p1 p2(1) fresh None assms(1) peer \<open>built = Some x\<close>
          by (auto simp: on_connection_added_def bindE_apply eff_apply thenE_def)
      qed
    qed
  qed
qed

inductive pool_step :: "conn_pool \<Rightarrow> conn_pool \<Rightarrow> bool" where
  added: "fits fileno ip port peer built p \<Longrightarrow> on_connection_added fileno ip port peer built p = (r, p') \<Longrightarrow> pool_step p p'"
| closed: "on_connection_closed fileno p = (r, p') \<Longrightarrow> pool_step p p'"

inductive_cases pool_stepE: "pool_step p p'"

lemma pool_step_ok: "pool_step p p' \<Longrightarrow> pool_ok p \<Longrightarrow> pool_ok p'"
proof (elim pool_stepE)
  fix fileno ip port peer built r
  assume "pool_ok p" "fits fileno ip port peer built p" "on_connection_added fileno ip port peer built p = (r, p')"
  with added_run [of p fileno ip port peer built] show ?thesis by auto
next
  fix fileno r
  assume "pool_ok p" "on_connection_closed fileno p = (r, p')"
  with closed_run [of p fileno] show ?thesis by auto
qed

lemma pool_run_ok: "pool_step\<^sup>*\<^sup>* ConnectionPool p \<Longrightarrow> pool_ok p"
  by (induction rule: rtranclp_induct) (auto intro: new_pool_ok pool_step_ok)

subsection \<open>What the look-ups return\<close>

lemma types_listed:
  assumes "types_ok d R X"
  shows "set (concat (map snd (filter (\<lambda>(t, _). P t) d))) = {c \<in> R. P (cn_type (X c))}" "distinct (concat (map snd (filter (\<lambda>(t, _). P t) d)))"
proof -
  have ok: "dict_ok d" using assms by (simp add: types_ok_def)
  have m: "c \<in> set l \<longleftrightarrow> c \<in> R \<and> cn_type (X c) = t" if "(t, l) \<in> set d" for t l c
  proof -
    have "dget d t = Some l" using dget_mem [OF ok that] .
    then have "dget_or [] d t = l" by (simp add: dget_or_def)
    with assms show ?thesis unfolding types_ok_def by blast
  qed
  have k: "\<exists>l. (cn_type (X c), l) \<in> set d" if "c \<in> R" for c
  proof -
    have "c \<in> set (dget_or [] d (cn_type (X c)))" using assms that unfolding types_ok_def by blast
    then show ?thesis by (cases "dget d (cn_type (X c))") (auto simp: dget_or_def dest: map_of_SomeD)
  qed
  show "set (concat (map snd (filter (\<lambda>(t, _). P t) d))) = {c \<in> R. P (cn_type (X c))}"
  proof (intro set_eqI iffI)
    fix c assume "c \<in> set (concat (map snd (filter (\<lambda>(t, _). P t) d)))"
    then obtain t l where "(t, l) \<in> set d" "P t" "c \<in> set l" by auto
    with m show "c \<in> {c \<in> R. P (cn_type (X c))}" by auto
  next
    fix c assume c: "c \<in> {c \<in> R. P (cn_type (X c))}"
    then obtain l where "(cn_type (X c), l) \<in> set d" using k by blast
    with m [OF this, of c] c show "c \<in> set (concat (map snd (filter (\<lambda>(t, _). P t) d)))" by force
  qed
  have l: "distinct l" if "(t, l) \<in> set d" for t l using assms dget_mem [OF ok that] unfolding types_ok_def by blast
  have "distinct (concat (map snd (filter (\<lambda>(t, _). P t) e)))" if "dict_ok e" "set e \<subseteq> set d" for e
    using that
  proof (induction e)
    case (Cons x e)
    obtain t l' where x: "x = (t, l')" by (cases x)
    have "t \<notin> fst ` set e" using Cons.prems(1) x by (simp add: dict_ok_def)
    then have "set l' \<inter> set (concat (map snd (filter (\<lambda>(t, _). P t) e))) = {}"
      using m Cons.prems(2) x by (fastforce simp: image_iff)
    moreover have "distinct (concat (map snd (filter (\<lambda>(t, _). P t) e)))"
      using Cons by (simp add: dict_ok_def)
    moreover have "distinct l'" using l [of t l'] Cons.prems(2) x by simp
    ultimately show ?case by (simp add: x)
  qed simp
  from this [OF ok subset_refl] show "distinct (concat (map snd (filter (\<lambda>(t, _). P t) d)))" .
qed

lemma ipports_length:
  assumes "ipports_ok d R X"
  shows "length d = card R"
proof -
  let ?k = "\<lambda>c. (cn_ip (X c), cn_port (X c))"
  have d: "dict_ok d" "\<And>k c. dget d k = Some c \<longleftrightarrow> c \<in> R \<and> k = ?k c" using assms by (simp_all only: ipports_ok_def simp_thms)
  have "inj_on ?k R"
  proof (rule inj_onI)
    fix a b assume "a \<in> R" "b \<in> R" "?k a = ?k b"
    then have "dget d (?k a) = Some a" "dget d (?k a) = Some b" using d(2) by blast+
    then show "a = b" by simp
  qed
  moreover have "set (dkeys d) = ?k ` R"
    using d(2) unfolding set_eq_iff dget_Some_iff_key [symmetric] by blast
  ultimately have "card (set (dkeys d)) = card R" by (simp add: card_image)
  moreover have "card (set (dkeys d)) = length d" using d(1) distinct_card [of "dkeys d"] by (simp add: dict_ok_def)
  ultimately show ?thesis by simp
qed

text \<open>(C25) Over any run of connections that come and go, the indexes of the pool agree: a connection of the pool is found by its file number and its
  address, the connections of a type are exactly those with a common bit, each once, the pool's length and the count of an address are
  the numbers of connections, an id leads to a connection of that peer, and closing a connection never fails.\<close>

theorem pool_consistent:
  assumes "pool_step\<^sup>*\<^sup>* ConnectionPool p"
  shows "(\<forall>c \<in> tracked p. get_by_fileno p (cn_file_no (conn_at p c)) = Some c \<and> get_by_ipport p (cn_ip (conn_at p c)) (cn_port (conn_at p c)) None = Inr c) \<and>
    set (get_by_connection_types p [t]) = {c \<in> tracked p. cn_type (conn_at p c) AND t \<noteq> 0} \<and>
    get_number_of_connections p t = card {c \<in> tracked p. cn_type (conn_at p c) AND t \<noteq> 0} \<and>
    pool_len p = card (tracked p) \<and>
    dget_or 0 (count_conn_by_ip p) ip = int (card {c \<in> tracked p. cn_ip (conn_at p c) = ip}) \<and>
    (\<forall>i c. get_by_node_id p i = Inr c \<longrightarrow> c \<in> tracked p \<and> cn_peer_id (conn_at p c) = Some i) \<and>
    (\<exists>p'. on_connection_closed fileno p = (Inr (), p') \<and> get_by_fileno p' fileno = None)"
proof -
  have ok: "pool_ok p" using assms by (rule pool_run_ok)
  then have ix: "indexes p (tracked p) (conn_at p)" by (simp add: pool_ok_def)
  have types: "types_ok (by_connection_type p) (tracked p) (conn_at p)" using ix by (simp add: indexes_def)
  note listed = types_listed [OF types, of "\<lambda>u. u AND t \<noteq> 0"]
  have "get_by_connection_types p [t] = concat (map snd (filter (\<lambda>(u, _). u AND t \<noteq> 0) (by_connection_type p)))"
    by (simp add: get_by_connection_types_def)
  with listed have "set (get_by_connection_types p [t]) = {c \<in> tracked p. cn_type (conn_at p c) AND t \<noteq> 0}"
    "get_number_of_connections p t = card {c \<in> tracked p. cn_type (conn_at p c) AND t \<noteq> 0}"
    by (simp_all add: get_number_of_connections_def flip: distinct_card)
  moreover have "\<forall>c \<in> tracked p. get_by_fileno p (cn_file_no (conn_at p c)) = Some c \<and> get_by_ipport p (cn_ip (conn_at p c)) (cn_port (conn_at p c)) None = Inr c"
  proof -
    have "dget (by_ipport p) (cn_ip (conn_at p c), cn_port (conn_at p c)) = Some c" if "c \<in> tracked p" for c
      using indexes_ipport [OF ix] that by blast
    then show ?thesis using indexes_file [OF ix] by (simp add: get_by_ipport_def)
  qed
  moreover have "pool_len p = card (tracked p)" using ix ipports_length unfolding pool_len_def indexes_def by blast
  moreover have "finite (tracked p)" using ix by (simp add: indexes_def filenos_ok_def)
  then have "dget_or 0 (count_conn_by_ip p) ip = int (card {c \<in> tracked p. cn_ip (conn_at p c) = ip})"
    using ix by (auto simp: indexes_def counts_ok_def dget_or_def)
  moreover have "\<forall>i c. get_by_node_id p i = Inr c \<longrightarrow> c \<in> tracked p \<and> cn_peer_id (conn_at p c) = Some i"
    using ix by (simp add: indexes_def ids_ok_def get_by_node_id_def)
  moreover obtain p' where p': "on_connection_closed fileno p = (Inr (), p')" "pool_ok p'" "conns p' = conns p"
      "tracked p' = {c \<in> tracked p. cn_file_no (conn_at p c) \<noteq> fileno}"
    using closed_run [OF ok] by blast
  have "get_by_fileno p' fileno = None"
    using indexes_file_iff [of p' "tracked p'" "conn_at p'" fileno] p'(2-4) by (cases "get_by_fileno p' fileno") (auto simp: pool_ok_def)
  ultimately show ?thesis using p'(1) by blast
qed

text \<open>(C26) A relay proxy may have two connections to a node. When one of them is closed, the id of the peer is forgotten, although the other connection is still there
  and the id led to it.\<close>

theorem replaced_peer_lost:
  assumes "pool_step\<^sup>*\<^sup>* ConnectionPool p" "c \<in> tracked p" "d \<in> tracked p" "c \<noteq> d" "i \<noteq> []"
    and "cn_peer_id (conn_at p c) = Some i" "get_by_node_id p i = Inr d"
  shows "\<exists>p'. on_connection_closed (cn_file_no (conn_at p c)) p = (Inr (), p') \<and> d \<in> tracked p' \<and> cn_peer_id (conn_at p' d) = Some i \<and>
    \<not> has_connection p' None None (Some i)"
proof -
  have ok: "pool_ok p" using assms(1) by (rule pool_run_ok)
  then have ix: "indexes p (tracked p) (conn_at p)" by (simp add: pool_ok_def)
  obtain p' where p': "pool_delete c p = (Inr (), p')" "indexes p' (tracked p - {c}) (conn_at p)" "conns p' = conns p" "by_node_id p' = ddel i (by_node_id p)"
    using pool_delete_run [OF ix assms(2)] assms(5,6) by auto
  have "on_connection_closed (cn_file_no (conn_at p c)) p = (Inr (), p')"
    using p'(1) indexes_file [OF ix assms(2)] by (simp add: on_connection_closed_def bindE_apply eff_apply)
  moreover have "d \<in> tracked p'" using tracked_indexes [OF p'(2)] assms(3,4) by simp
  moreover have "cn_peer_id (conn_at p' d) = Some i" using ix assms(7) p'(3) by (simp add: indexes_def ids_ok_def get_by_node_id_def)
  moreover have "\<not> has_connection p' None None (Some i)" by (simp add: has_connection_def p'(4))
  ultimately show ?thesis by blast
qed

section \<open>Two connections of a relay proxy\<close>

definition proxy_conn :: "nat \<Rightarrow> int \<Rightarrow> pool_conn" where
  "proxy_conn fileno port = \<lparr>cn_file_no = fileno, cn_ip = ''a'', cn_port = port, cn_type = RELAY_PROXY, cn_peer_id = None, cn_network_num = 5\<rparr>"

definition proxy_once :: conn_pool where
  "proxy_once = snd (on_connection_added 3 ''a'' 1 (Some (Inr (''n'', RELAY_PROXY))) (Some (proxy_conn 3 1)) ConnectionPool)"

definition proxy_twice :: conn_pool where
  "proxy_twice = snd (on_connection_added 120 ''a'' 2 (Some (Inr (''n'', RELAY_PROXY))) (Some (proxy_conn 120 2)) proxy_once)"

lemma proxy_pools:
  "get_by_fileno ConnectionPool 3 = None" "get_by_fileno proxy_once 120 = None" "Some 0 \<in> set (by_fileno proxy_twice)" "Some 1 \<in> set (by_fileno proxy_twice)"
  "cn_peer_id (conn_at proxy_twice 0) = Some ''n''" "get_by_node_id proxy_twice ''n'' = Inr 1" "cn_file_no (conn_at proxy_twice 0) = 3"
  by code_simp+

lemma proxy_run: "pool_step\<^sup>*\<^sup>* ConnectionPool proxy_twice"
proof -
  have "pool_step ConnectionPool proxy_once"
    unfolding proxy_once_def using proxy_pools(1) by (intro pool_step.added [OF _ prod.collapse [symmetric]]) (simp add: fits_def proxy_conn_def)
  moreover have "pool_step proxy_once proxy_twice"
    unfolding proxy_twice_def using proxy_pools(2) by (intro pool_step.added [OF _ prod.collapse [symmetric]]) (simp add: fits_def proxy_conn_def)
  ultimately show ?thesis by (meson converse_rtranclp_into_rtranclp rtranclp.rtrancl_refl)
qed

lemma pool_consistent_witness:
  "get_number_of_connections proxy_twice RELAY_PROXY = card {c \<in> tracked proxy_twice. cn_type (conn_at proxy_twice c) AND RELAY_PROXY \<noteq> 0} \<and>
    pool_len proxy_twice = card (tracked proxy_twice) \<and> (\<exists>p'. on_connection_closed 3 proxy_twice = (Inr (), p') \<and> get_by_fileno p' 3 = None)"
  using pool_consistent [OF proxy_run, of RELAY_PROXY "''a''" 3] by blast

lemma replaced_peer_lost_witness:
  "\<exists>p'. on_connection_closed 3 proxy_twice = (Inr (), p') \<and> 1 \<in> tracked p' \<and> cn_peer_id (conn_at p' 1) = Some ''n'' \<and>
    \<not> has_connection p' None None (Some ''n'')"
  using replaced_peer_lost [OF proxy_run, of 0 1 "''n''"] proxy_pools(3-7) by (simp add: tracked_def)

end
