(* ===== verification/TxFields.thy ===== *)
theory TxFields
  imports Messages PyFloat
begin

text \<open>
  The fields of a transaction message that are more than numbers and bytes: the id of a node, which is a UUID in text and 16 bytes in a message
  (bxcommon/utils/uuid_pack.py), a time, which is an IEEE double in the current format and a whole number of seconds in the older
  ones, flags, and an account, a text of 36 bytes. A text that is written as UTF-8 is represented by its bytes.
\<close>

section \<open>Node ids\<close>

text \<open>\<open>s.replace(sub, '')\<close>.\<close>

function replace_empty :: "string \<Rightarrow> string \<Rightarrow> string" where
  "replace_empty sub [] = []"
| "replace_empty sub (c # cs) =
     (if sub \<noteq> [] \<and> take (length sub) (c # cs) = sub then replace_empty sub (drop (length sub) (c # cs))
      else c # replace_empty sub cs)"
  by pat_completeness auto
termination by (relation "measure (\<lambda>(sub, s). length s)") auto

definition strip_braces :: "string \<Rightarrow> string" where
  "strip_braces s = (let b = (\<lambda>c. c = CHR ''{'' \<or> c = CHR 0x7D) in rev (dropWhile b (rev (dropWhile b s))))"

text \<open>\<open>uuid.UUID(s).bytes\<close> and \<open>str(uuid.UUID(bytes=x))\<close> of the standard library.\<close>

definition UUID_bytes :: "string \<Rightarrow> bytes res" where
  "UUID_bytes s =
     (let hex = filter (\<lambda>c. c \<noteq> CHR ''-'') (strip_braces (replace_empty ''uuid:'' (replace_empty ''urn:'' s)))
      in bindR (guardR (length hex = 32) ValueError) (\<lambda>_.
         bindR (py_int 16 hex) (\<lambda>i.
         bindR (guardR (0 \<le> i \<and> i < 2 ^ 128) ValueError) (\<lambda>_. Inr (nat_be 16 (nat i))))))"

definition dashed :: "string \<Rightarrow> string" where
  "dashed h = slice h 0 8 @ ''-'' @ slice h 8 12 @ ''-'' @ slice h 12 16 @ ''-'' @ slice h 16 20 @ ''-'' @ drop 20 h"

definition UUID_str :: "bytes \<Rightarrow> string" where
  "UUID_str x = dashed (hex_bytes x)"

text \<open>A text that is not a UUID is packed as zeros; all errors of \<open>UUID_bytes\<close> are ValueErrors.\<close>

definition EMPTY_SOURCE_ID :: bytes where
  "EMPTY_SOURCE_ID = zeros 16"

definition DECODED_EMPTY_SOURCE_ID :: string where
  "DECODED_EMPTY_SOURCE_ID = replicate 16 (CHR 0x00)"

definition to_bytes :: "string \<Rightarrow> bytes" where
  "to_bytes s = (if s = [] then EMPTY_SOURCE_ID else case UUID_bytes s of Inl _ \<Rightarrow> EMPTY_SOURCE_ID | Inr x \<Rightarrow> x)"

definition from_bytes :: "bytes \<Rightarrow> string option" where
  "from_bytes x = (if x = [] then None else if rstrip_null x = [] then None else Some (UUID_str x))"

lemma UUID_bytes_errors: "UUID_bytes s = Inl e \<Longrightarrow> e = ValueError"
  by (auto simp: UUID_bytes_def guardR_def py_int_def opt_res_def Let_def split: if_splits option.splits)

lemma length_UUID_bytes: "UUID_bytes s = Inr x \<Longrightarrow> length x = 16"
  by (auto simp: UUID_bytes_def guardR_def Let_def bindR_def split: if_splits sum.splits)

lemma length_to_bytes [simp]: "length (to_bytes s) = 16"
  by (auto simp: to_bytes_def EMPTY_SOURCE_ID_def length_UUID_bytes split: sum.splits)

lemma replace_empty_absent: "c \<in> set sub \<Longrightarrow> c \<notin> set s \<Longrightarrow> replace_empty sub s = s"
proof (induction sub s rule: replace_empty.induct)
  case (2 sub d ds)
  have "take (length sub) (d # ds) \<noteq> sub" using 2(3,4) by (metis in_set_takeD)
  with 2 show ?case by simp
qed simp

lemma nat_be_be_nat: "nat_be (length x) (be_nat x) = x"
proof (induction x rule: rev_induct)
  case (snoc b x)
  have "(256 * be_nat x + unat b) div 256 = be_nat x" "(256 * be_nat x + unat b) mod 256 = unat b"
    using unat_byte [of b] by auto
  with snoc show ?case by simp
qed simp

lemma rstrip_null_Nil: "rstrip_null x = [] \<longleftrightarrow> x = zeros (length x)"
  by (auto simp: rstrip_null_def zeros_def dropWhile_eq_Nil_conv intro: replicate_eqI replicate_length_same [symmetric] dest: arg_cong [where f = set] split: if_splits)

lemma hex_bytes_chars: "c \<in> set (hex_bytes x) \<Longrightarrow> \<exists>d < 16. c = digit_char d"
proof -
  assume "c \<in> set (hex_bytes x)"
  then obtain b where "c \<in> set (byte_hex b)" by (auto simp: hex_bytes_def)
  then have "c = digit_char (unat b div 16) \<or> c = digit_char (unat b mod 16)" by (auto simp: byte_hex_def)
  moreover have "unat b div 16 < 16" "unat b mod 16 < 16" using unat_byte [of b] by auto
  ultimately show ?thesis by (elim disjE) blast+
qed

lemma digit_char_cases: "d < 16 \<Longrightarrow> digit_char d \<noteq> CHR ''-'' \<and> digit_char d \<noteq> CHR '':'' \<and> digit_char d \<noteq> CHR ''{'' \<and> digit_char d \<noteq> CHR 0x7D"
proof -
  assume d: "d < 16"
  have "char_digit CHR '':'' = None" "char_digit CHR ''{'' = None" "char_digit CHR 0x7D = None"
    by (simp_all add: char_digit_def)
  then show ?thesis using char_digit_digit_char [OF d] digit_char_plain [OF d] by (metis option.distinct(1))
qed

lemma drop_both_ends:
  assumes "\<And>c. c \<in> set s \<Longrightarrow> \<not> P c"
  shows "rev (dropWhile P (rev (dropWhile P s))) = s"
proof -
  have "dropWhile P t = t" if "set t \<subseteq> set s" for t
    using assms that by (cases t) auto
  then show ?thesis by simp
qed

lemma dashed_filter:
  assumes "length h = 32" "CHR ''-'' \<notin> set h"
  shows "filter (\<lambda>c. c \<noteq> CHR ''-'') (dashed h) = h"
proof -
  have f: "filter (\<lambda>c. c \<noteq> CHR ''-'') u = u" if "set u \<subseteq> set h" for u
    using that assms(2) by (intro filter_True) auto
  have "set (slice h a b) \<subseteq> set h" for a b by (auto simp: slice_def dest: in_set_takeD in_set_dropD)
  then have "filter (\<lambda>c. c \<noteq> CHR ''-'') (dashed h) = slice h 0 8 @ slice h 8 12 @ slice h 12 16 @ slice h 16 20 @ drop 20 h"
    by (simp add: dashed_def f set_drop_subset)
  also have "\<dots> = h"
  proof -
    have j: "slice h a b @ drop b h = drop a h" if "a \<le> b" for a b
      using that append_take_drop_id [of "b - a" "drop a h"] by (simp add: slice_def)
    show ?thesis using j [of 0 8] by (simp add: j)
  qed
  finally show ?thesis .
qed

text \<open>A node id comes back from its bytes, and bytes from the text of the node id.\<close>

lemma UUID_bytes_str:
  assumes "length x = 16"
  shows "UUID_bytes (UUID_str x) = Inr x"
proof -
  let ?h = "hex_bytes x"
  have l: "length ?h = 32" using assms by (simp add: length_hex_bytes)
  have p: "c \<noteq> CHR ''-'' \<and> c \<noteq> CHR '':'' \<and> c \<noteq> CHR ''{'' \<and> c \<noteq> CHR 0x7D" if c: "c \<in> set ?h" for c
  proof -
    obtain d where "d < 16" "c = digit_char d" using hex_bytes_chars [OF c] by blast
    with digit_char_cases [of d] show ?thesis by simp
  qed
  have s: "set (slice ?h a b) \<subseteq> set ?h" for a b by (auto simp: slice_def dest: in_set_takeD in_set_dropD)
  have d: "c = CHR ''-'' \<or> c \<in> set ?h" if "c \<in> set (dashed ?h)" for c
    using that s by (auto simp: dashed_def dest: in_set_dropD)
  have colon: "CHR '':'' \<notin> set (dashed ?h)" using d p by blast
  have r: "replace_empty ''uuid:'' (replace_empty ''urn:'' (dashed ?h)) = dashed ?h"
    using colon by (simp add: replace_empty_absent [of "CHR '':''"])
  have "strip_braces (dashed ?h) = dashed ?h"
    unfolding strip_braces_def Let_def using d p by (intro drop_both_ends) blast
  moreover have "filter (\<lambda>c. c \<noteq> CHR ''-'') (dashed ?h) = ?h" using dashed_filter [OF l] p by blast
  moreover have "py_int 16 ?h = Inr (int (be_nat x))" using assms by (intro py_int_hex_bytes) auto
  moreover have "be_nat x < 2 ^ 128" using be_nat_less [of x] assms by simp
  moreover have "nat_be 16 (be_nat x) = x" using nat_be_be_nat [of x] assms by simp
  ultimately show ?thesis using l r by (simp add: UUID_bytes_def UUID_str_def guardR_def)
qed

text \<open>What a message with these 16 bytes says of its source.\<close>

definition source_text :: "bytes \<Rightarrow> string" where
  "source_text x = (case from_bytes x of None \<Rightarrow> DECODED_EMPTY_SOURCE_ID | Some s \<Rightarrow> s)"

lemma to_bytes_empty: "to_bytes DECODED_EMPTY_SOURCE_ID = EMPTY_SOURCE_ID"
proof -
  let ?z = "replicate 16 (CHR 0x00)"
  have "replace_empty ''uuid:'' (replace_empty ''urn:'' ?z) = ?z"
    by (simp add: replace_empty_absent [of "CHR '':''"])
  moreover have "strip_braces ?z = ?z" unfolding strip_braces_def Let_def by (rule drop_both_ends) auto
  moreover have "length (filter (\<lambda>c. c \<noteq> CHR ''-'') ?z) = 16" by simp
  ultimately show ?thesis by (simp add: to_bytes_def UUID_bytes_def DECODED_EMPTY_SOURCE_ID_def guardR_def)
qed

lemma to_bytes_source_text:
  assumes "length x = 16"
  shows "to_bytes (source_text x) = x"
proof (cases "from_bytes x")
  case None
  then have "x = EMPTY_SOURCE_ID" using assms by (auto simp: from_bytes_def rstrip_null_Nil EMPTY_SOURCE_ID_def split: if_splits)
  then show ?thesis using None by (simp add: source_text_def to_bytes_empty)
next
  case (Some s)
  then have s: "s = UUID_str x" by (auto simp: from_bytes_def split: if_splits)
  then have "s \<noteq> []" by (simp add: UUID_str_def dashed_def)
  then show ?thesis using Some s UUID_bytes_str [OF assms] by (simp add: source_text_def to_bytes_def)
qed

section \<open>Times\<close>

text \<open>A Python float is its IEEE bit pattern: the sign, 11 bits of exponent, 52 bits of fraction. \<open>int(x)\<close> cuts off the fraction.\<close>

definition OverflowError :: py_error where
  "OverflowError = Raised ''OverflowError''"

definition float_int :: "64 word \<Rightarrow> int res" where
  "float_int w =
     (let e = unat w div 2 ^ 52 mod 2048; m = unat w mod 2 ^ 52
      in if e = 2047 then Inl (if m = 0 then OverflowError else ValueError)
         else let v = (if e < 1023 then 0
                       else if e < 1075 then (2 ^ 52 + m) div 2 ^ (1075 - e)
                       else (2 ^ 52 + m) * 2 ^ (e - 1075))
              in Inr (if unat w < 2 ^ 63 then int v else - int v))"

text \<open>The float nearest to an integer, as \<open>struct.pack("<d", i)\<close> makes it.\<close>

definition int_float :: "int \<Rightarrow> 64 word res" where
  "int_float i =
     (if i = 0 then Inr 0
      else let n = nat \<bar>i\<bar>; k = nat (bitlen \<bar>i\<bar> - 1);
               m = (if k \<le> 52 then n * 2 ^ (52 - k) else nat (rne (of_nat n / 2 ^ (k - 52))));
               bits = (k + 1022) * 2 ^ 52 + m
           in if 2047 * 2 ^ 52 \<le> bits then Inl struct_error
              else Inr (word_of_nat (if i < 0 then 2 ^ 63 + bits else bits)))"

lemma unat_word_of_nat: "n < 2 ^ 64 \<Longrightarrow> unat (word_of_nat n :: 64 word) = n"
  by (simp add: unsigned_of_nat take_bit_nat_eq_self)

lemma split_digits: "f < (n :: nat) \<Longrightarrow> (e * n + f) div n = e" "f < n \<Longrightarrow> (e * n + f) mod n = f"
  by auto

lemma float_int_float:
  assumes "0 \<le> i" "i < 2 ^ 53"
  shows "\<exists>w. int_float i = Inr w \<and> float_int w = Inr i"
proof (cases "i = 0")
  case True
  then show ?thesis by (simp add: int_float_def float_int_def)
next
  case False
  define n where "n = nat i"
  define k where "k = nat (bitlen i - 1)"
  have n: "int n = i" "0 < n" using assms False by (auto simp: n_def)
  have lb: "2 ^ nat (bitlen i - 1) \<le> i" "i < 2 ^ nat (bitlen i)" using bitlen_bounds [of i] assms False by auto
  then have "0 < bitlen i" using assms False by (cases "0 < bitlen i") auto
  then have "nat (bitlen i) = Suc k" unfolding k_def by linarith
  with lb have "(2 :: int) ^ k \<le> int n" "int n < 2 ^ Suc k" unfolding n(1) by (simp_all add: k_def)
  then have b: "2 ^ k \<le> n" "n < 2 ^ Suc k"
    by (metis of_nat_le_iff of_nat_numeral of_nat_power, metis of_nat_less_iff of_nat_numeral of_nat_power)
  have k: "k \<le> 52"
  proof (rule ccontr)
    assume "\<not> k \<le> 52"
    then have "(2 :: nat) ^ 53 \<le> 2 ^ k" by (intro power_increasing) auto
    moreover have "n < 2 ^ 53" using assms(2) unfolding n(1) [symmetric] by (metis of_nat_less_iff of_nat_numeral of_nat_power)
    ultimately show False using b by linarith
  qed
  define m where "m = n * 2 ^ (52 - k)"
  have e: "(2 :: nat) ^ 52 = 2 ^ k * 2 ^ (52 - k)" using k by (simp flip: power_add)
  have m: "2 ^ 52 \<le> m" "m < 2 ^ 53"
  proof -
    show "2 ^ 52 \<le> m" unfolding m_def e using b(1) by (rule mult_le_mono1)
    have "n * 2 ^ (52 - k) < 2 ^ Suc k * 2 ^ (52 - k)" using b(2) by simp
    also have "\<dots> = 2 * 2 ^ 52" unfolding e by simp
    finally show "m < 2 ^ 53" by (simp add: m_def)
  qed
  have bits: "(k + 1022) * 2 ^ 52 + m = (k + 1023) * 2 ^ 52 + (m - 2 ^ 52)" "m - 2 ^ 52 < 2 ^ 52"
    using m by (simp_all add: algebra_simps)
  have lt: "(k + 1022) * 2 ^ 52 + m < 2047 * 2 ^ 52" unfolding bits(1) using k bits(2) by simp
  then have "(k + 1022) * 2 ^ 52 + m < 2 ^ 64" by simp
  then have u: "unat (word_of_nat ((k + 1022) * 2 ^ 52 + m) :: 64 word) = (k + 1023) * 2 ^ 52 + (m - 2 ^ 52)"
    unfolding bits(1) [symmetric] by (rule unat_word_of_nat)
  have d: "((k + 1023) * 2 ^ 52 + (m - 2 ^ 52)) div 2 ^ 52 mod 2048 = k + 1023"
    "((k + 1023) * 2 ^ 52 + (m - 2 ^ 52)) mod 2 ^ 52 = m - 2 ^ 52"
    unfolding split_digits [OF bits(2)] using k by auto
  have "(2 ^ 52 + (m - 2 ^ 52)) div 2 ^ (1075 - (k + 1023)) = n" if "k < 52"
    using m that by (simp add: m_def)
  then have "float_int (word_of_nat ((k + 1022) * 2 ^ 52 + m)) = Inr i"
    unfolding float_int_def u d Let_def using k m n bits(2) by (auto simp: m_def)
  moreover have "int_float i = Inr (word_of_nat ((k + 1022) * 2 ^ 52 + m))"
    using assms False lt k by (simp add: int_float_def Let_def n_def [symmetric] k_def [symmetric] m_def)
  ultimately show ?thesis by blast
qed

text \<open>A time is an int or a float. The current format packs it as a float, the older ones as seconds, which fit into four bytes.\<close>

datatype timestamp = TInt int | TFloat "64 word"

definition int_of_time :: "timestamp \<Rightarrow> int res" where
  "int_of_time t = (case t of TInt i \<Rightarrow> Inr i | TFloat w \<Rightarrow> float_int w)"

definition float_of_time :: "timestamp \<Rightarrow> 64 word res" where
  "float_of_time t = (case t of TInt i \<Rightarrow> int_float i | TFloat w \<Rightarrow> Inr w)"

definition pack_double :: "timestamp \<Rightarrow> cursor \<Rightarrow> cursor res" where
  "pack_double t c = bindR (float_of_time t) (\<lambda>w. pack_uint 8 (uint w) c)"

definition unpack_double :: "bytes \<Rightarrow> nat \<Rightarrow> (timestamp \<times> nat) res" where
  "unpack_double buf off = bindR (unpack_uint 8 buf off) (\<lambda>(v, off). Inr (TFloat (word_of_int v), off))"

definition pack_seconds :: "timestamp \<Rightarrow> cursor \<Rightarrow> cursor res" where
  "pack_seconds t c = bindR (int_of_time t) (\<lambda>i. pack_uint 4 i c)"

definition unpack_seconds :: "bytes \<Rightarrow> nat \<Rightarrow> (timestamp \<times> nat) res" where
  "unpack_seconds buf off = bindR (unpack_uint 4 buf off) (\<lambda>(v, off). Inr (TInt v, off))"

definition double_enc :: "timestamp \<Rightarrow> bytes" where
  "double_enc t = (case t of TFloat w \<Rightarrow> nat_le 8 (unat w) | TInt _ \<Rightarrow> [])"

definition seconds_enc :: "timestamp \<Rightarrow> bytes" where
  "seconds_enc t = (case t of TInt i \<Rightarrow> nat_le 4 (nat i) | TFloat _ \<Rightarrow> [])"

definition is_double :: "timestamp \<Rightarrow> bool" where
  "is_double t \<longleftrightarrow> (case t of TFloat _ \<Rightarrow> True | TInt _ \<Rightarrow> False)"

definition is_seconds :: "timestamp \<Rightarrow> bool" where
  "is_seconds t \<longleftrightarrow> (case t of TInt i \<Rightarrow> 0 \<le> i \<and> i < 256 ^ 4 | TFloat _ \<Rightarrow> False)"

lemma uint_bounds: "0 \<le> uint (w :: 64 word) \<and> uint w < 256 ^ 8"
  using uint_lt2p [of w] by simp

interpretation double: field_codec is_double double_enc pack_double unpack_double
proof
  fix t and pre rest :: bytes assume t: "is_double t" and l: "length (double_enc t) \<le> length rest"
  obtain w where "t = TFloat w" using t by (auto simp: is_double_def split: timestamp.splits)
  then show "pack_double t (pre @ rest, length pre) =
      Inr (pre @ double_enc t @ drop (length (double_enc t)) rest, length pre + length (double_enc t))"
    using uint.write_enc [of "uint w" 8 rest pre] uint_bounds [of w] l by (simp add: double_enc_def pack_double_def float_of_time_def)
next
  fix t and pre post :: bytes assume "is_double t"
  then obtain w where "t = TFloat w" by (auto simp: is_double_def split: timestamp.splits)
  then show "unpack_double (pre @ double_enc t @ post) (length pre) = Inr (t, length pre + length (double_enc t))"
    using uint.read_enc [of "uint w" 8 pre post] uint_bounds [of w] by (simp add: double_enc_def unpack_double_def)
qed

interpretation seconds: field_codec is_seconds seconds_enc pack_seconds unpack_seconds
proof
  fix t and pre rest :: bytes assume t: "is_seconds t" and l: "length (seconds_enc t) \<le> length rest"
  obtain i where "t = TInt i" "0 \<le> i \<and> i < 256 ^ 4" using t by (auto simp: is_seconds_def split: timestamp.splits)
  then show "pack_seconds t (pre @ rest, length pre) =
      Inr (pre @ seconds_enc t @ drop (length (seconds_enc t)) rest, length pre + length (seconds_enc t))"
    using uint.write_enc [of i 4 rest pre] l by (simp add: seconds_enc_def pack_seconds_def int_of_time_def)
next
  fix t and pre post :: bytes assume "is_seconds t"
  then obtain i where "t = TInt i" "0 \<le> i \<and> i < 256 ^ 4" by (auto simp: is_seconds_def split: timestamp.splits)
  then show "unpack_seconds (pre @ seconds_enc t @ post) (length pre) = Inr (t, length pre + length (seconds_enc t))"
    using uint.read_enc [of i 4 pre post] by (simp add: seconds_enc_def unpack_seconds_def)
qed

lemma pack_double_int: "int_float i = Inr w \<Longrightarrow> pack_double (TInt i) = pack_double (TFloat w)"
  by (simp add: fun_eq_iff pack_double_def float_of_time_def)

lemma pack_seconds_int: "int_of_time t = Inr i \<Longrightarrow> pack_seconds t = pack_seconds (TInt i)"
  by (simp add: fun_eq_iff pack_seconds_def int_of_time_def)

lemma length_double_enc [simp]: "is_double t \<Longrightarrow> length (double_enc t) = 8"
  by (auto simp: is_double_def double_enc_def split: timestamp.splits)

lemma length_seconds_enc [simp]: "is_seconds t \<Longrightarrow> length (seconds_enc t) = 4"
  by (auto simp: is_seconds_def seconds_enc_def split: timestamp.splits)

section \<open>Texts\<close>

text \<open>The well-formed sequences of UTF-8 (the bytes as numbers), which \<open>decode\<close> accepts.\<close>

definition continues :: "nat \<Rightarrow> bool" where
  "continues b \<longleftrightarrow> 0x80 \<le> b \<and> b < 0xC0"

fun utf8_ok :: "nat list \<Rightarrow> bool" where
  "utf8_ok [] = True"
| "utf8_ok (b # bs) =
     (if b < 0x80 then utf8_ok bs
      else if 0xC2 \<le> b \<and> b < 0xE0 then (case bs of c # r \<Rightarrow> continues c \<and> utf8_ok r | [] \<Rightarrow> False)
      else if 0xE0 \<le> b \<and> b < 0xF0 then
        (case bs of c # d # r \<Rightarrow> continues c \<and> continues d \<and> (b = 0xE0 \<longrightarrow> 0xA0 \<le> c) \<and> (b = 0xED \<longrightarrow> c < 0xA0) \<and> utf8_ok r | _ \<Rightarrow> False)
      else if 0xF0 \<le> b \<and> b < 0xF5 then
        (case bs of c # d # e # r \<Rightarrow> continues c \<and> continues d \<and> continues e \<and> (b = 0xF0 \<longrightarrow> 0x90 \<le> c) \<and>
            (b = 0xF4 \<longrightarrow> c < 0x90) \<and> utf8_ok r | _ \<Rightarrow> False)
      else False)"

definition decode_utf8 :: "bytes \<Rightarrow> bytes res" where
  "decode_utf8 x = (if utf8_ok (map unat x) then Inr x else Inl (Raised ''UnicodeDecodeError''))"

definition unpack_account :: "bytes \<Rightarrow> nat \<Rightarrow> (bytes \<times> nat) res" where
  "unpack_account buf off = bindR (unpack_text 36 buf off) (\<lambda>(x, off). bindR (decode_utf8 (rstrip_null x)) (\<lambda>a. Inr (a, off)))"

definition account_ok :: "bytes \<Rightarrow> bool" where
  "account_ok a \<longleftrightarrow> length a \<le> 36 \<and> (a \<noteq> [] \<longrightarrow> last a \<noteq> 0) \<and> utf8_ok (map unat a)"

definition account_enc :: "bytes \<Rightarrow> bytes" where
  "account_enc a = take 36 (a @ zeros 36)"

lemma length_account_enc [simp]: "length (account_enc a) = 36"
  by (simp add: account_enc_def)

lemma account_enc_take: "take 36 a @ take (36 - length a) (zeros 36) = account_enc a"
  by (simp add: account_enc_def)

lemma unpack_text_at: "length x = k \<Longrightarrow> unpack_text k (pre @ x @ post) (length pre) = Inr (x, length pre + k)"
  using slice_behind [of pre x post] by (simp add: unpack_text_def)

interpretation account: field_codec account_ok account_enc "pack_text 36" unpack_account
proof
  fix a pre post :: bytes assume a: "account_ok a"
  have "rstrip_null (account_enc a) = a"
  proof -
    have z: "dropWhile (\<lambda>b. b = 0) (zeros k @ y) = dropWhile (\<lambda>b. b = 0) y" for k and y :: bytes
      by (induction k) (simp_all add: zeros_def)
    have "account_enc a = a @ zeros (36 - length a)" using a by (simp add: account_enc_def account_ok_def zeros_def)
    moreover have "dropWhile (\<lambda>b. b = 0) (rev a) = rev a"
      using a by (cases a rule: rev_cases) (auto simp: account_ok_def)
    ultimately show ?thesis using z [of "36 - length a" "rev a"] by (simp add: rstrip_null_def zeros_def)
  qed
  then show "unpack_account (pre @ account_enc a @ post) (length pre) = Inr (a, length pre + length (account_enc a))"
    using unpack_text_at [of "account_enc a" 36 pre post] a by (simp add: unpack_account_def decode_utf8_def account_ok_def)
qed (simp add: pack_text_def account_enc_take)

text \<open>Sixteen bytes, packed as a text.\<close>

interpretation node: field_codec "\<lambda>x. length x = 16" "\<lambda>x. x" "pack_text 16" "unpack_text 16"
  by unfold_locales (simp_all add: pack_text_def unpack_text_at)

section \<open>Flags\<close>

definition NO_FLAGS :: int where "NO_FLAGS = 0"
definition STATUS_MONITORING :: int where "STATUS_MONITORING = 1"
definition LOCAL_REGION :: int where "LOCAL_REGION = 32"
definition PRIVATE_TX :: int where "PRIVATE_TX = 64"
definition ELITE_SENDER :: int where "ELITE_SENDER = 128"
definition TBD_3 :: int where "TBD_3 = 1024"
definition TBD_4 :: int where "TBD_4 = 2048"
definition TBD_5 :: int where "TBD_5 = 4096"
definition FREE_DAILY_QUOTA :: int where "FREE_DAILY_QUOTA = 1"
definition PAID_DAILY_QUOTA :: int where "PAID_DAILY_QUOTA = 2"

definition get_quota_type :: "int \<Rightarrow> int" where
  "get_quota_type flag = (if PAID_TX AND flag = PAID_TX then PAID_DAILY_QUOTA else FREE_DAILY_QUOTA)"

definition QuotaType :: "int \<Rightarrow> int res" where
  "QuotaType v = (if 0 \<le> v \<and> v < 4 then Inr v else Inl ValueError)"

text \<open>The complement of a flag is taken among all flags.\<close>

definition flag_not :: "int \<Rightarrow> int" where
  "flag_not f = 0x1FFF - f"

definition UNKNOWN_TRANSACTION_FLAGS :: int where
  "UNKNOWN_TRANSACTION_FLAGS = LOCAL_REGION OR PRIVATE_TX OR ELITE_SENDER OR TBD_3 OR TBD_4 OR TBD_5"

definition INVERTED_UNKNOWN_TRANSACTION_FLAGS :: int where
  "INVERTED_UNKNOWN_TRANSACTION_FLAGS =
     flag_not LOCAL_REGION AND flag_not PRIVATE_TX AND flag_not ELITE_SENDER AND flag_not TBD_3 AND flag_not TBD_4 AND flag_not TBD_5"

definition known_flags :: "int \<Rightarrow> int" where
  "known_flags flag =
     (if UNKNOWN_TRANSACTION_FLAGS AND flag \<noteq> 0 then flag AND INVERTED_UNKNOWN_TRANSACTION_FLAGS else flag)"

lemma known_flags_bounds: "0 \<le> flag \<Longrightarrow> flag < 2 ^ 13 \<Longrightarrow> 0 \<le> known_flags flag \<and> known_flags flag < 2 ^ 13"
  by (auto simp: known_flags_def intro: order_le_less_trans [OF AND_upper1])

text \<open>Dropping the unknown flags keeps exactly the others.\<close>

lemma known_flags_all:
  assumes "0 \<le> flag" "flag < 2 ^ 13"
  shows "known_flags flag = flag AND (NOT UNKNOWN_TRANSACTION_FLAGS)"
proof -
  have i: "INVERTED_UNKNOWN_TRANSACTION_FLAGS = take_bit 13 (NOT UNKNOWN_TRANSACTION_FLAGS)" by code_simp
  have "take_bit 13 flag = flag" using assms by (simp add: take_bit_int_eq_self)
  then have f: "bit flag i \<Longrightarrow> i < 13" for i by (metis bit_take_bit_iff)
  have "flag AND INVERTED_UNKNOWN_TRANSACTION_FLAGS = flag AND (NOT UNKNOWN_TRANSACTION_FLAGS)"
    unfolding i by (rule bit_eqI) (auto simp: bit_and_iff bit_take_bit_iff dest: f)
  moreover have "flag AND NOT UNKNOWN_TRANSACTION_FLAGS = flag" if "UNKNOWN_TRANSACTION_FLAGS AND flag = 0"
  proof (rule bit_eqI)
    fix i
    have "\<not> bit (UNKNOWN_TRANSACTION_FLAGS AND flag) i" using that by simp
    then show "bit (flag AND NOT UNKNOWN_TRANSACTION_FLAGS) i = bit flag i" by (auto simp: bit_and_iff bit_not_iff)
  qed
  ultimately show ?thesis by (simp add: known_flags_def)
qed

end
