(* ===== verification/TxMessages.thy ===== *)
theory TxMessages
  imports TxFields
begin

text \<open>
  The transaction message of the current protocol (messages/bloxroute/tx_message.py on abstract_broadcast_message.py), the formats that the older
  protocol versions have for it (v6, v7, v15, v17, v19, v20, v21) and the converters between them. A message is its buffer, as in \<open>Messages\<close>.
\<close>

section \<open>The fields that all versions share\<close>

definition NULL_TX_TIMESTAMP :: timestamp where
  "NULL_TX_TIMESTAMP = TInt 0"

definition broadcast_length :: nat where
  \<comment> \<open>\<open>AbstractBroadcastMessage.PAYLOAD_LENGTH\<close>, with the control flags\<close>
  "broadcast_length = SHA256_HASH_LEN + 4 + 16 + 1"

definition sid_offset :: nat where
  "sid_offset = HEADER_LENGTH + broadcast_length - 1"

text \<open>The accessors of \<open>AbstractBroadcastMessage\<close>.\<close>

definition message_hash :: "bytes \<Rightarrow> bytes res" where
  "message_hash buf = Sha256Hash (slice buf HEADER_LENGTH (HEADER_LENGTH + SHA256_HASH_LEN))"

definition network_num_of :: "bytes \<Rightarrow> int res" where
  "network_num_of buf = bindR (unpack_uint 4 buf (HEADER_LENGTH + SHA256_HASH_LEN)) (\<lambda>(n, _). Inr n)"

definition source_id :: "bytes \<Rightarrow> string res" where
  "source_id buf = bindR (unpack_text 16 buf (HEADER_LENGTH + SHA256_HASH_LEN + 4)) (\<lambda>(x, _). Inr (source_text x))"

definition has_source_id :: "bytes \<Rightarrow> bool res" where
  "has_source_id buf = bindR (source_id buf) (\<lambda>s. Inr (s \<noteq> DECODED_EMPTY_SOURCE_ID))"

definition source_id_as_str :: "bytes \<Rightarrow> string res" where
  "source_id_as_str buf = bindR (source_id buf) (\<lambda>s. Inr (if s = DECODED_EMPTY_SOURCE_ID then ''None'' else s))"

definition payload_len :: "bytes \<Rightarrow> int res" where
  "payload_len buf = bindR (unpack_uint 4 buf 16) (\<lambda>(n, _). Inr n)"

text \<open>What stands between the fields of a version and the control flags.\<close>

definition contents_from :: "nat \<Rightarrow> bytes \<Rightarrow> bytes res" where
  "contents_from off buf =
     bindR (payload_len buf) (\<lambda>n. Inr (if n = 0 then [] else slice buf off (HEADER_LENGTH + nat n - 1)))"

definition read_at :: "(bytes \<Rightarrow> nat \<Rightarrow> ('a \<times> nat) res) \<Rightarrow> nat \<Rightarrow> bytes \<Rightarrow> 'a res" where
  "read_at rd off buf = bindR (rd buf off) (\<lambda>(x, _). Inr x)"

definition broadcast_wr :: "(cursor \<Rightarrow> cursor res) \<Rightarrow> bytes \<Rightarrow> int \<Rightarrow> string \<Rightarrow> cursor \<Rightarrow> cursor res" where
  \<comment> \<open>the constructor of \<open>AbstractBroadcastMessage\<close>, then what the class itself packs\<close>
  "broadcast_wr own h net src c =
     bindR (put_slice SHA256_HASH_LEN h c) (\<lambda>c.
     bindR (pack_uint 4 net c) (\<lambda>c.
     bindR (pack_text 16 (to_bytes src) c) own))"

section \<open>The current format\<close>

definition TxMessage :: "bytes \<Rightarrow> int \<Rightarrow> string \<Rightarrow> int \<Rightarrow> bytes \<Rightarrow> int \<Rightarrow> timestamp \<Rightarrow> bytes \<Rightarrow> bytes res" where
  "TxMessage h net src sid val flag time acct =
     new_message (ascii ''tx'') (broadcast_length - 1 + 4 + 2 + 8 + 36 + length val)
       (broadcast_wr (\<lambda>c.
          bindR (pack_uint 4 sid c) (\<lambda>c.
          bindR (pack_uint 2 flag c) (\<lambda>c.
          bindR (pack_double time c) (\<lambda>c.
          bindR (pack_text 36 acct c) (put_slice (length val) val)))))
        h net src)"

definition short_id :: "bytes \<Rightarrow> int res" where
  "short_id = read_at (unpack_uint 4) sid_offset"

definition has_short_id :: "bytes \<Rightarrow> bool res" where
  "has_short_id buf = bindR (short_id buf) (\<lambda>sid. Inr (sid \<noteq> NULL_TX_SID))"

definition transaction_flag :: "bytes \<Rightarrow> int res" where
  "transaction_flag = read_at read_flag (sid_offset + 4)"

definition timestamp_of :: "bytes \<Rightarrow> timestamp res" where
  "timestamp_of = read_at unpack_double (sid_offset + 4 + 2)"

definition account_id :: "bytes \<Rightarrow> bytes res" where
  "account_id = read_at unpack_account (sid_offset + 4 + 2 + 8)"

definition tx_val :: "bytes \<Rightarrow> bytes res" where
  "tx_val = contents_from (sid_offset + 4 + 2 + 8 + 36)"

definition is_compact :: "bytes \<Rightarrow> bool res" where
  "is_compact buf = bindR (tx_val buf) (\<lambda>x. Inr (x = []))"

definition quota_type :: "bytes \<Rightarrow> int res" where
  "quota_type buf = bindR (transaction_flag buf) (\<lambda>f. Inr (get_quota_type f))"

section \<open>The formats of the older versions\<close>

text \<open>Version 21 has no account.\<close>

definition TxMessageV21 :: "bytes \<Rightarrow> int \<Rightarrow> string \<Rightarrow> int \<Rightarrow> bytes \<Rightarrow> int \<Rightarrow> timestamp \<Rightarrow> bytes res" where
  "TxMessageV21 h net src sid val flag time =
     new_message (ascii ''tx'') (broadcast_length - 1 + 4 + 2 + 8 + length val)
       (broadcast_wr (\<lambda>c.
          bindR (pack_uint 4 sid c) (\<lambda>c.
          bindR (pack_uint 2 flag c) (\<lambda>c.
          bindR (pack_double time c) (put_slice (length val) val))))
        h net src)"

definition short_id_v21 :: "bytes \<Rightarrow> int res" where
  "short_id_v21 = read_at (unpack_uint 4) sid_offset"

definition transaction_flag_v21 :: "bytes \<Rightarrow> int res" where
  "transaction_flag_v21 = read_at read_flag (sid_offset + 4)"

definition timestamp_v21 :: "bytes \<Rightarrow> timestamp res" where
  "timestamp_v21 = read_at unpack_double (sid_offset + 4 + 2)"

definition tx_val_v21 :: "bytes \<Rightarrow> bytes res" where
  "tx_val_v21 = contents_from (sid_offset + 4 + 2 + 8)"

text \<open>Versions 17, 19 and 20 have the seconds of the time.\<close>

definition TxMessageV20 :: "bytes \<Rightarrow> int \<Rightarrow> string \<Rightarrow> int \<Rightarrow> bytes \<Rightarrow> int \<Rightarrow> timestamp \<Rightarrow> bytes res" where
  "TxMessageV20 h net src sid val flag time =
     new_message (ascii ''tx'') (broadcast_length - 1 + 4 + 2 + 4 + length val)
       (broadcast_wr (\<lambda>c.
          bindR (pack_uint 4 sid c) (\<lambda>c.
          bindR (pack_uint 2 flag c) (\<lambda>c.
          bindR (pack_seconds time c) (put_slice (length val) val))))
        h net src)"

definition short_id_v20 :: "bytes \<Rightarrow> int res" where
  "short_id_v20 = read_at (unpack_uint 4) sid_offset"

definition transaction_flag_v20 :: "bytes \<Rightarrow> int res" where
  "transaction_flag_v20 = read_at read_flag (sid_offset + 4)"

definition timestamp_v20 :: "bytes \<Rightarrow> timestamp res" where
  "timestamp_v20 = read_at unpack_seconds (sid_offset + 4 + 2)"

definition tx_val_v20 :: "bytes \<Rightarrow> bytes res" where
  "tx_val_v20 = contents_from (sid_offset + 4 + 2 + 4)"

definition TxMessageV19 :: "bytes \<Rightarrow> int \<Rightarrow> string \<Rightarrow> int \<Rightarrow> bytes \<Rightarrow> int \<Rightarrow> timestamp \<Rightarrow> bytes res" where
  "TxMessageV19 h net src sid val flag time =
     new_message (ascii ''tx'') (broadcast_length - 1 + 4 + 2 + 4 + length val)
       (broadcast_wr (\<lambda>c.
          bindR (pack_uint 4 sid c) (\<lambda>c.
          bindR (pack_uint 2 flag c) (\<lambda>c.
          bindR (pack_seconds time c) (put_slice (length val) val))))
        h net src)"

definition short_id_v19 :: "bytes \<Rightarrow> int res" where
  "short_id_v19 = read_at (unpack_uint 4) sid_offset"

definition transaction_flag_v19 :: "bytes \<Rightarrow> int res" where
  "transaction_flag_v19 = read_at read_flag (sid_offset + 4)"

definition timestamp_v19 :: "bytes \<Rightarrow> timestamp res" where
  "timestamp_v19 = read_at unpack_seconds (sid_offset + 4 + 2)"

definition tx_val_v19 :: "bytes \<Rightarrow> bytes res" where
  "tx_val_v19 = contents_from (sid_offset + 4 + 2 + 4)"

definition TxMessageV17 :: "bytes \<Rightarrow> int \<Rightarrow> string \<Rightarrow> int \<Rightarrow> bytes \<Rightarrow> int \<Rightarrow> timestamp \<Rightarrow> bytes res" where
  "TxMessageV17 h net src sid val flag time =
     new_message (ascii ''tx'') (broadcast_length - 1 + 4 + 2 + 4 + length val)
       (broadcast_wr (\<lambda>c.
          bindR (pack_uint 4 sid c) (\<lambda>c.
          bindR (pack_uint 2 flag c) (\<lambda>c.
          bindR (pack_seconds time c) (put_slice (length val) val))))
        h net src)"

definition short_id_v17 :: "bytes \<Rightarrow> int res" where
  "short_id_v17 = read_at (unpack_uint 4) sid_offset"

definition transaction_flag_v17 :: "bytes \<Rightarrow> int res" where
  "transaction_flag_v17 = read_at read_flag (sid_offset + 4)"

definition timestamp_v17 :: "bytes \<Rightarrow> timestamp res" where
  "timestamp_v17 = read_at unpack_seconds (sid_offset + 4 + 2)"

definition tx_val_v17 :: "bytes \<Rightarrow> bytes res" where
  "tx_val_v17 = contents_from (sid_offset + 4 + 2 + 4)"

text \<open>Version 15 has a quota type of one byte in place of the flags.\<close>

definition read_quota :: "bytes \<Rightarrow> nat \<Rightarrow> (int \<times> nat) res" where
  "read_quota buf off = bindR (unpack_uint 1 buf off) (\<lambda>(v, off). bindR (QuotaType v) (\<lambda>q. Inr (q, off)))"

definition TxMessageV15 :: "bytes \<Rightarrow> int \<Rightarrow> string \<Rightarrow> int \<Rightarrow> bytes \<Rightarrow> int \<Rightarrow> timestamp \<Rightarrow> bytes res" where
  "TxMessageV15 h net src sid val quota time =
     new_message (ascii ''tx'') (broadcast_length - 1 + 4 + 1 + 4 + length val)
       (broadcast_wr (\<lambda>c.
          bindR (pack_uint 4 sid c) (\<lambda>c.
          bindR (pack_uint 1 quota c) (\<lambda>c.
          bindR (pack_seconds time c) (put_slice (length val) val))))
        h net src)"

definition short_id_v15 :: "bytes \<Rightarrow> int res" where
  "short_id_v15 = read_at (unpack_uint 4) sid_offset"

definition quota_type_v15 :: "bytes \<Rightarrow> int res" where
  "quota_type_v15 = read_at read_quota (sid_offset + 4)"

definition timestamp_v15 :: "bytes \<Rightarrow> timestamp res" where
  "timestamp_v15 = read_at unpack_seconds (sid_offset + 4 + 1)"

definition tx_val_v15 :: "bytes \<Rightarrow> bytes res" where
  "tx_val_v15 = contents_from (sid_offset + 4 + 1 + 4)"

text \<open>Version 7 has no time, version 6 the short id only.\<close>

definition TxMessageV7 :: "bytes \<Rightarrow> int \<Rightarrow> string \<Rightarrow> int \<Rightarrow> bytes \<Rightarrow> int \<Rightarrow> bytes res" where
  "TxMessageV7 h net src sid val quota =
     new_message (ascii ''tx'') (broadcast_length - 1 + 4 + 1 + length val)
       (broadcast_wr (\<lambda>c.
          bindR (pack_uint 4 sid c) (\<lambda>c.
          bindR (pack_uint 1 quota c) (put_slice (length val) val)))
        h net src)"

definition short_id_v7 :: "bytes \<Rightarrow> int res" where
  "short_id_v7 = read_at (unpack_uint 4) sid_offset"

definition quota_type_v7 :: "bytes \<Rightarrow> int res" where
  "quota_type_v7 = read_at read_quota (sid_offset + 4)"

definition tx_val_v7 :: "bytes \<Rightarrow> bytes res" where
  "tx_val_v7 = contents_from (sid_offset + 4 + 1)"

definition TxMessageV6 :: "bytes \<Rightarrow> int \<Rightarrow> string \<Rightarrow> int \<Rightarrow> bytes \<Rightarrow> bytes res" where
  "TxMessageV6 h net src sid val =
     new_message (ascii ''tx'') (broadcast_length - 1 + 4 + length val)
       (broadcast_wr (\<lambda>c. bindR (pack_uint 4 sid c) (put_slice (length val) val))
        h net src)"

definition short_id_v6 :: "bytes \<Rightarrow> int res" where
  "short_id_v6 = read_at (unpack_uint 4) sid_offset"

definition tx_val_v6 :: "bytes \<Rightarrow> bytes res" where
  "tx_val_v6 = contents_from (sid_offset + 4)"

section \<open>The converters\<close>

text \<open>The converters of versions 15 to 21 read the fields of the message and build the other one.\<close>

definition convert_to_v21 :: "bytes \<Rightarrow> bytes res" where
  "convert_to_v21 msg =
     bindR (message_hash msg) (\<lambda>tx_hash.
     bindR (network_num_of msg) (\<lambda>net.
     bindR (source_id msg) (\<lambda>source.
     bindR (short_id msg) (\<lambda>sid.
     bindR (tx_val msg) (\<lambda>val.
     bindR (transaction_flag msg) (\<lambda>flag.
     bindR (timestamp_of msg) (\<lambda>ts. TxMessageV21 tx_hash net source sid val flag ts)))))))"

definition convert_from_v21 :: "bytes \<Rightarrow> bytes res" where
  "convert_from_v21 msg =
     bindR (message_hash msg) (\<lambda>tx_hash.
     bindR (network_num_of msg) (\<lambda>net.
     bindR (source_id msg) (\<lambda>source.
     bindR (short_id_v21 msg) (\<lambda>sid.
     bindR (tx_val_v21 msg) (\<lambda>val.
     bindR (transaction_flag_v21 msg) (\<lambda>flag.
     bindR (timestamp_v21 msg) (\<lambda>ts. TxMessage tx_hash net source sid val flag ts [])))))))"

definition convert_to_v20 :: "bytes \<Rightarrow> bytes res" where
  "convert_to_v20 msg =
     bindR (message_hash msg) (\<lambda>tx_hash.
     bindR (network_num_of msg) (\<lambda>net.
     bindR (source_id msg) (\<lambda>source.
     bindR (short_id msg) (\<lambda>sid.
     bindR (tx_val msg) (\<lambda>val.
     bindR (transaction_flag msg) (\<lambda>flag.
     bindR (timestamp_of msg) (\<lambda>ts. TxMessageV20 tx_hash net source sid val flag ts)))))))"

definition convert_from_v20 :: "bytes \<Rightarrow> bytes res" where
  "convert_from_v20 msg =
     bindR (message_hash msg) (\<lambda>tx_hash.
     bindR (network_num_of msg) (\<lambda>net.
     bindR (source_id msg) (\<lambda>source.
     bindR (short_id_v20 msg) (\<lambda>sid.
     bindR (tx_val_v20 msg) (\<lambda>val.
     bindR (transaction_flag_v20 msg) (\<lambda>flag.
     bindR (timestamp_v20 msg) (\<lambda>ts. TxMessage tx_hash net source sid val flag ts [])))))))"

definition convert_to_v19 :: "bytes \<Rightarrow> bytes res" where
  "convert_to_v19 msg =
     bindR (transaction_flag msg) (\<lambda>flag.
     bindR (message_hash msg) (\<lambda>tx_hash.
     bindR (network_num_of msg) (\<lambda>net.
     bindR (source_id msg) (\<lambda>source.
     bindR (short_id msg) (\<lambda>sid.
     bindR (tx_val msg) (\<lambda>val.
     bindR (timestamp_of msg) (\<lambda>ts.
     bindR (int_of_time ts) (\<lambda>i. TxMessageV19 tx_hash net source sid val (known_flags flag) (TInt i)))))))))"

definition convert_from_v19 :: "bytes \<Rightarrow> bytes res" where
  "convert_from_v19 msg =
     bindR (message_hash msg) (\<lambda>tx_hash.
     bindR (network_num_of msg) (\<lambda>net.
     bindR (source_id msg) (\<lambda>source.
     bindR (short_id_v19 msg) (\<lambda>sid.
     bindR (tx_val_v19 msg) (\<lambda>val.
     bindR (transaction_flag_v19 msg) (\<lambda>flag.
     bindR (timestamp_v19 msg) (\<lambda>ts. TxMessage tx_hash net source sid val flag ts [])))))))"

definition convert_to_v17 :: "bytes \<Rightarrow> bytes res" where
  "convert_to_v17 msg =
     bindR (transaction_flag msg) (\<lambda>flag.
     bindR (message_hash msg) (\<lambda>tx_hash.
     bindR (network_num_of msg) (\<lambda>net.
     bindR (source_id msg) (\<lambda>source.
     bindR (short_id msg) (\<lambda>sid.
     bindR (tx_val msg) (\<lambda>val.
     bindR (timestamp_of msg) (\<lambda>ts.
     bindR (int_of_time ts) (\<lambda>i. TxMessageV17 tx_hash net source sid val (known_flags flag) (TInt i)))))))))"

definition convert_from_v17 :: "bytes \<Rightarrow> bytes res" where
  "convert_from_v17 msg =
     bindR (message_hash msg) (\<lambda>tx_hash.
     bindR (network_num_of msg) (\<lambda>net.
     bindR (source_id msg) (\<lambda>source.
     bindR (short_id_v17 msg) (\<lambda>sid.
     bindR (tx_val_v17 msg) (\<lambda>val.
     bindR (transaction_flag_v17 msg) (\<lambda>flag.
     bindR (timestamp_v17 msg) (\<lambda>ts. TxMessage tx_hash net source sid val flag ts [])))))))"

definition convert_to_v15 :: "bytes \<Rightarrow> bytes res" where
  "convert_to_v15 msg =
     bindR (message_hash msg) (\<lambda>tx_hash.
     bindR (network_num_of msg) (\<lambda>net.
     bindR (source_id msg) (\<lambda>source.
     bindR (short_id msg) (\<lambda>sid.
     bindR (tx_val msg) (\<lambda>val.
     bindR (quota_type msg) (\<lambda>quota.
     bindR (timestamp_of msg) (\<lambda>ts. TxMessageV15 tx_hash net source sid val quota ts)))))))"

definition convert_from_v15 :: "bytes \<Rightarrow> bytes res" where
  "convert_from_v15 msg =
     bindR (message_hash msg) (\<lambda>tx_hash.
     bindR (network_num_of msg) (\<lambda>net.
     bindR (source_id msg) (\<lambda>source.
     bindR (short_id_v15 msg) (\<lambda>sid.
     bindR (tx_val_v15 msg) (\<lambda>val.
     bindR (quota_type_v15 msg) (\<lambda>quota.
     bindR (timestamp_v15 msg) (\<lambda>ts.
       TxMessage tx_hash net source sid val (if FREE_DAILY_QUOTA AND quota = FREE_DAILY_QUOTA then NO_FLAGS else PAID_TX) ts [])))))))"

text \<open>Those of versions 6 and 7 cut and glue bytes. The class of the other version then writes the header for the buffer it gets;
  \<open>put_header\<close> is the header that the converter of version 6 writes before that, and may fail.\<close>

definition put_header :: "int \<Rightarrow> bytes \<Rightarrow> bytes res" where
  "put_header n buf =
     bindR (pack_text 12 (ascii ''tx'') (buf, 4)) (\<lambda>c. bindR (pack_uint 4 n c) (\<lambda>(buf, _). Inr buf))"

definition left_breakpoint_v6 :: nat where
  "left_breakpoint_v6 = sid_offset + 4"

definition right_breakpoint_v6 :: nat where
  "right_breakpoint_v6 = sid_offset + 4 + 2 + 8 + 36"

definition convert_to_v6 :: "bytes \<Rightarrow> bytes res" where
  "convert_to_v6 msg =
     bindR (payload_len msg) (\<lambda>n.
     bindR (rawbytes msg) (\<lambda>raw.
     bindR (put_header (n - 2 - 8 - 36) (take left_breakpoint_v6 raw @ drop right_breakpoint_v6 raw)) (message_from_buffer (ascii ''tx''))))"

definition glue :: "nat \<Rightarrow> nat \<Rightarrow> (cursor \<Rightarrow> cursor res) \<Rightarrow> nat \<Rightarrow> bytes \<Rightarrow> bytes res" where
  \<comment> \<open>a buffer of zeros with the raw bytes up to \<open>left\<close>, what \<open>fill\<close> packs there, and the other raw bytes from \<open>right\<close> on\<close>
  "glue left right fill n raw =
     bindR (fill (take left raw @ drop left (zeros n), left)) (\<lambda>(buf, _). Inr (take right buf @ drop left raw))"

definition convert_from_v6 :: "bytes \<Rightarrow> bytes res" where
  "convert_from_v6 msg =
     bindR (payload_len msg) (\<lambda>n.
     bindR (rawbytes msg) (\<lambda>raw.
     bindR (glue left_breakpoint_v6 right_breakpoint_v6 (\<lambda>c. bindR (pack_uint 2 0 c) (pack_uint 4 0))
              (HEADER_LENGTH + nat n + 2 + 8 + 36) raw) (message_from_buffer (ascii ''tx''))))"

definition left_breakpoint_v7 :: nat where
  "left_breakpoint_v7 = sid_offset + 4 + 1"

definition right_breakpoint_v7 :: nat where
  "right_breakpoint_v7 = sid_offset + 4 + 2 + 4"

definition convert_to_v7 :: "bytes \<Rightarrow> bytes res" where
  "convert_to_v7 msg =
     bindR (rawbytes msg) (\<lambda>raw.
       message_from_buffer (ascii ''tx'') (take left_breakpoint_v7 raw @ drop right_breakpoint_v7 raw))"

definition convert_from_v7 :: "bytes \<Rightarrow> bytes res" where
  \<comment> \<open>the time is packed over the quota type\<close>
  "convert_from_v7 msg =
     bindR (payload_len msg) (\<lambda>n.
     bindR (rawbytes msg) (\<lambda>raw.
     bindR (glue left_breakpoint_v7 right_breakpoint_v7
              (\<lambda>(buf, off). bindR (pack_uint 1 0 (buf, off)) (\<lambda>(buf, _). pack_uint 4 0 (buf, off)))
              (HEADER_LENGTH + nat n + 1 + 4) raw) (message_from_buffer (ascii ''tx''))))"

section \<open>Building and reading\<close>

definition tx_command :: bytes where
  "tx_command = pad12 (ascii ''tx'')"

lemma length_tx_command [simp]: "length tx_command = 12"
  by (simp add: tx_command_def)

definition tx_head :: "bytes \<Rightarrow> int \<Rightarrow> string \<Rightarrow> int \<Rightarrow> bytes" where
  "tx_head h net src sid = h @ nat_le 4 (nat net) @ to_bytes src @ nat_le 4 (nat sid)"

definition tx_frame :: "bytes \<Rightarrow> int \<Rightarrow> string \<Rightarrow> int \<Rightarrow> bytes \<Rightarrow> bytes \<Rightarrow> bytes" where
  "tx_frame h net src sid mid val = frame tx_command ((tx_head h net src sid @ mid @ val) @ [VALID])"

definition head_ok :: "bytes \<Rightarrow> int \<Rightarrow> int \<Rightarrow> bool" where
  "head_ok h net sid \<longleftrightarrow> length h = SHA256_HASH_LEN \<and> 0 \<le> net \<and> net < 256 ^ 4 \<and> 0 \<le> sid \<and> sid < 256 ^ 4"

lemma length_tx_head: "head_ok h net sid \<Longrightarrow> length (tx_head h net src sid) = SHA256_HASH_LEN + 24"
  by (simp add: tx_head_def head_ok_def)

text \<open>A writer of the fields behind the short id: their bytes are \<open>e\<close>.\<close>

definition writes :: "(cursor \<Rightarrow> cursor res) \<Rightarrow> bytes \<Rightarrow> bool" where
  "writes w e \<longleftrightarrow> (\<forall>pre rest. length e \<le> length rest \<longrightarrow> w (cursor_at pre rest) = Inr (cursor_at (pre @ e) (drop (length e) rest)))"

lemma writesI: "field_codec ok enc wr rd \<Longrightarrow> ok x \<Longrightarrow> writes (wr x) (enc x)"
  by (simp add: writes_def field_codec.write_at)

lemma writes_then: "writes w e \<Longrightarrow> writes w' e' \<Longrightarrow> writes (\<lambda>c. bindR (w c) w') (e @ e')"
  by (auto simp: writes_def add.commute)

lemma new_message_writes:
  assumes "writes w e" "length e = n" "n + 1 < 256 ^ 4"
  shows "new_message t n w = Inr (frame (pad12 t) (e @ [VALID]))"
proof -
  have "field_codec (\<lambda>x. x = ()) (\<lambda>_. e) (\<lambda>_. w) (\<lambda>_ off. Inr ((), off + length e))"
    using assms(1) by unfold_locales (auto simp: writes_def cursor_at_def)
  from field_codec.new_message_run [OF this, of "()" n t] show ?thesis using assms(2,3) by simp
qed

lemma broadcast_writes:
  assumes "head_ok h net sid" "writes w e"
  shows "writes (broadcast_wr (\<lambda>c. bindR (pack_uint 4 sid c) w) h net src) (tx_head h net src sid @ e)"
proof -
  have "writes (put_slice SHA256_HASH_LEN h) h" using assms(1) by (intro writesI [OF bytes_field]) (simp add: head_ok_def)
  moreover have "writes (pack_uint 4 net) (nat_le 4 (nat net))" "writes (pack_uint 4 sid) (nat_le 4 (nat sid))"
    using assms(1) by (auto intro!: writesI [OF uint_field] simp: head_ok_def)
  moreover have "writes (pack_text 16 (to_bytes src)) (to_bytes src)" by (rule writesI [OF node.field_codec_axioms]) simp
  ultimately have "writes (\<lambda>c. bindR (put_slice SHA256_HASH_LEN h c) (\<lambda>c. bindR (pack_uint 4 net c) (\<lambda>c.
      bindR (pack_text 16 (to_bytes src) c) (\<lambda>c. bindR (pack_uint 4 sid c) w))))
    (h @ nat_le 4 (nat net) @ to_bytes src @ nat_le 4 (nat sid) @ e)"
    using assms(2) by (intro writes_then)
  then show ?thesis by (simp add: broadcast_wr_def [abs_def] tx_head_def)
qed

lemma new_tx:
  assumes "head_ok h net sid" "writes w mid" "n = broadcast_length - 1 + 4 + length mid + length val" "n + 1 < 256 ^ 4"
  shows "new_message (ascii ''tx'') n (broadcast_wr (\<lambda>c. bindR (pack_uint 4 sid c) (\<lambda>c. bindR (w c) (put_slice (length val) val))) h net src) =
    Inr (tx_frame h net src sid mid val)"
proof -
  have "writes (put_slice (length val) val) val" by (rule writesI [OF bytes_field]) simp
  from broadcast_writes [OF assms(1) writes_then [OF assms(2) this], of src]
  have "writes (broadcast_wr (\<lambda>c. bindR (pack_uint 4 sid c) (\<lambda>c. bindR (w c) (put_slice (length val) val))) h net src)
    (tx_head h net src sid @ mid @ val)" .
  from new_message_writes [OF this _ assms(4)] show ?thesis
    using length_tx_head [OF assms(1)] assms(3) by (simp add: tx_frame_def tx_command_def broadcast_length_def)
qed

text \<open>Reading a field that stands behind \<open>pre\<close>.\<close>

lemma read_frame:
  assumes "field_codec ok enc wr rd" "ok x" "length cmd = 12" "off = HEADER_LENGTH + length pre"
  shows "read_at rd off (frame cmd (pre @ enc x @ post)) = Inr x"
proof -
  let ?front = "STARTING_SEQUENCE_BYTES @ cmd @ nat_le 4 (length (pre @ enc x @ post)) @ pre"
  have "frame cmd (pre @ enc x @ post) = ?front @ enc x @ post" by (simp add: frame_def)
  moreover have "length ?front = off" using assms(3,4) by (simp add: HEADER_LENGTH_def)
  ultimately have "rd (frame cmd (pre @ enc x @ post)) off = Inr (x, off + length (enc x))"
    using field_codec.read_enc [OF assms(1,2), of ?front post] by metis
  then show ?thesis by (simp add: read_at_def)
qed

lemma read_mid:
  assumes "field_codec ok enc wr rd" "ok x" "head_ok h net sid" "mid = m1 @ enc x @ m2" "off = sid_offset + 4 + length m1"
  shows "read_at rd off (tx_frame h net src sid mid val) = Inr x"
  using read_frame [OF assms(1,2) length_tx_command, of off "tx_head h net src sid @ m1" "m2 @ val @ [VALID]"] assms length_tx_head [OF assms(3), of src]
  by (simp add: tx_frame_def sid_offset_def broadcast_length_def)

lemma read_head:
  assumes "head_ok h net sid"
  shows "message_hash (tx_frame h net src sid mid val) = Inr h"
    and "network_num_of (tx_frame h net src sid mid val) = Inr net"
    and "source_id (tx_frame h net src sid mid val) = Inr (source_text (to_bytes src))"
    and "read_at (unpack_uint 4) sid_offset (tx_frame h net src sid mid val) = Inr sid"
proof -
  have l: "length h = SHA256_HASH_LEN" using assms by (simp add: head_ok_def)
  have "read_at read_hash HEADER_LENGTH (tx_frame h net src sid mid val) = Inr h"
    using read_frame [OF hash.field_codec_axioms l length_tx_command, of HEADER_LENGTH "[]"] by (simp add: tx_frame_def tx_head_def)
  then show "message_hash (tx_frame h net src sid mid val) = Inr h"
    by (auto simp: read_at_def read_hash_def get_slice_at_def message_hash_def bindR_def split: sum.splits)
  show "network_num_of (tx_frame h net src sid mid val) = Inr net"
    using read_frame [OF uint_field [of 4] _ length_tx_command, of net "HEADER_LENGTH + SHA256_HASH_LEN" h] assms l
    by (simp add: tx_frame_def tx_head_def network_num_of_def read_at_def head_ok_def)
  have "read_at (unpack_text 16) (HEADER_LENGTH + SHA256_HASH_LEN + 4) (tx_frame h net src sid mid val) = Inr (to_bytes src)"
    using read_frame [OF node.field_codec_axioms length_to_bytes length_tx_command, of "HEADER_LENGTH + SHA256_HASH_LEN + 4" "h @ nat_le 4 (nat net)" src] l
    by (simp add: tx_frame_def tx_head_def)
  then show "source_id (tx_frame h net src sid mid val) = Inr (source_text (to_bytes src))"
    by (auto simp: source_id_def read_at_def bindR_def split: sum.splits)
  show "read_at (unpack_uint 4) sid_offset (tx_frame h net src sid mid val) = Inr sid"
    using read_frame [OF uint_field [of 4] _ length_tx_command, of sid sid_offset "h @ nat_le 4 (nat net) @ to_bytes src"] assms l
    by (simp add: tx_frame_def tx_head_def head_ok_def sid_offset_def broadcast_length_def)
qed

lemma payload_len_frame:
  assumes "length cmd = 12" "length payload < 256 ^ 4"
  shows "payload_len (frame cmd payload) = Inr (int (length payload))"
  using assms frame_parts(7) [OF assms(1), of payload "[]"] frame_parts(3) [OF assms(1), of payload]
  by (simp add: payload_len_def unpack_uint_def le_nat_nat_le HEADER_LENGTH_def)

lemma read_contents:
  assumes "head_ok h net sid" "off = sid_offset + 4 + length mid" "broadcast_length + 4 + length mid + length val < 256 ^ 4"
  shows "contents_from off (tx_frame h net src sid mid val) = Inr val"
proof -
  let ?body = "(tx_head h net src sid @ mid @ val) @ [VALID]"
  have lb: "length ?body = broadcast_length + 4 + length mid + length val"
    using length_tx_head [OF assms(1), of src] by (simp add: broadcast_length_def)
  define n where "n = length ?body"
  have "length ?body < 256 ^ 4" using lb assms(3) by simp
  then have p: "payload_len (frame tx_command ?body) = Inr (int n)" unfolding n_def by (intro payload_len_frame length_tx_command)
  have "frame tx_command ?body = (STARTING_SEQUENCE_BYTES @ tx_command @ nat_le 4 (length ?body) @ tx_head h net src sid @ mid) @ val @ [VALID]"
    by (simp add: frame_def)
  then have "slice (frame tx_command ?body) off (off + length val) = val"
    using slice_behind [of "STARTING_SEQUENCE_BYTES @ tx_command @ nat_le 4 (length ?body) @ tx_head h net src sid @ mid" val "[VALID]"]
      assms(2) length_tx_head [OF assms(1), of src]
    by (simp add: sid_offset_def HEADER_LENGTH_def broadcast_length_def add.assoc)
  moreover have "HEADER_LENGTH + n - 1 = off + length val" "n \<noteq> 0" using lb assms(2) by (simp_all add: n_def sid_offset_def broadcast_length_def)
  ultimately show ?thesis unfolding tx_frame_def contents_from_def p bindR_simps nat_int by simp
qed

section \<open>Every format reads back\<close>

lemma bindR_assoc: "bindR (bindR m f) g = bindR m (\<lambda>x. bindR (f x) g)"
  by (cases m) simp_all

definition flag_bytes :: "int \<Rightarrow> bytes" where
  "flag_bytes flag = nat_le 2 (nat flag)"

definition flags_ok :: "int \<Rightarrow> bool" where
  "flags_ok flag \<longleftrightarrow> 0 \<le> flag \<and> flag < 2 ^ 13"

definition mid_now :: "int \<Rightarrow> 64 word \<Rightarrow> bytes \<Rightarrow> bytes" where
  "mid_now flag w acct = flag_bytes flag @ double_enc (TFloat w) @ account_enc acct"

definition mid_v21 :: "int \<Rightarrow> 64 word \<Rightarrow> bytes" where
  "mid_v21 flag w = flag_bytes flag @ double_enc (TFloat w)"

definition mid_v20 :: "int \<Rightarrow> int \<Rightarrow> bytes" where
  "mid_v20 flag i = flag_bytes flag @ seconds_enc (TInt i)"

definition mid_v15 :: "int \<Rightarrow> int \<Rightarrow> bytes" where
  "mid_v15 quota i = nat_le 1 (nat quota) @ seconds_enc (TInt i)"

lemma length_flag_bytes [simp]: "length (flag_bytes flag) = 2"
  by (simp add: flag_bytes_def)

lemma is_double_TFloat [simp]: "is_double (TFloat w)"
  by (simp add: is_double_def)

lemma is_seconds_TInt [simp]: "is_seconds (TInt i) \<longleftrightarrow> 0 \<le> i \<and> i < 256 ^ 4"
  by (simp add: is_seconds_def)

lemma length_seconds_TInt [simp]: "length (seconds_enc (TInt i)) = 4"
  by (simp add: seconds_enc_def)

lemma length_mids [simp]:
  "length (mid_now flag w acct) = 46" "length (mid_v21 flag w) = 10" "length (mid_v20 flag i) = 6" "length (mid_v15 quota i) = 5"
  by (simp_all add: mid_now_def mid_v21_def mid_v20_def mid_v15_def)

lemma flag_codec: "field_codec flags_ok flag_bytes (pack_uint 2) read_flag"
proof
  fix flag and pre rest :: bytes
  assume "flags_ok flag" "length (flag_bytes flag) \<le> length rest"
  then show "pack_uint 2 flag (pre @ rest, length pre) =
      Inr (pre @ flag_bytes flag @ drop (length (flag_bytes flag)) rest, length pre + length (flag_bytes flag))"
    using uint.write_enc [of flag 2 rest pre] by (simp add: flags_ok_def flag_bytes_def)
next
  fix flag and pre post :: bytes
  assume "flags_ok flag"
  then show "read_flag (pre @ flag_bytes flag @ post) (length pre) = Inr (flag, length pre + length (flag_bytes flag))"
    using uint.read_enc [of flag 2 pre post] by (simp add: flags_ok_def flag_bytes_def read_flag_def TransactionFlag_def)
qed

lemma pack_double_as: "float_of_time t = Inr w \<Longrightarrow> pack_double t = pack_double (TFloat w)"
  by (simp add: fun_eq_iff pack_double_def float_of_time_def)

lemma TxMessage_run:
  assumes "head_ok h net sid" "flags_ok flag" "float_of_time t = Inr w" "account_ok acct" "broadcast_length + 50 + length val < 256 ^ 4"
  shows "TxMessage h net src sid val flag t acct = Inr (tx_frame h net src sid (mid_now flag w acct) val)"
proof -
  have "writes (pack_uint 2 flag) (flag_bytes flag)" "writes (pack_double (TFloat w)) (double_enc (TFloat w))" "writes (pack_text 36 acct) (account_enc acct)"
    using assms(2,4) by (auto intro: writesI [OF flag_codec] writesI [OF double.field_codec_axioms] writesI [OF account.field_codec_axioms])
  then have "writes (\<lambda>c. bindR (pack_uint 2 flag c) (\<lambda>c. bindR (pack_double (TFloat w) c) (pack_text 36 acct))) (mid_now flag w acct)"
    unfolding mid_now_def by (intro writes_then)
  from new_tx [OF assms(1) this, of _ val src] assms(5) show ?thesis
    by (simp add: TxMessage_def pack_double_as [OF assms(3)] bindR_assoc broadcast_length_def add.assoc add.left_commute)
qed

lemma read_now:
  assumes "head_ok h net sid" "flags_ok flag" "account_ok acct" "broadcast_length + 50 + length val < 256 ^ 4"
  shows "transaction_flag (tx_frame h net src sid (mid_now flag w acct) val) = Inr flag"
    and "timestamp_of (tx_frame h net src sid (mid_now flag w acct) val) = Inr (TFloat w)"
    and "account_id (tx_frame h net src sid (mid_now flag w acct) val) = Inr acct"
    and "tx_val (tx_frame h net src sid (mid_now flag w acct) val) = Inr val"
    and "short_id (tx_frame h net src sid (mid_now flag w acct) val) = Inr sid"
proof -
  show "transaction_flag (tx_frame h net src sid (mid_now flag w acct) val) = Inr flag"
    unfolding transaction_flag_def
    by (rule read_mid [OF flag_codec assms(2,1), of _ "[]" "double_enc (TFloat w) @ account_enc acct"]) (simp_all add: mid_now_def)
  show "timestamp_of (tx_frame h net src sid (mid_now flag w acct) val) = Inr (TFloat w)"
    unfolding timestamp_of_def
    by (rule read_mid [OF double.field_codec_axioms is_double_TFloat assms(1), of _ "flag_bytes flag" w "account_enc acct"]) (simp_all add: mid_now_def)
  show "account_id (tx_frame h net src sid (mid_now flag w acct) val) = Inr acct"
    unfolding account_id_def
    by (rule read_mid [OF account.field_codec_axioms assms(3,1), of _ "flag_bytes flag @ double_enc (TFloat w)" "[]"]) (simp_all add: mid_now_def)
  show "tx_val (tx_frame h net src sid (mid_now flag w acct) val) = Inr val"
    unfolding tx_val_def using assms(4) by (intro read_contents [OF assms(1)]) simp_all
  show "short_id (tx_frame h net src sid (mid_now flag w acct) val) = Inr sid"
    unfolding short_id_def by (rule read_head(4) [OF assms(1)])
qed

lemma TxMessageV21_run:
  assumes "head_ok h net sid" "flags_ok flag" "float_of_time t = Inr w" "broadcast_length + 50 + length val < 256 ^ 4"
  shows "TxMessageV21 h net src sid val flag t = Inr (tx_frame h net src sid (mid_v21 flag w) val)"
proof -
  have "writes (pack_uint 2 flag) (flag_bytes flag)" "writes (pack_double (TFloat w)) (double_enc (TFloat w))"
    using assms(2) by (auto intro: writesI [OF flag_codec] writesI [OF double.field_codec_axioms])
  then have "writes (\<lambda>c. bindR (pack_uint 2 flag c) (pack_double (TFloat w))) (mid_v21 flag w)"
    unfolding mid_v21_def by (intro writes_then)
  from new_tx [OF assms(1) this, of _ val src] assms(4) show ?thesis
    by (simp add: TxMessageV21_def pack_double_as [OF assms(3)] bindR_assoc broadcast_length_def add.assoc add.left_commute)
qed

lemma read_v21:
  assumes "head_ok h net sid" "flags_ok flag" "broadcast_length + 50 + length val < 256 ^ 4"
  shows "transaction_flag_v21 (tx_frame h net src sid (mid_v21 flag w) val) = Inr flag"
    and "timestamp_v21 (tx_frame h net src sid (mid_v21 flag w) val) = Inr (TFloat w)"
    and "tx_val_v21 (tx_frame h net src sid (mid_v21 flag w) val) = Inr val"
    and "short_id_v21 (tx_frame h net src sid (mid_v21 flag w) val) = Inr sid"
proof -
  show "transaction_flag_v21 (tx_frame h net src sid (mid_v21 flag w) val) = Inr flag"
    unfolding transaction_flag_v21_def
    by (rule read_mid [OF flag_codec assms(2,1), of _ "[]" "double_enc (TFloat w)"]) (simp_all add: mid_v21_def)
  show "timestamp_v21 (tx_frame h net src sid (mid_v21 flag w) val) = Inr (TFloat w)"
    unfolding timestamp_v21_def
    by (rule read_mid [OF double.field_codec_axioms is_double_TFloat assms(1), of _ "flag_bytes flag" w "[]"]) (simp_all add: mid_v21_def)
  show "tx_val_v21 (tx_frame h net src sid (mid_v21 flag w) val) = Inr val"
    unfolding tx_val_v21_def using assms(3) by (intro read_contents [OF assms(1)]) simp_all
  show "short_id_v21 (tx_frame h net src sid (mid_v21 flag w) val) = Inr sid"
    unfolding short_id_v21_def by (rule read_head(4) [OF assms(1)])
qed

text \<open>Versions 17, 19 and 20 are one format.\<close>

lemma same_format:
  "TxMessageV19 = TxMessageV20" "TxMessageV17 = TxMessageV20" "convert_from_v19 = convert_from_v20" "convert_from_v17 = convert_from_v20"
  "convert_to_v17 = convert_to_v19"
  by (simp_all add: fun_eq_iff TxMessageV20_def TxMessageV19_def TxMessageV17_def convert_from_v20_def convert_from_v19_def convert_from_v17_def
      convert_to_v19_def convert_to_v17_def short_id_v20_def short_id_v19_def short_id_v17_def transaction_flag_v20_def transaction_flag_v19_def
      transaction_flag_v17_def timestamp_v20_def timestamp_v19_def timestamp_v17_def tx_val_v20_def tx_val_v19_def tx_val_v17_def)

lemma TxMessageV20_run:
  assumes "head_ok h net sid" "flags_ok flag" "int_of_time t = Inr i" "0 \<le> i" "i < 256 ^ 4" "broadcast_length + 50 + length val < 256 ^ 4"
  shows "TxMessageV20 h net src sid val flag t = Inr (tx_frame h net src sid (mid_v20 flag i) val)"
proof -
  have "writes (pack_uint 2 flag) (flag_bytes flag)" "writes (pack_seconds (TInt i)) (seconds_enc (TInt i))"
    using assms by (auto intro: writesI [OF flag_codec] writesI [OF seconds.field_codec_axioms])
  then have "writes (\<lambda>c. bindR (pack_uint 2 flag c) (pack_seconds (TInt i))) (mid_v20 flag i)"
    unfolding mid_v20_def by (intro writes_then)
  from new_tx [OF assms(1) this, of _ val src] assms(6) show ?thesis
    by (simp add: TxMessageV20_def pack_seconds_int [OF assms(3)] bindR_assoc broadcast_length_def add.assoc add.left_commute)
qed

lemma read_v20:
  assumes "head_ok h net sid" "flags_ok flag" "0 \<le> i" "i < 256 ^ 4" "broadcast_length + 50 + length val < 256 ^ 4"
  shows "transaction_flag_v20 (tx_frame h net src sid (mid_v20 flag i) val) = Inr flag"
    and "timestamp_v20 (tx_frame h net src sid (mid_v20 flag i) val) = Inr (TInt i)"
    and "tx_val_v20 (tx_frame h net src sid (mid_v20 flag i) val) = Inr val"
    and "short_id_v20 (tx_frame h net src sid (mid_v20 flag i) val) = Inr sid"
proof -
  show "transaction_flag_v20 (tx_frame h net src sid (mid_v20 flag i) val) = Inr flag"
    unfolding transaction_flag_v20_def
    by (rule read_mid [OF flag_codec assms(2,1), of _ "[]" "seconds_enc (TInt i)"]) (simp_all add: mid_v20_def)
  have "is_seconds (TInt i)" using assms(3,4) by simp
  then show "timestamp_v20 (tx_frame h net src sid (mid_v20 flag i) val) = Inr (TInt i)"
    unfolding timestamp_v20_def
    by (rule read_mid [OF seconds.field_codec_axioms _ assms(1), of _ _ "flag_bytes flag" "[]"]) (simp_all add: mid_v20_def)
  show "tx_val_v20 (tx_frame h net src sid (mid_v20 flag i) val) = Inr val"
    unfolding tx_val_v20_def using assms(5) by (intro read_contents [OF assms(1)]) simp_all
  show "short_id_v20 (tx_frame h net src sid (mid_v20 flag i) val) = Inr sid"
    unfolding short_id_v20_def by (rule read_head(4) [OF assms(1)])
qed

definition quota_ok :: "int \<Rightarrow> bool" where
  "quota_ok q \<longleftrightarrow> 0 \<le> q \<and> q < 4"

lemma quota_codec: "field_codec quota_ok (\<lambda>q. nat_le 1 (nat q)) (pack_uint 1) read_quota"
proof
  fix q and pre rest :: bytes
  assume "quota_ok q" "length (nat_le 1 (nat q)) \<le> length rest"
  then show "pack_uint 1 q (pre @ rest, length pre) =
      Inr (pre @ nat_le 1 (nat q) @ drop (length (nat_le 1 (nat q))) rest, length pre + length (nat_le 1 (nat q)))"
    using uint.write_enc [of q 1 rest pre] by (simp add: quota_ok_def)
next
  fix q and pre post :: bytes
  assume "quota_ok q"
  then show "read_quota (pre @ nat_le 1 (nat q) @ post) (length pre) = Inr (q, length pre + length (nat_le 1 (nat q)))"
    using uint.read_enc [of q 1 pre post] by (simp add: quota_ok_def read_quota_def QuotaType_def)
qed

lemma TxMessageV15_run:
  assumes "head_ok h net sid" "quota_ok q" "int_of_time t = Inr i" "0 \<le> i" "i < 256 ^ 4" "broadcast_length + 50 + length val < 256 ^ 4"
  shows "TxMessageV15 h net src sid val q t = Inr (tx_frame h net src sid (mid_v15 q i) val)"
proof -
  have "writes (pack_uint 1 q) (nat_le 1 (nat q))" using assms(2) by (rule writesI [OF quota_codec])
  moreover have "writes (pack_seconds (TInt i)) (seconds_enc (TInt i))"
    using assms by (auto intro: writesI [OF seconds.field_codec_axioms])
  ultimately have "writes (\<lambda>c. bindR (pack_uint 1 q c) (pack_seconds (TInt i))) (mid_v15 q i)"
    unfolding mid_v15_def by (intro writes_then)
  from new_tx [OF assms(1) this, of _ val src] assms(6) show ?thesis
    by (simp add: TxMessageV15_def pack_seconds_int [OF assms(3)] bindR_assoc broadcast_length_def add.assoc add.left_commute)
qed

lemma read_v15:
  assumes "head_ok h net sid" "quota_ok q" "0 \<le> i" "i < 256 ^ 4" "broadcast_length + 50 + length val < 256 ^ 4"
  shows "quota_type_v15 (tx_frame h net src sid (mid_v15 q i) val) = Inr q"
    and "timestamp_v15 (tx_frame h net src sid (mid_v15 q i) val) = Inr (TInt i)"
    and "tx_val_v15 (tx_frame h net src sid (mid_v15 q i) val) = Inr val"
    and "short_id_v15 (tx_frame h net src sid (mid_v15 q i) val) = Inr sid"
proof -
  show "quota_type_v15 (tx_frame h net src sid (mid_v15 q i) val) = Inr q"
    unfolding quota_type_v15_def
    by (rule read_mid [OF quota_codec assms(2,1), of _ "[]" "seconds_enc (TInt i)"]) (simp_all add: mid_v15_def)
  have "is_seconds (TInt i)" using assms(3,4) by simp
  then show "timestamp_v15 (tx_frame h net src sid (mid_v15 q i) val) = Inr (TInt i)"
    unfolding timestamp_v15_def
    by (rule read_mid [OF seconds.field_codec_axioms _ assms(1), of _ _ "nat_le 1 (nat q)" "[]"]) (simp_all add: mid_v15_def)
  show "tx_val_v15 (tx_frame h net src sid (mid_v15 q i) val) = Inr val"
    unfolding tx_val_v15_def using assms(5) by (intro read_contents [OF assms(1)]) simp_all
  show "short_id_v15 (tx_frame h net src sid (mid_v15 q i) val) = Inr sid"
    unfolding short_id_v15_def by (rule read_head(4) [OF assms(1)])
qed

end
