(* ===== verification/TxVersions.thy ===== *)
theory TxVersions
  imports TxMessages
begin

text \<open>
  Conversion of transaction messages between protocol versions: which converter the mappings of the versions give
  (messages/bloxroute/v6 to v22, bloxroute_version_manager.py), what a message keeps when it goes to an older version and back, and what
  goes wrong with version 7.
\<close>

section \<open>The converter of a version\<close>

text \<open>The converters of transactions, and the others by name; they take other messages.\<close>

datatype converter = TxV6 | TxV7 | TxV15 | TxV17 | TxV19 | TxV20 | TxV21 | NoChanges | OtherConverter string

type_synonym converter_mapping = "(bytes, converter) dict"

text \<open>The mapping of a version is that of the next one with its own entries; 21 starts anew.\<close>

definition converters_v22 :: converter_mapping where
  "converters_v22 = []"

definition converters_v21 :: converter_mapping where
  "converters_v21 = [(ascii ''tx'', TxV21)]"

definition converters_v20 :: converter_mapping where
  "converters_v20 = dput (ascii ''tx'') TxV20 converters_v21"

definition converters_v19 :: converter_mapping where
  "converters_v19 = dput (ascii ''tx'') TxV19 converters_v20"

definition converters_v18 :: converter_mapping where
  "converters_v18 = dput (ascii ''bdnstats'') (OtherConverter ''bdn_performance_stats_message_converter_v18'') (dput (ascii ''tx'') TxV17 converters_v19)"

definition converters_v17 :: converter_mapping where
  "converters_v17 = dput (ascii ''bdnstats'') (OtherConverter ''bdn_performance_stats_message_converter_v16'') (dput (ascii ''tx'') TxV17 converters_v18)"

definition converters_v16 :: converter_mapping where
  "converters_v16 = dput (ascii ''bdnstats'') (OtherConverter ''bdn_performance_stats_message_converter_v16'') converters_v17"

definition converters_v15 :: converter_mapping where
  "converters_v15 = dput (ascii ''txtxs'') (OtherConverter ''tx_sync_message_converter_v15'') (dput (ascii ''tx'') TxV15 converters_v16)"

definition converters_v14 :: converter_mapping where
  "converters_v14 = dput (ascii ''bdnstats'') (OtherConverter ''bdn_performance_stats_message_converter_v14'') converters_v15"

definition converters_v13 :: converter_mapping where
  "converters_v13 = dput (ascii ''pong'') (OtherConverter ''pong_message_converter_v13'') converters_v14"

definition converters_v12 :: converter_mapping where
  "converters_v12 = converters_v13"

definition converters_v11 :: converter_mapping where
  "converters_v11 = converters_v12"

definition converters_v10 :: converter_mapping where
  "converters_v10 = dput (ascii ''bdnstats'') (OtherConverter ''bdn_performance_stats_message_converter_v10'') converters_v11"

definition converters_v9 :: converter_mapping where
  "converters_v9 = dput (ascii ''bdnstats'') (OtherConverter ''bdn_performance_stats_message_converter_v9'') converters_v10"

definition converters_v8 :: converter_mapping where
  "converters_v8 = dput (ascii ''broadcast'') (OtherConverter ''broadcast_message_converter_v8'') converters_v9"

definition converters_v7 :: converter_mapping where
  "converters_v7 = dput (ascii ''tx'') TxV7 converters_v8"

definition converters_v6 :: converter_mapping where
  "converters_v6 = dput (ascii ''txtxs'') (OtherConverter ''tx_sync_message_converter_v6'') (dput (ascii ''tx'') TxV6 converters_v7)"

definition protocol_to_converter_factory_mapping :: "(nat, converter_mapping) dict" where
  "protocol_to_converter_factory_mapping =
     [(6, converters_v6), (7, converters_v7), (8, converters_v8), (9, converters_v9), (10, converters_v10), (11, converters_v11),
      (12, converters_v12), (13, converters_v13), (14, converters_v14), (15, converters_v15), (16, converters_v16), (17, converters_v17),
      (18, converters_v18), (19, converters_v19), (20, converters_v20), (21, converters_v21), (22, converters_v22)]"

lemmas converters_defs = converters_v22_def converters_v21_def converters_v20_def converters_v19_def converters_v18_def converters_v17_def
  converters_v16_def converters_v15_def converters_v14_def converters_v13_def converters_v12_def converters_v11_def converters_v10_def
  converters_v9_def converters_v8_def converters_v7_def converters_v6_def

definition PROTOCOL_VERSION :: nat where
  "PROTOCOL_VERSION = 23"

definition get_message_converter :: "converter_mapping \<Rightarrow> bytes \<Rightarrow> converter res" where
  "get_message_converter mapping msg_type =
     bindR (guardR (msg_type \<noteq> []) ValueError) (\<lambda>_.
       Inr (case dget mapping msg_type of None \<Rightarrow> NoChanges | Some c \<Rightarrow> c))"

definition version_converter :: "nat \<Rightarrow> bytes \<Rightarrow> converter res" where
  \<comment> \<open>\<open>_get_message_converter\<close>\<close>
  "version_converter v msg_type =
     bindR (dgetR protocol_to_converter_factory_mapping v) (\<lambda>mapping. get_message_converter mapping msg_type)"

definition run_to_older :: "converter \<Rightarrow> bytes \<Rightarrow> bytes res" where
  "run_to_older c msg =
     (case c of TxV6 \<Rightarrow> convert_to_v6 msg | TxV7 \<Rightarrow> convert_to_v7 msg | TxV15 \<Rightarrow> convert_to_v15 msg | TxV17 \<Rightarrow> convert_to_v17 msg
      | TxV19 \<Rightarrow> convert_to_v19 msg | TxV20 \<Rightarrow> convert_to_v20 msg | TxV21 \<Rightarrow> convert_to_v21 msg | NoChanges \<Rightarrow> Inr msg | OtherConverter _ \<Rightarrow> Inl ValueError)"

definition run_from_older :: "converter \<Rightarrow> bytes \<Rightarrow> bytes res" where
  "run_from_older c msg =
     (case c of TxV6 \<Rightarrow> convert_from_v6 msg | TxV7 \<Rightarrow> convert_from_v7 msg | TxV15 \<Rightarrow> convert_from_v15 msg | TxV17 \<Rightarrow> convert_from_v17 msg
      | TxV19 \<Rightarrow> convert_from_v19 msg | TxV20 \<Rightarrow> convert_from_v20 msg | TxV21 \<Rightarrow> convert_from_v21 msg | NoChanges \<Rightarrow> Inr msg | OtherConverter _ \<Rightarrow> Inl ValueError)"

definition has_converter :: "nat \<Rightarrow> bool" where
  "has_converter v \<longleftrightarrow> dget protocol_to_converter_factory_mapping v \<noteq> None"

definition convert_message_from_older_version :: "nat \<Rightarrow> bytes \<Rightarrow> bytes res" where
  "convert_message_from_older_version v msg =
     bindR (guardR (has_converter v) ValueError) (\<lambda>_.
     bindR (version_converter v (ascii ''tx'')) (\<lambda>c. run_from_older c msg))"

lemma tx_type_others: "ascii ''tx'' \<noteq> ascii ''bdnstats''" "ascii ''tx'' \<noteq> ascii ''txtxs''" "ascii ''tx'' \<noteq> ascii ''pong''" "ascii ''tx'' \<noteq> ascii ''broadcast''"
  by (simp_all add: ascii_def)

text \<open>Versions 8 to 15 share a converter, and so do 16 to 18.\<close>

lemma tx_converters:
  "version_converter 6 (ascii ''tx'') = Inr TxV6" "version_converter 7 (ascii ''tx'') = Inr TxV7"
  "8 \<le> v \<Longrightarrow> v \<le> 15 \<Longrightarrow> version_converter v (ascii ''tx'') = Inr TxV15"
  "16 \<le> v \<Longrightarrow> v \<le> 18 \<Longrightarrow> version_converter v (ascii ''tx'') = Inr TxV17"
  "version_converter 19 (ascii ''tx'') = Inr TxV19" "version_converter 20 (ascii ''tx'') = Inr TxV20"
  "version_converter 21 (ascii ''tx'') = Inr TxV21" "version_converter 22 (ascii ''tx'') = Inr NoChanges"
proof -
  have n: "ascii ''tx'' \<noteq> []" by (simp add: ascii_def)
  have "v = 8 \<or> v = 9 \<or> v = 10 \<or> v = 11 \<or> v = 12 \<or> v = 13 \<or> v = 14 \<or> v = 15" if "8 \<le> v" "v \<le> 15" using that by arith
  then show "8 \<le> v \<Longrightarrow> v \<le> 15 \<Longrightarrow> version_converter v (ascii ''tx'') = Inr TxV15"
    using n by (elim meta_impE disjE)
      (simp_all add: version_converter_def protocol_to_converter_factory_mapping_def get_message_converter_def converters_defs guardR_def tx_type_others)
  have "v = 16 \<or> v = 17 \<or> v = 18" if "16 \<le> v" "v \<le> 18" using that by arith
  then show "16 \<le> v \<Longrightarrow> v \<le> 18 \<Longrightarrow> version_converter v (ascii ''tx'') = Inr TxV17"
    using n by (elim meta_impE disjE)
      (simp_all add: version_converter_def protocol_to_converter_factory_mapping_def get_message_converter_def converters_defs guardR_def tx_type_others)
qed (simp_all add: version_converter_def protocol_to_converter_factory_mapping_def get_message_converter_def converters_defs guardR_def
      tx_type_others ascii_def)

lemma has_converter_iff: "has_converter v \<longleftrightarrow> 6 \<le> v \<and> v < PROTOCOL_VERSION"
  unfolding has_converter_def protocol_to_converter_factory_mapping_def PROTOCOL_VERSION_def
  by (simp add: dget_Some_iff_key [symmetric, simplified]) arith

section \<open>What an older version keeps\<close>

definition kept_flag :: "nat \<Rightarrow> int \<Rightarrow> int" where
  "kept_flag v flag =
     (if 20 \<le> v then flag else if 16 \<le> v then known_flags flag else if 8 \<le> v then flag AND PAID_TX else NO_FLAGS)"

definition kept_time :: "nat \<Rightarrow> 64 word \<Rightarrow> int \<Rightarrow> timestamp" where
  "kept_time v w seconds = (if 21 \<le> v then TFloat w else if 8 \<le> v then TInt seconds else NULL_TX_TIMESTAMP)"

definition kept_account :: "nat \<Rightarrow> bytes \<Rightarrow> bytes" where
  "kept_account v acct = (if v = 22 then acct else [])"

text \<open>A message whose fields are in range: the seconds of its time fit into four bytes.\<close>

definition tx_fits :: "bytes \<Rightarrow> int \<Rightarrow> int \<Rightarrow> bytes \<Rightarrow> int \<Rightarrow> 64 word \<Rightarrow> int \<Rightarrow> bytes \<Rightarrow> bool" where
  "tx_fits h net sid val flag w seconds acct \<longleftrightarrow>
     head_ok h net sid \<and> flags_ok flag \<and> account_ok acct \<and> broadcast_length + 50 + length val < 256 ^ 4 \<and>
     float_int w = Inr seconds \<and> 0 \<le> seconds \<and> seconds < 256 ^ 4"

lemma account_ok_Nil [simp]: "account_ok []"
  by (simp add: account_ok_def)

lemma float_of_time_TFloat [simp]: "float_of_time (TFloat w) = Inr w"
  by (simp add: float_of_time_def)

lemma tx_frame_source [simp]: "tx_frame h net (source_text (to_bytes src)) sid mid val = tx_frame h net src sid mid val"
  by (simp add: tx_frame_def tx_head_def to_bytes_source_text)

lemma tx_frame_ok:
  assumes "head_ok h net sid" "length mid \<le> 46" "broadcast_length + 50 + length val < 256 ^ 4"
  shows "frame_ok None (tx_frame h net src sid mid val)"
  unfolding tx_frame_def using assms length_tx_head [OF assms(1), of src]
  by (intro new_frame_ok) (simp_all add: broadcast_length_def)

lemma seconds_as_float:
  assumes "0 \<le> i" "i < 256 ^ 4"
  shows "\<exists>w. float_of_time (TInt i) = Inr w"
  using float_int_float [of i] assms by (auto simp: float_of_time_def)

lemma v21_trip:
  assumes "tx_fits h net sid val flag w i acct"
  shows "convert_to_v21 (tx_frame h net src sid (mid_now flag w acct) val) = Inr (tx_frame h net src sid (mid_v21 flag w) val)"
    and "convert_from_v21 (tx_frame h net src sid (mid_v21 flag w) val) = TxMessage h net src sid val flag (TFloat w) []"
  using assms
  by (simp_all add: tx_fits_def convert_to_v21_def convert_from_v21_def read_head read_now read_v21 TxMessageV21_run TxMessage_run)

lemma v20_to:
  assumes "tx_fits h net sid val flag w i acct"
  shows "convert_to_v20 (tx_frame h net src sid (mid_now flag w acct) val) = Inr (tx_frame h net src sid (mid_v20 flag i) val)"
    and "convert_to_v19 (tx_frame h net src sid (mid_now flag w acct) val) = Inr (tx_frame h net src sid (mid_v20 (known_flags flag) i) val)"
  using assms known_flags_bounds [of flag]
  by (simp_all add: tx_fits_def convert_to_v20_def convert_to_v19_def same_format read_head read_now int_of_time_def TxMessageV20_run flags_ok_def)

lemma v20_from:
  assumes "tx_fits h net sid val flag w i acct" "flags_ok f"
  shows "convert_from_v20 (tx_frame h net src sid (mid_v20 f i) val) = TxMessage h net src sid val f (TInt i) []"
proof -
  obtain u where u: "float_of_time (TInt i) = Inr u" using assms(1) seconds_as_float [of i] by (auto simp: tx_fits_def)
  show ?thesis
    using assms u by (simp add: tx_fits_def convert_from_v20_def read_head read_v20 TxMessage_run)
qed

lemma quota_kept: "(if FREE_DAILY_QUOTA AND get_quota_type flag = FREE_DAILY_QUOTA then NO_FLAGS else PAID_TX) = flag AND PAID_TX"
proof -
  have "flag AND 2 ^ n = (if bit flag n then 2 ^ n else 0)" for n
    by (rule bit_eqI) (auto simp: bit_and_iff bit_exp_iff)
  from this [of 1] have "flag AND 2 = 0 \<or> flag AND 2 = 2" by (auto split: if_splits)
  then show ?thesis by (auto simp: get_quota_type_def FREE_DAILY_QUOTA_def PAID_DAILY_QUOTA_def NO_FLAGS_def PAID_TX_def and.commute)
qed

lemma v15_trip:
  assumes "tx_fits h net sid val flag w i acct"
  shows "convert_to_v15 (tx_frame h net src sid (mid_now flag w acct) val) = Inr (tx_frame h net src sid (mid_v15 (get_quota_type flag) i) val)"
    and "convert_from_v15 (tx_frame h net src sid (mid_v15 (get_quota_type flag) i) val) = TxMessage h net src sid val (flag AND PAID_TX) (TInt i) []"
proof -
  have q: "quota_ok (get_quota_type flag)" by (simp add: quota_ok_def get_quota_type_def FREE_DAILY_QUOTA_def PAID_DAILY_QUOTA_def)
  show "convert_to_v15 (tx_frame h net src sid (mid_now flag w acct) val) = Inr (tx_frame h net src sid (mid_v15 (get_quota_type flag) i) val)"
    using assms q by (simp add: tx_fits_def convert_to_v15_def quota_type_def read_head read_now int_of_time_def TxMessageV15_run)
  obtain u where u: "float_of_time (TInt i) = Inr u" using assms(1) seconds_as_float [of i] by (auto simp: tx_fits_def)
  have "flags_ok (flag AND PAID_TX)" by (simp add: flags_ok_def PAID_TX_def order_le_less_trans [OF AND_upper2])
  then show "convert_from_v15 (tx_frame h net src sid (mid_v15 (get_quota_type flag) i) val) = TxMessage h net src sid val (flag AND PAID_TX) (TInt i) []"
    using assms q u by (simp add: tx_fits_def convert_from_v15_def read_head read_v15 TxMessage_run quota_kept)
qed

text \<open>The bytes around the breakpoints of versions 6 and 7.\<close>

definition tx_front :: "nat \<Rightarrow> bytes" where
  "tx_front n = STARTING_SEQUENCE_BYTES @ tx_command @ nat_le 4 n"

lemma length_tx_front [simp]: "length (tx_front n) = HEADER_LENGTH"
  by (simp add: tx_front_def HEADER_LENGTH_def)

definition tx_size :: "bytes \<Rightarrow> bytes \<Rightarrow> nat" where
  "tx_size mid val = broadcast_length + 4 + length mid + length val"

lemma tx_frame_parts:
  assumes "head_ok h net sid" "tx_size mid val < 256 ^ 4"
  shows "tx_frame h net src sid mid val = tx_front (tx_size mid val) @ tx_head h net src sid @ mid @ val @ [VALID]"
    and "rawbytes (tx_frame h net src sid mid val) = Inr (tx_frame h net src sid mid val)"
    and "payload_len (tx_frame h net src sid mid val) = Inr (int (tx_size mid val))"
proof -
  let ?body = "(tx_head h net src sid @ mid @ val) @ [VALID]"
  have l: "length ?body = tx_size mid val"
    using length_tx_head [OF assms(1), of src] by (simp add: broadcast_length_def tx_size_def)
  then have lt: "length ?body < 256 ^ 4" using assms(2) by simp
  show "rawbytes (tx_frame h net src sid mid val) = Inr (tx_frame h net src sid mid val)"
    unfolding tx_frame_def by (rule rawbytes_frame [OF length_tx_command lt])
  show "payload_len (tx_frame h net src sid mid val) = Inr (int (tx_size mid val))"
    unfolding tx_frame_def l [symmetric] by (rule payload_len_frame [OF length_tx_command lt])
  show "tx_frame h net src sid mid val = tx_front (tx_size mid val) @ tx_head h net src sid @ mid @ val @ [VALID]"
    unfolding tx_frame_def frame_def l by (simp add: tx_front_def)
qed

lemma put_header_run:
  assumes "length front = HEADER_LENGTH" "0 \<le> k" "k < 256 ^ 4"
  shows "\<exists>front'. length front' = HEADER_LENGTH \<and> put_header k (front @ x) = Inr (front' @ x)"
proof -
  have l: "length front = 20" using assms(1) by (simp add: HEADER_LENGTH_def)
  have "pack_text 12 (ascii ''tx'') (front @ x, 4) = Inr (take 4 front @ tx_command @ drop 16 front @ x, 16)"
    using l by (simp add: pack_text_def tx_command_def pad12_def)
  moreover have "pack_uint 4 k (take 4 front @ tx_command @ drop 16 front @ x, 16) = Inr ((take 4 front @ tx_command @ nat_le 4 (nat k)) @ x, 20)"
    using l assms(2,3) by (simp add: pack_uint_def)
  moreover have "length (take 4 front @ tx_command @ nat_le 4 (nat k)) = HEADER_LENGTH" using l by (simp add: HEADER_LENGTH_def)
  ultimately show ?thesis by (intro exI [of _ "take 4 front @ tx_command @ nat_le 4 (nat k)"]) (simp add: put_header_def)
qed

lemma new_header:
  assumes "length front = HEADER_LENGTH" "head_ok h net sid" "tx_size mid val < 256 ^ 4"
  shows "message_from_buffer (ascii ''tx'') (front @ tx_head h net src sid @ mid @ val @ [VALID]) = Inr (tx_frame h net src sid mid val)"
proof -
  let ?e = "tx_head h net src sid @ mid @ val"
  have l: "length ?e + 1 = tx_size mid val"
    using length_tx_head [OF assms(2), of src] by (simp add: broadcast_length_def tx_size_def)
  have "int (length (front @ ?e @ [VALID])) - int HEADER_LENGTH = int (tx_size mid val)" using assms(1) l by simp
  moreover have "VALID OR VALID = VALID" by (simp add: VALID_def)
  ultimately show ?thesis
    using bloxroute_message_run [OF assms(1) l assms(3), of "ascii ''tx''" VALID]
    by (simp add: message_from_buffer_def tx_frame_def tx_command_def)
qed

lemma cut_at: "length x = n \<Longrightarrow> take n (x @ y) = x \<and> drop n (x @ y) = y"
  by auto

lemma tx_fits_size:
  assumes "tx_fits h net sid val flag w i acct"
  shows "tx_size (mid_now flag w acct) val < 256 ^ 4" "length mid \<le> 46 \<Longrightarrow> tx_size mid val < 256 ^ 4"
  using assms by (auto simp: tx_fits_def tx_size_def)

lemma left_v6: "head_ok h net sid \<Longrightarrow> length (tx_front n @ tx_head h net src sid) = left_breakpoint_v6"
  by (simp add: length_tx_head left_breakpoint_v6_def sid_offset_def broadcast_length_def)

lemma v6_to:
  assumes "tx_fits h net sid val flag w i acct"
  shows "convert_to_v6 (tx_frame h net src sid (mid_now flag w acct) val) = Inr (tx_frame h net src sid [] val)"
proof -
  let ?mid = "mid_now flag w acct"
  let ?m = "tx_frame h net src sid ?mid val" and ?f = "tx_front (tx_size ?mid val)"
  have hd: "head_ok h net sid" using assms by (simp add: tx_fits_def)
  note p = tx_frame_parts [OF hd tx_fits_size(1) [OF assms], of src]
  have m: "?m = (?f @ tx_head h net src sid) @ ?mid @ val @ [VALID]" "?m = (?f @ tx_head h net src sid @ ?mid) @ val @ [VALID]"
    unfolding p(1) by simp_all
  have "take left_breakpoint_v6 ?m = ?f @ tx_head h net src sid"
    unfolding m(1) using left_v6 [OF hd] cut_at by blast
  moreover have "length (?f @ tx_head h net src sid @ ?mid) = right_breakpoint_v6"
    using left_v6 [OF hd, of "tx_size ?mid val" src] by (simp add: left_breakpoint_v6_def right_breakpoint_v6_def)
  then have "drop right_breakpoint_v6 ?m = val @ [VALID]" unfolding m(2) using cut_at by blast
  moreover have k: "int (tx_size ?mid val) - 2 - 8 - 36 = int (tx_size [] val)" by (simp add: tx_size_def)
  moreover obtain front where "length front = HEADER_LENGTH"
      "put_header (int (tx_size [] val)) (?f @ tx_head h net src sid @ val @ [VALID]) = Inr (front @ tx_head h net src sid @ val @ [VALID])"
    using put_header_run [of ?f "int (tx_size [] val)"] tx_fits_size(2) [OF assms, of "[]"] by auto
  moreover from this(1) have "message_from_buffer (ascii ''tx'') (front @ tx_head h net src sid @ val @ [VALID]) = Inr (tx_frame h net src sid [] val)"
    using new_header [of front h net sid "[]" val src] hd tx_fits_size(2) [OF assms, of "[]"] by simp
  ultimately show ?thesis using p(2,3) by (simp add: convert_to_v6_def)
qed

text \<open>The way back glues zeros in.\<close>

lemma pack_zero:
  assumes "j + k \<le> n"
  shows "pack_uint k 0 (x @ zeros n, length x + j) = Inr (x @ zeros n, length x + j + k)"
proof -
  have "zeros n = zeros j @ zeros k @ zeros (n - (j + k))" using assms by (simp flip: zeros_add)
  moreover have "take (length x + j) (x @ zeros n) = x @ zeros j" using assms by (simp add: zeros_def)
  moreover have "drop (length x + j + k) (x @ zeros n) = zeros (n - (j + k))" by (simp add: add.assoc)
  ultimately show ?thesis using assms by (simp add: pack_uint_def nat_le_0)
qed

lemma glue_zeros:
  assumes "length x = left" "left + k \<le> n" "fill (x @ zeros (n - left), left) = Inr (x @ zeros (n - left), off)"
  shows "glue left (left + k) fill n (x @ rest) = Inr (x @ zeros k @ rest)"
proof -
  have "take (left + k) (x @ zeros (n - left)) = x @ zeros k" using assms(1,2) by (simp add: zeros_def)
  then show ?thesis using assms by (auto simp: glue_def)
qed

lemma v6_from:
  assumes "tx_fits h net sid val flag w i acct"
  shows "convert_from_v6 (tx_frame h net src sid [] val) = TxMessage h net src sid val NO_FLAGS NULL_TX_TIMESTAMP []"
proof -
  let ?m = "tx_frame h net src sid [] val" and ?x = "tx_front (tx_size [] val) @ tx_head h net src sid"
  let ?n = "HEADER_LENGTH + tx_size [] val + 2 + 8 + 36"
  have hd: "head_ok h net sid" and len: "broadcast_length + 50 + length val < 256 ^ 4" using assms by (auto simp: tx_fits_def)
  have sz: "tx_size [] val < 256 ^ 4" using tx_fits_size(2) [OF assms, of "[]"] by simp
  note p = tx_frame_parts [OF hd sz, of src]
  have m: "?m = ?x @ val @ [VALID]" unfolding p(1) by simp
  have l: "length ?x = left_breakpoint_v6" by (rule left_v6 [OF hd])
  have t: "left_breakpoint_v6 + 46 \<le> ?n" by (simp add: left_breakpoint_v6_def sid_offset_def tx_size_def)
  have "bindR (pack_uint 2 0 (?x @ zeros (?n - left_breakpoint_v6), left_breakpoint_v6)) (pack_uint 4 0) =
      Inr (?x @ zeros (?n - left_breakpoint_v6), left_breakpoint_v6 + 6)"
    using pack_zero [of 0 2 "?n - left_breakpoint_v6" ?x] pack_zero [of 2 4 "?n - left_breakpoint_v6" ?x] t
    unfolding l by simp
  from glue_zeros [OF l t, where fill = "\<lambda>c. bindR (pack_uint 2 0 c) (pack_uint 4 0)", OF this, of "val @ [VALID]"]
  have "glue left_breakpoint_v6 right_breakpoint_v6 (\<lambda>c. bindR (pack_uint 2 0 c) (pack_uint 4 0)) ?n ?m = Inr (?x @ zeros 46 @ val @ [VALID])"
    unfolding m by (simp add: left_breakpoint_v6_def right_breakpoint_v6_def)
  moreover have z: "mid_now NO_FLAGS 0 [] = zeros 46"
    by (simp add: mid_now_def flag_bytes_def NO_FLAGS_def double_enc_def account_enc_def nat_le_0 flip: zeros_add)
  moreover have "message_from_buffer (ascii ''tx'') (?x @ zeros 46 @ val @ [VALID]) = Inr (tx_frame h net src sid (zeros 46) val)"
    using new_header [of "tx_front (tx_size [] val)" h net sid "zeros 46" val src] hd len by (simp add: tx_size_def)
  moreover have "TxMessage h net src sid val NO_FLAGS NULL_TX_TIMESTAMP [] = Inr (tx_frame h net src sid (mid_now NO_FLAGS 0 []) val)"
    using hd len by (intro TxMessage_run) (simp_all add: flags_ok_def NO_FLAGS_def float_of_time_def NULL_TX_TIMESTAMP_def int_float_def)
  ultimately show ?thesis using p(2,3) by (simp add: convert_from_v6_def)
qed

text \<open>Version 7: the breakpoints are those of a time of four bytes.\<close>

lemma v7_to:
  assumes "tx_fits h net sid val flag w i acct"
  shows "convert_to_v7 (tx_frame h net src sid (mid_now flag w acct) val) =
    Inr (tx_frame h net src sid (take 1 (flag_bytes flag)) (drop 4 (double_enc (TFloat w)) @ account_enc acct @ val))"
proof -
  let ?mid = "mid_now flag w acct" and ?q = "take 1 (flag_bytes flag)" and ?c = "drop 4 (double_enc (TFloat w)) @ account_enc acct @ val"
  let ?gap = "drop 1 (flag_bytes flag) @ take 4 (double_enc (TFloat w))"
  let ?m = "tx_frame h net src sid ?mid val" and ?f = "tx_front (tx_size ?mid val)"
  have hd: "head_ok h net sid" using assms by (simp add: tx_fits_def)
  note p = tx_frame_parts [OF hd tx_fits_size(1) [OF assms], of src]
  have "?mid = ?q @ ?gap @ drop 4 (double_enc (TFloat w)) @ account_enc acct" by (simp add: mid_now_def)
  then have m: "?m = (?f @ tx_head h net src sid @ ?q) @ ?gap @ ?c @ [VALID]" "?m = (?f @ tx_head h net src sid @ ?q @ ?gap) @ ?c @ [VALID]"
    unfolding p(1) by simp_all
  have l: "length (?f @ tx_head h net src sid) = left_breakpoint_v6" by (rule left_v6 [OF hd])
  then have "length (?f @ tx_head h net src sid @ ?q) = left_breakpoint_v7" by (simp add: left_breakpoint_v6_def left_breakpoint_v7_def)
  then have "take left_breakpoint_v7 ?m = ?f @ tx_head h net src sid @ ?q" unfolding m(1) using cut_at by blast
  moreover have "length (?f @ tx_head h net src sid @ ?q @ ?gap) = right_breakpoint_v7"
    using l by (simp add: left_breakpoint_v6_def right_breakpoint_v7_def)
  then have "drop right_breakpoint_v7 ?m = ?c @ [VALID]" unfolding m(2) using cut_at by blast
  moreover have "tx_size ?q ?c < 256 ^ 4" using assms by (simp add: tx_size_def tx_fits_def)
  then have "message_from_buffer (ascii ''tx'') (?f @ tx_head h net src sid @ ?q @ ?c @ [VALID]) = Inr (tx_frame h net src sid ?q ?c)"
    using hd by (intro new_header) simp_all
  ultimately show ?thesis using p(2) by (simp add: convert_to_v7_def)
qed

section \<open>To an older version and back\<close>

lemma kept_flags_ok: "flags_ok flag \<Longrightarrow> flags_ok (kept_flag v flag)"
  using known_flags_bounds [of flag]
  by (auto simp: kept_flag_def flags_ok_def NO_FLAGS_def PAID_TX_def intro: order_le_less_trans [OF AND_upper2])

lemma run_to_older_fits:
  assumes "tx_fits h net sid val flag w i acct" "v = 6 \<or> 8 \<le> v" "v < PROTOCOL_VERSION"
  shows "\<exists>c old. version_converter v (ascii ''tx'') = Inr c \<and> run_to_older c (tx_frame h net src sid (mid_now flag w acct) val) = Inr old \<and> frame_ok None old \<and>
    run_from_older c old = TxMessage h net src sid val (kept_flag v flag) (kept_time v w i) (kept_account v acct)"
proof -
  have hd: "head_ok h net sid" and len: "broadcast_length + 50 + length val < 256 ^ 4" and f: "flags_ok flag" and a: "account_ok acct"
    using assms(1) by (auto simp: tx_fits_def)
  note ok = tx_frame_ok [OF hd _ len, of _ src]
  consider "v = 6" | "8 \<le> v" "v \<le> 15" | "16 \<le> v" "v \<le> 18" | "v = 19" | "v = 20" | "v = 21" | "v = 22"
    using assms(2,3) unfolding PROTOCOL_VERSION_def by linarith
  then show ?thesis
  proof cases
    case 1
    then show ?thesis using v6_to [OF assms(1)] v6_from [OF assms(1)] ok [of "[]"]
      by (simp add: tx_converters run_to_older_def run_from_older_def kept_flag_def kept_time_def kept_account_def)
  next
    case 2
    then show ?thesis using v15_trip [OF assms(1)] ok [of "mid_v15 (get_quota_type flag) i"]
      by (simp add: tx_converters run_to_older_def run_from_older_def kept_flag_def kept_time_def kept_account_def)
  next
    case 3
    then show ?thesis using v20_to(2) [OF assms(1)] v20_from [OF assms(1), of "known_flags flag"] kept_flags_ok [OF f, of 16] ok [of "mid_v20 (known_flags flag) i"]
      by (simp add: tx_converters run_to_older_def run_from_older_def kept_flag_def kept_time_def kept_account_def same_format)
  next
    case 4
    then show ?thesis using v20_to(2) [OF assms(1)] v20_from [OF assms(1), of "known_flags flag"] kept_flags_ok [OF f, of 16] ok [of "mid_v20 (known_flags flag) i"]
      by (simp add: tx_converters run_to_older_def run_from_older_def kept_flag_def kept_time_def kept_account_def same_format)
  next
    case 5
    then show ?thesis using v20_to(1) [OF assms(1)] v20_from [OF assms(1) f] ok [of "mid_v20 flag i"]
      by (simp add: tx_converters run_to_older_def run_from_older_def kept_flag_def kept_time_def kept_account_def)
  next
    case 6
    then show ?thesis using v21_trip [OF assms(1)] ok [of "mid_v21 flag w"]
      by (simp add: tx_converters run_to_older_def run_from_older_def kept_flag_def kept_time_def kept_account_def)
  next
    case 7
    then show ?thesis using TxMessage_run [OF hd f float_of_time_TFloat a len] ok [of "mid_now flag w acct"]
      by (simp add: tx_converters run_to_older_def run_from_older_def kept_flag_def kept_time_def kept_account_def)
  qed
qed

lemma kept_message:
  assumes "tx_fits h net sid val flag w i acct"
  shows "\<exists>new. TxMessage h net src sid val (kept_flag v flag) (kept_time v w i) (kept_account v acct) = Inr new"
proof -
  have "\<exists>u. float_of_time (kept_time v w i) = Inr u"
    using assms seconds_as_float [of i] by (auto simp: kept_time_def tx_fits_def NULL_TX_TIMESTAMP_def float_of_time_def int_float_def)
  then obtain u where "float_of_time (kept_time v w i) = Inr u" by blast
  moreover have "account_ok (kept_account v acct)" using assms by (simp add: kept_account_def tx_fits_def)
  ultimately show ?thesis using assms kept_flags_ok [of flag v] TxMessage_run [of h net sid "kept_flag v flag"] by (auto simp: tx_fits_def)
qed

end
