(* ===== verification/TxState.thy ===== *)
theory TxState
  imports TxVersions
begin

text \<open>
  A transaction message as an object: its buffer, what its accessors have cached, and the conversions that the version manager
  (messages/versioning/abstract_version_manager.py) has cached in it. The setters and how the caches fare.
\<close>

section \<open>The object\<close>

text \<open>A cached contents is a view of the buffer, given by its bounds. The account of a new message is 36 null characters.\<close>

record tx_message =
  tx_buf :: bytes
  c_message_hash :: "bytes option"
  c_network_num :: "int option"
  c_source_id :: "string option"
  c_short_id :: "int option"
  c_flag :: "int option"
  c_timestamp :: "timestamp option"
  c_account :: bytes
  c_tx_val :: "(nat \<times> nat) option"
  converted_message :: "(nat, bytes) dict"

type_synonym 'a tx_eff = "(tx_message, 'a) eff"

definition DECODED_EMPTY_ACCOUNT_ID :: bytes where
  "DECODED_EMPTY_ACCOUNT_ID = zeros 36"

definition tx_from_buffer :: "bytes \<Rightarrow> tx_message" where
  "tx_from_buffer buf =
     \<lparr>tx_buf = buf, c_message_hash = None, c_network_num = None, c_source_id = None, c_short_id = None, c_flag = None,
      c_timestamp = None, c_account = DECODED_EMPTY_ACCOUNT_ID, c_tx_val = None, converted_message = []\<rparr>"

definition cached :: "(tx_message \<Rightarrow> 'a option) \<Rightarrow> ('a \<Rightarrow> tx_message \<Rightarrow> tx_message) \<Rightarrow> (bytes \<Rightarrow> 'a res) \<Rightarrow> 'a tx_eff" where
  "cached get put rd =
     bindE (getE get) (\<lambda>c. case c of
       Some x \<Rightarrow> returnE x
     | None \<Rightarrow> bindE (getR (\<lambda>m. rd (tx_buf m))) (\<lambda>x. thenE (modE (put x)) (returnE x)))"

definition get_tx_hash :: "bytes tx_eff" where
  "get_tx_hash = cached c_message_hash (\<lambda>x m. m\<lparr>c_message_hash := Some x\<rparr>) message_hash"

definition get_network_num :: "int tx_eff" where
  "get_network_num = cached c_network_num (\<lambda>x m. m\<lparr>c_network_num := Some x\<rparr>) network_num_of"

definition get_source_id :: "string tx_eff" where
  "get_source_id = cached c_source_id (\<lambda>x m. m\<lparr>c_source_id := Some x\<rparr>) source_id"

definition get_short_id :: "int tx_eff" where
  "get_short_id = cached c_short_id (\<lambda>x m. m\<lparr>c_short_id := Some x\<rparr>) short_id"

definition get_transaction_flag :: "int tx_eff" where
  "get_transaction_flag = cached c_flag (\<lambda>x m. m\<lparr>c_flag := Some x\<rparr>) transaction_flag"

definition get_timestamp :: "timestamp tx_eff" where
  "get_timestamp = cached c_timestamp (\<lambda>x m. m\<lparr>c_timestamp := Some x\<rparr>) timestamp_of"

definition get_account_id :: "bytes tx_eff" where
  "get_account_id =
     cached (\<lambda>m. if c_account m = DECODED_EMPTY_ACCOUNT_ID then None else Some (c_account m)) (\<lambda>x m. m\<lparr>c_account := x\<rparr>) account_id"

definition tx_val_bounds :: "bytes \<Rightarrow> (nat \<times> nat) res" where
  "tx_val_bounds buf =
     bindR (payload_len buf) (\<lambda>n. Inr (if n = 0 then (0, 0) else (sid_offset + 4 + 2 + 8 + 36, HEADER_LENGTH + nat n - 1)))"

definition get_tx_val :: "bytes tx_eff" where
  "get_tx_val =
     bindE (cached c_tx_val (\<lambda>x m. m\<lparr>c_tx_val := Some x\<rparr>) tx_val_bounds) (\<lambda>(a, b). getE (\<lambda>m. slice (tx_buf m) a b))"

text \<open>The setters.\<close>

definition write_at :: "(cursor \<Rightarrow> cursor res) \<Rightarrow> nat \<Rightarrow> unit tx_eff" where
  "write_at wr off = bindE (getR (\<lambda>m. wr (tx_buf m, off))) (\<lambda>(buf, _). modE (\<lambda>m. m\<lparr>tx_buf := buf\<rparr>))"

definition set_message_hash :: "bytes \<Rightarrow> unit tx_eff" where
  "set_message_hash h = write_at (put_slice SHA256_HASH_LEN h) HEADER_LENGTH"

definition set_source_id :: "string \<Rightarrow> unit tx_eff" where
  "set_source_id s =
     thenE (modE (\<lambda>m. m\<lparr>c_source_id := Some s\<rparr>)) (write_at (pack_text 16 (to_bytes s)) (HEADER_LENGTH + SHA256_HASH_LEN + 4))"

definition set_transaction_flag :: "int \<Rightarrow> unit tx_eff" where
  "set_transaction_flag flag = thenE (modE (\<lambda>m. m\<lparr>c_flag := Some flag\<rparr>)) (write_at (pack_uint 2 flag) (sid_offset + 4))"

definition set_timestamp :: "timestamp \<Rightarrow> unit tx_eff" where
  "set_timestamp t = thenE (modE (\<lambda>m. m\<lparr>c_timestamp := Some t\<rparr>)) (write_at (pack_double t) (sid_offset + 4 + 2))"

definition clear_short_id :: "unit tx_eff" where
  "clear_short_id = thenE (write_at (pack_uint 4 NULL_TX_SID) sid_offset) (modE (\<lambda>m. m\<lparr>c_short_id := Some NULL_TX_SID\<rparr>))"

definition clear_timestamp :: "unit tx_eff" where
  "clear_timestamp =
     thenE (write_at (pack_double NULL_TX_TIMESTAMP) (sid_offset + 4 + 2)) (modE (\<lambda>m. m\<lparr>c_timestamp := Some NULL_TX_TIMESTAMP\<rparr>))"

definition clear_protected_fields :: "unit tx_eff" where
  "clear_protected_fields = thenE clear_short_id clear_timestamp"

text \<open>The version manager. The converters read through the accessors, whose caches agree with the buffer (\<open>coherent\<close> below).\<close>

definition convert_message_to_older_version :: "nat \<Rightarrow> bytes tx_eff" where
  "convert_message_to_older_version v =
     thenE (liftR (guardR (has_converter v) ValueError))
       (bindE (getE (\<lambda>m. dget (converted_message m) v)) (\<lambda>c. case c of
          Some x \<Rightarrow> returnE x
        | None \<Rightarrow> bindE (getR (\<lambda>m. bindR (version_converter v (ascii ''tx'')) (\<lambda>c. run_to_older c (tx_buf m)))) (\<lambda>x.
                    thenE (modE (\<lambda>m. m\<lparr>converted_message := dput v x (converted_message m)\<rparr>)) (returnE x))))"

section \<open>What a message stands for\<close>

record tx_fields =
  f_hash :: bytes
  f_network :: int
  f_source :: string
  f_short_id :: int
  f_flag :: int
  f_time :: "64 word"
  f_account :: bytes
  f_contents :: bytes

definition fields_ok :: "tx_fields \<Rightarrow> bool" where
  "fields_ok f \<longleftrightarrow> head_ok (f_hash f) (f_network f) (f_short_id f) \<and> flags_ok (f_flag f) \<and> account_ok (f_account f) \<and>
     broadcast_length + 50 + length (f_contents f) < 256 ^ 4 \<and> source_text (to_bytes (f_source f)) = f_source f"

definition tx_image :: "tx_fields \<Rightarrow> bytes" where
  "tx_image f = tx_frame (f_hash f) (f_network f) (f_source f) (f_short_id f) (mid_now (f_flag f) (f_time f) (f_account f)) (f_contents f)"

definition agrees :: "'a option \<Rightarrow> 'a \<Rightarrow> bool" where
  "agrees c x \<longleftrightarrow> (case c of None \<Rightarrow> True | Some y \<Rightarrow> y = x)"

definition same_time :: "timestamp \<Rightarrow> 64 word \<Rightarrow> bool" where
  \<comment> \<open>an int may stand for the float that it is packed as\<close>
  "same_time t w \<longleftrightarrow> float_of_time t = Inr w"

text \<open>A message stands for its fields: its buffer is theirs, and what it has cached is what they are.\<close>

definition stands_for :: "tx_message \<Rightarrow> tx_fields \<Rightarrow> bool" where
  "stands_for m f \<longleftrightarrow> fields_ok f \<and> tx_buf m = tx_image f \<and>
     agrees (c_message_hash m) (f_hash f) \<and> agrees (c_network_num m) (f_network f) \<and> agrees (c_source_id m) (f_source f) \<and>
     agrees (c_short_id m) (f_short_id f) \<and> agrees (c_flag m) (f_flag f) \<and>
     (\<forall>t. c_timestamp m = Some t \<longrightarrow> same_time t (f_time f)) \<and>
     (c_account m = DECODED_EMPTY_ACCOUNT_ID \<or> c_account m = f_account f) \<and>
     (\<forall>a b. c_tx_val m = Some (a, b) \<longrightarrow> slice (tx_image f) a b = f_contents f \<and> tx_val_bounds (tx_image f) = Inr (a, b))"

lemma stands_for_new: "fields_ok f \<Longrightarrow> stands_for (tx_from_buffer (tx_image f)) f"
  by (simp add: stands_for_def tx_from_buffer_def agrees_def)

lemma tx_image_size: "fields_ok f \<Longrightarrow> tx_size (mid_now (f_flag f) (f_time f) (f_account f)) (f_contents f) < 256 ^ 4"
  by (simp add: fields_ok_def tx_size_def)

lemma read_image:
  assumes "fields_ok f"
  shows "message_hash (tx_image f) = Inr (f_hash f)" "network_num_of (tx_image f) = Inr (f_network f)" "source_id (tx_image f) = Inr (f_source f)"
    "short_id (tx_image f) = Inr (f_short_id f)" "transaction_flag (tx_image f) = Inr (f_flag f)" "timestamp_of (tx_image f) = Inr (TFloat (f_time f))"
    "account_id (tx_image f) = Inr (f_account f)" "tx_val (tx_image f) = Inr (f_contents f)"
  using assms by (simp_all add: fields_ok_def tx_image_def read_head read_now)

lemma read_bounds:
  assumes "fields_ok f"
  shows "\<exists>a b. tx_val_bounds (tx_image f) = Inr (a, b) \<and> slice (tx_image f) a b = f_contents f"
proof -
  have "payload_len (tx_image f) = Inr (int (tx_size (mid_now (f_flag f) (f_time f) (f_account f)) (f_contents f)))"
    unfolding tx_image_def using tx_frame_parts(3) [OF _ tx_image_size [OF assms]] assms by (simp add: fields_ok_def)
  moreover have "tx_size (mid_now (f_flag f) (f_time f) (f_account f)) (f_contents f) \<noteq> 0" by (simp add: tx_size_def broadcast_length_def)
  ultimately show ?thesis using read_image(8) [OF assms] by (simp add: tx_val_bounds_def tx_val_def contents_from_def)
qed

text \<open>Reading changes caches only, and returns what the message stands for.\<close>

lemma cached_stands:
  assumes "stands_for m f" "rd (tx_image f) = Inr x" "Q x" "\<And>y. get m = Some y \<Longrightarrow> Q y" "stands_for (put x m) f"
  shows "\<exists>y m'. cached get put rd m = (Inr y, m') \<and> Q y \<and> stands_for m' f"
proof -
  have "tx_buf m = tx_image f" using assms(1) by (simp add: stands_for_def)
  then show ?thesis using assms by (cases "get m") (auto simp: cached_def py_simps)
qed

lemma agreesD: "agrees c x \<Longrightarrow> c = Some y \<Longrightarrow> y = x"
  by (simp add: agrees_def)

lemma agrees_Some [simp]: "agrees (Some x) x"
  by (simp add: agrees_def)

lemma stands_for_caches:
  assumes "stands_for m f"
  shows "agrees (c_message_hash m) (f_hash f)" "agrees (c_network_num m) (f_network f)" "agrees (c_source_id m) (f_source f)"
    "agrees (c_short_id m) (f_short_id f)" "agrees (c_flag m) (f_flag f)" "c_timestamp m = Some t \<Longrightarrow> same_time t (f_time f)"
    "c_account m \<noteq> DECODED_EMPTY_ACCOUNT_ID \<Longrightarrow> c_account m = f_account f"
    "c_tx_val m = Some (a, b) \<Longrightarrow> slice (tx_image f) a b = f_contents f" "fields_ok f" "tx_buf m = tx_image f"
  using assms by (auto simp: stands_for_def)

lemma stands_for_put:
  assumes "stands_for m f"
  shows "stands_for (m\<lparr>c_message_hash := Some (f_hash f)\<rparr>) f" "stands_for (m\<lparr>c_network_num := Some (f_network f)\<rparr>) f"
    "stands_for (m\<lparr>c_source_id := Some (f_source f)\<rparr>) f" "stands_for (m\<lparr>c_short_id := Some (f_short_id f)\<rparr>) f"
    "stands_for (m\<lparr>c_flag := Some (f_flag f)\<rparr>) f" "same_time t (f_time f) \<Longrightarrow> stands_for (m\<lparr>c_timestamp := Some t\<rparr>) f"
    "stands_for (m\<lparr>c_account := f_account f\<rparr>) f"
    "tx_val_bounds (tx_image f) = Inr (a, b) \<Longrightarrow> slice (tx_image f) a b = f_contents f \<Longrightarrow> stands_for (m\<lparr>c_tx_val := Some (a, b)\<rparr>) f"
    "stands_for (m\<lparr>converted_message := d\<rparr>) f"
  using assms by (simp_all add: stands_for_def)

lemma get_fields:
  assumes "stands_for m f"
  shows "\<exists>m'. get_tx_hash m = (Inr (f_hash f), m') \<and> stands_for m' f"
    and "\<exists>m'. get_network_num m = (Inr (f_network f), m') \<and> stands_for m' f"
    and "\<exists>m'. get_source_id m = (Inr (f_source f), m') \<and> stands_for m' f"
    and "\<exists>m'. get_short_id m = (Inr (f_short_id f), m') \<and> stands_for m' f"
    and "\<exists>m'. get_transaction_flag m = (Inr (f_flag f), m') \<and> stands_for m' f"
    and "\<exists>t m'. get_timestamp m = (Inr t, m') \<and> same_time t (f_time f) \<and> stands_for m' f"
    and "\<exists>m'. get_account_id m = (Inr (f_account f), m') \<and> stands_for m' f"
    and "\<exists>m'. get_tx_val m = (Inr (f_contents f), m') \<and> stands_for m' f"
proof -
  note c = stands_for_caches [OF assms] and p = stands_for_put [OF assms]
  note r = read_image [OF c(9)]
  show "\<exists>m'. get_tx_hash m = (Inr (f_hash f), m') \<and> stands_for m' f"
    using cached_stands [where rd = message_hash and Q = "\<lambda>y. y = f_hash f" and get = c_message_hash and put = "\<lambda>x m. m\<lparr>c_message_hash := Some x\<rparr>", OF assms r(1)] agreesD [OF c(1)] p
    by (auto simp: get_tx_hash_def)
  show "\<exists>m'. get_network_num m = (Inr (f_network f), m') \<and> stands_for m' f"
    using cached_stands [where rd = network_num_of and Q = "\<lambda>y. y = f_network f" and get = c_network_num and put = "\<lambda>x m. m\<lparr>c_network_num := Some x\<rparr>", OF assms r(2)] agreesD [OF c(2)] p
    by (auto simp: get_network_num_def)
  show "\<exists>m'. get_source_id m = (Inr (f_source f), m') \<and> stands_for m' f"
    using cached_stands [where rd = source_id and Q = "\<lambda>y. y = f_source f" and get = c_source_id and put = "\<lambda>x m. m\<lparr>c_source_id := Some x\<rparr>", OF assms r(3)] agreesD [OF c(3)] p
    by (auto simp: get_source_id_def)
  show "\<exists>m'. get_short_id m = (Inr (f_short_id f), m') \<and> stands_for m' f"
    using cached_stands [where rd = short_id and Q = "\<lambda>y. y = f_short_id f" and get = c_short_id and put = "\<lambda>x m. m\<lparr>c_short_id := Some x\<rparr>", OF assms r(4)] agreesD [OF c(4)] p
    by (auto simp: get_short_id_def)
  show "\<exists>m'. get_transaction_flag m = (Inr (f_flag f), m') \<and> stands_for m' f"
    using cached_stands [where rd = transaction_flag and Q = "\<lambda>y. y = f_flag f" and get = c_flag and put = "\<lambda>x m. m\<lparr>c_flag := Some x\<rparr>", OF assms r(5)] agreesD [OF c(5)] p
    by (auto simp: get_transaction_flag_def)
  have st: "same_time (TFloat (f_time f)) (f_time f)" by (simp add: same_time_def)
  show "\<exists>t m'. get_timestamp m = (Inr t, m') \<and> same_time t (f_time f) \<and> stands_for m' f"
    unfolding get_timestamp_def by (rule cached_stands [where rd = timestamp_of, OF assms r(6)]) (use st c(6) p(6) in auto)
  have "\<exists>y m'. get_account_id m = (Inr y, m') \<and> y = f_account f \<and> stands_for m' f"
    unfolding get_account_id_def by (rule cached_stands [where rd = account_id, OF assms r(7)]) (use c(7) p(7) in \<open>auto split: if_splits\<close>)
  then show "\<exists>m'. get_account_id m = (Inr (f_account f), m') \<and> stands_for m' f" by blast
  obtain a b where ab: "tx_val_bounds (tx_image f) = Inr (a, b)" "slice (tx_image f) a b = f_contents f" using read_bounds [OF c(9)] by blast
  have "\<exists>y m'. cached c_tx_val (\<lambda>x m. m\<lparr>c_tx_val := Some x\<rparr>) tx_val_bounds m = (Inr y, m') \<and>
      slice (tx_image f) (fst y) (snd y) = f_contents f \<and> stands_for m' f"
    by (rule cached_stands [where rd = tx_val_bounds, OF assms ab(1)]) (use ab c(8) p(8) [OF ab] in auto)
  then show "\<exists>m'. get_tx_val m = (Inr (f_contents f), m') \<and> stands_for m' f"
    using stands_for_caches(10) by (fastforce simp: get_tx_val_def py_simps)
qed

section \<open>Writing\<close>

text \<open>Packing a field over another of the same length.\<close>

lemma write_over:
  assumes "field_codec ok enc wr rd" "ok x" "length (enc x) = length e" "length pre = off"
  shows "wr x (pre @ e @ post, off) = Inr (pre @ enc x @ post, off + length (enc x))"
  using field_codec.write_enc [OF assms(1,2), of "e @ post" pre] assms(3,4) by simp

lemma write_image:
  assumes "field_codec ok enc wr rd" "ok x" "length (enc x) = length e"
    and "tx_image f = pre @ e @ post" "length pre = off" "tx_image g = pre @ enc x @ post" "tx_buf m = tx_image f"
  shows "write_at (wr x) off m = (Inr (), m\<lparr>tx_buf := tx_image g\<rparr>)"
  using write_over [OF assms(1-3,5), of post] assms(4,6,7) by (simp add: write_at_def py_simps)

text \<open>Where the fields stand in the buffer.\<close>

lemma tx_image_split:
  assumes "fields_ok f"
  shows "\<exists>n. n = tx_size (mid_now (f_flag f) (f_time f) (f_account f)) (f_contents f) \<and>
    tx_image f = tx_front n @ f_hash f @ nat_le 4 (nat (f_network f)) @ to_bytes (f_source f) @ nat_le 4 (nat (f_short_id f)) @
      flag_bytes (f_flag f) @ double_enc (TFloat (f_time f)) @ account_enc (f_account f) @ f_contents f @ [VALID]"
  using tx_frame_parts(1) [OF _ tx_image_size [OF assms], of _ _ _ "f_source f"] assms
  by (simp add: tx_image_def fields_ok_def tx_head_def mid_now_def)

lemma set_short_id_image:
  assumes "fields_ok f" "0 \<le> sid" "sid < 256 ^ 4" "tx_buf m = tx_image f"
  shows "write_at (pack_uint 4 sid) sid_offset m = (Inr (), m\<lparr>tx_buf := tx_image (f\<lparr>f_short_id := sid\<rparr>)\<rparr>)"
proof -
  let ?g = "f\<lparr>f_short_id := sid\<rparr>" and ?n = "tx_size (mid_now (f_flag f) (f_time f) (f_account f)) (f_contents f)"
  have "fields_ok ?g" using assms(1-3) by (simp add: fields_ok_def head_ok_def)
  note i = tx_image_split [OF assms(1)] tx_image_split [OF this]
  show ?thesis
    by (rule write_image [OF uint_field, of sid 4 "nat_le 4 (nat (f_short_id f))" f
          "tx_front ?n @ f_hash f @ nat_le 4 (nat (f_network f)) @ to_bytes (f_source f)"
          "flag_bytes (f_flag f) @ double_enc (TFloat (f_time f)) @ account_enc (f_account f) @ f_contents f @ [VALID]"])
      (use assms i in \<open>simp_all add: sid_offset_def broadcast_length_def fields_ok_def head_ok_def\<close>)
qed

lemma set_flag_image:
  assumes "fields_ok f" "flags_ok flag" "tx_buf m = tx_image f"
  shows "write_at (pack_uint 2 flag) (sid_offset + 4) m = (Inr (), m\<lparr>tx_buf := tx_image (f\<lparr>f_flag := flag\<rparr>)\<rparr>)"
proof -
  let ?g = "f\<lparr>f_flag := flag\<rparr>" and ?n = "tx_size (mid_now (f_flag f) (f_time f) (f_account f)) (f_contents f)"
  have "fields_ok ?g" using assms(1,2) by (simp add: fields_ok_def)
  note i = tx_image_split [OF assms(1)] tx_image_split [OF this]
  show ?thesis
    by (rule write_image [OF flag_codec, of flag "flag_bytes (f_flag f)" f
          "tx_front ?n @ f_hash f @ nat_le 4 (nat (f_network f)) @ to_bytes (f_source f) @ nat_le 4 (nat (f_short_id f))"
          "double_enc (TFloat (f_time f)) @ account_enc (f_account f) @ f_contents f @ [VALID]"])
      (use assms i in \<open>simp_all add: sid_offset_def broadcast_length_def fields_ok_def head_ok_def tx_size_def\<close>)
qed

lemma set_time_image:
  assumes "fields_ok f" "float_of_time t = Inr w" "tx_buf m = tx_image f"
  shows "write_at (pack_double t) (sid_offset + 4 + 2) m = (Inr (), m\<lparr>tx_buf := tx_image (f\<lparr>f_time := w\<rparr>)\<rparr>)"
proof -
  let ?g = "f\<lparr>f_time := w\<rparr>" and ?n = "tx_size (mid_now (f_flag f) (f_time f) (f_account f)) (f_contents f)"
  have "fields_ok ?g" using assms(1) by (simp add: fields_ok_def)
  note i = tx_image_split [OF assms(1)] tx_image_split [OF this]
  show ?thesis unfolding pack_double_as [OF assms(2)]
    by (rule write_image [OF double.field_codec_axioms, of "TFloat w" "double_enc (TFloat (f_time f))" f
          "tx_front ?n @ f_hash f @ nat_le 4 (nat (f_network f)) @ to_bytes (f_source f) @ nat_le 4 (nat (f_short_id f)) @ flag_bytes (f_flag f)"
          "account_enc (f_account f) @ f_contents f @ [VALID]"])
      (use assms i in \<open>simp_all add: sid_offset_def broadcast_length_def fields_ok_def head_ok_def tx_size_def\<close>)
qed

lemma set_source_image:
  assumes "fields_ok f" "source_text (to_bytes s) = s" "tx_buf m = tx_image f"
  shows "write_at (pack_text 16 (to_bytes s)) (HEADER_LENGTH + SHA256_HASH_LEN + 4) m = (Inr (), m\<lparr>tx_buf := tx_image (f\<lparr>f_source := s\<rparr>)\<rparr>)"
proof -
  let ?g = "f\<lparr>f_source := s\<rparr>" and ?n = "tx_size (mid_now (f_flag f) (f_time f) (f_account f)) (f_contents f)"
  have "fields_ok ?g" using assms(1,2) by (simp add: fields_ok_def)
  note i = tx_image_split [OF assms(1)] tx_image_split [OF this]
  show ?thesis
    by (rule write_image [OF node.field_codec_axioms, of "to_bytes s" "to_bytes (f_source f)" f
          "tx_front ?n @ f_hash f @ nat_le 4 (nat (f_network f))"
          "nat_le 4 (nat (f_short_id f)) @ flag_bytes (f_flag f) @ double_enc (TFloat (f_time f)) @ account_enc (f_account f) @ f_contents f @ [VALID]"])
      (use assms i in \<open>simp_all add: fields_ok_def head_ok_def tx_size_def\<close>)
qed

lemma bounds_same:
  assumes "fields_ok f" "fields_ok g" "f_contents g = f_contents f"
  shows "tx_val_bounds (tx_image g) = tx_val_bounds (tx_image f)"
proof -
  have "payload_len (tx_image h) = Inr (int (broadcast_length + 50 + length (f_contents h)))" if "fields_ok h" for h
    unfolding tx_image_def using tx_frame_parts(3) [OF _ tx_image_size [OF that]] that by (simp add: fields_ok_def tx_size_def)
  then show ?thesis using assms by (simp add: tx_val_bounds_def)
qed

lemma stands_for_change:
  assumes "stands_for m f" "fields_ok g" "f_contents g = f_contents f" "tx_buf m' = tx_image g" "c_tx_val m' = c_tx_val m"
    and "agrees (c_message_hash m') (f_hash g)" "agrees (c_network_num m') (f_network g)" "agrees (c_source_id m') (f_source g)"
      "agrees (c_short_id m') (f_short_id g)" "agrees (c_flag m') (f_flag g)" "\<And>t. c_timestamp m' = Some t \<Longrightarrow> same_time t (f_time g)"
      "c_account m' = DECODED_EMPTY_ACCOUNT_ID \<or> c_account m' = f_account g"
  shows "stands_for m' g"
proof -
  have f: "fields_ok f" using assms(1) by (simp add: stands_for_def)
  have "slice (tx_image g) a b = f_contents g \<and> tx_val_bounds (tx_image g) = Inr (a, b)" if "c_tx_val m = Some (a, b)" for a b
    using assms(1) that read_bounds [OF assms(2)] bounds_same [OF f assms(2,3)] by (auto simp: stands_for_def)
  then show ?thesis using assms by (simp add: stands_for_def)
qed

text \<open>The setters write the field that they name.\<close>

lemma set_fields:
  assumes "stands_for m f"
  shows "flags_ok flag \<Longrightarrow> \<exists>m'. set_transaction_flag flag m = (Inr (), m') \<and> stands_for m' (f\<lparr>f_flag := flag\<rparr>)"
    and "float_of_time t = Inr w \<Longrightarrow> \<exists>m'. set_timestamp t m = (Inr (), m') \<and> stands_for m' (f\<lparr>f_time := w\<rparr>)"
    and "source_text (to_bytes s) = s \<Longrightarrow> \<exists>m'. set_source_id s m = (Inr (), m') \<and> stands_for m' (f\<lparr>f_source := s\<rparr>)"
    and "\<exists>m'. clear_short_id m = (Inr (), m') \<and> stands_for m' (f\<lparr>f_short_id := NULL_TX_SID\<rparr>)"
    and "\<exists>m'. clear_timestamp m = (Inr (), m') \<and> stands_for m' (f\<lparr>f_time := 0\<rparr>)"
proof -
  have ok: "fields_ok f" and b: "tx_buf m = tx_image f" using assms by (auto simp: stands_for_def)
  note d = assms [unfolded stands_for_def]
  show "\<exists>m'. set_transaction_flag flag m = (Inr (), m') \<and> stands_for m' (f\<lparr>f_flag := flag\<rparr>)" if fl: "flags_ok flag"
  proof -
    have "set_transaction_flag flag m = (Inr (), m\<lparr>c_flag := Some flag, tx_buf := tx_image (f\<lparr>f_flag := flag\<rparr>)\<rparr>)"
      using set_flag_image [OF ok fl, of "m\<lparr>c_flag := Some flag\<rparr>"] b by (simp add: set_transaction_flag_def py_simps)
    moreover have "stands_for (m\<lparr>c_flag := Some flag, tx_buf := tx_image (f\<lparr>f_flag := flag\<rparr>)\<rparr>) (f\<lparr>f_flag := flag\<rparr>)"
      by (rule stands_for_change [OF assms]) (use d fl in \<open>simp_all add: fields_ok_def\<close>)
    ultimately show ?thesis by blast
  qed
  show time: "\<exists>m'. set_timestamp t m = (Inr (), m') \<and> stands_for m' (f\<lparr>f_time := w\<rparr>)" if t: "float_of_time t = Inr w" for t w
  proof -
    have "set_timestamp t m = (Inr (), m\<lparr>c_timestamp := Some t, tx_buf := tx_image (f\<lparr>f_time := w\<rparr>)\<rparr>)"
      using set_time_image [OF ok t, of "m\<lparr>c_timestamp := Some t\<rparr>"] b by (simp add: set_timestamp_def py_simps)
    moreover have "stands_for (m\<lparr>c_timestamp := Some t, tx_buf := tx_image (f\<lparr>f_time := w\<rparr>)\<rparr>) (f\<lparr>f_time := w\<rparr>)"
      by (rule stands_for_change [OF assms]) (use d t in \<open>simp_all add: fields_ok_def same_time_def\<close>)
    ultimately show ?thesis by blast
  qed
  show "\<exists>m'. set_source_id s m = (Inr (), m') \<and> stands_for m' (f\<lparr>f_source := s\<rparr>)" if s: "source_text (to_bytes s) = s"
  proof -
    have "set_source_id s m = (Inr (), m\<lparr>c_source_id := Some s, tx_buf := tx_image (f\<lparr>f_source := s\<rparr>)\<rparr>)"
      using set_source_image [OF ok s, of "m\<lparr>c_source_id := Some s\<rparr>"] b by (simp add: set_source_id_def py_simps)
    moreover have "stands_for (m\<lparr>c_source_id := Some s, tx_buf := tx_image (f\<lparr>f_source := s\<rparr>)\<rparr>) (f\<lparr>f_source := s\<rparr>)"
      by (rule stands_for_change [OF assms]) (use d s in \<open>simp_all add: fields_ok_def\<close>)
    ultimately show ?thesis by blast
  qed
  show "\<exists>m'. clear_short_id m = (Inr (), m') \<and> stands_for m' (f\<lparr>f_short_id := NULL_TX_SID\<rparr>)"
  proof -
    have "clear_short_id m = (Inr (), m\<lparr>tx_buf := tx_image (f\<lparr>f_short_id := NULL_TX_SID\<rparr>), c_short_id := Some NULL_TX_SID\<rparr>)"
      using set_short_id_image [OF ok _ _ b, of NULL_TX_SID] by (simp add: clear_short_id_def py_simps NULL_TX_SID_def)
    moreover have "stands_for (m\<lparr>tx_buf := tx_image (f\<lparr>f_short_id := NULL_TX_SID\<rparr>), c_short_id := Some NULL_TX_SID\<rparr>) (f\<lparr>f_short_id := NULL_TX_SID\<rparr>)"
      by (rule stands_for_change [OF assms]) (use d in \<open>simp_all add: fields_ok_def head_ok_def NULL_TX_SID_def\<close>)
    ultimately show ?thesis by blast
  qed
  have n: "float_of_time NULL_TX_TIMESTAMP = Inr 0" by (simp add: NULL_TX_TIMESTAMP_def float_of_time_def int_float_def)
  show "\<exists>m'. clear_timestamp m = (Inr (), m') \<and> stands_for m' (f\<lparr>f_time := 0\<rparr>)"
  proof -
    have "clear_timestamp m = (Inr (), m\<lparr>tx_buf := tx_image (f\<lparr>f_time := 0\<rparr>), c_timestamp := Some NULL_TX_TIMESTAMP\<rparr>)"
      using set_time_image [OF ok n b] by (simp add: clear_timestamp_def py_simps)
    moreover have "stands_for (m\<lparr>tx_buf := tx_image (f\<lparr>f_time := 0\<rparr>), c_timestamp := Some NULL_TX_TIMESTAMP\<rparr>) (f\<lparr>f_time := 0\<rparr>)"
      by (rule stands_for_change [OF assms]) (use d n in \<open>simp_all add: fields_ok_def same_time_def\<close>)
    ultimately show ?thesis by blast
  qed
qed

section \<open>Any sequence of operations\<close>

datatype tx_op =
    ReadHash | ReadNetwork | ReadSource | ReadShortId | ReadFlag | ReadTime | ReadAccount | ReadContents
  | SetFlag int | SetTime timestamp | SetSource string | ClearShortId | ClearTime | ClearProtected
  | Convert nat

definition ignoring :: "'a tx_eff \<Rightarrow> unit tx_eff" where
  "ignoring e = bindE e (\<lambda>_. returnE ())"

definition run_tx_op :: "tx_op \<Rightarrow> unit tx_eff" where
  "run_tx_op op =
     (case op of
        ReadHash \<Rightarrow> ignoring get_tx_hash | ReadNetwork \<Rightarrow> ignoring get_network_num | ReadSource \<Rightarrow> ignoring get_source_id
      | ReadShortId \<Rightarrow> ignoring get_short_id | ReadFlag \<Rightarrow> ignoring get_transaction_flag | ReadTime \<Rightarrow> ignoring get_timestamp
      | ReadAccount \<Rightarrow> ignoring get_account_id | ReadContents \<Rightarrow> ignoring get_tx_val
      | SetFlag flag \<Rightarrow> set_transaction_flag flag | SetTime t \<Rightarrow> set_timestamp t | SetSource s \<Rightarrow> set_source_id s
      | ClearShortId \<Rightarrow> clear_short_id | ClearTime \<Rightarrow> clear_timestamp | ClearProtected \<Rightarrow> clear_protected_fields
      | Convert v \<Rightarrow> tryE (ignoring (convert_message_to_older_version v)) (\<lambda>_. returnE ()))"

text \<open>Flags that exist, times that are floats or fit into one, and node ids as \<open>source_id\<close> writes them.\<close>

definition tx_op_ok :: "tx_op \<Rightarrow> bool" where
  "tx_op_ok op =
     (case op of SetFlag flag \<Rightarrow> flags_ok flag | SetTime t \<Rightarrow> (case float_of_time t of Inl _ \<Rightarrow> False | Inr _ \<Rightarrow> True)
      | SetSource s \<Rightarrow> source_text (to_bytes s) = s | _ \<Rightarrow> True)"

definition change_fields :: "tx_op \<Rightarrow> tx_fields \<Rightarrow> tx_fields" where
  "change_fields op f =
     (case op of
        SetFlag flag \<Rightarrow> f\<lparr>f_flag := flag\<rparr>
      | SetTime t \<Rightarrow> (case float_of_time t of Inl _ \<Rightarrow> f | Inr w \<Rightarrow> f\<lparr>f_time := w\<rparr>)
      | SetSource s \<Rightarrow> f\<lparr>f_source := s\<rparr>
      | ClearShortId \<Rightarrow> f\<lparr>f_short_id := NULL_TX_SID\<rparr>
      | ClearTime \<Rightarrow> f\<lparr>f_time := 0\<rparr>
      | ClearProtected \<Rightarrow> f\<lparr>f_short_id := NULL_TX_SID, f_time := 0\<rparr>
      | _ \<Rightarrow> f)"

lemma run_tx_op_stands:
  assumes "stands_for m f" "tx_op_ok op"
  shows "\<exists>m'. run_tx_op op m = (Inr (), m') \<and> stands_for m' (change_fields op f)"
proof (cases op)
  case (SetTime t)
  then obtain w where "float_of_time t = Inr w" using assms(2) by (auto simp: tx_op_ok_def split: sum.splits)
  then show ?thesis using set_fields(2) [OF assms(1)] SetTime by (simp add: run_tx_op_def change_fields_def)
next
  case ClearProtected
  obtain m1 where "clear_short_id m = (Inr (), m1)" "stands_for m1 (f\<lparr>f_short_id := NULL_TX_SID\<rparr>)" using set_fields(4) [OF assms(1)] by blast
  then show ?thesis using set_fields(5) [of m1] ClearProtected by (auto simp: run_tx_op_def change_fields_def clear_protected_fields_def py_simps)
next
  case (Convert v)
  have "stands_for (snd (convert_message_to_older_version v m)) f"
    using assms(1) stands_for_put(9) [OF assms(1)]
    by (auto simp: convert_message_to_older_version_def py_simps split: sum.splits option.splits)
  then show ?thesis using Convert by (auto simp: run_tx_op_def change_fields_def ignoring_def py_simps split: sum.splits)
qed (use get_fields [OF assms(1)] set_fields [OF assms(1)] assms(2) in
    \<open>fastforce simp: run_tx_op_def change_fields_def tx_op_ok_def ignoring_def py_simps\<close>)+

lemma run_tx_ops_stand:
  "stands_for m f \<Longrightarrow> list_all tx_op_ok ops \<Longrightarrow> \<exists>m'. forE run_tx_op ops m = (Inr (), m') \<and> stands_for m' (fold change_fields ops f)"
proof (induction ops arbitrary: m f)
  case (Cons op ops)
  obtain m1 where "run_tx_op op m = (Inr (), m1)" "stands_for m1 (change_fields op f)"
    using run_tx_op_stands [OF Cons.prems(1), of op] Cons.prems(2) by auto
  with Cons.IH [of m1 "change_fields op f"] Cons.prems(2) show ?case by (simp add: py_simps)
qed (simp add: py_simps)

definition new_tx_message :: "tx_fields \<Rightarrow> bytes res" where
  "new_tx_message f =
     TxMessage (f_hash f) (f_network f) (f_source f) (f_short_id f) (f_contents f) (f_flag f) (TFloat (f_time f)) (f_account f)"

lemma new_tx_message_image: "fields_ok f \<Longrightarrow> new_tx_message f = Inr (tx_image f)"
  by (simp add: new_tx_message_def fields_ok_def tx_image_def TxMessage_run)

text \<open>What all the accessors of a message return.\<close>

definition shows_fields :: "tx_message \<Rightarrow> tx_fields \<Rightarrow> bool" where
  "shows_fields m f \<longleftrightarrow>
     fst (get_tx_hash m) = Inr (f_hash f) \<and> fst (get_network_num m) = Inr (f_network f) \<and> fst (get_source_id m) = Inr (f_source f) \<and>
     fst (get_short_id m) = Inr (f_short_id f) \<and> fst (get_transaction_flag m) = Inr (f_flag f) \<and>
     bindR (fst (get_timestamp m)) float_of_time = Inr (f_time f) \<and> fst (get_account_id m) = Inr (f_account f) \<and>
     fst (get_tx_val m) = Inr (f_contents f)"

lemma stands_for_shows: "stands_for m f \<Longrightarrow> shows_fields m f"
  using get_fields [of m f] by (auto simp: shows_fields_def same_time_def)


text \<open>The message that a version keeps of another one, as fields.\<close>

definition fields_fit :: "tx_fields \<Rightarrow> int \<Rightarrow> bool" where
  "fields_fit f seconds \<longleftrightarrow>
     fields_ok f \<and> tx_fits (f_hash f) (f_network f) (f_short_id f) (f_contents f) (f_flag f) (f_time f) seconds (f_account f)"

lemma convert_fresh:
  "has_converter v \<Longrightarrow> version_converter v (ascii ''tx'') = Inr c \<Longrightarrow> run_to_older c buf = Inr old \<Longrightarrow>
    convert_message_to_older_version v (tx_from_buffer buf) = (Inr old, (tx_from_buffer buf)\<lparr>converted_message := [(v, old)]\<rparr>)"
  by (simp add: convert_message_to_older_version_def py_simps tx_from_buffer_def guardR_def)


text \<open>(C29) Version 7: the contents that a node of version 7 reads are not those of the message, but half of its time and its account in front of them.\<close>

theorem v7_contents_shifted:
  assumes "fields_fit f seconds"
  shows "\<exists>buf old. new_tx_message f = Inr buf \<and> fst (convert_message_to_older_version 7 (tx_from_buffer buf)) = Inr old \<and>
    short_id_v7 old = Inr (f_short_id f) \<and>
    tx_val_v7 old = Inr (drop 4 (nat_le 8 (unat (f_time f))) @ account_enc (f_account f) @ f_contents f)"
proof -
  have ok: "fields_ok f" and fits: "tx_fits (f_hash f) (f_network f) (f_short_id f) (f_contents f) (f_flag f) (f_time f) seconds (f_account f)"
    using assms(1) by (auto simp: fields_fit_def)
  let ?c = "drop 4 (double_enc (TFloat (f_time f))) @ account_enc (f_account f) @ f_contents f"
  let ?old = "tx_frame (f_hash f) (f_network f) (f_source f) (f_short_id f) (take 1 (flag_bytes (f_flag f))) ?c"
  have hc: "has_converter 7" by (simp add: has_converter_iff PROTOCOL_VERSION_def)
  have r: "run_to_older TxV7 (tx_image f) = Inr ?old"
    using v7_to [OF fits, of "f_source f"] by (simp add: run_to_older_def tx_image_def)
  have hd: "head_ok (f_hash f) (f_network f) (f_short_id f)" using ok by (simp add: fields_ok_def)
  have "tx_val_v7 ?old = Inr ?c"
    unfolding tx_val_v7_def using ok by (intro read_contents [OF hd]) (simp_all add: fields_ok_def)
  moreover have "short_id_v7 ?old = Inr (f_short_id f)" unfolding short_id_v7_def by (rule read_head(4) [OF hd])
  ultimately show ?thesis
    using convert_fresh [OF hc tx_converters(2) r] new_tx_message_image [OF ok] by (simp add: double_enc_def)
qed

text \<open>(C30) A converted message is kept, and a later change of the flags does not reach it: the peer of version 21 gets the old flags.\<close>

theorem stale_conversion:
  assumes "fields_fit f seconds" "flags_ok flag"
  shows "\<exists>buf old m1 m2 fresh. new_tx_message f = Inr buf \<and>
    convert_message_to_older_version 21 (tx_from_buffer buf) = (Inr old, m1) \<and>
    set_transaction_flag flag m1 = (Inr (), m2) \<and> fst (get_transaction_flag m2) = Inr flag \<and>
    fst (convert_message_to_older_version 21 m2) = Inr old \<and> transaction_flag_v21 old = Inr (f_flag f) \<and>
    fst (convert_message_to_older_version 21 (tx_from_buffer (tx_buf m2))) = Inr fresh \<and> transaction_flag_v21 fresh = Inr flag"
proof -
  have ok: "fields_ok f" and fits: "tx_fits (f_hash f) (f_network f) (f_short_id f) (f_contents f) (f_flag f) (f_time f) seconds (f_account f)"
    using assms(1) by (auto simp: fields_fit_def)
  let ?g = "f\<lparr>f_flag := flag\<rparr>"
  let ?old = "\<lambda>f. tx_frame (f_hash f) (f_network f) (f_source f) (f_short_id f) (mid_v21 (f_flag f) (f_time f)) (f_contents f)"
  have gfits: "tx_fits (f_hash ?g) (f_network ?g) (f_short_id ?g) (f_contents ?g) (f_flag ?g) (f_time ?g) seconds (f_account ?g)"
    using fits assms(2) by (simp add: tx_fits_def)
  have hc: "has_converter 21" by (simp add: has_converter_iff PROTOCOL_VERSION_def)
  have r: "run_to_older TxV21 (tx_image f) = Inr (?old f)" "run_to_older TxV21 (tx_image ?g) = Inr (?old ?g)"
    using v21_trip(1) [OF fits, of "f_source f"] v21_trip(1) [OF gfits, of "f_source ?g"]
    by (simp_all add: run_to_older_def tx_image_def)
  let ?m1 = "(tx_from_buffer (tx_image f))\<lparr>converted_message := [(21, ?old f)]\<rparr>"
  have "stands_for ?m1 f" using stands_for_put(9) [OF stands_for_new [OF ok]] .
  from set_fields(1) [OF this assms(2)] obtain m2 where m2: "set_transaction_flag flag ?m1 = (Inr (), m2)" "stands_for m2 ?g" by blast
  have "converted_message m2 = [(21, ?old f)]"
    using m2(1) set_flag_image [OF ok assms(2), of "?m1\<lparr>c_flag := Some flag\<rparr>"] by (auto simp: set_transaction_flag_def py_simps tx_from_buffer_def)
  then have "fst (convert_message_to_older_version 21 m2) = Inr (?old f)"
    using hc by (simp add: convert_message_to_older_version_def py_simps guardR_def)
  moreover have "fst (get_transaction_flag m2) = Inr flag" using stands_for_shows [OF m2(2)] by (simp add: shows_fields_def)
  moreover have "tx_buf m2 = tx_image ?g" using m2(2) by (simp add: stands_for_def)
  moreover have "transaction_flag_v21 (?old f) = Inr (f_flag f)" "transaction_flag_v21 (?old ?g) = Inr flag"
    using fits assms(2) by (simp_all add: tx_fits_def read_v21)
  ultimately show ?thesis
    using convert_fresh [OF hc tx_converters(7) r(1)] convert_fresh [OF hc tx_converters(7) r(2)] m2(1) new_tx_message_image [OF ok] by auto
qed

section \<open>Concrete messages\<close>

definition sample_fields :: tx_fields where
  "sample_fields =
     \<lparr>f_hash = replicate 32 7, f_network = 5, f_source = source_text (replicate 16 3), f_short_id = 77, f_flag = 0x42,
      f_time = 0x41D7D78400200000, f_account = [0x35, 0x61], f_contents = [1, 2, 3]\<rparr>"

lemma sample_ok: "fields_fit sample_fields 1600000000"
proof -
  have "account_ok [0x35, 0x61]" by (simp add: account_ok_def)
  moreover have "float_int 0x41D7D78400200000 = Inr 1600000000" by (simp add: float_int_def Let_def)
  moreover have "source_text (to_bytes (source_text (replicate 16 3))) = source_text (replicate 16 3)" by (simp add: to_bytes_source_text)
  ultimately show ?thesis
    by (simp add: fields_fit_def fields_ok_def tx_fits_def sample_fields_def head_ok_def flags_ok_def SHA256_HASH_LEN_def broadcast_length_def)
qed



lemma nat_be_numeral: "nat_be (numeral v) n = nat_be (pred_numeral v) (n div 256) @ [word_of_nat (n mod 256)]"
  using nat_be.simps(2) [of "pred_numeral v" n] by (simp only: numeral_eq_Suc [of v])

lemma v7_contents_shifted_witness:
  "\<exists>buf old. new_tx_message sample_fields = Inr buf \<and> fst (convert_message_to_older_version 7 (tx_from_buffer buf)) = Inr old \<and>
    tx_val_v7 old = Inr ([0x84, 0xD7, 0xD7, 0x41] @ account_enc [0x35, 0x61] @ [1, 2, 3])"
proof -
  have "drop 4 (nat_le 8 (unat (0x41D7D78400200000 :: 64 word))) = [0x84, 0xD7, 0xD7, 0x41]"
    by (simp add: nat_le_def nat_be_numeral)
  then show ?thesis using v7_contents_shifted [OF sample_ok] by (auto simp: sample_fields_def)
qed

lemma stale_conversion_witness:
  "\<exists>buf old m1 m2 fresh. new_tx_message sample_fields = Inr buf \<and>
    convert_message_to_older_version 21 (tx_from_buffer buf) = (Inr old, m1) \<and>
    set_transaction_flag 2 m1 = (Inr (), m2) \<and> fst (convert_message_to_older_version 21 m2) = Inr old \<and> transaction_flag_v21 old = Inr 0x42 \<and>
    fst (convert_message_to_older_version 21 (tx_from_buffer (tx_buf m2))) = Inr fresh \<and> transaction_flag_v21 fresh = Inr 2"
  using stale_conversion [OF sample_ok, of 2] by (simp add: flags_ok_def) (simp add: sample_fields_def, blast)

end
