(* ===== verification/Spec2Isabelle.thy ===== *)
theory Spec2Isabelle
  imports Examples Rlp LibExamples TxExamples WireExamples ConnPool TxState
begin

text \<open>
  A verification development of the Compound/Venus liquidation bot (src/compound.py with src/configs, src/transaction,
  src/utils.py, src/bots.py, src/liquidations.py) and of the parts of the bloXroute library src/bxcommon that keep state of
  their own: the buffers of a connection, the alarm queue, the containers, the transaction service, the wire formats, and the
  synchronisation of two nodes.

  \<^bold>\<open>The program.\<close> The bot keeps every user of a lending protocol with its positions, follows the logs of the markets,
  and computes a health factor for each user: the collateral weighted with the collateral factors over the debt, both priced by an oracle.
  Pending oracle reports change a price before the block that confirms it. Users who fall below the threshold are simulated: the
  pair of debt and collateral with the best profit is chosen, a route through the liquidity pools is quoted, and a transaction for
  the liquidation contract is built, signed and sent. The callbacks of the subscriptions (logs, block headers, pending reports,
  the idle loop) run one after the other on one shared state. The library is a relay network: a connection cuts the bytes it receives into frames,
  hands the messages to handlers, and a transaction service keeps which short id stands for which transaction; a node that starts asks
  another one for its transactions, which are sent message by message.

  \<^bold>\<open>Theories and the code they model.\<close> Each theory imports those above it that its code calls.
  \<^item> \<open>PyBase\<close>, \<open>PyFloat\<close>, \<open>PyStr\<close>, \<open>PyJson\<close>: the prelude. Exceptions are values of \<open>py_error\<close>, a computation that may raise is
    \<open>'a res\<close>, one that also changes state is \<open>('s, 'a) eff\<close>, so the state changed before an exception is kept, as in Python. Dictionaries are
    association lists in insertion order. A float is the rational it denotes and every operation rounds to 53 bits;
    infinities, NaN and the smallest exponents are not modelled. Text is a list of characters, bytes are 8-bit words.
  \<^item> \<open>Config\<close>, \<open>Tokens\<close>, \<open>Events\<close>, \<open>EventLoop\<close>: configs/config.py, tokens.py, event.py, vai.py, utils.py and types_light.py;
    the records of the markets, logs, and the catch-up loop over past blocks.
  \<^item> \<open>Users\<close>, \<open>UsersView\<close>: configs/users.py. User objects are shared between views, so they live in a store and
    a view holds references; the aliasing of the high-profit view is part of the model.
  \<^item> \<open>Chain\<close>, \<open>Signals\<close>, \<open>Router\<close>: configs/comet.py, block.py, protocol.py, web3_liq.py, signals.py and router.py.
  \<^item> \<open>Bots\<close>, \<open>Sending\<close>, \<open>Listening\<close>: bots.py, tx.py, transaction/types.py, send.py, account.py, liquidations.py and utils.py.
  \<^item> \<open>Health\<close>, \<open>Liquidation\<close>, \<open>Bot\<close>: compound.py; the health factors and trimmed lists, the simulation of a liquidation, and
    the callbacks over the record \<open>bot_state\<close>.
  \<^item> \<open>Rlp\<close>: bxcommon/utils/blockchain_utils/eth/rlp_utils.py.
  \<^item> \<open>Buffers\<close>, \<open>OutBuffer\<close>, \<open>Tracker\<close>: bxcommon/utils/buffers and the sending loop of
    bxcommon/network/abstract_socket_connection_protocol.py.
  \<^item> \<open>Heapq\<close>, \<open>Alarms\<close>: Python's heap operations, translated from the standard library, and bxcommon/utils/alarm_queue.py. Alarm ids
    are shared between heaps and live in a store.
  \<^item> \<open>Containers\<close>, \<open>Expiring\<close>: the priority and expiration queues, the containers of limited size and the expiring containers of bxcommon/utils.
  \<^item> \<open>TxService\<close>, \<open>TxRemoval\<close>, \<open>TxNode\<close>, \<open>TxRun\<close>: bxcommon/services/transaction_service.py on the alarm queue of its node.
  \<^item> \<open>Wire\<close>, \<open>Serializers\<close>: bytes at an offset of a buffer with Python's \<open>struct\<close>, and the serializers of
    bxcommon/messages/bloxroute (short ids, blocks, transactions, the state of a service), over a codec of a field.
  \<^item> \<open>Framing\<close>, \<open>FrameRun\<close>, \<open>Messages\<close>: the header of a message and its validation, \<open>process_message\<close> of bxcommon/connections/abstract_connection.py
    over the input buffer, and the messages that ask for transactions with their answers.
  \<^item> \<open>Sync\<close>, \<open>SyncSend\<close>, \<open>SyncRun\<close>, \<open>SyncReceive\<close>: the messages of a synchronisation, bxcommon/services/tx_sync_service_helpers.py (which
    transactions go into a message), the senders of tx_sync_service.py on the alarm queue and connection of their node (record \<open>sync_world\<close>), what
    their rounds do, and the receiver (record \<open>sync_receiver\<close>).
  \<^item> \<open>TxFields\<close>, \<open>TxMessages\<close>, \<open>TxVersions\<close>, \<open>TxState\<close>: the transaction message (messages/bloxroute/tx_message.py on abstract_broadcast_message.py), its
    formats in the protocol versions v6 to v21 with their converters and mappings, and the message as an object with what it caches (record
    \<open>tx_message\<close>) under messages/versioning/abstract_version_manager.py. Here a float is its IEEE bit pattern.
  \<^item> \<open>ConnPool\<close>: bxcommon/connections/connection_pool.py over a store of connections, and what abstract_node.py does to the pool when a connection comes and goes.
  \<^item> \<open>Samples\<close>, \<open>Examples\<close>, \<open>LibExamples\<close>, \<open>TxExamples\<close>, \<open>WireExamples\<close>: concrete states, and each property applied at one.

  \<^bold>\<open>What the lemmas show.\<close>
  \<^item> A round (this theory): a sent transaction liquidates a user whose debt exceeds the weighted collateral, within the bounds of the
    collateral and the close factor; a block header takes back unconfirmed prices that have grown old.
  \<^item> The users: what each log does to the positions, that the catch-up ends and conserves collateral, what survives the cache file.
  \<^item> Searches: the binary search splits the sorted users, the trimmed list has exactly the stale users of its band, the route search is
    optimal, the parallel loop equals the plain one.
  \<^item> Round trips: oracle reports, RLP integers and lists, the cache files, the scaled price texts.
  \<^item> The library: bytes leave a buffer in the order they came (locale \<open>byte_queue\<close>, interpreted for both buffers), the tracker refines the
    buffer, the heap of the alarms is a minimum queue (\<open>min_queue\<close>), due alarms are fired in order, expiring containers
    hold what their queue holds (\<open>expiry\<close>).
  \<^item> The transaction service: an invariant of all reachable states (\<open>tx_step\<close>, \<open>tx_reachable\<close>), that nothing raises as long as no
    short id is given to a second transaction, that expiry stays scheduled, that the memory limit holds; and what goes wrong otherwise.
  \<^item> The wire: what is written is read back (the laws of \<open>field_codec\<close>, carried over to pairs and lists of fields), and a stream of frames is handled the
    same way however it is cut into pieces.
  \<^item> The synchronisation: a transaction is sent once and in order from a snapshot and from a buffer, at most once from the times of the
    assignments, which loses transactions of equal times; all rounds together (\<open>sync_rounds\<close>) send the whole snapshot and then the message of
    completion; a service that has processed a message knows the transactions in it.
  \<^item> The transaction message: every version reads back what it packs; a message stands for its fields (\<open>stands_for\<close>) through any sequence of
    reads, changes and conversions; what comes back from an older version is what its format has of the message, except for version 7, whose contents are
    shifted; a cached conversion does not see later changes.
  \<^item> The connection pool: its five indexes agree over any run; a second connection to a peer is lost from one of them when the first is closed.
  The interfaces are locales: \<open>rounding\<close>, \<open>event_consumer\<close>, \<open>price_scaling\<close>, \<open>swap_quote\<close>, \<open>market_view\<close> with its extensions \<open>bot_view\<close>
  and \<open>block_view\<close>, \<open>byte_queue\<close>, \<open>min_queue\<close>, \<open>expiry\<close>, \<open>field_codec\<close>. Each is interpreted on the model's own definitions.

  \<^bold>\<open>Loops.\<close> The loops that depend on the outside world (\<open>query_events_loop\<close>, \<open>subscribe_full\<close>, \<open>send_loop\<close>, \<open>fire_loop\<close>,
  \<open>fire_ready_loop\<close>, \<open>process_message\<close>) are partial functions whose value is \<open>None\<close> when they do not return; that they return is proved for the first
  three and the last under the conditions that the properties name. \<open>walk_txs\<close> ends because each step moves forward in the buffer. \<open>limit_loop\<close> ends because each round shortens the queue, \<open>expire_in\<close> counts down the limit of
  500 items that the code passes, the binary search has the length of its interval as measure. No other fuel is used.

  \<^bold>\<open>The environment.\<close> What the code gets from outside is an argument of the definitions: the answers of the node and of the contracts, the
  clock (\<open>tick\<close>, which advances a world of its own), random numbers, the signature of a transaction, the functions that alarms call, the place where
  a set keeps a new member. Hypotheses about them state what the documentation of these interfaces says.

  \<^bold>\<open>Not modelled.\<close> Network requests, subscriptions and process start; logs and statistics; signatures (transaction/sign_diy.py and its Rust
  extension); the Puissant client, which has no logic of its own; the analysis scripts and tests. Of bxcommon: sockets and their event loop, the node and connection
  classes beyond the parts above (most of their methods are abstract and belong to gateways outside this repository), the other message types
  and their converters to older versions of the protocol (each a record of fields like those of \<open>Messages\<close>), the conversion of the first and last bytes of a
  message that is streamed, the models that only hold fields, the
  HTTP and RPC services, and the test utilities. In a synchronisation, the request with its relay timer and the message of completion end in abstract methods of a gateway.

  \<^bold>\<open>Order.\<close> The bot's users, health factors and liquidation were modelled first, then prices, routes and sending, then the library from its
  containers to the transaction service, the wire formats, the synchronisation, the pool and the versions of the transaction message.
\<close>

section \<open>What a round sends\<close>

definition known_market :: "ctokens \<Rightarrow> comet_configs \<Rightarrow> string \<Rightarrow> market" where
  "known_market ctk com a = (case market_of ctk com a of Inr m \<Rightarrow> m | Inl _ \<Rightarrow> (0, 0, new_ctoken_risks))"

lemma health_factor_markets:
  assumes "calculate_health_factor now (usr, rs, repay) ctk com = Inr x"
  shows "markets_are ctk com rs (known_market ctk com)"
proof -
  have "\<forall>a \<in> set (dkeys rs). market_of ctk com a = Inr (known_market ctk com a)"
    if "foldR (hf_step ctk com) rs ab = Inr y" for ab y
    using that
  proof (induction rs arbitrary: ab)
    case (Cons kv rs)
    obtain a r where "kv = (a, r)" by (cases kv)
    then show ?case using Cons by (cases ab) (auto simp: hf_step_market known_market_def)
  qed simp
  moreover have "\<exists>y. foldR (hf_step ctk com) rs (0, 0) = Inr y"
    using assms by (auto simp: calculate_health_factor_def)
  ultimately show ?thesis unfolding markets_are_def by blast
qed

lemma calculate_users_results:
  assumes "calculate_users env users b = (Inr results, b0)" "(usr, h, rs) \<in> set results"
  shows "\<exists>o1. usr \<in> set users \<and> user_of (bt_states b) usr = Inr o1 \<and>
    rs = map (\<lambda>(a, q). (a, s_reserves (bt_states b) ! q)) (reserves o1) \<and>
    calculate_health_factor (e_now env) (usr, rs, vai_repay o1) (s_ctokens (bt_states b)) (bt_comet b) = Inr (usr, h, rs)"
proof -
  obtain args where args: "gen_users_with_args (bt_states b) users = Inr args"
    and r: "mapR (\<lambda>u. calculate_health_factor (e_now env) u (s_ctokens (bt_states b)) (bt_comet b)) args = Inr results"
    using assms(1) by (auto simp: calculate_users_def py_simps execution_select_def signal_calculate_health_factor_def)
  obtain u where u: "u \<in> set args"
    "calculate_health_factor (e_now env) u (s_ctokens (bt_states b)) (bt_comet b) = Inr (usr, h, rs)"
    using mapR_in [OF r assms(2)] by blast
  obtain usr1 rs1 v where u1: "u = (usr1, rs1, v)" by (cases u)
  have same: "usr1 = usr" "rs1 = rs" using health_factor_shape [OF u(2) [unfolded u1]] by auto
  obtain w o1 where "w \<in> set users" "user_of (bt_states b) w = Inr o1"
    "u = (w, map (\<lambda>(a, q). (a, s_reserves (bt_states b) ! q)) (reserves o1), vai_repay o1)"
    using mapR_in [OF args [unfolded gen_users_with_args_def] u(1)] by auto
  then show ?thesis using u(2) u1 same by auto
qed

definition underwater :: "bot \<Rightarrow> string \<Rightarrow> bool" where
  \<comment> \<open>the user's collateral, weighted by the collateral factors, is positive and does not cover the debt\<close>
  "underwater b usr \<longleftrightarrow> (\<exists>o1 rs M. user_of (bt_states b) usr = Inr o1 \<and>
     rs = map (\<lambda>(a, q). (a, s_reserves (bt_states b) ! q)) (reserves o1) \<and>
     markets_are (s_ctokens (bt_states b)) (bt_comet b) rs M \<and>
     0 < col_sum M rs \<and> col_sum M rs < debt_sum M rs + vai_repay o1)"

lemma underwater_result:
  assumes "calculate_users env users b = (Inr results, b0)" "(usr, h, rs) \<in> set results"
    and "0 < hf_value h" "hf_value h < 1"
  shows "usr \<in> set users \<and> underwater b usr"
proof -
  obtain o1 where o1: "usr \<in> set users" "user_of (bt_states b) usr = Inr o1"
    "rs = map (\<lambda>(a, q). (a, s_reserves (bt_states b) ! q)) (reserves o1)"
    "calculate_health_factor (e_now env) (usr, rs, vai_repay o1) (s_ctokens (bt_states b)) (bt_comet b) = Inr (usr, h, rs)"
    using calculate_users_results [OF assms(1,2)] by blast
  note m = health_factor_markets [OF o1(4)]
  show ?thesis using health_factor_guard [OF o1(4) m assms(3,4)] o1 m unfolding underwater_def by blast
qed

lemma liquidate_and_send_tasks:
  assumes "liquidate_and_send env results sig b = (Inr tasks, b')"
  shows "\<exists>w'. signal_simulate_health_factor (e_sign env) (e_ids env) results (s_ctokens (bt_states b)) (bt_comet b)
        (bt_blocks b) (e_pools env) (e_swap env) (map_option sr_gas_price sig) (e_send_type env) (bt_world b) = (Inr tasks, w')"
  using assms
  by (auto simp: liquidate_and_send_def py_simps on_world_def zoom_def split: sum.splits prod.splits)

lemma user_positions:
  assumes "tidy s" "user_of s u = Inr o1" "(a, c) \<in> set (map (\<lambda>(a, q). (a, s_reserves s ! q)) (reserves o1))"
  shows "position s u a = Some c \<and> c \<in> set (s_reserves s)"
proof -
  obtain r where r: "dget (users_states s) u = Some r" "o1 = s_users s ! r"
    using assms(2) by (auto simp: user_of_def user_ref_def)
  have ok: "store_ok s" using assms(1) by (simp add: tidy_def)
  obtain q where q: "(a, q) \<in> set (reserves o1)" "c = s_reserves s ! q" using assms(3) by auto
  have "dget (reserves o1) a = Some q" using store_ok_user [OF ok r(1)] q(1) r(2) by (simp add: dget_mem)
  then have "pos_ref s u a = Some q" using r by (simp add: pos_ref_def)
  then show ?thesis using store_ok_pos_ref [OF ok] q(2) by (simp add: position_pos_ref)
qed





section \<open>A block header brings back stale prices\<close>

lemma set_exchange_rate_prices:
  assumes "set_exchange_rate tok v s = (r, s')"
  shows "ctk_price (s_ctokens s') a = ctk_price (s_ctokens s) a"
  using assms
  by (auto simp: set_exchange_rate_def mod_ctoken_def dict_upd_def py_simps ctk_price_def dgetR_def
      split: option.splits sum.splits if_splits)

lemma on_message_states:
  assumes "on_message env (Some h) b = (Inr (), b')"
  shows "\<exists>tok rate s1. set_exchange_rate tok rate (bt_states b) = (Inr (), s1) \<and>
    forE (\<lambda>reserve. mod_price reserve (modE (CtokenPrice_revert (e_now env)))) (e_reserves env) s1 = (Inr (), bt_states b')"
proof -
  define F :: "(high_states, unit) eff" where
    "F = forE (\<lambda>reserve. mod_price reserve (modE (CtokenPrice_revert (e_now env)))) (e_reserves env)"
  have *: "on_message env (Some h) b = (Inr (), b') \<Longrightarrow> \<exists>tok rate s1. set_exchange_rate tok rate (bt_states b) = (Inr (), s1) \<and>
     F s1 = (Inr (), bt_states b')"
    unfolding on_message_def F_def [symmetric] Let_def option.case bindE_Inr_iff thenE_Inr_iff
    by (clarsimp simp: eff_apply on_states_apply on_other_apply) (metis prod.collapse)
  then show ?thesis using assms F_def by blast
qed

text \<open>(C3) Between two confirmed prices, whatever headers, idle rounds, market logs, pending reports and
  receipts come in any order, the next block header that is handled without an exception brings a
  market whose pending price is older than 15 seconds back to its last confirmed price.\<close>

theorem header_restores_prices:
  assumes "quiet_step\<^sup>*\<^sup>* b b1" "anchored G (bt_states b)"
    and "on_message env (Some h) b1 = (Inr (), b2)" "a \<in> set (e_reserves env)"
    and "\<forall>p. ctk_price (s_ctokens (bt_states b1)) a = Inr p \<longrightarrow> is_comfired p \<or> price_last_update p + 15 < e_now env"
  shows "\<exists>p. ctk_price (s_ctokens (bt_states b2)) a = Inr p \<and> is_comfired p \<and> price_current p = G a"
proof -
  have an: "anchored G (bt_states b1)" by (rule anchored_quiet [OF assms(1,2)])
  obtain tok rate s1 where s1: "set_exchange_rate tok rate (bt_states b1) = (Inr (), s1)"
    and f: "forE (\<lambda>reserve. mod_price reserve (modE (CtokenPrice_revert (e_now env)))) (e_reserves env) s1 = (Inr (), bt_states b2)"
    using on_message_states [OF assms(3)] by blast
  have "anchored G s1" using keepsD [OF anchored_exchange_rate an, of tok rate] s1 by simp
  then show ?thesis
    by (rule revert_all [OF f _ assms(4)]) (use assms(5) set_exchange_rate_prices [OF s1] in auto)
qed

theorem header_restores_prices_witness:
  "quiet_step stale_bot (snd (on_sender (process_receipts [''0x1'']) stale_bot)) \<and>
   (\<exists>b2. on_message stale_env (Some stale_header) stale_bot = (Inr (), b2) \<and>
     (\<exists>p. ctk_price (s_ctokens (bt_states b2)) ''vA'' = Inr p \<and> price_current p = EXP_SCALE))"
proof -
  have q: "quiet_step stale_bot (snd (on_sender (process_receipts [''0x1'']) stale_bot))" by (rule quiet_step.receipts)
  have same: "snd (on_sender (process_receipts [''0x1'']) stale_bot) = stale_bot" by (rule stale_receipt)
  have qs: "quiet_step\<^sup>*\<^sup>* stale_bot stale_bot" using q unfolding same by blast
  obtain b2 where b2: "on_message stale_env (Some stale_header) stale_bot = (Inr (), b2)" using stale_message by blast
  have "a \<in> set (e_reserves stale_env)" if "a = ''vA''" for a using that by (simp add: stale_env_def)
  then have "\<exists>p. ctk_price (s_ctokens (bt_states b2)) ''vA'' = Inr p \<and> is_comfired p \<and> price_current p = EXP_SCALE"
    using header_restores_prices [OF qs stale_anchored b2, of "''vA''"] stale_price by simp
  with q b2 show ?thesis by blast
qed

end
